(* ===== verification/Nachos_Prelude.thy ===== *)
theory Nachos_Prelude
  imports Main "HOL-Library.Word" "HOL-Library.Signed_Division"
begin

text \<open>
  Shared vocabulary of the development.

  \<^item> The C++ sources are compiled for a 32-bit host (\<open>-m32\<close>): an \<open>int\<close> whose overflow a
    component depends on is a 32-bit word, every other \<open>int\<close> is a HOL \<open>int\<close> and the
    bounds that keep it inside 32 bits are part of the invariants.
  \<^item> A computation that can stop the simulator returns \<open>fault + 'a\<close>:
    \<open>Assert_Failed\<close> is a failed \<open>ASSERT\<close> (lib/debug.h, it calls \<open>Abort\<close>),
    \<open>Bad_Access\<close> a read or write outside an object or through a null pointer (undefined in
    C++), \<open>Arith_Trap\<close> a division the host traps on, \<open>Diverges\<close> a loop that has used up
    the bound given for it, and \<open>Machine_Halt\<close> the orderly \<open>Interrupt::Halt\<close>.
  \<^item> \<open>arr_get\<close> and \<open>arr_set\<close> are C array accesses with the bounds made explicit.
  \<^item> \<open>bytes_of_word\<close>, \<open>bytes_of_int\<close> and their inverses give the little-endian memory
    layout of the host (and of the simulated MIPS).
\<close>

unbundle bit_operations_syntax

section \<open>Faults and fallible computations\<close>

datatype fault = Assert_Failed | Bad_Access | Arith_Trap | Diverges | Machine_Halt

type_synonym 'a res = "fault + 'a"

definition bindE :: "'a res \<Rightarrow> ('a \<Rightarrow> 'b res) \<Rightarrow> 'b res" where
  "bindE m k = (case m of Inl e \<Rightarrow> Inl e | Inr x \<Rightarrow> k x)"

definition assertE :: "bool \<Rightarrow> unit res" where
  "assertE b = (if b then Inr () else Inl Assert_Failed)"

named_theorems res_simps \<open>evaluation of fallible computations\<close>

lemma bindE_simps [simp, res_simps]:
  "bindE (Inl e) k = Inl e"
  "bindE (Inr x) k = k x"
  by (simp_all add: bindE_def)

lemma bindE_eq_Inr [res_simps]:
  "bindE m k = Inr y \<longleftrightarrow> (\<exists>x. m = Inr x \<and> k x = Inr y)"
  by (cases m) simp_all

lemma bindE_eq_Inl [res_simps]:
  "bindE m k = Inl e \<longleftrightarrow> m = Inl e \<or> (\<exists>x. m = Inr x \<and> k x = Inl e)"
  by (cases m) simp_all

lemma bindE_assoc: "bindE (bindE m k) h = bindE m (\<lambda>x. bindE (k x) h)"
  by (cases m) simp_all

lemma assertE_simps [simp, res_simps]:
  "assertE True = Inr ()"
  "assertE False = Inl Assert_Failed"
  by (simp_all add: assertE_def)

lemma assertE_eq_Inr [res_simps]: "assertE b = Inr u \<longleftrightarrow> b"
  by (simp add: assertE_def)

lemma assertE_eq_Inl [res_simps]: "assertE b = Inl e \<longleftrightarrow> \<not> b \<and> e = Assert_Failed"
  by (auto simp: assertE_def)

section \<open>Arrays with explicit bounds\<close>

definition arr_get :: "'a list \<Rightarrow> int \<Rightarrow> 'a res" where
  "arr_get xs i = (if 0 \<le> i \<and> i < int (length xs) then Inr (xs ! nat i) else Inl Bad_Access)"

definition arr_set :: "'a list \<Rightarrow> int \<Rightarrow> 'a \<Rightarrow> 'a list res" where
  "arr_set xs i v =
     (if 0 \<le> i \<and> i < int (length xs) then Inr (xs[nat i := v]) else Inl Bad_Access)"

lemma arr_get_ok [simp]: "0 \<le> i \<Longrightarrow> i < int (length xs) \<Longrightarrow> arr_get xs i = Inr (xs ! nat i)"
  by (simp add: arr_get_def)

lemma arr_set_ok [simp]:
  "0 \<le> i \<Longrightarrow> i < int (length xs) \<Longrightarrow> arr_set xs i v = Inr (xs[nat i := v])"
  by (simp add: arr_set_def)

lemma arr_get_eq_Inr [res_simps]:
  "arr_get xs i = Inr v \<longleftrightarrow> 0 \<le> i \<and> i < int (length xs) \<and> xs ! nat i = v"
  by (auto simp: arr_get_def)

lemma arr_set_eq_Inr [res_simps]:
  "arr_set xs i v = Inr ys \<longleftrightarrow> 0 \<le> i \<and> i < int (length xs) \<and> xs[nat i := v] = ys"
  by (auto simp: arr_set_def)

section \<open>Integer division and the macros of lib/utility.h\<close>

text \<open>
  C division truncates towards zero: \<open>sdiv\<close> and \<open>smod\<close>. On non-negative operands they are
  \<open>div\<close> and \<open>mod\<close>.
\<close>

lemma sdiv_nonneg [simp]: "0 \<le> (a::int) \<Longrightarrow> 0 \<le> b \<Longrightarrow> a sdiv b = a div b"
  by (cases "a = 0"; cases "b = 0") (simp_all add: signed_divide_int_def)

lemma smod_nonneg [simp]: "0 \<le> (a::int) \<Longrightarrow> 0 \<le> b \<Longrightarrow> a smod b = a mod b"
  by (cases "a = 0") (simp_all add: signed_modulo_int_def)

definition divRoundDown :: "int \<Rightarrow> int \<Rightarrow> int" where
  "divRoundDown n s = n sdiv s"

definition divRoundUp :: "int \<Rightarrow> int \<Rightarrow> int" where
  "divRoundUp n s = n sdiv s + (if n smod s > 0 then 1 else 0)"

lemma divRoundUp_bounds:
  assumes "0 \<le> n" "0 < s"
  shows "n \<le> divRoundUp n s * s" and "divRoundUp n s * s < n + s"
proof -
  define q where "q = n div s * s"
  define r where "r = n mod s"
  have eq: "n = q + r" unfolding q_def r_def by simp
  have b: "0 \<le> r" "r < s" unfolding r_def using assms by simp_all
  have up: "divRoundUp n s * s = q + (if r > 0 then s else 0)"
    unfolding q_def r_def using assms by (simp add: divRoundUp_def algebra_simps)
  show "n \<le> divRoundUp n s * s" unfolding up using eq b by simp
  show "divRoundUp n s * s < n + s" unfolding up using eq b assms(2) by simp
qed

lemma divRoundUp_nonneg: "0 \<le> n \<Longrightarrow> 0 < s \<Longrightarrow> 0 \<le> divRoundUp n s"
  by (simp add: divRoundUp_def pos_imp_zdiv_nonneg_iff)

lemma div_less_divRoundUp:
  assumes "0 \<le> i" "i < n" "0 < s"
  shows "i div s < divRoundUp n s"
proof -
  have "i div s * s \<le> i"
    using assms(3) by (simp add: div_mult_mod_eq minus_mod_eq_div_mult [symmetric])
  also have "i < divRoundUp n s * s"
    using assms divRoundUp_bounds(1) [of n s] by linarith
  finally show ?thesis using assms(3) by simp
qed

lemma divRoundUp_pos: "0 < n \<Longrightarrow> 0 < s \<Longrightarrow> 0 < divRoundUp n s"
  using div_less_divRoundUp [of 0 n s] by simp

section \<open>Bytes, words and integers in memory\<close>

type_synonym byte = "8 word"

definition bytes_of_word :: "32 word \<Rightarrow> byte list" where
  "bytes_of_word w = [ucast w, ucast (drop_bit 8 w), ucast (drop_bit 16 w), ucast (drop_bit 24 w)]"

fun word_of_bytes :: "byte list \<Rightarrow> 32 word" where
  "word_of_bytes [] = 0"
| "word_of_bytes (b # bs) = ucast b OR push_bit 8 (word_of_bytes bs)"

lemma length_bytes_of_word [simp]: "length (bytes_of_word w) = 4"
  by (simp add: bytes_of_word_def)

lemma word_of_bytes_of_word [simp]: "word_of_bytes (bytes_of_word w) = w"
proof (rule bit_word_eqI)
  fix n :: nat
  assume n: "n < LENGTH(32)"
  have bits: "bit (word_of_bytes (bytes_of_word w)) n \<longleftrightarrow> n < 8 \<and> bit w n
      \<or> 8 \<le> n \<and> n - 8 < 8 \<and> bit w (8 + (n - 8))
      \<or> 16 \<le> n \<and> n - 16 < 8 \<and> bit w (16 + (n - 16))
      \<or> 24 \<le> n \<and> n - 24 < 8 \<and> bit w (24 + (n - 24))"
    using n by (auto simp: bytes_of_word_def bit_or_iff bit_push_bit_iff bit_ucast_iff bit_drop_bit_eq)
  consider "n < 8" | "8 \<le> n" "n < 16" | "16 \<le> n" "n < 24" | "24 \<le> n" "n < 32" using n by fastforce
  then show "bit (word_of_bytes (bytes_of_word w)) n = bit w n"
    unfolding bits by cases (auto simp: less_diff_conv2)
qed

text \<open>Signed 32-bit integers as HOL integers; in range they survive a round trip through memory.\<close>

definition int_ok :: "int \<Rightarrow> bool" where
  "int_ok i \<longleftrightarrow> - (2 ^ 31) \<le> i \<and> i < 2 ^ 31"

definition bytes_of_int :: "int \<Rightarrow> byte list" where
  "bytes_of_int i = bytes_of_word (word_of_int i)"

definition int_of_bytes :: "byte list \<Rightarrow> int" where
  "int_of_bytes bs = sint (word_of_bytes bs)"

lemma length_bytes_of_int [simp]: "length (bytes_of_int i) = 4"
  by (simp add: bytes_of_int_def)

lemma sint_word_of_int_ok: "int_ok i \<Longrightarrow> sint (word_of_int i :: 32 word) = i"
  by (simp add: int_ok_def sint_sbintrunc' signed_take_bit_int_eq_self)

lemma int_of_bytes_of_int [simp]: "int_ok i \<Longrightarrow> int_of_bytes (bytes_of_int i) = i"
  by (simp add: int_of_bytes_def bytes_of_int_def sint_word_of_int_ok)

text \<open>An array of \<open>n\<close> integers.\<close>

definition bytes_of_ints :: "int list \<Rightarrow> byte list" where
  "bytes_of_ints xs = concat (map bytes_of_int xs)"

fun ints_of_bytes :: "nat \<Rightarrow> byte list \<Rightarrow> int list" where
  "ints_of_bytes 0 bs = []"
| "ints_of_bytes (Suc n) bs = int_of_bytes (take 4 bs) # ints_of_bytes n (drop 4 bs)"

lemma length_bytes_of_ints [simp]: "length (bytes_of_ints xs) = 4 * length xs"
  by (induction xs) (simp_all add: bytes_of_ints_def)

lemma length_ints_of_bytes [simp]: "length (ints_of_bytes n bs) = n"
  by (induction n arbitrary: bs) simp_all

lemma ints_of_bytes_of_ints:
  "\<forall>x \<in> set xs. int_ok x \<Longrightarrow> ints_of_bytes (length xs) (bytes_of_ints xs @ rest) = xs"
  by (induction xs) (simp_all add: bytes_of_ints_def)

text \<open>Replacing a slice of a buffer, as \<open>bcopy\<close> does.\<close>

definition overwrite :: "nat \<Rightarrow> 'a list \<Rightarrow> 'a list \<Rightarrow> 'a list" where
  "overwrite i new xs = take i xs @ new @ drop (i + length new) xs"

lemma length_overwrite [simp]: "i + length new \<le> length xs \<Longrightarrow> length (overwrite i new xs) = length xs"
  by (simp add: overwrite_def)

lemma nth_overwrite:
  "i + length new \<le> length xs \<Longrightarrow> k < length xs \<Longrightarrow>
   overwrite i new xs ! k = (if i \<le> k \<and> k < i + length new then new ! (k - i) else xs ! k)"
  by (auto simp: overwrite_def nth_append min_def)

lemma take_drop_overwrite [simp]:
  "i + length new \<le> length xs \<Longrightarrow> take (length new) (drop i (overwrite i new xs)) = new"
  by (simp add: overwrite_def)

lemma overwrite_self [simp]: "i + n \<le> length xs \<Longrightarrow> overwrite i (take n (drop i xs)) xs = xs"
  by (simp add: overwrite_def min_absorb2)
    (metis add.commute append_take_drop_id drop_drop)

lemma sint_nonneg_less:
  "0 \<le> i \<Longrightarrow> i < 2 ^ 31 \<Longrightarrow> int_ok i"
  by (simp add: int_ok_def)

section \<open>Sequences of calls\<close>

text \<open>
  A component as a client sees it: calls that return a reply and a new state, or a fault.
\<close>

fun run_calls :: "('c \<Rightarrow> 's \<Rightarrow> ('r \<times> 's) res) \<Rightarrow> 'c list \<Rightarrow> 's \<Rightarrow> ('r list \<times> 's) res" where
  "run_calls f [] s = Inr ([], s)"
| "run_calls f (c # cs) s =
     bindE (f c s) (\<lambda>(r, s1). bindE (run_calls f cs s1) (\<lambda>(rs, s2). Inr (r # rs, s2)))"

text \<open>Two runs agree: the same fault, or the same replies and related final states.\<close>

definition agree :: "('s \<Rightarrow> 't \<Rightarrow> bool) \<Rightarrow> ('r \<times> 's) res \<Rightarrow> ('r \<times> 't) res \<Rightarrow> bool" where
  "agree R a b = (case (a, b) of (Inl e, Inl f) \<Rightarrow> e = f
     | (Inr (r, s), Inr (q, t)) \<Rightarrow> r = q \<and> R s t | _ \<Rightarrow> False)"

lemma agree_simps [simp]:
  "agree R (Inl e) (Inl f) = (e = f)"
  "agree R (Inr (r, s)) (Inr (q, t)) = (r = q \<and> R s t)"
  by (simp_all add: agree_def)

lemma agree_bind:
  assumes "agree R a b" "\<And>r s t. R s t \<Longrightarrow> agree Q (f (r, s)) (g (r, t))"
  shows "agree Q (bindE a f) (bindE b g)"
  using assms by (cases a; cases b) (auto simp: agree_def split: prod.splits)

lemma run_calls_agree:
  assumes "\<And>c s t. R s t \<Longrightarrow> agree R (f c s) (g c t)" "R s t"
  shows "agree R (run_calls f cs s) (run_calls g cs t)"
  using assms(2)
proof (induction cs arbitrary: s t)
  case (Cons c cs)
  show ?case
    unfolding run_calls.simps
    by (rule agree_bind [OF assms(1) [OF Cons.prems]]) (auto intro!: agree_bind [OF Cons.IH])
qed simp

end
