(* ===== verification/Bitmap.thy ===== *)
theory Bitmap
  imports Nachos_Prelude
begin

text \<open>
  lib/bitmap.h and lib/bitmap.cc: an array of bits packed into unsigned 32-bit words, used for
  disk sectors (filesys/pbitmap.h), physical pages (vm/PhyMemManager.h) and thread identifiers
  (threads/ThreadManager.h).

  \<open>bitmap\<close> is the class, one definition per method; \<open>bm_used\<close> is the set of marked
  positions it represents and \<open>bm_inv\<close> the representation invariant. The locale
  \<open>allocator\<close> is the contract the clients rely on; it is interpreted on the class at the
  end of the theory.
\<close>

section \<open>The class\<close>

definition BitsInByte :: int where "BitsInByte = 8"

definition BitsInWord :: int where "BitsInWord = 4 * BitsInByte"

record bitmap =
  bm_numBits :: int
  bm_numWords :: int
  bm_map :: "32 word list"

definition Bitmap_Test :: "bitmap \<Rightarrow> int \<Rightarrow> bool res" where
  "Bitmap_Test b which =
     bindE (assertE (0 \<le> which \<and> which < bm_numBits b)) (\<lambda>_.
     bindE (arr_get (bm_map b) (which sdiv BitsInWord)) (\<lambda>w.
     Inr (w AND push_bit (nat (which smod BitsInWord)) 1 \<noteq> 0)))"

definition Bitmap_Mark :: "bitmap \<Rightarrow> int \<Rightarrow> bitmap res" where
  "Bitmap_Mark b which =
     bindE (assertE (0 \<le> which \<and> which < bm_numBits b)) (\<lambda>_.
     bindE (arr_get (bm_map b) (which sdiv BitsInWord)) (\<lambda>w.
     bindE (arr_set (bm_map b) (which sdiv BitsInWord)
              (w OR push_bit (nat (which smod BitsInWord)) 1)) (\<lambda>ws.
     bindE (Bitmap_Test (b\<lparr>bm_map := ws\<rparr>) which) (\<lambda>t.
     bindE (assertE t) (\<lambda>_. Inr (b\<lparr>bm_map := ws\<rparr>))))))"

definition Bitmap_Clear :: "bitmap \<Rightarrow> int \<Rightarrow> bitmap res" where
  "Bitmap_Clear b which =
     bindE (assertE (0 \<le> which \<and> which < bm_numBits b)) (\<lambda>_.
     bindE (arr_get (bm_map b) (which sdiv BitsInWord)) (\<lambda>w.
     bindE (arr_set (bm_map b) (which sdiv BitsInWord)
              (w AND NOT (push_bit (nat (which smod BitsInWord)) 1))) (\<lambda>ws.
     bindE (Bitmap_Test (b\<lparr>bm_map := ws\<rparr>) which) (\<lambda>t.
     bindE (assertE (\<not> t)) (\<lambda>_. Inr (b\<lparr>bm_map := ws\<rparr>))))))"

text \<open>A \<open>for\<close> loop that applies a method to the positions \<open>i, \<dots>, n - 1\<close> in order.\<close>

function for_upto :: "(bitmap \<Rightarrow> int \<Rightarrow> bitmap res) \<Rightarrow> int \<Rightarrow> int \<Rightarrow> bitmap \<Rightarrow> bitmap res" where
  "for_upto f i n b = (if i < n then bindE (f b i) (for_upto f (i + 1) n) else Inr b)"
  by pat_completeness auto
termination
  by (relation "measure (\<lambda>(f, i, n, b). nat (n - i))") auto

definition Bitmap_new :: "int \<Rightarrow> bitmap res" where
  "Bitmap_new numItems =
     bindE (assertE (numItems > 0)) (\<lambda>_.
     let words = divRoundUp numItems BitsInWord in
     for_upto Bitmap_Clear 0 numItems
       \<lparr>bm_numBits = numItems, bm_numWords = words, bm_map = replicate (nat words) 0\<rparr>)"

function Bitmap_FindAndSet_from :: "bitmap \<Rightarrow> int \<Rightarrow> (int \<times> bitmap) res" where
  "Bitmap_FindAndSet_from b i =
     (if i < bm_numBits b
      then bindE (Bitmap_Test b i) (\<lambda>t.
             if \<not> t then bindE (Bitmap_Mark b i) (\<lambda>b'. Inr (i, b'))
             else Bitmap_FindAndSet_from b (i + 1))
      else Inr (- 1, b))"
  by pat_completeness auto
termination
  by (relation "measure (\<lambda>(b, i). nat (bm_numBits b - i))") auto

definition Bitmap_FindAndSet :: "bitmap \<Rightarrow> (int \<times> bitmap) res" where
  "Bitmap_FindAndSet b = Bitmap_FindAndSet_from b 0"

function Bitmap_NumClear_from :: "bitmap \<Rightarrow> int \<Rightarrow> int \<Rightarrow> int res" where
  "Bitmap_NumClear_from b i count =
     (if i < bm_numBits b
      then bindE (Bitmap_Test b i) (\<lambda>t.
             Bitmap_NumClear_from b (i + 1) (if \<not> t then count + 1 else count))
      else Inr count)"
  by pat_completeness auto
termination
  by (relation "measure (\<lambda>(b, i, c). nat (bm_numBits b - i))") auto

definition Bitmap_NumClear :: "bitmap \<Rightarrow> int res" where
  "Bitmap_NumClear b = Bitmap_NumClear_from b 0 0"

text \<open>\<open>Print\<close> writes the numbers of the set bits; the model returns them in the order printed.\<close>

function Bitmap_Print_from :: "bitmap \<Rightarrow> int \<Rightarrow> int list res" where
  "Bitmap_Print_from b i =
     (if i < bm_numBits b
      then bindE (Bitmap_Test b i) (\<lambda>t.
           bindE (Bitmap_Print_from b (i + 1)) (\<lambda>out. Inr (if t then i # out else out)))
      else Inr [])"
  by pat_completeness auto
termination
  by (relation "measure (\<lambda>(b, i). nat (bm_numBits b - i))") auto

definition Bitmap_Print :: "bitmap \<Rightarrow> int list res" where
  "Bitmap_Print b = Bitmap_Print_from b 0"

text \<open>The self test of the module: a sequence of calls whose results are asserted.\<close>

definition Bitmap_SelfTest :: "bitmap \<Rightarrow> bitmap res" where
  "Bitmap_SelfTest b =
     bindE (assertE (bm_numBits b \<ge> BitsInWord)) (\<lambda>_.
     bindE (Bitmap_NumClear b) (\<lambda>n. bindE (assertE (n = bm_numBits b)) (\<lambda>_.
     bindE (Bitmap_FindAndSet b) (\<lambda>(r0, b1). bindE (assertE (r0 = 0)) (\<lambda>_.
     bindE (Bitmap_Mark b1 31) (\<lambda>b2.
     bindE (Bitmap_Test b2 0) (\<lambda>t0. bindE (Bitmap_Test b2 31) (\<lambda>t31.
     bindE (assertE (t0 \<and> t31)) (\<lambda>_.
     bindE (Bitmap_FindAndSet b2) (\<lambda>(r1, b3). bindE (assertE (r1 = 1)) (\<lambda>_.
     bindE (Bitmap_Clear b3 0) (\<lambda>b4.
     bindE (Bitmap_Clear b4 1) (\<lambda>b5.
     bindE (Bitmap_Clear b5 31) (\<lambda>b6.
     bindE (for_upto Bitmap_Mark 0 (bm_numBits b6) b6) (\<lambda>b7.
     bindE (Bitmap_FindAndSet b7) (\<lambda>(r2, b8). bindE (assertE (r2 = - 1)) (\<lambda>_.
     for_upto Bitmap_Clear 0 (bm_numBits b8) b8)))))))))))))))))"

declare for_upto.simps [simp del] Bitmap_FindAndSet_from.simps [simp del]
  Bitmap_NumClear_from.simps [simp del] Bitmap_Print_from.simps [simp del]

section \<open>Representation\<close>

definition bm_inv :: "bitmap \<Rightarrow> bool" where
  "bm_inv b \<longleftrightarrow> 0 < bm_numBits b \<and> bm_numWords b = divRoundUp (bm_numBits b) BitsInWord
     \<and> int (length (bm_map b)) = bm_numWords b"

definition bm_bit :: "bitmap \<Rightarrow> int \<Rightarrow> bool" where
  "bm_bit b i = bit (bm_map b ! nat (i div 32)) (nat (i mod 32))"

definition bm_used :: "bitmap \<Rightarrow> int set" where
  "bm_used b = {i. 0 \<le> i \<and> i < bm_numBits b \<and> bm_bit b i}"

definition bm_all :: "bitmap \<Rightarrow> int set" where
  "bm_all b = {0..<bm_numBits b}"

lemma bits_in_word [simp]: "BitsInWord = 32"
  by (simp add: BitsInWord_def BitsInByte_def)

lemma bm_used_subset: "bm_used b \<subseteq> bm_all b"
  by (auto simp: bm_used_def bm_all_def)

lemma finite_bm_used [simp]: "finite (bm_used b)"
  by (rule finite_subset [OF bm_used_subset]) (simp add: bm_all_def)

lemma bm_index:
  assumes "bm_inv b" "0 \<le> i" "i < bm_numBits b"
  shows "0 \<le> i div 32" "i div 32 < int (length (bm_map b))"
  using assms div_less_divRoundUp [of i "bm_numBits b" 32] by (simp_all add: bm_inv_def)

lemma word_index_eq_iff:
  assumes "0 \<le> (i::int)" "0 \<le> j"
  shows "nat (i div 32) = nat (j div 32) \<and> nat (i mod 32) = nat (j mod 32) \<longleftrightarrow> i = j"
proof -
  have "i = j" if "i div 32 = j div 32" "i mod 32 = j mod 32"
    using that by (metis div_mult_mod_eq)
  then show ?thesis using assms by (auto simp: nat_eq_iff2 pos_imp_zdiv_nonneg_iff)
qed

lemma Test_ok:
  assumes "bm_inv b" "0 \<le> i" "i < bm_numBits b"
  shows "Bitmap_Test b i = Inr (i \<in> bm_used b)"
  using assms bm_index [OF assms]
  by (simp add: Bitmap_Test_def bm_used_def bm_bit_def bit_iff_and_push_bit_not_eq_0)

lemma Test_bad: "\<not> (0 \<le> i \<and> i < bm_numBits b) \<Longrightarrow> Bitmap_Test b i = Inl Assert_Failed"
  by (auto simp: Bitmap_Test_def assertE_def)

lemma bit_or_exp_word:
  "m < 32 \<Longrightarrow> n < 32 \<Longrightarrow> bit ((w :: 32 word) OR 2 ^ m) n = (n = m \<or> bit w n)"
  by (auto simp: bit_or_iff bit_exp_iff)

lemma bit_and_not_exp_word:
  "m < 32 \<Longrightarrow> n < 32 \<Longrightarrow> bit ((w :: 32 word) AND NOT (2 ^ m)) n = (n \<noteq> m \<and> bit w n)"
  by (auto simp: bit_and_iff bit_not_iff bit_exp_iff)

text \<open>Writing one word of the map changes exactly the bit it is meant to change.\<close>

definition bm_write :: "bitmap \<Rightarrow> int \<Rightarrow> bool \<Rightarrow> bitmap" where
  "bm_write b i v =
     (let k = nat (i div 32); m = push_bit (nat (i mod 32)) 1
      in b\<lparr>bm_map := (bm_map b)[k := (if v then bm_map b ! k OR m else bm_map b ! k AND NOT m)]\<rparr>)"

lemma bm_write_frame [simp]:
  "bm_numBits (bm_write b i v) = bm_numBits b"
  "bm_numWords (bm_write b i v) = bm_numWords b"
  "bm_inv (bm_write b i v) = bm_inv b"
  "bm_all (bm_write b i v) = bm_all b"
  by (simp_all add: bm_write_def bm_inv_def bm_all_def Let_def)

lemma bm_bit_write:
  assumes "bm_inv b" "0 \<le> i" "i < bm_numBits b" "0 \<le> j"
  shows "bm_bit (bm_write b i v) j = (if j = i then v else bm_bit b j)"
proof -
  define k where "k = nat (i div 32)"
  define m where "m = nat (i mod 32)"
  have m: "m < 32" unfolding m_def by (simp add: nat_less_iff)
  have n: "nat (j mod 32) < 32" by (simp add: nat_less_iff)
  have k: "k < length (bm_map b)"
    using bm_index [OF assms(1-3)] by (simp add: k_def nat_less_iff)
  have eq: "nat (j div 32) = k \<and> nat (j mod 32) = m \<longleftrightarrow> j = i"
    using word_index_eq_iff [of j i] assms(2,4) by (simp add: k_def m_def)
  show ?thesis
  proof (cases "nat (j div 32) = k")
    case True
    then have "j = i \<longleftrightarrow> nat (j mod 32) = m" using eq by blast
    with True k m n show ?thesis
      by (simp add: bm_bit_def bm_write_def Let_def bit_or_exp_word bit_and_not_exp_word
          flip: k_def m_def)
  next
    case False
    then have "j \<noteq> i" using eq by blast
    with False show ?thesis
      by (simp add: bm_bit_def bm_write_def Let_def flip: k_def m_def)
  qed
qed

lemma bm_used_write:
  assumes "bm_inv b" "0 \<le> i" "i < bm_numBits b"
  shows "bm_used (bm_write b i v) = (if v then insert i (bm_used b) else bm_used b - {i})"
  using assms bm_bit_write [OF assms] by (auto simp: bm_used_def split: if_splits)

lemma Mark_ok:
  assumes "bm_inv b" "0 \<le> i" "i < bm_numBits b"
  shows "Bitmap_Mark b i = Inr (bm_write b i True)"
proof -
  let ?b = "bm_write b i True"
  have map: "?b = b\<lparr>bm_map := (bm_map b)[nat (i div 32) :=
      bm_map b ! nat (i div 32) OR push_bit (nat (i mod 32)) 1]\<rparr>"
    by (simp add: bm_write_def Let_def)
  have "Bitmap_Test ?b i = Inr True"
    using assms Test_ok [of ?b i] by (simp add: bm_used_write)
  then show ?thesis
    using assms bm_index [OF assms] by (simp add: Bitmap_Mark_def map)
qed

lemma Clear_ok:
  assumes "bm_inv b" "0 \<le> i" "i < bm_numBits b"
  shows "Bitmap_Clear b i = Inr (bm_write b i False)"
proof -
  let ?b = "bm_write b i False"
  have map: "?b = b\<lparr>bm_map := (bm_map b)[nat (i div 32) :=
      bm_map b ! nat (i div 32) AND NOT (push_bit (nat (i mod 32)) 1)]\<rparr>"
    by (simp add: bm_write_def Let_def)
  have "Bitmap_Test ?b i = Inr False"
    using assms Test_ok [of ?b i] by (simp add: bm_used_write)
  then show ?thesis
    using assms bm_index [OF assms] by (simp add: Bitmap_Clear_def map)
qed

lemmas bm_ops = Test_ok Mark_ok Clear_ok bm_used_write

section \<open>The loops\<close>

lemma for_upto_done: "n \<le> i \<Longrightarrow> for_upto f i n b = Inr b"
  by (simp add: for_upto.simps)

lemma for_upto_step: "i < n \<Longrightarrow> for_upto f i n b = bindE (f b i) (for_upto f (i + 1) n)"
  by (simp add: for_upto.simps [of f i n b])

lemma for_upto_write:
  assumes "bm_inv b" "0 \<le> i" "n \<le> bm_numBits b"
    and f: "\<And>b i. bm_inv b \<Longrightarrow> 0 \<le> i \<Longrightarrow> i < bm_numBits b \<Longrightarrow> f b i = Inr (bm_write b i v)"
  shows "\<exists>b'. for_upto f i n b = Inr b' \<and> bm_inv b' \<and> bm_numBits b' = bm_numBits b
     \<and> bm_used b' = (if v then bm_used b \<union> {i..<n} else bm_used b - {i..<n})"
  using assms(1-3)
proof (induction "nat (n - i)" arbitrary: b i)
  case 0
  then show ?case by (simp add: for_upto_done)
next
  case (Suc x)
  then have i: "i < n" by simp
  have x: "x = nat (n - (i + 1))" using Suc.hyps(2) by simp
  have range: "i < bm_numBits b" using i Suc.prems by simp
  obtain b' where b': "for_upto f (i + 1) n (bm_write b i v) = Inr b'" "bm_inv b'"
    "bm_numBits b' = bm_numBits b"
    "bm_used b' = (if v then bm_used (bm_write b i v) \<union> {i + 1..<n}
                   else bm_used (bm_write b i v) - {i + 1..<n})"
    using Suc.hyps(1) [OF x, of "bm_write b i v"] Suc.prems by auto
  have "{i..<n} = insert i {i + 1..<n}" using i by auto
  then have "bm_used b' = (if v then bm_used b \<union> {i..<n} else bm_used b - {i..<n})"
    using b'(4) Suc.prems range by (auto simp: bm_used_write)
  then show ?case
    using b' Suc.prems range by (simp add: for_upto_step [OF i] f)
qed

lemma Bitmap_new_ok:
  assumes "0 < n"
  shows "\<exists>b. Bitmap_new n = Inr b \<and> bm_inv b \<and> bm_numBits b = n \<and> bm_used b = {}"
proof -
  let ?b = "\<lparr>bm_numBits = n, bm_numWords = divRoundUp n 32,
             bm_map = replicate (nat (divRoundUp n 32)) 0\<rparr>"
  have inv: "bm_inv ?b" using assms by (simp add: bm_inv_def divRoundUp_nonneg)
  have "bm_used ?b - {0..<n} = {}" by (auto simp: bm_used_def)
  with for_upto_write [of ?b 0 n Bitmap_Clear False] inv assms show ?thesis
    by (auto simp: Bitmap_new_def Clear_ok)
qed

text \<open>
  \<open>FindAndSet\<close> returns the least clear position, or -1 when there is none.
\<close>

definition first_clear :: "bitmap \<Rightarrow> int \<Rightarrow> bool" where
  "first_clear b k \<longleftrightarrow> 0 \<le> k \<and> k < bm_numBits b \<and> k \<notin> bm_used b \<and> {0..<k} \<subseteq> bm_used b"

lemma first_clear_unique: "first_clear b k \<Longrightarrow> first_clear b l \<Longrightarrow> k = l"
  by (rule linorder_cases [of k l]) (auto simp: first_clear_def)

lemma FindAndSet_from:
  assumes "bm_inv b" "0 \<le> i" "i \<le> bm_numBits b" "{0..<i} \<subseteq> bm_used b"
  shows "(bm_used b = bm_all b \<and> Bitmap_FindAndSet_from b i = Inr (- 1, b))
     \<or> (\<exists>k. first_clear b k \<and> Bitmap_FindAndSet_from b i = Inr (k, bm_write b k True))"
  using assms
proof (induction "nat (bm_numBits b - i)" arbitrary: i)
  case 0
  then have "i = bm_numBits b" by simp
  then have "bm_used b = bm_all b"
    using 0 bm_used_subset [of b] by (auto simp: bm_all_def)
  moreover have "Bitmap_FindAndSet_from b i = Inr (- 1, b)"
    using \<open>i = bm_numBits b\<close> by (subst Bitmap_FindAndSet_from.simps) simp
  ultimately show ?case by blast
next
  case (Suc x)
  then have i: "i < bm_numBits b" by simp
  show ?case
  proof (cases "i \<in> bm_used b")
    case True
    have "{0..<i + 1} \<subseteq> bm_used b" using True Suc.prems(4) by force
    moreover have "x = nat (bm_numBits b - (i + 1))" using Suc.hyps(2) by simp
    ultimately show ?thesis
      using Suc.hyps(1) [of "i + 1"] Suc.prems i True
      by (simp add: Bitmap_FindAndSet_from.simps [of b i] Test_ok)
  next
    case False
    then have "first_clear b i" using Suc.prems i by (simp add: first_clear_def)
    moreover have "Bitmap_FindAndSet_from b i = Inr (i, bm_write b i True)"
      using False Suc.prems i by (simp add: Bitmap_FindAndSet_from.simps [of b i] bm_ops)
    ultimately show ?thesis by blast
  qed
qed

lemma FindAndSet_cases:
  assumes "bm_inv b"
  obtains (full) "bm_used b = bm_all b" "Bitmap_FindAndSet b = Inr (- 1, b)"
    | (found) k where "first_clear b k" "Bitmap_FindAndSet b = Inr (k, bm_write b k True)"
  using FindAndSet_from [of b 0] assms by (auto simp: Bitmap_FindAndSet_def bm_inv_def)

lemma FindAndSet_first:
  assumes "bm_inv b" "first_clear b k"
  shows "Bitmap_FindAndSet b = Inr (k, bm_write b k True)"
  using assms(1)
proof (cases rule: FindAndSet_cases)
  case full
  with assms(2) show ?thesis by (auto simp: first_clear_def bm_all_def)
next
  case (found l)
  with first_clear_unique [OF assms(2)] show ?thesis by simp
qed

lemma NumClear_from:
  assumes "bm_inv b" "0 \<le> i" "i \<le> bm_numBits b"
  shows "Bitmap_NumClear_from b i c = Inr (c + int (card ({i..<bm_numBits b} - bm_used b)))"
  using assms
proof (induction "nat (bm_numBits b - i)" arbitrary: i c)
  case 0
  then show ?case by (simp add: Bitmap_NumClear_from.simps [of b i])
next
  case (Suc x)
  then have i: "i < bm_numBits b" by simp
  have x: "x = nat (bm_numBits b - (i + 1))" using Suc.hyps(2) by simp
  have all: "{i..<bm_numBits b} = insert i {i + 1..<bm_numBits b}" using i by auto
  have split: "{i..<bm_numBits b} - bm_used b =
      (if i \<in> bm_used b then {} else {i}) \<union> ({i + 1..<bm_numBits b} - bm_used b)"
    unfolding all by auto
  show ?case
    using Suc.hyps(1) [OF x] Suc.prems i
    by (simp add: Bitmap_NumClear_from.simps [of b i] Test_ok split)
qed

lemma NumClear_ok: "bm_inv b \<Longrightarrow> Bitmap_NumClear b = Inr (bm_numBits b - int (card (bm_used b)))"
proof -
  assume inv: "bm_inv b"
  have "card (bm_used b) \<le> card (bm_all b)"
    by (rule card_mono [OF _ bm_used_subset]) (simp add: bm_all_def)
  then have "int (card (bm_all b - bm_used b)) = bm_numBits b - int (card (bm_used b))"
    using inv bm_used_subset [of b] by (simp add: card_Diff_subset bm_all_def bm_inv_def)
  then show ?thesis
    using NumClear_from [OF inv, of 0 0] inv by (simp add: Bitmap_NumClear_def bm_all_def bm_inv_def)
qed

lemma Print_from:
  assumes "bm_inv b" "0 \<le> i"
  shows "\<exists>out. Bitmap_Print_from b i = Inr out \<and> sorted out \<and> distinct out
     \<and> set out = bm_used b \<inter> {i..}"
  using assms
proof (induction "nat (bm_numBits b - i)" arbitrary: i)
  case 0
  then show ?case by (auto simp: Bitmap_Print_from.simps [of b i] bm_used_def)
next
  case (Suc x)
  then have i: "i < bm_numBits b" by simp
  have x: "x = nat (bm_numBits b - (i + 1))" using Suc.hyps(2) by simp
  obtain out where out: "Bitmap_Print_from b (i + 1) = Inr out" "sorted out" "distinct out"
    "set out = bm_used b \<inter> {i + 1..}"
    using Suc.hyps(1) [OF x] Suc.prems by auto
  have ge: "\<forall>j \<in> set out. i < j" using out(4) by auto
  have split: "{i..} = insert i {i + 1..}" by auto
  show ?case
  proof (cases "i \<in> bm_used b")
    case True
    then have "Bitmap_Print_from b i = Inr (i # out)"
      using out Suc.prems i by (simp add: Bitmap_Print_from.simps [of b i] Test_ok)
    moreover have "set (i # out) = bm_used b \<inter> {i..}" using True out(4) unfolding split by auto
    ultimately show ?thesis using out(2,3) ge by force
  next
    case False
    then have "Bitmap_Print_from b i = Inr out"
      using out Suc.prems i by (simp add: Bitmap_Print_from.simps [of b i] Test_ok)
    moreover have "set out = bm_used b \<inter> {i..}" using False out(4) unfolding split by auto
    ultimately show ?thesis using out(2,3) by blast
  qed
qed

section \<open>The allocator contract\<close>

text \<open>
  What the file system, the memory manager and the thread manager use a bitmap for: \<open>take\<close>
  hands out an item that nobody holds (or -1), \<open>give\<close> returns one, \<open>count\<close> says how many
  are left.
\<close>

locale allocator =
  fixes inv :: "'m \<Rightarrow> bool"
    and size :: "'m \<Rightarrow> int"
    and used :: "'m \<Rightarrow> int set"
    and take :: "'m \<Rightarrow> (int \<times> 'm) res"
    and give :: "'m \<Rightarrow> int \<Rightarrow> 'm res"
    and count :: "'m \<Rightarrow> int res"
  assumes used_range: "inv m \<Longrightarrow> used m \<subseteq> {0..<size m}"
    and take_free: "inv m \<Longrightarrow> used m \<noteq> {0..<size m} \<Longrightarrow>
      \<exists>i m'. take m = Inr (i, m') \<and> 0 \<le> i \<and> i < size m \<and> i \<notin> used m
        \<and> used m' = insert i (used m) \<and> inv m' \<and> size m' = size m"
    and take_full: "inv m \<Longrightarrow> used m = {0..<size m} \<Longrightarrow> take m = Inr (- 1, m)"
    and give_ok: "inv m \<Longrightarrow> 0 \<le> i \<Longrightarrow> i < size m \<Longrightarrow>
      \<exists>m'. give m i = Inr m' \<and> used m' = used m - {i} \<and> inv m' \<and> size m' = size m"
    and count_ok: "inv m \<Longrightarrow> count m = Inr (size m - int (card (used m)))"
    and size_pos: "inv m \<Longrightarrow> 0 < size m"
begin

primrec takes :: "nat \<Rightarrow> 'm \<Rightarrow> (int list \<times> 'm) res" where
  "takes 0 m = Inr ([], m)"
| "takes (Suc n) m =
     bindE (take m) (\<lambda>(i, m'). bindE (takes n m') (\<lambda>(is, m''). Inr (i # is, m'')))"

lemma finite_used: "inv m \<Longrightarrow> finite (used m)"
  by (rule finite_subset [OF used_range]) simp_all

lemma free_if_count:
  assumes "inv m" "count m = Inr c" "0 < c"
  shows "used m \<noteq> {0..<size m}"
proof
  assume "used m = {0..<size m}"
  then have "count m = Inr 0"
    using count_ok [OF assms(1)] size_pos [OF assms(1)] by simp
  with assms(2,3) show False by simp
qed

text \<open>
  As many items as \<open>count\<close> promises can be taken; they are distinct, were free before and
  are the only ones that become used.
\<close>

lemma takes_ok:
  assumes "inv m" "count m = Inr c" "int n \<le> c"
  shows "\<exists>is m'. takes n m = Inr (is, m') \<and> length is = n \<and> distinct is
    \<and> set is \<inter> used m = {} \<and> set is \<subseteq> {0..<size m} \<and> used m' = used m \<union> set is
    \<and> inv m' \<and> size m' = size m \<and> count m' = Inr (c - int n)"
  using assms
proof (induction n arbitrary: m c)
  case 0
  then show ?case by simp
next
  case (Suc n)
  from free_if_count [of m c] Suc.prems have "used m \<noteq> {0..<size m}" by simp
  then obtain i m1 where m1: "take m = Inr (i, m1)" "0 \<le> i" "i < size m" "i \<notin> used m"
    "used m1 = insert i (used m)" "inv m1" "size m1 = size m"
    using take_free [OF Suc.prems(1)] by blast
  have "count m1 = Inr (c - 1)"
    using m1 Suc.prems(1,2) finite_used [OF Suc.prems(1)] by (simp add: count_ok)
  from Suc.IH [OF m1(6) this] Suc.prems(3)
  obtain js m2 where m2: "takes n m1 = Inr (js, m2)" "length js = n" "distinct js"
    "set js \<inter> used m1 = {}" "set js \<subseteq> {0..<size m1}" "used m2 = used m1 \<union> set js"
    "inv m2" "size m2 = size m1" "count m2 = Inr (c - 1 - int n)"
    by auto
  show ?case
    using m1 m2 by (intro exI [of _ "i # js"] exI [of _ m2]) auto
qed

lemma take_give:
  assumes "inv m" "used m \<noteq> {0..<size m}"
  shows "\<exists>i m' m''. take m = Inr (i, m') \<and> give m' i = Inr m'' \<and> used m'' = used m \<and> inv m''"
proof -
  obtain i m' where m': "take m = Inr (i, m')" "0 \<le> i" "i < size m" "i \<notin> used m"
    "used m' = insert i (used m)" "inv m'" "size m' = size m"
    using take_free [OF assms] by blast
  then obtain m'' where "give m' i = Inr m''" "used m'' = used m' - {i}" "inv m''"
    using give_ok [of m' i] by auto
  with m' show ?thesis by auto
qed

end

interpretation bm: allocator bm_inv bm_numBits bm_used Bitmap_FindAndSet Bitmap_Clear Bitmap_NumClear
proof (unfold_locales, goal_cases)
  case (1 m)
  show ?case using bm_used_subset by (simp add: bm_all_def)
next
  case (2 m)
  from 2(1) show ?case
  proof (cases rule: FindAndSet_cases)
    case full
    with 2(2) show ?thesis by (simp add: bm_all_def)
  next
    case (found k)
    with 2(1) show ?thesis by (auto simp: first_clear_def bm_used_write)
  qed
next
  case (3 m)
  from 3(1) show ?case
    by (cases rule: FindAndSet_cases) (use 3(2) in \<open>auto simp: first_clear_def\<close>)
next
  case (4 m i)
  then show ?case by (simp add: Clear_ok bm_used_write)
next
  case (5 m)
  then show ?case by (rule NumClear_ok)
next
  case (6 m)
  then show ?case by (simp add: bm_inv_def)
qed

section \<open>Properties\<close>

text \<open>
  C10. \<open>FindAndSet\<close> on a well-formed bitmap never faults. When every bit is set it returns -1
  and changes nothing; otherwise it returns the least clear bit and the new bitmap has exactly
  that bit set in addition, all bookkeeping fields unchanged.
\<close>

theorem find_and_set_correct:
  assumes "bm_inv b"
  shows "(if bm_used b = bm_all b then Bitmap_FindAndSet b = Inr (- 1, b)
     else \<exists>k b'. Bitmap_FindAndSet b = Inr (k, b') \<and> first_clear b k \<and> bm_inv b'
       \<and> bm_numBits b' = bm_numBits b \<and> bm_used b' = insert k (bm_used b))"
  using assms
proof (cases rule: FindAndSet_cases)
  case full
  then show ?thesis by simp
next
  case (found k)
  then have "bm_used b \<noteq> bm_all b" by (auto simp: first_clear_def bm_all_def)
  with found assms show ?thesis by (auto simp: first_clear_def bm_used_write)
qed

definition bm_example :: bitmap where
  "bm_example = \<lparr>bm_numBits = 40, bm_numWords = 2, bm_map = [0xFFFFFFFF, 1]\<rparr>"

theorem find_and_set_correct_witness:
  "bm_inv bm_example \<and>
   (if bm_used bm_example = bm_all bm_example then Bitmap_FindAndSet bm_example = Inr (- 1, bm_example)
    else \<exists>k b'. Bitmap_FindAndSet bm_example = Inr (k, b') \<and> first_clear bm_example k \<and> bm_inv b'
       \<and> bm_numBits b' = bm_numBits bm_example \<and> bm_used b' = insert k (bm_used bm_example))"
proof -
  have inv: "bm_inv bm_example"
    by (simp add: bm_inv_def bm_example_def divRoundUp_def)
  show ?thesis using inv find_and_set_correct [OF inv] by blast
qed

text \<open>
  The module's own self test succeeds: on every freshly constructed bitmap of at least one
  word it runs through all its assertions, and it leaves the bitmap with every bit clear.
\<close>

theorem bitmap_self_test_passes:
  assumes "BitsInWord \<le> n"
  shows "\<exists>b b'. Bitmap_new n = Inr b \<and> Bitmap_SelfTest b = Inr b'
    \<and> bm_inv b' \<and> bm_numBits b' = n \<and> bm_used b' = {}"
proof -
  obtain b where b: "Bitmap_new n = Inr b" "bm_inv b" "bm_numBits b = n" "bm_used b = {}"
    using Bitmap_new_ok [of n] assms by auto
  have n: "32 \<le> n" using assms by simp
  define b1 where "b1 = bm_write b 0 True"
  define b2 where "b2 = bm_write b1 31 True"
  define b3 where "b3 = bm_write b2 1 True"
  define b4 where "b4 = bm_write b3 0 False"
  define b5 where "b5 = bm_write b4 1 False"
  define b6 where "b6 = bm_write b5 31 False"
  have s1: "bm_inv b1" "bm_numBits b1 = n" "bm_used b1 = {0}"
    using b n by (simp_all add: b1_def bm_used_write)
  have s2: "bm_inv b2" "bm_numBits b2 = n" "bm_used b2 = {0, 31}"
    using s1 n by (auto simp: b2_def bm_used_write)
  have s3: "bm_inv b3" "bm_numBits b3 = n" "bm_used b3 = {0, 1, 31}"
    using s2 n by (auto simp: b3_def bm_used_write)
  have s4: "bm_inv b4" "bm_numBits b4 = n" "bm_used b4 = {1, 31}"
    using s3 n by (auto simp: b4_def bm_used_write)
  have s5: "bm_inv b5" "bm_numBits b5 = n" "bm_used b5 = {31}"
    using s4 n by (auto simp: b5_def bm_used_write)
  have s6: "bm_inv b6" "bm_numBits b6 = n" "bm_used b6 = {}"
    using s5 n by (auto simp: b6_def bm_used_write)
  have calls: "Bitmap_NumClear b = Inr n" "Bitmap_Mark b1 31 = Inr b2"
    "Bitmap_Test b2 0 = Inr True" "Bitmap_Test b2 31 = Inr True"
    "Bitmap_Clear b3 0 = Inr b4" "Bitmap_Clear b4 1 = Inr b5" "Bitmap_Clear b5 31 = Inr b6"
    using b n s1 s2 s3 s4 s5
    by (simp_all add: NumClear_ok Mark_ok Test_ok Clear_ok b2_def b4_def b5_def b6_def)
  have f0: "Bitmap_FindAndSet b = Inr (0, b1)"
    unfolding b1_def using b n by (intro FindAndSet_first) (auto simp: first_clear_def)
  have "{0..<1} = {0::int}" by auto
  then have "first_clear b2 1" using s2 n by (simp add: first_clear_def)
  with s2(1) have f1: "Bitmap_FindAndSet b2 = Inr (1, b3)"
    unfolding b3_def by (rule FindAndSet_first)
  obtain b7 where b7: "for_upto Bitmap_Mark 0 n b6 = Inr b7" "bm_inv b7" "bm_numBits b7 = n"
    "bm_used b7 = {0..<n}"
    using for_upto_write [of b6 0 n Bitmap_Mark True] s6 by (auto simp: Mark_ok)
  have f2: "Bitmap_FindAndSet b7 = Inr (- 1, b7)"
    using b7 by (intro bm.take_full) simp_all
  obtain b9 where b9: "for_upto Bitmap_Clear 0 n b7 = Inr b9" "bm_inv b9" "bm_numBits b9 = n"
    "bm_used b9 = {}"
    using for_upto_write [of b7 0 n Bitmap_Clear False] b7 by (auto simp: Clear_ok)
  have "Bitmap_SelfTest b = Inr b9"
    using n by (simp add: Bitmap_SelfTest_def calls f0 f1 f2 b7(1,3) b9(1) b(3) s6(2))
  with b(1) b9 show ?thesis by blast
qed

theorem bitmap_self_test_passes_witness:
  "BitsInWord \<le> 200 \<and> (\<exists>b b'. Bitmap_new 200 = Inr b \<and> Bitmap_SelfTest b = Inr b'
    \<and> bm_inv b' \<and> bm_numBits b' = 200 \<and> bm_used b' = {})"
  using bitmap_self_test_passes [of 200] by simp

end
