(* ===== verification/Linked_List.thy ===== *)
theory Linked_List
  imports Nachos_Prelude "HOL-Library.Multiset"
begin

text \<open>
  lib/list.h and lib/list.cc: singly linked lists with \<open>first\<close>, \<open>last\<close> and a length,
  and the sorted variant. Ready queue, pending interrupts, semaphore queues, hash buckets and
  mailboxes are all instances.

  Pointers are explicit: a \<open>llist\<close> owns a store from addresses to \<open>ListElement\<close>s
  (\<open>cell\<close>), \<open>NULL\<close> is \<open>None\<close>, \<open>new\<close> takes the next unused address and
  \<open>delete\<close> removes an address from the store, so that a dangling or null dereference is
  \<open>Bad_Access\<close>. Loops that follow \<open>next\<close> pointers carry fuel; \<open>l_brk\<close>, the number
  of addresses ever handed out, plus one is enough for every well-formed list, since a list
  without a cycle visits each address at most once, and running out (a cyclic list) is
  \<open>Diverges\<close>.

  \<open>lrep l zs\<close> says that the pointer structure is the sequence \<open>zs\<close> of (address, item)
  pairs; \<open>List_rep l xs\<close> hides the addresses. The lemmas show that each method implements
  the corresponding operation on HOL lists.
\<close>

section \<open>The classes\<close>

record 'a cell =
  cell_item :: 'a
  cell_next :: "nat option"

record 'a llist =
  l_first :: "nat option"
  l_last :: "nat option"
  l_num :: int
  l_heap :: "nat \<rightharpoonup> 'a cell"
  l_brk :: nat

definition deref :: "(nat \<rightharpoonup> 'a cell) \<Rightarrow> nat option \<Rightarrow> 'a cell res" where
  "deref h p = (case p of None \<Rightarrow> Inl Bad_Access
     | Some a \<Rightarrow> (case h a of None \<Rightarrow> Inl Bad_Access | Some c \<Rightarrow> Inr c))"

definition set_next :: "(nat \<rightharpoonup> 'a cell) \<Rightarrow> nat option \<Rightarrow> nat option \<Rightarrow> (nat \<rightharpoonup> 'a cell) res" where
  "set_next h p q = bindE (deref h p) (\<lambda>c. Inr (h(the p \<mapsto> c\<lparr>cell_next := q\<rparr>)))"

definition new_ListElement :: "'a llist \<Rightarrow> 'a \<Rightarrow> nat \<times> 'a llist" where
  "new_ListElement l itm =
     (l_brk l, l\<lparr>l_heap := (l_heap l)(l_brk l \<mapsto> \<lparr>cell_item = itm, cell_next = None\<rparr>),
                 l_brk := Suc (l_brk l)\<rparr>)"

definition List_new :: "'a llist" where
  "List_new = \<lparr>l_first = None, l_last = None, l_num = 0, l_heap = Map.empty, l_brk = 0\<rparr>"

definition List_IsEmpty :: "'a llist \<Rightarrow> bool" where
  "List_IsEmpty l = (l_num l = 0)"

definition List_NumInList :: "'a llist \<Rightarrow> int" where
  "List_NumInList l = l_num l"

definition List_Front :: "'a llist \<Rightarrow> 'a res" where
  "List_Front l = bindE (deref (l_heap l) (l_first l)) (\<lambda>c. Inr (cell_item c))"

definition list_fuel :: "'a llist \<Rightarrow> nat" where
  "list_fuel l = Suc (l_brk l)"

fun IsInList_from :: "nat \<Rightarrow> (nat \<rightharpoonup> 'a cell) \<Rightarrow> nat option \<Rightarrow> 'a \<Rightarrow> bool res" where
  "IsInList_from 0 h ptr x = Inl Diverges"
| "IsInList_from (Suc n) h None x = Inr False"
| "IsInList_from (Suc n) h (Some p) x =
     bindE (deref h (Some p)) (\<lambda>c.
       if x = cell_item c then Inr True else IsInList_from n h (cell_next c) x)"

definition List_IsInList :: "'a llist \<Rightarrow> 'a \<Rightarrow> bool res" where
  "List_IsInList l x = IsInList_from (list_fuel l) (l_heap l) (l_first l) x"

definition List_Append :: "'a llist \<Rightarrow> 'a \<Rightarrow> 'a llist res" where
  "List_Append l item =
     (let (element, l1) = new_ListElement l item in
      bindE (if List_IsEmpty l1
             then Inr (l1\<lparr>l_first := Some element, l_last := Some element\<rparr>)
             else bindE (set_next (l_heap l1) (l_last l1) (Some element)) (\<lambda>h.
                    Inr (l1\<lparr>l_heap := h, l_last := Some element\<rparr>))) (\<lambda>l2.
      let l3 = l2\<lparr>l_num := l_num l2 + 1\<rparr> in
      bindE (List_IsInList l3 item) (\<lambda>t. bindE (assertE t) (\<lambda>_. Inr l3))))"

definition List_Prepend :: "'a llist \<Rightarrow> 'a \<Rightarrow> 'a llist res" where
  "List_Prepend l item =
     (let (element, l1) = new_ListElement l item in
      bindE (List_IsInList l1 item) (\<lambda>t0. bindE (assertE (\<not> t0)) (\<lambda>_.
      bindE (if List_IsEmpty l1
             then Inr (l1\<lparr>l_first := Some element, l_last := Some element\<rparr>)
             else bindE (set_next (l_heap l1) (Some element) (l_first l1)) (\<lambda>h.
                    Inr (l1\<lparr>l_heap := h, l_first := Some element\<rparr>))) (\<lambda>l2.
      let l3 = l2\<lparr>l_num := l_num l2 + 1\<rparr> in
      bindE (List_IsInList l3 item) (\<lambda>t. bindE (assertE t) (\<lambda>_. Inr l3))))))"

definition List_RemoveFront :: "'a llist \<Rightarrow> ('a \<times> 'a llist) res" where
  "List_RemoveFront l =
     (let element = l_first l in
      bindE (assertE (\<not> List_IsEmpty l)) (\<lambda>_.
      bindE (deref (l_heap l) element) (\<lambda>c.
      let thing = cell_item c;
          l1 = (if l_first l = l_last l then l\<lparr>l_first := None, l_last := None\<rparr>
                else l\<lparr>l_first := cell_next c\<rparr>)
      in Inr (thing, l1\<lparr>l_num := l_num l1 - 1, l_heap := (l_heap l1)(the element := None)\<rparr>))))"

text \<open>
  The search loop of \<open>Remove\<close>: \<open>ptr\<close> is \<open>NULL\<close> when the loop ends without a match,
  which the assertion after the loop rejects.
\<close>

fun Remove_from :: "nat \<Rightarrow> 'a llist \<Rightarrow> nat option \<Rightarrow> nat option \<Rightarrow> 'a \<Rightarrow> 'a llist res" where
  "Remove_from 0 l prev ptr item = Inl Diverges"
| "Remove_from (Suc n) l prev None item = Inl Assert_Failed"
| "Remove_from (Suc n) l prev (Some p) item =
     bindE (deref (l_heap l) (Some p)) (\<lambda>c.
       if item = cell_item c
       then bindE (set_next (l_heap l) prev (cell_next c)) (\<lambda>h.
              Inr (l\<lparr>l_last := (if cell_next c = None then prev else l_last l),
                     l_heap := h(p := None), l_num := l_num l - 1\<rparr>))
       else Remove_from n l (Some p) (cell_next c) item)"

definition List_Remove :: "'a llist \<Rightarrow> 'a \<Rightarrow> 'a llist res" where
  "List_Remove l item =
     bindE (List_IsInList l item) (\<lambda>t. bindE (assertE t) (\<lambda>_.
     bindE (deref (l_heap l) (l_first l)) (\<lambda>c.
     bindE (if item = cell_item c
            then bindE (List_RemoveFront l) (\<lambda>(removed, l1).
                   bindE (assertE (item = removed)) (\<lambda>_. Inr l1))
            else Remove_from (list_fuel l) l (l_first l) (cell_next c) item) (\<lambda>l2.
     bindE (List_IsInList l2 item) (\<lambda>t2. bindE (assertE (\<not> t2)) (\<lambda>_. Inr l2))))))"

text \<open>\<open>Apply\<close> calls a function on every item; the model returns the items in the order of the calls.\<close>

fun Apply_from :: "nat \<Rightarrow> (nat \<rightharpoonup> 'a cell) \<Rightarrow> nat option \<Rightarrow> 'a list res" where
  "Apply_from 0 h ptr = Inl Diverges"
| "Apply_from (Suc n) h None = Inr []"
| "Apply_from (Suc n) h (Some p) =
     bindE (deref h (Some p)) (\<lambda>c.
       bindE (Apply_from n h (cell_next c)) (\<lambda>xs. Inr (cell_item c # xs)))"

definition List_Apply :: "'a llist \<Rightarrow> 'a list res" where
  "List_Apply l = Apply_from (list_fuel l) (l_heap l) (l_first l)"

fun findByComp_from :: "nat \<Rightarrow> (nat \<rightharpoonup> 'a cell) \<Rightarrow> nat option \<Rightarrow> ('a \<Rightarrow> bool) \<Rightarrow> 'a option res" where
  "findByComp_from 0 h ptr matches = Inl Diverges"
| "findByComp_from (Suc n) h None matches = Inr None"
| "findByComp_from (Suc n) h (Some p) matches =
     bindE (deref h (Some p)) (\<lambda>c.
       if matches (cell_item c) then Inr (Some (cell_item c))
       else findByComp_from n h (cell_next c) matches)"

definition List_findByComp :: "'a llist \<Rightarrow> ('a \<Rightarrow> bool) \<Rightarrow> 'a option res" where
  "List_findByComp l matches =
     (if List_IsEmpty l then Inr None
      else findByComp_from (list_fuel l) (l_heap l) (l_first l) matches)"

text \<open>\<open>SanityCheck\<close>: do I get to \<open>last\<close> from \<open>first\<close>, in the right number of steps?\<close>

fun SanityCheck_from :: "nat \<Rightarrow> 'a llist \<Rightarrow> nat option \<Rightarrow> int \<Rightarrow> int res" where
  "SanityCheck_from 0 l ptr numFound = Inl Diverges"
| "SanityCheck_from (Suc n) l ptr numFound =
     (if ptr = l_last l then Inr numFound
      else bindE (assertE (numFound + 1 \<le> l_num l)) (\<lambda>_.
           bindE (deref (l_heap l) ptr) (\<lambda>c.
             SanityCheck_from n l (cell_next c) (numFound + 1))))"

definition List_SanityCheck :: "'a llist \<Rightarrow> unit res" where
  "List_SanityCheck l =
     (if l_first l = None then assertE (l_num l = 0 \<and> l_last l = None)
      else if l_first l = l_last l
      then bindE (deref (l_heap l) (l_last l)) (\<lambda>c.
             assertE (l_num l = 1 \<and> cell_next c = None))
      else bindE (SanityCheck_from (list_fuel l) l (l_first l) 1) (\<lambda>numFound.
           bindE (assertE (numFound = l_num l)) (\<lambda>_.
           bindE (deref (l_heap l) (l_last l)) (\<lambda>c. assertE (cell_next c = None)))))"

section \<open>Sorted lists\<close>

fun Insert_from :: "nat \<Rightarrow> ('a \<Rightarrow> 'a \<Rightarrow> int) \<Rightarrow> 'a llist \<Rightarrow> nat option \<Rightarrow> nat \<Rightarrow> 'a \<Rightarrow> 'a llist option res" where
  "Insert_from 0 cmp l ptr element item = Inl Diverges"
| "Insert_from (Suc n) cmp l ptr element item =
     bindE (deref (l_heap l) ptr) (\<lambda>c.
       if cell_next c = None then Inr None
       else bindE (deref (l_heap l) (cell_next c)) (\<lambda>d.
         if cmp item (cell_item d) < 0
         then bindE (set_next (l_heap l) (Some element) (cell_next c)) (\<lambda>h.
              bindE (set_next h ptr (Some element)) (\<lambda>h'.
                Inr (Some (l\<lparr>l_heap := h', l_num := l_num l + 1\<rparr>))))
         else Insert_from n cmp l (cell_next c) element item))"

definition SortedList_Insert :: "('a \<Rightarrow> 'a \<Rightarrow> int) \<Rightarrow> 'a llist \<Rightarrow> 'a \<Rightarrow> 'a llist res" where
  "SortedList_Insert cmp l item =
     (let (element, l1) = new_ListElement l item;
          finish = (\<lambda>l2. let l3 = l2\<lparr>l_num := l_num l2 + 1\<rparr> in
                     bindE (List_IsInList l3 item) (\<lambda>t. bindE (assertE t) (\<lambda>_. Inr l3)))
      in bindE (List_IsInList l1 item) (\<lambda>t0. bindE (assertE (\<not> t0)) (\<lambda>_.
         if List_IsEmpty l1
         then finish (l1\<lparr>l_first := Some element, l_last := Some element\<rparr>)
         else bindE (deref (l_heap l1) (l_first l1)) (\<lambda>f.
           if cmp item (cell_item f) < 0
           then bindE (set_next (l_heap l1) (Some element) (l_first l1)) (\<lambda>h.
                  finish (l1\<lparr>l_heap := h, l_first := Some element\<rparr>))
           else bindE (Insert_from (list_fuel l1) cmp l1 (l_first l1) element item) (\<lambda>r.
             case r of Some l2 \<Rightarrow> Inr l2
             | None \<Rightarrow>
                 bindE (set_next (l_heap l1) (l_last l1) (Some element)) (\<lambda>h.
                   finish (l1\<lparr>l_heap := h, l_last := Some element\<rparr>)))))))"

fun Sorted_from :: "nat \<Rightarrow> ('a \<Rightarrow> 'a \<Rightarrow> int) \<Rightarrow> (nat \<rightharpoonup> 'a cell) \<Rightarrow> 'a \<Rightarrow> nat option \<Rightarrow> unit res" where
  "Sorted_from 0 cmp h prev ptr = Inl Diverges"
| "Sorted_from (Suc n) cmp h prev None = Inr ()"
| "Sorted_from (Suc n) cmp h prev (Some p) =
     bindE (deref h (Some p)) (\<lambda>c.
     bindE (assertE (cmp prev (cell_item c) \<le> 0)) (\<lambda>_.
       Sorted_from n cmp h (cell_item c) (cell_next c)))"

definition SortedList_SanityCheck :: "('a \<Rightarrow> 'a \<Rightarrow> int) \<Rightarrow> 'a llist \<Rightarrow> unit res" where
  "SortedList_SanityCheck cmp l =
     bindE (List_SanityCheck l) (\<lambda>_.
       if l_first l \<noteq> l_last l
       then bindE (deref (l_heap l) (l_first l)) (\<lambda>c.
              Sorted_from (list_fuel l) cmp (l_heap l) (cell_item c) (cell_next c))
       else Inr ())"

section \<open>Iterators and self tests\<close>

text \<open>A \<open>ListIterator\<close> is a pointer into the list, \<open>current\<close>.\<close>

definition ListIterator_new :: "'a llist \<Rightarrow> nat option" where
  "ListIterator_new l = l_first l"

definition ListIterator_IsDone :: "nat option \<Rightarrow> bool" where
  "ListIterator_IsDone current = (current = None)"

definition ListIterator_Item :: "'a llist \<Rightarrow> nat option \<Rightarrow> 'a res" where
  "ListIterator_Item l current =
     bindE (assertE (\<not> ListIterator_IsDone current)) (\<lambda>_.
     bindE (deref (l_heap l) current) (\<lambda>c. Inr (cell_item c)))"

definition ListIterator_Next :: "'a llist \<Rightarrow> nat option \<Rightarrow> nat option res" where
  "ListIterator_Next l current = bindE (deref (l_heap l) current) (\<lambda>c. Inr (cell_next c))"

text \<open>
  \<open>Append\<close> and \<open>SanityCheck\<close> are virtual: run on a \<open>SortedList\<close>, the loops of
  \<open>List::SelfTest\<close> call the overriding methods, which are therefore arguments.
\<close>

fun append_all :: "('a llist \<Rightarrow> 'a \<Rightarrow> 'a llist res) \<Rightarrow> 'a llist \<Rightarrow> 'a list \<Rightarrow> 'a llist res" where
  "append_all app l [] = Inr l"
| "append_all app l (x # xs) =
     bindE (app l x) (\<lambda>l1. bindE (List_IsInList l1 x) (\<lambda>t.
     bindE (assertE t) (\<lambda>_. bindE (assertE (\<not> List_IsEmpty l1)) (\<lambda>_. append_all app l1 xs))))"

fun remove_all :: "'a llist \<Rightarrow> 'a list \<Rightarrow> 'a llist res" where
  "remove_all l [] = Inr l"
| "remove_all l (x # xs) =
     bindE (List_Remove l x) (\<lambda>l1. bindE (List_IsInList l1 x) (\<lambda>t.
     bindE (assertE (\<not> t)) (\<lambda>_. remove_all l1 xs)))"

definition List_SelfTest ::
  "('a llist \<Rightarrow> 'a \<Rightarrow> 'a llist res) \<Rightarrow> ('a llist \<Rightarrow> unit res) \<Rightarrow> 'a llist \<Rightarrow> 'a list \<Rightarrow> 'a llist res" where
  "List_SelfTest app sanity l p =
     (let iterator = ListIterator_new l in
     bindE (sanity l) (\<lambda>_.
     bindE (assertE (List_IsEmpty l \<and> l_first l = None)) (\<lambda>_.
     bindE (assertE (ListIterator_IsDone iterator)) (\<lambda>_.
     bindE (append_all app l p) (\<lambda>l1.
     bindE (sanity l1) (\<lambda>_.
     bindE (remove_all l1 p) (\<lambda>l2.
     bindE (assertE (List_IsEmpty l2)) (\<lambda>_.
     bindE (sanity l2) (\<lambda>_. Inr l2)))))))))"

fun insert_all :: "('a \<Rightarrow> 'a \<Rightarrow> int) \<Rightarrow> 'a llist \<Rightarrow> 'a list \<Rightarrow> 'a llist res" where
  "insert_all cmp l [] = Inr l"
| "insert_all cmp l (x # xs) =
     bindE (SortedList_Insert cmp l x) (\<lambda>l1. bindE (List_IsInList l1 x) (\<lambda>t.
     bindE (assertE t) (\<lambda>_. insert_all cmp l1 xs)))"

fun drain :: "'a llist \<Rightarrow> nat \<Rightarrow> ('a list \<times> 'a llist) res" where
  "drain l 0 = Inr ([], l)"
| "drain l (Suc n) =
     bindE (List_RemoveFront l) (\<lambda>(x, l1). bindE (List_IsInList l1 x) (\<lambda>t.
     bindE (assertE (\<not> t)) (\<lambda>_. bindE (drain l1 n) (\<lambda>(q, l2). Inr (x # q, l2)))))"

fun in_order :: "('a \<Rightarrow> 'a \<Rightarrow> int) \<Rightarrow> 'a list \<Rightarrow> unit res" where
  "in_order cmp (x # y # q) = bindE (assertE (cmp x y \<le> 0)) (\<lambda>_. in_order cmp (y # q))"
| "in_order cmp q = Inr ()"

definition SortedList_SelfTest :: "('a \<Rightarrow> 'a \<Rightarrow> int) \<Rightarrow> 'a llist \<Rightarrow> 'a list \<Rightarrow> 'a llist res" where
  "SortedList_SelfTest cmp l p =
     bindE (List_SelfTest (SortedList_Insert cmp) (SortedList_SanityCheck cmp) l p) (\<lambda>l1.
     bindE (insert_all cmp l1 p) (\<lambda>l2.
     bindE (SortedList_SanityCheck cmp l2) (\<lambda>_.
     bindE (drain l2 (length p)) (\<lambda>(q, l3).
     bindE (assertE (List_IsEmpty l3)) (\<lambda>_.
     bindE (in_order cmp q) (\<lambda>_.
     bindE (SortedList_SanityCheck cmp l3) (\<lambda>_. Inr l3)))))))"

definition IntCompare :: "int \<Rightarrow> int \<Rightarrow> int" where
  "IntCompare x y = (if x < y then - 1 else if x = y then 0 else 1)"

definition listTestVector :: "int list" where
  "listTestVector = [9, 5, 7]"

section \<open>Representation\<close>

primrec chain :: "(nat \<rightharpoonup> 'a cell) \<Rightarrow> nat option \<Rightarrow> (nat \<times> 'a) list \<Rightarrow> nat option \<Rightarrow> bool" where
  "chain h p [] q = (p = q)"
| "chain h p (z # zs) q =
     (p = Some (fst z) \<and> (\<exists>n. h (fst z) = Some \<lparr>cell_item = snd z, cell_next = n\<rparr> \<and> chain h n zs q))"

definition last_ptr :: "(nat \<times> 'a) list \<Rightarrow> nat option" where
  "last_ptr zs = (if zs = [] then None else Some (fst (last zs)))"

definition lrep :: "'a llist \<Rightarrow> (nat \<times> 'a) list \<Rightarrow> bool" where
  "lrep l zs \<longleftrightarrow> chain (l_heap l) (l_first l) zs None \<and> distinct (map fst zs)
     \<and> l_last l = last_ptr zs \<and> l_num l = int (length zs) \<and> (\<forall>z \<in> set zs. fst z < l_brk l)"

definition List_rep :: "'a llist \<Rightarrow> 'a list \<Rightarrow> bool" where
  "List_rep l xs \<longleftrightarrow> (\<exists>zs. lrep l zs \<and> xs = map snd zs)"

lemma deref_Some [simp]: "h a = Some c \<Longrightarrow> deref h (Some a) = Inr c"
  by (simp add: deref_def)

lemma deref_None [simp]: "deref h None = Inl Bad_Access"
  by (simp add: deref_def)

lemma set_next_Some [simp]:
  "h a = Some c \<Longrightarrow> set_next h (Some a) q = Inr (h(a \<mapsto> c\<lparr>cell_next := q\<rparr>))"
  by (simp add: set_next_def)

lemma chain_append: "chain h p (ys @ zs) q \<longleftrightarrow> (\<exists>r. chain h p ys r \<and> chain h r zs q)"
  by (induction ys arbitrary: p) auto

lemma chain_upd [simp]: "a \<notin> fst ` set zs \<Longrightarrow> chain (h(a := v)) p zs q = chain h p zs q"
  by (induction zs arbitrary: p) auto

lemma chain_None_Nil: "chain h None zs None \<longleftrightarrow> zs = []"
  by (cases zs) auto

lemma lrep_fuel: "lrep l zs \<Longrightarrow> length zs < list_fuel l"
proof -
  assume l: "lrep l zs"
  have "length zs = card (fst ` set zs)"
    using l distinct_card [of "map fst zs"] by (simp add: lrep_def)
  also have "\<dots> \<le> card {..<l_brk l}"
    using l by (intro card_mono) (auto simp: lrep_def)
  finally show ?thesis by (simp add: list_fuel_def)
qed

lemma IsInList_from_ok:
  "chain h p zs None \<Longrightarrow> length zs < n \<Longrightarrow> IsInList_from n h p x = Inr (x \<in> snd ` set zs)"
proof (induction zs arbitrary: p n)
  case Nil
  then show ?case by (cases n) auto
next
  case (Cons z zs)
  then show ?case by (cases n) auto
qed

lemma IsInList_lrep: "lrep l zs \<Longrightarrow> List_IsInList l x = Inr (x \<in> snd ` set zs)"
  using lrep_fuel [of l zs] by (simp add: List_IsInList_def IsInList_from_ok lrep_def)

lemma Apply_from_ok: "chain h p zs None \<Longrightarrow> length zs < n \<Longrightarrow> Apply_from n h p = Inr (map snd zs)"
proof (induction zs arbitrary: p n)
  case Nil
  then show ?case by (cases n) auto
next
  case (Cons z zs)
  then show ?case by (cases n) auto
qed

lemma Apply_lrep: "lrep l zs \<Longrightarrow> List_Apply l = Inr (map snd zs)"
  using lrep_fuel [of l zs] by (simp add: List_Apply_def Apply_from_ok lrep_def)

lemma findByComp_from_ok:
  "chain h p zs None \<Longrightarrow> length zs < n \<Longrightarrow> findByComp_from n h p f = Inr (find f (map snd zs))"
proof (induction zs arbitrary: p n)
  case Nil
  then show ?case by (cases n) auto
next
  case (Cons z zs)
  then show ?case by (cases n) auto
qed

lemma lrep_empty: "lrep l zs \<Longrightarrow> List_IsEmpty l \<longleftrightarrow> zs = []"
  by (simp add: lrep_def List_IsEmpty_def)

lemma lrep_new: "lrep List_new []"
  by (simp add: lrep_def List_new_def last_ptr_def)

section \<open>Insertion at either end\<close>

lemma Append_lrep:
  assumes "lrep l zs"
  shows "\<exists>l'. List_Append l x = Inr l' \<and> lrep l' (zs @ [(l_brk l, x)])"
proof -
  let ?e = "l_brk l"
  let ?c = "\<lparr>cell_item = x, cell_next = None\<rparr>"
  have fresh: "?e \<notin> fst ` set zs" using assms by (auto simp: lrep_def)
  show ?thesis
  proof (cases zs rule: rev_cases)
    case Nil
    let ?l = "l\<lparr>l_first := Some ?e, l_last := Some ?e, l_num := l_num l + 1,
               l_heap := (l_heap l)(?e \<mapsto> ?c), l_brk := Suc ?e\<rparr>"
    have rep: "lrep ?l [(?e, x)]"
      using assms Nil by (simp add: lrep_def last_ptr_def)
    have "List_Append l x = Inr ?l"
      using Nil lrep_empty [OF assms] IsInList_lrep [OF rep, of x]
      by (cases l) (simp add: List_Append_def new_ListElement_def List_IsEmpty_def Let_def)
    with rep Nil show ?thesis by simp
  next
    case (snoc ys z)
    have r: "chain (l_heap l) (l_first l) ys (Some (fst z))"
      "l_heap l (fst z) = Some \<lparr>cell_item = snd z, cell_next = None\<rparr>"
      using assms snoc by (auto simp: lrep_def chain_append)
    have last: "l_last l = Some (fst z)" using assms snoc by (simp add: lrep_def last_ptr_def)
    have zys: "fst z \<notin> fst ` set ys" "?e \<notin> fst ` set ys" "fst z \<noteq> ?e"
      using assms snoc fresh by (auto simp: lrep_def)
    let ?h = "(l_heap l)(?e \<mapsto> ?c, fst z \<mapsto> \<lparr>cell_item = snd z, cell_next = Some ?e\<rparr>)"
    let ?l = "l\<lparr>l_last := Some ?e, l_num := l_num l + 1, l_heap := ?h, l_brk := Suc ?e\<rparr>"
    have "chain ?h (l_first l) (ys @ [z, (?e, x)]) None"
      using r zys by (auto simp: chain_append)
    then have rep: "lrep ?l (zs @ [(?e, x)])"
      using assms snoc fresh by (auto simp: lrep_def last_ptr_def)
    have ne: "l_num l \<noteq> 0" using lrep_empty [OF assms] snoc by (simp add: List_IsEmpty_def)
    have "List_Append l x = Inr ?l"
      using IsInList_lrep [OF rep, of x] ne last r(2) zys(3)
      by (cases l) (simp add: List_Append_def new_ListElement_def List_IsEmpty_def Let_def)
    with rep show ?thesis by blast
  qed
qed

lemma lrep_alloc:
  assumes "lrep l zs"
  shows "lrep (snd (new_ListElement l x)) zs"
proof -
  have "l_brk l \<notin> fst ` set zs" using assms by (auto simp: lrep_def)
  then show ?thesis using assms by (auto simp: lrep_def new_ListElement_def)
qed

lemma Prepend_lrep:
  fixes l :: "'a llist" and x :: 'a
  assumes "lrep l zs"
  defines "l' \<equiv> l\<lparr>l_first := Some (l_brk l), l_last := last_ptr ((l_brk l, x) # zs),
      l_num := l_num l + 1,
      l_heap := (l_heap l)(l_brk l \<mapsto> \<lparr>cell_item = x, cell_next = l_first l\<rparr>),
      l_brk := Suc (l_brk l)\<rparr>"
  shows "List_Prepend l x = (if x \<in> snd ` set zs then Inl Assert_Failed else Inr l')"
    and "lrep l' ((l_brk l, x) # zs)"
proof -
  have fresh: "l_brk l \<notin> fst ` set zs" using assms(1) by (auto simp: lrep_def)
  show rep: "lrep l' ((l_brk l, x) # zs)"
    using assms(1) fresh by (auto simp: lrep_def l'_def)
  have in0: "List_IsInList (snd (new_ListElement l x)) x = Inr (x \<in> snd ` set zs)"
    by (rule IsInList_lrep [OF lrep_alloc [OF assms(1)]])
  have in1: "List_IsInList l' x = Inr True" using IsInList_lrep [OF rep, of x] by simp
  have emp: "l_num l = 0 \<longleftrightarrow> zs = []" using assms(1) by (simp add: lrep_def)
  have last: "zs \<noteq> [] \<Longrightarrow> last_ptr ((l_brk l, x) # zs) = l_last l"
    using assms(1) by (simp add: lrep_def last_ptr_def)
  have first: "zs = [] \<Longrightarrow> l_first l = None" using assms(1) by (simp add: lrep_def)
  show "List_Prepend l x = (if x \<in> snd ` set zs then Inl Assert_Failed else Inr l')"
  proof (cases "zs = []")
    case True
    then show ?thesis
      using in0 in1 emp first
      by (cases l) (simp add: l'_def List_Prepend_def new_ListElement_def Let_def List_IsEmpty_def last_ptr_def)
  next
    case False
    then show ?thesis
      using in0 in1 emp last
      by (cases l) (simp add: l'_def List_Prepend_def new_ListElement_def Let_def List_IsEmpty_def)
  qed
qed

section \<open>Splicing and removal\<close>

definition head_ptr :: "(nat \<times> 'a) list \<Rightarrow> nat option" where
  "head_ptr zs = (case zs of [] \<Rightarrow> None | z # _ \<Rightarrow> Some (fst z))"

lemma head_ptr_simps [simp]: "head_ptr [] = None" "head_ptr (z # zs) = Some (fst z)"
  by (simp_all add: head_ptr_def)

lemma chain_head: "chain h p zs None \<Longrightarrow> p = head_ptr zs"
  by (cases zs) auto

lemma chain_suffix: "chain h p (as @ bs) None \<Longrightarrow> chain h (head_ptr bs) bs None"
  using chain_head by (auto simp: chain_append)

lemma chain_cell:
  "chain h p (as @ z # bs) None \<Longrightarrow> h (fst z) = Some \<lparr>cell_item = snd z, cell_next = head_ptr bs\<rparr>"
  using chain_head by (auto simp: chain_append)

lemma chain_splice:
  assumes "chain h p (as @ z # bs) None" "fst z \<notin> fst ` set as" "fst z \<notin> fst ` set cs"
    and "chain h n cs None"
  shows "chain (h(fst z \<mapsto> \<lparr>cell_item = snd z, cell_next = n\<rparr>)) p (as @ z # cs) None"
  using assms by (auto simp: chain_append)

lemma lrep_cell:
  "lrep l (as @ z # bs) \<Longrightarrow> l_heap l (fst z) = Some \<lparr>cell_item = snd z, cell_next = head_ptr bs\<rparr>"
  by (auto simp: lrep_def intro: chain_cell)

lemma lrep_first: "lrep l zs \<Longrightarrow> l_first l = head_ptr zs"
  by (auto simp: lrep_def intro: chain_head)

lemma first_eq_last: "lrep l (z # zs) \<Longrightarrow> l_first l = l_last l \<longleftrightarrow> zs = []"
  by (cases zs rule: rev_cases) (auto simp: lrep_def last_ptr_def)

lemma RemoveFront_lrep:
  assumes "lrep l (z # zs)"
  shows "\<exists>l'. List_RemoveFront l = Inr (snd z, l') \<and> lrep l' zs"
proof -
  have c: "l_heap l (fst z) = Some \<lparr>cell_item = snd z, cell_next = head_ptr zs\<rparr>"
    using lrep_cell [of l "[]"] assms by simp
  have f: "l_first l = Some (fst z)" using lrep_first [OF assms] by simp
  have tl: "chain (l_heap l) (head_ptr zs) zs None"
    using assms chain_suffix [of _ _ "[z]" zs] by (simp add: lrep_def)
  note fl = first_eq_last [OF assms]
  have ne: "\<not> List_IsEmpty l" using lrep_empty [OF assms] by simp
  have fresh: "fst z \<notin> fst ` set zs" using assms by (simp add: lrep_def)
  show ?thesis
  proof (cases "zs = []")
    case True
    with assms ne f c fl show ?thesis
      by (simp add: List_RemoveFront_def Let_def lrep_def last_ptr_def)
  next
    case False
    with assms ne f c fl tl fresh show ?thesis
      by (simp add: List_RemoveFront_def Let_def lrep_def last_ptr_def)
  qed
qed

lemma Remove_from_lrep:
  assumes "lrep l (as @ z # mid @ (a, x) # rest)" "x \<notin> snd ` set mid"
    and "length mid < n"
  shows "\<exists>l'. Remove_from n l (Some (fst z)) (head_ptr (mid @ (a, x) # rest)) x = Inr l'
    \<and> lrep l' (as @ z # mid @ rest)"
  using assms
proof (induction mid arbitrary: as z n)
  case Nil
  from Nil.prems obtain m where n: "n = Suc m" by (cases n) auto
  have rep: "lrep l ((as @ [z]) @ (a, x) # rest)" using Nil.prems by simp
  note cz = lrep_cell [of l as z "(a, x) # rest"] and ca = lrep_cell [OF rep]
  have ch: "chain (l_heap l) (l_first l) (as @ z # (a, x) # rest) None"
    using Nil.prems by (simp add: lrep_def)
  have d: "fst z \<notin> fst ` set as" "fst z \<notin> fst ` set rest" "a \<notin> fst ` set as"
    "a \<notin> fst ` set rest" "fst z \<noteq> a"
    using Nil.prems by (auto simp: lrep_def)
  have "chain (l_heap l) (head_ptr rest) rest None"
    using chain_suffix [of _ _ "as @ [z, (a, x)]" rest] ch by simp
  from chain_splice [OF ch d(1,2) this]
  have ch': "chain ((l_heap l)(fst z \<mapsto> \<lparr>cell_item = snd z, cell_next = head_ptr rest\<rparr>, a := None))
      (l_first l) (as @ z # rest) None"
    using d by (subst chain_upd) auto
  have "head_ptr rest = None \<longleftrightarrow> rest = []" by (cases rest) simp_all
  with ch' n cz ca Nil.prems(1) show ?case
    by (auto simp: lrep_def last_ptr_def)
next
  case (Cons b mid)
  from Cons.prems obtain m where n: "n = Suc m" by (cases n) auto
  have rep: "lrep l ((as @ [z]) @ b # mid @ (a, x) # rest)" using Cons.prems by simp
  from Cons.IH [OF rep] Cons.prems lrep_cell [OF rep] n show ?case
    by (auto simp: lrep_def)
qed

text \<open>
  \<open>Remove\<close> succeeds exactly when the item occurs once: the assertion after the removal
  insists that it is no longer in the list.
\<close>

lemma split_first_occurrence:
  assumes "x \<in> snd ` set zs"
  obtains ys a rest where "zs = ys @ (a, x) # rest" "x \<notin> snd ` set ys"
proof -
  from assms have "\<exists>z \<in> set zs. snd z = x" by auto
  from split_list_first_prop [OF this] obtain ys z rest
    where "zs = ys @ z # rest" "snd z = x" "\<forall>y \<in> set ys. snd y \<noteq> x" by blast
  with that [of ys "fst z" rest] show thesis by force
qed

lemma Remove_lrep:
  assumes "lrep l (ys @ (a, x) # rest)" "x \<notin> snd ` set ys"
  shows "\<exists>l'. lrep l' (ys @ rest) \<and>
     List_Remove l x = (if x \<in> snd ` set rest then Inl Assert_Failed else Inr l')"
proof -
  have isin: "List_IsInList l x = Inr True" using IsInList_lrep [OF assms(1), of x] by simp
  show ?thesis
  proof (cases ys)
    case Nil
    obtain l' where l': "List_RemoveFront l = Inr (x, l')" "lrep l' rest"
      using RemoveFront_lrep [of l "(a, x)" rest] assms Nil by auto
    have "deref (l_heap l) (l_first l) = Inr \<lparr>cell_item = x, cell_next = head_ptr rest\<rparr>"
      using lrep_cell [of l "[]" "(a, x)" rest] lrep_first [OF assms(1)] assms(1) Nil by simp
    then have "List_Remove l x = (if x \<in> snd ` set rest then Inl Assert_Failed else Inr l')"
      using isin l' IsInList_lrep [OF l'(2), of x] by (simp add: List_Remove_def)
    with l'(2) Nil show ?thesis by auto
  next
    case (Cons z mid)
    have fuel: "length mid < list_fuel l" using lrep_fuel [OF assms(1)] Cons by simp
    obtain l' where l': "Remove_from (list_fuel l) l (Some (fst z)) (head_ptr (mid @ (a, x) # rest)) x
        = Inr l'" "lrep l' (ys @ rest)"
      using Remove_from_lrep [of l "[]" z mid a x rest "list_fuel l"] assms Cons fuel by auto
    have f: "l_first l = Some (fst z)" using lrep_first [OF assms(1)] Cons by simp
    have "deref (l_heap l) (l_first l) =
        Inr \<lparr>cell_item = snd z, cell_next = head_ptr (mid @ (a, x) # rest)\<rparr>"
      using lrep_cell [of l "[]" z] assms(1) Cons f by simp
    then have "List_Remove l x = (if x \<in> snd ` set rest then Inl Assert_Failed else Inr l')"
      using isin l' f IsInList_lrep [OF l'(2), of x] assms(2) Cons
      by (simp add: List_Remove_def image_Un)
    with l'(2) show ?thesis by auto
  qed
qed

lemma Remove_absent: "lrep l zs \<Longrightarrow> x \<notin> snd ` set zs \<Longrightarrow> List_Remove l x = Inl Assert_Failed"
  by (simp add: List_Remove_def IsInList_lrep)

section \<open>Sanity checks\<close>

lemma SanityCheck_from_lrep:
  assumes "lrep l (as @ bs)" "bs \<noteq> []" "length bs \<le> n" "k = int (length as) + 1"
  shows "SanityCheck_from n l (head_ptr bs) k = Inr (l_num l)"
  using assms
proof (induction bs arbitrary: as n k)
  case (Cons b bs)
  from Cons.prems obtain m where n: "n = Suc m" by (cases n) auto
  have last: "Some (fst b) = l_last l \<longleftrightarrow> bs = []"
    using Cons.prems(1) by (cases bs rule: rev_cases) (auto simp: lrep_def last_ptr_def)
  have rep: "lrep l ((as @ [b]) @ bs)" using Cons.prems by simp
  show ?case
  proof (cases "bs = []")
    case True
    with Cons.prems n last show ?thesis by (simp add: lrep_def)
  next
    case False
    then have "Suc 0 \<le> length bs" by (simp add: Suc_le_eq)
    with False Cons.IH [OF rep False, of m "k + 1"] Cons.prems n last lrep_cell [OF Cons.prems(1)]
    show ?thesis by (simp add: lrep_def)
  qed
qed simp

lemma SanityCheck_lrep:
  assumes "lrep l zs"
  shows "List_SanityCheck l = Inr ()"
proof (cases zs)
  case Nil
  with assms show ?thesis by (simp add: List_SanityCheck_def lrep_def last_ptr_def)
next
  case (Cons z ws)
  have f: "l_first l = Some (fst z)" using lrep_first [OF assms] Cons by simp
  have fl: "l_first l = l_last l \<longleftrightarrow> ws = []" using first_eq_last [of l z ws] assms Cons by simp
  obtain ys w where w: "zs = ys @ [w]" using Cons by (metis rev_exhaust list.discI)
  have lst: "l_last l = Some (fst w)" "l_heap l (fst w) = Some \<lparr>cell_item = snd w, cell_next = None\<rparr>"
    using assms w lrep_cell [of l ys w "[]"] by (simp_all add: lrep_def last_ptr_def)
  have "SanityCheck_from (list_fuel l) l (Some (fst z)) 1 = Inr (l_num l)"
    using SanityCheck_from_lrep [of l "[]" zs "list_fuel l" 1] assms Cons lrep_fuel [OF assms]
    by simp
  moreover have "ws = [] \<Longrightarrow> l_num l = 1" using assms Cons by (simp add: lrep_def)
  ultimately show ?thesis using f fl lst by (auto simp: List_SanityCheck_def)
qed

section \<open>Sorted insertion\<close>

text \<open>
  The reference: the new item goes after every item that does not compare greater, so equal
  items keep the order in which they were inserted.
\<close>

definition sorted_insert :: "('a \<Rightarrow> 'a \<Rightarrow> int) \<Rightarrow> 'a \<Rightarrow> 'a list \<Rightarrow> 'a list" where
  "sorted_insert cmp x xs =
     takeWhile (\<lambda>y. 0 \<le> cmp x y) xs @ x # dropWhile (\<lambda>y. 0 \<le> cmp x y) xs"

lemma Insert_from_lrep:
  assumes "lrep l (as @ z # mid @ rest)" "\<forall>y \<in> snd ` set mid. 0 \<le> cmp x y"
    and "rest \<noteq> [] \<longrightarrow> cmp x (snd (hd rest)) < 0"
    and "l_heap l e = Some \<lparr>cell_item = x, cell_next = None\<rparr>" "e < l_brk l"
    and "e \<notin> fst ` set (as @ z # mid @ rest)" "length mid < n"
  shows "(rest = [] \<longrightarrow> Insert_from n cmp l (Some (fst z)) e x = Inr None)
    \<and> (rest \<noteq> [] \<longrightarrow> (\<exists>l'. Insert_from n cmp l (Some (fst z)) e x = Inr (Some l')
      \<and> lrep l' (as @ z # mid @ (e, x) # rest)))"
  using assms
proof (induction mid arbitrary: as z n)
  case Nil
  from Nil.prems obtain m where n: "n = Suc m" by (cases n) auto
  have cz: "l_heap l (fst z) = Some \<lparr>cell_item = snd z, cell_next = head_ptr rest\<rparr>"
    using lrep_cell [of l as z rest] Nil.prems by simp
  show ?case
  proof (cases rest)
    case Nil
    with cz n show ?thesis by simp
  next
    case (Cons r rs)
    have rep: "lrep l ((as @ [z]) @ r # rs)" using Nil.prems Cons by simp
    have ch: "chain (l_heap l) (l_first l) (as @ z # rest) None"
      using Nil.prems by (simp add: lrep_def)
    let ?h1 = "(l_heap l)(e \<mapsto> \<lparr>cell_item = x, cell_next = Some (fst r)\<rparr>)"
    let ?h = "?h1(fst z \<mapsto> \<lparr>cell_item = snd z, cell_next = Some e\<rparr>)"
    have d: "e \<notin> fst ` set (as @ z # rest)" "fst z \<notin> fst ` set as" "fst z \<notin> fst ` set rest"
      using Nil.prems by (auto simp: lrep_def)
    have tl: "chain ?h1 (Some e) ((e, x) # rest) None"
      using chain_suffix [of "l_heap l" "l_first l" "as @ [z]" rest] ch d(1) Cons
      by (auto simp: image_Un)
    have "chain ?h (l_first l) (as @ z # (e, x) # rest) None"
      using ch d tl by (intro chain_splice [of _ _ as z rest]) auto
    then have "lrep (l\<lparr>l_heap := ?h, l_num := l_num l + 1\<rparr>) (as @ z # (e, x) # rest)"
      using Nil.prems d Cons by (auto simp: lrep_def last_ptr_def)
    then show ?thesis
      using n cz lrep_cell [OF rep] Nil.prems(3,4) Cons d(1) by auto
  qed
next
  case (Cons b mid)
  from Cons.prems obtain m where n: "n = Suc m" by (cases n) auto
  have rep: "lrep l ((as @ [z]) @ b # mid @ rest)" using Cons.prems by simp
  have cz: "l_heap l (fst z) = Some \<lparr>cell_item = snd z, cell_next = Some (fst b)\<rparr>"
    using lrep_cell [of l as z] Cons.prems by simp
  have "Insert_from n cmp l (Some (fst z)) e x = Insert_from m cmp l (Some (fst b)) e x"
    using n cz lrep_cell [OF rep] Cons.prems(2) by auto
  with Cons.IH [OF rep, of m] Cons.prems n show ?case by simp
qed

text \<open>The four places where the new element can go: empty list, front, middle, end.\<close>

lemma Insert_alloc:
  assumes "lrep l zs" "x \<notin> snd ` set zs"
  defines "l1 \<equiv> snd (new_ListElement l x)"
  shows "lrep l1 zs" "new_ListElement l x = (l_brk l, l1)" "List_IsInList l1 x = Inr False"
    "l_heap l1 (l_brk l) = Some \<lparr>cell_item = x, cell_next = None\<rparr>" "l_brk l < l_brk l1"
    "l_brk l \<notin> fst ` set zs"
proof -
  show rep: "lrep l1 zs" unfolding l1_def by (rule lrep_alloc [OF assms(1)])
  show "List_IsInList l1 x = Inr False" using IsInList_lrep [OF rep, of x] assms(2) by simp
qed (use assms(1) in \<open>auto simp: l1_def new_ListElement_def lrep_def\<close>)

lemma IsInList_now: "lrep l zs \<Longrightarrow> x \<in> snd ` set zs \<Longrightarrow> List_IsInList l x = Inr True"
  by (simp add: IsInList_lrep)

lemma Insert_empty:
  assumes "lrep l []"
  shows "\<exists>l'. SortedList_Insert cmp l x = Inr l' \<and> lrep l' [(l_brk l, x)]"
proof -
  define l1 where "l1 = snd (new_ListElement l x)"
  note a = Insert_alloc [OF assms, of x, folded l1_def, simplified]
  let ?l = "l1\<lparr>l_first := Some (l_brk l), l_last := Some (l_brk l), l_num := l_num l1 + 1\<rparr>"
  have rep: "lrep ?l [(l_brk l, x)]" using a by (simp add: lrep_def last_ptr_def)
  then have "SortedList_Insert cmp l x = Inr ?l"
    using a lrep_empty [OF a(1)] IsInList_now [OF rep]
    by (simp add: SortedList_Insert_def Let_def)
  with rep show ?thesis by blast
qed

lemma Insert_front:
  assumes "lrep l (z # zs)" "x \<notin> snd ` set (z # zs)" "cmp x (snd z) < 0"
  shows "\<exists>l'. SortedList_Insert cmp l x = Inr l' \<and> lrep l' ((l_brk l, x) # z # zs)"
proof -
  define l1 where "l1 = snd (new_ListElement l x)"
  note a = Insert_alloc [OF assms(1,2), folded l1_def]
  let ?l = "l1\<lparr>l_heap := (l_heap l1)(l_brk l \<mapsto> \<lparr>cell_item = x, cell_next = Some (fst z)\<rparr>),
               l_first := Some (l_brk l), l_num := l_num l1 + 1\<rparr>"
  have f: "l_first l1 = Some (fst z)" using lrep_first [OF a(1)] by simp
  have rep: "lrep ?l ((l_brk l, x) # z # zs)"
    using a f by (auto simp: lrep_def last_ptr_def)
  then have "SortedList_Insert cmp l x = Inr ?l"
    using a f lrep_empty [OF a(1)] lrep_cell [of l1 "[]" z zs] IsInList_now [OF rep] assms(3)
    by (simp add: SortedList_Insert_def Let_def)
  with rep show ?thesis by blast
qed

lemma Insert_later:
  assumes "lrep l (z # mid @ rest)" "x \<notin> snd ` set (z # mid @ rest)" "\<not> cmp x (snd z) < 0"
    and mid: "\<forall>y \<in> snd ` set mid. 0 \<le> cmp x y"
    and rest: "rest \<noteq> [] \<longrightarrow> cmp x (snd (hd rest)) < 0"
  shows "\<exists>l'. SortedList_Insert cmp l x = Inr l' \<and> lrep l' (z # mid @ (l_brk l, x) # rest)"
proof -
  let ?e = "l_brk l"
  define l1 where "l1 = snd (new_ListElement l x)"
  note a = Insert_alloc [OF assms(1,2), folded l1_def]
  have fuel: "length mid < list_fuel l1" using lrep_fuel [OF a(1)] by simp
  have f: "l_first l1 = Some (fst z)" "\<not> List_IsEmpty l1"
    "l_heap l1 (fst z) = Some \<lparr>cell_item = snd z, cell_next = head_ptr (mid @ rest)\<rparr>"
    using lrep_first [OF a(1)] lrep_empty [OF a(1)] lrep_cell [of l1 "[]" z] a(1) by simp_all
  have loop: "(rest = [] \<longrightarrow> Insert_from (list_fuel l1) cmp l1 (Some (fst z)) ?e x = Inr None)
      \<and> (rest \<noteq> [] \<longrightarrow> (\<exists>l'. Insert_from (list_fuel l1) cmp l1 (Some (fst z)) ?e x = Inr (Some l')
        \<and> lrep l' (z # mid @ (?e, x) # rest)))"
    using Insert_from_lrep [of l1 "[]" z mid rest cmp x ?e "list_fuel l1"] a mid rest fuel
    by simp
  show ?thesis
  proof (cases "rest = []")
    case True
    obtain ys w where w: "z # mid = ys @ [w]" by (metis rev_exhaust list.discI)
    let ?h = "(l_heap l1)(fst w \<mapsto> \<lparr>cell_item = snd w, cell_next = Some ?e\<rparr>)"
    let ?l = "l1\<lparr>l_heap := ?h, l_last := Some ?e, l_num := l_num l1 + 1\<rparr>"
    have rep1: "lrep l1 (ys @ [w])" using a(1) w True by simp
    then have lw: "l_last l1 = Some (fst w)" "l_heap l1 (fst w) =
        Some \<lparr>cell_item = snd w, cell_next = None\<rparr>"
      using lrep_cell [of l1 ys w "[]"] by (simp_all add: lrep_def last_ptr_def)
    have e: "?e \<notin> fst ` set (ys @ [w])" using a(6) True w by (metis append_Nil2 append_Cons)
    have "chain ?h (l_first l1) (ys @ w # [(?e, x)]) None"
      using rep1 a(4) e by (intro chain_splice [of _ _ ys w "[]"]) (auto simp: lrep_def)
    then have rep: "lrep ?l (ys @ [w, (?e, x)])"
      using rep1 a(5) e by (auto simp: lrep_def last_ptr_def)
    then have "SortedList_Insert cmp l x = Inr ?l"
      using a(2,3) f assms(3) loop True lw IsInList_now [OF rep]
      by (simp add: SortedList_Insert_def Let_def)
    moreover have "z # mid @ (?e, x) # rest = ys @ [w, (?e, x)]" using w True by (metis append_Cons append_assoc append_Nil)
    ultimately show ?thesis using rep by metis
  next
    case False
    then obtain l' where "Insert_from (list_fuel l1) cmp l1 (Some (fst z)) ?e x = Inr (Some l')"
      "lrep l' (z # mid @ (?e, x) # rest)" using loop by auto
    then show ?thesis using a(2,3) f assms(3) by (simp add: SortedList_Insert_def Let_def)
  qed
qed

lemma Insert_lrep:
  assumes "lrep l zs" "x \<notin> snd ` set zs"
  shows "\<exists>l' ws. SortedList_Insert cmp l x = Inr l' \<and> lrep l' ws
    \<and> map snd ws = sorted_insert cmp x (map snd zs)"
proof (cases zs)
  case Nil
  then have "sorted_insert cmp x (map snd zs) = map snd [(l_brk l, x)]"
    by (simp add: sorted_insert_def)
  with Insert_empty [of l cmp x] assms(1) Nil show ?thesis by metis
next
  case (Cons z ws)
  show ?thesis
  proof (cases "cmp x (snd z) < 0")
    case True
    then have "sorted_insert cmp x (map snd zs) = map snd ((l_brk l, x) # zs)"
      using Cons by (simp add: sorted_insert_def)
    with Insert_front [of l z ws x cmp] assms Cons True show ?thesis by metis
  next
    case False
    let ?P = "\<lambda>w. 0 \<le> cmp x (snd w)"
    have ws: "ws = takeWhile ?P ws @ dropWhile ?P ws" by simp
    have mid: "\<forall>y \<in> snd ` set (takeWhile ?P ws). 0 \<le> cmp x y" by (auto dest: set_takeWhileD)
    have rest: "dropWhile ?P ws \<noteq> [] \<longrightarrow> cmp x (snd (hd (dropWhile ?P ws))) < 0"
      using hd_dropWhile [of ?P ws] by fastforce
    have "sorted_insert cmp x (map snd zs) =
        map snd (z # takeWhile ?P ws @ (l_brk l, x) # dropWhile ?P ws)"
      using False Cons
      by (simp add: sorted_insert_def takeWhile_map dropWhile_map comp_def)
    with Insert_later [of l z "takeWhile ?P ws" "dropWhile ?P ws" x cmp] assms Cons False mid rest
    show ?thesis by (metis ws)
  qed
qed

lemma Insert_duplicate:
  assumes "lrep l zs" "x \<in> snd ` set zs"
  shows "SortedList_Insert cmp l x = Inl Assert_Failed"
proof -
  obtain e l1 where new: "new_ListElement l x = (e, l1)" by fastforce
  then have "List_IsInList l1 x = Inr True"
    using IsInList_lrep [OF lrep_alloc [OF assms(1), of x], of x] assms(2) by simp
  with new show ?thesis by (simp add: SortedList_Insert_def Let_def)
qed

section \<open>Comparison functions\<close>

text \<open>
  What list.h asks of the function given to a \<open>SortedList\<close>: negative, zero or positive as
  the first argument is smaller than, equal to or larger than the second.
\<close>

locale comparator =
  fixes cmp :: "'a \<Rightarrow> 'a \<Rightarrow> int"
  assumes cmp_sym: "cmp a b < 0 \<longleftrightarrow> 0 < cmp b a"
    and cmp_trans: "cmp a b \<le> 0 \<Longrightarrow> cmp b c \<le> 0 \<Longrightarrow> cmp a c \<le> 0"
begin

definition le :: "'a \<Rightarrow> 'a \<Rightarrow> bool" where
  "le a b \<longleftrightarrow> cmp a b \<le> 0"

lemma le_total: "le a b \<or> le b a"
  using cmp_sym [of a b] cmp_sym [of b a] by (auto simp: le_def)

lemma not_less_le: "0 \<le> cmp a b \<Longrightarrow> le b a"
  using cmp_sym [of a b] by (auto simp: le_def)

lemma sorted_insert_sorted:
  assumes "sorted_wrt le xs"
  shows "sorted_wrt le (sorted_insert cmp x xs)"
  using assms
proof (induction xs)
  case Nil
  then show ?case by (simp add: sorted_insert_def)
next
  case (Cons y ys)
  show ?case
  proof (cases "0 \<le> cmp x y")
    case True
    then have "le y x" by (rule not_less_le)
    moreover have "set (sorted_insert cmp x ys) = insert x (set ys)"
      unfolding sorted_insert_def
      by (auto dest: set_takeWhileD set_dropWhileD) (metis Un_iff set_append takeWhile_dropWhile_id)
    moreover have "sorted_insert cmp x (y # ys) = y # sorted_insert cmp x ys"
      using True by (simp add: sorted_insert_def)
    ultimately show ?thesis using Cons by auto
  next
    case False
    then have xy: "le x y" by (simp add: le_def)
    have "le x z" if "z \<in> set ys" for z
      using cmp_trans [of x y z] xy Cons.prems that by (auto simp: le_def)
    with False xy Cons.prems show ?thesis by (simp add: sorted_insert_def)
  qed
qed

lemma in_order_sorted: "sorted_wrt le q \<Longrightarrow> in_order cmp q = Inr ()"
  by (induction q rule: induct_list012) (auto simp: le_def)

end

lemma mset_sorted_insert [simp]: "mset (sorted_insert cmp x xs) = add_mset x (mset xs)"
proof -
  have "mset (takeWhile P xs) + mset (dropWhile P xs) = mset xs" for P
    by (metis mset_append takeWhile_dropWhile_id)
  then show ?thesis by (simp add: sorted_insert_def)
qed

lemma set_sorted_insert [simp]: "set (sorted_insert cmp x xs) = insert x (set xs)"
  using mset_sorted_insert [of cmp x xs] by (metis set_mset_add_mset_insert set_mset_mset)

section \<open>The methods as operations on sequences\<close>

lemma List_rep_new [simp]: "List_rep List_new []"
  using lrep_new by (auto simp: List_rep_def)

lemma List_rep_lrep: "lrep l zs \<Longrightarrow> List_rep l (map snd zs)"
  by (auto simp: List_rep_def)

lemma IsInList_rep: "List_rep l xs \<Longrightarrow> List_IsInList l x = Inr (x \<in> set xs)"
  by (auto simp: List_rep_def IsInList_lrep)

lemma NumInList_rep: "List_rep l xs \<Longrightarrow> List_NumInList l = int (length xs)"
  by (auto simp: List_rep_def lrep_def List_NumInList_def)

lemma IsEmpty_rep: "List_rep l xs \<Longrightarrow> List_IsEmpty l \<longleftrightarrow> xs = []"
  by (auto simp: List_rep_def lrep_empty)

lemma first_rep: "List_rep l xs \<Longrightarrow> l_first l = None \<longleftrightarrow> xs = []"
proof -
  assume "List_rep l xs"
  then obtain zs where "lrep l zs" "xs = map snd zs" by (auto simp: List_rep_def)
  then show ?thesis using lrep_first [of l zs] by (cases zs) auto
qed

lemma Apply_rep: "List_rep l xs \<Longrightarrow> List_Apply l = Inr xs"
  by (auto simp: List_rep_def Apply_lrep)

lemma findByComp_rep: "List_rep l xs \<Longrightarrow> List_findByComp l f = Inr (find f xs)"
proof -
  assume "List_rep l xs"
  then obtain zs where zs: "lrep l zs" "xs = map snd zs" by (auto simp: List_rep_def)
  have "findByComp_from (list_fuel l) (l_heap l) (l_first l) f = Inr (find f xs)"
    using zs lrep_fuel [OF zs(1)] by (auto simp: lrep_def intro: findByComp_from_ok)
  then show ?thesis using lrep_empty [OF zs(1)] zs(2) by (simp add: List_findByComp_def)
qed

lemma SanityCheck_rep: "List_rep l xs \<Longrightarrow> List_SanityCheck l = Inr ()"
  by (auto simp: List_rep_def SanityCheck_lrep)

lemma Front_rep: "List_rep l xs \<Longrightarrow>
    List_Front l = (case xs of [] \<Rightarrow> Inl Bad_Access | x # _ \<Rightarrow> Inr x)"
proof -
  assume "List_rep l xs"
  then obtain zs where zs: "lrep l zs" "xs = map snd zs" by (auto simp: List_rep_def)
  then show ?thesis
    using lrep_first [OF zs(1)] lrep_cell [of l "[]"] by (cases zs) (auto simp: List_Front_def)
qed

lemma Append_rep: "List_rep l xs \<Longrightarrow> \<exists>l'. List_Append l x = Inr l' \<and> List_rep l' (xs @ [x])"
proof -
  assume "List_rep l xs"
  then obtain zs where zs: "lrep l zs" "xs = map snd zs" by (auto simp: List_rep_def)
  from Append_lrep [OF zs(1), of x] List_rep_lrep zs(2) show ?thesis by fastforce
qed

lemma Prepend_rep: "List_rep l xs \<Longrightarrow>
    if x \<in> set xs then List_Prepend l x = Inl Assert_Failed
    else \<exists>l'. List_Prepend l x = Inr l' \<and> List_rep l' (x # xs)"
proof -
  assume "List_rep l xs"
  then obtain zs where zs: "lrep l zs" "xs = map snd zs" by (auto simp: List_rep_def)
  from Prepend_lrep [OF zs(1), of x] List_rep_lrep zs(2) show ?thesis by fastforce
qed

lemma RemoveFront_rep: "List_rep l (x # xs) \<Longrightarrow>
    \<exists>l'. List_RemoveFront l = Inr (x, l') \<and> List_rep l' xs"
proof -
  assume "List_rep l (x # xs)"
  then obtain z zs where "lrep l (z # zs)" "snd z = x" "xs = map snd zs"
    by (auto simp: List_rep_def)
  with RemoveFront_lrep [of l z zs] List_rep_lrep show ?thesis by blast
qed

lemma RemoveFront_rep_Nil: "List_rep l [] \<Longrightarrow> List_RemoveFront l = Inl Assert_Failed"
  by (simp add: List_RemoveFront_def IsEmpty_rep Let_def)

lemma Remove_rep: "List_rep l xs \<Longrightarrow>
    if count_list xs x = 1 then \<exists>l'. List_Remove l x = Inr l' \<and> List_rep l' (remove1 x xs)
    else List_Remove l x = Inl Assert_Failed"
proof -
  assume "List_rep l xs"
  then obtain zs where zs: "lrep l zs" "xs = map snd zs" by (auto simp: List_rep_def)
  show ?thesis
  proof (cases "x \<in> snd ` set zs")
    case False
    then show ?thesis using Remove_absent [OF zs(1)] zs(2) by (simp add: count_list_0_iff)
  next
    case True
    then obtain ys a rest where split: "zs = ys @ (a, x) # rest" "x \<notin> snd ` set ys"
      by (rule split_first_occurrence)
    have cnt: "count_list xs x = 1 \<longleftrightarrow> x \<notin> snd ` set rest"
      using split zs(2) by (simp add: count_list_0_iff)
    have rem: "remove1 x xs = map snd (ys @ rest)"
      using split zs(2) by (simp add: remove1_append)
    obtain l' where l': "lrep l' (ys @ rest)"
      "List_Remove l x = (if x \<in> snd ` set rest then Inl Assert_Failed else Inr l')"
      using Remove_lrep [OF _ split(2), of l a rest] zs(1) split(1) by auto
    then show ?thesis using cnt rem List_rep_lrep [OF l'(1)] by simp
  qed
qed

lemma Insert_rep: "List_rep l xs \<Longrightarrow>
    if x \<in> set xs then SortedList_Insert cmp l x = Inl Assert_Failed
    else \<exists>l'. SortedList_Insert cmp l x = Inr l' \<and> List_rep l' (sorted_insert cmp x xs)"
proof -
  assume "List_rep l xs"
  then obtain zs where zs: "lrep l zs" "xs = map snd zs" by (auto simp: List_rep_def)
  from Insert_lrep [OF zs(1), of x cmp] Insert_duplicate [OF zs(1), of x cmp] List_rep_lrep zs(2)
  show ?thesis by (smt (verit, ccfv_threshold) list.set_map)
qed

lemmas list_reps = IsInList_rep NumInList_rep IsEmpty_rep Apply_rep findByComp_rep
  SanityCheck_rep Front_rep

section \<open>Ways of adding to a list\<close>

text \<open>
  \<open>List::SelfTest\<close> is written against the virtual methods. The contract it needs of them:
  \<open>app\<close> adds the item somewhere and \<open>sanity\<close> accepts every list in a form (\<open>ok\<close>)
  that adding preserves.
\<close>

locale list_insertion =
  fixes app :: "'a llist \<Rightarrow> 'a \<Rightarrow> 'a llist res"
    and place :: "'a \<Rightarrow> 'a list \<Rightarrow> 'a list"
    and sanity :: "'a llist \<Rightarrow> unit res"
    and ok :: "'a list \<Rightarrow> bool"
  assumes app_ok: "List_rep l xs \<Longrightarrow> x \<notin> set xs \<Longrightarrow> \<exists>l'. app l x = Inr l' \<and> List_rep l' (place x xs)"
    and place_mset: "mset (place x xs) = add_mset x (mset xs)"
    and place_ok: "ok xs \<Longrightarrow> ok (place x xs)"
    and sanity_ok: "List_rep l xs \<Longrightarrow> ok xs \<Longrightarrow> sanity l = Inr ()"
    and ok_Nil: "ok []"
begin

lemma place_set: "set (place x xs) = insert x (set xs)"
  using place_mset [of x xs] by (metis set_mset_add_mset_insert set_mset_mset)

lemma append_all_ok:
  assumes "List_rep l xs" "distinct p" "set p \<inter> set xs = {}" "ok xs"
  shows "\<exists>l' ys. append_all app l p = Inr l' \<and> List_rep l' ys \<and> mset ys = mset xs + mset p \<and> ok ys"
  using assms
proof (induction p arbitrary: l xs)
  case Nil
  then show ?case by auto
next
  case (Cons x p)
  obtain l1 where l1: "app l x = Inr l1" "List_rep l1 (place x xs)"
    using app_ok [of l xs x] Cons.prems by auto
  have ne: "place x xs \<noteq> []" using place_set [of x xs] by auto
  obtain l' ys where ys: "append_all app l1 p = Inr l'" "List_rep l' ys"
      "mset ys = mset (place x xs) + mset p" "ok ys"
    using Cons.IH [OF l1(2)] Cons.prems place_ok by (auto simp: place_set)
  with l1 ne show ?case
    by (auto simp: IsInList_rep IsEmpty_rep place_set place_mset)
qed

lemma remove_all_ok:
  assumes "List_rep l xs" "distinct xs" "mset xs = mset p"
  shows "\<exists>l'. remove_all l p = Inr l' \<and> List_rep l' []"
  using assms
proof (induction p arbitrary: l xs)
  case Nil
  then show ?case by auto
next
  case (Cons x p)
  have x: "x \<in> set xs" using Cons.prems(3) by (metis list.set_intros(1) mset_eq_setD)
  have "count_list xs x = 1" using x Cons.prems(2)
    by (metis count_mset distinct_count_atmost_1)
  with Remove_rep [OF Cons.prems(1), of x]
  obtain l1 where l1: "List_Remove l x = Inr l1" "List_rep l1 (remove1 x xs)" by auto
  have "mset (remove1 x xs) = mset p" using Cons.prems(3) by simp
  with Cons.IH [OF l1(2)] Cons.prems(2) l1 show ?case
    by (auto simp: IsInList_rep)
qed

lemma self_test_ok:
  assumes "List_rep l []" "distinct p"
  shows "\<exists>l'. List_SelfTest app sanity l p = Inr l' \<and> List_rep l' []"
proof -
  obtain l1 ys where l1: "append_all app l p = Inr l1" "List_rep l1 ys" "mset ys = mset p" "ok ys"
    using append_all_ok [OF assms(1,2)] ok_Nil by auto
  have "distinct ys" using l1(3) assms(2) by (metis mset_eq_imp_distinct_iff)
  then obtain l2 where l2: "remove_all l1 p = Inr l2" "List_rep l2 []"
    using remove_all_ok [OF l1(2) _ l1(3)] by auto
  have "sanity l = Inr ()" "sanity l1 = Inr ()" "sanity l2 = Inr ()"
    using sanity_ok assms(1) l1 l2 ok_Nil by blast+
  with l1 l2 assms(1) show ?thesis
    by (simp add: List_SelfTest_def Let_def ListIterator_new_def ListIterator_IsDone_def
        IsEmpty_rep first_rep)
qed

end

interpretation plain: list_insertion List_Append "\<lambda>x xs. xs @ [x]" List_SanityCheck "\<lambda>_. True"
  by unfold_locales (auto simp: SanityCheck_rep Append_rep)

context comparator
begin

lemma Sorted_from_ok:
  "chain h p zs None \<Longrightarrow> length zs < n \<Longrightarrow> sorted_wrt le (x # map snd zs) \<Longrightarrow>
   Sorted_from n cmp h x p = Inr ()"
proof (induction zs arbitrary: p n x)
  case Nil
  then show ?case by (cases n) auto
next
  case (Cons z zs)
  then show ?case by (cases n) (auto simp: le_def)
qed

lemma SortedList_SanityCheck_rep:
  assumes "List_rep l xs" "sorted_wrt le xs"
  shows "SortedList_SanityCheck cmp l = Inr ()"
proof -
  obtain zs where zs: "lrep l zs" "xs = map snd zs" using assms(1) by (auto simp: List_rep_def)
  show ?thesis
  proof (cases zs)
    case Nil
    with zs have "List_SanityCheck l = Inr ()" "l_first l = l_last l"
      by (simp_all add: SanityCheck_lrep) (simp add: lrep_def last_ptr_def)
    then show ?thesis by (simp add: SortedList_SanityCheck_def)
  next
    case (Cons z ws)
    have f: "l_first l = Some (fst z)" using lrep_first [OF zs(1)] Cons by simp
    have c: "l_heap l (fst z) = Some \<lparr>cell_item = snd z, cell_next = head_ptr ws\<rparr>"
      using lrep_cell [of l "[]" z ws] zs(1) Cons by simp
    have "Sorted_from (list_fuel l) cmp (l_heap l) (snd z) (head_ptr ws) = Inr ()"
      using zs Cons assms(2) lrep_fuel [OF zs(1)] chain_suffix [of _ _ "[z]" ws]
      by (intro Sorted_from_ok [of _ _ ws]) (auto simp: lrep_def)
    with f c zs(1) show ?thesis by (simp add: SortedList_SanityCheck_def SanityCheck_lrep)
  qed
qed

end

sublocale comparator \<subseteq> ordered: list_insertion "SortedList_Insert cmp" "sorted_insert cmp"
    "SortedList_SanityCheck cmp" "sorted_wrt le"
proof (unfold_locales, goal_cases)
  case (1 l xs x)
  then show ?case using Insert_rep [of l xs x cmp] by simp
qed (simp_all add: sorted_insert_sorted SortedList_SanityCheck_rep)

context comparator
begin

lemma insert_all_ok:
  assumes "List_rep l xs" "distinct p" "set p \<inter> set xs = {}" "sorted_wrt le xs"
  shows "\<exists>l' ys. insert_all cmp l p = Inr l' \<and> List_rep l' ys \<and> mset ys = mset xs + mset p
    \<and> sorted_wrt le ys"
  using assms
proof (induction p arbitrary: l xs)
  case Nil
  then show ?case by auto
next
  case (Cons x p)
  obtain l1 where l1: "SortedList_Insert cmp l x = Inr l1" "List_rep l1 (sorted_insert cmp x xs)"
    using ordered.app_ok [of l xs x] Cons.prems by auto
  obtain l' ys where "insert_all cmp l1 p = Inr l'" "List_rep l' ys"
      "mset ys = mset (sorted_insert cmp x xs) + mset p" "sorted_wrt le ys"
    using Cons.IH [OF l1(2)] Cons.prems sorted_insert_sorted by auto
  with l1 show ?case by (auto simp: IsInList_rep)
qed

lemma drain_ok:
  assumes "List_rep l xs" "distinct xs"
  shows "\<exists>l'. drain l (length xs) = Inr (xs, l') \<and> List_rep l' []"
  using assms
proof (induction xs arbitrary: l)
  case Nil
  then show ?case by auto
next
  case (Cons x xs)
  obtain l1 where l1: "List_RemoveFront l = Inr (x, l1)" "List_rep l1 xs"
    using RemoveFront_rep [OF Cons.prems(1)] by auto
  with Cons.IH [OF l1(2)] Cons.prems(2) show ?case by (auto simp: IsInList_rep)
qed

lemma sorted_self_test_ok:
  assumes "List_rep l []" "distinct p"
  shows "\<exists>l'. SortedList_SelfTest cmp l p = Inr l' \<and> List_rep l' []"
proof -
  obtain l1 where l1: "List_SelfTest (SortedList_Insert cmp) (SortedList_SanityCheck cmp) l p = Inr l1"
    "List_rep l1 []" using ordered.self_test_ok [OF assms] by auto
  obtain l2 q where l2: "insert_all cmp l1 p = Inr l2" "List_rep l2 q" "mset q = mset p"
    "sorted_wrt le q" using insert_all_ok [OF l1(2) assms(2)] by auto
  have q: "distinct q" "length q = length p"
    using l2(3) assms(2) by (metis mset_eq_imp_distinct_iff, metis mset_eq_length)
  obtain l3 where l3: "drain l2 (length p) = Inr (q, l3)" "List_rep l3 []"
    using drain_ok [OF l2(2) q(1)] q(2) by auto
  with l1 l2 show ?thesis
    by (simp add: SortedList_SelfTest_def SortedList_SanityCheck_rep IsEmpty_rep in_order_sorted)
qed

end

interpretation int_cmp: comparator IntCompare
  by unfold_locales (auto simp: IntCompare_def split: if_splits)

section \<open>The list as a first-in first-out queue\<close>

text \<open>
  The contract of the clients that only append at the end and take from the front (semaphore
  and condition queues, mailboxes): \<open>view\<close> is the sequence of waiting items.
\<close>

locale fifo_queue =
  fixes view :: "'q \<Rightarrow> 'a list \<Rightarrow> bool"
    and enq :: "'q \<Rightarrow> 'a \<Rightarrow> 'q res"
    and deq :: "'q \<Rightarrow> ('a \<times> 'q) res"
    and is_empty :: "'q \<Rightarrow> bool"
  assumes enq_ok: "view q xs \<Longrightarrow> \<exists>q'. enq q x = Inr q' \<and> view q' (xs @ [x])"
    and deq_ok: "view q (x # xs) \<Longrightarrow> \<exists>q'. deq q = Inr (x, q') \<and> view q' xs"
    and is_empty_ok: "view q xs \<Longrightarrow> is_empty q \<longleftrightarrow> xs = []"
begin

primrec enqs :: "'q \<Rightarrow> 'a list \<Rightarrow> 'q res" where
  "enqs q [] = Inr q"
| "enqs q (x # xs) = bindE (enq q x) (\<lambda>q'. enqs q' xs)"

primrec deqs :: "nat \<Rightarrow> 'q \<Rightarrow> ('a list \<times> 'q) res" where
  "deqs 0 q = Inr ([], q)"
| "deqs (Suc n) q = bindE (deq q) (\<lambda>(x, q'). bindE (deqs n q') (\<lambda>(xs, q''). Inr (x # xs, q'')))"

lemma enqs_ok: "view q xs \<Longrightarrow> \<exists>q'. enqs q ys = Inr q' \<and> view q' (xs @ ys)"
proof (induction ys arbitrary: q xs)
  case (Cons y ys)
  from enq_ok [OF Cons.prems, of y] obtain q1 where "enq q y = Inr q1" "view q1 (xs @ [y])" by auto
  with Cons.IH [of q1 "xs @ [y]"] show ?case by simp
qed simp

lemma deqs_ok: "view q (xs @ ys) \<Longrightarrow> \<exists>q'. deqs (length xs) q = Inr (xs, q') \<and> view q' ys"
proof (induction xs arbitrary: q)
  case (Cons x xs)
  from deq_ok [of q x "xs @ ys"] Cons.prems obtain q1 where "deq q = Inr (x, q1)" "view q1 (xs @ ys)"
    by auto
  with Cons.IH [of q1] show ?case by auto
qed simp

lemma fifo: "view q [] \<Longrightarrow> \<exists>q' q''. enqs q xs = Inr q' \<and> deqs (length xs) q' = Inr (xs, q'') \<and> is_empty q''"
  using enqs_ok [of q "[]" xs] deqs_ok [of _ xs "[]"] is_empty_ok by fastforce

end

interpretation lq: fifo_queue List_rep List_Append List_RemoveFront List_IsEmpty
  by unfold_locales (simp_all add: Append_rep RemoveFront_rep IsEmpty_rep)

section \<open>Properties\<close>

text \<open>Calls of the public methods, and what they mean on a HOL list.\<close>

datatype 'a list_call = Call_Append 'a | Call_Prepend 'a | Call_Insert 'a | Call_RemoveFront
  | Call_Remove 'a | Call_Front | Call_IsInList 'a | Call_NumInList | Call_IsEmpty | Call_Apply
  | Call_Find "'a \<Rightarrow> bool"

datatype 'a list_reply = Done | Item 'a | Flag bool | Number int | Items "'a list" | Found "'a option"

fun call_list :: "('a \<Rightarrow> 'a \<Rightarrow> int) \<Rightarrow> 'a list_call \<Rightarrow> 'a llist \<Rightarrow> ('a list_reply \<times> 'a llist) res" where
  "call_list cmp (Call_Append x) l = bindE (List_Append l x) (\<lambda>l'. Inr (Done, l'))"
| "call_list cmp (Call_Prepend x) l = bindE (List_Prepend l x) (\<lambda>l'. Inr (Done, l'))"
| "call_list cmp (Call_Insert x) l = bindE (SortedList_Insert cmp l x) (\<lambda>l'. Inr (Done, l'))"
| "call_list cmp Call_RemoveFront l = bindE (List_RemoveFront l) (\<lambda>(x, l'). Inr (Item x, l'))"
| "call_list cmp (Call_Remove x) l = bindE (List_Remove l x) (\<lambda>l'. Inr (Done, l'))"
| "call_list cmp Call_Front l = bindE (List_Front l) (\<lambda>x. Inr (Item x, l))"
| "call_list cmp (Call_IsInList x) l = bindE (List_IsInList l x) (\<lambda>t. Inr (Flag t, l))"
| "call_list cmp Call_NumInList l = Inr (Number (List_NumInList l), l)"
| "call_list cmp Call_IsEmpty l = Inr (Flag (List_IsEmpty l), l)"
| "call_list cmp Call_Apply l = bindE (List_Apply l) (\<lambda>xs. Inr (Items xs, l))"
| "call_list cmp (Call_Find f) l = bindE (List_findByComp l f) (\<lambda>r. Inr (Found r, l))"

fun call_seq :: "('a \<Rightarrow> 'a \<Rightarrow> int) \<Rightarrow> 'a list_call \<Rightarrow> 'a list \<Rightarrow> ('a list_reply \<times> 'a list) res" where
  "call_seq cmp (Call_Append x) xs = Inr (Done, xs @ [x])"
| "call_seq cmp (Call_Prepend x) xs = (if x \<in> set xs then Inl Assert_Failed else Inr (Done, x # xs))"
| "call_seq cmp (Call_Insert x) xs =
     (if x \<in> set xs then Inl Assert_Failed else Inr (Done, sorted_insert cmp x xs))"
| "call_seq cmp Call_RemoveFront xs =
     (case xs of [] \<Rightarrow> Inl Assert_Failed | x # ys \<Rightarrow> Inr (Item x, ys))"
| "call_seq cmp (Call_Remove x) xs =
     (if count_list xs x = 1 then Inr (Done, remove1 x xs) else Inl Assert_Failed)"
| "call_seq cmp Call_Front xs = (case xs of [] \<Rightarrow> Inl Bad_Access | x # ys \<Rightarrow> Inr (Item x, xs))"
| "call_seq cmp (Call_IsInList x) xs = Inr (Flag (x \<in> set xs), xs)"
| "call_seq cmp Call_NumInList xs = Inr (Number (int (length xs)), xs)"
| "call_seq cmp Call_IsEmpty xs = Inr (Flag (xs = []), xs)"
| "call_seq cmp Call_Apply xs = Inr (Items xs, xs)"
| "call_seq cmp (Call_Find f) xs = Inr (Found (find f xs), xs)"

lemma list_call_agree: "List_rep l xs \<Longrightarrow> agree List_rep (call_list cmp c l) (call_seq cmp c xs)"
proof (cases c)
  case (Call_Append x)
  then show "List_rep l xs \<Longrightarrow> ?thesis" using Append_rep [of l xs x] by auto
next
  case (Call_Prepend x)
  then show "List_rep l xs \<Longrightarrow> ?thesis" using Prepend_rep [of l xs x] by (auto split: if_splits)
next
  case (Call_Insert x)
  then show "List_rep l xs \<Longrightarrow> ?thesis" using Insert_rep [of l xs x cmp] by (auto split: if_splits)
next
  case Call_RemoveFront
  then show "List_rep l xs \<Longrightarrow> ?thesis"
    using RemoveFront_rep [of l] RemoveFront_rep_Nil [of l] by (cases xs) force+
next
  case (Call_Remove x)
  then show "List_rep l xs \<Longrightarrow> ?thesis" using Remove_rep [of l xs x] by (auto split: if_splits)
next
  case Call_Front
  then show "List_rep l xs \<Longrightarrow> ?thesis" using Front_rep [of l xs] by (cases xs) auto
qed (auto simp: list_reps)

text \<open>
  C11. The linked list implements a sequence. Whatever methods of \<open>List\<close> and
  \<open>SortedList\<close> are called on a new list, in any order, the pointer implementation stops with
  the same fault as the operations on HOL lists or returns the same replies, and ends in a list
  that represents the same sequence and passes its own \<open>SanityCheck\<close>; no null or dangling
  pointer is followed except by \<open>Front\<close> on an empty list, and no loop runs forever. In
  particular \<open>Remove\<close> aborts unless the item occurs exactly once.
\<close>

theorem list_refines_sequence:
  "agree (\<lambda>l xs. List_rep l xs \<and> List_SanityCheck l = Inr ())
     (run_calls (call_list cmp) cs List_new) (run_calls (call_seq cmp) cs [])"
proof -
  have "agree List_rep (run_calls (call_list cmp) cs List_new) (run_calls (call_seq cmp) cs [])"
    by (rule run_calls_agree) (simp_all add: list_call_agree)
  then show ?thesis
    by (auto simp: agree_def SanityCheck_rep split: sum.splits prod.splits)
qed

text \<open>
  C12. A sorted list hands out its items in order: for a comparison function that orders the
  items, inserting distinct items in any order and removing from the front until the list is
  empty returns a permutation of the items that is sorted, and the module's self test succeeds.
\<close>

theorem sorted_list_sorts:
  assumes "comparator cmp" "distinct p"
  shows "(\<exists>l q l'. insert_all cmp List_new p = Inr l \<and> SortedList_SanityCheck cmp l = Inr ()
      \<and> drain l (length p) = Inr (q, l') \<and> mset q = mset p \<and> sorted_wrt (\<lambda>a b. cmp a b \<le> 0) q
      \<and> List_IsEmpty l')
    \<and> (\<exists>l. SortedList_SelfTest cmp List_new p = Inr l \<and> List_rep l [])"
proof
  note le = comparator.le_def [OF assms(1), abs_def]
  obtain l q where l: "insert_all cmp List_new p = Inr l" "List_rep l q" "mset q = mset p"
    "sorted_wrt (comparator.le cmp) q"
    using comparator.insert_all_ok [OF assms(1) List_rep_new assms(2)] by auto
  have q: "distinct q" "length q = length p"
    using l(3) assms(2) by (metis mset_eq_imp_distinct_iff, metis mset_eq_length)
  obtain l' where "drain l (length p) = Inr (q, l')" "List_rep l' []"
    using comparator.drain_ok [OF assms(1) l(2) q(1)] q(2) by auto
  with l comparator.SortedList_SanityCheck_rep [OF assms(1) l(2,4)]
  show "\<exists>l q l'. insert_all cmp List_new p = Inr l \<and> SortedList_SanityCheck cmp l = Inr ()
      \<and> drain l (length p) = Inr (q, l') \<and> mset q = mset p \<and> sorted_wrt (\<lambda>a b. cmp a b \<le> 0) q
      \<and> List_IsEmpty l'"
    by (auto simp: le IsEmpty_rep)
  show "\<exists>l. SortedList_SelfTest cmp List_new p = Inr l \<and> List_rep l []"
    by (rule comparator.sorted_self_test_ok [OF assms(1) List_rep_new assms(2)])
qed

theorem sorted_list_sorts_witness:
  "comparator IntCompare \<and> distinct listTestVector \<and>
   (\<exists>l q l'. insert_all IntCompare List_new listTestVector = Inr l
      \<and> SortedList_SanityCheck IntCompare l = Inr ()
      \<and> drain l (length listTestVector) = Inr (q, l') \<and> mset q = mset listTestVector
      \<and> sorted_wrt (\<lambda>a b. IntCompare a b \<le> 0) q \<and> List_IsEmpty l')"
proof -
  have d: "distinct listTestVector" by (simp add: listTestVector_def)
  show ?thesis
    using sorted_list_sorts [OF int_cmp.comparator_axioms d] int_cmp.comparator_axioms d by blast
qed

end
