(* ===== verification/Tlb.thy ===== *)
theory Tlb
  imports Nachos_Prelude
begin

text \<open>
  machine/TLBManager.h, machine/TLBManager.cc and machine/memory.h: the software-managed
  translation lookaside buffer, four sets of four entries, the set chosen by the two low bits of
  the virtual page number and the entry by the remaining thirty.

  The fields that the constructor leaves uninitialised (\<open>Tag\<close>, \<open>PPN\<close>, \<open>lru\<close>) are
  an argument of \<open>TLBManager_new\<close>. The thread identifier that \<open>update\<close> takes from
  \<open>kernel->currentThread\<close> is an argument as well.

  \<open>tlb_holds\<close> is what a lookup depends on: the pairs (virtual page, frame) of the valid
  entries. The lemmas show which pairs each operation adds, keeps and drops.
\<close>

section \<open>Sizes\<close>

definition PageSize :: "32 word" where "PageSize = 128"

definition NumPhysPages :: "32 word" where "NumPhysPages = 128"

definition NumVirtualPages :: "32 word" where "NumVirtualPages = 1024"

definition PhysicalMemorySize :: "32 word" where "PhysicalMemorySize = NumPhysPages * PageSize"

section \<open>The class\<close>

record TLBEntry =
  Tag :: "32 word"
  PPN :: "32 word"
  valid :: bool
  threadId :: int
  lru :: "32 word"

type_synonym tlb = "TLBEntry list list"

definition TLBManager_new :: "TLBEntry \<Rightarrow> tlb" where
  "TLBManager_new junk = replicate 4 (replicate 4 (junk\<lparr>valid := False, threadId := - 1\<rparr>))"

definition TLBI :: "32 word \<Rightarrow> nat" where
  "TLBI vpn = unat (vpn AND 3)"

definition TLBT :: "32 word \<Rightarrow> 32 word" where
  "TLBT vpn = drop_bit 2 vpn AND 0x3FFFFFFF"

function tlb_scan :: "TLBEntry list \<Rightarrow> 32 word \<Rightarrow> nat \<Rightarrow> nat option" where
  "tlb_scan es tag i =
     (if i < 4 then if valid (es ! i) \<and> Tag (es ! i) = tag then Some i else tlb_scan es tag (i + 1)
      else None)"
  by pat_completeness auto
termination
  by (relation "measure (\<lambda>(es, tag, i). 4 - i)") auto

definition TLBManager_translate :: "tlb \<Rightarrow> 32 word \<Rightarrow> 32 word \<times> tlb" where
  "TLBManager_translate t virtAddr =
     (let vpn = virtAddr div PageSize; offset = virtAddr mod PageSize; es = t ! TLBI vpn in
      case tlb_scan es (TLBT vpn) 0 of
        None \<Rightarrow> (- 1, t)
      | Some i \<Rightarrow> (PPN (es ! i) * PageSize + offset, t[TLBI vpn := es[i := (es ! i)\<lparr>lru := 0\<rparr>]]))"

text \<open>
  The search for the entry to replace: ageing every valid entry it passes, it stops at the first
  invalid entry, and otherwise takes the oldest.
\<close>

function tlb_victim :: "TLBEntry list \<Rightarrow> nat \<Rightarrow> nat \<Rightarrow> nat \<times> TLBEntry list" where
  "tlb_victim es i index =
     (if i < 4 then
        if valid (es ! i) then
          let es' = es[i := (es ! i)\<lparr>lru := lru (es ! i) + 1\<rparr>]
          in tlb_victim es' (i + 1) (if lru (es' ! i) > lru (es' ! index) then i else index)
        else (i, es)
      else (index, es))"
  by pat_completeness auto
termination
  by (relation "measure (\<lambda>(es, i, index). 4 - i)") auto

definition TLBManager_update :: "tlb \<Rightarrow> int \<Rightarrow> 32 word \<Rightarrow> 32 word \<Rightarrow> tlb" where
  "TLBManager_update t pid virtAddr pageFrame =
     (let vpn = virtAddr div PageSize; (index, es) = tlb_victim (t ! TLBI vpn) 0 0 in
      t[TLBI vpn := es[index := \<lparr>Tag = TLBT vpn, PPN = pageFrame, valid = True, threadId = pid,
                                 lru = 0\<rparr>]])"

definition TLBManager_invalidEntry :: "tlb \<Rightarrow> int \<Rightarrow> 32 word \<Rightarrow> tlb" where
  "TLBManager_invalidEntry t thread vpn =
     t[TLBI vpn := map (\<lambda>e. if valid e \<and> Tag e = TLBT vpn \<and> threadId e = thread
                             then e\<lparr>valid := False\<rparr> else e) (t ! TLBI vpn)]"

declare tlb_scan.simps [simp del] tlb_victim.simps [simp del]

section \<open>What the buffer holds\<close>

definition tlb_inv :: "tlb \<Rightarrow> bool" where
  "tlb_inv t \<longleftrightarrow> length t = 4 \<and> (\<forall>es \<in> set t. length es = 4)"

definition tlb_holds :: "tlb \<Rightarrow> (32 word \<times> 32 word) set" where
  "tlb_holds t = {(vpn, ppn). \<exists>e \<in> set (t ! TLBI vpn). valid e \<and> Tag e = TLBT vpn \<and> PPN e = ppn}"

lemma TLBI_less [simp]: "TLBI vpn < 4"
  unfolding TLBI_def using word_and_le1 [of vpn 3] by (simp add: word_le_nat_alt)

lemma TLBI_inv [simp]: "tlb_inv t \<Longrightarrow> TLBI vpn < length t" "tlb_inv t \<Longrightarrow> length (t ! TLBI vpn) = 4"
  by (simp_all add: tlb_inv_def)

lemma tlb_key_eq: "TLBI v = TLBI w \<Longrightarrow> TLBT v = TLBT w \<Longrightarrow> v = w"
proof (rule bit_word_eqI)
  fix n :: nat
  assume lo: "TLBI v = TLBI w" and hi: "TLBT v = TLBT w" and n: "n < LENGTH(32)"
  have lo': "bit (v AND 3) n = bit (w AND 3) n" using lo unfolding TLBI_def by (metis word_unat_eq_iff)
  have "(3 :: 32 word) = mask 2" by (simp add: mask_eq_exp_minus_1)
  then have three: "bit (3 :: 32 word) n \<longleftrightarrow> n < 2" using n by (simp only: bit_mask_iff) simp
  have mask: "(0x3FFFFFFF :: 32 word) = mask 30" by (simp add: mask_eq_exp_minus_1)
  show "bit v n = bit w n"
  proof (cases "n < 2")
    case True
    then show ?thesis using lo' three by (simp add: bit_and_iff)
  next
    case False
    then obtain k where k: "n = k + 2" using le_Suc_ex [of 2 n] by auto
    then have "bit (TLBT v) k = bit v n" "bit (TLBT w) k = bit w n"
      using n by (simp_all add: TLBT_def mask bit_and_iff bit_drop_bit_eq bit_mask_iff)
    then show ?thesis using hi by simp
  qed
qed

lemma TLBManager_new_inv: "tlb_inv (TLBManager_new junk)" "tlb_holds (TLBManager_new junk) = {}"
  by (auto simp: tlb_inv_def TLBManager_new_def tlb_holds_def)

lemma tlb_scan_Some:
  "tlb_scan es tag i = Some j \<Longrightarrow> i \<le> j \<and> j < 4 \<and> valid (es ! j) \<and> Tag (es ! j) = tag"
proof (induction es tag i rule: tlb_scan.induct)
  case (1 es tag i)
  then show ?case by (auto simp: tlb_scan.simps [of es tag i] split: if_splits)
qed

lemma tlb_scan_None:
  "tlb_scan es tag i = None \<Longrightarrow> i \<le> j \<Longrightarrow> j < 4 \<Longrightarrow> \<not> (valid (es ! j) \<and> Tag (es ! j) = tag)"
proof (induction es tag i rule: tlb_scan.induct)
  case (1 es tag i)
  have "i < 4" using "1.prems" by simp
  with "1.prems"(1) have ne: "\<not> (valid (es ! i) \<and> Tag (es ! i) = tag)"
    and tl: "tlb_scan es tag (i + 1) = None"
    by (auto simp: tlb_scan.simps [of es tag i] split: if_splits)
  show ?case
  proof (cases "i = j")
    case False
    then have "i + 1 \<le> j" using "1.prems" by simp
    with "1.IH" [OF \<open>i < 4\<close> ne tl] "1.prems"(3) show ?thesis by blast
  qed (use ne in simp)
qed

lemma TLBManager_translate_miss:
  assumes "tlb_inv t"
  shows "tlb_scan (t ! TLBI vpn) (TLBT vpn) 0 = None \<longleftrightarrow> vpn \<notin> Domain (tlb_holds t)"
proof
  assume "tlb_scan (t ! TLBI vpn) (TLBT vpn) 0 = None"
  then show "vpn \<notin> Domain (tlb_holds t)"
    using tlb_scan_None [of "t ! TLBI vpn" "TLBT vpn" 0] TLBI_inv(2) [OF assms, of vpn]
    by (auto simp: tlb_holds_def) (metis in_set_conv_nth le0)
next
  assume "vpn \<notin> Domain (tlb_holds t)"
  moreover have "(t ! TLBI vpn) ! i \<in> set (t ! TLBI vpn)" if "i < 4" for i using assms that by simp
  ultimately show "tlb_scan (t ! TLBI vpn) (TLBT vpn) 0 = None"
    using tlb_scan_Some [of "t ! TLBI vpn" "TLBT vpn" 0]
    by (cases "tlb_scan (t ! TLBI vpn) (TLBT vpn) 0") (auto simp: tlb_holds_def)
qed

text \<open>Changing only the \<open>lru\<close> fields leaves the translations as they are.\<close>

definition same_keys :: "TLBEntry list \<Rightarrow> TLBEntry list \<Rightarrow> bool" where
  "same_keys = list_all2 (\<lambda>e f. Tag e = Tag f \<and> PPN e = PPN f \<and> valid e = valid f
     \<and> threadId e = threadId f)"

lemma same_keys_refl [simp]: "same_keys es es"
  by (simp add: same_keys_def list_all2_conv_all_nth)

lemma same_keys_length: "same_keys es fs \<Longrightarrow> length es = length fs"
  by (simp add: same_keys_def list_all2_lengthD)

lemma same_keys_lru: "i < length es \<Longrightarrow> same_keys (es[i := (es ! i)\<lparr>lru := x\<rparr>]) es"
  by (simp add: same_keys_def list_all2_conv_all_nth nth_list_update)

lemma same_keys_trans: "same_keys es fs \<Longrightarrow> same_keys fs gs \<Longrightarrow> same_keys es gs"
  by (simp add: same_keys_def list_all2_conv_all_nth)

lemma same_keys_entry:
  assumes "same_keys es fs"
  shows "(\<exists>e \<in> set es. valid e \<and> Tag e = tag \<and> PPN e = p)
    \<longleftrightarrow> (\<exists>e \<in> set fs. valid e \<and> Tag e = tag \<and> PPN e = p)"
  using assms unfolding same_keys_def
  by (induction rule: list_all2_induct) auto

lemma same_keys_holds:
  assumes "tlb_inv t" "i < 4" "same_keys es (t ! i)"
  shows "tlb_inv (t[i := es])" "tlb_holds (t[i := es]) = tlb_holds t"
proof -
  have i: "i < length t" "length es = 4"
    using assms same_keys_length [of es "t ! i"] by (auto simp: tlb_inv_def)
  show "tlb_inv (t[i := es])"
    using assms i set_update_subset_insert [of t i es] by (auto simp: tlb_inv_def)
  show "tlb_holds (t[i := es]) = tlb_holds t"
    unfolding tlb_holds_def
  proof (rule Collect_cong, clarify)
    fix v p
    show "(\<exists>e \<in> set (t[i := es] ! TLBI v). valid e \<and> Tag e = TLBT v \<and> PPN e = p)
        \<longleftrightarrow> (\<exists>e \<in> set (t ! TLBI v). valid e \<and> Tag e = TLBT v \<and> PPN e = p)"
      using same_keys_entry [OF assms(3)] i by (cases "i = TLBI v") simp_all
  qed
qed

lemma TLBManager_translate_ok:
  fixes va :: "32 word"
  assumes "tlb_inv t"
  defines "vpn \<equiv> va div PageSize"
  shows "tlb_inv (snd (TLBManager_translate t va))"
    and "tlb_holds (snd (TLBManager_translate t va)) = tlb_holds t"
    and "vpn \<notin> Domain (tlb_holds t) \<Longrightarrow> fst (TLBManager_translate t va) = - 1"
    and "vpn \<in> Domain (tlb_holds t) \<Longrightarrow>
      \<exists>p. (vpn, p) \<in> tlb_holds t \<and> fst (TLBManager_translate t va) = p * PageSize + va mod PageSize"
proof -
  let ?es = "t ! TLBI vpn"
  note miss = TLBManager_translate_miss [OF assms(1), of vpn]
  have len: "length ?es = 4" using assms by simp
  have "tlb_inv (snd (TLBManager_translate t va))
    \<and> tlb_holds (snd (TLBManager_translate t va)) = tlb_holds t"
  proof (cases "tlb_scan ?es (TLBT vpn) 0")
    case None
    with assms show ?thesis by (simp add: TLBManager_translate_def Let_def)
  next
    case (Some i)
    then have "i < length ?es" using tlb_scan_Some [OF Some] len by simp
    from same_keys_holds [OF assms(1) TLBI_less same_keys_lru [OF this]] Some
    show ?thesis by (simp add: TLBManager_translate_def Let_def flip: vpn_def)
  qed
  then show "tlb_inv (snd (TLBManager_translate t va))"
    "tlb_holds (snd (TLBManager_translate t va)) = tlb_holds t" by simp_all
  show "vpn \<notin> Domain (tlb_holds t) \<Longrightarrow> fst (TLBManager_translate t va) = - 1"
    using miss by (simp add: TLBManager_translate_def Let_def flip: vpn_def)
  assume "vpn \<in> Domain (tlb_holds t)"
  then obtain i where i: "tlb_scan ?es (TLBT vpn) 0 = Some i" using miss by auto
  then have "(vpn, PPN (?es ! i)) \<in> tlb_holds t"
    using tlb_scan_Some [OF i] len by (force simp: tlb_holds_def)
  with i show "\<exists>p. (vpn, p) \<in> tlb_holds t
      \<and> fst (TLBManager_translate t va) = p * PageSize + va mod PageSize"
    by (auto simp: TLBManager_translate_def Let_def simp flip: vpn_def)
qed

lemma tlb_victim_ok:
  assumes "length es = 4" "index < 4" "i \<le> 4"
  shows "fst (tlb_victim es i index) < 4 \<and> same_keys (snd (tlb_victim es i index)) es"
  using assms
proof (induction es i index rule: tlb_victim.induct)
  case (1 es i index)
  show ?case
  proof (cases "i < 4 \<and> valid (es ! i)")
    case True
    define es' where "es' = es[i := (es ! i)\<lparr>lru := lru (es ! i) + 1\<rparr>]"
    define j where "j = (if lru (es' ! i) > lru (es' ! index) then i else index)"
    have "fst (tlb_victim es' (i + 1) j) < 4 \<and> same_keys (snd (tlb_victim es' (i + 1) j)) es'"
      unfolding j_def using True "1.prems" by (intro "1.IH") (simp_all add: es'_def)
    moreover have "same_keys es' es"
      unfolding es'_def using True "1.prems"(1) by (intro same_keys_lru) simp
    moreover have "tlb_victim es i index = tlb_victim es' (i + 1) j"
      using True by (simp add: tlb_victim.simps [of es i index] Let_def es'_def j_def)
    ultimately show ?thesis using same_keys_trans [of _ es' es] by simp
  next
    case False
    with "1.prems" show ?thesis by (auto simp: tlb_victim.simps [of es i index])
  qed
qed

text \<open>
  \<open>update\<close> adds the new translation and invents none: every other pair it leaves in the
  buffer was there before.
\<close>

lemma TLBManager_update_ok:
  fixes va :: "32 word"
  assumes "tlb_inv t"
  defines "vpn \<equiv> va div PageSize"
  shows "tlb_inv (TLBManager_update t pid va frame)"
    and "(vpn, frame) \<in> tlb_holds (TLBManager_update t pid va frame)"
    and "tlb_holds (TLBManager_update t pid va frame) \<subseteq> insert (vpn, frame) (tlb_holds t)"
proof -
  let ?s = "TLBI vpn"
  obtain index es where v: "tlb_victim (t ! ?s) 0 0 = (index, es)" by fastforce
  have idx: "index < 4" and keys: "same_keys es (t ! ?s)"
    using tlb_victim_ok [of "t ! ?s" 0 0] v assms(1) by simp_all
  let ?e = "\<lparr>Tag = TLBT vpn, PPN = frame, valid = True, threadId = pid, lru = 0\<rparr>"
  have upd: "TLBManager_update t pid va frame = t[?s := es[index := ?e]]"
    using v by (simp add: TLBManager_update_def Let_def flip: vpn_def)
  have len: "length es = 4" using same_keys_length [OF keys] assms(1) by simp
  show "tlb_inv (TLBManager_update t pid va frame)"
    using assms(1) len set_update_subset_insert [of t ?s "es[index := ?e]"]
    by (auto simp: upd tlb_inv_def)
  show "(vpn, frame) \<in> tlb_holds (TLBManager_update t pid va frame)"
    using assms(1) idx len by (auto simp: upd tlb_holds_def intro!: bexI [of _ ?e] set_update_memI)
  have "\<exists>e \<in> set es. valid e \<and> Tag e = TLBT w \<and> PPN e = p"
    if "(w, p) \<in> tlb_holds (TLBManager_update t pid va frame)" "(w, p) \<noteq> (vpn, frame)" "TLBI w = ?s"
    for w p
  proof -
    from that(1,3) assms(1) obtain e where e: "e \<in> set (es[index := ?e])" "valid e" "Tag e = TLBT w"
      "PPN e = p" by (auto simp: upd tlb_holds_def)
    have "e \<noteq> ?e"
    proof
      assume "e = ?e"
      then have "TLBT w = TLBT vpn" "p = frame" using e(3,4) by simp_all
      with that(2,3) tlb_key_eq [of w vpn] show False by simp
    qed
    with e set_update_subset_insert [of es index ?e] show ?thesis by blast
  qed
  then have same: "(w, p) \<in> tlb_holds t"
    if "(w, p) \<in> tlb_holds (TLBManager_update t pid va frame)" "(w, p) \<noteq> (vpn, frame)" "TLBI w = ?s"
    for w p
    using that same_keys_entry [OF keys] by (auto simp: tlb_holds_def)
  have other: "(w, p) \<in> tlb_holds t"
    if "(w, p) \<in> tlb_holds (TLBManager_update t pid va frame)" "TLBI w \<noteq> ?s" for w p
    using that by (simp add: upd tlb_holds_def)
  show "tlb_holds (TLBManager_update t pid va frame) \<subseteq> insert (vpn, frame) (tlb_holds t)"
    using same other by (auto simp: subset_iff)
qed

lemma TLBManager_invalidEntry_ok:
  assumes "tlb_inv t"
  shows "tlb_inv (TLBManager_invalidEntry t thread vpn)"
    and "tlb_holds (TLBManager_invalidEntry t thread vpn) \<subseteq> tlb_holds t"
proof -
  show "tlb_inv (TLBManager_invalidEntry t thread vpn)"
    using assms set_update_subset_insert [of t "TLBI vpn"]
    by (fastforce simp: TLBManager_invalidEntry_def tlb_inv_def)
  show "tlb_holds (TLBManager_invalidEntry t thread vpn) \<subseteq> tlb_holds t"
    using assms
    by (auto simp: TLBManager_invalidEntry_def tlb_holds_def nth_list_update split: if_splits)
qed

end
