(* ===== verification/Machine.thy ===== *)
theory Machine
  imports Tlb
begin

text \<open>
  machine/machine.h, machine/machine.cc, machine/translate.h and machine/translate.cc: the
  simulated processor's registers, main memory, page table and address translation. The build is
  the default one (\<open>USE_TLB\<close>, little-endian host).

  The kernel reaches the machine through \<open>ExceptionHandler\<close>, which is a parameter
  (\<open>hdl\<close>) here and is instantiated with the model of userprog/exception.cc later; the
  \<open>machine\<close> record is extensible so that the kernel's own state can ride along.
  \<open>m_pageTables\<close> is the store of page table arrays and \<open>m_pageTable\<close> a pointer into it,
  because address spaces and the machine share the arrays. \<open>m_status\<close> is
  \<open>kernel->interrupt->status\<close> and \<open>m_pid\<close> is \<open>kernel->currentThread->getPid()\<close>.
\<close>

section \<open>State\<close>

datatype ExceptionType = NoException | SyscallException | PageFaultException | ReadOnlyException
  | BusErrorException | AddressErrorException | OverflowException | IllegalInstrException

datatype MachineStatus = IdleMode | SystemMode | UserMode

definition StackReg :: nat where [simp]: "StackReg = 29"
definition RetAddrReg :: nat where [simp]: "RetAddrReg = 31"
definition NumGPRegs :: nat where [simp]: "NumGPRegs = 32"
definition HiReg :: nat where [simp]: "HiReg = 32"
definition LoReg :: nat where [simp]: "LoReg = 33"
definition PCReg :: nat where [simp]: "PCReg = 34"
definition NextPCReg :: nat where [simp]: "NextPCReg = 35"
definition PrevPCReg :: nat where [simp]: "PrevPCReg = 36"
definition LoadReg :: nat where [simp]: "LoadReg = 37"
definition LoadValueReg :: nat where [simp]: "LoadValueReg = 38"
definition BadVAddrReg :: nat where [simp]: "BadVAddrReg = 39"
definition NumTotalRegs :: nat where [simp]: "NumTotalRegs = 40"

record TranslationEntry =
  virtualPage :: "32 word"
  physicalPage :: "32 word"
  pt_valid :: bool
  readOnly :: bool
  pt_use :: bool
  dirty :: bool

record machine =
  m_registers :: "32 word list"
  m_mainMemory :: "byte list"
  m_tlb :: tlb
  m_pageTables :: "nat \<Rightarrow> TranslationEntry list"
  m_pageTable :: "nat option"
  m_pageTableSize :: "32 word"
  m_singleStep :: bool
  m_runUntilTime :: int
  m_status :: MachineStatus
  m_pid :: int

type_synonym 'm handler = "ExceptionType \<Rightarrow> 'm \<Rightarrow> 'm res"

text \<open>\<open>Machine::Machine\<close>; \<open>CheckEndian\<close> holds on a little-endian host.\<close>

definition CheckEndian :: "unit res" where
  "CheckEndian = assertE (word_of_bytes [1, 2, 3, 4] = 0x04030201)"

definition Machine_new :: "bool \<Rightarrow> TLBEntry \<Rightarrow> (nat \<Rightarrow> TranslationEntry list) \<Rightarrow> 32 word \<Rightarrow> int
    \<Rightarrow> MachineStatus \<Rightarrow> int \<Rightarrow> machine res" where
  "Machine_new debug junk pts ptsize runUntil status pid =
     bindE CheckEndian (\<lambda>_. Inr
       \<lparr>m_registers = replicate NumTotalRegs 0,
        m_mainMemory = replicate (unat PhysicalMemorySize) 0,
        m_tlb = TLBManager_new junk, m_pageTables = pts, m_pageTable = None,
        m_pageTableSize = ptsize, m_singleStep = debug, m_runUntilTime = runUntil,
        m_status = status, m_pid = pid\<rparr>)"

section \<open>Registers\<close>

definition Machine_ReadRegister :: "'z machine_scheme \<Rightarrow> int \<Rightarrow> (32 word) res" where
  "Machine_ReadRegister m num =
     bindE (assertE (0 \<le> num \<and> num < int NumTotalRegs)) (\<lambda>_. arr_get (m_registers m) num)"

definition Machine_WriteRegister :: "'z machine_scheme \<Rightarrow> int \<Rightarrow> 32 word \<Rightarrow> 'z machine_scheme res" where
  "Machine_WriteRegister m num value =
     bindE (assertE (0 \<le> num \<and> num < int NumTotalRegs)) (\<lambda>_.
     bindE (arr_set (m_registers m) num value) (\<lambda>rs. Inr (m\<lparr>m_registers := rs\<rparr>)))"

text \<open>
  \<open>DelayedLoad\<close> (machine/mipssim.cc): the load of the previous instruction takes effect, the
  one of this instruction becomes pending. The target register is itself read from a register.
\<close>

definition Machine_DelayedLoad :: "'z machine_scheme \<Rightarrow> 32 word \<Rightarrow> 32 word \<Rightarrow> 'z machine_scheme res" where
  "Machine_DelayedLoad m nextReg nextVal =
     (let rs = m_registers m in
      bindE (arr_set rs (sint (rs ! LoadReg)) (rs ! LoadValueReg)) (\<lambda>rs.
        Inr (m\<lparr>m_registers := rs[LoadReg := nextReg, LoadValueReg := nextVal, 0 := 0]\<rparr>)))"

definition Machine_RaiseException ::
  "'z machine_scheme handler \<Rightarrow> 'z machine_scheme \<Rightarrow> ExceptionType \<Rightarrow> 32 word \<Rightarrow> 'z machine_scheme res" where
  "Machine_RaiseException hdl m which badVAddr =
     bindE (Machine_DelayedLoad (m\<lparr>m_registers := (m_registers m)[BadVAddrReg := badVAddr]\<rparr>) 0 0) (\<lambda>m1.
     bindE (hdl which (m1\<lparr>m_status := SystemMode\<rparr>)) (\<lambda>m2.
       Inr (m2\<lparr>m_status := UserMode\<rparr>)))"

section \<open>Byte order\<close>

definition WordToHost :: "32 word \<Rightarrow> 32 word" where "WordToHost w = w"
definition ShortToHost :: "16 word \<Rightarrow> 16 word" where "ShortToHost w = w"
definition WordToMachine :: "32 word \<Rightarrow> 32 word" where "WordToMachine w = WordToHost w"
definition ShortToMachine :: "16 word \<Rightarrow> 16 word" where "ShortToMachine w = ShortToHost w"

section \<open>Address translation\<close>

text \<open>The result: an exception code, and the physical address when it was stored.\<close>

definition Machine_Translate :: "'z machine_scheme \<Rightarrow> 32 word \<Rightarrow> nat \<Rightarrow> bool
    \<Rightarrow> ((ExceptionType \<times> 32 word option) \<times> 'z machine_scheme) res" where
  "Machine_Translate m virtAddr sz writing =
     (if sz = 4 \<and> virtAddr AND 3 \<noteq> 0 \<or> sz = 2 \<and> virtAddr AND 1 \<noteq> 0
      then Inr ((AddressErrorException, None), m)
      else
        let vpn = virtAddr div PageSize;
            offset = virtAddr mod PageSize;
            (r, tlb1) = TLBManager_translate (m_tlb m) virtAddr;
            m1 = m\<lparr>m_tlb := tlb1\<rparr>
        in if 0 \<le> sint r then Inr ((NoException, Some r), m1)
           else if vpn \<ge> m_pageTableSize m1 then Inr ((AddressErrorException, None), m1)
           else case m_pageTable m1 of
             None \<Rightarrow> Inl Bad_Access
           | Some pt \<Rightarrow>
             bindE (arr_get (m_pageTables m1 pt) (uint vpn)) (\<lambda>entry.
             if \<not> pt_valid entry then Inr ((PageFaultException, None), m1)
             else if readOnly entry \<and> writing then Inr ((ReadOnlyException, None), m1)
             else
               let pageFrame = physicalPage entry in
               if pageFrame \<ge> NumPhysPages then Inr ((BusErrorException, None), m1)
               else
                 let m2 = m1\<lparr>m_tlb := TLBManager_update (m_tlb m1) (m_pid m1) virtAddr pageFrame\<rparr>;
                     m3 = (if writing
                           then m2\<lparr>m_pageTables := (m_pageTables m2)
                                  (pt := (m_pageTables m2 pt)[unat vpn := entry\<lparr>dirty := True\<rparr>])\<rparr>
                           else m2);
                     physAddr = pageFrame * PageSize + offset
                 in bindE (assertE (0 \<le> sint physAddr
                        \<and> sint physAddr + int sz \<le> sint PhysicalMemorySize)) (\<lambda>_.
                    Inr ((NoException, Some physAddr), m3))))"

section \<open>Memory access\<close>

text \<open>Loads and stores of one, two or four bytes of \<open>mainMemory\<close>; a byte is a signed \<open>char\<close>.\<close>

definition mem_load :: "byte list \<Rightarrow> 32 word \<Rightarrow> nat \<Rightarrow> (32 word) res" where
  "mem_load mem pa sz =
     (if sz \<noteq> 1 \<and> sz \<noteq> 2 \<and> sz \<noteq> 4 then Inl Assert_Failed
      else if length mem < unat pa + sz then Inl Bad_Access
      else let bs = take sz (drop (unat pa) mem) in
        Inr (if sz = 1 then scast (hd bs)
             else if sz = 2 then ucast (ShortToHost (ucast (word_of_bytes bs)))
             else WordToHost (word_of_bytes bs)))"

definition mem_store :: "byte list \<Rightarrow> 32 word \<Rightarrow> nat \<Rightarrow> 32 word \<Rightarrow> (byte list) res" where
  "mem_store mem pa sz value =
     (if sz \<noteq> 1 \<and> sz \<noteq> 2 \<and> sz \<noteq> 4 then Inl Assert_Failed
      else if length mem < unat pa + sz then Inl Bad_Access
      else let w = (if sz = 1 then ucast (ucast (value AND 0xff) :: byte)
                    else if sz = 2 then ucast (ShortToMachine (ucast (value AND 0xffff)))
                    else WordToMachine value)
           in Inr (overwrite (unat pa) (take sz (bytes_of_word w)) mem))"

text \<open>
  After a page fault the handler has run and the translation is tried a second time, but its
  exception code is not looked at. When no physical address has been stored the access uses an
  uninitialised variable: \<open>Bad_Access\<close>. \<open>None\<close> is the return value FALSE.
\<close>

definition retry_address :: "32 word option \<Rightarrow> 32 word option \<Rightarrow> (32 word) res" where
  "retry_address first second = (case second of Some pa \<Rightarrow> Inr pa
     | None \<Rightarrow> (case first of Some pa \<Rightarrow> Inr pa | None \<Rightarrow> Inl Bad_Access))"

definition Machine_ReadMem :: "'z machine_scheme handler \<Rightarrow> 'z machine_scheme \<Rightarrow> 32 word \<Rightarrow> nat
    \<Rightarrow> (32 word option \<times> 'z machine_scheme) res" where
  "Machine_ReadMem hdl m addr sz =
     bindE (Machine_Translate m addr sz False) (\<lambda>((exc, pa), m1).
     if exc \<noteq> NoException then
       bindE (Machine_RaiseException hdl m1 exc addr) (\<lambda>m2.
       if exc = PageFaultException then
         bindE (Machine_Translate m2 addr sz False) (\<lambda>((exc2, pa2), m3).
         bindE (retry_address pa pa2) (\<lambda>p.
         bindE (mem_load (m_mainMemory m3) p sz) (\<lambda>v. Inr (Some v, m3))))
       else Inr (None, m2))
     else
       bindE (retry_address pa None) (\<lambda>p.
       bindE (mem_load (m_mainMemory m1) p sz) (\<lambda>v. Inr (Some v, m1))))"

definition Machine_WriteMem :: "'z machine_scheme handler \<Rightarrow> 'z machine_scheme \<Rightarrow> 32 word \<Rightarrow> nat
    \<Rightarrow> 32 word \<Rightarrow> (bool \<times> 'z machine_scheme) res" where
  "Machine_WriteMem hdl m addr sz value =
     bindE (Machine_Translate m addr sz True) (\<lambda>((exc, pa), m1).
     if exc \<noteq> NoException then
       bindE (Machine_RaiseException hdl m1 exc addr) (\<lambda>m2.
       if exc = PageFaultException then
         bindE (Machine_Translate m2 addr sz True) (\<lambda>((exc2, pa2), m3).
         bindE (retry_address pa pa2) (\<lambda>p.
         bindE (mem_store (m_mainMemory m3) p sz value) (\<lambda>mem.
           Inr (True, m3\<lparr>m_mainMemory := mem\<rparr>))))
       else Inr (False, m2))
     else
       bindE (retry_address pa None) (\<lambda>p.
       bindE (mem_store (m_mainMemory m1) p sz value) (\<lambda>mem.
         Inr (True, m1\<lparr>m_mainMemory := mem\<rparr>))))"

section \<open>The page table is what the machine translates by\<close>

definition pt_entry :: "'z machine_scheme \<Rightarrow> 32 word \<Rightarrow> TranslationEntry" where
  "pt_entry m vpn = m_pageTables m (the (m_pageTable m)) ! unat vpn"

text \<open>The translation the page table alone defines, without the buffer and without side effects.\<close>

definition pt_walk :: "'z machine_scheme \<Rightarrow> 32 word \<Rightarrow> nat \<Rightarrow> bool \<Rightarrow> ExceptionType \<times> 32 word option" where
  "pt_walk m va sz writing =
     (let vpn = va div PageSize; e = pt_entry m vpn in
      if sz = 4 \<and> va AND 3 \<noteq> 0 \<or> sz = 2 \<and> va AND 1 \<noteq> 0 then (AddressErrorException, None)
      else if m_pageTableSize m \<le> vpn then (AddressErrorException, None)
      else if \<not> pt_valid e then (PageFaultException, None)
      else if readOnly e \<and> writing then (ReadOnlyException, None)
      else if NumPhysPages \<le> physicalPage e then (BusErrorException, None)
      else (NoException, Some (physicalPage e * PageSize + va mod PageSize)))"

text \<open>
  Well-formed machines: arrays of the declared sizes, a page table in place, and a coherent
  buffer (each translation it holds is one the current page table has).
\<close>

definition tlb_coherent :: "'z machine_scheme \<Rightarrow> bool" where
  "tlb_coherent m \<longleftrightarrow> (\<forall>(vpn, p) \<in> tlb_holds (m_tlb m). vpn < m_pageTableSize m
     \<and> pt_valid (pt_entry m vpn) \<and> physicalPage (pt_entry m vpn) = p \<and> p < NumPhysPages)"

definition mach_inv :: "'z machine_scheme \<Rightarrow> bool" where
  "mach_inv m \<longleftrightarrow> length (m_registers m) = NumTotalRegs
     \<and> length (m_mainMemory m) = unat PhysicalMemorySize \<and> tlb_inv (m_tlb m)
     \<and> (\<exists>pt. m_pageTable m = Some pt \<and> length (m_pageTables m pt) = unat (m_pageTableSize m))
     \<and> tlb_coherent m"

lemma PageSize_unat [simp]: "unat PageSize = 128" "unat NumPhysPages = 128"
  "unat PhysicalMemorySize = 16384" "sint PhysicalMemorySize = 16384"
  by (simp_all add: PageSize_def NumPhysPages_def PhysicalMemorySize_def)

lemma and_small_zero:
  "(va :: 32 word) AND 3 = 0 \<longleftrightarrow> unat va mod 4 = 0" "(va :: 32 word) AND 1 = 0 \<longleftrightarrow> unat va mod 2 = 0"
proof -
  have "va AND 3 = take_bit 2 va" "va AND 1 = take_bit 1 va"
    by (simp_all add: take_bit_eq_mask mask_eq_exp_minus_1)
  then show "va AND 3 = 0 \<longleftrightarrow> unat va mod 4 = 0" "va AND 1 = 0 \<longleftrightarrow> unat va mod 2 = 0"
    by (simp_all add: unat_eq_0 [symmetric] unat_mod_distrib take_bit_eq_mod del: unat_eq_0)
qed

lemma phys_addr:
  fixes va :: "32 word"
  assumes "p < NumPhysPages"
  shows "unat (p * PageSize + va mod PageSize) = unat p * 128 + unat va mod 128"
    and "sint (p * PageSize + va mod PageSize) = int (unat p * 128 + unat va mod 128)"
    and "unat p * 128 + unat va mod 128 < 16384"
proof -
  have p: "unat p < 128" using assms by (simp add: word_less_nat_alt)
  have r: "unat va mod 128 < 128" by simp
  show b: "unat p * 128 + unat va mod 128 < 16384" using p r by linarith
  have m: "unat (va mod PageSize) = unat va mod 128" by (simp add: unat_mod_distrib)
  show u: "unat (p * PageSize + va mod PageSize) = unat p * 128 + unat va mod 128"
    using p r b by (simp add: unat_word_ariths m)
  define n where "n = unat p * 128 + unat va mod 128"
  have "uint (p * PageSize + va mod PageSize) = int n" using u by (metis n_def uint_nat)
  moreover have "signed_take_bit 31 (int n) = int n"
    using b by (intro signed_take_bit_int_eq_self) (simp_all flip: n_def)
  ultimately have "sint (p * PageSize + va mod PageSize) = int n" by (simp add: sint_uint)
  then show "sint (p * PageSize + va mod PageSize) = int (unat p * 128 + unat va mod 128)"
    by (simp only: n_def)
qed

lemma multiple_below: "(r::nat) mod k = 0 \<Longrightarrow> r < k * n \<Longrightarrow> r + k \<le> k * n"
proof -
  assume "r mod k = 0" "r < k * n"
  then obtain q where "r = k * q" by auto
  with \<open>r < k * n\<close> have "q < n" by simp
  then have "k * Suc q \<le> k * n" by (intro mult_le_mono2) simp
  with \<open>r = k * q\<close> show ?thesis by simp
qed

lemma aligned_in_page:
  assumes "\<not> (sz = 4 \<and> va AND 3 \<noteq> 0 \<or> sz = 2 \<and> (va :: 32 word) AND 1 \<noteq> 0)" "sz \<in> {1, 2, 4}"
  shows "unat va mod 128 + sz \<le> 128"
proof -
  define r where "r = unat va mod 128"
  have m: "r mod 4 = unat va mod 4" "r mod 2 = unat va mod 2" "r < 128"
    unfolding r_def by (simp_all add: mod_mod_cancel)
  have "r + sz \<le> 128"
    using assms m multiple_below [of r 4 32] multiple_below [of r 2 64]
    by (auto simp: and_small_zero)
  then show ?thesis by (simp add: r_def)
qed

lemma phys_in_memory:
  fixes va :: "32 word"
  assumes "p < NumPhysPages" "unat va mod 128 + sz \<le> 128"
  shows "0 \<le> sint (p * PageSize + va mod PageSize)
      \<and> sint (p * PageSize + va mod PageSize) + int sz \<le> sint PhysicalMemorySize"
    and "unat (p * PageSize + va mod PageSize) + sz \<le> 16384"
proof -
  have "unat p < 128" using assms(1) by (simp add: word_less_nat_alt)
  with assms(2) have k: "unat p * 128 + unat va mod 128 + sz \<le> 16384" by linarith
  then show "unat (p * PageSize + va mod PageSize) + sz \<le> 16384"
    using phys_addr(1) [OF assms(1), of va] by simp
  have "sint (p * PageSize + va mod PageSize) + int sz = int (unat p * 128 + unat va mod 128 + sz)"
    unfolding phys_addr(2) [OF assms(1), of va] by (simp only: of_nat_add)
  also have "\<dots> \<le> int 16384" using k by (simp only: of_nat_le_iff)
  finally show "0 \<le> sint (p * PageSize + va mod PageSize)
      \<and> sint (p * PageSize + va mod PageSize) + int sz \<le> sint PhysicalMemorySize"
    using phys_addr(2) [OF assms(1), of va] by simp
qed

lemma pt_entry_tlb [simp]:
  "pt_entry (m\<lparr>m_tlb := t\<rparr>) = pt_entry m" "pt_walk (m\<lparr>m_tlb := t\<rparr>) = pt_walk m"
  by (simp_all add: pt_entry_def pt_walk_def fun_eq_iff Let_def)

text \<open>Setting a dirty bit changes no translation.\<close>

definition set_dirty :: "'z machine_scheme \<Rightarrow> 32 word \<Rightarrow> 'z machine_scheme" where
  "set_dirty m vpn = (let pt = the (m_pageTable m) in
     m\<lparr>m_pageTables := (m_pageTables m)
        (pt := (m_pageTables m pt)[unat vpn := (pt_entry m vpn)\<lparr>dirty := True\<rparr>])\<rparr>)"

lemma set_dirty_entry:
  "unat vpn < length (m_pageTables m (the (m_pageTable m))) \<Longrightarrow>
   pt_entry (set_dirty m vpn) w = (if w = vpn then (pt_entry m vpn)\<lparr>dirty := True\<rparr> else pt_entry m w)"
  by (auto simp: set_dirty_def pt_entry_def Let_def nth_list_update word_unat_eq_iff)

lemma set_dirty_frame [simp]:
  "m_tlb (set_dirty m vpn) = m_tlb m" "m_pageTableSize (set_dirty m vpn) = m_pageTableSize m"
  "m_pageTable (set_dirty m vpn) = m_pageTable m" "m_registers (set_dirty m vpn) = m_registers m"
  "m_mainMemory (set_dirty m vpn) = m_mainMemory m"
  "length (m_pageTables (set_dirty m vpn) pt) = length (m_pageTables m pt)"
  by (auto simp: set_dirty_def Let_def)

lemma set_dirty_walk:
  "unat vpn < length (m_pageTables m (the (m_pageTable m))) \<Longrightarrow> pt_walk (set_dirty m vpn) = pt_walk m"
  by (auto simp: pt_walk_def set_dirty_entry fun_eq_iff Let_def)

lemma set_dirty_inv: "mach_inv m \<Longrightarrow> vpn < m_pageTableSize m \<Longrightarrow> mach_inv (set_dirty m vpn)"
  by (auto simp: mach_inv_def tlb_coherent_def set_dirty_entry word_less_nat_alt)

lemma coherent_mono:
  "tlb_coherent m \<Longrightarrow> tlb_holds t \<subseteq> tlb_holds (m_tlb m) \<Longrightarrow> tlb_coherent (m\<lparr>m_tlb := t\<rparr>)"
  by (auto simp: tlb_coherent_def)

text \<open>
  One translation. \<open>m'\<close> differs from \<open>m\<close> at most in the buffer and in dirty bits, so it
  translates every address as before.
\<close>

lemma Translate_ok:
  fixes m :: "'z machine_scheme"
  assumes inv: "mach_inv m" and sz: "sz \<in> {1, 2, 4}"
    and ro: "writing \<Longrightarrow> readOnly (pt_entry m (va div PageSize)) \<Longrightarrow>
      va div PageSize \<notin> Domain (tlb_holds (m_tlb m))"
  shows "\<exists>m'. Machine_Translate m va sz writing = Inr (pt_walk m va sz writing, m')
     \<and> mach_inv m' \<and> pt_walk m' = pt_walk m \<and> m_mainMemory m' = m_mainMemory m
     \<and> m_registers m' = m_registers m
     \<and> (\<forall>w. readOnly (pt_entry m' w) = readOnly (pt_entry m w))
     \<and> (fst (pt_walk m va sz writing) = NoException \<longrightarrow>
         va div PageSize \<in> Domain (tlb_holds (m_tlb m')))"
proof (cases "sz = 4 \<and> va AND 3 \<noteq> 0 \<or> sz = 2 \<and> va AND 1 \<noteq> 0")
  case True
  with inv show ?thesis by (auto simp: Machine_Translate_def pt_walk_def Let_def)
next
  case al: False
  define vpn where "vpn = va div PageSize"
  obtain r t1 where t1: "TLBManager_translate (m_tlb m) va = (r, t1)" by fastforce
  have ti: "tlb_inv (m_tlb m)" using inv by (simp add: mach_inv_def)
  note tr = TLBManager_translate_ok [OF ti, of va, folded vpn_def, unfolded t1, simplified]
  define m1 where "m1 = m\<lparr>m_tlb := t1\<rparr>"
  have inv1: "mach_inv m1"
    using inv tr(1,2) coherent_mono [of m t1] by (auto simp: mach_inv_def m1_def)
  obtain pt where pt: "m_pageTable m = Some pt" "length (m_pageTables m pt) = unat (m_pageTableSize m)"
    using inv by (auto simp: mach_inv_def)
  have e: "m_pageTables m pt ! unat vpn = pt_entry m vpn" by (simp add: pt_entry_def pt(1))
  show ?thesis
  proof (cases "vpn \<in> Domain (tlb_holds (m_tlb m))")
    case hit: True
    then obtain p where p: "(vpn, p) \<in> tlb_holds (m_tlb m)" "r = p * PageSize + va mod PageSize"
      using tr(4) by auto
    have c: "vpn < m_pageTableSize m" "pt_valid (pt_entry m vpn)" "physicalPage (pt_entry m vpn) = p"
      "p < NumPhysPages" using inv p(1) by (auto simp: mach_inv_def tlb_coherent_def)
    have "0 \<le> sint r" using phys_addr(2) [OF c(4), of va] p(2) by simp
    with al t1 have "Machine_Translate m va sz writing = Inr ((NoException, Some r), m1)"
      by (auto simp: Machine_Translate_def Let_def m1_def)
    moreover have "pt_walk m va sz writing = (NoException, Some r)"
      using al c ro hit p(2) by (auto simp: pt_walk_def Let_def not_le simp flip: vpn_def)
    ultimately show ?thesis using inv1 hit tr(2) by (auto simp: m1_def vpn_def)
  next
    case miss: False
    then have r: "sint r = - 1" using tr(3) by simp
    have idx: "uint vpn < int (unat (m_pageTableSize m))" if "\<not> m_pageTableSize m \<le> vpn"
      using that by (simp add: word_le_def)
    let ?p = "physicalPage (pt_entry m vpn)"
    let ?m2 = "m1\<lparr>m_tlb := TLBManager_update t1 (m_pid m) va ?p\<rparr>"
    show ?thesis
    proof (cases "m_pageTableSize m \<le> vpn \<or> \<not> pt_valid (pt_entry m vpn)
        \<or> (readOnly (pt_entry m vpn) \<and> writing) \<or> NumPhysPages \<le> ?p")
      case True
      with al t1 r pt e idx inv1 show ?thesis
        by (auto simp: Machine_Translate_def Let_def m1_def pt_walk_def simp flip: vpn_def)
    next
      case False
      then have ok: "vpn < m_pageTableSize m" "pt_valid (pt_entry m vpn)" "?p < NumPhysPages"
        "\<not> (readOnly (pt_entry m vpn) \<and> writing)" by auto
      have upd: "tlb_inv (m_tlb ?m2)" "tlb_holds (m_tlb ?m2) \<subseteq> insert (vpn, ?p) (tlb_holds (m_tlb m))"
        using TLBManager_update_ok [OF tr(1), where va = va and pid = "m_pid m" and frame = ?p, folded vpn_def] tr(2) by simp_all
      have held: "vpn \<in> Domain (tlb_holds (m_tlb ?m2))"
        using TLBManager_update_ok(2) [OF tr(1), where va = va and pid = "m_pid m" and frame = ?p,
            folded vpn_def] by (auto simp: Domain_iff)
      have inv2: "mach_inv ?m2"
        using inv1 upd ok inv by (auto simp: mach_inv_def m1_def tlb_coherent_def)
      define m3 where "m3 = (if writing then set_dirty ?m2 vpn else ?m2)"
      have len: "unat vpn < length (m_pageTables ?m2 (the (m_pageTable ?m2)))"
        using ok(1) pt by (simp add: m1_def word_less_nat_alt)
      have m3: "mach_inv m3" "pt_walk m3 = pt_walk m" "m_mainMemory m3 = m_mainMemory m"
        "m_registers m3 = m_registers m" "readOnly (pt_entry m3 w) = readOnly (pt_entry m w)" for w
        using inv2 set_dirty_inv [OF inv2, of vpn] ok(1) set_dirty_walk [OF len]
          set_dirty_entry [OF len] by (auto simp: m3_def m1_def)
      have "0 \<le> sint (?p * PageSize + va mod PageSize)
          \<and> sint (?p * PageSize + va mod PageSize) + int sz \<le> sint PhysicalMemorySize"
        by (rule phys_in_memory(1) [OF ok(3) aligned_in_page [OF al sz]])
      then have "Machine_Translate m va sz writing =
          Inr ((NoException, Some (?p * PageSize + va mod PageSize)), m3)"
        using al idx ok
        by (simp add: Machine_Translate_def Let_def m3_def m1_def set_dirty_def pt t1 r e not_le
            flip: vpn_def)
      moreover have "pt_walk m va sz writing = (NoException, Some (?p * PageSize + va mod PageSize))"
        using al ok by (auto simp: pt_walk_def Let_def not_le simp flip: vpn_def)
      moreover have "va div PageSize \<in> Domain (tlb_holds (m_tlb m3))"
        using held by (simp add: m3_def vpn_def)
      ultimately show ?thesis using m3 by auto
    qed
  qed
qed

section \<open>Loads and stores\<close>

text \<open>What a value looks like after a store and a load of \<open>sz\<close> bytes.\<close>

definition truncate :: "nat \<Rightarrow> 32 word \<Rightarrow> 32 word" where
  "truncate sz v = (if sz = 1 then scast (ucast v :: byte) else if sz = 2 then v AND 0xffff else v)"

lemma take2_bytes: "word_of_bytes (take 2 (bytes_of_word w)) = take_bit 16 w"
proof (rule bit_word_eqI)
  fix n :: nat
  assume n: "n < LENGTH(32)"
  consider "n < 8" | "8 \<le> n" "n < 16" | "16 \<le> n" by linarith
  then show "bit (word_of_bytes (take 2 (bytes_of_word w))) n = bit (take_bit 16 w) n"
    using n by cases (auto simp: bytes_of_word_def bit_or_iff bit_push_bit_iff bit_ucast_iff
        bit_drop_bit_eq bit_take_bit_iff numeral_2_eq_2)
qed

lemma and_masks: "(v :: 32 word) AND 0xff = take_bit 8 v" "(v :: 32 word) AND 0xffff = take_bit 16 v"
  by (simp_all add: take_bit_eq_mask mask_eq_exp_minus_1)

lemma byte_cast: "(ucast (ucast (ucast (v AND 0xff) :: byte) :: 32 word) :: byte) = ucast (v :: 32 word)"
  unfolding and_masks by (rule bit_word_eqI) (auto simp: bit_ucast_iff bit_take_bit_iff)

lemma short_cast:
  "(ucast (ucast (take_bit 16 (ucast (ucast (v AND 0xffff) :: 16 word) :: 32 word)) :: 16 word) :: 32 word)
    = (v :: 32 word) AND 0xffff"
  unfolding and_masks by (rule bit_word_eqI) (auto simp: bit_ucast_iff bit_take_bit_iff)

lemma load_store:
  assumes "mem_store mem pa sz v = Inr mem'"
  shows "mem_load mem' pa sz = Inr (truncate sz v)" "length mem' = length mem"
    and "\<And>i. i < length mem \<Longrightarrow> \<not> (unat pa \<le> i \<and> i < unat pa + sz) \<Longrightarrow> mem' ! i = mem ! i"
proof -
  define w :: "32 word" where "w = (if sz = 1 then ucast (ucast (v AND 0xff) :: byte)
     else if sz = 2 then ucast (ShortToMachine (ucast (v AND 0xffff))) else WordToMachine v)"
  let ?bs = "take sz (bytes_of_word w)"
  have sz: "sz = 1 \<or> sz = 2 \<or> sz = 4" and fits: "unat pa + sz \<le> length mem"
    and mem': "mem' = overwrite (unat pa) ?bs mem"
    using assms by (auto simp: mem_store_def w_def Let_def split: if_splits)
  have len: "length ?bs = sz" using sz by auto
  have upto: "unat pa + length ?bs \<le> length mem" using fits len by simp
  show lm: "length mem' = length mem" unfolding mem' by (rule length_overwrite [OF upto])
  show "mem' ! i = mem ! i" if "i < length mem" "\<not> (unat pa \<le> i \<and> i < unat pa + sz)" for i
    unfolding mem' using nth_overwrite [OF upto that(1)] that(2) len by auto
  have slice: "take sz (drop (unat pa) mem') = ?bs"
    unfolding mem' using take_drop_overwrite [OF upto] len by simp
  have "\<not> length mem' < unat pa + sz" using fits lm by simp
  then show "mem_load mem' pa sz = Inr (truncate sz v)"
    using sz
  proof (elim disjE)
    assume 1: "sz = 1"
    then have "hd (take sz (drop (unat pa) mem')) = ucast v"
      unfolding slice by (simp add: w_def bytes_of_word_def byte_cast)
    with 1 \<open>\<not> length mem' < unat pa + sz\<close> show ?thesis
      by (simp add: mem_load_def truncate_def Let_def)
  next
    assume 2: "sz = 2"
    then have "word_of_bytes (take sz (drop (unat pa) mem')) = take_bit 16 w"
      unfolding slice by (simp add: take2_bytes)
    with 2 \<open>\<not> length mem' < unat pa + sz\<close> show ?thesis
      by (simp add: mem_load_def truncate_def Let_def w_def ShortToHost_def ShortToMachine_def short_cast)
  next
    assume 4: "sz = 4"
    then have "word_of_bytes (take sz (drop (unat pa) mem')) = v"
      unfolding slice by (simp add: w_def WordToMachine_def WordToHost_def)
    with 4 \<open>\<not> length mem' < unat pa + sz\<close> show ?thesis
      by (simp add: mem_load_def truncate_def Let_def WordToHost_def)
  qed
qed

section \<open>Properties\<close>

lemma mach_inv_memory [simp]:
  "length mem = length (m_mainMemory m) \<Longrightarrow> mach_inv (m\<lparr>m_mainMemory := mem\<rparr>) = mach_inv m"
  by (simp add: mach_inv_def tlb_coherent_def pt_entry_def)

lemma pt_walk_memory [simp]: "pt_walk (m\<lparr>m_mainMemory := mem\<rparr>) = pt_walk m"
  by (simp add: pt_walk_def pt_entry_def fun_eq_iff Let_def)

lemma pt_walk_writable:
  "fst (pt_walk m va sz True) = NoException \<Longrightarrow>
   pt_walk m va sz False = pt_walk m va sz True \<and> \<not> readOnly (pt_entry m (va div PageSize))"
  by (auto simp: pt_walk_def Let_def split: if_splits)

lemma pt_walk_in_memory:
  assumes "pt_walk m va sz w = (NoException, Some pa)" "sz \<in> {1, 2, 4}"
  shows "unat pa + sz \<le> 16384"
proof -
  let ?p = "physicalPage (pt_entry m (va div PageSize))"
  have al: "\<not> (sz = 4 \<and> va AND 3 \<noteq> 0 \<or> sz = 2 \<and> va AND 1 \<noteq> 0)"
    and "?p < NumPhysPages" "pa = ?p * PageSize + va mod PageSize"
    using assms(1) by (auto simp: pt_walk_def Let_def not_le split: if_splits)
  then show ?thesis using phys_in_memory(2) [OF _ aligned_in_page [OF al assms(2)]] by simp
qed

text \<open>
  C13. With a coherent buffer, translation through the buffer and the page table never faults and
  gives exactly the exception or physical address that the page table alone defines, for every
  access that is not a write to a read-only page held in the buffer. It keeps the machine
  well-formed and changes no later translation, and a physical address it returns lies, with all
  the bytes accessed, inside main memory.
\<close>

theorem translate_follows_page_table:
  assumes "mach_inv m" "sz \<in> {1, 2, 4}"
    and "writing \<Longrightarrow> readOnly (pt_entry m (va div PageSize)) \<Longrightarrow>
      va div PageSize \<notin> Domain (tlb_holds (m_tlb m))"
  shows "\<exists>m'. Machine_Translate m va sz writing = Inr (pt_walk m va sz writing, m')
     \<and> mach_inv m' \<and> pt_walk m' = pt_walk m
     \<and> (\<forall>pa. pt_walk m va sz writing = (NoException, Some pa) \<longrightarrow> unat pa + sz \<le> unat PhysicalMemorySize)"
proof -
  obtain m' where "Machine_Translate m va sz writing = Inr (pt_walk m va sz writing, m')"
    "mach_inv m'" "pt_walk m' = pt_walk m"
    using Translate_ok [OF assms(1,2), of writing va] assms(3) by blast
  with pt_walk_in_memory [OF _ assms(2), of m va writing] show ?thesis by auto
qed

text \<open>A machine with two mapped pages, the second read-only, used by the witnesses.\<close>

definition example_entry :: "32 word \<Rightarrow> 32 word \<Rightarrow> bool \<Rightarrow> TranslationEntry" where
  "example_entry v p ro = \<lparr>virtualPage = v, physicalPage = p, pt_valid = True, readOnly = ro,
     pt_use = False, dirty = False\<rparr>"

definition example_machine :: machine where
  "example_machine = \<lparr>m_registers = replicate 40 0, m_mainMemory = replicate 16384 0,
     m_tlb = TLBManager_new \<lparr>Tag = 0, PPN = 0, valid = False, threadId = 0, lru = 0\<rparr>,
     m_pageTables = (\<lambda>_. [example_entry 0 5 False, example_entry 1 9 True]), m_pageTable = Some 0,
     m_pageTableSize = 2, m_singleStep = False, m_runUntilTime = 0, m_status = UserMode, m_pid = 1\<rparr>"

lemma example_machine_inv: "mach_inv example_machine"
  by (simp add: mach_inv_def example_machine_def tlb_coherent_def TLBManager_new_inv)

theorem translate_follows_page_table_witness:
  "mach_inv example_machine \<and> (\<exists>m'. Machine_Translate example_machine 68 4 True
      = Inr (pt_walk example_machine 68 4 True, m') \<and> mach_inv m' \<and> pt_walk m' = pt_walk example_machine
     \<and> (\<forall>pa. pt_walk example_machine 68 4 True = (NoException, Some pa)
         \<longrightarrow> unat pa + 4 \<le> unat PhysicalMemorySize))"
proof -
  have ro: "\<not> readOnly (pt_entry example_machine (68 div PageSize))"
    by (simp add: pt_entry_def example_machine_def PageSize_def example_entry_def)
  show ?thesis
    using example_machine_inv translate_follows_page_table [OF example_machine_inv, of 4 True 68] ro by simp
qed



text \<open>
  C15. The buffer is consulted before protection is: once a page has been read, a write to it is
  translated from the buffer, so it succeeds even when the page is marked read-only, and it
  leaves the page table as it is, so the dirty bit that decides whether the page is written back
  on eviction is not set.
\<close>

theorem write_after_read_skips_checks:
  assumes "mach_inv m" "sz \<in> {1, 2, 4}" "pt_walk m va sz False = (NoException, Some pa)"
  shows "\<exists>m1 m2. Machine_Translate m va sz False = Inr ((NoException, Some pa), m1)
     \<and> Machine_Translate m1 va sz True = Inr ((NoException, Some pa), m2)
     \<and> m_pageTables m2 = m_pageTables m1"
proof -
  obtain m1 where m1: "Machine_Translate m va sz False = Inr ((NoException, Some pa), m1)"
    "mach_inv m1" "pt_walk m1 = pt_walk m" "va div PageSize \<in> Domain (tlb_holds (m_tlb m1))"
    using Translate_ok [OF assms(1,2), of False va] assms(3) by auto
  have ti: "tlb_inv (m_tlb m1)" using m1(2) by (simp add: mach_inv_def)
  obtain p where p: "(va div PageSize, p) \<in> tlb_holds (m_tlb m1)"
    "fst (TLBManager_translate (m_tlb m1) va) = p * PageSize + va mod PageSize"
    using TLBManager_translate_ok(4) [OF ti m1(4)] by auto
  have c: "physicalPage (pt_entry m1 (va div PageSize)) = p" "p < NumPhysPages"
    using m1(2) p(1) by (auto simp: mach_inv_def tlb_coherent_def)
  have walk: "pt_walk m1 va sz False = (NoException, Some pa)" using m1(3) assms(3) by simp
  then have pa: "pa = p * PageSize + va mod PageSize"
    and al: "\<not> (sz = 4 \<and> va AND 3 \<noteq> 0 \<or> sz = 2 \<and> va AND 1 \<noteq> 0)"
    using c(1) by (auto simp: pt_walk_def Let_def split: if_splits)
  obtain t where t: "TLBManager_translate (m_tlb m1) va = (pa, t)"
    using p(2) pa by (metis prod.collapse)
  have "0 \<le> sint pa" using phys_addr(2) [OF c(2), of va] pa by simp
  with al t have "Machine_Translate m1 va sz True = Inr ((NoException, Some pa), m1\<lparr>m_tlb := t\<rparr>)"
    by (auto simp: Machine_Translate_def Let_def)
  with m1(1) show ?thesis by auto
qed

theorem write_after_read_skips_checks_witness:
  "mach_inv example_machine \<and> readOnly (pt_entry example_machine (132 div PageSize))
   \<and> pt_walk example_machine 132 4 True = (ReadOnlyException, None)
   \<and> (\<exists>m1 m2. Machine_Translate example_machine 132 4 False = Inr ((NoException, Some 1156), m1)
     \<and> Machine_Translate m1 132 4 True = Inr ((NoException, Some 1156), m2)
     \<and> m_pageTables m2 = m_pageTables m1)"
proof -
  note ev = pt_walk_def Let_def pt_entry_def example_machine_def PageSize_def NumPhysPages_def
    example_entry_def word_le_nat_alt
  have w: "pt_walk example_machine 132 4 False = (NoException, Some 1156)" by (simp add: ev)
  have r: "readOnly (pt_entry example_machine (132 div PageSize))" by (simp add: ev)
  have x: "pt_walk example_machine 132 4 True = (ReadOnlyException, None)" by (simp add: ev)
  show ?thesis
    using write_after_read_skips_checks [OF example_machine_inv _ w] example_machine_inv r x by simp
qed

end
