(* ===== verification/Mips_Mult.thy ===== *)
theory Mips_Mult
  imports Nachos_Prelude
begin

text \<open>
  The multiplier of machine/mipssim.cc (\<open>Mult\<close>): 32 steps of shift and add on pairs of 32-bit
  words. The lemmas follow the accumulator and the shifted multiplicand as 64-bit words; the
  theorem is that the result is the product.
\<close>

section \<open>Multiplication\<close>

text \<open>The loop of \<open>Mult\<close>: \<open>n\<close> iterations left; it stops early when no bit of \<open>a\<close> is left.\<close>

fun Mult_loop :: "nat \<Rightarrow> 32 word \<Rightarrow> 32 word \<Rightarrow> 32 word \<Rightarrow> 32 word \<Rightarrow> 32 word \<Rightarrow> 32 word \<times> 32 word" where
  "Mult_loop 0 a bLo bHi lo hi = (hi, lo)"
| "Mult_loop (Suc n) a bLo bHi lo hi =
     (let odd = (a AND 1 \<noteq> 0);
          lo1 = (if odd then lo + bLo else lo);
          hi1 = (if odd then (if lo1 < bLo then hi + 1 else hi) + bHi else hi)
      in if odd \<and> a AND 0xfffffffe = 0 then (hi1, lo1)
         else let bHi1 = push_bit 1 bHi;
                  bHi2 = (if bLo AND 0x80000000 \<noteq> 0 then bHi1 OR 1 else bHi1)
              in Mult_loop n (signed_drop_bit 1 a) (push_bit 1 bLo) bHi2 lo1 hi1)"

definition Mult :: "32 word \<Rightarrow> 32 word \<Rightarrow> bool \<Rightarrow> 32 word \<times> 32 word" where
  "Mult a b signedArith =
     (if a = 0 \<or> b = 0 then (0, 0)
      else
        let na = signedArith \<and> sint a < 0; nb = signedArith \<and> sint b < 0;
            negative = (na \<noteq> nb);
            a1 = (if na then - a else a); b1 = (if nb then - b else b);
            (hi, lo) = Mult_loop 32 a1 b1 0 0 0
        in if negative then
             let hi1 = NOT hi; lo1 = NOT lo + 1 in (if lo1 = 0 then hi1 + 1 else hi1, lo1)
           else (hi, lo))"

section \<open>Multiplication is the 64-bit product\<close>

text \<open>The double word that a pair of registers represents; arithmetic on it is modulo \<open>2 ^ 64\<close>.\<close>

definition dbl :: "32 word \<Rightarrow> 32 word \<Rightarrow> 64 word" where
  "dbl hi lo = 2 ^ 32 * ucast hi + ucast lo"

lemma ucast_of_int: "(ucast (x :: 32 word) :: 64 word) = of_int (uint x)"
  by simp

lemma hi_add: "2 ^ 32 * (ucast (x + y) :: 64 word) = 2 ^ 32 * ucast (x :: 32 word) + 2 ^ 32 * ucast y"
proof -
  define q where "q = (uint x + uint y) div 2 ^ 32"
  have "uint (x + y) = uint x + uint y - 2 ^ 32 * q"
    by (simp add: uint_word_ariths q_def minus_mult_div_eq_mod)
  then have eq: "(ucast (x + y) :: 64 word) = ucast x + ucast y - 2 ^ 32 * of_int q"
    unfolding ucast_of_int by (simp add: of_int_diff)
  have "2 ^ 32 * (ucast (x + y) :: 64 word) = 2 ^ 32 * (ucast x + ucast y) - 2 ^ 32 * 2 ^ 32 * of_int q"
    unfolding eq by (simp only: right_diff_distrib mult.assoc)
  moreover have "(2 ^ 32 * 2 ^ 32 :: 64 word) = 0" by simp
  ultimately show ?thesis by (simp only: distrib_left mult_zero_left diff_zero)
qed

lemma carry: "(ucast (x + y) :: 64 word) + (if x + y < (y :: 32 word) then 2 ^ 32 else 0) = ucast x + ucast y"
proof -
  have "0 \<le> uint x" "0 \<le> uint y" "uint x < 2 ^ 32" "uint y < 2 ^ 32"
    using uint_lt2p [of x] uint_lt2p [of y] by simp_all
  then have "uint (x + y) = uint x + uint y - (if x + y < y then 2 ^ 32 else 0)"
    by (auto simp: word_less_def uint_plus_if')
  then have "(of_int (uint (x + y)) :: 64 word)
      = of_int (uint x) + of_int (uint y) - (if x + y < y then 2 ^ 32 else 0)"
    by (simp add: of_int_diff)
  then show ?thesis unfolding ucast_of_int by simp
qed

lemma dbl_add:
  "dbl ((if lo + bLo < bLo then hi + 1 else hi) + bHi) (lo + bLo) = dbl hi lo + dbl bHi bLo"
proof (cases "lo + bLo < bLo")
  case True
  have "2 ^ 32 * (ucast (hi + 1 + bHi) :: 64 word) = 2 ^ 32 * ucast hi + 2 ^ 32 + 2 ^ 32 * ucast bHi"
    by (simp only: hi_add) simp
  with True carry [of lo bLo] show ?thesis by (simp add: dbl_def algebra_simps)
next
  case False
  have "2 ^ 32 * (ucast (hi + bHi) :: 64 word) = 2 ^ 32 * ucast hi + 2 ^ 32 * ucast bHi"
    by (simp only: hi_add)
  with False carry [of lo bLo] show ?thesis by (simp add: dbl_def algebra_simps)
qed

lemma top_bit: "(x :: 32 word) AND 0x80000000 \<noteq> 0 \<longleftrightarrow> bit x 31"
proof -
  have "(0x80000000 :: 32 word) = push_bit 31 1" by simp
  then show ?thesis by (simp only: bit_iff_and_push_bit_not_eq_0)
qed

lemma top_bit_uint: "bit (x :: 32 word) 31 \<longleftrightarrow> 2 ^ 31 \<le> uint x"
proof -
  have "bit x 31 \<longleftrightarrow> odd (uint x div 2 ^ 31)" by (metis bit_iff_odd bit_uint_iff bit_imp_le_length)
  moreover have "uint x < 2 ^ 32" using uint_lt2p [of x] by simp
  moreover have "0 \<le> uint x" by simp
  ultimately show ?thesis by (cases "2 ^ 31 \<le> uint x") (auto simp: div_pos_geq div_pos_pos_trivial)
qed

lemma top_bit_carry: "(x :: 32 word) AND 0x80000000 \<noteq> 0 \<longleftrightarrow> x + x < x"
proof -
  have "0 \<le> uint x" "uint x < 2 ^ 32" using uint_lt2p [of x] by simp_all
  then show ?thesis
    unfolding top_bit top_bit_uint word_less_def uint_plus_if' by auto
qed

lemma push_bit_1: "push_bit 1 (x :: 32 word) = x + x"
  by (simp add: push_bit_eq_mult)

lemma double_or_1: "x + x OR 1 = x + x + (1 :: 32 word)"
  using or_one_eq [of "x + x"] by simp

lemma dbl_double:
  "dbl (if bLo AND 0x80000000 \<noteq> 0 then push_bit 1 bHi OR 1 else push_bit 1 bHi) (push_bit 1 bLo)
    = 2 * dbl bHi bLo"
proof -
  have "(if bLo AND 0x80000000 \<noteq> 0 then push_bit 1 bHi OR 1 else push_bit 1 bHi)
      = (if bLo + bLo < bLo then bHi + 1 else bHi) + bHi"
    unfolding top_bit_carry push_bit_1 double_or_1 by (simp add: algebra_simps)
  then show ?thesis
    using dbl_add [of bLo bLo bHi bHi] unfolding push_bit_1 by simp
qed

lemma take_bit_step:
  assumes "n \<le> 31"
  shows "(ucast (take_bit (Suc n) a) :: 64 word)
    = (if a AND 1 \<noteq> 0 then 1 else 0) + 2 * ucast (take_bit n (signed_drop_bit 1 (a :: 32 word)))"
proof -
  have shift: "take_bit n (signed_drop_bit 1 a) = take_bit n (drop_bit 1 a)"
    using assms by (intro bit_word_eqI) (auto simp: bit_take_bit_iff bit_signed_drop_bit_iff bit_drop_bit_eq)
  have "uint (take_bit (Suc n) a) = uint a mod 2 + 2 * uint (take_bit n (drop_bit 1 a))"
    unfolding unsigned_take_bit_eq unsigned_drop_bit_eq by (simp add: take_bit_Suc drop_bit_Suc bintr_uint)
  moreover have "uint a mod 2 = (if a AND 1 \<noteq> 0 then 1 else 0)"
  proof -
    have "uint (a AND 1) = uint a AND uint (1 :: 32 word)" by (rule unsigned_and_eq)
    then have "uint (a AND 1) = uint a mod 2" by (simp only: unsigned_1 and_one_eq)
    moreover have "uint a mod 2 = 0 \<or> uint a mod 2 = 1" by presburger
    ultimately show ?thesis by (metis unsigned_0 uint_0_iff zero_neq_one)
  qed
  ultimately show ?thesis unfolding shift ucast_of_int by (simp only: of_int_add of_int_mult) simp
qed

lemma Mult_loop_ok:
  assumes "Mult_loop n a bLo bHi lo hi = (h, l)" "n \<le> 32"
  shows "dbl h l = dbl hi lo + ucast (take_bit n a) * dbl bHi bLo"
  using assms
proof (induction n arbitrary: a bLo bHi lo hi)
  case 0
  then show ?case by simp
next
  case (Suc n)
  define lo1 where "lo1 = (if a AND 1 \<noteq> 0 then lo + bLo else lo)"
  define hi1 where "hi1 = (if a AND 1 \<noteq> 0 then (if lo1 < bLo then hi + 1 else hi) + bHi else hi)"
  define bHi2 where "bHi2 = (if bLo AND 0x80000000 \<noteq> 0 then push_bit 1 bHi OR 1 else push_bit 1 bHi)"
  let ?a1 = "signed_drop_bit 1 a"
  have acc: "dbl hi1 lo1 = dbl hi lo + (if a AND 1 \<noteq> 0 then 1 else 0) * dbl bHi bLo"
    using dbl_add [of lo bLo hi bHi] by (simp add: lo1_def hi1_def)
  have step: "(ucast (take_bit (Suc n) a) :: 64 word)
      = (if a AND 1 \<noteq> 0 then 1 else 0) + 2 * ucast (take_bit n ?a1)"
    using Suc.prems(2) by (intro take_bit_step) simp
  show ?case
  proof (cases "a AND 1 \<noteq> 0 \<and> a AND 0xfffffffe = 0")
    case True
    then have hl: "h = hi1" "l = lo1" using Suc.prems(1) by (auto simp: lo1_def hi1_def Let_def)
    have n1: "(0xfffffffe :: 32 word) = NOT 1" by simp
    have zero: "a AND NOT 1 = 0" using True [THEN conjunct2] unfolding n1 .
    have "a = 1"
    proof (rule bit_word_eqI)
      fix i :: nat
      assume "i < LENGTH(32)"
      moreover have "\<not> bit (a AND NOT 1) i" "bit a 0" using zero True by (simp_all add: bit_0 and_one_eq odd_iff_mod_2_eq_one)
      ultimately show "bit a i = bit (1 :: 32 word) i"
        by (cases i) (simp_all only: bit_and_iff bit_not_iff bit_1_iff possible_bit_word, simp_all)
    qed
    then have "take_bit (Suc n) a = 1" by simp
    with acc hl \<open>a = 1\<close> show ?thesis by simp
  next
    case False
    then have "Mult_loop n ?a1 (push_bit 1 bLo) bHi2 lo1 hi1 = (h, l)"
      using Suc.prems(1) by (auto simp: lo1_def hi1_def bHi2_def Let_def)
    from Suc.IH [OF this] Suc.prems(2)
    have "dbl h l = dbl hi1 lo1 + ucast (take_bit n ?a1) * (2 * dbl bHi bLo)"
      using dbl_double [of bLo bHi] by (simp add: bHi2_def)
    then show ?thesis unfolding acc step by (simp add: algebra_simps)
  qed
qed

lemma dbl_neg: "dbl (if NOT lo + 1 = 0 then NOT hi + 1 else NOT hi) (NOT lo + 1) = - dbl hi lo"
proof -
  have n: "NOT lo + 1 = - lo" "NOT hi + 1 = - hi" "NOT hi = - hi - 1"
    by (simp_all add: not_eq_complement)
  have "dbl (if - lo = 0 then - hi else - hi - 1) (- lo) + dbl hi lo = 0"
  proof (cases "lo = 0")
    case True
    have "2 ^ 32 * (ucast (- hi + hi) :: 64 word) = 2 ^ 32 * ucast (- hi) + 2 ^ 32 * ucast hi" by (rule hi_add)
    with True show ?thesis by (simp add: dbl_def)
  next
    case False
    have c: "(ucast (- lo + lo) :: 64 word) + (if - lo + lo < lo then 2 ^ 32 else 0) = ucast (- lo) + ucast lo"
      by (rule carry)
    have "0 < lo" using False by (simp add: word_neq_0_conv)
    with c have c': "ucast (- lo) + ucast lo = (2 ^ 32 :: 64 word)" by simp
    have "2 ^ 32 * (ucast (- hi - 1 + hi) :: 64 word) = 2 ^ 32 * ucast (- hi - 1) + 2 ^ 32 * ucast hi"
      by (rule hi_add)
    moreover have "2 ^ 32 * (ucast (- 1 + 1 :: 32 word) :: 64 word)
        = 2 ^ 32 * ucast (- 1 :: 32 word) + 2 ^ 32 * ucast (1 :: 32 word)" by (rule hi_add)
    ultimately have z: "2 ^ 32 * ucast (- hi - 1) + 2 ^ 32 * ucast hi + (2 ^ 32 :: 64 word) = 0" by simp
    have "dbl (- hi - 1) (- lo) + dbl hi lo
        = (2 ^ 32 * ucast (- hi - 1) + 2 ^ 32 * ucast hi) + (ucast (- lo) + ucast lo)"
      by (simp only: dbl_def ac_simps)
    with c' z False show ?thesis by (simp del: power_numeral)
  qed
  then show ?thesis unfolding n by (cases "lo = 0") (simp_all add: eq_neg_iff_add_eq_0)
qed

lemma sint_cases: "sint (a :: 32 word) = (if 2 ^ 31 \<le> uint a then uint a - 2 ^ 32 else uint a)"
proof -
  have "bit (uint a) 31 = bit a 31" by (simp add: bit_uint_iff)
  then have "signed_take_bit 31 (uint a) = take_bit 32 (uint a) - 2 ^ 32 * of_bool (2 ^ 31 \<le> uint a)"
    using top_bit_uint [of a] by (simp add: signed_take_bit_eq_take_bit_minus)
  then show ?thesis by (simp add: sint_uint bintr_uint)
qed

lemma ucast_neg:
  assumes "sint (a :: 32 word) < 0"
  shows "(ucast (- a) :: 64 word) = - scast a"
proof -
  have b: "2 ^ 31 \<le> uint a" "uint a < 2 ^ 32" "sint a = uint a - 2 ^ 32"
    using assms sint_cases [of a] uint_lt2p [of a] by (auto split: if_splits)
  then have "uint (- a) = - sint a" by (simp add: uint_word_ariths zmod_zminus1_eq_if)
  then show ?thesis unfolding ucast_of_int by simp
qed

lemma ucast_nonneg: "\<not> sint (a :: 32 word) < 0 \<Longrightarrow> (ucast a :: 64 word) = scast a"
proof -
  assume "\<not> sint a < 0"
  then have "uint a = sint a" using sint_cases [of a] uint_lt2p [of a] by (auto split: if_splits)
  then show ?thesis by (metis scast_eq ucast_eq)
qed

lemma Mult_dbl:
  assumes "Mult a b sg = (h, l)"
  shows "dbl h l = (if sg then scast a * scast b else ucast a * ucast b)"
proof (cases "a = 0 \<or> b = 0")
  case True
  then show ?thesis using assms by (auto simp: Mult_def dbl_def)
next
  case False
  define na nb where "na = (sg \<and> sint a < 0)" and "nb = (sg \<and> sint b < 0)"
  define a1 b1 where "a1 = (if na then - a else a)" and "b1 = (if nb then - b else b)"
  obtain hi lo where loop: "Mult_loop 32 a1 b1 0 0 0 = (hi, lo)" by fastforce
  have prod: "dbl hi lo = ucast a1 * ucast b1"
    using Mult_loop_ok [OF loop] by (simp add: dbl_def take_bit_word_eq_self)
  have hl: "(h, l) = (if na \<noteq> nb then (if NOT lo + 1 = 0 then NOT hi + 1 else NOT hi, NOT lo + 1)
      else (hi, lo))"
    using assms False loop by (auto simp: Mult_def Let_def na_def nb_def a1_def b1_def)
  have "dbl h l = (if na \<noteq> nb then - (ucast a1 * ucast b1) else ucast a1 * ucast b1)"
    using hl dbl_neg [of lo hi] prod by (auto split: if_splits)
  then show ?thesis
    using ucast_neg [of a] ucast_neg [of b] ucast_nonneg [of a] ucast_nonneg [of b]
    by (cases sg) (auto simp: na_def nb_def a1_def b1_def)
qed

lemma dbl_of_int: "dbl h l = word_of_int (uint h * 2 ^ 32 + uint l)"
  unfolding dbl_def ucast_of_int by (simp only: of_int_add of_int_mult of_int_power of_int_numeral mult.commute)

lemma word64_of_int:
  "0 \<le> k \<Longrightarrow> k < 2 ^ 64 \<Longrightarrow> uint (word_of_int k :: 64 word) = k"
  "- (2 ^ 63) \<le> k \<Longrightarrow> k < 2 ^ 63 \<Longrightarrow> sint (word_of_int k :: 64 word) = k"
  by (simp add: uint_word_of_int_eq take_bit_int_eq_self)
    (simp add: sint_sbintrunc' signed_take_bit_int_eq_self)

lemma dbl_uint: "uint (dbl h l) = uint h * 2 ^ 32 + uint l"
proof -
  have b: "0 \<le> uint h" "0 \<le> uint l" "uint h < 2 ^ 32" "uint l < 2 ^ 32"
    using uint_lt2p [of h] uint_lt2p [of l] by simp_all
  then have "0 \<le> uint h * 2 ^ 32 + uint l" "uint h * 2 ^ 32 + uint l < 2 ^ 64" by simp_all
  then show ?thesis unfolding dbl_of_int by (rule word64_of_int)
qed

lemma dbl_sint: "sint (dbl h l) = sint h * 2 ^ 32 + uint l"
proof -
  have b: "0 \<le> uint h" "0 \<le> uint l" "uint h < 2 ^ 32" "uint l < 2 ^ 32"
    using uint_lt2p [of h] uint_lt2p [of l] by simp_all
  have "word_of_int (uint h * 2 ^ 32 + uint l) = (word_of_int (sint h * 2 ^ 32 + uint l) :: 64 word)"
  proof (cases "2 ^ 31 \<le> uint h")
    case True
    then have "uint h * 2 ^ 32 + uint l = sint h * 2 ^ 32 + uint l + 2 ^ 64" by (simp add: sint_cases)
    moreover have "(word_of_int (x + 2 ^ 64) :: 64 word) = word_of_int x" for x
      by (simp only: of_int_add) simp
    ultimately show ?thesis by (simp only:)
  qed (simp add: sint_cases)
  then have "dbl h l = word_of_int (sint h * 2 ^ 32 + uint l)" unfolding dbl_of_int .
  moreover have "- (2 ^ 63) \<le> sint h * 2 ^ 32 + uint l" "sint h * 2 ^ 32 + uint l < 2 ^ 63"
  proof -
    define x y where "x = uint h" and "y = uint l"
    show "- (2 ^ 63) \<le> sint h * 2 ^ 32 + uint l" "sint h * 2 ^ 32 + uint l < 2 ^ 63"
      unfolding sint_cases using b by (auto simp flip: x_def y_def)
  qed
  ultimately show ?thesis by (simp only: word64_of_int)
qed

lemma product_bound:
  assumes "- (2 ^ 31) \<le> x" "x < (2 ^ 31 :: int)" "- (2 ^ 31) \<le> y" "y < 2 ^ 31"
  shows "- (2 ^ 63) \<le> x * y" "x * y < 2 ^ 63"
proof -
  have "\<bar>x * y\<bar> \<le> 2 ^ 31 * 2 ^ 31"
    unfolding abs_mult using assms by (intro mult_mono) auto
  then show "- (2 ^ 63) \<le> x * y" "x * y < 2 ^ 63" by simp_all
qed

text \<open>
  C16. MULT and MULTU leave the exact 64-bit product in the HI and LO registers: the shift-and-add
  loop of \<open>Mult\<close>, with its early exit, its arithmetic right shift of the multiplier and the
  final negation of a double word, computes \<open>a * b\<close> for all operands, signed and unsigned.
\<close>

theorem mult_is_product:
  "(case Mult a b True of (hi, lo) \<Rightarrow> sint hi * 2 ^ 32 + uint lo = sint a * sint b)
   \<and> (case Mult a b False of (hi, lo) \<Rightarrow> uint hi * 2 ^ 32 + uint lo = uint a * uint b)"
proof
  obtain h l where m: "Mult a b True = (h, l)" by fastforce
  have bounds: "- (2 ^ 31) \<le> sint a" "sint a < 2 ^ 31" "- (2 ^ 31) \<le> sint b" "sint b < 2 ^ 31"
    using sint_ge [of a] sint_lt [of a] sint_ge [of b] sint_lt [of b] by simp_all
  have "dbl h l = word_of_int (sint a * sint b)"
    using Mult_dbl [OF m] unfolding scast_eq by (simp only: if_True of_int_mult)
  then have "sint (dbl h l) = sint a * sint b"
    using product_bound [OF bounds] by (simp only: word64_of_int)
  then show "case Mult a b True of (hi, lo) \<Rightarrow> sint hi * 2 ^ 32 + uint lo = sint a * sint b"
    by (simp add: m dbl_sint)
next
  obtain h l where m: "Mult a b False = (h, l)" by fastforce
  have "uint a * uint b < 2 ^ 32 * 2 ^ 32"
    using uint_lt2p [of a] uint_lt2p [of b] by (intro mult_strict_mono) simp_all
  then have b: "0 \<le> uint a * uint b" "uint a * uint b < 2 ^ 64" by simp_all
  have "dbl h l = word_of_int (uint a * uint b)"
    using Mult_dbl [OF m] unfolding ucast_eq by (simp only: if_False of_int_mult)
  then have "uint (dbl h l) = uint a * uint b"
    using b by (simp only: word64_of_int)
  then show "case Mult a b False of (hi, lo) \<Rightarrow> uint hi * 2 ^ 32 + uint lo = uint a * uint b"
    by (simp add: m dbl_uint)
qed

end
