(* ===== verification/Mips.thy ===== *)
theory Mips
  imports Machine Mips_Mult
begin

text \<open>
  machine/mipssim.h and machine/mipssim.cc: the MIPS R2000 interpreter. Opcodes are a datatype
  with the header's names, the decoding tables are lists in the header's order, and
  \<open>OneInstruction\<close> is split along its \<open>switch\<close> into groups of neighbouring cases, in source
  order. The build has \<open>SIM_FIX\<close>, so LWL, LWR, SWL and SWR access the aligned word.

  Signed overflow of \<open>+\<close>, \<open>-\<close> and \<open><<\<close> wraps, and \<open>>>\<close> on a negative \<open>int\<close> copies the sign
  bit, as the compilers the Makefile names do it. \<open>INT_MIN / -1\<close> traps on the host:
  \<open>Arith_Trap\<close>.

  The theorems about these definitions are in the theory that follows (Mips_Laws).
\<close>

section \<open>Opcodes and decoding tables\<close>

datatype (plugins only: code) opcode = OP_ADD | OP_ADDI | OP_ADDIU | OP_ADDU | OP_AND | OP_ANDI | OP_BEQ | OP_BGEZ | OP_BGEZAL | OP_BGTZ 
  | OP_BLEZ | OP_BLTZ | OP_BLTZAL | OP_BNE | OP_DIV | OP_DIVU | OP_J | OP_JAL | OP_JALR | OP_JR 
  | OP_LB | OP_LBU | OP_LH | OP_LHU | OP_LUI | OP_LW | OP_LWL | OP_LWR | OP_MFHI | OP_MFLO 
  | OP_MTHI | OP_MTLO | OP_MULT | OP_MULTU | OP_NOR | OP_OR | OP_ORI | OP_RFE | OP_SB | OP_SH 
  | OP_SLL | OP_SLLV | OP_SLT | OP_SLTI | OP_SLTIU | OP_SLTU | OP_SRA | OP_SRAV | OP_SRL | OP_SRLV 
  | OP_SUB | OP_SUBU | OP_SW | OP_SWL | OP_SWR | OP_XOR | OP_XORI | OP_SYSCALL | OP_UNIMP | OP_RES 
  | SPECIAL | BCOND

datatype format = IFMT | JFMT | RFMT

definition opTable :: "(opcode \<times> format) list" where
  "opTable = [
    (SPECIAL, RFMT), (BCOND, IFMT), (OP_J, JFMT), (OP_JAL, JFMT),
    (OP_BEQ, IFMT), (OP_BNE, IFMT), (OP_BLEZ, IFMT), (OP_BGTZ, IFMT),
    (OP_ADDI, IFMT), (OP_ADDIU, IFMT), (OP_SLTI, IFMT), (OP_SLTIU, IFMT),
    (OP_ANDI, IFMT), (OP_ORI, IFMT), (OP_XORI, IFMT), (OP_LUI, IFMT),
    (OP_UNIMP, IFMT), (OP_UNIMP, IFMT), (OP_UNIMP, IFMT), (OP_UNIMP, IFMT),
    (OP_RES, IFMT), (OP_RES, IFMT), (OP_RES, IFMT), (OP_RES, IFMT),
    (OP_RES, IFMT), (OP_RES, IFMT), (OP_RES, IFMT), (OP_RES, IFMT),
    (OP_RES, IFMT), (OP_RES, IFMT), (OP_RES, IFMT), (OP_RES, IFMT),
    (OP_LB, IFMT), (OP_LH, IFMT), (OP_LWL, IFMT), (OP_LW, IFMT),
    (OP_LBU, IFMT), (OP_LHU, IFMT), (OP_LWR, IFMT), (OP_RES, IFMT),
    (OP_SB, IFMT), (OP_SH, IFMT), (OP_SWL, IFMT), (OP_SW, IFMT),
    (OP_RES, IFMT), (OP_RES, IFMT), (OP_SWR, IFMT), (OP_RES, IFMT),
    (OP_UNIMP, IFMT), (OP_UNIMP, IFMT), (OP_UNIMP, IFMT), (OP_UNIMP, IFMT),
    (OP_RES, IFMT), (OP_RES, IFMT), (OP_RES, IFMT), (OP_RES, IFMT),
    (OP_UNIMP, IFMT), (OP_UNIMP, IFMT), (OP_UNIMP, IFMT), (OP_UNIMP, IFMT),
    (OP_RES, IFMT), (OP_RES, IFMT), (OP_RES, IFMT), (OP_RES, IFMT)]"

definition specialTable :: "opcode list" where
  "specialTable = [
    OP_SLL, OP_RES, OP_SRL, OP_SRA, OP_SLLV, OP_RES, OP_SRLV, OP_SRAV,
    OP_JR, OP_JALR, OP_RES, OP_RES, OP_SYSCALL, OP_UNIMP, OP_RES, OP_RES,
    OP_MFHI, OP_MTHI, OP_MFLO, OP_MTLO, OP_RES, OP_RES, OP_RES, OP_RES,
    OP_MULT, OP_MULTU, OP_DIV, OP_DIVU, OP_RES, OP_RES, OP_RES, OP_RES,
    OP_ADD, OP_ADDU, OP_SUB, OP_SUBU, OP_AND, OP_OR, OP_XOR, OP_NOR,
    OP_RES, OP_RES, OP_SLT, OP_SLTU, OP_RES, OP_RES, OP_RES, OP_RES,
    OP_RES, OP_RES, OP_RES, OP_RES, OP_RES, OP_RES, OP_RES, OP_RES,
    OP_RES, OP_RES, OP_RES, OP_RES, OP_RES, OP_RES, OP_RES, OP_RES]"

record Instruction =
  ins_value :: "32 word"
  ins_opCode :: opcode
  ins_rs :: nat
  ins_rt :: nat
  ins_rd :: nat
  ins_extra :: "32 word"

text \<open>The five-bit field of an instruction word that starts at bit \<open>k\<close>.\<close>

definition field5 :: "32 word \<Rightarrow> nat \<Rightarrow> nat" where
  "field5 value k = unat (drop_bit k value AND 0x1f)"

definition Instruction_Decode :: "32 word \<Rightarrow> Instruction" where
  "Instruction_Decode value =
     (let (op0, fmt) = opTable ! unat (drop_bit 26 value AND 0x3f);
          extra = (if fmt = IFMT then
                     let e = value AND 0xffff in if e AND 0x8000 \<noteq> 0 then e OR 0xffff0000 else e
                   else if fmt = RFMT then drop_bit 6 value AND 0x1f
                   else value AND 0x3ffffff);
          op = (if op0 = SPECIAL then specialTable ! unat (value AND 0x3f)
                else if op0 = BCOND then
                  let i = value AND 0x1f0000 in
                  if i = 0 then OP_BLTZ else if i = 0x10000 then OP_BGEZ
                  else if i = 0x100000 then OP_BLTZAL else if i = 0x110000 then OP_BGEZAL
                  else OP_UNIMP
                else op0)
      in \<lparr>ins_value = value, ins_opCode = op, ins_rs = field5 value 21, ins_rt = field5 value 16,
          ins_rd = field5 value 11, ins_extra = extra\<rparr>)"

section \<open>Execution\<close>

text \<open>
  A case of the \<open>switch\<close> either falls out of it (\<open>Advance\<close>: the pending load and the
  program counter to install) or returns from \<open>OneInstruction\<close> (\<open>Leave\<close>).
\<close>

datatype 'm exec = Advance "32 word" "32 word" "32 word" 'm | Leave 'm

definition rg :: "'z machine_scheme \<Rightarrow> nat \<Rightarrow> 32 word" where
  "rg m i = m_registers m ! i"

definition set_rg :: "'z machine_scheme \<Rightarrow> nat \<Rightarrow> 32 word \<Rightarrow> 'z machine_scheme" where
  "set_rg m i v = m\<lparr>m_registers := (m_registers m)[i := v]\<rparr>"

definition SIGN_BIT :: "32 word" where "SIGN_BIT = 0x80000000"

definition R31 :: nat where "R31 = 31"

definition IndexToAddr :: "32 word \<Rightarrow> 32 word" where "IndexToAddr x = push_bit 2 x"

definition raise_and_leave :: "'z machine_scheme handler \<Rightarrow> 'z machine_scheme \<Rightarrow> ExceptionType \<Rightarrow> 32 word
    \<Rightarrow> 'z machine_scheme exec res" where
  "raise_and_leave hdl m which addr =
     bindE (Machine_RaiseException hdl m which addr) (\<lambda>m'. Inr (Leave m'))"

definition exec_arith :: "'z machine_scheme handler \<Rightarrow> Instruction \<Rightarrow> 32 word \<Rightarrow> 'z machine_scheme
    \<Rightarrow> 'z machine_scheme exec res" where
  "exec_arith hdl instr pcAfter m =
     (let rs = rg m (ins_rs instr); rt = rg m (ins_rt instr); extra = ins_extra instr;
          put = (\<lambda>d v. Inr (Advance 0 0 pcAfter (set_rg m d v)))
      in case ins_opCode instr of
        OP_ADD \<Rightarrow>
          let sum = rs + rt in
          if \<not> ((rs XOR rt) AND SIGN_BIT \<noteq> 0) \<and> (rs XOR sum) AND SIGN_BIT \<noteq> 0
          then raise_and_leave hdl m OverflowException 0
          else put (ins_rd instr) sum
      | OP_ADDI \<Rightarrow>
          let sum = rs + extra in
          if \<not> ((rs XOR extra) AND SIGN_BIT \<noteq> 0) \<and> (extra XOR sum) AND SIGN_BIT \<noteq> 0
          then raise_and_leave hdl m OverflowException 0
          else put (ins_rt instr) sum
      | OP_ADDIU \<Rightarrow> put (ins_rt instr) (rs + extra)
      | OP_ADDU \<Rightarrow> put (ins_rd instr) (rs + rt)
      | OP_AND \<Rightarrow> put (ins_rd instr) (rs AND rt)
      | OP_ANDI \<Rightarrow> put (ins_rt instr) (rs AND (extra AND 0xffff))
      | _ \<Rightarrow> Inl Assert_Failed)"

definition exec_branch :: "Instruction \<Rightarrow> 32 word \<Rightarrow> 'z machine_scheme \<Rightarrow> 'z machine_scheme exec res" where
  "exec_branch instr pcAfter m =
     (let rs = (\<lambda>m. rg m (ins_rs instr)); rt = rg m (ins_rt instr);
          link = set_rg m R31 (rg m NextPCReg + 4);
          target = rg m NextPCReg + IndexToAddr (ins_extra instr);
          branch = (\<lambda>m taken. Inr (Advance 0 0 (if taken then target else pcAfter) m))
      in case ins_opCode instr of
        OP_BEQ \<Rightarrow> branch m (rs m = rt)
      | OP_BGEZAL \<Rightarrow> branch link (\<not> (rs link AND SIGN_BIT \<noteq> 0))
      | OP_BGEZ \<Rightarrow> branch m (\<not> (rs m AND SIGN_BIT \<noteq> 0))
      | OP_BGTZ \<Rightarrow> branch m (sint (rs m) > 0)
      | OP_BLEZ \<Rightarrow> branch m (sint (rs m) \<le> 0)
      | OP_BLTZAL \<Rightarrow> branch link (rs link AND SIGN_BIT \<noteq> 0)
      | OP_BLTZ \<Rightarrow> branch m (rs m AND SIGN_BIT \<noteq> 0)
      | OP_BNE \<Rightarrow> branch m (rs m \<noteq> rt)
      | _ \<Rightarrow> Inl Assert_Failed)"

definition exec_divide :: "Instruction \<Rightarrow> 32 word \<Rightarrow> 'z machine_scheme \<Rightarrow> 'z machine_scheme exec res" where
  "exec_divide instr pcAfter m =
     (let rs = rg m (ins_rs instr); rt = rg m (ins_rt instr);
          put = (\<lambda>lo hi. Inr (Advance 0 0 pcAfter (set_rg (set_rg m LoReg lo) HiReg hi)))
      in case ins_opCode instr of
        OP_DIV \<Rightarrow>
          if rt = 0 then put 0 0
          else if rs = SIGN_BIT \<and> rt = - 1 then Inl Arith_Trap
          else put (word_of_int (sint rs sdiv sint rt)) (word_of_int (sint rs smod sint rt))
      | OP_DIVU \<Rightarrow> if rt = 0 then put 0 0 else put (rs div rt) (rs mod rt)
      | _ \<Rightarrow> Inl Assert_Failed)"

definition exec_jump :: "Instruction \<Rightarrow> 32 word \<Rightarrow> 'z machine_scheme \<Rightarrow> 'z machine_scheme exec res" where
  "exec_jump instr pcAfter m =
     (let ret = rg m NextPCReg + 4;
          target = (pcAfter AND 0xf0000000) OR IndexToAddr (ins_extra instr)
      in case ins_opCode instr of
        OP_JAL \<Rightarrow> Inr (Advance 0 0 target (set_rg m R31 ret))
      | OP_J \<Rightarrow> Inr (Advance 0 0 target m)
      | OP_JALR \<Rightarrow> let m1 = set_rg m (ins_rd instr) ret in Inr (Advance 0 0 (rg m1 (ins_rs instr)) m1)
      | OP_JR \<Rightarrow> Inr (Advance 0 0 (rg m (ins_rs instr)) m)
      | _ \<Rightarrow> Inl Assert_Failed)"

text \<open>\<open>if (!ReadMem(...)) return;\<close> and \<open>if (!WriteMem(...)) return;\<close>\<close>

definition load_or_leave :: "'z machine_scheme handler \<Rightarrow> 'z machine_scheme \<Rightarrow> 32 word \<Rightarrow> nat
    \<Rightarrow> (32 word \<Rightarrow> 'z machine_scheme \<Rightarrow> 'z machine_scheme exec res) \<Rightarrow> 'z machine_scheme exec res" where
  "load_or_leave hdl m addr sz k =
     bindE (Machine_ReadMem hdl m addr sz) (\<lambda>(r, m1).
       case r of None \<Rightarrow> Inr (Leave m1) | Some v \<Rightarrow> k v m1)"

definition store_or_leave :: "'z machine_scheme handler \<Rightarrow> 'z machine_scheme \<Rightarrow> 32 word \<Rightarrow> nat \<Rightarrow> 32 word
    \<Rightarrow> 32 word \<Rightarrow> 'z machine_scheme exec res" where
  "store_or_leave hdl m addr sz value pcAfter =
     bindE (Machine_WriteMem hdl m addr sz value) (\<lambda>(ok, m1).
       if ok then Inr (Advance 0 0 pcAfter m1) else Inr (Leave m1))"

definition extend_byte :: "bool \<Rightarrow> 32 word \<Rightarrow> 32 word" where
  "extend_byte sx value = (if value AND 0x80 \<noteq> 0 \<and> sx then value OR 0xffffff00 else value AND 0xff)"

definition extend_half :: "bool \<Rightarrow> 32 word \<Rightarrow> 32 word" where
  "extend_half sx value = (if value AND 0x8000 \<noteq> 0 \<and> sx then value OR 0xffff0000 else value AND 0xffff)"

definition exec_load :: "'z machine_scheme handler \<Rightarrow> Instruction \<Rightarrow> 32 word \<Rightarrow> 'z machine_scheme
    \<Rightarrow> 'z machine_scheme exec res" where
  "exec_load hdl instr pcAfter m =
     (let tmp = rg m (ins_rs instr) + ins_extra instr;
          pend = (\<lambda>v m1. Inr (Advance (of_nat (ins_rt instr)) v pcAfter m1));
          op = ins_opCode instr
      in case op of
        OP_LB \<Rightarrow> load_or_leave hdl m tmp 1 (\<lambda>v. pend (extend_byte True v))
      | OP_LBU \<Rightarrow> load_or_leave hdl m tmp 1 (\<lambda>v. pend (extend_byte False v))
      | OP_LH \<Rightarrow>
          if tmp AND 1 \<noteq> 0 then raise_and_leave hdl m AddressErrorException tmp
          else load_or_leave hdl m tmp 2 (\<lambda>v. pend (extend_half True v))
      | OP_LHU \<Rightarrow>
          if tmp AND 1 \<noteq> 0 then raise_and_leave hdl m AddressErrorException tmp
          else load_or_leave hdl m tmp 2 (\<lambda>v. pend (extend_half False v))
      | OP_LUI \<Rightarrow> Inr (Advance 0 0 pcAfter (set_rg m (ins_rt instr) (push_bit 16 (ins_extra instr))))
      | OP_LW \<Rightarrow>
          if tmp AND 3 \<noteq> 0 then raise_and_leave hdl m AddressErrorException tmp
          else load_or_leave hdl m tmp 4 pend
      | _ \<Rightarrow> Inl Assert_Failed)"

text \<open>
  LWL and LWR merge the bytes of the aligned word that belong to an unaligned one into the
  register, which may have a load of its own still pending. \<open>b\<close> is \<open>tmp & 0x3\<close>.
\<close>

definition pending_value :: "'z machine_scheme \<Rightarrow> nat \<Rightarrow> 32 word" where
  "pending_value m rt = (if rg m LoadReg = of_nat rt then rg m LoadValueReg else rg m rt)"

definition merge_LWL :: "32 word \<Rightarrow> 32 word \<Rightarrow> 32 word \<Rightarrow> 32 word" where
  "merge_LWL b old value =
     (if 3 - b = 0 then value
      else if 3 - b = 1 then (old AND 0xff) OR push_bit 8 value
      else if 3 - b = 2 then (old AND 0xffff) OR push_bit 16 value
      else if 3 - b = 3 then (old AND 0xffffff) OR push_bit 24 value
      else old)"

definition exec_LWL :: "'z machine_scheme handler \<Rightarrow> Instruction \<Rightarrow> 32 word \<Rightarrow> 'z machine_scheme
    \<Rightarrow> 'z machine_scheme exec res" where
  "exec_LWL hdl instr pcAfter m =
     (let tmp = rg m (ins_rs instr) + ins_extra instr; b = tmp AND 3
      in load_or_leave hdl m (tmp - b) 4 (\<lambda>value m1.
           Inr (Advance (of_nat (ins_rt instr)) (merge_LWL b (pending_value m1 (ins_rt instr)) value)
                  pcAfter m1)))"

definition merge_LWR :: "32 word \<Rightarrow> 32 word \<Rightarrow> 32 word \<Rightarrow> 32 word" where
  "merge_LWR b old value =
     (if 3 - b = 0 then (old AND 0xffffff00) OR (signed_drop_bit 24 value AND 0xff)
      else if 3 - b = 1 then (old AND 0xffff0000) OR (signed_drop_bit 16 value AND 0xffff)
      else if 3 - b = 2 then (old AND 0xff000000) OR (signed_drop_bit 8 value AND 0xffffff)
      else if 3 - b = 3 then value
      else old)"

definition exec_LWR :: "'z machine_scheme handler \<Rightarrow> Instruction \<Rightarrow> 32 word \<Rightarrow> 'z machine_scheme
    \<Rightarrow> 'z machine_scheme exec res" where
  "exec_LWR hdl instr pcAfter m =
     (let tmp = rg m (ins_rs instr) + ins_extra instr; b = tmp AND 3
      in load_or_leave hdl m (tmp - b) 4 (\<lambda>value m1.
           Inr (Advance (of_nat (ins_rt instr)) (merge_LWR b (pending_value m1 (ins_rt instr)) value)
                  pcAfter m1)))"

definition exec_hilo :: "Instruction \<Rightarrow> 32 word \<Rightarrow> 'z machine_scheme \<Rightarrow> 'z machine_scheme exec res" where
  "exec_hilo instr pcAfter m =
     (let rs = rg m (ins_rs instr); rt = rg m (ins_rt instr);
          put = (\<lambda>d v. Inr (Advance 0 0 pcAfter (set_rg m d v)));
          product = (\<lambda>(hi, lo). Inr (Advance 0 0 pcAfter (set_rg (set_rg m HiReg hi) LoReg lo)))
      in case ins_opCode instr of
        OP_MFHI \<Rightarrow> put (ins_rd instr) (rg m HiReg)
      | OP_MFLO \<Rightarrow> put (ins_rd instr) (rg m LoReg)
      | OP_MTHI \<Rightarrow> put HiReg rs
      | OP_MTLO \<Rightarrow> put LoReg rs
      | OP_MULT \<Rightarrow> product (Mult rs rt True)
      | OP_MULTU \<Rightarrow> product (Mult rs rt False)
      | OP_NOR \<Rightarrow> put (ins_rd instr) (NOT (rs OR rt))
      | OP_OR \<Rightarrow> put (ins_rd instr) (rs OR rt)
      | OP_ORI \<Rightarrow> put (ins_rt instr) (rs OR (ins_extra instr AND 0xffff))
      | _ \<Rightarrow> Inl Assert_Failed)"

text \<open>SB, SH and SW; the operands are read before the memory access can trap.\<close>

definition exec_store :: "'z machine_scheme handler \<Rightarrow> Instruction \<Rightarrow> 32 word \<Rightarrow> 'z machine_scheme
    \<Rightarrow> 'z machine_scheme exec res" where
  "exec_store hdl instr pcAfter m =
     (let addr = rg m (ins_rs instr) + ins_extra instr; rt = rg m (ins_rt instr)
      in case ins_opCode instr of
        OP_SB \<Rightarrow> store_or_leave hdl m addr 1 rt pcAfter
      | OP_SH \<Rightarrow> store_or_leave hdl m addr 2 rt pcAfter
      | OP_SW \<Rightarrow> store_or_leave hdl m addr 4 rt pcAfter
      | _ \<Rightarrow> Inl Assert_Failed)"

definition exec_shift :: "Instruction \<Rightarrow> 32 word \<Rightarrow> 'z machine_scheme \<Rightarrow> 'z machine_scheme exec res" where
  "exec_shift instr pcAfter m =
     (let rs = rg m (ins_rs instr); rt = rg m (ins_rt instr); extra = ins_extra instr;
          put = (\<lambda>d v. Inr (Advance 0 0 pcAfter (set_rg m d v)))
      in case ins_opCode instr of
        OP_SLL \<Rightarrow> put (ins_rd instr) (push_bit (unat extra) rt)
      | OP_SLLV \<Rightarrow> put (ins_rd instr) (push_bit (unat (rs AND 0x1f)) rt)
      | OP_SLT \<Rightarrow> put (ins_rd instr) (if sint rs < sint rt then 1 else 0)
      | OP_SLTI \<Rightarrow> put (ins_rt instr) (if sint rs < sint extra then 1 else 0)
      | OP_SLTIU \<Rightarrow> put (ins_rt instr) (if rs < extra then 1 else 0)
      | OP_SLTU \<Rightarrow> put (ins_rd instr) (if rs < rt then 1 else 0)
      | OP_SRA \<Rightarrow> put (ins_rd instr) (signed_drop_bit (unat extra) rt)
      | OP_SRAV \<Rightarrow> put (ins_rd instr) (signed_drop_bit (unat (rs AND 0x1f)) rt)
      | OP_SRL \<Rightarrow> put (ins_rd instr) (signed_drop_bit (unat extra) rt)
      | OP_SRLV \<Rightarrow> put (ins_rd instr) (signed_drop_bit (unat (rs AND 0x1f)) rt)
      | _ \<Rightarrow> Inl Assert_Failed)"

definition exec_subtract :: "'z machine_scheme handler \<Rightarrow> Instruction \<Rightarrow> 32 word \<Rightarrow> 'z machine_scheme
    \<Rightarrow> 'z machine_scheme exec res" where
  "exec_subtract hdl instr pcAfter m =
     (let rs = rg m (ins_rs instr); rt = rg m (ins_rt instr);
          put = (\<lambda>d v. Inr (Advance 0 0 pcAfter (set_rg m d v)))
      in case ins_opCode instr of
        OP_SUB \<Rightarrow>
          let diff = rs - rt in
          if (rs XOR rt) AND SIGN_BIT \<noteq> 0 \<and> (rs XOR diff) AND SIGN_BIT \<noteq> 0
          then raise_and_leave hdl m OverflowException 0
          else put (ins_rd instr) diff
      | OP_SUBU \<Rightarrow> put (ins_rd instr) (rs - rt)
      | _ \<Rightarrow> Inl Assert_Failed)"

definition merge_SWL :: "32 word \<Rightarrow> 32 word \<Rightarrow> 32 word \<Rightarrow> 32 word" where
  "merge_SWL b rt value =
     (if 3 - b = 0 then rt
      else if 3 - b = 1 then (value AND 0xff000000) OR (signed_drop_bit 8 rt AND 0xffffff)
      else if 3 - b = 2 then (value AND 0xffff0000) OR (signed_drop_bit 16 rt AND 0xffff)
      else if 3 - b = 3 then (value AND 0xffffff00) OR (signed_drop_bit 24 rt AND 0xff)
      else value)"

definition exec_SWL :: "'z machine_scheme handler \<Rightarrow> Instruction \<Rightarrow> 32 word \<Rightarrow> 'z machine_scheme
    \<Rightarrow> 'z machine_scheme exec res" where
  "exec_SWL hdl instr pcAfter m =
     (let tmp = rg m (ins_rs instr) + ins_extra instr; b = tmp AND 3
      in load_or_leave hdl m (tmp - b) 4 (\<lambda>value m1.
           store_or_leave hdl m1 (tmp - b) 4 (merge_SWL b (rg m1 (ins_rt instr)) value) pcAfter))"

definition merge_SWR :: "32 word \<Rightarrow> 32 word \<Rightarrow> 32 word \<Rightarrow> 32 word" where
  "merge_SWR b rt value =
     (if 3 - b = 0 then (value AND 0xffffff) OR push_bit 24 rt
      else if 3 - b = 1 then (value AND 0xffff) OR push_bit 16 rt
      else if 3 - b = 2 then (value AND 0xff) OR push_bit 8 rt
      else if 3 - b = 3 then rt
      else value)"

definition exec_SWR :: "'z machine_scheme handler \<Rightarrow> Instruction \<Rightarrow> 32 word \<Rightarrow> 'z machine_scheme
    \<Rightarrow> 'z machine_scheme exec res" where
  "exec_SWR hdl instr pcAfter m =
     (let tmp = rg m (ins_rs instr) + ins_extra instr; b = tmp AND 3
      in load_or_leave hdl m (tmp - b) 4 (\<lambda>value m1.
           store_or_leave hdl m1 (tmp - b) 4 (merge_SWR b (rg m1 (ins_rt instr)) value) pcAfter))"

definition exec_other :: "'z machine_scheme handler \<Rightarrow> Instruction \<Rightarrow> 32 word \<Rightarrow> 'z machine_scheme
    \<Rightarrow> 'z machine_scheme exec res" where
  "exec_other hdl instr pcAfter m =
     (let rs = rg m (ins_rs instr); rt = rg m (ins_rt instr);
          put = (\<lambda>d v. Inr (Advance 0 0 pcAfter (set_rg m d v)))
      in case ins_opCode instr of
        OP_SYSCALL \<Rightarrow> raise_and_leave hdl m SyscallException 0
      | OP_XOR \<Rightarrow> put (ins_rd instr) (rs XOR rt)
      | OP_XORI \<Rightarrow> put (ins_rt instr) (rs XOR (ins_extra instr AND 0xffff))
      | OP_RES \<Rightarrow> raise_and_leave hdl m IllegalInstrException 0
      | OP_UNIMP \<Rightarrow> raise_and_leave hdl m IllegalInstrException 0
      | _ \<Rightarrow> Inl Assert_Failed)"

text \<open>The \<open>switch\<close> itself: which group a decoded opcode belongs to.\<close>

definition exec_switch :: "'z machine_scheme handler \<Rightarrow> Instruction \<Rightarrow> 32 word \<Rightarrow> 'z machine_scheme
    \<Rightarrow> 'z machine_scheme exec res" where
  "exec_switch hdl instr pcAfter m =
     (let op = ins_opCode instr in
      if op \<in> {OP_ADD, OP_ADDI, OP_ADDIU, OP_ADDU, OP_AND, OP_ANDI} then exec_arith hdl instr pcAfter m
      else if op \<in> {OP_BEQ, OP_BGEZAL, OP_BGEZ, OP_BGTZ, OP_BLEZ, OP_BLTZAL, OP_BLTZ, OP_BNE}
      then exec_branch instr pcAfter m
      else if op \<in> {OP_DIV, OP_DIVU} then exec_divide instr pcAfter m
      else if op \<in> {OP_JAL, OP_J, OP_JALR, OP_JR} then exec_jump instr pcAfter m
      else if op \<in> {OP_LB, OP_LBU, OP_LH, OP_LHU, OP_LUI, OP_LW} then exec_load hdl instr pcAfter m
      else if op = OP_LWL then exec_LWL hdl instr pcAfter m
      else if op = OP_LWR then exec_LWR hdl instr pcAfter m
      else if op \<in> {OP_MFHI, OP_MFLO, OP_MTHI, OP_MTLO, OP_MULT, OP_MULTU, OP_NOR, OP_OR, OP_ORI}
      then exec_hilo instr pcAfter m
      else if op \<in> {OP_SB, OP_SH, OP_SW} then exec_store hdl instr pcAfter m
      else if op \<in> {OP_SLL, OP_SLLV, OP_SLT, OP_SLTI, OP_SLTIU, OP_SLTU, OP_SRA, OP_SRAV, OP_SRL, OP_SRLV}
      then exec_shift instr pcAfter m
      else if op \<in> {OP_SUB, OP_SUBU} then exec_subtract hdl instr pcAfter m
      else if op = OP_SWL then exec_SWL hdl instr pcAfter m
      else if op = OP_SWR then exec_SWR hdl instr pcAfter m
      else exec_other hdl instr pcAfter m)"

definition Machine_OneInstruction :: "'z machine_scheme handler \<Rightarrow> 'z machine_scheme \<Rightarrow> 'z machine_scheme res" where
  "Machine_OneInstruction hdl m =
     bindE (Machine_ReadMem hdl m (rg m PCReg) 4) (\<lambda>(fetched, m1).
     case fetched of
       None \<Rightarrow> Inr m1
     | Some raw \<Rightarrow>
         let instr = Instruction_Decode raw in
         bindE (exec_switch hdl instr (rg m1 NextPCReg + 4) m1) (\<lambda>r.
         case r of
           Leave m2 \<Rightarrow> Inr m2
         | Advance nextLoadReg nextLoadValue pcAfter m2 \<Rightarrow>
             bindE (Machine_DelayedLoad m2 nextLoadReg nextLoadValue) (\<lambda>m3.
             let m4 = set_rg m3 PrevPCReg (rg m3 PCReg);
                 m5 = set_rg m4 PCReg (rg m4 NextPCReg)
             in Inr (set_rg m5 NextPCReg pcAfter))))"

end
