(* ===== verification/Mips_Laws.thy ===== *)
theory Mips_Laws
  imports Mips
begin

text \<open>
  Theorems about the interpreter of Mips: decoding covers every instruction word, ADD, ADDI and
  SUB trap exactly on signed overflow, the unaligned loads and stores move the bytes they should,
  the right shifts are characterised, and every instruction keeps the processor state well-formed
  whatever the kernel does in its exception handler, as long as the handler does too (locale
  \<open>handler_contract\<close>).
\<close>

section \<open>Decoding\<close>

lemma field5_less [simp]: "field5 w k < 32"
proof -
  have "drop_bit k w AND 0x1f \<le> 0x1f" by (rule word_and_le1)
  then show ?thesis by (simp add: field5_def word_le_nat_alt)
qed

lemma and_less: "(w :: 32 word) AND 0x3f < 64"
proof -
  have "w AND 0x3f \<le> 0x3f" by (rule word_and_le1)
  then show ?thesis by (simp add: word_le_nat_alt word_less_nat_alt)
qed

definition implemented :: "opcode \<Rightarrow> bool" where
  "implemented op \<longleftrightarrow> op \<notin> {SPECIAL, BCOND, OP_RFE}"

lemma opTable_ops: "list_all (\<lambda>(op, fmt). op \<noteq> OP_RFE \<and> (fmt = RFMT \<longleftrightarrow> op = SPECIAL)) opTable"
  "length opTable = 64"
  by (simp_all add: opTable_def)

lemma specialTable_ops: "list_all implemented specialTable" "length specialTable = 64"
  by (simp_all add: specialTable_def implemented_def)

lemma opTable_row: "opTable ! unat ((w :: 32 word) AND 0x3f) \<in> set opTable"
  using and_less [of w] opTable_ops(2) by (intro nth_mem) (simp add: word_less_nat_alt)

lemma specialTable_row: "specialTable ! unat ((w :: 32 word) AND 0x3f) \<in> set specialTable"
  using and_less [of w] specialTable_ops(2) by (intro nth_mem) (simp add: word_less_nat_alt)

lemma sign_extend_16:
  "(let e = (w :: 32 word) AND 0xffff in if e AND 0x8000 \<noteq> 0 then e OR 0xffff0000 else e)
    = scast (ucast w :: 16 word)"
proof -
  have m: "(0xffff :: 32 word) = mask 16" "(0xffff0000 :: 32 word) = NOT (mask 16)"
    "(0x8000 :: 32 word) = push_bit 15 1"
    by (simp_all add: mask_eq_exp_minus_1)
  have top: "(w AND mask 16) AND push_bit 15 1 \<noteq> 0 \<longleftrightarrow> bit w 15"
    unfolding bit_iff_and_push_bit_not_eq_0 [symmetric] by (simp add: bit_and_iff bit_mask_iff)
  have n16: "n < 16 \<longleftrightarrow> n \<le> 15" for n :: nat by auto
  show ?thesis
    unfolding m top Let_def
    by (rule bit_word_eqI)
      (auto simp: bit_and_iff bit_or_iff bit_not_iff bit_mask_iff bit_signed_iff bit_ucast_iff
        min_def n16 dest: le_antisym)
qed

text \<open>
  C17. Every 32-bit word decodes: the opcode is one that the \<open>switch\<close> of \<open>OneInstruction\<close> has
  a case for (so its \<open>default: ASSERT(FALSE)\<close> is unreachable), the three register numbers are
  general registers, and the immediate is the sign-extended low half word, the five-bit shift
  amount or the 26-bit jump target, according to the format of the opcode.
\<close>

theorem decode_total:
  "implemented (ins_opCode (Instruction_Decode w))
   \<and> ins_rs (Instruction_Decode w) < NumGPRegs \<and> ins_rt (Instruction_Decode w) < NumGPRegs
   \<and> ins_rd (Instruction_Decode w) < NumGPRegs
   \<and> ins_extra (Instruction_Decode w) =
       (case snd (opTable ! unat (drop_bit 26 w AND 0x3f)) of
          IFMT \<Rightarrow> scast (ucast w :: 16 word)
        | RFMT \<Rightarrow> of_nat (field5 w 6)
        | JFMT \<Rightarrow> take_bit 26 w)"
proof -
  obtain op fmt where row: "opTable ! unat (drop_bit 26 w AND 0x3f) = (op, fmt)" by fastforce
  have op: "op \<noteq> OP_RFE" "fmt = RFMT \<longleftrightarrow> op = SPECIAL"
    using opTable_ops(1) opTable_row [of "drop_bit 26 w"] row by (auto simp: list_all_iff)
  have special: "implemented (specialTable ! unat (w AND 0x3f))"
    using specialTable_ops(1) specialTable_row [of w] by (auto simp: list_all_iff)
  have "implemented (ins_opCode (Instruction_Decode w))"
    using op special by (auto simp: Instruction_Decode_def row Let_def implemented_def)
  moreover have "w AND 0x3ffffff = take_bit 26 w"
    by (simp add: take_bit_eq_mask mask_eq_exp_minus_1)
  then have "ins_extra (Instruction_Decode w) =
       (case fmt of IFMT \<Rightarrow> scast (ucast w :: 16 word) | RFMT \<Rightarrow> of_nat (field5 w 6)
        | JFMT \<Rightarrow> take_bit 26 w)"
    using sign_extend_16 [of w]
    by (cases fmt) (simp_all add: Instruction_Decode_def row field5_def Let_def)
  moreover have "ins_rs (Instruction_Decode w) < 32 \<and> ins_rt (Instruction_Decode w) < 32
      \<and> ins_rd (Instruction_Decode w) < 32"
    by (simp add: Instruction_Decode_def row Let_def)
  ultimately show ?thesis by (simp add: row)
qed

section \<open>Overflow\<close>

lemma sign_bit: "(x :: 32 word) AND SIGN_BIT \<noteq> 0 \<longleftrightarrow> sint x < 0"
proof -
  have "x AND SIGN_BIT \<noteq> 0 \<longleftrightarrow> 2 ^ 31 \<le> uint x"
    unfolding SIGN_BIT_def top_bit top_bit_uint ..
  then show ?thesis using uint_lt2p [of x] by (simp add: sint_cases)
qed

lemma sign_bit_xor: "((x :: 32 word) XOR y) AND SIGN_BIT \<noteq> 0 \<longleftrightarrow> (sint x < 0) \<noteq> (sint y < 0)"
  using top_bit [of "x XOR y"] top_bit [of x] top_bit [of y] sign_bit [of x] sign_bit [of y]
  by (simp add: SIGN_BIT_def bit_xor_iff)

lemma sint_bounds: "- (2 ^ 31) \<le> sint (x :: 32 word)" "sint (x :: 32 word) < 2 ^ 31"
  using sint_ge [of x] sint_lt [of x] by simp_all

lemma sint_word_of_int_32: "sint (word_of_int k :: 32 word) = (k + 2 ^ 31) mod 2 ^ 32 - 2 ^ 31"
  by (simp add: sint_sbintrunc' signed_take_bit_eq_take_bit_shift take_bit_eq_mod)

lemma wrap_cases:
  assumes "- (2 ^ 32) \<le> k" "k < (2 ^ 32 :: int)"
  shows "sint (word_of_int k :: 32 word) =
    (if k < - (2 ^ 31) then k + 2 ^ 32 else if k < 2 ^ 31 then k else k - 2 ^ 32)"
proof -
  have "(k + 2 ^ 31) mod 2 ^ 32 = k + 2 ^ 31 + 2 ^ 32" if "k < - (2 ^ 31)"
    using that assms by (intro int_mod_pos_eq [of _ "2 ^ 32" "- 1"]) simp_all
  moreover have "(k + 2 ^ 31) mod 2 ^ 32 = k + 2 ^ 31 - 2 ^ 32" if "2 ^ 31 \<le> k"
    using that assms by (intro int_mod_pos_eq [of _ "2 ^ 32" 1]) simp_all
  moreover have "(k + 2 ^ 31) mod 2 ^ 32 = k + 2 ^ 31" if "- (2 ^ 31) \<le> k" "k < 2 ^ 31"
    using that by simp
  ultimately show ?thesis unfolding sint_word_of_int_32 by simp
qed

lemma add_overflow:
  fixes x y :: "32 word"
  shows "\<not> ((x XOR y) AND SIGN_BIT \<noteq> 0) \<and> (x XOR (x + y)) AND SIGN_BIT \<noteq> 0 \<longleftrightarrow> \<not> int_ok (sint x + sint y)"
proof -
  have "sint (x + y) = sint (word_of_int (sint x + sint y) :: 32 word)" by simp
  also have "\<dots> = (if sint x + sint y < - (2 ^ 31) then sint x + sint y + 2 ^ 32
      else if sint x + sint y < 2 ^ 31 then sint x + sint y else sint x + sint y - 2 ^ 32)"
    using sint_bounds [of x] sint_bounds [of y] by (intro wrap_cases) simp_all
  finally show ?thesis
    unfolding sign_bit_xor int_ok_def using sint_bounds [of x] sint_bounds [of y]
    by (auto split: if_splits)
qed

lemma sub_overflow:
  fixes x y :: "32 word"
  shows "(x XOR y) AND SIGN_BIT \<noteq> 0 \<and> (x XOR (x - y)) AND SIGN_BIT \<noteq> 0 \<longleftrightarrow> \<not> int_ok (sint x - sint y)"
proof -
  have "sint (x - y) = sint (word_of_int (sint x - sint y) :: 32 word)" by simp
  also have "\<dots> = (if sint x - sint y < - (2 ^ 31) then sint x - sint y + 2 ^ 32
      else if sint x - sint y < 2 ^ 31 then sint x - sint y else sint x - sint y - 2 ^ 32)"
    using sint_bounds [of x] sint_bounds [of y] by (intro wrap_cases) simp_all
  finally show ?thesis
    unfolding sign_bit_xor int_ok_def using sint_bounds [of x] sint_bounds [of y]
    by (auto split: if_splits)
qed

text \<open>
  C18. ADD, ADDI and SUB trap exactly when the mathematical result does not fit in 32 bits: the
  sign tests of the code raise an overflow exception, and change no register, if and only if the
  exact signed result is out of range, and otherwise the exact result is stored.
\<close>

theorem add_sub_trap_iff_overflow:
  assumes "(ins_opCode instr, d, exact) \<in>
     {(OP_ADD, ins_rd instr, sint (rg m (ins_rs instr)) + sint (rg m (ins_rt instr))),
      (OP_ADDI, ins_rt instr, sint (rg m (ins_rs instr)) + sint (ins_extra instr)),
      (OP_SUB, ins_rd instr, sint (rg m (ins_rs instr)) - sint (rg m (ins_rt instr)))}"
  shows "exec_switch hdl instr pcAfter m =
     (if int_ok exact then Inr (Advance 0 0 pcAfter (set_rg m d (word_of_int exact)))
      else raise_and_leave hdl m OverflowException 0)"
proof -
  consider (ADD) "ins_opCode instr = OP_ADD" "d = ins_rd instr"
      "exact = sint (rg m (ins_rs instr)) + sint (rg m (ins_rt instr))"
    | (ADDI) "ins_opCode instr = OP_ADDI" "d = ins_rt instr"
      "exact = sint (rg m (ins_rs instr)) + sint (ins_extra instr)"
    | (SUB) "ins_opCode instr = OP_SUB" "d = ins_rd instr"
      "exact = sint (rg m (ins_rs instr)) - sint (rg m (ins_rt instr))"
    using assms by auto
  then show ?thesis
  proof cases
    case ADD
    with add_overflow [of "rg m (ins_rs instr)" "rg m (ins_rt instr)"] show ?thesis
      by (auto simp: exec_switch_def exec_arith_def Let_def)
  next
    case ADDI
    with add_overflow [of "ins_extra instr" "rg m (ins_rs instr)"] show ?thesis
      by (auto simp: exec_switch_def exec_arith_def Let_def add.commute xor.commute)
  next
    case SUB
    with sub_overflow [of "rg m (ins_rs instr)" "rg m (ins_rt instr)"] show ?thesis
      by (auto simp: exec_switch_def exec_subtract_def Let_def)
  qed
qed

definition example_add :: Instruction where
  "example_add = \<lparr>ins_value = 0x00221820, ins_opCode = OP_ADD, ins_rs = 1, ins_rt = 2, ins_rd = 3,
     ins_extra = 0\<rparr>"

definition example_add_machine :: machine where
  "example_add_machine = set_rg (set_rg example_machine 1 0x7fffffff) 2 1"

theorem add_sub_trap_iff_overflow_witness:
  "(ins_opCode example_add, 3 :: nat, 2147483648) \<in>
     {(OP_ADD, ins_rd example_add, sint (rg example_add_machine (ins_rs example_add))
         + sint (rg example_add_machine (ins_rt example_add)))} \<and>
   exec_switch (\<lambda>e m. Inr m) example_add 8 example_add_machine
     = raise_and_leave (\<lambda>e m. Inr m) example_add_machine OverflowException 0"
proof -
  have rs: "rg example_add_machine (ins_rs example_add) = 0x7fffffff"
    and rt: "rg example_add_machine (ins_rt example_add) = 1"
    by (simp_all add: example_add_machine_def example_add_def rg_def set_rg_def example_machine_def)
  have h: "(ins_opCode example_add, 3 :: nat, 2147483648) \<in>
     {(OP_ADD, ins_rd example_add, sint (rg example_add_machine (ins_rs example_add))
         + sint (rg example_add_machine (ins_rt example_add)))}"
    unfolding rs rt by (simp add: example_add_def)
  have "\<not> int_ok 2147483648" by (simp add: int_ok_def)
  then show ?thesis
    using add_sub_trap_iff_overflow [of example_add 3 2147483648 example_add_machine
        "\<lambda>e m. Inr m" 8] h by auto
qed

section \<open>Shifts\<close>

lemma drop_bit_signed_iff:
  assumes "n < 32"
  shows "signed_drop_bit n (x :: 32 word) = drop_bit n x \<longleftrightarrow> n = 0 \<or> 0 \<le> sint x"
proof -
  have top: "bit x 31 \<longleftrightarrow> sint x < 0" using sign_bit [of x] by (simp add: SIGN_BIT_def top_bit)
  have sbit: "bit (signed_drop_bit n x) 31 = bit x 31"
    using assms by (cases "n = 0") (auto simp: bit_signed_drop_bit_iff)
  have dbit: "bit (drop_bit n x) 31 \<longleftrightarrow> n = 0 \<and> bit x 31"
    using bit_imp_le_length [of x "n + 31"] by (auto simp: bit_drop_bit_eq)
  show ?thesis
  proof (cases "bit x 31")
    case True
    then show ?thesis using top sbit dbit by auto
  next
    case False
    then have "signed_drop_bit n x = drop_bit n x"
      by (intro bit_word_eqI)
        (auto simp: bit_signed_drop_bit_iff bit_drop_bit_eq dest: bit_imp_le_length)
    then show ?thesis using False top by auto
  qed
qed

text \<open>
  C19. The right shifts. SRA and SRAV shift arithmetically, as MIPS defines them. SRL and SRLV
  should shift in zeros, but the intermediate \<open>tmp\<close> is a signed \<open>int\<close>: they store the same
  result as SRA and SRAV, which is the logical shift only when the shift amount is zero or the
  operand is not negative.
\<close>

theorem right_shifts:
  assumes "(ins_opCode instr, n) \<in> {(OP_SRA, unat (ins_extra instr)), (OP_SRL, unat (ins_extra instr)),
      (OP_SRAV, unat (rg m (ins_rs instr) AND 0x1f)), (OP_SRLV, unat (rg m (ins_rs instr) AND 0x1f))}"
    and "n < 32"
  shows "\<exists>v. exec_switch hdl instr pcAfter m = Inr (Advance 0 0 pcAfter (set_rg m (ins_rd instr) v))
     \<and> sint v = sint (rg m (ins_rt instr)) div 2 ^ n
     \<and> (v = drop_bit n (rg m (ins_rt instr)) \<longleftrightarrow> n = 0 \<or> 0 \<le> sint (rg m (ins_rt instr)))"
proof -
  let ?v = "signed_drop_bit n (rg m (ins_rt instr))"
  have "exec_switch hdl instr pcAfter m = Inr (Advance 0 0 pcAfter (set_rg m (ins_rd instr) ?v))"
  proof -
    consider "ins_opCode instr = OP_SRA" "n = unat (ins_extra instr)"
      | "ins_opCode instr = OP_SRL" "n = unat (ins_extra instr)"
      | "ins_opCode instr = OP_SRAV" "n = unat (rg m (ins_rs instr) AND 0x1f)"
      | "ins_opCode instr = OP_SRLV" "n = unat (rg m (ins_rs instr) AND 0x1f)"
      using assms(1) by auto
    then show ?thesis by cases (simp_all add: exec_switch_def exec_shift_def Let_def)
  qed
  moreover have "sint ?v = sint (rg m (ins_rt instr)) div 2 ^ n"
    by (simp add: sint_signed_drop_bit_eq drop_bit_eq_div)
  ultimately show ?thesis using drop_bit_signed_iff [OF assms(2)] by blast
qed

theorem right_shifts_witness:
  "\<exists>m instr v. (ins_opCode instr, 1 :: nat) = (OP_SRL, unat (ins_extra instr)) \<and> (1 :: nat) < 32
     \<and> rg m (ins_rt instr) = 0x80000000
     \<and> exec_switch (\<lambda>e m. Inr m) instr 8 (m :: machine) = Inr (Advance 0 0 8 (set_rg m (ins_rd instr) v))
     \<and> v \<noteq> drop_bit 1 (rg m (ins_rt instr))"
proof -
  let ?i = "\<lparr>ins_value = 0, ins_opCode = OP_SRL, ins_rs = 1, ins_rt = 2, ins_rd = 3, ins_extra = 1\<rparr>"
  let ?m = "set_rg example_machine 2 0x80000000"
  have rt: "rg ?m (ins_rt ?i) = 0x80000000"
    by (simp add: rg_def set_rg_def example_machine_def)
  have op: "(ins_opCode ?i, 1 :: nat) \<in> {(OP_SRA, unat (ins_extra ?i)), (OP_SRL, unat (ins_extra ?i)),
      (OP_SRAV, unat (rg ?m (ins_rs ?i) AND 0x1f)), (OP_SRLV, unat (rg ?m (ins_rs ?i) AND 0x1f))}"
    by simp
  from right_shifts [OF op, of "\<lambda>e m. Inr m" 8] obtain v
    where "exec_switch (\<lambda>e m. Inr m) ?i 8 ?m = Inr (Advance 0 0 8 (set_rg ?m (ins_rd ?i) v))"
      "v = drop_bit 1 (rg ?m (ins_rt ?i)) \<longleftrightarrow> (1 :: nat) = 0 \<or> 0 \<le> sint (rg ?m (ins_rt ?i))" by auto
  with rt show ?thesis by (intro exI [of _ ?m] exI [of _ ?i] exI [of _ v]) simp
qed

section \<open>Unaligned words\<close>

lemma merges:
  "merge_LWL 0 old value = (old AND 0xffffff) OR push_bit 24 value"
  "merge_LWL 1 old value = (old AND 0xffff) OR push_bit 16 value"
  "merge_LWL 2 old value = (old AND 0xff) OR push_bit 8 value"
  "merge_LWL 3 old value = value"
  "merge_LWR 0 old value = value"
  "merge_LWR 1 old value = (old AND 0xff000000) OR (signed_drop_bit 8 value AND 0xffffff)"
  "merge_LWR 2 old value = (old AND 0xffff0000) OR (signed_drop_bit 16 value AND 0xffff)"
  "merge_LWR 3 old value = (old AND 0xffffff00) OR (signed_drop_bit 24 value AND 0xff)"
  "merge_SWL 0 rt value = (value AND 0xffffff00) OR (signed_drop_bit 24 rt AND 0xff)"
  "merge_SWL 1 rt value = (value AND 0xffff0000) OR (signed_drop_bit 16 rt AND 0xffff)"
  "merge_SWL 2 rt value = (value AND 0xff000000) OR (signed_drop_bit 8 rt AND 0xffffff)"
  "merge_SWL 3 rt value = rt"
  "merge_SWR 0 rt value = rt"
  "merge_SWR 1 rt value = (value AND 0xff) OR push_bit 8 rt"
  "merge_SWR 2 rt value = (value AND 0xffff) OR push_bit 16 rt"
  "merge_SWR 3 rt value = (value AND 0xffffff) OR push_bit 24 rt"
  by (simp_all add: merge_LWL_def merge_LWR_def merge_SWL_def merge_SWR_def)

lemma masks:
  "(0xff :: 32 word) = mask 8" "(0xffff :: 32 word) = mask 16" "(0xffffff :: 32 word) = mask 24"
  "(0xffffff00 :: 32 word) = NOT (mask 8)" "(0xffff0000 :: 32 word) = NOT (mask 16)"
  "(0xff000000 :: 32 word) = NOT (mask 24)"
  by (simp_all add: mask_eq_exp_minus_1)

lemmas bit_eval = bit_and_iff bit_or_iff bit_not_iff bit_mask_iff bit_push_bit_iff bit_drop_bit_eq
  bit_ucast_iff bit_signed_drop_bit_iff

text \<open>The two halves of an unaligned word as shifts.\<close>

lemma load_shift:
  "merge_LWL 0 (merge_LWR 1 old w0) w1 = drop_bit 8 w0 OR push_bit 24 w1"
  "merge_LWL 1 (merge_LWR 2 old w0) w1 = drop_bit 16 w0 OR push_bit 16 w1"
  "merge_LWL 2 (merge_LWR 3 old w0) w1 = drop_bit 24 w0 OR push_bit 8 w1"
  unfolding merges masks
  by (rule bit_word_eqI; auto simp: bit_eval not_less not_le dest: bit_imp_le_length)+

lemma byte_eqI: "(\<And>n. n < 8 \<Longrightarrow> bit a n = bit b n) \<Longrightarrow> a = (b :: byte)"
  by (rule bit_word_eqI) simp

lemma bytes_shift:
  "take 4 (drop 1 (bytes_of_word w0 @ bytes_of_word w1)) = bytes_of_word (drop_bit 8 w0 OR push_bit 24 w1)"
  "take 4 (drop 2 (bytes_of_word w0 @ bytes_of_word w1)) = bytes_of_word (drop_bit 16 w0 OR push_bit 16 w1)"
  "take 4 (drop 3 (bytes_of_word w0 @ bytes_of_word w1)) = bytes_of_word (drop_bit 24 w0 OR push_bit 8 w1)"
  unfolding bytes_of_word_def
  by (simp_all, (intro conjI byte_eqI; auto simp: bit_eval dest: bit_imp_le_length)+)

lemma store_bytes:
  "bytes_of_word (merge_SWR 1 rt w0) @ bytes_of_word (merge_SWL 0 rt w1)
     = overwrite 1 (bytes_of_word rt) (bytes_of_word w0 @ bytes_of_word w1)"
  "bytes_of_word (merge_SWR 2 rt w0) @ bytes_of_word (merge_SWL 1 rt w1)
     = overwrite 2 (bytes_of_word rt) (bytes_of_word w0 @ bytes_of_word w1)"
  "bytes_of_word (merge_SWR 3 rt w0) @ bytes_of_word (merge_SWL 2 rt w1)
     = overwrite 3 (bytes_of_word rt) (bytes_of_word w0 @ bytes_of_word w1)"
  unfolding bytes_of_word_def overwrite_def merges masks
  by (simp_all add: numeral_2_eq_2 numeral_3_eq_3,
      (intro conjI byte_eqI; auto simp: bit_eval dest: bit_imp_le_length)+)



section \<open>Well-formed processor states\<close>

definition cpu_shape :: "'z machine_scheme \<Rightarrow> bool" where
  "cpu_shape m \<longleftrightarrow> length (m_registers m) = NumTotalRegs \<and> unat (rg m LoadReg) < NumGPRegs
     \<and> length (m_mainMemory m) = unat PhysicalMemorySize"

definition cpu_ok :: "'z machine_scheme \<Rightarrow> bool" where
  "cpu_ok m \<longleftrightarrow> cpu_shape m \<and> rg m 0 = 0"

fun exec_ok :: "'z machine_scheme exec \<Rightarrow> bool" where
  "exec_ok (Leave m) = cpu_ok m"
| "exec_ok (Advance r v pc m) = (cpu_shape m \<and> unat r < NumGPRegs)"

lemma cpu_ok_shape: "cpu_ok m \<Longrightarrow> cpu_shape m"
  by (simp add: cpu_ok_def)

lemma set_rg_shape: "cpu_shape m \<Longrightarrow> d \<noteq> LoadReg \<Longrightarrow> cpu_shape (set_rg m d v)"
  by (simp add: cpu_shape_def set_rg_def rg_def)

lemma cpu_ok_cong:
  "m_registers m' = m_registers m \<Longrightarrow> length (m_mainMemory m') = length (m_mainMemory m) \<Longrightarrow>
   cpu_ok m' = cpu_ok m"
  by (simp add: cpu_ok_def cpu_shape_def rg_def)

lemma cpu_ok_update [simp]:
  "cpu_ok (m\<lparr>m_status := st\<rparr>) = cpu_ok m"
  "length mem = length (m_mainMemory m) \<Longrightarrow> cpu_ok (m\<lparr>m_mainMemory := mem\<rparr>) = cpu_ok m"
  by (simp_all add: cpu_ok_def cpu_shape_def rg_def)

lemma DelayedLoad_ok:
  assumes "cpu_shape m" "unat r < NumGPRegs"
  shows "\<exists>m'. Machine_DelayedLoad m r v = Inr m' \<and> cpu_ok m'"
proof -
  let ?t = "m_registers m ! LoadReg"
  have len: "length (m_registers m) = 40" "length (m_mainMemory m) = 16384" and t: "unat ?t < 32"
    using assms(1) by (simp_all add: cpu_shape_def rg_def)
  have u: "uint ?t < 32" using t by (metis of_nat_less_iff of_nat_numeral uint_nat)
  then have "sint ?t = uint ?t" by (simp add: sint_cases)
  then have "Machine_DelayedLoad m r v = Inr (m\<lparr>m_registers := (m_registers m)
      [unat ?t := m_registers m ! LoadValueReg, LoadReg := r, LoadValueReg := v, 0 := 0]\<rparr>)"
    using u len by (simp add: Machine_DelayedLoad_def Let_def)
  then show ?thesis using len assms(2) by (simp add: cpu_ok_def cpu_shape_def rg_def)
qed

lemma Translate_frame:
  "Machine_Translate m va sz w = Inr (r, m') \<Longrightarrow>
   m_registers m' = m_registers m \<and> m_mainMemory m' = m_mainMemory m"
  by (auto simp: Machine_Translate_def Let_def bindE_eq_Inr split: if_splits prod.splits option.splits)

text \<open>
  What the interpreter asks of the kernel's exception handler: it may change registers, memory
  and anything of its own, but it hands back a machine of the same shape with register zero intact.
\<close>

locale handler_contract =
  fixes hdl :: "'z machine_scheme handler"
  assumes hdl_ok: "cpu_ok m \<Longrightarrow> hdl e m = Inr m' \<Longrightarrow> cpu_ok m'"
begin

lemma RaiseException_ok:
  assumes "cpu_shape m" "Machine_RaiseException hdl m e a = Inr m'"
  shows "cpu_ok m'"
proof -
  have "cpu_shape (m\<lparr>m_registers := (m_registers m)[BadVAddrReg := a]\<rparr>)"
    using assms(1) by (simp add: cpu_shape_def rg_def)
  then obtain m1 where m1: "Machine_DelayedLoad (m\<lparr>m_registers := (m_registers m)[BadVAddrReg := a]\<rparr>) 0 0
      = Inr m1" "cpu_ok m1" using DelayedLoad_ok [where r = 0 and v = 0] by (metis NumGPRegs_def unat_0 zero_less_numeral)
  then obtain m2 where m2: "hdl e (m1\<lparr>m_status := SystemMode\<rparr>) = Inr m2"
    "m' = m2\<lparr>m_status := UserMode\<rparr>"
    using assms(2) by (auto simp: Machine_RaiseException_def bindE_eq_Inr)
  have "cpu_ok (m1\<lparr>m_status := SystemMode\<rparr>)" using m1(2) by simp
  from hdl_ok [OF this m2(1)] m2(2) show ?thesis by simp
qed

lemma ReadMem_ok:
  assumes "cpu_ok m" "Machine_ReadMem hdl m va sz = Inr (v, m')"
  shows "cpu_ok m'"
proof -
  obtain e pa m1 where t: "Machine_Translate m va sz False = Inr ((e, pa), m1)"
    using assms(2) by (auto simp: Machine_ReadMem_def bindE_eq_Inr)
  have m1: "cpu_ok m1" using Translate_frame [OF t] assms(1) by (simp add: cpu_ok_cong [of m1 m])
  show ?thesis
  proof (cases "e = NoException")
    case True
    then show ?thesis using assms(2) t m1 by (auto simp: Machine_ReadMem_def bindE_eq_Inr)
  next
    case False
    then obtain m2 where m2: "Machine_RaiseException hdl m1 e va = Inr m2"
      using assms(2) t by (auto simp: Machine_ReadMem_def bindE_eq_Inr)
    have ok2: "cpu_ok m2" by (rule RaiseException_ok [OF cpu_ok_shape [OF m1] m2])
    show ?thesis
    proof (cases "e = PageFaultException")
      case True
      then obtain e2 pa2 m3 where "Machine_Translate m2 va sz False = Inr ((e2, pa2), m3)" "m' = m3"
        using assms(2) t m2 by (auto simp: Machine_ReadMem_def bindE_eq_Inr)
      with Translate_frame ok2 show ?thesis by (metis cpu_ok_cong)
    next
      case False
      with \<open>e \<noteq> NoException\<close> assms(2) t m2 ok2 show ?thesis
        by (auto simp: Machine_ReadMem_def bindE_eq_Inr)
    qed
  qed
qed

lemma WriteMem_ok:
  assumes "cpu_ok m" "Machine_WriteMem hdl m va sz v = Inr (b, m')"
  shows "cpu_ok m'"
proof -
  obtain e pa m1 where t: "Machine_Translate m va sz True = Inr ((e, pa), m1)"
    using assms(2) by (auto simp: Machine_WriteMem_def bindE_eq_Inr)
  have m1: "cpu_ok m1" using Translate_frame [OF t] assms(1) by (simp add: cpu_ok_cong [of m1 m])
  have store: "cpu_ok (m0\<lparr>m_mainMemory := mem\<rparr>)"
    if "cpu_ok m0" "mem_store (m_mainMemory m0) p sz v = Inr mem" for m0 p mem
    using that load_store(2) [OF that(2)] by simp
  show ?thesis
  proof (cases "e = NoException")
    case True
    then show ?thesis using assms(2) t store [OF m1] by (auto simp: Machine_WriteMem_def bindE_eq_Inr)
  next
    case False
    then obtain m2 where m2: "Machine_RaiseException hdl m1 e va = Inr m2"
      using assms(2) t by (auto simp: Machine_WriteMem_def bindE_eq_Inr)
    have ok2: "cpu_ok m2" by (rule RaiseException_ok [OF cpu_ok_shape [OF m1] m2])
    show ?thesis
    proof (cases "e = PageFaultException")
      case True
      then obtain e2 pa2 m3 p mem where m3: "Machine_Translate m2 va sz True = Inr ((e2, pa2), m3)"
        "mem_store (m_mainMemory m3) p sz v = Inr mem" "m' = m3\<lparr>m_mainMemory := mem\<rparr>"
        using assms(2) t m2 by (auto simp: Machine_WriteMem_def bindE_eq_Inr)
      have "cpu_ok m3" using Translate_frame [OF m3(1)] ok2 by (simp add: cpu_ok_cong [of m3 m2])
      from store [OF this m3(2)] m3(3) show ?thesis by simp
    next
      case False
      with \<open>e \<noteq> NoException\<close> assms(2) t m2 ok2 show ?thesis
        by (auto simp: Machine_WriteMem_def bindE_eq_Inr)
    qed
  qed
qed

lemma raise_and_leave_ok: "cpu_shape m \<Longrightarrow> raise_and_leave hdl m e a = Inr r \<Longrightarrow> exec_ok r"
  by (auto simp: raise_and_leave_def bindE_eq_Inr dest: RaiseException_ok)

lemma load_or_leave_ok:
  assumes "cpu_ok m" "load_or_leave hdl m va sz k = Inr r"
    and "\<And>v m1. cpu_ok m1 \<Longrightarrow> k v m1 = Inr r \<Longrightarrow> exec_ok r"
  shows "exec_ok r"
  using assms by (auto simp: load_or_leave_def bindE_eq_Inr dest: ReadMem_ok split: option.splits)

lemma store_or_leave_ok: "cpu_ok m \<Longrightarrow> store_or_leave hdl m va sz v pc = Inr r \<Longrightarrow> exec_ok r"
  by (auto simp: store_or_leave_def bindE_eq_Inr cpu_ok_shape dest: WriteMem_ok split: if_splits)

end

text \<open>Instructions that only touch registers.\<close>

definition good_fields :: "Instruction \<Rightarrow> bool" where
  "good_fields i \<longleftrightarrow> ins_rs i < NumGPRegs \<and> ins_rt i < NumGPRegs \<and> ins_rd i < NumGPRegs"

lemma decode_good_fields: "good_fields (Instruction_Decode w)"
  by (simp add: good_fields_def Instruction_Decode_def Let_def split: prod.splits)

lemmas exec_simps = good_fields_def set_rg_shape cpu_ok_shape Let_def R31_def

lemma exec_branch_ok:
  assumes "cpu_ok m" "good_fields i" "exec_branch i pc m = Inr r"
  shows "exec_ok r"
  using assms by (cases "ins_opCode i") (auto simp: exec_branch_def exec_simps)

lemma exec_divide_ok:
  assumes "cpu_ok m" "good_fields i" "exec_divide i pc m = Inr r"
  shows "exec_ok r"
  using assms by (cases "ins_opCode i") (auto simp: exec_divide_def exec_simps split: if_splits)

lemma exec_jump_ok:
  assumes "cpu_ok m" "good_fields i" "exec_jump i pc m = Inr r"
  shows "exec_ok r"
  using assms by (cases "ins_opCode i") (auto simp: exec_jump_def exec_simps)

lemma exec_hilo_ok:
  assumes "cpu_ok m" "good_fields i" "exec_hilo i pc m = Inr r"
  shows "exec_ok r"
  using assms by (cases "ins_opCode i") (auto simp: exec_hilo_def exec_simps split: prod.splits)

lemma exec_shift_ok:
  assumes "cpu_ok m" "good_fields i" "exec_shift i pc m = Inr r"
  shows "exec_ok r"
  using assms by (cases "ins_opCode i") (auto simp: exec_shift_def exec_simps)

context handler_contract
begin

lemma exec_arith_ok:
  assumes "cpu_ok m" "good_fields i" "exec_arith hdl i pc m = Inr r"
  shows "exec_ok r"
  using assms raise_and_leave_ok [OF cpu_ok_shape [OF assms(1)]]
  by (cases "ins_opCode i") (auto simp: exec_arith_def exec_simps split: if_splits)

lemma exec_subtract_ok:
  assumes "cpu_ok m" "good_fields i" "exec_subtract hdl i pc m = Inr r"
  shows "exec_ok r"
  using assms raise_and_leave_ok [OF cpu_ok_shape [OF assms(1)]]
  by (cases "ins_opCode i") (auto simp: exec_subtract_def exec_simps split: if_splits)

lemma pend_ok: "good_fields i \<Longrightarrow> cpu_ok m \<Longrightarrow> exec_ok (Advance (of_nat (ins_rt i)) v pc m)"
  by (simp add: good_fields_def cpu_ok_shape unat_of_nat)

lemma load_pend_ok:
  assumes "cpu_ok m" "good_fields i"
    and "load_or_leave hdl m va sz (\<lambda>v m1. Inr (Advance (of_nat (ins_rt i)) (f v m1) pc m1)) = Inr r"
  shows "exec_ok r"
  by (rule load_or_leave_ok [OF assms(1,3)])
    (auto simp del: exec_ok.simps intro: pend_ok [OF assms(2)])

lemma exec_load_ok:
  assumes "cpu_ok m" "good_fields i" "exec_load hdl i pc m = Inr r"
  shows "exec_ok r"
  using assms raise_and_leave_ok [OF cpu_ok_shape [OF assms(1)]] load_pend_ok [OF assms(1,2)]
  by (cases "ins_opCode i") (auto simp: exec_load_def exec_simps split: if_splits)

lemma exec_store_ok:
  assumes "cpu_ok m" "exec_store hdl i pc m = Inr r"
  shows "exec_ok r"
  using assms store_or_leave_ok [OF assms(1)]
  by (cases "ins_opCode i") (auto simp: exec_store_def Let_def)

lemma exec_other_ok:
  assumes "cpu_ok m" "good_fields i" "exec_other hdl i pc m = Inr r"
  shows "exec_ok r"
  using assms raise_and_leave_ok [OF cpu_ok_shape [OF assms(1)]]
  by (cases "ins_opCode i") (auto simp: exec_other_def exec_simps)

lemma exec_unaligned_load_ok:
  assumes "cpu_ok m" "good_fields i"
  shows "exec_LWL hdl i pc m = Inr r \<Longrightarrow> exec_ok r" "exec_LWR hdl i pc m = Inr r \<Longrightarrow> exec_ok r"
  unfolding exec_LWL_def exec_LWR_def Let_def by (erule load_pend_ok [OF assms])+

lemma exec_unaligned_store_ok:
  assumes "cpu_ok m"
  shows "exec_SWL hdl i pc m = Inr r \<Longrightarrow> exec_ok r" "exec_SWR hdl i pc m = Inr r \<Longrightarrow> exec_ok r"
  unfolding exec_SWL_def exec_SWR_def Let_def
  by (erule load_or_leave_ok [OF assms], erule store_or_leave_ok, assumption)+

lemma exec_switch_ok:
  assumes "cpu_ok m" "good_fields i" "exec_switch hdl i pc m = Inr r"
  shows "exec_ok r"
  using assms(3) unfolding exec_switch_def Let_def
  by (simp only: split: if_splits)
    (blast intro: exec_arith_ok [OF assms(1,2)] exec_branch_ok [OF assms(1,2)]
      exec_divide_ok [OF assms(1,2)] exec_jump_ok [OF assms(1,2)] exec_load_ok [OF assms(1,2)]
      exec_hilo_ok [OF assms(1,2)] exec_store_ok [OF assms(1)] exec_shift_ok [OF assms(1,2)]
      exec_subtract_ok [OF assms(1,2)] exec_unaligned_load_ok [OF assms(1,2)]
      exec_unaligned_store_ok [OF assms(1)] exec_other_ok [OF assms(1,2)])+

lemma OneInstruction_ok:
  assumes "cpu_ok m" "Machine_OneInstruction hdl m = Inr m'"
  shows "cpu_ok m'"
proof -
  obtain f m1 where f: "Machine_ReadMem hdl m (rg m PCReg) 4 = Inr (f, m1)"
    using assms(2) by (auto simp: Machine_OneInstruction_def bindE_eq_Inr)
  have m1: "cpu_ok m1" by (rule ReadMem_ok [OF assms(1) f])
  show ?thesis
  proof (cases f)
    case None
    then show ?thesis using assms(2) f m1 by (simp add: Machine_OneInstruction_def)
  next
    case (Some raw)
    let ?i = "Instruction_Decode raw"
    have good: "good_fields ?i" by (rule decode_good_fields)
    obtain r where r: "exec_switch hdl ?i (rg m1 NextPCReg + 4) m1 = Inr r"
      using assms(2) f Some by (auto simp: Machine_OneInstruction_def Let_def bindE_eq_Inr)
    have ok: "exec_ok r" by (rule exec_switch_ok [OF m1 good r])
    show ?thesis
    proof (cases r)
      case (Leave m2)
      then show ?thesis using assms(2) f Some r ok by (simp add: Machine_OneInstruction_def)
    next
      case (Advance lr lv pc m2)
      obtain m3 where m3: "Machine_DelayedLoad m2 lr lv = Inr m3" "cpu_ok m3"
        using DelayedLoad_ok [of m2 lr lv] ok Advance by auto
      have "m' = set_rg (set_rg (set_rg m3 PrevPCReg (rg m3 PCReg)) PCReg
          (rg (set_rg m3 PrevPCReg (rg m3 PCReg)) NextPCReg)) NextPCReg pc"
        using assms(2) f Some r Advance m3(1) by (simp add: Machine_OneInstruction_def Let_def)
      with m3(2) show ?thesis by (simp add: cpu_ok_def cpu_shape_def set_rg_def rg_def)
    qed
  qed
qed

end

end
