(* ===== verification/Disk.thy ===== *)
theory Disk
  imports Nachos_Prelude
begin

text \<open>
  machine/disk.h and machine/disk.cc, with the time constants and counters of machine/stats.h:
  the raw disk, simulated on a UNIX file that starts with a magic number.

  \<open>d_file\<close> is the content of that file; \<open>kernel->stats->totalTicks\<close> is the argument
  \<open>now\<close>. A request returns the number of ticks after which \<open>Interrupt::Schedule\<close> is asked
  to deliver the disk interrupt, whose handler is \<open>Disk_CallBack\<close>.
  \<open>disk_sector\<close> reads one sector out of the file; the lemmas state the requests in terms of it.
\<close>

section \<open>Constants\<close>

definition UserTick :: int where "UserTick = 1"
definition SystemTick :: int where "SystemTick = 10"
definition RotationTime :: int where "RotationTime = 500"
definition SeekTime :: int where "SeekTime = 500"
definition ConsoleTime :: int where "ConsoleTime = 100"
definition NetworkTime :: int where "NetworkTime = 100"
definition TimerTicks :: int where "TimerTicks = 100"

definition SectorSize :: int where "SectorSize = 128"
definition SectorsPerTrack :: int where "SectorsPerTrack = 32"
definition NumTracks :: int where "NumTracks = 32"
definition NumSectors :: int where "NumSectors = SectorsPerTrack * NumTracks"

definition MagicNumber :: int where "MagicNumber = 0x456789ab"
definition MagicSize :: int where "MagicSize = 4"
definition DiskSize :: int where "DiskSize = MagicSize + NumSectors * SectorSize"

section \<open>The device\<close>

record disk =
  d_file :: "byte list"
  d_active :: bool
  d_lastSector :: int
  d_bufferInit :: int
  d_numDiskReads :: int
  d_numDiskWrites :: int

text \<open>
  \<open>Disk::Disk\<close>: \<open>None\<close> when the UNIX file does not exist yet. A new file gets the magic
  number and a last integer 0; UNIX fills the gap in between with zero bytes.
\<close>

definition Disk_new :: "byte list option \<Rightarrow> int \<Rightarrow> int \<Rightarrow> disk res" where
  "Disk_new unixfile reads writes =
     bindE (case unixfile of
        Some f \<Rightarrow> bindE (assertE (int_of_bytes (take 4 f) = MagicNumber)) (\<lambda>_. Inr f)
      | None \<Rightarrow> Inr (bytes_of_int MagicNumber @ replicate (nat (DiskSize - MagicSize)) 0)) (\<lambda>f.
     Inr \<lparr>d_file = f, d_active = False, d_lastSector = 0, d_bufferInit = 0,
          d_numDiskReads = reads, d_numDiskWrites = writes\<rparr>)"

definition Disk_TimeToSeek :: "disk \<Rightarrow> int \<Rightarrow> int \<Rightarrow> int \<times> int" where
  "Disk_TimeToSeek d now newSector =
     (let newTrack = newSector sdiv SectorsPerTrack;
          oldTrack = d_lastSector d sdiv SectorsPerTrack;
          seek = \<bar>newTrack - oldTrack\<bar> * SeekTime;
          over = (now + seek) smod RotationTime
      in (seek, if over > 0 then RotationTime - over else 0))"

definition Disk_ModuloDiff :: "int \<Rightarrow> int \<Rightarrow> int" where
  "Disk_ModuloDiff to from =
     (let toOffset = to smod SectorsPerTrack; fromOffset = from smod SectorsPerTrack
      in ((toOffset - fromOffset) + SectorsPerTrack) smod SectorsPerTrack)"

definition Disk_ComputeLatency :: "disk \<Rightarrow> int \<Rightarrow> int \<Rightarrow> bool \<Rightarrow> int" where
  "Disk_ComputeLatency d now newSector writing =
     (let (seek, rotation) = Disk_TimeToSeek d now newSector;
          timeAfter = now + seek + rotation
      in if \<not> writing \<and> seek = 0
            \<and> (timeAfter - d_bufferInit d) sdiv RotationTime
                > Disk_ModuloDiff newSector (d_bufferInit d sdiv RotationTime)
         then RotationTime
         else let rotation = rotation
                     + Disk_ModuloDiff newSector (timeAfter sdiv RotationTime) * RotationTime
              in seek + rotation + RotationTime)"

definition Disk_UpdateLast :: "disk \<Rightarrow> int \<Rightarrow> int \<Rightarrow> disk" where
  "Disk_UpdateLast d now newSector =
     (let (seek, rotate) = Disk_TimeToSeek d now newSector;
          d1 = (if seek \<noteq> 0 then d\<lparr>d_bufferInit := now + seek + rotate\<rparr> else d)
      in d1\<lparr>d_lastSector := newSector\<rparr>)"

text \<open>Reading past the end of the UNIX file cannot happen on a file of \<open>DiskSize\<close> bytes; it would be \<open>Bad_Access\<close>.\<close>

definition Disk_ReadRequest :: "disk \<Rightarrow> int \<Rightarrow> int \<Rightarrow> (byte list \<times> int \<times> disk) res" where
  "Disk_ReadRequest d now sectorNumber =
     (let ticks = Disk_ComputeLatency d now sectorNumber False in
      bindE (assertE (\<not> d_active d)) (\<lambda>_.
      bindE (assertE (0 \<le> sectorNumber \<and> sectorNumber < NumSectors)) (\<lambda>_.
      let pos = nat (SectorSize * sectorNumber + MagicSize);
          data = take (nat SectorSize) (drop pos (d_file d))
      in if length (d_file d) < pos + nat SectorSize then Inl Bad_Access
         else Inr (data, ticks, (Disk_UpdateLast (d\<lparr>d_active := True\<rparr>) now sectorNumber)
                \<lparr>d_numDiskReads := d_numDiskReads d + 1\<rparr>))))"

definition Disk_WriteRequest :: "disk \<Rightarrow> int \<Rightarrow> int \<Rightarrow> byte list \<Rightarrow> (int \<times> disk) res" where
  "Disk_WriteRequest d now sectorNumber data =
     (let ticks = Disk_ComputeLatency d now sectorNumber True in
      bindE (assertE (\<not> d_active d)) (\<lambda>_.
      bindE (assertE (0 \<le> sectorNumber \<and> sectorNumber < NumSectors)) (\<lambda>_.
      let pos = nat (SectorSize * sectorNumber + MagicSize) in
      if length data < nat SectorSize \<or> length (d_file d) < pos + nat SectorSize then Inl Bad_Access
      else let f = overwrite pos (take (nat SectorSize) data) (d_file d)
           in Inr (ticks, (Disk_UpdateLast (d\<lparr>d_file := f, d_active := True\<rparr>) now sectorNumber)
                \<lparr>d_numDiskWrites := d_numDiskWrites d + 1\<rparr>))))"

definition Disk_CallBack :: "disk \<Rightarrow> disk" where
  "Disk_CallBack d = d\<lparr>d_active := False\<rparr>"

section \<open>Sectors\<close>

definition disk_inv :: "disk \<Rightarrow> bool" where
  "disk_inv d \<longleftrightarrow> length (d_file d) = nat DiskSize \<and> take 4 (d_file d) = bytes_of_int MagicNumber
     \<and> 0 \<le> d_lastSector d \<and> d_lastSector d < NumSectors"

definition disk_sector :: "disk \<Rightarrow> int \<Rightarrow> byte list" where
  "disk_sector d s = take 128 (drop (nat (128 * s + 4)) (d_file d))"

lemmas disk_consts = SectorSize_def SectorsPerTrack_def NumTracks_def NumSectors_def MagicSize_def
  DiskSize_def RotationTime_def SeekTime_def

lemma Disk_new_inv:
  "\<exists>d. Disk_new None r w = Inr d \<and> disk_inv d \<and> \<not> d_active d
    \<and> (\<forall>s. 0 \<le> s \<and> s < NumSectors \<longrightarrow> disk_sector d s = replicate 128 0)"
  by (auto simp: Disk_new_def disk_inv_def disk_sector_def disk_consts nat_add_distrib nat_mult_distrib)

lemma UpdateLast_frame [simp]:
  "d_file (Disk_UpdateLast d now s) = d_file d" "d_active (Disk_UpdateLast d now s) = d_active d"
  "d_lastSector (Disk_UpdateLast d now s) = s"
  by (simp_all add: Disk_UpdateLast_def Let_def split: prod.splits)

lemma sector_in_file:
  assumes "disk_inv d" "0 \<le> s" "s < NumSectors"
  shows "nat (128 * s + 4) + 128 \<le> length (d_file d)" "length (disk_sector d s) = 128"
  using assms by (auto simp: disk_inv_def disk_sector_def disk_consts)

lemma ReadRequest_ok:
  assumes "disk_inv d" "\<not> d_active d" "0 \<le> s" "s < NumSectors"
  shows "\<exists>d'. Disk_ReadRequest d now s = Inr (disk_sector d s, Disk_ComputeLatency d now s False, d')
    \<and> disk_inv d' \<and> d_active d' \<and> disk_sector d' = disk_sector d"
proof -
  have fits: "\<not> length (d_file d) < nat (128 * s + 4) + 128"
    using sector_in_file(1) [OF assms(1,3,4)] by simp
  let ?d = "(Disk_UpdateLast (d\<lparr>d_active := True\<rparr>) now s)\<lparr>d_numDiskReads := d_numDiskReads d + 1\<rparr>"
  have "Disk_ReadRequest d now s = Inr (disk_sector d s, Disk_ComputeLatency d now s False, ?d)"
    using assms(2-4) fits by (simp add: Disk_ReadRequest_def SectorSize_def MagicSize_def disk_sector_def Let_def)
  moreover have "disk_inv ?d" "d_active ?d" "disk_sector ?d = disk_sector d"
    using assms by (simp_all add: disk_inv_def disk_sector_def fun_eq_iff)
  ultimately show ?thesis by blast
qed

lemma sector_overwrite:
  assumes "0 \<le> s" "0 \<le> t" "length data = 128" "nat (128 * s + 4) + 128 \<le> length f"
    and "nat (128 * t + 4) + 128 \<le> length f"
  shows "take 128 (drop (nat (128 * t + 4)) (overwrite (nat (128 * s + 4)) data f))
    = (if t = s then data else take 128 (drop (nat (128 * t + 4)) f))"
proof (cases "t = s")
  case True
  then show ?thesis using take_drop_overwrite [of "nat (128 * s + 4)" data f] assms(3,4) by simp
next
  case False
  then have apart: "nat (128 * t + 4) + 128 \<le> nat (128 * s + 4) \<or> nat (128 * s + 4) + 128 \<le> nat (128 * t + 4)"
    using assms(1,2) by linarith
  have "take 128 (drop (nat (128 * t + 4)) (overwrite (nat (128 * s + 4)) data f))
      = take 128 (drop (nat (128 * t + 4)) f)"
    using assms(3-5) apart by (intro nth_equalityI) (auto simp: nth_overwrite)
  with False show ?thesis by simp
qed

lemma WriteRequest_ok:
  assumes "disk_inv d" "\<not> d_active d" "0 \<le> s" "s < NumSectors" "length data = 128"
  shows "\<exists>d'. Disk_WriteRequest d now s data = Inr (Disk_ComputeLatency d now s True, d')
    \<and> disk_inv d' \<and> d_active d'
    \<and> (\<forall>t. 0 \<le> t \<and> t < NumSectors \<longrightarrow> disk_sector d' t = (if t = s then data else disk_sector d t))"
proof -
  have fits: "\<not> length (d_file d) < nat (128 * s + 4) + 128"
    using sector_in_file(1) [OF assms(1,3,4)] by simp
  let ?f = "overwrite (nat (128 * s + 4)) data (d_file d)"
  let ?d = "(Disk_UpdateLast (d\<lparr>d_file := ?f, d_active := True\<rparr>) now s)
    \<lparr>d_numDiskWrites := d_numDiskWrites d + 1\<rparr>"
  have "Disk_WriteRequest d now s data = Inr (Disk_ComputeLatency d now s True, ?d)"
    using assms(2-5) fits by (simp add: Disk_WriteRequest_def SectorSize_def MagicSize_def Let_def)
  moreover have "take 4 ?f = take 4 (d_file d)"
    using assms(3,5) fits by (simp add: overwrite_def nat_add_distrib nat_mult_distrib)
  then have "disk_inv ?d" "d_active ?d"
    using assms(1,3,4,5) fits by (simp_all add: disk_inv_def)
  moreover have "disk_sector ?d t = (if t = s then data else disk_sector d t)"
    if "0 \<le> t" "t < NumSectors" for t
    using sector_overwrite [of s t data "d_file d"] sector_in_file(1) [OF assms(1) that] assms(3,5) that fits
    by (simp add: disk_sector_def)
  ultimately show ?thesis by blast
qed

lemma CallBack_frame [simp]:
  "disk_inv (Disk_CallBack d) = disk_inv d" "disk_sector (Disk_CallBack d) = disk_sector d"
  "\<not> d_active (Disk_CallBack d)"
  by (simp_all add: Disk_CallBack_def disk_inv_def disk_sector_def fun_eq_iff)

section \<open>Latency\<close>

lemma ModuloDiff_mod: "0 \<le> to \<Longrightarrow> 0 \<le> src \<Longrightarrow> Disk_ModuloDiff to src = (to - src) mod 32"
proof -
  assume "0 \<le> to" "0 \<le> src"
  moreover have "0 \<le> to mod 32 - src mod 32 + 32" using pos_mod_bound [of 32 src] by simp
  ultimately show ?thesis
    by (simp add: Disk_ModuloDiff_def SectorsPerTrack_def Let_def mod_diff_eq)
qed

lemma TimeToSeek_ok:
  assumes "0 \<le> now" "0 \<le> d_lastSector d" "d_lastSector d < NumSectors" "0 \<le> s" "s < NumSectors"
    and "Disk_TimeToSeek d now s = (seek, rotation)"
  shows "0 \<le> seek" "seek \<le> 15500" "0 \<le> rotation" "rotation < 500" "(now + seek + rotation) mod 500 = 0"
proof -
  have tr: "0 \<le> s div 32" "s div 32 \<le> 31" "0 \<le> d_lastSector d div 32" "d_lastSector d div 32 \<le> 31"
    using assms(2-5) by (simp_all add: disk_consts pos_imp_zdiv_nonneg_iff)
  have seek: "seek = \<bar>s div 32 - d_lastSector d div 32\<bar> * 500"
    using assms(2,4,6) by (auto simp: Disk_TimeToSeek_def disk_consts Let_def)
  show "0 \<le> seek" "seek \<le> 15500" using tr by (auto simp: seek abs_le_iff)
  then have rot: "rotation = (if (now + seek) mod 500 > 0 then 500 - (now + seek) mod 500 else 0)"
    using assms(1,2,4,6) seek by (auto simp: Disk_TimeToSeek_def disk_consts Let_def)
  then show "0 \<le> rotation" "rotation < 500"
    using pos_mod_bound [of 500 "now + seek"] pos_mod_sign [of 500 "now + seek"] by auto
  have "now + seek = (now + seek) div 500 * 500 + (now + seek) mod 500" by simp
  then obtain q where "now + seek = q * 500 + (now + seek) mod 500" by blast
  then have "now + seek + rotation = (if (now + seek) mod 500 > 0 then q + 1 else q) * 500"
    unfolding rot using pos_mod_sign [of 500 "now + seek"] by auto
  then show "(now + seek + rotation) mod 500 = 0" by simp
qed

lemma latency_cases:
  assumes "disk_inv d" "0 \<le> now" "0 \<le> s" "s < NumSectors"
  shows "\<exists>L. 500 \<le> L \<and> L < 32000 \<and> (now + L) mod 500 = 0 \<and> ((now + L) div 500 - 1) mod 32 = s mod 32
    \<and> Disk_ComputeLatency d now s True = L \<and> Disk_ComputeLatency d now s writing \<in> {L, 500}"
proof -
  obtain seek rotation where t: "Disk_TimeToSeek d now s = (seek, rotation)" by fastforce
  have "0 \<le> d_lastSector d" "d_lastSector d < NumSectors" using assms(1) by (simp_all add: disk_inv_def)
  note b = TimeToSeek_ok [OF assms(2) this assms(3,4) t]
  define q where "q = (now + seek + rotation) div 500"
  have q: "now + seek + rotation = q * 500" "0 \<le> q"
    using b(5) assms(2) b(1,3) by (auto simp: q_def pos_imp_zdiv_nonneg_iff)
  define k where "k = (s - q) mod 32"
  have k: "0 \<le> k" "k < 32" by (simp_all add: k_def)
  define L where "L = seek + rotation + k * 500 + 500"
  have full: "Disk_ComputeLatency d now s True = L"
    using assms(3) q by (simp add: Disk_ComputeLatency_def t Let_def disk_consts ModuloDiff_mod k_def L_def)
  have either: "Disk_ComputeLatency d now s writing = L \<or> Disk_ComputeLatency d now s writing = 500"
    using assms(3) q by (auto simp: Disk_ComputeLatency_def t Let_def disk_consts ModuloDiff_mod k_def L_def)
  have "500 \<le> L" "L < 32000" using b(1-4) k by (simp_all add: L_def)
  moreover have "now + L = (q + k + 1) * 500" using q(1) by (simp add: L_def algebra_simps)
  then have "(now + L) mod 500 = 0" "(now + L) div 500 - 1 = q + k" by simp_all
  moreover have "(q + k) mod 32 = s mod 32" by (simp add: k_def mod_simps)
  ultimately show ?thesis using either full by (intro exI [of _ L]) simp
qed

lemma latency_range:
  assumes "disk_inv d" "0 \<le> now" "0 \<le> s" "s < NumSectors"
  shows "RotationTime \<le> Disk_ComputeLatency d now s writing" "Disk_ComputeLatency d now s writing < 64 * RotationTime"
  using latency_cases [OF assms, of writing] by (auto simp: RotationTime_def)


definition example_disk :: disk where
  "example_disk = \<lparr>d_file = bytes_of_int MagicNumber @ replicate 131072 0, d_active = False,
     d_lastSector = 100, d_bufferInit = 0, d_numDiskReads = 0, d_numDiskWrites = 0\<rparr>"


end
