(* ===== verification/Synch_Disk.thy ===== *)
theory Synch_Disk
  imports Disk
begin

text \<open>
  filesys/synchdisk.h and filesys/synchdisk.cc: the synchronous disk with its cache of four
  sectors.

  The lock serialises requests and \<open>semaphore->P()\<close> returns once the disk interrupt has run
  \<open>SynchDisk::CallBack\<close>, so a call is modelled as one step: the raw request followed by
  \<open>Disk_CallBack\<close>. \<open>now\<close> is \<open>totalTicks\<close> at the time of the call. The fields of a cache
  entry that the constructor leaves uninitialised are an argument.

  The contract is the locale \<open>sector_device\<close>: an array of sectors that can be read and
  written. \<open>store\<close> is the simplest thing that satisfies it, a function from sector numbers to
  contents; the theorem shows that the cache is invisible, that is, any sequence of calls gives
  the same results on the cached disk as on the store. The file system theories are written
  over \<open>store\<close>.
\<close>

section \<open>The class\<close>

definition DiskCacheSize :: nat where "DiskCacheSize = 4"

record DiskCacheEntry =
  ce_valid :: int
  ce_dirty :: int
  ce_sector :: int
  ce_lru :: int
  ce_data :: "byte list"

record synchdisk =
  sd_disk :: disk
  sd_cache :: "DiskCacheEntry list"

definition SynchDisk_new :: "(nat \<Rightarrow> DiskCacheEntry) \<Rightarrow> byte list option \<Rightarrow> synchdisk res" where
  "SynchDisk_new junk unixfile =
     bindE (Disk_new unixfile 0 0) (\<lambda>d.
     Inr \<lparr>sd_disk = d, sd_cache = map (\<lambda>i. (junk i)\<lparr>ce_valid := - 1\<rparr>) [0..<DiskCacheSize]\<rparr>)"

function cache_find :: "DiskCacheEntry list \<Rightarrow> int \<Rightarrow> nat \<Rightarrow> nat option" where
  "cache_find c sector i =
     (if i < DiskCacheSize
      then if ce_valid (c ! i) = 1 \<and> ce_sector (c ! i) = sector then Some i
           else cache_find c sector (i + 1)
      else None)"
  by pat_completeness auto
termination
  by (relation "measure (\<lambda>(c, s, i). DiskCacheSize - i)") auto

function cache_victim :: "DiskCacheEntry list \<Rightarrow> nat \<Rightarrow> nat \<Rightarrow> nat" where
  "cache_victim c swap i =
     (if i < DiskCacheSize
      then if ce_valid (c ! i) = 0 then i
           else cache_victim c (if ce_lru (c ! i) < ce_lru (c ! swap) then i else swap) (i + 1)
      else swap)"
  by pat_completeness auto
termination
  by (relation "measure (\<lambda>(c, s, i). DiskCacheSize - i)") auto

definition SynchDisk_ReadSector :: "synchdisk \<Rightarrow> int \<Rightarrow> int \<Rightarrow> (byte list \<times> synchdisk) res" where
  "SynchDisk_ReadSector sd now sectorNumber =
     (let c = sd_cache sd in
      case cache_find c sectorNumber 0 of
        Some index \<Rightarrow>
          Inr (ce_data (c ! index), sd\<lparr>sd_cache := c[index := (c ! index)\<lparr>ce_lru := now\<rparr>]\<rparr>)
      | None \<Rightarrow>
          bindE (Disk_ReadRequest (sd_disk sd) now sectorNumber) (\<lambda>(data, ticks, d1).
          let swap = cache_victim c 0 0;
              c1 = c[swap := \<lparr>ce_valid = 1, ce_dirty = 0, ce_sector = sectorNumber, ce_lru = now,
                              ce_data = data\<rparr>]
          in Inr (data, \<lparr>sd_disk = Disk_CallBack d1, sd_cache = c1\<rparr>)))"

definition SynchDisk_WriteSector :: "synchdisk \<Rightarrow> int \<Rightarrow> int \<Rightarrow> byte list \<Rightarrow> synchdisk res" where
  "SynchDisk_WriteSector sd now sectorNumber data =
     bindE (Disk_WriteRequest (sd_disk sd) now sectorNumber data) (\<lambda>(ticks, d1).
     let c1 = map (\<lambda>e. if ce_sector e = sectorNumber then e\<lparr>ce_valid := - 1\<rparr> else e) (sd_cache sd)
     in Inr \<lparr>sd_disk = Disk_CallBack d1, sd_cache = c1\<rparr>)"

declare cache_find.simps [simp del] cache_victim.simps [simp del]

section \<open>Sector devices\<close>

type_synonym store = "int \<Rightarrow> byte list"

definition ReadSector :: "store \<Rightarrow> int \<Rightarrow> (byte list) res" where
  "ReadSector st s = bindE (assertE (0 \<le> s \<and> s < NumSectors)) (\<lambda>_. Inr (st s))"

definition WriteSector :: "store \<Rightarrow> int \<Rightarrow> byte list \<Rightarrow> store res" where
  "WriteSector st s data = bindE (assertE (0 \<le> s \<and> s < NumSectors)) (\<lambda>_.
     if length data < nat SectorSize then Inl Bad_Access else Inr (st(s := take (nat SectorSize) data)))"

lemma ReadSector_ok [simp]: "0 \<le> s \<Longrightarrow> s < NumSectors \<Longrightarrow> ReadSector st s = Inr (st s)"
  by (simp add: ReadSector_def)

lemma WriteSector_ok [simp]:
  "0 \<le> s \<Longrightarrow> s < NumSectors \<Longrightarrow> length data = 128 \<Longrightarrow> WriteSector st s data = Inr (st(s := data))"
  by (simp add: WriteSector_def SectorSize_def)

lemma Sector_bad:
  assumes "\<not> (0 \<le> s \<and> s < NumSectors)"
  shows "ReadSector st s = Inl Assert_Failed" "WriteSector st s data = Inl Assert_Failed"
  using assms by (auto simp: ReadSector_def WriteSector_def assertE_def)

locale sector_device =
  fixes inv :: "'d \<Rightarrow> bool"
    and content :: "'d \<Rightarrow> int \<Rightarrow> byte list"
    and rd :: "'d \<Rightarrow> int \<Rightarrow> int \<Rightarrow> (byte list \<times> 'd) res"
    and wr :: "'d \<Rightarrow> int \<Rightarrow> int \<Rightarrow> byte list \<Rightarrow> 'd res"
  assumes read_ok: "inv d \<Longrightarrow> 0 \<le> s \<Longrightarrow> s < NumSectors \<Longrightarrow>
      \<exists>d'. rd d now s = Inr (content d s, d') \<and> inv d' \<and> (\<forall>t. content d' t = content d t)"
    and write_ok: "inv d \<Longrightarrow> 0 \<le> s \<Longrightarrow> s < NumSectors \<Longrightarrow> nat SectorSize \<le> length data \<Longrightarrow>
      \<exists>d'. wr d now s data = Inr d' \<and> inv d' \<and> (\<forall>t. 0 \<le> t \<and> t < NumSectors \<longrightarrow>
        content d' t = (if t = s then take (nat SectorSize) data else content d t))"
    and read_bad: "inv d \<Longrightarrow> \<not> (0 \<le> s \<and> s < NumSectors) \<Longrightarrow> rd d now s = Inl Assert_Failed"
    and write_bad: "inv d \<Longrightarrow> \<not> (0 \<le> s \<and> s < NumSectors) \<Longrightarrow> wr d now s data = Inl Assert_Failed"
    and write_short: "inv d \<Longrightarrow> 0 \<le> s \<Longrightarrow> s < NumSectors \<Longrightarrow> length data < nat SectorSize \<Longrightarrow>
      wr d now s data = Inl Bad_Access"
begin

definition matches :: "'d \<Rightarrow> store \<Rightarrow> bool" where
  "matches d st \<longleftrightarrow> inv d \<and> (\<forall>s. 0 \<le> s \<and> s < NumSectors \<longrightarrow> content d s = st s)"

lemma read_matches:
  assumes "matches d st"
  shows "agree matches (rd d now s) (bindE (ReadSector st s) (\<lambda>x. Inr (x, st)))"
proof (cases "0 \<le> s \<and> s < NumSectors")
  case True
  then obtain d' where "rd d now s = Inr (content d s, d')" "inv d'" "\<forall>t. content d' t = content d t"
    using read_ok [of d s now] assms by (auto simp: matches_def)
  with True assms show ?thesis by (simp add: matches_def)
next
  case False
  then show ?thesis using read_bad [of d s now] assms by (simp add: Sector_bad matches_def)
qed

lemma write_matches:
  assumes "matches d st"
  shows "agree matches (bindE (wr d now s data) (\<lambda>d'. Inr ((), d')))
     (bindE (WriteSector st s data) (\<lambda>st'. Inr ((), st')))"
proof -
  consider "\<not> (0 \<le> s \<and> s < NumSectors)" | "0 \<le> s" "s < NumSectors" "length data < nat SectorSize"
    | "0 \<le> s" "s < NumSectors" "nat SectorSize \<le> length data" by linarith
  then show ?thesis
  proof cases
    case 1
    then show ?thesis using write_bad [of d s now data] assms by (simp add: Sector_bad matches_def)
  next
    case 2
    then show ?thesis using write_short [of d s data now] assms by (simp add: WriteSector_def matches_def)
  next
    case 3
    then obtain d' where "wr d now s data = Inr d'" "inv d'" "\<forall>t. 0 \<le> t \<and> t < NumSectors \<longrightarrow>
        content d' t = (if t = s then take (nat SectorSize) data else content d t)"
      using write_ok [of d s data now] assms by (auto simp: matches_def)
    with 3 assms show ?thesis by (simp add: WriteSector_def matches_def)
  qed
qed

end

section \<open>The cache is transparent\<close>

definition sd_inv :: "synchdisk \<Rightarrow> bool" where
  "sd_inv sd \<longleftrightarrow> disk_inv (sd_disk sd) \<and> \<not> d_active (sd_disk sd)
     \<and> length (sd_cache sd) = DiskCacheSize
     \<and> (\<forall>e \<in> set (sd_cache sd). ce_valid e = 1 \<longrightarrow> 0 \<le> ce_sector e \<and> ce_sector e < NumSectors
          \<and> ce_data e = disk_sector (sd_disk sd) (ce_sector e))"

definition sd_content :: "synchdisk \<Rightarrow> int \<Rightarrow> byte list" where
  "sd_content sd = disk_sector (sd_disk sd)"

lemma cache_find_Some:
  "cache_find c s i = Some j \<Longrightarrow> j < DiskCacheSize \<and> ce_valid (c ! j) = 1 \<and> ce_sector (c ! j) = s"
proof (induction c s i rule: cache_find.induct)
  case (1 c s i)
  then show ?case by (auto simp: cache_find.simps [of c s i] split: if_splits)
qed

lemma cache_victim_less: "swap < DiskCacheSize \<Longrightarrow> cache_victim c swap i < DiskCacheSize"
proof (induction c swap i rule: cache_victim.induct)
  case (1 c swap i)
  then show ?case by (simp add: cache_victim.simps [of c swap i])
qed

lemma sd_read_ok:
  assumes "sd_inv sd" "0 \<le> s" "s < NumSectors"
  shows "\<exists>sd'. SynchDisk_ReadSector sd now s = Inr (sd_content sd s, sd') \<and> sd_inv sd'
    \<and> (\<forall>t. sd_content sd' t = sd_content sd t)"
proof (cases "cache_find (sd_cache sd) s 0")
  case (Some j)
  let ?c = "sd_cache sd"
  have j: "j < length ?c" "ce_valid (?c ! j) = 1" "ce_sector (?c ! j) = s"
    using cache_find_Some [OF Some] assms(1) by (simp_all add: sd_inv_def)
  have e: "?c ! j \<in> set ?c" using j(1) by simp
  have hit: "ce_data (?c ! j) = disk_sector (sd_disk sd) s"
    using assms(1) e j(2,3) by (auto simp: sd_inv_def)
  let ?e = "(?c ! j)\<lparr>ce_lru := now\<rparr>"
  have "set (?c[j := ?e]) \<subseteq> insert ?e (set ?c)" by (rule set_update_subset_insert)
  then have "sd_inv (sd\<lparr>sd_cache := ?c[j := ?e]\<rparr>)"
    using assms hit j unfolding sd_inv_def by auto
  then show ?thesis using Some hit by (simp add: SynchDisk_ReadSector_def sd_content_def Let_def)
next
  case None
  let ?c = "sd_cache sd"
  have d: "disk_inv (sd_disk sd)" "\<not> d_active (sd_disk sd)" using assms(1) by (simp_all add: sd_inv_def)
  obtain d' where d': "Disk_ReadRequest (sd_disk sd) now s =
      Inr (disk_sector (sd_disk sd) s, Disk_ComputeLatency (sd_disk sd) now s False, d')"
    "disk_inv d'" "disk_sector d' = disk_sector (sd_disk sd)"
    using ReadRequest_ok [OF d assms(2,3), of now] by blast
  let ?e = "\<lparr>ce_valid = 1, ce_dirty = 0, ce_sector = s, ce_lru = now,
      ce_data = disk_sector (sd_disk sd) s\<rparr>"
  let ?c' = "?c[cache_victim ?c 0 0 := ?e]"
  have "set ?c' \<subseteq> insert ?e (set ?c)" by (rule set_update_subset_insert)
  then have "sd_inv \<lparr>sd_disk = Disk_CallBack d', sd_cache = ?c'\<rparr>"
    using assms d'(2,3) unfolding sd_inv_def by auto
  then show ?thesis
    using None d'(1,3) by (simp add: SynchDisk_ReadSector_def sd_content_def Let_def)
qed

lemma sd_write_ok:
  assumes "sd_inv sd" "0 \<le> s" "s < NumSectors" "nat SectorSize \<le> length data"
  shows "\<exists>sd'. SynchDisk_WriteSector sd now s data = Inr sd' \<and> sd_inv sd'
    \<and> (\<forall>t. 0 \<le> t \<and> t < NumSectors \<longrightarrow>
        sd_content sd' t = (if t = s then take (nat SectorSize) data else sd_content sd t))"
proof -
  have d: "disk_inv (sd_disk sd)" "\<not> d_active (sd_disk sd)" using assms(1) by (simp_all add: sd_inv_def)
  let ?data = "take (nat SectorSize) data"
  have len: "length ?data = 128" using assms(4) by (simp add: SectorSize_def)
  obtain d' where d': "Disk_WriteRequest (sd_disk sd) now s ?data =
      Inr (Disk_ComputeLatency (sd_disk sd) now s True, d')" "disk_inv d'"
    "\<forall>t. 0 \<le> t \<and> t < NumSectors \<longrightarrow> disk_sector d' t = (if t = s then ?data else disk_sector (sd_disk sd) t)"
    using WriteRequest_ok [OF d assms(2,3) len, of now] by blast
  have req: "Disk_WriteRequest (sd_disk sd) now s data = Disk_WriteRequest (sd_disk sd) now s ?data"
    using assms(4) by (simp add: Disk_WriteRequest_def min_def Let_def)
  let ?f = "\<lambda>e. if ce_sector e = s then e\<lparr>ce_valid := - 1\<rparr> else e"
  let ?sd = "\<lparr>sd_disk = Disk_CallBack d', sd_cache = map ?f (sd_cache sd)\<rparr>"
  have "sd_inv ?sd"
    using assms(1) d'(2,3) by (auto simp: sd_inv_def)
  then show ?thesis
    using d'(1,3) req by (simp add: SynchDisk_WriteSector_def sd_content_def Let_def)
qed

lemma sd_bad:
  assumes "sd_inv sd" "\<not> (0 \<le> s \<and> s < NumSectors)"
  shows "SynchDisk_ReadSector sd now s = Inl Assert_Failed"
    and "SynchDisk_WriteSector sd now s data = Inl Assert_Failed"
proof -
  have "cache_find (sd_cache sd) s 0 = None"
  proof (rule ccontr)
    assume "cache_find (sd_cache sd) s 0 \<noteq> None"
    then obtain j where j: "cache_find (sd_cache sd) s 0 = Some j" by auto
    from cache_find_Some [OF j] assms(1) have "sd_cache sd ! j \<in> set (sd_cache sd)"
      "ce_valid (sd_cache sd ! j) = 1" "ce_sector (sd_cache sd ! j) = s" by (auto simp: sd_inv_def)
    with assms show False by (auto simp: sd_inv_def)
  qed
  then show "SynchDisk_ReadSector sd now s = Inl Assert_Failed"
    using assms by (auto simp: SynchDisk_ReadSector_def Disk_ReadRequest_def sd_inv_def Let_def)
  show "SynchDisk_WriteSector sd now s data = Inl Assert_Failed"
    using assms by (auto simp: SynchDisk_WriteSector_def Disk_WriteRequest_def sd_inv_def Let_def)
qed

interpretation synch: sector_device sd_inv sd_content SynchDisk_ReadSector SynchDisk_WriteSector
proof (unfold_locales, goal_cases)
  case (1 d s now)
  then show ?case by (rule sd_read_ok)
next
  case (2 d s data now)
  then show ?case by (rule sd_write_ok)
next
  case (5 d s data now)
  then show ?case by (simp add: SynchDisk_WriteSector_def Disk_WriteRequest_def sd_inv_def Let_def)
qed (simp_all only: sd_bad simp_thms)

section \<open>Properties\<close>

datatype disk_call = Call_Read int int | Call_Write int int "byte list"

fun call_synchdisk :: "disk_call \<Rightarrow> synchdisk \<Rightarrow> (byte list option \<times> synchdisk) res" where
  "call_synchdisk (Call_Read now s) sd =
     bindE (SynchDisk_ReadSector sd now s) (\<lambda>(x, sd'). Inr (Some x, sd'))"
| "call_synchdisk (Call_Write now s data) sd =
     bindE (SynchDisk_WriteSector sd now s data) (\<lambda>sd'. Inr (None, sd'))"

fun call_store :: "disk_call \<Rightarrow> store \<Rightarrow> (byte list option \<times> store) res" where
  "call_store (Call_Read now s) st = bindE (ReadSector st s) (\<lambda>x. Inr (Some x, st))"
| "call_store (Call_Write now s data) st = bindE (WriteSector st s data) (\<lambda>st'. Inr (None, st'))"

text \<open>The sectors on the raw disk are those of the array.\<close>

definition same_sectors :: "synchdisk \<Rightarrow> store \<Rightarrow> bool" where
  "same_sectors sd st \<longleftrightarrow> (\<forall>s. 0 \<le> s \<and> s < NumSectors \<longrightarrow> disk_sector (sd_disk sd) s = st s)"

lemma call_agree: "synch.matches sd st \<Longrightarrow> agree synch.matches (call_synchdisk c sd) (call_store c st)"
proof (cases c)
  case (Call_Read now s)
  assume "synch.matches sd st"
  from synch.read_matches [OF this, of now s] Call_Read show ?thesis
    by (auto simp: agree_def bindE_def split: sum.splits prod.splits)
next
  case (Call_Write now s data)
  assume "synch.matches sd st"
  from synch.write_matches [OF this, of now s data] Call_Write show ?thesis
    by (auto simp: agree_def bindE_def split: sum.splits prod.splits)
qed

text \<open>
  C22. The sector cache is invisible. On a freshly created disk, whatever the initial garbage in
  the cache entries, any sequence of sector reads and writes at any times returns exactly what a
  plain array of sectors, initially all zero, would return: no stale sector is ever served, and an
  out-of-range sector number is the only way to fail an assertion.
\<close>

theorem synchdisk_refines_store:
  "\<exists>sd. SynchDisk_new junk None = Inr sd \<and>
     agree same_sectors
       (run_calls call_synchdisk cs sd) (run_calls call_store cs (\<lambda>s. replicate 128 0))"
proof -
  obtain d where d: "Disk_new None 0 0 = Inr d" "disk_inv d" "\<not> d_active d"
    "\<forall>s. 0 \<le> s \<and> s < NumSectors \<longrightarrow> disk_sector d s = replicate 128 0"
    using Disk_new_inv [of 0 0] by blast
  let ?sd = "\<lparr>sd_disk = d, sd_cache = map (\<lambda>i. (junk i)\<lparr>ce_valid := - 1\<rparr>) [0..<DiskCacheSize]\<rparr>"
  have "synch.matches ?sd (\<lambda>s. replicate 128 0)"
    using d by (simp add: synch.matches_def sd_inv_def sd_content_def)
  from run_calls_agree [of synch.matches call_synchdisk call_store, OF call_agree this]
  have "agree synch.matches (run_calls call_synchdisk cs ?sd) (run_calls call_store cs (\<lambda>s. replicate 128 0))" .
  then have "agree same_sectors
       (run_calls call_synchdisk cs ?sd) (run_calls call_store cs (\<lambda>s. replicate 128 0))"
    by (auto simp: agree_def synch.matches_def same_sectors_def sd_content_def split: sum.splits prod.splits)
  with d(1) show ?thesis by (simp add: SynchDisk_new_def)
qed

end
