(* ===== verification/File_Header.thy ===== *)
theory File_Header
  imports Bitmap Synch_Disk
begin

text \<open>
  filesys/filehdr.h and filesys/filehdr.cc: the file header (i-node), one sector on disk: 24
  direct block numbers and one index block of 32 more.

  The header is a record and \<open>FileHeader_bytes\<close> its image in memory and on disk (32 integers).
  The disk is a \<open>store\<close> (see Synch_Disk), the free map a \<open>bitmap\<close>. Enumeration values travel
  through the disk as integers, so \<open>FileType\<close> is modelled by its integer constants.
  \<open>kernel->stats->totalTicks\<close> and the fields a constructor leaves uninitialised are arguments.

  \<open>fh_blocks\<close> is the list of data blocks a header describes, in file order, and \<open>fh_inv\<close>
  the invariant that ties header, free map and index block together. The lemmas show how
  \<open>Allocate\<close> extends the list, how \<open>ByteToSector\<close> indexes it, and what \<open>Deallocate\<close>
  really gives back.
\<close>

section \<open>The class\<close>

definition NumDirect :: int where "NumDirect = (SectorSize - 8 * 4) div 4"
definition NumInDirect :: int where "NumInDirect = SectorSize div 4"
definition MaxFileSize :: int where "MaxFileSize = (NumDirect + NumInDirect) * SectorSize"

definition TYPE_FILE :: int where "TYPE_FILE = 0"
definition TYPE_DIR :: int where "TYPE_DIR = 1"
definition TYPE_PIPE :: int where "TYPE_PIPE = 2"
definition TYPE_UNKNOWN :: int where "TYPE_UNKNOWN = 3"

record FileHeader =
  fh_limit :: int
  fh_capacity :: int
  fh_nsectors :: int
  fh_selfSector :: int
  fh_type :: int
  fh_createTime :: int
  fh_modifyTime :: int
  fh_dataSectors :: "int list"

text \<open>An \<open>int\<close> converted to \<open>unsigned\<close>, as happens in comparisons with the unsigned constants.\<close>

definition uns :: "int \<Rightarrow> int" where
  "uns i = i mod 2 ^ 32"

definition FileHeader_new :: "int \<Rightarrow> int \<Rightarrow> int \<Rightarrow> int \<Rightarrow> FileHeader" where
  "FileHeader_new selfSector type now junkModifyTime =
     \<lparr>fh_limit = 0, fh_capacity = 0, fh_nsectors = 0, fh_selfSector = selfSector, fh_type = type,
      fh_createTime = now, fh_modifyTime = junkModifyTime, fh_dataSectors = replicate 25 0\<rparr>"

definition FileHeader_bytes :: "FileHeader \<Rightarrow> byte list" where
  "FileHeader_bytes h = bytes_of_ints ([fh_limit h, fh_capacity h, fh_nsectors h, fh_selfSector h,
     fh_type h, fh_createTime h, fh_modifyTime h] @ fh_dataSectors h)"

definition FileHeader_of_bytes :: "byte list \<Rightarrow> FileHeader" where
  "FileHeader_of_bytes bs = (let xs = ints_of_bytes 32 bs in
     \<lparr>fh_limit = xs ! 0, fh_capacity = xs ! 1, fh_nsectors = xs ! 2, fh_selfSector = xs ! 3,
      fh_type = xs ! 4, fh_createTime = xs ! 5, fh_modifyTime = xs ! 6, fh_dataSectors = drop 7 xs\<rparr>)"

definition FileHeader_FetchFrom :: "store \<Rightarrow> int \<Rightarrow> FileHeader res" where
  "FileHeader_FetchFrom st sector = bindE (ReadSector st sector) (\<lambda>bs. Inr (FileHeader_of_bytes bs))"

definition FileHeader_WriteBack :: "FileHeader \<Rightarrow> store \<Rightarrow> int \<Rightarrow> store res" where
  "FileHeader_WriteBack h st sector = WriteSector st sector (FileHeader_bytes h)"

definition FileHeader_FileLimit :: "FileHeader \<Rightarrow> int" where
  "FileHeader_FileLimit h = fh_limit h"

definition FileHeader_FileCapacity :: "FileHeader \<Rightarrow> int" where
  "FileHeader_FileCapacity h = fh_capacity h"

definition FileHeader_setFileLimit :: "FileHeader \<Rightarrow> int \<Rightarrow> bool \<times> FileHeader" where
  "FileHeader_setFileLimit h position =
     (if position < 0 \<or> position > fh_capacity h then (False, h)
      else (True, h\<lparr>fh_limit := position\<rparr>))"

text \<open>The loop over the direct blocks: \<open>n\<close> blocks are still wanted.\<close>

function alloc_direct :: "int \<Rightarrow> int \<Rightarrow> int list \<Rightarrow> bitmap \<Rightarrow> (int \<times> int list \<times> bitmap) res" where
  "alloc_direct i n ds fm =
     (if uns i < NumDirect \<and> n > 0
      then bindE (Bitmap_FindAndSet fm) (\<lambda>(s, fm1).
           bindE (arr_set ds i s) (\<lambda>ds1.
           bindE (assertE (s > 0)) (\<lambda>_. alloc_direct (i + 1) (n - 1) ds1 fm1)))
      else Inr (n, ds, fm))"
  by pat_completeness auto
termination
  by (relation "measure (\<lambda>(i, n, ds, fm). nat n)") auto

function alloc_indirect :: "int \<Rightarrow> int \<Rightarrow> int list \<Rightarrow> bitmap \<Rightarrow> (int \<times> int list \<times> bitmap) res" where
  "alloc_indirect i n ind fm =
     (if i < NumInDirect \<and> n > 0
      then bindE (arr_get ind i) (\<lambda>e.
           if e = 0
           then bindE (Bitmap_FindAndSet fm) (\<lambda>(s, fm1).
                bindE (arr_set ind i s) (\<lambda>ind1.
                bindE (assertE (s \<ge> 0)) (\<lambda>_. alloc_indirect (i + 1) (n - 1) ind1 fm1)))
           else alloc_indirect (i + 1) n ind fm)
      else Inr (n, ind, fm))"
  by pat_completeness auto
termination
  by (relation "measure (\<lambda>(i, n, ds, fm). nat (NumInDirect - i))") auto

declare alloc_direct.simps [simp del] alloc_indirect.simps [simp del]

definition FileHeader_Allocate :: "FileHeader \<Rightarrow> bitmap \<Rightarrow> store \<Rightarrow> int
    \<Rightarrow> (bool \<times> FileHeader \<times> bitmap \<times> store) res" where
  "FileHeader_Allocate h freeMap st sz =
     (if sz = 0 then Inr (True, h, freeMap, st)
      else if sz < 0 \<or> uns (sz + fh_capacity h) > MaxFileSize then Inr (False, h, freeMap, st)
      else
        let N = divRoundUp sz SectorSize in
        bindE (Bitmap_NumClear freeMap) (\<lambda>clear.
        if clear < N then Inr (False, h, freeMap, st)
        else
          bindE (alloc_direct (fh_nsectors h) N (fh_dataSectors h) freeMap) (\<lambda>(n, ds, fm1).
          let done_hdr = (\<lambda>ds. h\<lparr>fh_dataSectors := ds, fh_nsectors := fh_nsectors h + N,
                                 fh_capacity := (fh_nsectors h + N) * SectorSize\<rparr>) in
          if n = 0 then Inr (True, done_hdr ds, fm1, st)
          else
            bindE (arr_get ds NumDirect) (\<lambda>idx0.
            bindE (if idx0 = 0
                   then bindE (Bitmap_FindAndSet fm1) (\<lambda>(idx, fm2).
                        bindE (assertE (idx \<ge> 0)) (\<lambda>_.
                        bindE (WriteSector st idx (bytes_of_ints (replicate 32 0))) (\<lambda>st1.
                        Inr (idx, ds[nat NumDirect := idx], fm2, st1))))
                   else Inr (idx0, ds, fm1, st)) (\<lambda>(idx, ds2, fm2, st1).
            bindE (ReadSector st1 idx) (\<lambda>bs.
            bindE (alloc_indirect 0 n (ints_of_bytes 32 bs) fm2) (\<lambda>(n2, ind, fm3).
            if n2 = 0
            then bindE (WriteSector st1 idx (bytes_of_ints ind)) (\<lambda>st2.
                 Inr (True, done_hdr ds2, fm3, st2))
            else Inr (False, h\<lparr>fh_dataSectors := ds2\<rparr>, fm3, st1))))))))"

function dealloc_direct :: "int \<Rightarrow> int \<Rightarrow> int list \<Rightarrow> bitmap \<Rightarrow> (int list \<times> bitmap) res" where
  "dealloc_direct i nsectors ds fm =
     (if i < nsectors \<and> i < NumDirect
      then bindE (arr_get ds i) (\<lambda>s.
           bindE (Bitmap_Test fm s) (\<lambda>t.
           if t then bindE (Bitmap_Clear fm s) (\<lambda>fm1.
                     bindE (arr_set ds i 0) (\<lambda>ds1. dealloc_direct (i + 1) nsectors ds1 fm1))
           else dealloc_direct (i + 1) nsectors ds fm))
      else Inr (ds, fm))"
  by pat_completeness auto
termination
  by (relation "measure (\<lambda>(i, ns, ds, fm). nat (NumDirect - i))") auto

fun dealloc_indirect :: "int list \<Rightarrow> bitmap \<Rightarrow> bitmap res" where
  "dealloc_indirect [] fm = Inr fm"
| "dealloc_indirect (s # ss) fm =
     bindE (Bitmap_Test fm s) (\<lambda>t.
     if t then bindE (Bitmap_Clear fm s) (dealloc_indirect ss) else dealloc_indirect ss fm)"

declare dealloc_direct.simps [simp del]

definition FileHeader_Deallocate :: "FileHeader \<Rightarrow> bitmap \<Rightarrow> store \<Rightarrow> (FileHeader \<times> bitmap) res" where
  "FileHeader_Deallocate h freeMap st =
     bindE (dealloc_direct 0 (fh_nsectors h) (fh_dataSectors h) freeMap) (\<lambda>(ds, fm1).
     bindE (if uns (fh_nsectors h) > NumDirect
            then bindE (arr_get ds NumDirect) (\<lambda>idx.
                 bindE (ReadSector st idx) (\<lambda>bs.
                 bindE (dealloc_indirect (ints_of_bytes 32 bs) fm1) (\<lambda>fm2. Bitmap_Clear fm2 idx)))
            else Inr fm1) (\<lambda>fm3.
     bindE (arr_set ds NumDirect 0) (\<lambda>ds2.
     Inr (h\<lparr>fh_dataSectors := ds2, fh_limit := 0, fh_capacity := 0, fh_nsectors := 0\<rparr>, fm3))))"

definition FileHeader_ByteToSector :: "FileHeader \<Rightarrow> store \<Rightarrow> int \<Rightarrow> int res" where
  "FileHeader_ByteToSector h st offset =
     (let n = offset sdiv SectorSize in
      if uns n < NumDirect
      then bindE (arr_get (fh_dataSectors h) n) (\<lambda>s. bindE (assertE (s > 0)) (\<lambda>_. Inr s))
      else bindE (arr_get (fh_dataSectors h) NumDirect) (\<lambda>idx.
           bindE (assertE (idx > 0)) (\<lambda>_.
           bindE (ReadSector st idx) (\<lambda>bs.
           bindE (arr_get (ints_of_bytes 32 bs) (n - NumDirect)) (\<lambda>s.
           bindE (assertE (s > 0)) (\<lambda>_. Inr s))))))"

text \<open>\<open>Print\<close>: the block numbers it lists, direct ones first.\<close>

definition FileHeader_Print :: "FileHeader \<Rightarrow> store \<Rightarrow> (int list \<times> int list) res" where
  "FileHeader_Print h st =
     bindE (if uns (fh_nsectors h) > NumDirect
            then bindE (arr_get (fh_dataSectors h) NumDirect) (\<lambda>idx.
                 bindE (ReadSector st idx) (\<lambda>bs. Inr (filter (\<lambda>s. s \<noteq> 0) (ints_of_bytes 32 bs))))
            else Inr []) (\<lambda>ind.
     Inr (filter (\<lambda>s. s > 0) (take (nat (min (fh_nsectors h) NumDirect)) (fh_dataSectors h)), ind))"

section \<open>On disk\<close>

lemma fh_consts [simp]: "NumDirect = 24" "NumInDirect = 32" "MaxFileSize = 7168" "SectorSize = 128"
  by (simp_all add: NumDirect_def NumInDirect_def MaxFileSize_def SectorSize_def)

lemma NumSectors_1024 [simp]: "NumSectors = 1024"
  by (simp add: NumSectors_def SectorsPerTrack_def NumTracks_def)

lemma uns_small [simp]: "0 \<le> i \<Longrightarrow> i < 2 ^ 32 \<Longrightarrow> uns i = i"
  by (simp add: uns_def)

definition fh_ints :: "FileHeader \<Rightarrow> int list" where
  "fh_ints h = [fh_limit h, fh_capacity h, fh_nsectors h, fh_selfSector h, fh_type h,
     fh_createTime h, fh_modifyTime h] @ fh_dataSectors h"

definition fh_wf :: "FileHeader \<Rightarrow> bool" where
  "fh_wf h \<longleftrightarrow> length (fh_dataSectors h) = 25 \<and> (\<forall>x \<in> set (fh_ints h). int_ok x)"

lemma FileHeader_bytes_length: "fh_wf h \<Longrightarrow> length (FileHeader_bytes h) = 128"
  by (simp add: FileHeader_bytes_def fh_wf_def)

lemma FileHeader_roundtrip: "fh_wf h \<Longrightarrow> FileHeader_of_bytes (FileHeader_bytes h) = h"
proof -
  assume wf: "fh_wf h"
  have "FileHeader_bytes h = bytes_of_ints (fh_ints h)"
    by (simp add: FileHeader_bytes_def fh_ints_def)
  moreover have "length (fh_ints h) = 32" using wf by (simp add: fh_wf_def fh_ints_def)
  ultimately have "ints_of_bytes 32 (FileHeader_bytes h) = fh_ints h"
    using ints_of_bytes_of_ints [of "fh_ints h" "[]"] wf by (simp add: fh_wf_def)
  then show ?thesis by (simp add: FileHeader_of_bytes_def Let_def fh_ints_def)
qed

section \<open>Blocks\<close>

definition index_ints :: "FileHeader \<Rightarrow> store \<Rightarrow> int list" where
  "index_ints h st = ints_of_bytes 32 (st (fh_dataSectors h ! 24))"

definition fh_blocks :: "FileHeader \<Rightarrow> store \<Rightarrow> int list" where
  "fh_blocks h st = take (nat (fh_nsectors h)) (take 24 (fh_dataSectors h) @ index_ints h st)"

text \<open>The sectors a header owns besides its own: its data blocks and its index block.\<close>

definition fh_owned :: "FileHeader \<Rightarrow> store \<Rightarrow> int set" where
  "fh_owned h st = set (fh_blocks h st) \<union> (if fh_nsectors h > 24 then {fh_dataSectors h ! 24} else {})"

definition fh_shape :: "FileHeader \<Rightarrow> bool" where
  "fh_shape h \<longleftrightarrow> length (fh_dataSectors h) = 25 \<and> 0 \<le> fh_nsectors h \<and> fh_nsectors h \<le> 56
     \<and> fh_capacity h = fh_nsectors h * 128 \<and> 0 \<le> fh_limit h \<and> fh_limit h \<le> fh_capacity h"

definition map_ok :: "bitmap \<Rightarrow> bool" where
  "map_ok fm \<longleftrightarrow> bm_inv fm \<and> bm_numBits fm = NumSectors \<and> 0 \<in> bm_used fm"

definition fh_inv :: "FileHeader \<Rightarrow> bitmap \<Rightarrow> store \<Rightarrow> bool" where
  "fh_inv h fm st \<longleftrightarrow> fh_shape h \<and> distinct (fh_blocks h st) \<and> fh_owned h st \<subseteq> bm_used fm - {0}
     \<and> (fh_nsectors h > 24 \<longrightarrow> fh_dataSectors h ! 24 \<notin> set (fh_blocks h st)
          \<and> length (st (fh_dataSectors h ! 24)) = 128
          \<and> (\<forall>i < 32. nat (fh_nsectors h - 24) \<le> i \<longrightarrow> index_ints h st ! i = 0))
     \<and> (fh_nsectors h \<le> 24 \<longrightarrow> fh_dataSectors h ! 24 = 0)"

definition bm_free :: "bitmap \<Rightarrow> int" where
  "bm_free fm = bm_numBits fm - int (card (bm_used fm))"

lemma length_index_ints [simp]: "length (index_ints h st) = 32"
  by (simp add: index_ints_def)

lemma fh_blocks_length: "fh_shape h \<Longrightarrow> length (fh_blocks h st) = nat (fh_nsectors h)"
  by (auto simp: fh_blocks_def fh_shape_def)

lemma used_range: "map_ok fm \<Longrightarrow> s \<in> bm_used fm \<Longrightarrow> 0 \<le> s \<and> s < 1024"
  by (auto simp: map_ok_def bm_used_def)

lemma NumClear_free: "map_ok fm \<Longrightarrow> Bitmap_NumClear fm = Inr (bm_free fm)"
  using NumClear_ok [of fm] by (simp add: map_ok_def bm_free_def)

text \<open>Taking one block from a free map that has one.\<close>

lemma take_one:
  assumes "map_ok fm" "0 < bm_free fm"
  obtains s fm' where "Bitmap_FindAndSet fm = Inr (s, fm')" "0 < s" "s < 1024" "s \<notin> bm_used fm"
    "bm_used fm' = insert s (bm_used fm)" "map_ok fm'" "bm_free fm' = bm_free fm - 1"
proof -
  have inv: "bm_inv fm" using assms(1) by (simp add: map_ok_def)
  have "bm_used fm \<noteq> {0..<bm_numBits fm}"
    using bm.free_if_count [OF inv NumClear_ok [OF inv]] assms(2) by (simp add: bm_free_def)
  then obtain s fm' where s: "Bitmap_FindAndSet fm = Inr (s, fm')" "0 \<le> s" "s < bm_numBits fm"
    "s \<notin> bm_used fm" "bm_used fm' = insert s (bm_used fm)" "bm_inv fm'" "bm_numBits fm' = bm_numBits fm"
    using bm.take_free [OF inv] by blast
  show thesis
  proof (rule that [OF s(1)])
    show "0 < s" using s(2,4) assms(1) by (cases "s = 0") (auto simp: map_ok_def)
    show "s < 1024" using s(3) assms(1) by (simp add: map_ok_def)
    show "map_ok fm'" using s(5-7) assms(1) by (simp add: map_ok_def)
    show "bm_free fm' = bm_free fm - 1" using s(4,5,7) by (simp add: bm_free_def)
  qed (use s in auto)
qed

lemma overwrite_cons: "i < length xs \<Longrightarrow> overwrite (Suc i) ys (xs[i := y]) = overwrite i (y # ys) xs"
  by (simp add: overwrite_def take_Suc_conv_app_nth)

lemma alloc_direct_ok:
  assumes "map_ok fm" "0 \<le> i" "i \<le> 24" "0 \<le> n" "length ds = 25" "min n (24 - i) \<le> bm_free fm"
  shows "\<exists>new fm'. alloc_direct i n ds fm = Inr (n - int (length new), overwrite (nat i) new ds, fm')
    \<and> int (length new) = min n (24 - i) \<and> distinct new \<and> set new \<inter> bm_used fm = {}
    \<and> set new \<subseteq> {1..<1024} \<and> bm_used fm' = bm_used fm \<union> set new \<and> map_ok fm'
    \<and> bm_free fm' = bm_free fm - int (length new)"
  using assms
proof (induction "nat n" arbitrary: i n ds fm)
  case 0
  have "alloc_direct i n ds fm = Inr (n, ds, fm)" using 0 by (subst alloc_direct.simps) simp
  with 0 show ?case by (intro exI [of _ "[]"]) (simp add: overwrite_def)
next
  case (Suc k)
  show ?case
  proof (cases "i < 24")
    case False
    then have "alloc_direct i n ds fm = Inr (n, ds, fm)"
      using Suc.prems by (subst alloc_direct.simps) simp
    with False Suc.prems show ?thesis by (intro exI [of _ "[]"]) (simp add: overwrite_def)
  next
    case True
    have n: "0 < n" using Suc.hyps(2) by simp
    then have "0 < bm_free fm" using Suc.prems(6) True by simp
    with Suc.prems(1) obtain s fm1 where s: "Bitmap_FindAndSet fm = Inr (s, fm1)" "0 < s" "s < 1024"
      "s \<notin> bm_used fm" "bm_used fm1 = insert s (bm_used fm)" "map_ok fm1" "bm_free fm1 = bm_free fm - 1"
      by (rule take_one)
    have step: "alloc_direct i n ds fm = alloc_direct (i + 1) (n - 1) (ds[nat i := s]) fm1"
      using True n s Suc.prems by (simp add: alloc_direct.simps [of i n])
    have k: "k = nat (n - 1)" using Suc.hyps(2) by simp
    have pre: "0 \<le> i + 1" "i + 1 \<le> 24" "0 \<le> n - 1" "length (ds[nat i := s]) = 25"
      using True n Suc.prems by simp_all
    have fr: "min (n - 1) (24 - (i + 1)) \<le> bm_free fm1"
      using Suc.prems(6) s(7) by (simp add: min_def split: if_splits)
    obtain new fm' where new:
      "alloc_direct (i + 1) (n - 1) (ds[nat i := s]) fm1 =
         Inr (n - 1 - int (length new), overwrite (nat (i + 1)) new (ds[nat i := s]), fm')"
      "int (length new) = min (n - 1) (24 - (i + 1))" "distinct new" "set new \<inter> bm_used fm1 = {}"
      "set new \<subseteq> {1..<1024}" "bm_used fm' = bm_used fm1 \<union> set new" "map_ok fm'"
      "bm_free fm' = bm_free fm1 - int (length new)"
      using Suc.hyps(1) [OF k s(6) pre fr] by blast
    have "overwrite (nat (i + 1)) new (ds[nat i := s]) = overwrite (nat i) (s # new) ds"
      using overwrite_cons [of "nat i" ds new s] Suc.prems(2,3,5) True by (simp add: nat_add_distrib)
    with new s step True n show ?thesis by (intro exI [of _ "s # new"] exI [of _ fm']) auto
  qed
qed

lemma alloc_indirect_skip:
  assumes "0 \<le> i" "i \<le> k" "k \<le> 32" "0 < n" "length ind = 32"
    and "\<And>j. i \<le> j \<Longrightarrow> j < k \<Longrightarrow> ind ! nat j \<noteq> 0"
  shows "alloc_indirect i n ind fm = alloc_indirect k n ind fm"
  using assms
proof (induction "nat (k - i)" arbitrary: i)
  case 0
  then show ?case by simp
next
  case (Suc x)
  then have i: "i < k" by simp
  have "ind ! nat i \<noteq> 0" using Suc.prems(6) [of i] i by simp
  then have "alloc_indirect i n ind fm = alloc_indirect (i + 1) n ind fm"
    using i Suc.prems by (simp add: alloc_indirect.simps [of i n])
  also have "\<dots> = alloc_indirect k n ind fm"
    using Suc.hyps(2) Suc.prems i by (intro Suc.hyps(1)) auto
  finally show ?case .
qed

lemma alloc_indirect_ok:
  assumes "map_ok fm" "0 \<le> i" "i \<le> 32" "0 \<le> n" "length ind = 32" "min n (32 - i) \<le> bm_free fm"
    and "\<And>j. nat i \<le> j \<Longrightarrow> j < 32 \<Longrightarrow> ind ! j = 0"
  shows "\<exists>new fm'. alloc_indirect i n ind fm = Inr (n - int (length new), overwrite (nat i) new ind, fm')
    \<and> int (length new) = min n (32 - i) \<and> distinct new \<and> set new \<inter> bm_used fm = {}
    \<and> set new \<subseteq> {1..<1024} \<and> bm_used fm' = bm_used fm \<union> set new \<and> map_ok fm'
    \<and> bm_free fm' = bm_free fm - int (length new)"
  using assms
proof (induction "nat n" arbitrary: i n ind fm)
  case 0
  have "alloc_indirect i n ind fm = Inr (n, ind, fm)" using 0 by (subst alloc_indirect.simps) simp
  with 0 show ?case by (intro exI [of _ "[]"]) (simp add: overwrite_def)
next
  case (Suc k)
  show ?case
  proof (cases "i < 32")
    case False
    then have "alloc_indirect i n ind fm = Inr (n, ind, fm)"
      using Suc.prems by (subst alloc_indirect.simps) simp
    with False Suc.prems show ?thesis by (intro exI [of _ "[]"]) (simp add: overwrite_def)
  next
    case True
    have n: "0 < n" using Suc.hyps(2) by simp
    then have "0 < bm_free fm" using Suc.prems(6) True by simp
    with Suc.prems(1) obtain s fm1 where s: "Bitmap_FindAndSet fm = Inr (s, fm1)" "0 < s" "s < 1024"
      "s \<notin> bm_used fm" "bm_used fm1 = insert s (bm_used fm)" "map_ok fm1" "bm_free fm1 = bm_free fm - 1"
      by (rule take_one)
    have "ind ! nat i = 0" using Suc.prems(7) [of "nat i"] Suc.prems(2) True by simp
    then have step: "alloc_indirect i n ind fm = alloc_indirect (i + 1) (n - 1) (ind[nat i := s]) fm1"
      using True n s Suc.prems by (simp add: alloc_indirect.simps [of i n])
    have k: "k = nat (n - 1)" using Suc.hyps(2) by simp
    have pre: "0 \<le> i + 1" "i + 1 \<le> 32" "0 \<le> n - 1" "length (ind[nat i := s]) = 32"
      using True n Suc.prems by simp_all
    have fr: "min (n - 1) (32 - (i + 1)) \<le> bm_free fm1"
      using Suc.prems(6) s(7) by (simp add: min_def split: if_splits)
    have zero: "ind[nat i := s] ! j = 0" if "nat (i + 1) \<le> j" "j < 32" for j
      using Suc.prems(2,7) that by (simp add: nat_add_distrib nth_list_update)
    obtain new fm' where new:
      "alloc_indirect (i + 1) (n - 1) (ind[nat i := s]) fm1 =
         Inr (n - 1 - int (length new), overwrite (nat (i + 1)) new (ind[nat i := s]), fm')"
      "int (length new) = min (n - 1) (32 - (i + 1))" "distinct new" "set new \<inter> bm_used fm1 = {}"
      "set new \<subseteq> {1..<1024}" "bm_used fm' = bm_used fm1 \<union> set new" "map_ok fm'"
      "bm_free fm' = bm_free fm1 - int (length new)"
      using Suc.hyps(1) [OF k s(6) pre fr zero] by blast
    have "overwrite (nat (i + 1)) new (ind[nat i := s]) = overwrite (nat i) (s # new) ind"
      using overwrite_cons [of "nat i" ind new s] Suc.prems(2,3,5) True by (simp add: nat_add_distrib)
    with new s step True n show ?thesis by (intro exI [of _ "s # new"] exI [of _ fm']) auto
  qed
qed

lemma fh_blocks_direct:
  "fh_shape h \<Longrightarrow> fh_nsectors h \<le> 24 \<Longrightarrow> fh_blocks h st = take (nat (fh_nsectors h)) (fh_dataSectors h)"
  by (simp add: fh_blocks_def fh_shape_def min_def nat_le_iff)

lemma fh_blocks_indirect:
  "fh_shape h \<Longrightarrow> 24 < fh_nsectors h \<Longrightarrow>
   fh_blocks h st = take 24 (fh_dataSectors h) @ take (nat (fh_nsectors h - 24)) (index_ints h st)"
  by (simp add: fh_blocks_def fh_shape_def min_def nat_diff_distrib nat_le_iff)

lemma index_image:
  assumes "length ind = 32" "\<forall>x \<in> set ind. 0 \<le> x \<and> x < 1024"
  shows "ints_of_bytes 32 (bytes_of_ints ind) = ind" "length (bytes_of_ints ind) = 128"
proof -
  have "\<forall>x \<in> set ind. int_ok x" using assms(2) by (auto simp: int_ok_def)
  from ints_of_bytes_of_ints [OF this, of "[]"] assms(1) show "ints_of_bytes 32 (bytes_of_ints ind) = ind"
    by simp
qed (simp add: assms(1))

lemma alloc_direct_none: "24 \<le> i \<Longrightarrow> i \<le> 56 \<Longrightarrow> alloc_direct i n ds fm = Inr (n, ds, fm)"
  by (subst alloc_direct.simps) simp

text \<open>The header that \<open>Allocate\<close> builds on success.\<close>

definition grown :: "FileHeader \<Rightarrow> int \<Rightarrow> int list \<Rightarrow> FileHeader" where
  "grown h n ds = h\<lparr>fh_dataSectors := ds, fh_nsectors := fh_nsectors h + n,
     fh_capacity := (fh_nsectors h + n) * 128\<rparr>"

lemma grown_sel [simp]:
  "fh_dataSectors (grown h n ds) = ds" "fh_nsectors (grown h n ds) = fh_nsectors h + n"
  "fh_limit (grown h n ds) = fh_limit h" "fh_selfSector (grown h n ds) = fh_selfSector h"
  "fh_type (grown h n ds) = fh_type h"
  by (simp_all add: grown_def)

lemma grown_shape:
  "fh_shape h \<Longrightarrow> 0 \<le> n \<Longrightarrow> fh_nsectors h + n \<le> 56 \<Longrightarrow> length ds = 25 \<Longrightarrow> fh_shape (grown h n ds)"
  by (auto simp: fh_shape_def grown_def)

definition alloc_spec :: "FileHeader \<Rightarrow> bitmap \<Rightarrow> store \<Rightarrow> int \<Rightarrow> FileHeader \<Rightarrow> bitmap \<Rightarrow> store \<Rightarrow> bool" where
  "alloc_spec h fm st n h' fm' st' \<longleftrightarrow> map_ok fm' \<and> fh_inv h' fm' st'
     \<and> fh_nsectors h' = fh_nsectors h + n \<and> fh_limit h' = fh_limit h
     \<and> fh_selfSector h' = fh_selfSector h \<and> fh_type h' = fh_type h
     \<and> (\<exists>new. fh_blocks h' st' = fh_blocks h st @ new \<and> set new \<inter> bm_used fm = {})
     \<and> bm_used fm' = bm_used fm \<union> fh_owned h' st' \<and> fh_owned h' st' \<inter> bm_used fm \<subseteq> fh_owned h st
     \<and> (\<forall>s. st' s \<noteq> st s \<longrightarrow> 24 < fh_nsectors h' \<and> s = fh_dataSectors h' ! 24)"

lemma allocate_direct:
  assumes "map_ok fm" "fh_inv h fm st" "0 < n" "fh_nsectors h + n \<le> 24" "n \<le> bm_free fm"
  shows "\<exists>ds fm'. alloc_direct (fh_nsectors h) n (fh_dataSectors h) fm = Inr (0, ds, fm')
    \<and> alloc_spec h fm st n (grown h n ds) fm' st"
proof -
  let ?ns = "nat (fh_nsectors h)" and ?ds = "fh_dataSectors h"
  have sh: "fh_shape h" using assms(2) by (simp add: fh_inv_def)
  then have ns: "0 \<le> fh_nsectors h" "length ?ds = 25" by (simp_all add: fh_shape_def)
  have mn: "min n (24 - fh_nsectors h) = n" using assms(4) by simp
  obtain new fm' where new: "alloc_direct (fh_nsectors h) n ?ds fm =
      Inr (n - int (length new), overwrite ?ns new ?ds, fm')" "int (length new) = n" "distinct new"
    "set new \<inter> bm_used fm = {}" "set new \<subseteq> {1..<1024}" "bm_used fm' = bm_used fm \<union> set new" "map_ok fm'"
    using alloc_direct_ok [OF assms(1) ns(1) _ _ ns(2), of n] assms(3-5) mn by auto
  let ?h = "grown h n (overwrite ?ns new ?ds)"
  have len: "?ns + length new \<le> 24" using new(2) assms(3,4) ns(1) by linarith
  have ds: "length (overwrite ?ns new ?ds) = 25" using len ns(2) by simp
  have sh': "fh_shape ?h" using sh assms(3,4) ds by (intro grown_shape) simp_all
  have old: "fh_blocks h st = take ?ns ?ds" using fh_blocks_direct [OF sh] assms(3,4) by simp
  have ns': "nat (fh_nsectors h + n) = ?ns + length new" using new(2) ns(1) assms(3) by linarith
  have "fh_blocks ?h st = take (?ns + length new) (overwrite ?ns new ?ds)"
    using fh_blocks_direct [OF sh', of st] assms(4) ns' by (simp add: grown_def)
  also have "\<dots> = fh_blocks h st @ new"
    using len ns(2) old by (simp add: overwrite_def)
  finally have bl: "fh_blocks ?h st = fh_blocks h st @ new" .
  have owned: "fh_owned ?h st = set (fh_blocks h st) \<union> set new"
    using bl assms(4) by (simp add: fh_owned_def grown_def)
  have inv: "distinct (fh_blocks h st)" "set (fh_blocks h st) \<subseteq> bm_used fm - {0}"
    "?ds ! 24 = 0" using assms(2-4) by (auto simp: fh_inv_def fh_owned_def)
  have "fh_inv ?h fm' st"
    using sh' bl owned inv new(3-6) assms(4) len ns(2)
    by (auto simp: fh_inv_def grown_def nth_overwrite)
  then have "alloc_spec h fm st n ?h fm' st"
    using new bl owned inv(2) by (auto simp: alloc_spec_def grown_def fh_owned_def [of h])
  with new(1,2) show ?thesis by auto
qed

text \<open>Past the direct blocks: the index block receives the remaining block numbers.\<close>

lemma fill_index:
  assumes "map_ok fm" "length ind = 32" "k \<le> 32" "0 < r" "int k + r \<le> 32" "r \<le> bm_free fm"
    and "\<forall>x \<in> set (take k ind). 0 < x \<and> x < 1024" "\<forall>j < 32. k \<le> j \<longrightarrow> ind ! j = 0"
  shows "\<exists>new fm'. alloc_indirect 0 r ind fm = Inr (0, overwrite k new ind, fm')
    \<and> int (length new) = r \<and> distinct new \<and> set new \<inter> bm_used fm = {} \<and> set new \<subseteq> {1..<1024}
    \<and> bm_used fm' = bm_used fm \<union> set new \<and> map_ok fm'
    \<and> (\<forall>x \<in> set (overwrite k new ind). 0 \<le> x \<and> x < 1024)
    \<and> take (k + length new) (overwrite k new ind) = take k ind @ new
    \<and> (\<forall>j < 32. k + length new \<le> j \<longrightarrow> overwrite k new ind ! j = 0)"
proof -
  have pos: "ind ! nat j \<noteq> 0" if "0 \<le> j" "j < int k" for j
  proof -
    have "take k ind ! nat j \<in> set (take k ind)" using that assms(2,3) by (intro nth_mem) simp
    then show ?thesis using assms(7) that by fastforce
  qed
  have skip: "alloc_indirect 0 r ind fm = alloc_indirect (int k) r ind fm"
    using assms(2-4) pos by (intro alloc_indirect_skip) auto
  have mn: "min r (32 - int k) = r" using assms(5) by simp
  obtain new fm' where new: "alloc_indirect (int k) r ind fm =
      Inr (r - int (length new), overwrite k new ind, fm')" "int (length new) = r" "distinct new"
    "set new \<inter> bm_used fm = {}" "set new \<subseteq> {1..<1024}" "bm_used fm' = bm_used fm \<union> set new" "map_ok fm'"
    using alloc_indirect_ok [OF assms(1), of "int k" r ind] assms(2-6,8) mn by auto
  have len: "k + length new \<le> length ind" using new(2) assms(2,5) by simp
  have "x \<in> set (take k ind) \<or> x \<in> set new \<or> x = 0" if "x \<in> set (overwrite k new ind)" for x
  proof -
    from that consider "x \<in> set (take k ind)" | "x \<in> set new" | "x \<in> set (drop (k + length new) ind)"
      by (auto simp: overwrite_def)
    then show ?thesis
    proof cases
      case 3
      then obtain j where "x = ind ! (k + length new + j)" "k + length new + j < 32"
        using assms(2) by (auto simp: in_set_conv_nth)
      then show ?thesis using assms(8) by simp
    qed auto
  qed
  then have range: "\<forall>x \<in> set (overwrite k new ind). 0 \<le> x \<and> x < 1024"
    using assms(7) new(5) by fastforce
  moreover have "take (k + length new) (overwrite k new ind) = take k ind @ new"
    using len by (simp add: overwrite_def)
  moreover have "\<forall>j < 32. k + length new \<le> j \<longrightarrow> overwrite k new ind ! j = 0"
    using assms(2,8) len by (simp add: nth_overwrite)
  ultimately show ?thesis using skip new by (intro exI [of _ new] exI [of _ fm']) simp
qed

lemma allocate_index:
  assumes fm: "map_ok fm" and ds: "length ds = 25" "ds ! 24 = idx"
    and idx: "idx \<in> bm_used fm" "0 < idx"
    and ind: "length ind = 32" "k \<le> 32" "\<forall>j < 32. k \<le> j \<longrightarrow> ind ! j = 0"
    and bl: "distinct (take 24 ds @ take k ind)" "set (take 24 ds @ take k ind) \<subseteq> bm_used fm - {0, idx}"
    and r: "0 < r" "int k + r \<le> 32" "r \<le> bm_free fm"
    and h: "fh_shape h" "0 \<le> n" "fh_nsectors h + n = 24 + int k + r"
  shows "\<exists>ind' fm' E. alloc_indirect 0 r ind fm = Inr (0, ind', fm') \<and> length (bytes_of_ints ind') = 128
    \<and> fh_inv (grown h n ds) fm' (st(idx := bytes_of_ints ind'))
    \<and> fh_blocks (grown h n ds) (st(idx := bytes_of_ints ind')) = take 24 ds @ take k ind @ E
    \<and> map_ok fm' \<and> bm_used fm' = bm_used fm \<union> set E \<and> set E \<inter> bm_used fm = {}"
proof -
  have small: "\<forall>x \<in> set (take k ind). 0 < x \<and> x < 1024"
    using bl(2) used_range [OF fm] by fastforce
  obtain E fm' where E: "alloc_indirect 0 r ind fm = Inr (0, overwrite k E ind, fm')"
    "int (length E) = r" "distinct E" "set E \<inter> bm_used fm = {}" "set E \<subseteq> {1..<1024}"
    "bm_used fm' = bm_used fm \<union> set E" "map_ok fm'"
    "\<forall>x \<in> set (overwrite k E ind). 0 \<le> x \<and> x < 1024"
    "take (k + length E) (overwrite k E ind) = take k ind @ E"
    "\<forall>j < 32. k + length E \<le> j \<longrightarrow> overwrite k E ind ! j = 0"
    using fill_index [OF fm ind(1,2) r small ind(3)] by blast
  let ?ind = "overwrite k E ind" and ?h = "grown h n ds"
  let ?st = "st(idx := bytes_of_ints ?ind)"
  have len: "length ?ind = 32" using E(2) ind(1) r(2) by simp
  note image = index_image [OF len E(8)]
  have sh: "fh_shape ?h" using h r ds(1) by (intro grown_shape) simp_all
  have ns: "fh_nsectors ?h = 24 + int k + r" using h(3) by simp
  have ii: "index_ints ?h ?st = ?ind" using ds(2) image(1) by (simp add: index_ints_def)
  have cnt: "nat (fh_nsectors ?h - 24) = k + length E" using ns E(2) by simp
  have blocks: "fh_blocks ?h ?st = take 24 ds @ take k ind @ E"
    using fh_blocks_indirect [OF sh, of ?st] ns r(1) ii cnt E(9) by simp
  have eidx: "idx \<notin> set E" using E(4) idx(1) by blast
  have inv: "fh_inv ?h fm' ?st"
    unfolding fh_inv_def
  proof (intro conjI impI)
    show "distinct (fh_blocks ?h ?st)" unfolding blocks using bl E(3,4) by fastforce
    show "fh_owned ?h ?st \<subseteq> bm_used fm' - {0}"
      unfolding fh_owned_def blocks using bl(2) E(5,6) idx ns ds(2) by auto
    show "fh_dataSectors ?h ! 24 \<notin> set (fh_blocks ?h ?st)"
      unfolding blocks using bl(2) eidx ds(2) by auto
    show "length (?st (fh_dataSectors ?h ! 24)) = 128" using image(2) ds(2) by simp
    show "\<forall>i < 32. nat (fh_nsectors ?h - 24) \<le> i \<longrightarrow> index_ints ?h ?st ! i = 0"
      unfolding ii cnt using E(10) by simp
    show "fh_dataSectors ?h ! 24 = 0" if "fh_nsectors ?h \<le> 24" using that ns r(1) by simp
  qed (rule sh)
  show ?thesis using E inv blocks image(2) by (intro exI [of _ ?ind] exI [of _ fm'] exI [of _ E]) simp
qed

lemma zero_index: "ints_of_bytes 32 (bytes_of_ints (replicate 32 0)) = replicate 32 0"
  "length (bytes_of_ints (replicate 32 0)) = 128"
  using index_image [of "replicate 32 0"] by simp_all

lemma allocate_first_index:
  assumes "map_ok fm" "fh_inv h fm st" "fh_nsectors h \<le> 24" "24 < fh_nsectors h + n"
    "fh_nsectors h + n \<le> 56" "n + 1 \<le> bm_free fm" "uns (sz + fh_capacity h) \<le> MaxFileSize" "0 < sz"
    "n = divRoundUp sz 128"
  shows "\<exists>h' fm' st'. FileHeader_Allocate h fm st sz = Inr (True, h', fm', st')
    \<and> alloc_spec h fm st n h' fm' st'"
proof -
  let ?ns = "nat (fh_nsectors h)" and ?ds = "fh_dataSectors h"
  have sh: "fh_shape h" using assms(2) by (simp add: fh_inv_def)
  then have ns: "0 \<le> fh_nsectors h" "length ?ds = 25" by (simp_all add: fh_shape_def)
  have old: "fh_blocks h st = take ?ns ?ds" by (rule fh_blocks_direct [OF sh assms(3)])
  have own: "distinct (take ?ns ?ds)" "set (take ?ns ?ds) \<subseteq> bm_used fm - {0}" "?ds ! 24 = 0"
    using assms(2,3) old by (auto simp: fh_inv_def fh_owned_def)
  have n0: "0 \<le> n" and mn: "min n (24 - fh_nsectors h) = 24 - fh_nsectors h"
    and fr: "min n (24 - fh_nsectors h) \<le> bm_free fm"
    using assms(3,4,6) by simp_all
  obtain D fm1 where D: "alloc_direct (fh_nsectors h) n ?ds fm =
      Inr (n - int (length D), overwrite ?ns D ?ds, fm1)" "int (length D) = 24 - fh_nsectors h"
    "distinct D" "set D \<inter> bm_used fm = {}" "set D \<subseteq> {1..<1024}" "bm_used fm1 = bm_used fm \<union> set D"
    "map_ok fm1" "bm_free fm1 = bm_free fm - int (length D)"
    using alloc_direct_ok [OF assms(1) ns(1) assms(3) n0 ns(2) fr] unfolding mn by blast
  define r where "r = n - int (length D)"
  have r: "r = fh_nsectors h + n - 24" "0 < r" "r \<le> 32" using D(2) assms(4,5) by (simp_all add: r_def)
  define ds1 where "ds1 = overwrite ?ns D ?ds"
  have len1: "?ns + length D = 24" using D(2) ns(1) assms(3) by linarith
  have "take (?ns + length D) ds1 = take ?ns ?ds @ D" using len1 ns(2) by (simp add: ds1_def overwrite_def)
  then have ds1: "length ds1 = 25" "ds1 ! 24 = 0" "take 24 ds1 = take ?ns ?ds @ D"
    using len1 ns(2) own(3) by (simp_all add: ds1_def nth_overwrite)
  have "0 < bm_free fm1" using D(8) r assms(6) ns(1) by (simp add: r_def)
  with D(7) obtain idx fm2 where idx: "Bitmap_FindAndSet fm1 = Inr (idx, fm2)" "0 < idx" "idx < 1024"
    "idx \<notin> bm_used fm1" "bm_used fm2 = insert idx (bm_used fm1)" "map_ok fm2" "bm_free fm2 = bm_free fm1 - 1"
    by (rule take_one)
  let ?ds2 = "ds1[24 := idx]" and ?z = "replicate 32 (0 :: int)"
  let ?st1 = "st(idx := bytes_of_ints ?z)"
  have t24: "take 24 ?ds2 = take ?ns ?ds @ D" using ds1 by simp
  have bl: "distinct (take 24 ?ds2 @ take 0 ?z)" "set (take 24 ?ds2 @ take 0 ?z) \<subseteq> bm_used fm2 - {0, idx}"
    unfolding t24 using own D(3-6) idx(4,5) by fastforce+
  have "\<exists>ind' fm' E. alloc_indirect 0 r ?z fm2 = Inr (0, ind', fm') \<and> length (bytes_of_ints ind') = 128
    \<and> fh_inv (grown h n ?ds2) fm' (?st1(idx := bytes_of_ints ind'))
    \<and> fh_blocks (grown h n ?ds2) (?st1(idx := bytes_of_ints ind')) = take 24 ?ds2 @ take 0 ?z @ E
    \<and> map_ok fm' \<and> bm_used fm' = bm_used fm2 \<union> set E \<and> set E \<inter> bm_used fm2 = {}"
    using ds1(1) idx(2,5,7) D(2,8) r assms(4,6) ns(1)
    by (intro allocate_index [OF idx(6)] bl sh) auto
  then obtain ind' fm' E where E: "alloc_indirect 0 r ?z fm2 = Inr (0, ind', fm')"
    "length (bytes_of_ints ind') = 128" "fh_inv (grown h n ?ds2) fm' (st(idx := bytes_of_ints ind'))"
    "fh_blocks (grown h n ?ds2) (st(idx := bytes_of_ints ind')) = fh_blocks h st @ D @ E"
    "map_ok fm'" "bm_used fm' = bm_used fm2 \<union> set E" "set E \<inter> bm_used fm2 = {}"
    using t24 old by auto
  have D1: "alloc_direct (fh_nsectors h) n ?ds fm = Inr (r, ds1, fm1)"
    using D(1) by (simp add: r_def ds1_def)
  have "FileHeader_Allocate h fm st sz = Inr (True, grown h n ?ds2, fm', st(idx := bytes_of_ints ind'))"
    using D1 NumClear_free [OF assms(1)] assms(6-8) r(2) ds1(1,2) idx(1-3) zero_index E(1,2)
    by (simp add: FileHeader_Allocate_def Let_def grown_def flip: assms(9))
  moreover have "alloc_spec h fm st n (grown h n ?ds2) fm' (st(idx := bytes_of_ints ind'))"
  proof -
    have "fh_owned (grown h n ?ds2) (st(idx := bytes_of_ints ind')) = set (take ?ns ?ds) \<union> set D \<union> set E \<union> {idx}"
      using E(4) old assms(4) ds1(1) by (auto simp: fh_owned_def)
    then have "bm_used fm' = bm_used fm \<union> fh_owned (grown h n ?ds2) (st(idx := bytes_of_ints ind'))"
      "fh_owned (grown h n ?ds2) (st(idx := bytes_of_ints ind')) \<inter> bm_used fm \<subseteq> fh_owned h st"
      using E(6,7) idx(4,5) D(4,6) own(2) old by (auto simp: fh_owned_def [of h])
    moreover have "set (D @ E) \<inter> bm_used fm = {}" using D(4,6) E(7) idx(5) by auto
    ultimately show ?thesis
      unfolding alloc_spec_def using E(3,4,5) assms(4) ds1(1) by auto
  qed
  ultimately show ?thesis by blast
qed

lemma allocate_more_index:
  assumes "map_ok fm" "fh_inv h fm st" "24 < fh_nsectors h" "fh_nsectors h + n \<le> 56" "0 < n"
    "n \<le> bm_free fm" "uns (sz + fh_capacity h) \<le> MaxFileSize" "0 < sz" "n = divRoundUp sz 128"
  shows "\<exists>h' fm' st'. FileHeader_Allocate h fm st sz = Inr (True, h', fm', st')
    \<and> alloc_spec h fm st n h' fm' st'"
proof -
  let ?ds = "fh_dataSectors h" and ?idx = "fh_dataSectors h ! 24" and ?k = "nat (fh_nsectors h - 24)"
  let ?ind = "index_ints h st"
  have sh: "fh_shape h" using assms(2) by (simp add: fh_inv_def)
  then have ds: "length ?ds = 25" "fh_nsectors h \<le> 56" by (simp_all add: fh_shape_def)
  have old: "fh_blocks h st = take 24 ?ds @ take ?k ?ind" by (rule fh_blocks_indirect [OF sh assms(3)])
  have own: "?idx \<in> bm_used fm" "?idx \<noteq> 0" "?idx \<notin> set (fh_blocks h st)" "distinct (fh_blocks h st)"
    "set (fh_blocks h st) \<subseteq> bm_used fm - {0}" "length (st ?idx) = 128"
    "\<forall>j < 32. ?k \<le> j \<longrightarrow> ?ind ! j = 0"
    using assms(2,3) by (auto simp: fh_inv_def fh_owned_def)
  have idx: "0 < ?idx" "?idx < 1024" using used_range [OF assms(1) own(1)] own(2) by simp_all
  have bl: "distinct (take 24 ?ds @ take ?k ?ind)" "set (take 24 ?ds @ take ?k ?ind) \<subseteq> bm_used fm - {0, ?idx}"
    using own(3-5) unfolding old by auto
  have k: "?k \<le> 32" "int ?k + n \<le> 32" "fh_nsectors h + n = 24 + int ?k + n" using assms(3,4) ds(2) by simp_all
  obtain ind' fm' E where E: "alloc_indirect 0 n ?ind fm = Inr (0, ind', fm')"
    "length (bytes_of_ints ind') = 128" "fh_inv (grown h n ?ds) fm' (st(?idx := bytes_of_ints ind'))"
    "fh_blocks (grown h n ?ds) (st(?idx := bytes_of_ints ind')) = take 24 ?ds @ take ?k ?ind @ E"
    "map_ok fm'" "bm_used fm' = bm_used fm \<union> set E" "set E \<inter> bm_used fm = {}"
    using allocate_index [OF assms(1) ds(1) refl own(1) idx(1) length_index_ints k(1) own(7) bl
        assms(5) k(2) assms(6) sh less_imp_le [OF assms(5)] k(3)] by blast
  have D1: "alloc_direct (fh_nsectors h) n ?ds fm = Inr (n, ?ds, fm)"
    using alloc_direct_none assms(3) ds(2) by simp
  have "FileHeader_Allocate h fm st sz = Inr (True, grown h n ?ds, fm', st(?idx := bytes_of_ints ind'))"
    using D1 NumClear_free [OF assms(1)] assms(5-8) ds(1) idx own(6) E(1,2)
    by (simp add: FileHeader_Allocate_def Let_def grown_def index_ints_def flip: assms(9))
  moreover have "bm_used fm' = bm_used fm \<union> fh_owned (grown h n ?ds) (st(?idx := bytes_of_ints ind'))"
    "fh_owned (grown h n ?ds) (st(?idx := bytes_of_ints ind')) \<inter> bm_used fm \<subseteq> fh_owned h st"
    using E(4,6,7) own(1,5) assms(3,5) unfolding old by (auto simp: fh_owned_def old)
  ultimately show ?thesis
    using E(3,4,5,7) assms(3,5) unfolding alloc_spec_def old by auto
qed

lemma allocate_ok:
  assumes "map_ok fm" "fh_inv h fm st" "0 < sz" "sz + fh_capacity h \<le> MaxFileSize"
    and n: "n = divRoundUp sz SectorSize"
    and room: "n + (if fh_nsectors h \<le> 24 \<and> 24 < fh_nsectors h + n then 1 else 0) \<le> bm_free fm"
  shows "\<exists>h' fm' st'. FileHeader_Allocate h fm st sz = Inr (True, h', fm', st')
    \<and> alloc_spec h fm st n h' fm' st'"
proof -
  have sh: "0 \<le> fh_nsectors h" "fh_capacity h = fh_nsectors h * 128"
    using assms(2) by (simp_all add: fh_inv_def fh_shape_def)
  have n0: "0 < n" using divRoundUp_pos assms(3) n by simp
  have "n * 128 < sz + 128" using divRoundUp_bounds(2) [of sz 128] assms(3) n by simp
  then have le: "fh_nsectors h + n \<le> 56" using assms(4) sh(2) by simp
  have u: "uns (sz + fh_capacity h) \<le> MaxFileSize" using assms(3,4) sh by simp
  have n': "n = divRoundUp sz 128" using n by simp
  consider "fh_nsectors h + n \<le> 24" | "fh_nsectors h \<le> 24" "24 < fh_nsectors h + n" | "24 < fh_nsectors h"
    by linarith
  then show ?thesis
  proof cases
    case 1
    then have "n \<le> bm_free fm" using room by simp
    with 1 n0 assms(1,2) obtain ds fm' where A: "alloc_direct (fh_nsectors h) n (fh_dataSectors h) fm = Inr (0, ds, fm')"
      "alloc_spec h fm st n (grown h n ds) fm' st"
      using allocate_direct by blast
    have "FileHeader_Allocate h fm st sz = Inr (True, grown h n ds, fm', st)"
      using A(1) u assms(3) NumClear_free [OF assms(1)] \<open>n \<le> bm_free fm\<close>
      by (simp add: FileHeader_Allocate_def Let_def grown_def flip: n')
    with A(2) show ?thesis by blast
  next
    case 2
    with room have "n + 1 \<le> bm_free fm" by simp
    then show ?thesis by (rule allocate_first_index [OF assms(1,2) 2 le _ u assms(3) n'])
  next
    case 3
    with room have "n \<le> bm_free fm" by simp
    then show ?thesis by (rule allocate_more_index [OF assms(1,2) 3 le n0 _ u assms(3) n'])
  qed
qed

section \<open>Giving the blocks back\<close>

definition map_shape :: "bitmap \<Rightarrow> bool" where
  "map_shape fm \<longleftrightarrow> bm_inv fm \<and> bm_numBits fm = NumSectors"

lemma free_one:
  assumes "map_shape fm" "0 \<le> s" "s < 1024"
  obtains fm' where "Bitmap_Test fm s = Inr (s \<in> bm_used fm)" "Bitmap_Clear fm s = Inr fm'"
    "map_shape fm'" "bm_used fm' = bm_used fm - {s}"
proof
  show "Bitmap_Test fm s = Inr (s \<in> bm_used fm)" using assms by (simp add: map_shape_def Test_ok)
  show "Bitmap_Clear fm s = Inr (bm_write fm s False)" using assms by (simp add: map_shape_def Clear_ok)
  show "map_shape (bm_write fm s False)" using assms by (simp add: map_shape_def)
  show "bm_used (bm_write fm s False) = bm_used fm - {s}" using assms by (simp add: map_shape_def bm_used_write)
qed

lemma dealloc_indirect_ok:
  assumes "map_shape fm" "set ss \<subseteq> {0..<1024}"
  shows "\<exists>fm'. dealloc_indirect ss fm = Inr fm' \<and> map_shape fm' \<and> bm_used fm' = bm_used fm - set ss"
  using assms
proof (induction ss arbitrary: fm)
  case (Cons s ss)
  then have s: "0 \<le> s" "s < 1024" "set ss \<subseteq> {0..<1024}" by auto
  obtain fm1 where fm1: "Bitmap_Test fm s = Inr (s \<in> bm_used fm)" "Bitmap_Clear fm s = Inr fm1"
    "map_shape fm1" "bm_used fm1 = bm_used fm - {s}"
    using free_one [OF Cons.prems(1) s(1,2)] by blast
  show ?case
  proof (cases "s \<in> bm_used fm")
    case True
    with Cons.IH [OF fm1(3) s(3)] fm1 show ?thesis by auto
  next
    case False
    with Cons.IH [OF Cons.prems(1) s(3)] fm1(1) show ?thesis by auto
  qed
qed simp

lemma dealloc_direct_ok:
  assumes "map_shape fm" "0 \<le> i" "i \<le> m" "m = min ns 24" "length ds = 25"
    and "\<And>j. nat i \<le> j \<Longrightarrow> j < nat m \<Longrightarrow> ds ! j \<in> {0..<1024}"
  shows "\<exists>ds' fm'. dealloc_direct i ns ds fm = Inr (ds', fm') \<and> map_shape fm' \<and> length ds' = 25
    \<and> ds' ! 24 = ds ! 24 \<and> bm_used fm' = bm_used fm - (\<lambda>j. ds ! j) ` {nat i..<nat m}"
  using assms
proof (induction "nat (m - i)" arbitrary: i ds fm)
  case 0
  then have "dealloc_direct i ns ds fm = Inr (ds, fm)" by (subst dealloc_direct.simps) auto
  with 0 show ?case by simp
next
  case (Suc k)
  have i: "i < ns" "i < 24" "i < m" using Suc.hyps(2) Suc.prems(4) by linarith+
  let ?s = "ds ! nat i"
  have s: "0 \<le> ?s" "?s < 1024" using Suc.prems(2) Suc.prems(6) [of "nat i"] i by simp_all
  obtain fm1 where fm1: "Bitmap_Test fm ?s = Inr (?s \<in> bm_used fm)" "Bitmap_Clear fm ?s = Inr fm1"
    "map_shape fm1" "bm_used fm1 = bm_used fm - {?s}"
    using free_one [OF Suc.prems(1) s] by blast
  define ds1 where "ds1 = (if ?s \<in> bm_used fm then ds[nat i := 0] else ds)"
  define fm2 where "fm2 = (if ?s \<in> bm_used fm then fm1 else fm)"
  have step: "dealloc_direct i ns ds fm = dealloc_direct (i + 1) ns ds1 fm2"
    using i Suc.prems fm1(1,2) by (simp add: dealloc_direct.simps [of i ns ds] ds1_def fm2_def)
  have fm2: "map_shape fm2" "bm_used fm2 = bm_used fm - {?s}"
    using fm1 Suc.prems(1) by (auto simp: fm2_def)
  have same: "ds1 ! j = ds ! j" if "nat (i + 1) \<le> j" for j
    using that Suc.prems(2) by (simp add: ds1_def nat_add_distrib)
  have split: "{nat i..<nat m} = insert (nat i) {nat (i + 1)..<nat m}"
    using Suc.prems(2) i by auto
  have img: "(\<lambda>j. ds1 ! j) ` {nat (i + 1)..<nat m} = (\<lambda>j. ds ! j) ` {nat (i + 1)..<nat m}"
    using same by (intro image_cong) auto
  have d24: "ds1 ! 24 = ds ! 24" using same i by simp
  have pre: "k = nat (m - (i + 1))" "0 \<le> i + 1" "i + 1 \<le> m" "length ds1 = 25"
    using Suc i by (simp_all add: ds1_def)
  have rng: "ds1 ! j \<in> {0..<1024}" if "nat (i + 1) \<le> j" "j < nat m" for j
    using Suc.prems(6) [of j] same [OF that(1)] that by simp
  obtain ds' fm' where IH: "dealloc_direct (i + 1) ns ds1 fm2 = Inr (ds', fm')" "map_shape fm'"
    "length ds' = 25" "ds' ! 24 = ds1 ! 24"
    "bm_used fm' = bm_used fm2 - (\<lambda>j. ds1 ! j) ` {nat (i + 1)..<nat m}"
    using Suc.hyps(1) [OF pre(1) fm2(1) pre(2,3) Suc.prems(4) pre(4) rng] by blast
  then show ?case using step fm2(2) d24 img unfolding split by auto
qed

lemma indirect_zero_free:
  assumes "fh_inv h fm st" "24 < fh_nsectors h" "map_ok fm"
  shows "set (index_ints h st) = set (take (nat (fh_nsectors h - 24)) (index_ints h st))
           \<union> (if fh_nsectors h < 56 then {0} else {})"
    and "set (index_ints h st) \<subseteq> {0..<1024}"
proof -
  let ?ind = "index_ints h st" and ?k = "nat (fh_nsectors h - 24)"
  have sh: "fh_shape h" and z: "\<forall>i < 32. ?k \<le> i \<longrightarrow> ?ind ! i = 0"
    using assms(1,2) by (auto simp: fh_inv_def)
  have k: "?k \<le> 32" "?k < 32 \<longleftrightarrow> fh_nsectors h < 56" using sh assms(2) by (auto simp: fh_shape_def)
  have rest: "drop ?k ?ind = replicate (32 - ?k) 0"
    using z k(1) by (intro nth_equalityI) simp_all
  have "set ?ind = set (take ?k ?ind) \<union> set (drop ?k ?ind)"
    by (metis append_take_drop_id set_append)
  also have "set (drop ?k ?ind) = (if fh_nsectors h < 56 then {0} else {})"
    unfolding rest using k by (auto simp: set_replicate_conv_if)
  finally show eq: "set ?ind = set (take ?k ?ind) \<union> (if fh_nsectors h < 56 then {0} else {})" .
  have "set (take ?k ?ind) \<subseteq> bm_used fm"
    using assms(1) fh_blocks_indirect [OF sh assms(2)] by (auto simp: fh_inv_def fh_owned_def)
  then have "set (take ?k ?ind) \<subseteq> {0..<1024}" using used_range [OF assms(3)] by fastforce
  then show "set ?ind \<subseteq> {0..<1024}" unfolding eq by simp
qed

lemma direct_blocks:
  "fh_shape h \<Longrightarrow> (\<lambda>j. fh_dataSectors h ! j) ` {0..<nat (min (fh_nsectors h) 24)}
     = set (take (nat (min (fh_nsectors h) 24)) (fh_dataSectors h))"
  by (intro nth_image) (simp add: fh_shape_def)

lemma deallocate_ok:
  assumes "map_ok fm" "fh_inv h fm st"
  shows "\<exists>h' fm'. FileHeader_Deallocate h fm st = Inr (h', fm') \<and> fh_blocks h' st = []
    \<and> fh_limit h' = 0 \<and> fh_capacity h' = 0 \<and> fh_inv h' fm' st \<and> map_shape fm'
    \<and> bm_used fm' = bm_used fm - fh_owned h st
         - (if 24 < fh_nsectors h \<and> fh_nsectors h < 56 then {0} else {})"
proof -
  let ?ns = "fh_nsectors h" and ?ds = "fh_dataSectors h" and ?m = "nat (min (fh_nsectors h) 24)"
  have sh: "fh_shape h" and own: "fh_owned h st \<subseteq> bm_used fm - {0}"
    using assms(2) by (simp_all add: fh_inv_def)
  have ds: "length ?ds = 25" "0 \<le> ?ns" "?ns \<le> 56" using sh by (simp_all add: fh_shape_def)
  have ms: "map_shape fm" using assms(1) by (simp add: map_ok_def map_shape_def)
  have dir: "set (take ?m ?ds) \<subseteq> set (fh_blocks h st)"
    using ds by (cases "?ns \<le> 24") (auto simp: fh_blocks_direct [OF sh] fh_blocks_indirect [OF sh])
  then have used: "set (take ?m ?ds) \<subseteq> bm_used fm" using own by (auto simp: fh_owned_def)
  have rng: "?ds ! j \<in> {0..<1024}" if "j < ?m" for j
  proof -
    have "?ds ! j \<in> set (take ?m ?ds)" using that direct_blocks [OF sh] by force
    then show ?thesis using used used_range [OF assms(1)] by auto
  qed
  obtain ds' fm1 where D: "dealloc_direct 0 ?ns ?ds fm = Inr (ds', fm1)" "map_shape fm1" "length ds' = 25"
    "ds' ! 24 = ?ds ! 24" "bm_used fm1 = bm_used fm - set (take ?m ?ds)"
    using dealloc_direct_ok [OF ms _ _ refl ds(1), of 0 ?ns] ds(2) rng direct_blocks [OF sh] by auto
  define h' where "h' = h\<lparr>fh_dataSectors := ds'[24 := 0], fh_limit := 0, fh_capacity := 0, fh_nsectors := 0\<rparr>"
  have h': "fh_blocks h' st = []" "fh_limit h' = 0" "fh_capacity h' = 0" "\<And>fm. fh_inv h' fm st"
    using D(3) by (simp_all add: h'_def fh_blocks_def fh_inv_def fh_shape_def fh_owned_def)
  show ?thesis
  proof (cases "24 < ?ns")
    case False
    then have "FileHeader_Deallocate h fm st = Inr (h', fm1)"
      using D(1,3) ds by (simp add: FileHeader_Deallocate_def h'_def)
    moreover have "fh_owned h st = set (take ?m ?ds)"
      using False by (simp add: fh_owned_def fh_blocks_direct [OF sh] min_def)
    ultimately show ?thesis using h' D(2,5) False by simp
  next
    case True
    let ?idx = "?ds ! 24"
    have idx: "?idx \<in> bm_used fm" "length (st ?idx) = 128"
      using own True assms(2) by (auto simp: fh_owned_def fh_inv_def)
    note z = indirect_zero_free [OF assms(2) True assms(1)]
    obtain fm2 where fm2: "dealloc_indirect (index_ints h st) fm1 = Inr fm2" "map_shape fm2"
      "bm_used fm2 = bm_used fm1 - set (index_ints h st)"
      using dealloc_indirect_ok [OF D(2) z(2)] by blast
    obtain fm3 where fm3: "Bitmap_Clear fm2 ?idx = Inr fm3" "bm_used fm3 = bm_used fm2 - {?idx}" "map_shape fm3"
      using free_one [OF fm2(2)] used_range [OF assms(1) idx(1)] by blast
    have owned: "fh_owned h st = set (take ?m ?ds)
        \<union> set (take (nat (?ns - 24)) (index_ints h st)) \<union> {?idx}"
      using True by (auto simp: fh_owned_def fh_blocks_indirect [OF sh] min_def)
    have "FileHeader_Deallocate h fm st = Inr (h', fm3)"
      using True D(1,3,4) ds fm2(1) fm3(1) idx used_range [OF assms(1) idx(1)]
      by (simp add: FileHeader_Deallocate_def h'_def index_ints_def)
    moreover have "bm_used fm3 = bm_used fm - set (take ?m ?ds) - set (index_ints h st) - {?idx}"
      using D(5) fm2(3) fm3(2) by simp
    then have "bm_used fm3 = bm_used fm - fh_owned h st - (if 24 < ?ns \<and> ?ns < 56 then {0} else {})"
      unfolding z(1) owned using True by auto
    ultimately show ?thesis using h' fm3(3) by blast
  qed
qed

section \<open>From offsets to sectors\<close>

lemma byte_to_sector_ok:
  assumes "map_ok fm" "fh_inv h fm st" "0 \<le> off" "off < fh_capacity h"
  shows "FileHeader_ByteToSector h st off = Inr (fh_blocks h st ! nat (off div 128))"
    and "fh_blocks h st ! nat (off div 128) \<in> set (fh_blocks h st)"
proof -
  let ?n = "off div 128" and ?ns = "fh_nsectors h"
  have sh: "fh_shape h" and own: "fh_owned h st \<subseteq> bm_used fm - {0}"
    using assms(2) by (simp_all add: fh_inv_def)
  have ds: "length (fh_dataSectors h) = 25" "?ns \<le> 56" using sh by (simp_all add: fh_shape_def)
  have n: "0 \<le> ?n" "?n < ?ns" using assms(3,4) sh by (simp_all add: fh_shape_def)
  then show mem: "fh_blocks h st ! nat ?n \<in> set (fh_blocks h st)"
    using fh_blocks_length [OF sh, of st] by (intro nth_mem) simp
  with own have pos: "0 < fh_blocks h st ! nat ?n"
    using used_range [OF assms(1)] by (fastforce simp: fh_owned_def)
  show "FileHeader_ByteToSector h st off = Inr (fh_blocks h st ! nat ?n)"
  proof (cases "?n < 24")
    case True
    have "fh_blocks h st ! nat ?n = fh_dataSectors h ! nat ?n"
      using n True ds nat_less_iff [OF n(1), of 24] by (simp add: fh_blocks_def nth_append)
    with True n ds pos assms(3) show ?thesis by (simp add: FileHeader_ByteToSector_def Let_def)
  next
    case False
    then have ns: "24 < ?ns" using n by simp
    have eq: "fh_blocks h st ! nat ?n = index_ints h st ! nat (?n - 24)"
      using n False ds nat_less_iff [OF n(1), of 24] by (simp add: fh_blocks_def nth_append nat_diff_distrib)
    have "fh_dataSectors h ! 24 \<in> bm_used fm - {0}" "length (st (fh_dataSectors h ! 24)) = 128"
      using own ns assms(2) by (auto simp: fh_owned_def fh_inv_def)
    then have idx: "0 < fh_dataSectors h ! 24" "fh_dataSectors h ! 24 < 1024"
      "length (st (fh_dataSectors h ! 24)) = 128" using used_range [OF assms(1)] by fastforce+
    from False n ds idx eq pos assms(3) show ?thesis
      by (simp add: FileHeader_ByteToSector_def Let_def index_ints_def)
  qed
qed

section \<open>Properties\<close>

text \<open>
  C23. A successful \<open>Allocate\<close>: with a free block for every new sector, and one more when the
  index block is created, the request is granted; the file's block list keeps its old blocks and
  gains exactly the requested number of new, distinct ones that were free before; exactly these
  sectors (and the index block) become used, no sector but the index block is written, and the
  invariant holds again.
\<close>

theorem allocate_extends:
  assumes "map_ok fm" "fh_inv h fm st" "0 < sz" "sz + fh_capacity h \<le> MaxFileSize"
    "n = divRoundUp sz SectorSize"
    "n + (if fh_nsectors h \<le> NumDirect \<and> NumDirect < fh_nsectors h + n then 1 else 0) \<le> bm_free fm"
  shows "\<exists>h' fm' st' new. FileHeader_Allocate h fm st sz = Inr (True, h', fm', st')
    \<and> map_ok fm' \<and> fh_inv h' fm' st' \<and> fh_blocks h' st' = fh_blocks h st @ new
    \<and> int (length new) = n \<and> distinct new \<and> set new \<inter> bm_used fm = {}
    \<and> bm_used fm' = bm_used fm \<union> fh_owned h' st'
    \<and> (\<forall>s. st' s \<noteq> st s \<longrightarrow> s = fh_dataSectors h' ! 24)"
proof -
  obtain h' fm' st' where A: "FileHeader_Allocate h fm st sz = Inr (True, h', fm', st')"
    "alloc_spec h fm st n h' fm' st'"
    using allocate_ok [OF assms(1-5)] assms(6) by auto
  then obtain new where new: "fh_blocks h' st' = fh_blocks h st @ new" "set new \<inter> bm_used fm = {}"
    by (auto simp: alloc_spec_def)
  have sh: "fh_shape h" "fh_shape h'" "distinct (fh_blocks h' st')" "fh_nsectors h' = fh_nsectors h + n"
    using A(2) assms(2) by (simp_all add: alloc_spec_def fh_inv_def)
  have "0 < n" using divRoundUp_pos assms(3,5) by simp
  then have "int (length new) = n"
    using arg_cong [OF new(1), of length] sh fh_blocks_length [OF sh(1), of st] fh_blocks_length [OF sh(2), of st']
    by (simp add: fh_shape_def nat_add_distrib)
  with A new sh(3) show ?thesis by (auto simp: alloc_spec_def)
qed

text \<open>
  C24. \<open>ByteToSector\<close> maps every offset inside the file's capacity to the block that holds it.
\<close>

theorem byte_to_sector_correct:
  assumes "map_ok fm" "fh_inv h fm st" "0 \<le> offset" "offset < fh_capacity h"
  shows "FileHeader_ByteToSector h st offset = Inr (fh_blocks h st ! nat (offset div SectorSize))"
  using byte_to_sector_ok(1) [OF assms] by simp

text \<open>
  C25. \<open>Deallocate\<close> gives back exactly the sectors the header owns, except that a file which uses
  its index block without filling it also clears sector 0, where the free map's own header lives:
  the loop runs over all 32 entries and the unused ones are 0. The freed header is empty.
\<close>

theorem deallocate_frees:
  assumes "map_ok fm" "fh_inv h fm st"
  shows "\<exists>h' fm'. FileHeader_Deallocate h fm st = Inr (h', fm') \<and> fh_blocks h' st = []
    \<and> fh_limit h' = 0 \<and> fh_capacity h' = 0 \<and> fh_inv h' fm' st
    \<and> bm_used fm' = bm_used fm - fh_owned h st
         - (if NumDirect < fh_nsectors h \<and> fh_nsectors h < NumDirect + NumInDirect then {0} else {})"
  using deallocate_ok [OF assms] by auto

text \<open>
  A header written back to a sector and fetched again is the same header.
\<close>

theorem header_roundtrip:
  assumes "fh_wf h" "0 \<le> sector" "sector < NumSectors"
  shows "bindE (FileHeader_WriteBack h st sector) (\<lambda>st'. FileHeader_FetchFrom st' sector) = Inr h"
  using assms FileHeader_bytes_length [OF assms(1)] FileHeader_roundtrip [OF assms(1)]
  by (simp add: FileHeader_WriteBack_def FileHeader_FetchFrom_def)

section \<open>Instances\<close>

definition example_map :: bitmap where
  "example_map = \<lparr>bm_numBits = 1024, bm_numWords = 32, bm_map = 1 # replicate 31 0\<rparr>"

definition full_map :: bitmap where
  "full_map = \<lparr>bm_numBits = 1024, bm_numWords = 32, bm_map = replicate 32 (- 1)\<rparr>"

definition example_header :: FileHeader where
  "example_header = \<lparr>fh_limit = 3200, fh_capacity = 3200, fh_nsectors = 25, fh_selfSector = 1, fh_type = 0,
     fh_createTime = 7, fh_modifyTime = 9, fh_dataSectors = [2..25] @ [26]\<rparr>"

definition example_store :: store where
  "example_store = (\<lambda>s. replicate 128 0)(26 := bytes_of_ints (27 # replicate 31 0))"

lemma example_map_used: "bm_used example_map = {0}"
proof -
  have "bm_bit example_map i \<longleftrightarrow> i = 0" if "0 \<le> i" "i < 1024" for i
  proof (cases "i < 32")
    case True
    with that show ?thesis by (auto simp: bm_bit_def example_map_def bit_1_iff)
  next
    case False
    then have "0 < nat (i div 32)" by (simp add: zdiv_mono1 pos_imp_zdiv_pos_iff)
    moreover have "nat (i div 32) \<le> 31" using that by simp
    ultimately show ?thesis using False by (simp add: bm_bit_def example_map_def nth_Cons')
  qed
  then show ?thesis by (auto simp: bm_used_def example_map_def)
qed

lemma example_map_ok: "map_ok example_map" "bm_free example_map = 1023"
proof -
  have "bm_inv example_map" by (simp add: bm_inv_def example_map_def divRoundUp_def)
  then show "map_ok example_map" by (simp add: map_ok_def example_map_used) (simp add: example_map_def)
  show "bm_free example_map = 1023" by (simp add: bm_free_def example_map_used) (simp add: example_map_def)
qed

lemma full_map_used: "bm_used full_map = {0..<1024}"
  by (auto simp: bm_used_def full_map_def bm_bit_def)

lemma full_map_ok: "map_ok full_map"
  by (simp add: map_ok_def full_map_used) (simp add: full_map_def bm_inv_def divRoundUp_def)

lemma example_index: "index_ints example_header example_store = 27 # replicate 31 0"
  using index_image(1) [of "27 # replicate 31 0"]
  by (simp add: index_ints_def example_header_def example_store_def upto_rec_numeral)

lemma example_inv: "fh_inv example_header full_map example_store" (is "fh_inv ?h _ ?s")
proof -
  have blocks: "fh_blocks ?h ?s = [2..25] @ [27]"
    by (simp add: fh_blocks_def example_index) (simp add: example_header_def)
  have len: "length (?s 26) = 128" by (simp add: example_store_def)
  show ?thesis
    unfolding fh_inv_def fh_owned_def blocks example_index
    using len by (auto simp: fh_shape_def full_map_used example_header_def nth_append nth_Cons')
qed

theorem allocate_extends_witness:
  "\<exists>h' fm' st' new. FileHeader_Allocate (FileHeader_new 5 TYPE_FILE 0 0) example_map example_store 3200
      = Inr (True, h', fm', st') \<and> fh_blocks h' st' = new \<and> int (length new) = 25"
proof -
  let ?h = "FileHeader_new 5 TYPE_FILE 0 0"
  have inv: "fh_inv ?h example_map example_store" and blocks: "fh_blocks ?h example_store = []"
    by (simp_all add: fh_inv_def fh_shape_def fh_blocks_def fh_owned_def FileHeader_new_def nth_Cons')
  from allocate_extends [OF example_map_ok(1) inv, of 3200 25]
  show ?thesis using blocks example_map_ok(2) by (auto simp: FileHeader_new_def divRoundUp_def)
qed

theorem byte_to_sector_correct_witness:
  "FileHeader_ByteToSector example_header example_store 3199 = Inr 27"
  using byte_to_sector_correct [OF full_map_ok example_inv, of 3199] example_index
  by (simp add: fh_blocks_def) (simp add: example_header_def nth_append)

theorem deallocate_frees_witness:
  "\<exists>h' fm'. FileHeader_Deallocate example_header full_map example_store = Inr (h', fm')
     \<and> 0 \<notin> bm_used fm'"
  using deallocate_frees [OF full_map_ok example_inv] by (auto simp: example_header_def)

theorem header_roundtrip_witness:
  "bindE (FileHeader_WriteBack example_header example_store 1) (\<lambda>st'. FileHeader_FetchFrom st' 1)
     = Inr example_header"
  by (rule header_roundtrip)
    (simp_all add: fh_wf_def fh_ints_def example_header_def int_ok_def)

end
