(* ===== verification/Open_File.thy ===== *)
theory Open_File
  imports File_Header
begin

text \<open>
  filesys/openfile.h, filesys/openfile.cc, filesys/pbitmap.h and filesys/pbitmap.cc: open files
  on the Nachos disk, and the free map that is itself kept in such a file.

  An \<open>OpenFile\<close> holds its own copy of the header and a seek position. \<open>WriteAt\<close> extends the
  file through the free map in the file at sector 0, which it writes back with \<open>WriteAt\<close>
  again; the recursion is bounded by a depth (two levels are enough when the free map file has
  its one sector, which \<open>write_at_ok\<close> shows). Buffers from \<open>new char[]\<close> start with arbitrary
  bytes: \<open>junk d\<close> is the content found at recursion depth \<open>d\<close>.

  The abstraction of an open file is its contents, a list of bytes (\<open>of_contents\<close>). The lemmas
  show that \<open>ReadAt\<close> returns the requested slice of it, that \<open>WriteAt\<close> replaces everything
  from the position on by the new bytes, and that neither touches the sectors of other files.
\<close>

section \<open>The classes\<close>

record OpenFile =
  of_hdr :: FileHeader
  of_seekPosition :: int

definition OpenFile_new :: "store \<Rightarrow> int \<Rightarrow> OpenFile res" where
  "OpenFile_new st sector =
     bindE (FileHeader_FetchFrom st sector) (\<lambda>h. Inr \<lparr>of_hdr = h, of_seekPosition = 0\<rparr>)"

definition OpenFile_Seek :: "OpenFile \<Rightarrow> int \<Rightarrow> OpenFile" where
  "OpenFile_Seek f position = f\<lparr>of_seekPosition := position\<rparr>"

definition OpenFile_Length :: "OpenFile \<Rightarrow> int" where
  "OpenFile_Length f = FileHeader_FileLimit (of_hdr f)"

text \<open>The two sector loops, from sector \<open>i\<close> to sector \<open>n\<close> of the file.\<close>

function read_sectors :: "FileHeader \<Rightarrow> store \<Rightarrow> int \<Rightarrow> int \<Rightarrow> byte list res" where
  "read_sectors h st i n =
     (if i \<le> n
      then bindE (FileHeader_ByteToSector h st (i * SectorSize)) (\<lambda>s.
           bindE (ReadSector st s) (\<lambda>bs.
           bindE (read_sectors h st (i + 1) n) (\<lambda>rest. Inr (bs @ rest))))
      else Inr [])"
  by pat_completeness auto
termination
  by (relation "measure (\<lambda>(h, st, i, n). nat (n + 1 - i))") auto

function write_sectors :: "FileHeader \<Rightarrow> store \<Rightarrow> int \<Rightarrow> int \<Rightarrow> byte list \<Rightarrow> store res" where
  "write_sectors h st i n buf =
     (if i \<le> n
      then bindE (FileHeader_ByteToSector h st (i * SectorSize)) (\<lambda>s.
           bindE (WriteSector st s (take (nat SectorSize) buf)) (\<lambda>st1.
           write_sectors h st1 (i + 1) n (drop (nat SectorSize) buf)))
      else Inr st)"
  by pat_completeness auto
termination
  by (relation "measure (\<lambda>(h, st, i, n, buf). nat (n + 1 - i))") auto

declare read_sectors.simps [simp del] write_sectors.simps [simp del]

text \<open>\<open>ReadAt\<close> returns the number of bytes and the bytes it stores into the caller's buffer.\<close>

definition OpenFile_ReadAt :: "OpenFile \<Rightarrow> store \<Rightarrow> int \<Rightarrow> int \<Rightarrow> (int \<times> byte list) res" where
  "OpenFile_ReadAt f st numBytes0 position =
     (let fileLimit = FileHeader_FileLimit (of_hdr f) in
      if numBytes0 \<le> 0 \<or> position < 0 \<or> position \<ge> fileLimit then Inr (0, [])
      else
        let numBytes = (if position + numBytes0 > fileLimit then fileLimit - position else numBytes0);
            firstSector = divRoundDown position SectorSize;
            lastSector = divRoundDown (position + numBytes - 1) SectorSize in
        bindE (read_sectors (of_hdr f) st firstSector lastSector) (\<lambda>buf.
        Inr (numBytes, take (nat numBytes) (drop (nat (position - firstSector * SectorSize)) buf))))"

definition OpenFile_Read :: "OpenFile \<Rightarrow> store \<Rightarrow> int \<Rightarrow> (int \<times> byte list \<times> OpenFile) res" where
  "OpenFile_Read f st numBytes =
     bindE (OpenFile_ReadAt f st numBytes (of_seekPosition f)) (\<lambda>(result, bs).
     Inr (result, bs, f\<lparr>of_seekPosition := of_seekPosition f + result\<rparr>))"

text \<open>The words of a bitmap as the bytes they occupy in memory.\<close>

definition map_bytes :: "32 word list \<Rightarrow> byte list" where
  "map_bytes ws = concat (map bytes_of_word ws)"

fun words_of_bytes :: "nat \<Rightarrow> byte list \<Rightarrow> 32 word list" where
  "words_of_bytes 0 bs = []"
| "words_of_bytes (Suc n) bs = word_of_bytes (take 4 bs) # words_of_bytes n (drop 4 bs)"

definition PersistentBitmap_FetchFrom :: "bitmap \<Rightarrow> OpenFile \<Rightarrow> store \<Rightarrow> bitmap res" where
  "PersistentBitmap_FetchFrom b f st =
     bindE (OpenFile_ReadAt f st (bm_numWords b * 4) 0) (\<lambda>(_, bs).
     Inr (b\<lparr>bm_map := words_of_bytes (length (bm_map b)) (overwrite 0 bs (map_bytes (bm_map b)))\<rparr>))"

definition PersistentBitmap_new :: "int \<Rightarrow> bitmap res" where
  "PersistentBitmap_new numItems = Bitmap_new numItems"

definition PersistentBitmap_open :: "OpenFile \<Rightarrow> store \<Rightarrow> int \<Rightarrow> bitmap res" where
  "PersistentBitmap_open f st numItems =
     bindE (Bitmap_new numItems) (\<lambda>b. PersistentBitmap_FetchFrom b f st)"

text \<open>The second half of \<open>WriteAt\<close>: the header is written back, then the data.\<close>

definition write_buffer :: "FileHeader \<Rightarrow> store \<Rightarrow> byte list \<Rightarrow> byte list \<Rightarrow> int \<Rightarrow> int \<Rightarrow> int \<Rightarrow> int \<Rightarrow> store res" where
  "write_buffer h st buf0 from_buf numBytes position firstSector lastSector =
     (let f = \<lparr>of_hdr = h, of_seekPosition = 0\<rparr>;
          firstAligned = (position = firstSector * SectorSize);
          lastAligned = (position + numBytes = (lastSector + 1) * SectorSize) in
      bindE (if \<not> firstAligned
             then bindE (OpenFile_ReadAt f st SectorSize (firstSector * SectorSize)) (\<lambda>(_, bs).
                  Inr (overwrite 0 bs buf0))
             else Inr buf0) (\<lambda>buf1.
      bindE (if \<not> lastAligned \<and> (firstSector \<noteq> lastSector \<or> firstAligned)
             then bindE (OpenFile_ReadAt f st SectorSize (lastSector * SectorSize)) (\<lambda>(_, bs).
                  Inr (overwrite (nat ((lastSector - firstSector) * SectorSize)) bs buf1))
             else Inr buf1) (\<lambda>buf2.
      if int (length from_buf) < numBytes then Inl Bad_Access
      else write_sectors h st firstSector lastSector
             (overwrite (nat (position - firstSector * SectorSize)) (take (nat numBytes) from_buf) buf2))))"

definition write_data :: "(nat \<Rightarrow> byte) \<Rightarrow> FileHeader \<Rightarrow> store \<Rightarrow> byte list \<Rightarrow> int \<Rightarrow> int
    \<Rightarrow> (FileHeader \<times> store) res" where
  "write_data junk h1 st2 from_buf numBytes position =
     (let h2 = snd (FileHeader_setFileLimit h1 (position + numBytes)) in
      bindE (FileHeader_WriteBack h2 st2 (fh_selfSector h2)) (\<lambda>st3.
      let firstSector = divRoundDown position SectorSize;
          lastSector = divRoundDown (position + numBytes - 1) SectorSize;
          numSectors = 1 + lastSector - firstSector in
      bindE (write_buffer h2 st3 (map junk [0..<nat (numSectors * SectorSize)])
               from_buf numBytes position firstSector lastSector) (\<lambda>st4.
      Inr (h2, st4))))"

text \<open>
  \<open>WriteAt\<close> and the free map's \<open>WriteBack\<close> call each other. The first argument bounds the depth.
\<close>

function OpenFile_WriteAt :: "nat \<Rightarrow> (nat \<Rightarrow> nat \<Rightarrow> byte) \<Rightarrow> OpenFile \<Rightarrow> store \<Rightarrow> byte list \<Rightarrow> int \<Rightarrow> int
      \<Rightarrow> (int \<times> OpenFile \<times> store) res"
  and PersistentBitmap_WriteBack :: "nat \<Rightarrow> (nat \<Rightarrow> nat \<Rightarrow> byte) \<Rightarrow> bitmap \<Rightarrow> OpenFile \<Rightarrow> store
      \<Rightarrow> (OpenFile \<times> store) res" where
  "OpenFile_WriteAt 0 junk f st from_buf numBytes position = Inl Diverges"
| "OpenFile_WriteAt (Suc d) junk f st from_buf numBytes position =
     (let fileLimit = FileHeader_FileLimit (of_hdr f);
          fileCapacity = FileHeader_FileCapacity (of_hdr f) in
      if numBytes \<le> 0 \<or> position > fileLimit \<or> position < 0 then Inr (0, f, st)
      else
        bindE (if position + numBytes > fileCapacity
               then bindE (PersistentBitmap_new NumSectors) (\<lambda>freeMap0.
                    bindE (OpenFile_new st 0) (\<lambda>freeMapFile.
                    bindE (PersistentBitmap_FetchFrom freeMap0 freeMapFile st) (\<lambda>freeMap.
                    bindE (FileHeader_Allocate (of_hdr f) freeMap st (position + numBytes - fileCapacity))
                      (\<lambda>(ok, h1, freeMap1, st1).
                    bindE (assertE ok) (\<lambda>_.
                    bindE (PersistentBitmap_WriteBack d junk freeMap1 freeMapFile st1) (\<lambda>(_, st2).
                    Inr (h1, st2)))))))
               else Inr (of_hdr f, st)) (\<lambda>(h1, st2).
        bindE (write_data (junk d) h1 st2 from_buf numBytes position) (\<lambda>(h2, st4).
        Inr (numBytes, f\<lparr>of_hdr := h2\<rparr>, st4))))"
| "PersistentBitmap_WriteBack d junk b f st =
     bindE (OpenFile_WriteAt d junk f st (map_bytes (bm_map b)) (bm_numWords b * 4) 0)
       (\<lambda>(_, f', st'). Inr (f', st'))"
  by pat_completeness auto
termination
  by (relation "measure (case_sum (\<lambda>(d, _). 2 * d) (\<lambda>(d, _). 2 * d + 1))") auto

declare OpenFile_WriteAt.simps(2) [simp del] PersistentBitmap_WriteBack.simps [simp del]

definition OpenFile_Write :: "nat \<Rightarrow> (nat \<Rightarrow> nat \<Rightarrow> byte) \<Rightarrow> OpenFile \<Rightarrow> store \<Rightarrow> byte list \<Rightarrow> int
    \<Rightarrow> (int \<times> OpenFile \<times> store) res" where
  "OpenFile_Write d junk f st into numBytes =
     bindE (OpenFile_WriteAt d junk f st into numBytes (of_seekPosition f)) (\<lambda>(result, f1, st1).
     Inr (result, f1\<lparr>of_seekPosition := of_seekPosition f1 + result\<rparr>, st1))"

section \<open>Equal-sized chunks\<close>

definition uniform :: "nat \<Rightarrow> 'a list list \<Rightarrow> bool" where
  "uniform k xss \<longleftrightarrow> (\<forall>xs \<in> set xss. length xs = k)"

lemma uniform_simps [simp]:
  "uniform k []" "uniform k (xs # xss) \<longleftrightarrow> length xs = k \<and> uniform k xss"
  by (auto simp: uniform_def)

lemma length_concat_uniform: "uniform k xss \<Longrightarrow> length (concat xss) = length xss * k"
  by (induction xss) auto

lemma take_concat_uniform: "uniform k xss \<Longrightarrow> take (m * k) (concat xss) = concat (take m xss)"
proof (induction xss arbitrary: m)
  case (Cons xs xss)
  then show ?case by (cases m) auto
qed simp

lemma drop_concat_uniform: "uniform k xss \<Longrightarrow> drop (m * k) (concat xss) = concat (drop m xss)"
proof (induction xss arbitrary: m)
  case (Cons xs xss)
  then show ?case by (cases m) auto
qed simp

lemma concat_update_uniform:
  assumes "uniform k xss" "i < length xss" "length c = k"
  shows "concat (xss[i := c]) = overwrite (i * k) c (concat xss)"
proof -
  have "overwrite (i * k) c (concat xss) = concat (take i xss) @ c @ concat (drop (Suc i) xss)"
    using assms take_concat_uniform [OF assms(1), of i] drop_concat_uniform [OF assms(1), of "Suc i"]
    by (simp add: overwrite_def add.commute)
  then show ?thesis using assms(2) by (simp add: upd_conv_take_nth_drop)
qed

lemma overwrite_overwrite:
  assumes "i + length a + length b \<le> length xs"
  shows "overwrite (i + length a) b (overwrite i a xs) = overwrite i (a @ b) xs"
  using assms by (simp add: overwrite_def ac_simps)

lemma map_upd_distinct:
  "distinct xs \<Longrightarrow> i < length xs \<Longrightarrow> map (f(xs ! i := y)) xs = (map f xs)[i := y]"
  by (intro nth_equalityI) (auto simp: nth_list_update nth_eq_iff_index_eq)

section \<open>The contents of a file\<close>

definition fh_data :: "FileHeader \<Rightarrow> store \<Rightarrow> byte list" where
  "fh_data h st = concat (map st (fh_blocks h st))"

definition of_contents :: "OpenFile \<Rightarrow> store \<Rightarrow> byte list" where
  "of_contents f st = take (nat (fh_limit (of_hdr f))) (fh_data (of_hdr f) st)"

definition store_ok :: "store \<Rightarrow> bool" where
  "store_ok st \<longleftrightarrow> (\<forall>s. 0 \<le> s \<and> s < NumSectors \<longrightarrow> length (st s) = nat SectorSize)"

definition file_ok :: "FileHeader \<Rightarrow> bitmap \<Rightarrow> store \<Rightarrow> bool" where
  "file_ok h fm st \<longleftrightarrow> map_ok fm \<and> fh_inv h fm st \<and> store_ok st
     \<and> fh_selfSector h \<in> bm_used fm - fh_owned h st"

lemma store_ok_upd: "store_ok st \<Longrightarrow> length bs = 128 \<Longrightarrow> store_ok (st(s := bs))"
  by (simp add: store_ok_def)

lemma file_blocks:
  assumes "map_ok fm" "fh_inv h fm st" "store_ok st"
  shows "uniform 128 (map st (fh_blocks h st))" "\<And>b. b \<in> set (fh_blocks h st) \<Longrightarrow> 0 < b \<and> b < 1024"
    "distinct (fh_blocks h st)" "int (length (fh_blocks h st)) = fh_nsectors h"
    "fh_capacity h = fh_nsectors h * 128" "0 \<le> fh_limit h" "fh_limit h \<le> fh_capacity h"
proof -
  have sh: "fh_shape h" and own: "set (fh_blocks h st) \<subseteq> bm_used fm - {0}"
    using assms(2) by (auto simp: fh_inv_def fh_owned_def)
  show r: "0 < b \<and> b < 1024" if "b \<in> set (fh_blocks h st)" for b
    using that own used_range [OF assms(1)] by fastforce
  then show "uniform 128 (map st (fh_blocks h st))"
    using assms(3) by (force simp: uniform_def store_ok_def)
  show "distinct (fh_blocks h st)" using assms(2) by (simp add: fh_inv_def)
  show "int (length (fh_blocks h st)) = fh_nsectors h" "fh_capacity h = fh_nsectors h * 128"
    "0 \<le> fh_limit h" "fh_limit h \<le> fh_capacity h"
    using sh by (simp_all add: fh_blocks_length) (simp_all add: fh_shape_def)
qed

lemma length_fh_data:
  assumes "map_ok fm" "fh_inv h fm st" "store_ok st"
  shows "int (length (fh_data h st)) = fh_capacity h"
  using file_blocks [OF assms] by (simp add: fh_data_def length_concat_uniform)

text \<open>Only the index block of a header matters for its block list and its invariant.\<close>

lemma fh_cong:
  assumes "24 < fh_nsectors h \<Longrightarrow> st' (fh_dataSectors h ! 24) = st (fh_dataSectors h ! 24)"
    "fh_shape h"
  shows "fh_blocks h st' = fh_blocks h st" "fh_owned h st' = fh_owned h st"
    "fh_inv h fm st' \<longleftrightarrow> fh_inv h fm st"
proof -
  show b: "fh_blocks h st' = fh_blocks h st"
  proof (cases "24 < fh_nsectors h")
    case True
    then show ?thesis using assms(1) by (simp add: fh_blocks_def index_ints_def)
  next
    case False
    then show ?thesis using assms(2) by (simp add: fh_blocks_direct)
  qed
  then show o': "fh_owned h st' = fh_owned h st" by (simp add: fh_owned_def)
  show "fh_inv h fm st' \<longleftrightarrow> fh_inv h fm st"
    unfolding fh_inv_def b o' using assms(1) by (auto simp: index_ints_def)
qed

section \<open>Reading\<close>

lemma read_sectors_ok:
  assumes ok: "map_ok fm" "fh_inv h fm st" "store_ok st" and "0 \<le> i" "i \<le> n + 1" "n < fh_nsectors h"
  shows "read_sectors h st i n = Inr (concat (map st (take (nat (n + 1 - i)) (drop (nat i) (fh_blocks h st)))))"
  using assms(4-6)
proof (induction "nat (n + 1 - i)" arbitrary: i)
  case 0
  then show ?case by (subst read_sectors.simps) simp
next
  case (Suc k)
  have i: "i \<le> n" using Suc.hyps(2) by simp
  note bl = file_blocks [OF ok]
  let ?b = "fh_blocks h st ! nat i"
  have len: "nat i < length (fh_blocks h st)" using i Suc.prems bl(4) by linarith
  have "i * 128 < fh_capacity h" using i Suc.prems(3) bl(5) by simp
  then have bs: "FileHeader_ByteToSector h st (i * 128) = Inr ?b"
    using byte_to_sector_ok(1) [OF ok(1,2), of "i * 128"] Suc.prems(1) by simp
  have b: "0 < ?b" "?b < 1024" using bl(2) nth_mem [OF len] by blast+
  have "k = nat (n + 1 - (i + 1))" "0 \<le> i + 1" "i + 1 \<le> n + 1" using Suc.hyps(2) Suc.prems i by simp_all
  note IH = Suc.hyps(1) [OF this Suc.prems(3)]
  have "nat (n + 1 - i) = Suc (nat (n - i))" "nat (i + 1) = Suc (nat i)" using i Suc.prems(1) by simp_all
  then show ?case
    using i bs b IH len by (simp add: read_sectors.simps [of h st i n] flip: Cons_nth_drop_Suc)
qed

lemma take_drop_window:
  assumes "a \<le> i" "i + n \<le> a + m"
  shows "take n (drop (i - a) (take m (drop a xs))) = take n (drop i xs)"
proof -
  have "n \<le> m - (i - a)" "i - a + a = i" using assms by simp_all
  then show ?thesis by (simp add: drop_take min_absorb1)
qed

lemma sector_span:
  assumes "0 \<le> p" "0 < (n::int)"
  shows "0 \<le> p div 128" "p div 128 \<le> (p + n - 1) div 128" "p div 128 * 128 \<le> p"
    "p + n \<le> ((p + n - 1) div 128 + 1) * 128" "(p + n - 1) div 128 * 128 < p + n"
  using assms by (simp_all add: zdiv_mono1)

lemma sectors_data:
  assumes ok: "map_ok fm" "fh_inv h fm st" "store_ok st" and "0 \<le> i" "i \<le> n" "n < fh_nsectors h"
  shows "concat (map st (take (nat (n + 1 - i)) (drop (nat i) (fh_blocks h st))))
    = take (nat ((n + 1 - i) * 128)) (drop (nat (i * 128)) (fh_data h st))"
proof -
  note u = file_blocks(1) [OF ok]
  have "uniform 128 (drop (nat i) (map st (fh_blocks h st)))"
    using u set_drop_subset [of "nat i" "map st (fh_blocks h st)"] unfolding uniform_def by blast
  from take_concat_uniform [OF this, of "nat (n + 1 - i)"] drop_concat_uniform [OF u, of "nat i"]
  have "concat (map st (take (nat (n + 1 - i)) (drop (nat i) (fh_blocks h st))))
    = take (nat (n + 1 - i) * 128) (drop (nat i * 128) (fh_data h st))"
    by (simp add: fh_data_def drop_map take_map)
  then show ?thesis using assms(4,5) by (simp only: nat_mult_distrib) simp
qed

lemma ReadAt_inside:
  assumes ok: "map_ok fm" "fh_inv (of_hdr f) fm st" "store_ok st"
    and "0 < n" "0 \<le> p" "p + n \<le> fh_limit (of_hdr f)"
  shows "bindE (read_sectors (of_hdr f) st (p div 128) ((p + n - 1) div 128)) (\<lambda>buf.
      Inr (n, take (nat n) (drop (nat (p - p div 128 * 128)) buf)))
    = Inr (n, take (nat n) (drop (nat p) (of_contents f st)))"
proof -
  let ?h = "of_hdr f" and ?a = "p div 128" and ?z = "(p + n - 1) div 128"
  note bl = file_blocks [OF ok] and sp = sector_span [OF assms(5,4)]
  have z: "?z < fh_nsectors ?h" using bl(5,7) assms(6) sp(5) by linarith
  have rd: "read_sectors ?h st ?a ?z = Inr (take (nat ((?z + 1 - ?a) * 128)) (drop (nat (?a * 128)) (fh_data ?h st)))"
    using read_sectors_ok [OF ok sp(1) _ z] sectors_data [OF ok sp(1,2) z] sp(2) by simp
  have w: "nat (p - ?a * 128) = nat p - nat (?a * 128)" "nat (?a * 128) \<le> nat p"
    using sp(1,3) by (simp_all add: nat_diff_distrib)
  have w3: "nat p + nat n \<le> nat (?a * 128) + nat ((?z + 1 - ?a) * 128)"
    using sp assms(4,5) by (simp add: nat_le_iff flip: nat_add_distrib)
  have "take (nat n) (drop (nat (p - ?a * 128))
      (take (nat ((?z + 1 - ?a) * 128)) (drop (nat (?a * 128)) (fh_data ?h st)))) = take (nat n) (drop (nat p) (fh_data ?h st))"
    unfolding w(1) by (rule take_drop_window [OF w(2) w3])
  also have "\<dots> = take (nat n) (drop (nat p) (of_contents f st))"
    using assms(4-6) by (simp add: of_contents_def drop_take min_absorb1)
  finally show ?thesis using rd by simp
qed

lemma length_of_contents:
  assumes "map_ok fm" "fh_inv (of_hdr f) fm st" "store_ok st"
  shows "int (length (of_contents f st)) = fh_limit (of_hdr f)"
  using length_fh_data [OF assms] file_blocks(6,7) [OF assms] by (simp add: of_contents_def)

lemma ReadAt_ok:
  assumes "map_ok fm" "fh_inv (of_hdr f) fm st" "store_ok st"
  shows "OpenFile_ReadAt f st n p =
    (let r = (if p < 0 then [] else take (nat n) (drop (nat p) (of_contents f st))) in Inr (int (length r), r))"
proof (cases "n \<le> 0 \<or> p < 0 \<or> fh_limit (of_hdr f) \<le> p")
  case True
  then show ?thesis using length_of_contents [OF assms]
    by (auto simp: OpenFile_ReadAt_def Let_def FileHeader_FileLimit_def)
next
  case False
  define m where "m = (if p + n > fh_limit (of_hdr f) then fh_limit (of_hdr f) - p else n)"
  have m: "0 < m" "0 \<le> p" "p + m \<le> fh_limit (of_hdr f)" using False by (auto simp: m_def)
  have len: "length (of_contents f st) = nat (fh_limit (of_hdr f))" using length_of_contents [OF assms] by simp
  have "take (nat n) (drop (nat p) (of_contents f st)) = take (nat m) (drop (nat p) (of_contents f st))"
    using False len by (auto simp: m_def nat_diff_distrib)
  moreover have "int (length (take (nat m) (drop (nat p) (of_contents f st)))) = m"
    using m len by simp
  moreover have "OpenFile_ReadAt f st n p = Inr (m, take (nat m) (drop (nat p) (of_contents f st)))"
    using ReadAt_inside [OF assms m] False m
    by (simp add: OpenFile_ReadAt_def FileHeader_FileLimit_def divRoundDown_def Let_def flip: m_def)
  ultimately show ?thesis using m(2) by (simp add: Let_def)
qed

section \<open>Writing inside the capacity\<close>

lemma write_one_block:
  assumes ok: "map_ok fm" "fh_inv h fm st" "store_ok st" and "i < length (fh_blocks h st)" "length c = 128"
  defines "st' \<equiv> st(fh_blocks h st ! i := c)"
  shows "store_ok st'" "fh_blocks h st' = fh_blocks h st" "fh_inv h fm st'" "fh_owned h st' = fh_owned h st"
    "fh_data h st' = overwrite (i * 128) c (fh_data h st)"
proof -
  let ?b = "fh_blocks h st ! i"
  note bl = file_blocks [OF ok]
  have mem: "?b \<in> set (fh_blocks h st)" using assms(4) by simp
  have sh: "fh_shape h" and idx: "24 < fh_nsectors h \<Longrightarrow> fh_dataSectors h ! 24 \<noteq> ?b"
    using ok(2) mem by (auto simp: fh_inv_def)
  have same: "24 < fh_nsectors h \<Longrightarrow> st' (fh_dataSectors h ! 24) = st (fh_dataSectors h ! 24)"
    using idx by (simp add: st'_def)
  note cong = fh_cong [where st = st and st' = st' and h = h, OF same sh]
  show "store_ok st'" unfolding st'_def by (rule store_ok_upd [OF ok(3) assms(5)])
  show "fh_inv h fm st'" "fh_owned h st' = fh_owned h st" using cong ok(2) by simp_all
  show b: "fh_blocks h st' = fh_blocks h st" by (rule cong(1))
  have "map st' (fh_blocks h st) = (map st (fh_blocks h st))[i := c]"
    unfolding st'_def by (rule map_upd_distinct [OF bl(3) assms(4)])
  then have "fh_data h st' = concat ((map st (fh_blocks h st))[i := c])" by (simp add: fh_data_def b)
  also have "\<dots> = overwrite (i * 128) c (fh_data h st)"
    using concat_update_uniform [OF bl(1) _ assms(5), of i] assms(4) by (simp add: fh_data_def)
  finally show "fh_data h st' = overwrite (i * 128) c (fh_data h st)" .
qed

definition wrote :: "FileHeader \<Rightarrow> bitmap \<Rightarrow> store \<Rightarrow> store \<Rightarrow> bool" where
  "wrote h fm st st' \<longleftrightarrow> store_ok st' \<and> fh_blocks h st' = fh_blocks h st \<and> fh_inv h fm st'
     \<and> fh_owned h st' = fh_owned h st \<and> (\<forall>s. s \<notin> set (fh_blocks h st) \<longrightarrow> st' s = st s)"

lemma write_sectors_ok:
  assumes "map_ok fm" "fh_inv h fm st" "store_ok st" "0 \<le> i" "i \<le> n + 1" "n < fh_nsectors h"
    "length buf = nat ((n + 1 - i) * 128)"
  shows "\<exists>st'. write_sectors h st i n buf = Inr st' \<and> wrote h fm st st'
    \<and> fh_data h st' = overwrite (nat (i * 128)) buf (fh_data h st)"
  using assms
proof (induction "nat (n + 1 - i)" arbitrary: i st buf)
  case 0
  then have "i = n + 1" "buf = []" by simp_all
  then have "write_sectors h st i n buf = Inr st" by (subst write_sectors.simps) simp
  with 0 \<open>buf = []\<close> show ?case by (simp add: wrote_def overwrite_def)
next
  case (Suc k)
  have i: "i \<le> n" using Suc.hyps(2) by simp
  note ok = Suc.prems(1-3)
  note bl = file_blocks [OF ok]
  let ?b = "fh_blocks h st ! nat i" and ?c = "take 128 buf"
  let ?st = "st(fh_blocks h st ! nat i := take 128 buf)"
  have len: "nat i < length (fh_blocks h st)" using i Suc.prems(4,6) bl(4) by linarith
  have "i * 128 < fh_capacity h" using i Suc.prems(6) bl(5) by simp
  then have bs: "FileHeader_ByteToSector h st (i * 128) = Inr ?b"
    using byte_to_sector_ok(1) [OF ok(1,2), of "i * 128"] Suc.prems(4) by simp
  have b: "0 < ?b" "?b < 1024" using bl(2) nth_mem [OF len] by blast+
  have c: "length ?c = 128" using i Suc.prems(7) by simp
  note one = write_one_block [OF ok len c]
  have step: "write_sectors h st i n buf = write_sectors h ?st (i + 1) n (drop 128 buf)"
    using i bs b c by (simp add: write_sectors.simps [of h st i n])
  have pre: "k = nat (n + 1 - (i + 1))" "0 \<le> i + 1" "i + 1 \<le> n + 1"
    "length (drop 128 buf) = nat ((n + 1 - (i + 1)) * 128)" using Suc.hyps(2) Suc.prems i by simp_all
  obtain st' where st': "write_sectors h ?st (i + 1) n (drop 128 buf) = Inr st'" "wrote h fm ?st st'"
    "fh_data h st' = overwrite (nat ((i + 1) * 128)) (drop 128 buf) (fh_data h ?st)"
    using Suc.hyps(1) [OF pre(1) ok(1) one(3,1) pre(2,3) Suc.prems(6) pre(4)] by blast
  have "wrote h fm st st'" using st'(2) one nth_mem [OF len] by (auto simp: wrote_def)
  moreover have "fh_data h st' = overwrite (nat (i * 128)) buf (fh_data h st)"
  proof -
    have "nat (i * 128) = nat i * 128" "nat ((i + 1) * 128) = nat i * 128 + length ?c"
      using c Suc.prems(4) by (simp_all add: nat_mult_distrib nat_add_distrib)
    moreover have "nat i * 128 + length ?c + length (drop 128 buf) \<le> length (fh_data h st)"
      using length_fh_data [OF ok] c Suc.prems(4,6,7) bl(5) i by (simp add: nat_le_iff)
    ultimately show ?thesis
      using overwrite_overwrite [of "nat i * 128" ?c "drop 128 buf" "fh_data h st"]
      unfolding st'(3) one(5) by simp
  qed
  ultimately show ?case using step st'(1) by auto
qed

lemma slice_write:
  assumes "take q buf = take q (drop a xs)" "q + length d \<le> length buf" "a + length buf \<le> length xs"
  shows "take (a + q + length d) (overwrite a (overwrite q d buf) xs) = take (a + q) xs @ d"
  using assms by (simp add: overwrite_def take_add)

lemma take_overwrite_before [simp]: "q \<le> i \<Longrightarrow> i \<le> length xs \<Longrightarrow> take q (overwrite i new xs) = take q xs"
  by (simp add: overwrite_def)

text \<open>
  The buffer before the new bytes are copied in: below the position it holds the old contents of
  the first sector.
\<close>

lemma write_buffer_prepare:
  assumes ok: "map_ok fm" "fh_inv h fm st" "store_ok st"
    and "0 < n" "0 \<le> p" "fh_limit h = p + n" "n \<le> int (length d)"
    and "a = p div 128" "z = (p + n - 1) div 128" "int (length buf0) = (1 + z - a) * 128"
  obtains buf where "write_buffer h st buf0 d n p a z
      = write_sectors h st a z (overwrite (nat (p - a * 128)) (take (nat n) d) buf)"
    "length buf = length buf0"
    "take (nat (p - a * 128)) buf = take (nat (p - a * 128)) (drop (nat (a * 128)) (fh_data h st))"
proof -
  let ?f = "\<lparr>of_hdr = h, of_seekPosition = 0\<rparr>" and ?q = "nat (p - a * 128)"
  let ?r = "\<lambda>i. take 128 (drop (nat (i * 128)) (of_contents ?f st))"
  define buf1 where "buf1 = (if p = a * 128 then buf0 else overwrite 0 (?r a) buf0)"
  define need where "need \<longleftrightarrow> p + n \<noteq> (z + 1) * 128 \<and> (a \<noteq> z \<or> p = a * 128)"
  define buf where "buf = (if need then overwrite (nat ((z - a) * 128)) (?r z) buf1 else buf1)"
  note sp = sector_span [OF assms(5,4), folded assms(8,9)]
  have rd: "OpenFile_ReadAt ?f st 128 (i * 128) = Inr (int (length (?r i)), ?r i)" if "0 \<le> i" for i
    using ReadAt_ok [of fm ?f st 128 "i * 128"] ok that by (simp add: Let_def)
  have "p < a * 128 + 128" unfolding assms(8) by linarith
  then have q: "?q < 128" "int ?q = p - a * 128" using sp(3) by simp_all
  have l0: "128 \<le> length buf0" "nat ((z - a) * 128) + 128 \<le> length buf0" using assms(10) sp(2) by simp_all
  have l1: "length buf1 = length buf0" using l0 by (simp add: buf1_def)
  have l2: "length buf = length buf0" using l0 l1 by (simp add: buf_def)
  have t1: "take ?q buf1 = take ?q (drop (nat (a * 128)) (fh_data h st))"
  proof (cases "p = a * 128")
    case False
    have lim: "length (of_contents ?f st) = nat (p + n)"
      using length_of_contents [of fm ?f st] ok assms(6) by simp
    have "?q \<le> nat (p + n) - nat (a * 128)" using q(2) sp(1) assms(4,5) by linarith
    then have "?q \<le> length (?r a)" using q(1) lim by simp
    then have "take ?q buf1 = take ?q (?r a)" using False by (simp add: buf1_def overwrite_def)
    also have "\<dots> = take ?q (drop (nat (a * 128)) (fh_data h st))"
      using q sp(1) assms(4,6) by (simp add: of_contents_def drop_take min_absorb1)
    finally show ?thesis .
  qed simp
  have "take ?q buf = take ?q buf1"
  proof (cases "need \<and> p \<noteq> a * 128")
    case True
    then have "a < z" using sp(2) by (auto simp: need_def)
    then have "128 \<le> (z - a) * 128" by simp
    moreover have "p - a * 128 < 128" using q(1) by simp
    ultimately have "?q \<le> nat ((z - a) * 128)" by (intro nat_mono) simp
    then show ?thesis using l0 l1 by (simp add: buf_def)
  qed (auto simp: buf_def)
  moreover have "write_buffer h st buf0 d n p a z
      = write_sectors h st a z (overwrite ?q (take (nat n) d) buf)"
    using rd [OF sp(1)] rd [of z] sp(1,2) assms(7)
    by (simp add: write_buffer_def Let_def buf_def buf1_def need_def)
  ultimately show thesis using that [of buf] l2 t1 by simp
qed

lemma write_buffer_ok:
  assumes ok: "map_ok fm" "fh_inv h fm st" "store_ok st"
    and "0 < n" "0 \<le> p" "fh_limit h = p + n" "n \<le> int (length d)"
    and "a = p div 128" "z = (p + n - 1) div 128" "int (length buf0) = (1 + z - a) * 128"
  shows "\<exists>st'. write_buffer h st buf0 d n p a z = Inr st' \<and> wrote h fm st st'
    \<and> take (nat (p + n)) (fh_data h st') = take (nat p) (fh_data h st) @ take (nat n) d"
proof -
  let ?q = "nat (p - a * 128)" and ?d = "take (nat n) d"
  obtain buf where buf: "write_buffer h st buf0 d n p a z = write_sectors h st a z (overwrite ?q ?d buf)"
    "length buf = length buf0" "take ?q buf = take ?q (drop (nat (a * 128)) (fh_data h st))"
    by (rule write_buffer_prepare [OF assms])
  note sp = sector_span [OF assms(5,4), folded assms(8,9)] and bl = file_blocks [OF ok]
  have z: "z < fh_nsectors h" using bl(5,7) assms(6) sp(5) by linarith
  have ld: "length ?d = nat n" using assms(7) by simp
  have fit: "?q + length ?d \<le> length buf" 
    using sp(3,4) assms(4) by (simp add: ld buf(2) nat_le_iff zle_int [symmetric] assms(10) del: zle_int)
  then have "length (overwrite ?q ?d buf) = nat ((z + 1 - a) * 128)"
    using assms(10) buf(2) by (simp add: ac_simps)
  with write_sectors_ok [OF ok sp(1) _ z] sp(2) obtain st' where
    st': "write_sectors h st a z (overwrite ?q ?d buf) = Inr st'" "wrote h fm st st'"
    "fh_data h st' = overwrite (nat (a * 128)) (overwrite ?q ?d buf) (fh_data h st)" by auto
  have "nat (a * 128) + length buf \<le> length (fh_data h st)"
    using length_fh_data [OF ok] bl(5) z assms(10) buf(2) sp(1) by (simp add: nat_le_iff)
  from slice_write [OF buf(3) fit this]
  have "take (nat (a * 128) + ?q + length ?d) (fh_data h st') = take (nat (a * 128) + ?q) (fh_data h st) @ ?d"
    unfolding st'(3) .
  moreover have "nat (a * 128) + ?q = nat p" "nat (a * 128) + ?q + length ?d = nat (p + n)"
    using sp(1,3) assms(4,5) ld by simp_all
  ultimately show ?thesis using buf(1) st'(1,2) by auto
qed

lemma fh_limit_indep [simp]:
  "fh_blocks (h\<lparr>fh_limit := l\<rparr>) st = fh_blocks h st" "fh_owned (h\<lparr>fh_limit := l\<rparr>) st = fh_owned h st"
  "fh_data (h\<lparr>fh_limit := l\<rparr>) st = fh_data h st"
  by (simp_all add: fh_blocks_def fh_owned_def fh_data_def index_ints_def)

lemma fh_inv_limit: "fh_inv h fm st \<Longrightarrow> 0 \<le> l \<Longrightarrow> l \<le> fh_capacity h \<Longrightarrow> fh_inv (h\<lparr>fh_limit := l\<rparr>) fm st"
  by (auto simp: fh_inv_def fh_shape_def index_ints_def)

text \<open>Writing a sector the file does not own leaves the file alone.\<close>

lemma fh_foreign:
  assumes "fh_inv h fm st" "\<And>s. s \<in> fh_owned h st \<Longrightarrow> st' s = st s"
  shows "fh_blocks h st' = fh_blocks h st" "fh_owned h st' = fh_owned h st" "fh_inv h fm st'"
    "fh_data h st' = fh_data h st"
proof -
  have sh: "fh_shape h" using assms(1) by (simp add: fh_inv_def)
  have idx: "24 < fh_nsectors h \<Longrightarrow> st' (fh_dataSectors h ! 24) = st (fh_dataSectors h ! 24)"
    using assms(2) by (simp add: fh_owned_def)
  note c = fh_cong [where st = st and st' = st', OF idx sh]
  show b: "fh_blocks h st' = fh_blocks h st" "fh_owned h st' = fh_owned h st" "fh_inv h fm st'"
    using c assms(1) by simp_all
  have "map st' (fh_blocks h st) = map st (fh_blocks h st)"
    using assms(2) by (intro map_cong) (simp_all add: fh_owned_def)
  then show "fh_data h st' = fh_data h st" unfolding fh_data_def b by (rule arg_cong)
qed

lemma write_data_ok:
  assumes ok: "file_ok h fm st" and "0 < n" "0 \<le> p" "p + n \<le> fh_capacity h" "n \<le> int (length d)"
  shows "\<exists>st'. write_data junk h st d n p = Inr (h\<lparr>fh_limit := p + n\<rparr>, st')
    \<and> file_ok (h\<lparr>fh_limit := p + n\<rparr>) fm st' \<and> fh_owned h st' = fh_owned h st
    \<and> take (nat (p + n)) (fh_data h st') = take (nat p) (fh_data h st) @ take (nat n) d
    \<and> st' (fh_selfSector h) = FileHeader_bytes (h\<lparr>fh_limit := p + n\<rparr>)
    \<and> (\<forall>s. s \<notin> set (fh_blocks h st) \<union> {fh_selfSector h} \<longrightarrow> st' s = st s)"
proof -
  let ?h = "h\<lparr>fh_limit := p + n\<rparr>" and ?self = "fh_selfSector h"
  let ?a = "p div 128" and ?z = "(p + n - 1) div 128"
  let ?st = "st(fh_selfSector h := FileHeader_bytes (h\<lparr>fh_limit := p + n\<rparr>))"
  have m: "map_ok fm" "fh_inv h fm st" "store_ok st" and self: "?self \<in> bm_used fm" "?self \<notin> fh_owned h st"
    using ok by (auto simp: file_ok_def)
  have len: "length (FileHeader_bytes ?h) = 128"
    using m(2) by (simp add: FileHeader_bytes_def fh_inv_def fh_shape_def)
  have wb: "FileHeader_WriteBack ?h st ?self = Inr ?st"
    using used_range [OF m(1) self(1)] len by (simp add: FileHeader_WriteBack_def)
  have "fh_inv ?h fm st" using assms(2-4) by (intro fh_inv_limit m) simp_all
  moreover have "?st s = st s" if "s \<in> fh_owned ?h st" for s using that self(2) by auto
  ultimately have inv: "fh_inv ?h fm ?st" "fh_blocks ?h ?st = fh_blocks h st"
    "fh_owned ?h ?st = fh_owned h st" "fh_data ?h ?st = fh_data h st"
    using fh_foreign [of ?h fm st ?st] by simp_all
  have st: "store_ok ?st" by (rule store_ok_upd [OF m(3) len])
  have bl: "int (length (map junk [0..<nat ((1 + ?z - ?a) * 128)])) = (1 + ?z - ?a) * 128"
    using sector_span(2) [OF assms(3,2)] by simp
  obtain st' where st': "write_buffer ?h ?st (map junk [0..<nat ((1 + ?z - ?a) * 128)]) d n p ?a ?z = Inr st'"
    "wrote ?h fm ?st st'" "take (nat (p + n)) (fh_data ?h st') = take (nat p) (fh_data ?h ?st) @ take (nat n) d"
    using write_buffer_ok [OF m(1) inv(1) st assms(2,3) _ assms(5) refl refl bl] by auto
  have w: "store_ok st'" "fh_inv ?h fm st'" "fh_owned h st' = fh_owned h st"
    "\<And>s. s \<notin> set (fh_blocks h st) \<Longrightarrow> st' s = ?st s"
    using st'(2) inv(2,3) by (simp_all add: wrote_def)
  have "?self \<notin> set (fh_blocks h st)" using self(2) by (simp add: fh_owned_def)
  then have "st' ?self = FileHeader_bytes ?h" using w(4) by simp
  moreover have "write_data junk h st d n p = Inr (?h, st')"
    using wb st'(1) assms(2-4)
    by (simp add: write_data_def FileHeader_setFileLimit_def Let_def divRoundDown_def)
  moreover have "file_ok ?h fm st'" using m w self by (simp add: file_ok_def)
  ultimately show ?thesis using w st'(3) inv(4) by simp
qed

section \<open>The free map on disk\<close>

definition map_on_disk :: "FileHeader \<Rightarrow> bitmap \<Rightarrow> store \<Rightarrow> bool" where
  "map_on_disk hm fm st \<longleftrightarrow> map_ok fm \<and> store_ok st \<and> fh_wf hm \<and> fh_inv hm fm st
     \<and> fh_nsectors hm = 1 \<and> fh_limit hm = 128 \<and> fh_selfSector hm = 0
     \<and> st 0 = FileHeader_bytes hm \<and> st (fh_dataSectors hm ! 0) = map_bytes (bm_map fm)"

lemma length_map_bytes [simp]: "length (map_bytes ws) = length ws * 4"
  by (induction ws) (simp_all add: map_bytes_def)

lemma words_of_map_bytes [simp]: "words_of_bytes (length ws) (map_bytes ws) = ws"
proof (induction ws)
  case (Cons w ws)
  have "map_bytes (w # ws) = bytes_of_word w @ map_bytes ws" by (simp add: map_bytes_def)
  then show ?case using Cons.IH by simp
qed simp

lemma map_ok_words: "map_ok fm \<Longrightarrow> bm_numWords fm = 32 \<and> length (bm_map fm) = 32 \<and> bm_numBits fm = 1024"
  by (auto simp: map_ok_def bm_inv_def divRoundUp_def)

lemma map_header:
  assumes "map_on_disk hm fm st"
  shows "file_ok hm fm st" "fh_owned hm st = {fh_dataSectors hm ! 0}" "fh_capacity hm = 128"
    "fh_data hm st = st (fh_dataSectors hm ! 0)" "OpenFile_new st 0 = Inr \<lparr>of_hdr = hm, of_seekPosition = 0\<rparr>"
    "fh_blocks hm st = [fh_dataSectors hm ! 0]" "0 \<notin> fh_owned hm st"
proof -
  have m: "map_ok fm" "store_ok st" "fh_wf hm" "fh_inv hm fm st" "fh_nsectors hm = 1" "fh_selfSector hm = 0"
    "st 0 = FileHeader_bytes hm" using assms by (simp_all add: map_on_disk_def)
  have sh: "fh_shape hm" "fh_owned hm st \<subseteq> bm_used fm - {0}" using m(4) by (simp_all add: fh_inv_def)
  have bl: "fh_blocks hm st = [fh_dataSectors hm ! 0]"
    using sh(1) m(5) by (cases "fh_dataSectors hm") (simp_all add: fh_blocks_direct, simp add: fh_shape_def)
  then show "fh_owned hm st = {fh_dataSectors hm ! 0}" "fh_data hm st = st (fh_dataSectors hm ! 0)"
    "fh_blocks hm st = [fh_dataSectors hm ! 0]"
    using m(5) by (simp_all add: fh_owned_def fh_data_def)
  show "fh_capacity hm = 128" using sh(1) m(5) by (simp add: fh_shape_def)
  show "0 \<notin> fh_owned hm st" using sh(2) by blast
  then show "file_ok hm fm st" using m by (simp add: file_ok_def map_ok_def)
  show "OpenFile_new st 0 = Inr \<lparr>of_hdr = hm, of_seekPosition = 0\<rparr>"
    using m(3,7) by (simp add: OpenFile_new_def FileHeader_FetchFrom_def FileHeader_roundtrip)
qed

lemma fetch_map:
  assumes "map_on_disk hm fm st" "map_shape b"
  shows "PersistentBitmap_FetchFrom b \<lparr>of_hdr = hm, of_seekPosition = 0\<rparr> st = Inr fm"
proof -
  let ?f = "\<lparr>of_hdr = hm, of_seekPosition = 0\<rparr>"
  have m: "map_ok fm" "store_ok st" "fh_inv hm fm st" "fh_limit hm = 128"
    "st (fh_dataSectors hm ! 0) = map_bytes (bm_map fm)" using assms(1) by (simp_all add: map_on_disk_def)
  note w = map_ok_words [OF m(1)]
  have b: "bm_numWords b = 32" "length (bm_map b) = 32" "bm_numBits b = 1024"
    using assms(2) by (auto simp: map_shape_def bm_inv_def divRoundUp_def)
  have "of_contents ?f st = map_bytes (bm_map fm)"
    using m(4,5) w map_header(4) [OF assms(1)] by (simp add: of_contents_def)
  then have "OpenFile_ReadAt ?f st 128 0 = Inr (128, map_bytes (bm_map fm))"
    using ReadAt_ok [of fm ?f st 128 0] m w by (simp add: Let_def)
  moreover have "overwrite 0 (map_bytes (bm_map fm)) (map_bytes (bm_map b)) = map_bytes (bm_map fm)"
    using b w by (simp add: overwrite_def)
  moreover have "b\<lparr>bm_map := bm_map fm\<rparr> = fm" using b w by (cases b; cases fm) simp
  ultimately show ?thesis
    using b w words_of_map_bytes [of "bm_map fm"] by (simp add: PersistentBitmap_FetchFrom_def)
qed

lemma map_on_disk_unique:
  assumes "map_on_disk hm fm st" "map_on_disk hm' fm' st"
  shows "hm' = hm" "fm' = fm"
proof -
  show "hm' = hm" using map_header(5) [OF assms(1)] map_header(5) [OF assms(2)] by simp
  then show "fm' = fm"
    using fetch_map [OF assms(1), of fm] fetch_map [OF assms(2), of fm] assms(1)
    by (simp add: map_on_disk_def map_ok_def map_shape_def)
qed

lemma fh_inv_mono: "fh_inv h fm st \<Longrightarrow> bm_used fm \<subseteq> bm_used fm' \<Longrightarrow> fh_inv h fm' st"
  by (auto simp: fh_inv_def)

lemma write_back_map:
  assumes "map_on_disk hm fm st" "map_ok fm'" "bm_used fm \<subseteq> bm_used fm'"
  shows "\<exists>st'. PersistentBitmap_WriteBack (Suc dep) junk fm' \<lparr>of_hdr = hm, of_seekPosition = 0\<rparr> st
      = Inr (\<lparr>of_hdr = hm, of_seekPosition = 0\<rparr>, st') \<and> map_on_disk hm fm' st'
    \<and> (\<forall>s. s \<notin> {0, fh_dataSectors hm ! 0} \<longrightarrow> st' s = st s)"
proof -
  note mh = map_header [OF assms(1)] and w = map_ok_words [OF assms(2)]
  have m: "fh_wf hm" "fh_nsectors hm = 1" "fh_selfSector hm = 0" "fh_limit hm = 128"
    using assms(1) by (simp_all add: map_on_disk_def)
  have lim: "hm\<lparr>fh_limit := 128\<rparr> = hm" using m(4) by (cases hm) simp
  have ok: "file_ok hm fm' st"
    using mh(1) assms(2,3) fh_inv_mono by (auto simp: file_ok_def)
  obtain st' where st': "write_data (junk dep) hm st (map_bytes (bm_map fm')) 128 0 = Inr (hm, st')"
    "file_ok hm fm' st'" "take 128 (fh_data hm st') = map_bytes (bm_map fm')" "fh_owned hm st' = fh_owned hm st"
    "st' 0 = FileHeader_bytes hm" "\<forall>s. s \<notin> set (fh_blocks hm st) \<union> {0} \<longrightarrow> st' s = st s"
    using write_data_ok [OF ok, of 128 0 "map_bytes (bm_map fm')" "junk dep"] mh(3) w lim m(3) by auto
  have sh: "fh_shape hm" using ok by (simp add: file_ok_def fh_inv_def)
  then have "fh_blocks hm st' = fh_blocks hm st" using m(2) by (simp add: fh_blocks_direct)
  then have "fh_data hm st' = st' (fh_dataSectors hm ! 0)" using mh(6) by (simp add: fh_data_def)
  then have "map_on_disk hm fm' st'"
    using st'(2,3,5) m length_fh_data [of fm' hm st'] mh(3) by (simp add: map_on_disk_def file_ok_def)
  moreover have "PersistentBitmap_WriteBack (Suc dep) junk fm' \<lparr>of_hdr = hm, of_seekPosition = 0\<rparr> st
      = Inr (\<lparr>of_hdr = hm, of_seekPosition = 0\<rparr>, st')"
    using st'(1) w m(4) mh(3)
    by (simp add: PersistentBitmap_WriteBack.simps OpenFile_WriteAt.simps(2) FileHeader_FileLimit_def
        FileHeader_FileCapacity_def Let_def)
  ultimately show ?thesis using st'(6) mh(6) by auto
qed

section \<open>Writing\<close>

text \<open>
  An open file beside the free map: its sectors are its own.
\<close>

definition file_on_disk :: "FileHeader \<Rightarrow> FileHeader \<Rightarrow> bitmap \<Rightarrow> store \<Rightarrow> bool" where
  "file_on_disk h hm fm st \<longleftrightarrow> file_ok h fm st \<and> map_on_disk hm fm st
     \<and> (insert (fh_selfSector h) (fh_owned h st)) \<inter> (insert 0 (fh_owned hm st)) = {}"

lemma map_on_disk_frame:
  assumes "map_on_disk hm fm st" "store_ok st'" "st' 0 = st 0" "st' (fh_dataSectors hm ! 0) = st (fh_dataSectors hm ! 0)"
  shows "map_on_disk hm fm st'" "fh_owned hm st' = fh_owned hm st"
proof -
  have "fh_inv hm fm st" using assms(1) by (simp add: map_on_disk_def)
  note f = fh_foreign [OF this, of st'] map_header(2) [OF assms(1)]
  show "map_on_disk hm fm st'" "fh_owned hm st' = fh_owned hm st"
    using assms f by (simp_all add: map_on_disk_def)
qed

text \<open>The effect of a successful write of \<open>d\<close> at \<open>p\<close>.\<close>

definition write_spec :: "OpenFile \<Rightarrow> FileHeader \<Rightarrow> bitmap \<Rightarrow> store \<Rightarrow> byte list \<Rightarrow> int
    \<Rightarrow> OpenFile \<Rightarrow> bitmap \<Rightarrow> store \<Rightarrow> bool" where
  "write_spec f hm fm st d p f' fm' st' \<longleftrightarrow> file_on_disk (of_hdr f') hm fm' st'
     \<and> of_contents f' st' = take (nat p) (of_contents f st) @ d
     \<and> of_seekPosition f' = of_seekPosition f \<and> fh_selfSector (of_hdr f') = fh_selfSector (of_hdr f)
     \<and> st' (fh_selfSector (of_hdr f)) = FileHeader_bytes (of_hdr f')
     \<and> bm_used fm' = bm_used fm \<union> fh_owned (of_hdr f') st'
     \<and> (\<forall>s \<in> bm_used fm - fh_owned (of_hdr f) st - {fh_selfSector (of_hdr f), 0} - fh_owned hm st. st' s = st s)"

lemma write_inside:
  assumes "file_on_disk h hm fm st" "0 < n" "0 \<le> p" "p + n \<le> fh_capacity h" "n \<le> int (length d)"
  shows "\<exists>st'. write_data junk h st d n p = Inr (h\<lparr>fh_limit := p + n\<rparr>, st')
    \<and> file_on_disk (h\<lparr>fh_limit := p + n\<rparr>) hm fm st' \<and> fh_owned h st' = fh_owned h st
    \<and> take (nat (p + n)) (fh_data h st') = take (nat p) (fh_data h st) @ take (nat n) d
    \<and> st' (fh_selfSector h) = FileHeader_bytes (h\<lparr>fh_limit := p + n\<rparr>)
    \<and> (\<forall>s. s \<notin> fh_owned h st \<union> {fh_selfSector h} \<longrightarrow> st' s = st s)"
proof -
  have ok: "file_ok h fm st" and md: "map_on_disk hm fm st"
    and dj: "insert (fh_selfSector h) (fh_owned h st) \<inter> insert 0 (fh_owned hm st) = {}"
    using assms(1) by (simp_all add: file_on_disk_def)
  obtain st' where st': "write_data junk h st d n p = Inr (h\<lparr>fh_limit := p + n\<rparr>, st')"
    "file_ok (h\<lparr>fh_limit := p + n\<rparr>) fm st'" "fh_owned h st' = fh_owned h st"
    "take (nat (p + n)) (fh_data h st') = take (nat p) (fh_data h st) @ take (nat n) d"
    "st' (fh_selfSector h) = FileHeader_bytes (h\<lparr>fh_limit := p + n\<rparr>)"
    "\<forall>s. s \<notin> set (fh_blocks h st) \<union> {fh_selfSector h} \<longrightarrow> st' s = st s"
    using write_data_ok [OF ok assms(2-5)] by blast
  have fr: "\<forall>s. s \<notin> fh_owned h st \<union> {fh_selfSector h} \<longrightarrow> st' s = st s"
    using st'(6) by (auto simp: fh_owned_def)
  have "st' 0 = st 0" "st' (fh_dataSectors hm ! 0) = st (fh_dataSectors hm ! 0)"
    using fr dj map_header(2) [OF md] by auto
  with md st'(2) have "map_on_disk hm fm st'" "fh_owned hm st' = fh_owned hm st"
    using map_on_disk_frame [of hm fm st st'] by (simp_all add: file_ok_def)
  then have "file_on_disk (h\<lparr>fh_limit := p + n\<rparr>) hm fm st'"
    using st'(2,3) dj by (simp add: file_on_disk_def)
  then show ?thesis using st' fr by blast
qed

lemma WriteAt_inside:
  assumes "file_on_disk (of_hdr f) hm fm st" "0 < n" "0 \<le> p" "p \<le> fh_limit (of_hdr f)"
    "p + n \<le> fh_capacity (of_hdr f)" "n \<le> int (length d)"
  shows "\<exists>st'. OpenFile_WriteAt (Suc dep) junk f st d n p = Inr (n, f\<lparr>of_hdr := (of_hdr f)\<lparr>fh_limit := p + n\<rparr>\<rparr>, st')
    \<and> write_spec f hm fm st (take (nat n) d) p (f\<lparr>of_hdr := (of_hdr f)\<lparr>fh_limit := p + n\<rparr>\<rparr>) fm st'"
proof -
  let ?h = "of_hdr f" and ?d = "take (nat n) d" and ?f = "f\<lparr>of_hdr := (of_hdr f)\<lparr>fh_limit := p + n\<rparr>\<rparr>"
  have used: "fh_owned ?h st \<subseteq> bm_used fm"
    using assms(1) by (auto simp: file_on_disk_def file_ok_def fh_inv_def)
  have cont: "take (nat p) (of_contents f st) = take (nat p) (fh_data ?h st)"
    using assms(4) by (simp add: of_contents_def min_absorb1)
  obtain st' where st': "write_data (junk dep) ?h st d n p = Inr (?h\<lparr>fh_limit := p + n\<rparr>, st')"
    "file_on_disk (?h\<lparr>fh_limit := p + n\<rparr>) hm fm st'" "fh_owned ?h st' = fh_owned ?h st"
    "take (nat (p + n)) (fh_data ?h st') = take (nat p) (fh_data ?h st) @ ?d"
    "st' (fh_selfSector ?h) = FileHeader_bytes (?h\<lparr>fh_limit := p + n\<rparr>)"
    "\<forall>s. s \<notin> fh_owned ?h st \<union> {fh_selfSector ?h} \<longrightarrow> st' s = st s"
    using write_inside [OF assms(1-3,5,6)] by blast
  have "OpenFile_WriteAt (Suc dep) junk f st d n p = Inr (n, ?f, st')"
    using st'(1) assms(2-5)
    by (simp add: OpenFile_WriteAt.simps(2) FileHeader_FileLimit_def FileHeader_FileCapacity_def)
  moreover have "write_spec f hm fm st ?d p ?f fm st'"
    unfolding write_spec_def using st' used cont by (auto simp: of_contents_def)
  ultimately show ?thesis by blast
qed

text \<open>After \<open>Allocate\<close> and the write-back of the free map the grown file is on disk again.\<close>

lemma extend_ok:
  assumes "file_on_disk h hm fm st" "alloc_spec h fm st k h1 fm1 st1" "0 < k"
  shows "\<exists>st2. PersistentBitmap_WriteBack (Suc dep) junk fm1 \<lparr>of_hdr = hm, of_seekPosition = 0\<rparr> st1
      = Inr (\<lparr>of_hdr = hm, of_seekPosition = 0\<rparr>, st2) \<and> file_on_disk h1 hm fm1 st2
    \<and> (\<exists>more. fh_data h1 st2 = fh_data h st @ more) \<and> fh_selfSector h1 = fh_selfSector h
    \<and> fh_limit h1 = fh_limit h \<and> fh_nsectors h1 = fh_nsectors h + k
    \<and> bm_used fm1 = bm_used fm \<union> fh_owned h1 st2 \<and> fh_owned h1 st2 \<inter> bm_used fm \<subseteq> fh_owned h st
    \<and> (\<forall>s. s \<notin> {0} \<union> fh_owned hm st \<union> fh_owned h1 st2 \<longrightarrow> st2 s = st s)"
proof -
  have ok: "file_ok h fm st" and md: "map_on_disk hm fm st"
    and dj: "insert (fh_selfSector h) (fh_owned h st) \<inter> insert 0 (fh_owned hm st) = {}"
    using assms(1) by (simp_all add: file_on_disk_def)
  obtain new where a: "map_ok fm1" "fh_inv h1 fm1 st1" "fh_nsectors h1 = fh_nsectors h + k"
    "fh_limit h1 = fh_limit h" "fh_selfSector h1 = fh_selfSector h"
    "fh_blocks h1 st1 = fh_blocks h st @ new" "bm_used fm1 = bm_used fm \<union> fh_owned h1 st1"
    "fh_owned h1 st1 \<inter> bm_used fm \<subseteq> fh_owned h st"
    "\<And>s. st1 s \<noteq> st s \<Longrightarrow> 24 < fh_nsectors h1 \<and> s = fh_dataSectors h1 ! 24"
    using assms(2) by (auto simp: alloc_spec_def)
  have idx: "fh_dataSectors h1 ! 24 \<in> fh_owned h1 st1" "fh_dataSectors h1 ! 24 \<notin> set (fh_blocks h1 st1)"
    "length (st1 (fh_dataSectors h1 ! 24)) = 128" if "24 < fh_nsectors h1"
    using a(2) that by (auto simp: fh_inv_def fh_owned_def)
  have "store_ok st1"
    unfolding store_ok_def
  proof (intro allI impI)
    fix s :: int
    assume "0 \<le> s \<and> s < NumSectors"
    then show "length (st1 s) = nat SectorSize"
      using ok idx(3) a(9) [of s] by (cases "st1 s = st s") (auto simp: file_ok_def store_ok_def)
  qed
  note mh = map_header [OF md]
  have mused: "insert 0 (fh_owned hm st) \<subseteq> bm_used fm"
    using md by (auto simp: map_on_disk_def fh_inv_def map_ok_def)
  then have dj1: "fh_owned h1 st1 \<inter> insert 0 (fh_owned hm st) = {}" using a(8) dj by auto
  have "st1 0 = st 0" "st1 (fh_dataSectors hm ! 0) = st (fh_dataSectors hm ! 0)"
    using a(9) idx(1) dj1 mh(2) by (metis IntI empty_iff insertI1, metis IntI empty_iff insertI1 insertI2)
  with md \<open>store_ok st1\<close> have md1: "map_on_disk hm fm st1" by (auto intro: map_on_disk_frame)
  have sub: "bm_used fm \<subseteq> bm_used fm1" using a(7) by simp
  obtain st2 where st2: "PersistentBitmap_WriteBack (Suc dep) junk fm1 \<lparr>of_hdr = hm, of_seekPosition = 0\<rparr> st1
      = Inr (\<lparr>of_hdr = hm, of_seekPosition = 0\<rparr>, st2)" "map_on_disk hm fm1 st2"
    "\<forall>s. s \<notin> {0, fh_dataSectors hm ! 0} \<longrightarrow> st2 s = st1 s"
    using write_back_map [OF md1 a(1) sub] by blast
  have same: "st2 s = st1 s" if "s \<in> fh_owned h1 st1" for s
    using st2(3) that dj1 mh(2) by (cases "s = 0 \<or> s = fh_dataSectors hm ! 0") auto
  note f1 = fh_foreign [OF a(2), of st2, OF same]
  have "fh_data h1 st1 = fh_data h st @ concat (map st1 new)"
  proof -
    have "st1 s = st s" if "s \<in> set (fh_blocks h st)" for s
      using a(6) a(9) [of s] that idx(2) by auto
    then have "map st1 (fh_blocks h st) = map st (fh_blocks h st)" by simp
    then show ?thesis unfolding fh_data_def a(6) by (simp only: map_append concat_append)
  qed
  moreover have "fh_selfSector h \<notin> fh_owned h1 st1" "fh_selfSector h \<in> bm_used fm"
    using ok a(8) by (auto simp: file_ok_def)
  then have "file_on_disk h1 hm fm1 st2"
    using st2(2) f1 a(1,5) dj dj1 sub map_header(2) [OF st2(2)] mh(2)
    by (auto simp: file_on_disk_def file_ok_def map_on_disk_def)
  moreover have "\<forall>s. s \<notin> {0} \<union> fh_owned hm st \<union> fh_owned h1 st2 \<longrightarrow> st2 s = st s"
    using st2(3) a(9) idx(1) f1(2) mh(2) by fastforce
  ultimately show ?thesis using st2(1) a f1(2,4) by auto
qed

lemma write_at_ok:
  assumes "file_on_disk (of_hdr f) hm fm st" "0 < n" "0 \<le> p" "p \<le> fh_limit (of_hdr f)" "p + n \<le> MaxFileSize"
    "n \<le> int (length d)" "k = divRoundUp (p + n - fh_capacity (of_hdr f)) SectorSize"
    and room: "fh_capacity (of_hdr f) < p + n \<Longrightarrow>
      k + (if fh_nsectors (of_hdr f) \<le> 24 \<and> 24 < fh_nsectors (of_hdr f) + k then 1 else 0) \<le> bm_free fm"
  shows "\<exists>f' fm' st'. OpenFile_WriteAt (Suc (Suc dep)) junk f st d n p = Inr (n, f', st')
    \<and> write_spec f hm fm st (take (nat n) d) p f' fm' st'"
proof -
  let ?h = "of_hdr f" and ?d = "take (nat n) d"
  have ok: "map_ok fm" "fh_inv ?h fm st" "store_ok st" and md: "map_on_disk hm fm st"
    and used: "fh_owned ?h st \<subseteq> bm_used fm"
    using assms(1) by (auto simp: file_on_disk_def file_ok_def fh_inv_def)
  note bl = file_blocks [OF ok]
  have cont: "take (nat p) (of_contents f st) = take (nat p) (fh_data ?h st)"
    using assms(4) by (simp add: of_contents_def min_absorb1)
  show ?thesis
  proof (cases "fh_capacity ?h < p + n")
    case False
    then have "p + n \<le> fh_capacity ?h" by simp
    from WriteAt_inside [OF assms(1-4) this assms(6)] show ?thesis by blast
  next
    case True
    define sz where "sz = p + n - fh_capacity ?h"
    have sz: "0 < sz" "sz + fh_capacity ?h \<le> MaxFileSize" "k = divRoundUp sz SectorSize"
      using True assms(5,7) by (simp_all add: sz_def)
    obtain h1 fm1 st1 where al: "FileHeader_Allocate ?h fm st sz = Inr (True, h1, fm1, st1)"
      "alloc_spec ?h fm st k h1 fm1 st1"
      using allocate_ok [OF ok(1,2) sz room [OF True]] by blast
    have k: "0 < k" using divRoundUp_pos sz(1,3) by simp
    obtain st2 where st2: "PersistentBitmap_WriteBack (Suc dep) junk fm1 \<lparr>of_hdr = hm, of_seekPosition = 0\<rparr> st1
        = Inr (\<lparr>of_hdr = hm, of_seekPosition = 0\<rparr>, st2)" "file_on_disk h1 hm fm1 st2"
      "\<exists>more. fh_data h1 st2 = fh_data ?h st @ more" "fh_selfSector h1 = fh_selfSector ?h"
      "fh_nsectors h1 = fh_nsectors ?h + k" "bm_used fm1 = bm_used fm \<union> fh_owned h1 st2"
      "fh_owned h1 st2 \<inter> bm_used fm \<subseteq> fh_owned ?h st"
      "\<forall>s. s \<notin> {0} \<union> fh_owned hm st \<union> fh_owned h1 st2 \<longrightarrow> st2 s = st s"
      using extend_ok [OF assms(1) al(2) k] by blast
    have "fh_capacity h1 = fh_nsectors h1 * 128"
      using st2(2) by (simp add: file_on_disk_def file_ok_def fh_inv_def fh_shape_def)
    moreover have "sz \<le> k * 128" using divRoundUp_bounds(1) [of sz 128] sz by simp
    ultimately have le: "p + n \<le> fh_capacity h1" using st2(5) bl(5) by (simp add: sz_def)
    obtain st' where st': "write_data (junk (Suc dep)) h1 st2 d n p = Inr (h1\<lparr>fh_limit := p + n\<rparr>, st')"
      "file_on_disk (h1\<lparr>fh_limit := p + n\<rparr>) hm fm1 st'" "fh_owned h1 st' = fh_owned h1 st2"
      "take (nat (p + n)) (fh_data h1 st') = take (nat p) (fh_data h1 st2) @ ?d"
      "st' (fh_selfSector h1) = FileHeader_bytes (h1\<lparr>fh_limit := p + n\<rparr>)"
      "\<forall>s. s \<notin> fh_owned h1 st2 \<union> {fh_selfSector h1} \<longrightarrow> st' s = st2 s"
      using write_inside [OF st2(2) assms(2,3) le assms(6)] by blast
    let ?f = "f\<lparr>of_hdr := h1\<lparr>fh_limit := p + n\<rparr>\<rparr>"
    obtain b0 where b0: "PersistentBitmap_new NumSectors = Inr b0" "map_shape b0"
      using Bitmap_new_ok [of NumSectors] by (auto simp: PersistentBitmap_new_def map_shape_def)
    have "OpenFile_WriteAt (Suc (Suc dep)) junk f st d n p = Inr (n, ?f, st')"
      using st'(1) assms(2-4) True b0 map_header(5) [OF md] fetch_map [OF md b0(2)] al(1) st2(1)
      by (simp add: OpenFile_WriteAt.simps(2) [of "Suc dep"] FileHeader_FileLimit_def FileHeader_FileCapacity_def sz_def)
    moreover have "nat p \<le> length (fh_data ?h st)"
      using assms(3,4) bl(7) length_fh_data [OF ok] by simp
    then have "take (nat p) (fh_data h1 st2) = take (nat p) (fh_data ?h st)" using st2(3) by auto
    then have "of_contents ?f st' = take (nat p) (of_contents f st) @ ?d"
      using st'(4) cont by (simp add: of_contents_def)
    moreover have "\<forall>s \<in> bm_used fm - fh_owned ?h st - {fh_selfSector ?h, 0} - fh_owned hm st. st' s = st s"
    proof
      fix s
      assume s: "s \<in> bm_used fm - fh_owned ?h st - {fh_selfSector ?h, 0} - fh_owned hm st"
      then have "s \<notin> fh_owned h1 st2" using st2(7) by blast
      with s st'(6) st2(4,8) show "st' s = st s" by simp
    qed
    ultimately show ?thesis
      using st'(2,3,5) st2(4,6) by (auto simp: write_spec_def)
  qed
qed

section \<open>The interface of a file\<close>

text \<open>
  What the directory and the free map rely on: reads return slices of the contents, writes
  replace the contents from the position on.
\<close>

locale byte_file =
  fixes ok :: "'f \<Rightarrow> 's \<Rightarrow> bool"
    and contents :: "'f \<Rightarrow> 's \<Rightarrow> byte list"
    and fits :: "'f \<Rightarrow> 's \<Rightarrow> int \<Rightarrow> int \<Rightarrow> bool"
    and read_at :: "'f \<Rightarrow> 's \<Rightarrow> int \<Rightarrow> int \<Rightarrow> (int \<times> byte list) res"
    and write_at :: "'f \<Rightarrow> 's \<Rightarrow> byte list \<Rightarrow> int \<Rightarrow> int \<Rightarrow> (int \<times> 'f \<times> 's) res"
  assumes read_law: "ok f s \<Longrightarrow> 0 \<le> p \<Longrightarrow>
      read_at f s n p = Inr (int (length (take (nat n) (drop (nat p) (contents f s)))),
                             take (nat n) (drop (nat p) (contents f s)))"
    and write_law: "ok f s \<Longrightarrow> 0 \<le> p \<Longrightarrow> p \<le> int (length (contents f s)) \<Longrightarrow> 0 < n \<Longrightarrow>
      n \<le> int (length d) \<Longrightarrow> fits f s n p \<Longrightarrow>
      \<exists>f' s'. write_at f s d n p = Inr (n, f', s') \<and> ok f' s'
        \<and> contents f' s' = take (nat p) (contents f s) @ take (nat n) d"
begin

lemma write_then_read:
  assumes "ok f s" "0 \<le> p" "p \<le> int (length (contents f s))" "0 < n" "n \<le> int (length d)" "fits f s n p"
  shows "\<exists>f' s'. write_at f s d n p = Inr (n, f', s') \<and> ok f' s'
    \<and> read_at f' s' n p = Inr (n, take (nat n) d)
    \<and> read_at f' s' p 0 = read_at f s p 0 \<and> (\<forall>m. read_at f' s' m (p + n) = Inr (0, []))"
proof -
  obtain f' s' where w: "write_at f s d n p = Inr (n, f', s')" "ok f' s'"
    "contents f' s' = take (nat p) (contents f s) @ take (nat n) d"
    using write_law [OF assms] by blast
  have len: "length (take (nat p) (contents f s)) = nat p" "length (take (nat n) d) = nat n"
    using assms(3,5) by simp_all
  have "length (contents f' s') = nat (p + n)" using w(3) len assms(2,4) by simp
  then have "read_at f' s' m (p + n) = Inr (0, [])" for m
    using read_law [OF w(2), of "p + n" m] assms(2,4) by simp
  moreover have "read_at f' s' n p = Inr (n, take (nat n) d)"
    using read_law [OF w(2) assms(2), of n] w(3) len assms(4) by simp
  moreover have "read_at f' s' p 0 = read_at f s p 0"
    using read_law [OF w(2), of 0 p] read_law [OF assms(1), of 0 p] w(3) len by simp
  ultimately show ?thesis using w(1,2) by blast
qed

end

definition of_ok :: "OpenFile \<Rightarrow> store \<Rightarrow> bool" where
  "of_ok f st \<longleftrightarrow> (\<exists>hm fm. file_on_disk (of_hdr f) hm fm st)"

text \<open>The new blocks a write needs, and whether the disk has them.\<close>

definition of_blocks :: "OpenFile \<Rightarrow> int \<Rightarrow> int \<Rightarrow> int" where
  "of_blocks f n p =
     (if p + n \<le> fh_capacity (of_hdr f) then 0
      else let k = divRoundUp (p + n - fh_capacity (of_hdr f)) SectorSize in
        k + (if fh_nsectors (of_hdr f) \<le> 24 \<and> 24 < fh_nsectors (of_hdr f) + k then 1 else 0))"

definition of_fits :: "OpenFile \<Rightarrow> store \<Rightarrow> int \<Rightarrow> int \<Rightarrow> bool" where
  "of_fits f st n p \<longleftrightarrow> p + n \<le> MaxFileSize
     \<and> (\<forall>hm fm. map_on_disk hm fm st \<longrightarrow> of_blocks f n p \<le> bm_free fm)"

lemma write_spec_ok:
  assumes "file_on_disk (of_hdr f) hm fm st" "0 < n" "0 \<le> p" "p \<le> int (length (of_contents f st))"
    "p + n \<le> MaxFileSize" "n \<le> int (length d)" "of_blocks f n p \<le> bm_free fm"
  shows "\<exists>f' fm' st'. OpenFile_WriteAt (Suc (Suc dep)) junk f st d n p = Inr (n, f', st')
    \<and> write_spec f hm fm st (take (nat n) d) p f' fm' st'"
proof (rule write_at_ok [OF assms(1-3) _ assms(5,6) refl])
  have "map_ok fm" "fh_inv (of_hdr f) fm st" "store_ok st"
    using assms(1) by (simp_all add: file_on_disk_def file_ok_def)
  from length_of_contents [OF this] assms(4) show "p \<le> fh_limit (of_hdr f)" by simp
qed (use assms(7) in \<open>simp add: of_blocks_def Let_def\<close>)

interpretation disk_file: byte_file of_ok of_contents of_fits OpenFile_ReadAt
  "OpenFile_WriteAt (Suc (Suc dep)) junk" for dep junk
proof unfold_locales
  fix f st and p n :: int
  assume "of_ok f st" "0 \<le> p"
  then obtain hm fm where "file_on_disk (of_hdr f) hm fm st" by (auto simp: of_ok_def)
  then have "map_ok fm" "fh_inv (of_hdr f) fm st" "store_ok st"
    by (simp_all add: file_on_disk_def file_ok_def)
  from ReadAt_ok [OF this, of n p] \<open>0 \<le> p\<close>
  show "OpenFile_ReadAt f st n p = Inr (int (length (take (nat n) (drop (nat p) (of_contents f st)))),
      take (nat n) (drop (nat p) (of_contents f st)))"
    by (simp add: Let_def)
next
  fix f st and p n :: int and d :: "byte list"
  assume a: "of_ok f st" "0 \<le> p" "p \<le> int (length (of_contents f st))" "0 < n" "n \<le> int (length d)"
    "of_fits f st n p"
  then obtain hm fm where fd: "file_on_disk (of_hdr f) hm fm st" by (auto simp: of_ok_def)
  then have "of_blocks f n p \<le> bm_free fm" "p + n \<le> MaxFileSize"
    using a(6) by (auto simp: of_fits_def file_on_disk_def)
  with write_spec_ok [OF fd a(4,2,3) _ a(5)]
  show "\<exists>f' st'. OpenFile_WriteAt (Suc (Suc dep)) junk f st d n p = Inr (n, f', st') \<and> of_ok f' st'
      \<and> of_contents f' st' = take (nat p) (of_contents f st) @ take (nat n) d"
    unfolding write_spec_def of_ok_def by meson
qed

section \<open>Properties\<close>

text \<open>
  C26. \<open>WriteAt\<close> inside or at the end of a file, with enough free blocks: all bytes are written;
  the contents are the old ones up to the position followed by the new bytes, so the file ends
  after the last byte written even when it was longer before; the header on disk is the one in
  memory; exactly the blocks of the file are added to the free map on disk; and every sector in
  use that belongs to neither this file nor the free map is unchanged. Two levels of recursion
  are enough, whatever the fresh buffers contain.
\<close>

theorem write_at_correct:
  assumes "file_on_disk (of_hdr f) hm fm st" "0 < n" "0 \<le> p" "p \<le> int (length (of_contents f st))"
    "p + n \<le> MaxFileSize" "n \<le> int (length d)" "of_blocks f n p \<le> bm_free fm" "2 \<le> depth"
  shows "\<exists>f' fm' st'. OpenFile_WriteAt depth junk f st d n p = Inr (n, f', st')
    \<and> of_contents f' st' = take (nat p) (of_contents f st) @ take (nat n) d
    \<and> file_on_disk (of_hdr f') hm fm' st' \<and> of_seekPosition f' = of_seekPosition f
    \<and> st' (fh_selfSector (of_hdr f)) = FileHeader_bytes (of_hdr f')
    \<and> bm_used fm' = bm_used fm \<union> fh_owned (of_hdr f') st'
    \<and> (\<forall>s \<in> bm_used fm - fh_owned (of_hdr f) st - {fh_selfSector (of_hdr f), 0} - fh_owned hm st. st' s = st s)"
proof -
  obtain dep where "depth = Suc (Suc dep)" using assms(8) by (cases depth; cases "depth - 1") auto
  with write_spec_ok [OF assms(1-7)] show ?thesis unfolding write_spec_def by blast
qed


text \<open>
  What \<open>WriteAt\<close> wrote, \<open>ReadAt\<close> reads back; what was before the position still reads the
  same, and nothing can be read behind the bytes written.
\<close>

theorem write_then_read_back:
  assumes "of_ok f st" "0 \<le> p" "p \<le> int (length (of_contents f st))" "0 < n" "n \<le> int (length d)"
    "of_fits f st n p"
  shows "\<exists>f' st'. OpenFile_WriteAt 2 junk f st d n p = Inr (n, f', st') \<and> of_ok f' st'
    \<and> OpenFile_ReadAt f' st' n p = Inr (n, take (nat n) d)
    \<and> OpenFile_ReadAt f' st' p 0 = OpenFile_ReadAt f st p 0
    \<and> (\<forall>m. OpenFile_ReadAt f' st' m (p + n) = Inr (0, []))"
  using disk_file.write_then_read [OF assms, of 0 junk] by (simp add: numeral_2_eq_2)

text \<open>
  C29. The free map survives the disk: written back with more sectors marked, it is what opening
  the file at sector 0 and fetching it yields.
\<close>

theorem free_map_persists:
  assumes "map_on_disk hm fm st" "map_ok fm'" "bm_used fm \<subseteq> bm_used fm'"
  shows "\<exists>f st'. PersistentBitmap_WriteBack 1 junk fm' \<lparr>of_hdr = hm, of_seekPosition = 0\<rparr> st = Inr (f, st')
    \<and> bindE (OpenFile_new st' 0) (\<lambda>f. PersistentBitmap_open f st' NumSectors) = Inr fm'"
proof -
  obtain st' where st': "PersistentBitmap_WriteBack (Suc 0) junk fm' \<lparr>of_hdr = hm, of_seekPosition = 0\<rparr> st
      = Inr (\<lparr>of_hdr = hm, of_seekPosition = 0\<rparr>, st')" "map_on_disk hm fm' st'"
    using write_back_map [OF assms] by blast
  obtain b0 where "Bitmap_new NumSectors = Inr b0" "map_shape b0"
    using Bitmap_new_ok [of NumSectors] by (auto simp: map_shape_def)
  with st' show ?thesis
    using map_header(5) [OF st'(2)] fetch_map [OF st'(2)] by (simp add: PersistentBitmap_open_def)
qed

section \<open>Instances\<close>

text \<open>A disk with the free map (header in sector 0, data in sector 1) and an empty file (header in sector 2).\<close>

definition disk_map :: bitmap where
  "disk_map = \<lparr>bm_numBits = 1024, bm_numWords = 32, bm_map = 7 # replicate 31 0\<rparr>"

definition disk_map_hdr :: FileHeader where
  "disk_map_hdr = \<lparr>fh_limit = 128, fh_capacity = 128, fh_nsectors = 1, fh_selfSector = 0, fh_type = 0,
     fh_createTime = 0, fh_modifyTime = 0, fh_dataSectors = 1 # replicate 24 0\<rparr>"

definition disk_empty :: OpenFile where
  "disk_empty = \<lparr>of_hdr = FileHeader_new 2 TYPE_FILE 0 0, of_seekPosition = 0\<rparr>"

definition disk_store :: store where
  "disk_store = (\<lambda>s. replicate 128 0)(0 := FileHeader_bytes disk_map_hdr, 1 := map_bytes (bm_map disk_map))"

lemma disk_map_used: "bm_used disk_map = {0, 1, 2}"
proof -
  have "bm_bit disk_map i \<longleftrightarrow> i \<in> {0, 1, 2}" if "0 \<le> i" "i < 1024" for i
  proof (cases "i < 32")
    case True
    have seven: "(7 :: 32 word) = mask 3" by (simp add: mask_eq_exp_minus_1)
    have "bit (7 :: 32 word) (nat i) \<longleftrightarrow> i < 3" unfolding seven bit_mask_iff using True that by auto
    then have "bm_bit disk_map i \<longleftrightarrow> i < 3" using True that by (simp add: bm_bit_def disk_map_def)
    then show ?thesis using that by auto
  next
    case False
    then have "0 < nat (i div 32)" by (simp add: pos_imp_zdiv_pos_iff)
    moreover have "nat (i div 32) \<le> 31" using that by simp
    ultimately show ?thesis using False by (simp add: bm_bit_def disk_map_def nth_Cons')
  qed
  then show ?thesis by (auto simp: bm_used_def disk_map_def)
qed

lemma disk_map_ok: "map_ok disk_map" "bm_free disk_map = 1021"
proof -
  have "bm_inv disk_map" "bm_numBits disk_map = 1024" by (simp_all add: bm_inv_def disk_map_def divRoundUp_def)
  then show "map_ok disk_map" "bm_free disk_map = 1021" by (simp_all add: map_ok_def bm_free_def disk_map_used)
qed

lemma disk_map_on_disk: "map_on_disk disk_map_hdr disk_map disk_store"
proof -
  have wf: "fh_wf disk_map_hdr" by (simp add: fh_wf_def fh_ints_def disk_map_hdr_def int_ok_def)
  have st: "store_ok disk_store"
    using FileHeader_bytes_length [OF wf] by (simp add: store_ok_def disk_store_def disk_map_def)
  have bl: "fh_blocks disk_map_hdr disk_store = [1]" by (simp add: fh_blocks_def disk_map_hdr_def)
  have "fh_inv disk_map_hdr disk_map disk_store"
    unfolding fh_inv_def fh_owned_def bl by (simp add: fh_shape_def disk_map_hdr_def disk_map_used)
  then show ?thesis using wf st disk_map_ok(1)
    by (simp add: map_on_disk_def) (simp add: disk_map_hdr_def disk_store_def)
qed

lemma disk_empty_on_disk: "file_on_disk (of_hdr disk_empty) disk_map_hdr disk_map disk_store"
proof -
  have own: "fh_owned (of_hdr disk_empty) disk_store = {}" "fh_selfSector (of_hdr disk_empty) = 2"
    by (simp_all add: fh_owned_def fh_blocks_def disk_empty_def FileHeader_new_def)
  have "fh_inv (of_hdr disk_empty) disk_map disk_store"
    unfolding fh_inv_def own
    by (simp add: fh_shape_def fh_blocks_def disk_empty_def FileHeader_new_def nth_Cons')
  then show ?thesis
    using own disk_map_on_disk disk_map_used disk_map_ok map_header(2) [OF disk_map_on_disk]
    by (simp add: file_on_disk_def file_ok_def map_on_disk_def) (simp add: disk_map_hdr_def)
qed

lemma disk_empty_blocks: "of_blocks disk_empty 3 0 = 1" "of_contents disk_empty disk_store = []"
  by (simp_all add: of_blocks_def disk_empty_def FileHeader_new_def divRoundUp_def of_contents_def)

theorem write_at_correct_witness:
  "\<exists>f' st'. OpenFile_WriteAt 2 (\<lambda>_ _. 0) disk_empty disk_store [1, 2, 3] 3 0 = Inr (3, f', st')
     \<and> of_contents f' st' = [1, 2, 3]"
  using write_at_correct [OF disk_empty_on_disk, of 3 0 "[1, 2, 3]" 2 "\<lambda>_ _. 0"]
    disk_empty_blocks disk_map_ok(2) by auto


theorem write_then_read_back_witness:
  "\<exists>f' st'. OpenFile_WriteAt 2 (\<lambda>_ _. 0) disk_empty disk_store [1, 2, 3] 3 0 = Inr (3, f', st')
     \<and> OpenFile_ReadAt f' st' 3 0 = Inr (3, [1, 2, 3])"
proof -
  have "of_fits disk_empty disk_store 3 0"
    unfolding of_fits_def
    by (auto simp: disk_map_ok(2) disk_empty_blocks(1) dest: map_on_disk_unique(2) [OF disk_map_on_disk])
  moreover have "of_ok disk_empty disk_store" using disk_empty_on_disk by (auto simp: of_ok_def)
  ultimately show ?thesis
    using write_then_read_back [of disk_empty disk_store 0 3 "[1, 2, 3]" "\<lambda>_ _. 0"] disk_empty_blocks by auto
qed

theorem free_map_persists_witness:
  "\<exists>f st'. PersistentBitmap_WriteBack 1 (\<lambda>_ _. 0) full_map \<lparr>of_hdr = disk_map_hdr, of_seekPosition = 0\<rparr> disk_store
      = Inr (f, st') \<and> bindE (OpenFile_new st' 0) (\<lambda>f. PersistentBitmap_open f st' NumSectors) = Inr full_map"
  using free_map_persists [OF disk_map_on_disk full_map_ok, of "\<lambda>_ _. 0"] disk_map_used full_map_used by simp

end
