(* ===== verification/Directory.thy ===== *)
theory Directory
  imports Open_File
begin

text \<open>
  filesys/directory.h and filesys/directory.cc: directories, tables of fixed-size entries kept in
  Nachos files, and the resolution of path names.

  C strings are byte lists without the terminating zero. A \<open>DirectoryEntry\<close> occupies 20 bytes
  (\<open>inUse\<close>, 3 bytes of padding, \<open>sector\<close>, 10 bytes of name, 2 bytes of padding); padding
  bytes, which nothing reads, are zero in the model. The fields a constructor leaves
  uninitialised come from its argument \<open>junk\<close>, the memory the object was allocated in.

  \<open>dir_map\<close> is what a directory means, a finite map from names (their first nine characters) to
  header sectors. The locale \<open>name_table\<close> states the contract of a table of names and is
  interpreted on the methods that work in memory; \<open>namex_walks\<close> shows that the recursive
  descent of \<open>namex\<close> is the left-to-right walk over the components of the path.
\<close>

section \<open>C strings\<close>

text \<open>A byte of a string; behind the last one is the terminating zero.\<close>

definition cbyte :: "byte list \<Rightarrow> byte" where
  "cbyte s = (case s of [] \<Rightarrow> 0 | c # _ \<Rightarrow> c)"

text \<open>\<open>!strncmp(a, b, n)\<close>\<close>

fun strncmp_eq :: "nat \<Rightarrow> byte list \<Rightarrow> byte list \<Rightarrow> bool" where
  "strncmp_eq 0 a b = True"
| "strncmp_eq (Suc n) a b = (cbyte a = cbyte b \<and> (cbyte a = 0 \<or> strncmp_eq n (tl a) (tl b)))"

text \<open>\<open>strncpy(dest, src, n)\<close>: at most \<open>n\<close> characters, padded with zeros to \<open>n\<close>.\<close>

definition strncpy :: "byte list \<Rightarrow> byte list \<Rightarrow> nat \<Rightarrow> byte list" where
  "strncpy dest src n = overwrite 0 (take n (takeWhile (\<lambda>c. c \<noteq> 0) src @ replicate n 0)) dest"

definition slash :: byte where "slash = 47"

section \<open>The classes\<close>

definition FileNameMaxLen :: nat where "FileNameMaxLen = 9"

record DirectoryEntry =
  de_inUse :: bool
  de_sector :: int
  de_name :: "byte list"

record Directory =
  dir_tableSize :: int
  dir_table :: "DirectoryEntry list"
  dir_sector :: int

definition entry_bytes :: "DirectoryEntry \<Rightarrow> byte list" where
  "entry_bytes e = [if de_inUse e then 1 else 0, 0, 0, 0] @ bytes_of_int (de_sector e) @ de_name e @ [0, 0]"

definition entry_of_bytes :: "byte list \<Rightarrow> DirectoryEntry" where
  "entry_of_bytes bs = \<lparr>de_inUse = (cbyte bs \<noteq> 0), de_sector = int_of_bytes (take 4 (drop 4 bs)),
     de_name = take 10 (drop 8 bs)\<rparr>"

definition table_bytes :: "DirectoryEntry list \<Rightarrow> byte list" where
  "table_bytes es = concat (map entry_bytes es)"

fun table_of_bytes :: "nat \<Rightarrow> byte list \<Rightarrow> DirectoryEntry list" where
  "table_of_bytes 0 bs = []"
| "table_of_bytes (Suc n) bs = entry_of_bytes (take 20 bs) # table_of_bytes n (drop 20 bs)"

definition Directory_new :: "Directory \<Rightarrow> int \<Rightarrow> int \<Rightarrow> Directory" where
  "Directory_new junk sector tableSize =
     \<lparr>dir_tableSize = tableSize,
      dir_table = map (\<lambda>e. e\<lparr>de_inUse := False\<rparr>) (take (nat tableSize) (dir_table junk)), dir_sector = sector\<rparr>"

text \<open>The constructors without a sector leave \<open>sector\<close> uninitialised.\<close>

definition Directory_sized :: "Directory \<Rightarrow> int \<Rightarrow> Directory" where
  "Directory_sized junk tableSize = Directory_new junk (dir_sector junk) tableSize"

definition Directory_default :: "Directory \<Rightarrow> Directory" where
  "Directory_default junk = Directory_sized junk 10"

definition Directory_FetchFrom :: "Directory \<Rightarrow> OpenFile \<Rightarrow> store \<Rightarrow> Directory res" where
  "Directory_FetchFrom d f st =
     bindE (OpenFile_ReadAt f st 4 0) (\<lambda>(_, bs).
     let sector = int_of_bytes (overwrite 0 bs (bytes_of_int (dir_sector d))) in
     bindE (OpenFile_ReadAt f st (dir_tableSize d * 20) 4) (\<lambda>(_, tb).
     Inr (d\<lparr>dir_sector := sector,
            dir_table := table_of_bytes (length (dir_table d)) (overwrite 0 tb (table_bytes (dir_table d)))\<rparr>)))"

definition Directory_WriteBack :: "nat \<Rightarrow> (nat \<Rightarrow> nat \<Rightarrow> byte) \<Rightarrow> Directory \<Rightarrow> OpenFile \<Rightarrow> store
    \<Rightarrow> (OpenFile \<times> store) res" where
  "Directory_WriteBack depth junk d f st =
     bindE (OpenFile_WriteAt depth junk f st (bytes_of_int (dir_sector d)) 4 0) (\<lambda>(_, f1, st1).
     bindE (OpenFile_WriteAt depth junk f1 st1 (table_bytes (dir_table d)) (dir_tableSize d * 20) 4) (\<lambda>(_, f2, st2).
     Inr (f2, st2)))"

function FindIndex_from :: "Directory \<Rightarrow> byte list \<Rightarrow> int \<Rightarrow> int res" where
  "FindIndex_from d name i =
     (if i < dir_tableSize d
      then bindE (arr_get (dir_table d) i) (\<lambda>e.
           if de_inUse e \<and> strncmp_eq FileNameMaxLen (de_name e) name then Inr i
           else FindIndex_from d name (i + 1))
      else Inr (- 1))"
  by pat_completeness auto
termination
  by (relation "measure (\<lambda>(d, name, i). nat (dir_tableSize d - i))") auto

definition Directory_FindIndex :: "Directory \<Rightarrow> byte list \<Rightarrow> int res" where
  "Directory_FindIndex d name = FindIndex_from d name 0"

definition Directory_dirlookup :: "Directory \<Rightarrow> byte list \<Rightarrow> int res" where
  "Directory_dirlookup d name =
     bindE (Directory_FindIndex d name) (\<lambda>k.
     if k \<noteq> - 1 then bindE (arr_get (dir_table d) k) (\<lambda>e. Inr (de_sector e)) else Inr (- 1))"

text \<open>\<open>skipelem\<close>: the element and the rest of the path, or the null pointer when there is none.\<close>

definition Directory_skipelem :: "byte list \<Rightarrow> (byte list \<times> byte list) option" where
  "Directory_skipelem path =
     (let s = dropWhile (\<lambda>c. c = slash) path in
      if s = [] then None
      else let elem = takeWhile (\<lambda>c. c \<noteq> slash) s; rest = dropWhile (\<lambda>c. c \<noteq> slash) s in
        Some (take FileNameMaxLen elem, dropWhile (\<lambda>c. c = slash) rest))"

function Directory_AddInCurrentDir_from :: "Directory \<Rightarrow> byte list \<Rightarrow> int \<Rightarrow> int \<Rightarrow> (bool \<times> Directory) res" where
  "Directory_AddInCurrentDir_from d name newSector i =
     (if i < dir_tableSize d
      then bindE (arr_get (dir_table d) i) (\<lambda>e.
           if \<not> de_inUse e
           then Inr (True, d\<lparr>dir_table := (dir_table d)[nat i :=
                  \<lparr>de_inUse = True, de_sector = newSector, de_name = strncpy (de_name e) name FileNameMaxLen\<rparr>]\<rparr>)
           else Directory_AddInCurrentDir_from d name newSector (i + 1))
      else Inr (False, d))"
  by pat_completeness auto
termination
  by (relation "measure (\<lambda>(d, name, s, i). nat (dir_tableSize d - i))") auto

definition Directory_AddInCurrentDir :: "Directory \<Rightarrow> byte list \<Rightarrow> int \<Rightarrow> (bool \<times> Directory) res" where
  "Directory_AddInCurrentDir d name newSector =
     bindE (Directory_FindIndex d name) (\<lambda>k.
     if k \<noteq> - 1 then Inr (False, d) else Directory_AddInCurrentDir_from d name newSector 0)"

definition Directory_RemoveInCurrentDir :: "Directory \<Rightarrow> byte list \<Rightarrow> (bool \<times> Directory) res" where
  "Directory_RemoveInCurrentDir d name =
     bindE (Directory_FindIndex d name) (\<lambda>index.
     if index = - 1 then Inr (False, d)
     else bindE (arr_get (dir_table d) index) (\<lambda>e.
          bindE (arr_set (dir_table d) index (e\<lparr>de_inUse := False\<rparr>)) (\<lambda>t. Inr (True, d\<lparr>dir_table := t\<rparr>))))"

definition Directory_List :: "Directory \<Rightarrow> byte list list" where
  "Directory_List d = map (\<lambda>e. takeWhile (\<lambda>c. c \<noteq> 0) (de_name e))
     (filter de_inUse (take (nat (dir_tableSize d)) (dir_table d)))"

declare FindIndex_from.simps [simp del] Directory_AddInCurrentDir_from.simps [simp del]

section \<open>Paths\<close>

lemma skipelem_shorter:
  assumes "Directory_skipelem path = Some (name, rest)"
  shows "length rest < length path"
proof -
  let ?s = "dropWhile (\<lambda>c. c = slash) path"
  have s: "?s \<noteq> []" "rest = dropWhile (\<lambda>c. c = slash) (dropWhile (\<lambda>c. c \<noteq> slash) ?s)"
    using assms by (auto simp: Directory_skipelem_def Let_def split: if_splits)
  then obtain c cs where c: "?s = c # cs" by (cases ?s) auto
  have "c \<noteq> slash" using hd_dropWhile [OF s(1)] c by simp
  then have "length rest \<le> length cs"
    using s(2) c by (simp add: le_trans [OF length_dropWhile_le length_dropWhile_le])
  also have "\<dots> < length path" using c length_dropWhile_le [of "\<lambda>c. c = slash" path] by simp
  finally show ?thesis .
qed

text \<open>
  \<open>namex\<close> returns the sector and the last element, which its caller sees in the \<open>name\<close>
  buffer. New objects start from the memory \<open>junk\<close>.
\<close>

function Directory_namex :: "Directory \<Rightarrow> store \<Rightarrow> Directory \<Rightarrow> byte list \<Rightarrow> bool
    \<Rightarrow> (int \<times> byte list) res" where
  "Directory_namex junk st d path nameparent =
     (case Directory_skipelem path of
        None \<Rightarrow> Inl Bad_Access
      | Some (name, path1) \<Rightarrow>
          if path1 = [] then
            (if nameparent then Inr (dir_sector d, name)
             else bindE (Directory_dirlookup d name) (\<lambda>s. Inr (s, name)))
          else
            bindE (Directory_dirlookup d name) (\<lambda>nxt.
            if nxt = - 1 then Inr (- 1, name)
            else
              bindE (FileHeader_FetchFrom st nxt) (\<lambda>hdr.
              if fh_type hdr \<noteq> TYPE_DIR then Inr (- 1, name)
              else
                bindE (OpenFile_new st nxt) (\<lambda>f.
                bindE (Directory_FetchFrom (Directory_default junk) f st) (\<lambda>nextDir.
                Directory_namex junk st nextDir path1 nameparent)))))"
  by pat_completeness auto
termination
  by (relation "measure (\<lambda>(junk, st, d, path, np). length path)") (auto dest: skipelem_shorter)

declare Directory_namex.simps [simp del]

definition Directory_Find :: "Directory \<Rightarrow> store \<Rightarrow> Directory \<Rightarrow> byte list \<Rightarrow> int res" where
  "Directory_Find junk st d path = bindE (Directory_namex junk st d path False) (\<lambda>(s, _). Inr s)"

text \<open>\<open>Add\<close> and \<open>Remove\<close> work on the parent directory on disk, not on the object itself.\<close>

definition Directory_Add :: "nat \<Rightarrow> (nat \<Rightarrow> nat \<Rightarrow> byte) \<Rightarrow> Directory \<Rightarrow> store \<Rightarrow> Directory
    \<Rightarrow> byte list \<Rightarrow> int \<Rightarrow> (bool \<times> store) res" where
  "Directory_Add depth bytes junk st d path newSector =
     bindE (Directory_namex junk st d path True) (\<lambda>(psector, name).
     if psector = - 1 then Inr (False, st)
     else
       bindE (OpenFile_new st psector) (\<lambda>pfile.
       bindE (Directory_FetchFrom (Directory_default junk) pfile st) (\<lambda>pdir.
       bindE (Directory_AddInCurrentDir pdir name newSector) (\<lambda>(r, pdir1).
       if r then bindE (Directory_WriteBack depth bytes pdir1 pfile st) (\<lambda>(_, st1). Inr (True, st1))
       else Inr (False, st)))))"

definition Directory_Remove :: "nat \<Rightarrow> (nat \<Rightarrow> nat \<Rightarrow> byte) \<Rightarrow> Directory \<Rightarrow> store \<Rightarrow> Directory
    \<Rightarrow> byte list \<Rightarrow> (bool \<times> store) res" where
  "Directory_Remove depth bytes junk st d path =
     bindE (Directory_namex junk st d path True) (\<lambda>(psector, name).
     if psector = - 1 then Inr (False, st)
     else
       bindE (OpenFile_new st psector) (\<lambda>pfile.
       bindE (Directory_FetchFrom (Directory_default junk) pfile st) (\<lambda>pdir.
       bindE (Directory_RemoveInCurrentDir pdir name) (\<lambda>(r, pdir1).
       if r then bindE (Directory_WriteBack depth bytes pdir1 pfile st) (\<lambda>(_, st1). Inr (True, st1))
       else Inr (False, st)))))"

section \<open>What a directory means\<close>

text \<open>The part of a string that names are compared by.\<close>

definition cstr :: "nat \<Rightarrow> byte list \<Rightarrow> byte list" where
  "cstr n s = take n (takeWhile (\<lambda>c. c \<noteq> 0) s)"

lemma strncmp_eq_iff: "strncmp_eq n a b \<longleftrightarrow> cstr n a = cstr n b"
proof (induction n arbitrary: a b)
  case 0
  then show ?case by (simp add: cstr_def)
next
  case (Suc n)
  have step: "cstr (Suc n) s = (if cbyte s = 0 then [] else cbyte s # cstr n (tl s))" for s
    by (cases s) (simp_all add: cstr_def cbyte_def)
  show ?case using Suc.IH by (simp add: step)
qed

lemma cstr_take [simp]: "cstr k (take k s) = cstr k s"
proof (induction k arbitrary: s)
  case (Suc k)
  then show ?case by (cases s) (simp_all add: cstr_def)
qed (simp add: cstr_def)

lemma cstr_strncpy:
  assumes "n \<le> length dest"
  shows "cstr n (strncpy dest src n) = cstr n src" "length (strncpy dest src n) = length dest"
proof -
  let ?w = "takeWhile (\<lambda>c. c \<noteq> (0 :: byte)) src"
  have wz: "\<And>c. c \<in> set ?w \<Longrightarrow> c \<noteq> 0" by (auto dest: set_takeWhileD)
  have nz: "\<And>c. c \<in> set (take n ?w) \<Longrightarrow> c \<noteq> 0" by (auto dest: in_set_takeD set_takeWhileD)
  have eq: "strncpy dest src n = take n ?w @ replicate (n - length ?w) 0 @ drop n dest"
    using assms by (simp add: strncpy_def overwrite_def min_def)
  show "length (strncpy dest src n) = length dest" using assms by (simp add: eq)
  show "cstr n (strncpy dest src n) = cstr n src"
  proof (cases "n \<le> length ?w")
    case True
    then have "strncpy dest src n = take n ?w @ drop n dest" using eq by simp
    then have "takeWhile (\<lambda>c. c \<noteq> 0) (strncpy dest src n) = take n ?w @ takeWhile (\<lambda>c. c \<noteq> 0) (drop n dest)"
      using takeWhile_append2 [of "take n ?w" "\<lambda>c. c \<noteq> 0", OF nz] by simp
    then show ?thesis using True by (simp add: cstr_def)
  next
    case False
    then obtain k where "n - length ?w = Suc k" by (cases "n - length ?w") auto
    then have "strncpy dest src n = ?w @ 0 # replicate k 0 @ drop n dest" using eq False by simp
    then have "takeWhile (\<lambda>c. c \<noteq> 0) (strncpy dest src n) = ?w"
      using takeWhile_append2 [of ?w "\<lambda>c. c \<noteq> 0", OF wz] by simp
    then show ?thesis by (simp add: cstr_def)
  qed
qed

definition entry_key :: "DirectoryEntry \<Rightarrow> byte list" where
  "entry_key e = cstr 9 (de_name e)"

definition dir_map :: "Directory \<Rightarrow> (byte list \<rightharpoonup> int)" where
  "dir_map d k = map_option de_sector (find (\<lambda>e. de_inUse e \<and> entry_key e = k) (dir_table d))"

definition dir_inv :: "Directory \<Rightarrow> bool" where
  "dir_inv d \<longleftrightarrow> dir_tableSize d = int (length (dir_table d)) \<and> (\<forall>e \<in> set (dir_table d). length (de_name e) = 10)
     \<and> (\<forall>i < length (dir_table d). \<forall>j < length (dir_table d). de_inUse (dir_table d ! i) \<and> de_inUse (dir_table d ! j)
          \<and> entry_key (dir_table d ! i) = entry_key (dir_table d ! j) \<longrightarrow> i = j)"

lemma dir_map_Some:
  assumes "dir_inv d"
  shows "dir_map d k = Some s \<longleftrightarrow> (\<exists>i < length (dir_table d). de_inUse (dir_table d ! i)
    \<and> entry_key (dir_table d ! i) = k \<and> de_sector (dir_table d ! i) = s)"
proof -
  let ?t = "dir_table d"
  have uniq: "i = j" if "i < length ?t" "j < length ?t" "de_inUse (?t ! i)" "de_inUse (?t ! j)"
    "entry_key (?t ! i) = entry_key (?t ! j)" for i j using assms that by (simp add: dir_inv_def)
  show ?thesis
  proof
    assume "dir_map d k = Some s"
    then show "\<exists>i < length ?t. de_inUse (?t ! i) \<and> entry_key (?t ! i) = k \<and> de_sector (?t ! i) = s"
      by (auto simp: dir_map_def find_Some_iff)
  next
    assume "\<exists>i < length ?t. de_inUse (?t ! i) \<and> entry_key (?t ! i) = k \<and> de_sector (?t ! i) = s"
    then obtain i where i: "i < length ?t" "de_inUse (?t ! i)" "entry_key (?t ! i) = k" "de_sector (?t ! i) = s"
      by blast
    have "\<not> (de_inUse (?t ! j) \<and> entry_key (?t ! j) = k)" if "j < i" for j
      using uniq [OF i(1), of j] i that by auto
    then have "find (\<lambda>e. de_inUse e \<and> entry_key e = k) ?t = Some (?t ! i)"
      using i by (auto simp: find_Some_iff)
    then show "dir_map d k = Some s" using i(4) by (simp add: dir_map_def)
  qed
qed

lemma dir_map_None:
  "dir_map d k = None \<longleftrightarrow> (\<forall>i < length (dir_table d). \<not> (de_inUse (dir_table d ! i) \<and> entry_key (dir_table d ! i) = k))"
  by (auto simp: dir_map_def find_None_iff in_set_conv_nth)

lemma FindIndex_from_ok:
  assumes "dir_inv d" "0 \<le> i" "i \<le> dir_tableSize d"
  shows "(\<exists>j. i \<le> int j \<and> j < length (dir_table d) \<and> FindIndex_from d name i = Inr (int j)
      \<and> de_inUse (dir_table d ! j) \<and> entry_key (dir_table d ! j) = cstr 9 name)
    \<or> FindIndex_from d name i = Inr (- 1) \<and> (\<forall>j < length (dir_table d). i \<le> int j \<longrightarrow>
        \<not> (de_inUse (dir_table d ! j) \<and> entry_key (dir_table d ! j) = cstr 9 name))"
  using assms(2,3)
proof (induction "nat (dir_tableSize d - i)" arbitrary: i)
  case 0
  then have "FindIndex_from d name i = Inr (- 1)" by (subst FindIndex_from.simps) simp
  with 0 assms(1) show ?case by (simp add: dir_inv_def)
next
  case (Suc k)
  have len: "dir_tableSize d = int (length (dir_table d))" using assms(1) by (simp add: dir_inv_def)
  have i: "i < dir_tableSize d" using Suc.hyps(2) by simp
  let ?e = "dir_table d ! nat i"
  let ?hit = "de_inUse ?e \<and> entry_key ?e = cstr 9 name"
  have step: "FindIndex_from d name i = (if ?hit then Inr i else FindIndex_from d name (i + 1))"
    using i Suc.prems(1) len
    by (simp add: FindIndex_from.simps [of d name i] strncmp_eq_iff FileNameMaxLen_def entry_key_def)
  show ?case
  proof (cases ?hit)
    case True
    with step i Suc.prems len show ?thesis by (intro disjI1 exI [of _ "nat i"]) auto
  next
    case False
    have "k = nat (dir_tableSize d - (i + 1))" "0 \<le> i + 1" "i + 1 \<le> dir_tableSize d"
      using Suc.hyps(2) Suc.prems i by simp_all
    note IH = Suc.hyps(1) [OF this]
    have split: "i \<le> int j \<longleftrightarrow> j = nat i \<or> i + 1 \<le> int j" for j using Suc.prems(1) by auto
    show ?thesis using IH step False by (simp add: split) auto
  qed
qed

lemma FindIndex_cases:
  assumes "dir_inv d"
  obtains j where "j < length (dir_table d)" "Directory_FindIndex d name = Inr (int j)"
      "de_inUse (dir_table d ! j)" "entry_key (dir_table d ! j) = cstr 9 name"
      "dir_map d (cstr 9 name) = Some (de_sector (dir_table d ! j))"
  | "Directory_FindIndex d name = Inr (- 1)" "dir_map d (cstr 9 name) = None"
proof -
  have "0 \<le> dir_tableSize d" using assms by (simp add: dir_inv_def)
  from FindIndex_from_ok [OF assms _ this, of name] show thesis
    using that dir_map_Some [OF assms, of "cstr 9 name"] dir_map_None [of d "cstr 9 name"]
    unfolding Directory_FindIndex_def by fastforce
qed

section \<open>The operations in memory\<close>

text \<open>Names are told apart by their first nine characters.\<close>

abbreviation name_key :: "byte list \<Rightarrow> byte list" where
  "name_key name \<equiv> cstr 9 name"

definition dir_count :: "Directory \<Rightarrow> nat" where
  "dir_count d = length (filter de_inUse (dir_table d))"

lemma dir_count_card:
  assumes "dir_inv d"
  shows "card (dom (dir_map d)) = dir_count d"
proof -
  let ?t = "dir_table d" and ?I = "{i. i < length (dir_table d) \<and> de_inUse (dir_table d ! i)}"
  have "dom (dir_map d) = (\<lambda>i. entry_key (?t ! i)) ` ?I"
    using dir_map_Some [OF assms] by (auto simp: dom_def)
  moreover have "inj_on (\<lambda>i. entry_key (?t ! i)) ?I"
    using assms by (auto simp: inj_on_def dir_inv_def)
  ultimately show ?thesis by (simp add: card_image dir_count_def length_filter_conv_card)
qed

lemma dirlookup_ok:
  assumes "dir_inv d"
  shows "Directory_dirlookup d name = Inr (case dir_map d (name_key name) of None \<Rightarrow> - 1 | Some s \<Rightarrow> s)"
  using assms by (rule FindIndex_cases [where name = name]) (simp_all add: Directory_dirlookup_def)

lemma Add_from_ok:
  assumes "dir_tableSize d = int (length (dir_table d))" "0 \<le> i" "i \<le> dir_tableSize d"
    and "\<And>j. int j < i \<Longrightarrow> de_inUse (dir_table d ! j)"
  shows "(\<exists>j < length (dir_table d). \<not> de_inUse (dir_table d ! j) \<and>
      Directory_AddInCurrentDir_from d name s i = Inr (True, d\<lparr>dir_table := (dir_table d)[j :=
        \<lparr>de_inUse = True, de_sector = s, de_name = strncpy (de_name (dir_table d ! j)) name 9\<rparr>]\<rparr>))
    \<or> Directory_AddInCurrentDir_from d name s i = Inr (False, d) \<and> dir_count d = length (dir_table d)"
  using assms(2-4)
proof (induction "nat (dir_tableSize d - i)" arbitrary: i)
  case 0
  then have "\<forall>e \<in> set (dir_table d). de_inUse e" using assms(1) by (auto simp: in_set_conv_nth)
  then have "dir_count d = length (dir_table d)" by (simp add: dir_count_def)
  moreover have "Directory_AddInCurrentDir_from d name s i = Inr (False, d)"
    using 0 by (subst Directory_AddInCurrentDir_from.simps) simp
  ultimately show ?case by simp
next
  case (Suc k)
  have i: "i < dir_tableSize d" using Suc.hyps(2) by simp
  show ?case
  proof (cases "de_inUse (dir_table d ! nat i)")
    case True
    then have step: "Directory_AddInCurrentDir_from d name s i = Directory_AddInCurrentDir_from d name s (i + 1)"
      using i Suc.prems(1) assms(1) by (simp add: Directory_AddInCurrentDir_from.simps [of d name s i])
    have "de_inUse (dir_table d ! j)" if "int j < i + 1" for j
      using True Suc.prems(3) [of j] that by (cases "int j = i") auto
    from Suc.hyps(1) [of "i + 1", OF _ _ _ this] show ?thesis unfolding step
      using Suc.hyps(2) Suc.prems(1) i by simp
  next
    case False
    then show ?thesis
      using i Suc.prems(1) assms(1)
      by (intro disjI1 exI [of _ "nat i"])
        (simp add: Directory_AddInCurrentDir_from.simps [of d name s i] FileNameMaxLen_def)
  qed
qed

lemma add_entry:
  fixes s :: int
  assumes inv: "dir_inv d" and j: "j < length (dir_table d)" "\<not> de_inUse (dir_table d ! j)"
    and fresh: "dir_map d (name_key name) = None"
  defines "d' \<equiv> d\<lparr>dir_table := (dir_table d)[j :=
        \<lparr>de_inUse = True, de_sector = s, de_name = strncpy (de_name (dir_table d ! j)) name 9\<rparr>]\<rparr>"
  shows "dir_inv d'" "dir_map d' = (dir_map d)(name_key name \<mapsto> s)"
proof -
  let ?t = "dir_table d" and ?n = "strncpy (de_name (dir_table d ! j)) name 9"
  let ?e = "\<lparr>de_inUse = True, de_sector = s, de_name = ?n\<rparr>"
  have len: "length (de_name (?t ! j)) = 10" using inv j(1) by (simp add: dir_inv_def)
  have n: "length ?n = 10" "cstr 9 ?n = name_key name" using cstr_strncpy [of 9 "de_name (?t ! j)" name] len by simp_all
  have key: "entry_key ?e = name_key name" using n(2) by (simp add: entry_key_def)
  have t': "dir_table d' = ?t[j := ?e]" "dir_tableSize d' = dir_tableSize d" by (simp_all add: d'_def)
  have free: "\<not> (de_inUse (?t ! i) \<and> entry_key (?t ! i) = name_key name)" if "i < length ?t" for i
    using fresh that by (simp add: dir_map_None)
  have names: "\<forall>e \<in> set (?t[j := ?e]). length (de_name e) = 10"
    using inv n(1) set_update_subset_insert [of ?t j ?e] by (auto simp: dir_inv_def)
  show inv': "dir_inv d'"
    unfolding dir_inv_def t'
  proof (intro conjI allI impI)
    fix a b
    assume ab: "a < length (?t[j := ?e])" "b < length (?t[j := ?e])"
      "de_inUse (?t[j := ?e] ! a) \<and> de_inUse (?t[j := ?e] ! b) \<and> entry_key (?t[j := ?e] ! a) = entry_key (?t[j := ?e] ! b)"
    show "a = b"
      using ab free [of a] free [of b] key inv by (cases "a = j"; cases "b = j") (auto simp: dir_inv_def)
  qed (use inv names in \<open>simp_all add: dir_inv_def\<close>)
  have "dir_map d' k = Some v \<longleftrightarrow> ((dir_map d)(name_key name \<mapsto> s)) k = Some v" for k v
  proof (cases "k = name_key name")
    case True
    have "(\<exists>i < length ?t. de_inUse (?t[j := ?e] ! i) \<and> entry_key (?t[j := ?e] ! i) = k \<and> de_sector (?t[j := ?e] ! i) = v)
      \<longleftrightarrow> v = s" using True key j(1) free by (auto simp: nth_list_update intro: exI [of _ j])
    then show ?thesis using dir_map_Some [OF inv'] True by (auto simp: t')
  next
    case False
    have "de_inUse (?t[j := ?e] ! i) \<and> entry_key (?t[j := ?e] ! i) = k \<longleftrightarrow> de_inUse (?t ! i) \<and> entry_key (?t ! i) = k"
      "i \<noteq> j \<Longrightarrow> ?t[j := ?e] ! i = ?t ! i" if "i < length ?t" for i
      using that False key j by (auto simp: nth_list_update)
    then have "(\<exists>i < length ?t. de_inUse (?t[j := ?e] ! i) \<and> entry_key (?t[j := ?e] ! i) = k \<and> de_sector (?t[j := ?e] ! i) = v)
      \<longleftrightarrow> (\<exists>i < length ?t. de_inUse (?t ! i) \<and> entry_key (?t ! i) = k \<and> de_sector (?t ! i) = v)"
      using j(2) by metis
    then show ?thesis using dir_map_Some [OF inv'] dir_map_Some [OF inv] False by (simp add: t')
  qed
  then show "dir_map d' = (dir_map d)(name_key name \<mapsto> s)"
    by (intro ext) (metis not_None_eq)
qed

lemma AddInCurrentDir_ok:
  assumes "dir_inv d"
  shows "\<exists>r d'. Directory_AddInCurrentDir d name s = Inr (r, d') \<and> dir_inv d' \<and> length (dir_table d') = length (dir_table d)
    \<and> r = (dir_map d (name_key name) = None \<and> dir_count d < length (dir_table d))
    \<and> dir_map d' = (if r then (dir_map d)(name_key name \<mapsto> s) else dir_map d)"
proof -
  have sz: "dir_tableSize d = int (length (dir_table d))" using assms by (simp add: dir_inv_def)
  from assms show ?thesis
  proof (cases rule: FindIndex_cases [where name = name])
    case (1 j)
    then show ?thesis using assms by (intro exI [of _ False] exI [of _ d]) (simp add: Directory_AddInCurrentDir_def)
  next
    case 2
    have eq: "Directory_AddInCurrentDir d name s = Directory_AddInCurrentDir_from d name s 0"
      using 2 by (simp add: Directory_AddInCurrentDir_def)
    from Add_from_ok [OF sz, of 0 name s] sz consider
      (free) j where "j < length (dir_table d)" "\<not> de_inUse (dir_table d ! j)"
        "Directory_AddInCurrentDir_from d name s 0 = Inr (True, d\<lparr>dir_table := (dir_table d)[j :=
          \<lparr>de_inUse = True, de_sector = s, de_name = strncpy (de_name (dir_table d ! j)) name 9\<rparr>]\<rparr>)"
      | (full) "Directory_AddInCurrentDir_from d name s 0 = Inr (False, d)" "dir_count d = length (dir_table d)"
      by auto
    then show ?thesis
    proof cases
      case free
      have "dir_count d < length (dir_table d)"
        using free(1,2) length_filter_less [of "dir_table d ! j" "dir_table d" de_inUse] by (simp add: dir_count_def)
      then show ?thesis using add_entry [OF assms free(1,2) 2(2), of s] free(3) 2(2) eq
        by (intro exI [of _ True]) simp
    next
      case full
      then show ?thesis using eq assms by (intro exI [of _ False] exI [of _ d]) simp
    qed
  qed
qed

lemma remove_entry:
  assumes inv: "dir_inv d" and j: "j < length (dir_table d)" "de_inUse (dir_table d ! j)"
  defines "d' \<equiv> d\<lparr>dir_table := (dir_table d)[j := (dir_table d ! j)\<lparr>de_inUse := False\<rparr>]\<rparr>"
  shows "dir_inv d'" "dir_map d' = (dir_map d)(entry_key (dir_table d ! j) := None)"
proof -
  let ?t = "dir_table d" and ?e = "(dir_table d ! j)\<lparr>de_inUse := False\<rparr>"
  have t': "dir_table d' = ?t[j := ?e]" "dir_tableSize d' = dir_tableSize d" by (simp_all add: d'_def)
  have uniq: "i = j" if "i < length ?t" "de_inUse (?t ! i)" "entry_key (?t ! i) = entry_key (?t ! j)" for i
    using inv j that by (simp add: dir_inv_def)
  have names: "\<forall>e \<in> set (?t[j := ?e]). length (de_name e) = 10"
    using inv j set_update_subset_insert [of ?t j ?e] by (auto simp: dir_inv_def)
  show inv': "dir_inv d'"
    unfolding dir_inv_def t'
  proof (intro conjI allI impI)
    fix a b
    assume ab: "a < length (?t[j := ?e])" "b < length (?t[j := ?e])"
      "de_inUse (?t[j := ?e] ! a) \<and> de_inUse (?t[j := ?e] ! b) \<and> entry_key (?t[j := ?e] ! a) = entry_key (?t[j := ?e] ! b)"
    then have "a \<noteq> j" "b \<noteq> j" by auto
    then show "a = b" using ab inv by (simp add: dir_inv_def)
  qed (use inv names in \<open>simp_all add: dir_inv_def\<close>)
  have "dir_map d' k = Some v \<longleftrightarrow> ((dir_map d)(entry_key (?t ! j) := None)) k = Some v" for k v
  proof -
    have "dir_map d' k = Some v \<longleftrightarrow> (\<exists>i < length ?t. i \<noteq> j \<and> de_inUse (?t ! i) \<and> entry_key (?t ! i) = k \<and> de_sector (?t ! i) = v)"
    proof -
      have "de_inUse (?t[j := ?e] ! i) \<longleftrightarrow> i \<noteq> j \<and> de_inUse (?t ! i)" "i \<noteq> j \<Longrightarrow> ?t[j := ?e] ! i = ?t ! i"
        if "i < length ?t" for i using that j(1) by (cases "i = j"; simp)+
      then show ?thesis unfolding dir_map_Some [OF inv'] t' length_list_update by metis
    qed
    also have "\<dots> \<longleftrightarrow> k \<noteq> entry_key (?t ! j) \<and> dir_map d k = Some v"
      unfolding dir_map_Some [OF inv] using uniq j by auto
    finally show ?thesis by simp
  qed
  then show "dir_map d' = (dir_map d)(entry_key (?t ! j) := None)"
    by (intro ext) (metis not_None_eq)
qed

lemma RemoveInCurrentDir_ok:
  assumes "dir_inv d"
  shows "\<exists>r d'. Directory_RemoveInCurrentDir d name = Inr (r, d') \<and> dir_inv d' \<and> length (dir_table d') = length (dir_table d)
    \<and> r = (dir_map d (name_key name) \<noteq> None) \<and> dir_map d' = (dir_map d)(name_key name := None)"
  using assms
proof (cases rule: FindIndex_cases [where name = name])
  case (1 j)
  then show ?thesis using remove_entry [OF assms 1(1,3)]
    by (intro exI [of _ True]) (simp add: Directory_RemoveInCurrentDir_def)
next
  case 2
  then show ?thesis using assms
    by (intro exI [of _ False] exI [of _ d]) (simp add: Directory_RemoveInCurrentDir_def fun_upd_idem)
qed

section \<open>The interface of a table of names\<close>

text \<open>Calls on a table of names and their meaning on a finite map of bounded size.\<close>

datatype name_call = Call_Lookup "byte list" | Call_Add "byte list" int | Call_Remove "byte list"

fun call_map :: "nat \<Rightarrow> name_call \<Rightarrow> (byte list \<rightharpoonup> int) \<Rightarrow> (int \<times> (byte list \<rightharpoonup> int)) res" where
  "call_map cap (Call_Lookup n) m = Inr (case m (name_key n) of None \<Rightarrow> - 1 | Some s \<Rightarrow> s, m)"
| "call_map cap (Call_Add n s) m =
     (if m (name_key n) = None \<and> card (dom m) < cap then Inr (1, m(name_key n \<mapsto> s)) else Inr (0, m))"
| "call_map cap (Call_Remove n) m =
     Inr (if m (name_key n) = None then 0 else 1, m(name_key n := None))"

locale name_table =
  fixes inv :: "'d \<Rightarrow> bool"
    and cap :: "'d \<Rightarrow> nat"
    and tbl :: "'d \<Rightarrow> (byte list \<rightharpoonup> int)"
    and lookup :: "'d \<Rightarrow> byte list \<Rightarrow> int res"
    and add :: "'d \<Rightarrow> byte list \<Rightarrow> int \<Rightarrow> (bool \<times> 'd) res"
    and remove :: "'d \<Rightarrow> byte list \<Rightarrow> (bool \<times> 'd) res"
  assumes lookup_law: "inv d \<Longrightarrow> lookup d n = Inr (case tbl d (name_key n) of None \<Rightarrow> - 1 | Some s \<Rightarrow> s)"
    and add_law: "inv d \<Longrightarrow> \<exists>r d'. add d n s = Inr (r, d') \<and> inv d' \<and> cap d' = cap d
      \<and> r = (tbl d (name_key n) = None \<and> card (dom (tbl d)) < cap d)
      \<and> tbl d' = (if r then (tbl d)(name_key n \<mapsto> s) else tbl d)"
    and remove_law: "inv d \<Longrightarrow> \<exists>r d'. remove d n = Inr (r, d') \<and> inv d' \<and> cap d' = cap d
      \<and> r = (tbl d (name_key n) \<noteq> None) \<and> tbl d' = (tbl d)(name_key n := None)"
begin

fun call_table :: "name_call \<Rightarrow> 'd \<Rightarrow> (int \<times> 'd) res" where
  "call_table (Call_Lookup n) d = bindE (lookup d n) (\<lambda>s. Inr (s, d))"
| "call_table (Call_Add n s) d = bindE (add d n s) (\<lambda>(r, d'). Inr (if r then 1 else 0, d'))"
| "call_table (Call_Remove n) d = bindE (remove d n) (\<lambda>(r, d'). Inr (if r then 1 else 0, d'))"

definition represents :: "nat \<Rightarrow> 'd \<Rightarrow> (byte list \<rightharpoonup> int) \<Rightarrow> bool" where
  "represents k d m \<longleftrightarrow> inv d \<and> cap d = k \<and> tbl d = m"

lemma call_represents:
  assumes "represents k d m"
  shows "agree (represents k) (call_table c d) (call_map k c m)"
proof (cases c)
  case (Call_Lookup n)
  then show ?thesis using assms lookup_law [of d n] by (auto simp: represents_def)
next
  case (Call_Add n s)
  obtain r d' where "add d n s = Inr (r, d')" "inv d'" "cap d' = cap d"
    "r = (tbl d (name_key n) = None \<and> card (dom (tbl d)) < cap d)"
    "tbl d' = (if r then (tbl d)(name_key n \<mapsto> s) else tbl d)"
    using add_law [of d n s] assms by (auto simp: represents_def)
  then show ?thesis using assms Call_Add by (auto simp: represents_def)
next
  case (Call_Remove n)
  obtain r d' where "remove d n = Inr (r, d')" "inv d'" "cap d' = cap d"
    "r = (tbl d (name_key n) \<noteq> None)" "tbl d' = (tbl d)(name_key n := None)"
    using remove_law [of d n] assms by (auto simp: represents_def)
  then show ?thesis using assms Call_Remove by (auto simp: represents_def)
qed

lemma calls_represent:
  "represents k d m \<Longrightarrow> agree (represents k) (run_calls call_table cs d) (run_calls (call_map k) cs m)"
  by (rule run_calls_agree [OF call_represents])

end

interpretation dirt: name_table dir_inv "\<lambda>d. length (dir_table d)" dir_map
  Directory_dirlookup Directory_AddInCurrentDir Directory_RemoveInCurrentDir
proof (unfold_locales, goal_cases)
  case (1 d n)
  then show ?case by (rule dirlookup_ok)
next
  case (2 d n s)
  then show ?case using AddInCurrentDir_ok [of d n s] by (simp add: dir_count_card)
next
  case (3 d n)
  then show ?case by (rule RemoveInCurrentDir_ok)
qed

section \<open>Path resolution\<close>

text \<open>The non-empty pieces between slashes, and the walk over them.\<close>

fun split_slash :: "byte list \<Rightarrow> byte list list" where
  "split_slash [] = [[]]"
| "split_slash (c # cs) =
     (if c = slash then [] # split_slash cs else (c # hd (split_slash cs)) # tl (split_slash cs))"

definition components :: "byte list \<Rightarrow> byte list list" where
  "components path = filter (\<lambda>s. s \<noteq> []) (split_slash path)"

definition open_subdir :: "Directory \<Rightarrow> store \<Rightarrow> int \<Rightarrow> Directory option res" where
  "open_subdir junk st sector =
     bindE (FileHeader_FetchFrom st sector) (\<lambda>hdr.
     if fh_type hdr \<noteq> TYPE_DIR then Inr None
     else bindE (OpenFile_new st sector) (\<lambda>f.
          bindE (Directory_FetchFrom (Directory_default junk) f st) (\<lambda>d. Inr (Some d))))"

fun dir_walk :: "Directory \<Rightarrow> store \<Rightarrow> Directory \<Rightarrow> byte list list \<Rightarrow> bool \<Rightarrow> (int \<times> byte list) res" where
  "dir_walk junk st d [] nameparent = Inl Bad_Access"
| "dir_walk junk st d (n # ns) nameparent =
     (let name = take FileNameMaxLen n in
      if ns = [] then
        (if nameparent then Inr (dir_sector d, name)
         else bindE (Directory_dirlookup d name) (\<lambda>s. Inr (s, name)))
      else bindE (Directory_dirlookup d name) (\<lambda>nxt.
           if nxt = - 1 then Inr (- 1, name)
           else bindE (open_subdir junk st nxt) (\<lambda>sub.
                case sub of None \<Rightarrow> Inr (- 1, name) | Some d' \<Rightarrow> dir_walk junk st d' ns nameparent)))"

lemma split_slash_nonempty [simp]: "split_slash p \<noteq> []"
  by (cases p) auto

lemma components_slash [simp]: "components (slash # cs) = components cs"
  by (simp add: components_def)

lemma components_dropWhile: "components (dropWhile (\<lambda>c. c = slash) p) = components p"
  by (induction p) simp_all

lemma split_slash_elem:
  "slash \<notin> set e \<Longrightarrow> split_slash (e @ slash # r) = e # split_slash r"
  "slash \<notin> set e \<Longrightarrow> split_slash e = [e]"
  by (induction e) auto

lemma components_Nil: "components [] = []"
  by (simp add: components_def)

lemma skipelem_components:
  "case Directory_skipelem path of
     None \<Rightarrow> components path = []
   | Some (name, rest) \<Rightarrow> \<exists>n ns. components path = n # ns \<and> name = take FileNameMaxLen n
       \<and> components rest = ns \<and> (rest = [] \<longleftrightarrow> ns = [])"
proof (cases "dropWhile (\<lambda>c. c = slash) path = []")
  case True
  have "components path = components (dropWhile (\<lambda>c. c = slash) path)" by (rule components_dropWhile [symmetric])
  also have "\<dots> = []" unfolding True by (rule components_Nil)
  finally have "components path = []" .
  with True show ?thesis by (simp add: Directory_skipelem_def Let_def)
next
  case False
  let ?s = "dropWhile (\<lambda>c. c = slash) path"
  define e where "e = takeWhile (\<lambda>c. c \<noteq> slash) ?s"
  define r where "r = dropWhile (\<lambda>c. c \<noteq> slash) ?s"
  have er: "?s = e @ r" by (simp add: e_def r_def)
  have e: "slash \<notin> set e" by (auto simp: e_def dest: set_takeWhileD)
  have "hd ?s \<noteq> slash" using hd_dropWhile [OF False] by simp
  then have ne: "e \<noteq> []" using False by (cases ?s) (auto simp: e_def)
  have skip: "Directory_skipelem path = Some (take FileNameMaxLen e, dropWhile (\<lambda>c. c = slash) r)"
    using False by (simp add: Directory_skipelem_def Let_def e_def r_def)
  have comp: "components path = e # components r"
  proof (cases r)
    case Nil
    then have "?s = e" using er by simp
    then show ?thesis using components_dropWhile [of path] split_slash_elem(2) [OF e] ne Nil
      by (simp add: components_def)
  next
    case (Cons c r')
    then have "c = slash" using hd_dropWhile [of "\<lambda>c. c \<noteq> slash" ?s] by (simp add: r_def)
    then have "?s = e @ slash # r'" using er Cons by simp
    then show ?thesis using components_dropWhile [of path] split_slash_elem(1) [OF e, of r'] ne Cons \<open>c = slash\<close>
      by (simp add: components_def)
  qed
  have "components (dropWhile (\<lambda>c. c = slash) r) = components r" by (rule components_dropWhile)
  moreover have "dropWhile (\<lambda>c. c = slash) r = [] \<longleftrightarrow> components r = []"
  proof
    assume "components r = []"
    show "dropWhile (\<lambda>c. c = slash) r = []"
    proof (rule ccontr)
      assume n: "dropWhile (\<lambda>c. c = slash) r \<noteq> []"
      then obtain c cs where c: "dropWhile (\<lambda>c. c = slash) r = c # cs" by (cases "dropWhile (\<lambda>c. c = slash) r") auto
      have "c \<noteq> slash" using hd_dropWhile [OF n] c by simp
      then have "components (c # cs) \<noteq> []" by (simp add: components_def)
      then show False using \<open>components r = []\<close> components_dropWhile [of r] c by simp
    qed
  next
    assume "dropWhile (\<lambda>c. c = slash) r = []"
    then show "components r = []" using components_dropWhile [of r] by (simp only: components_Nil)
  qed
  ultimately show ?thesis using skip comp by auto
qed

lemma namex_is_walk: "Directory_namex junk st d path nameparent = dir_walk junk st d (components path) nameparent"
proof (induction junk st d path nameparent rule: Directory_namex.induct)
  case (1 junk st d path nameparent)
  show ?case
  proof (cases "Directory_skipelem path")
    case None
    then show ?thesis using skipelem_components [of path] by (simp add: Directory_namex.simps [of junk st d path])
  next
    case (Some nr)
    obtain name rest where nr: "nr = (name, rest)" by (cases nr)
    obtain n ns where c: "components path = n # ns" "name = take FileNameMaxLen n" "components rest = ns"
      "rest = [] \<longleftrightarrow> ns = []" using skipelem_components [of path] Some nr by auto
    have IH: "Directory_namex junk st d' rest nameparent = dir_walk junk st d' ns nameparent" if "rest \<noteq> []"
      "Directory_dirlookup d name = Inr nxt" "nxt \<noteq> - 1" "FileHeader_FetchFrom st nxt = Inr h" "fh_type h = TYPE_DIR"
      for d' nxt h using 1 [OF Some, of name rest] nr that c(3) by simp
    show ?thesis
    proof (cases "rest = []")
      case True
      then show ?thesis using c Some nr by (simp add: Directory_namex.simps [of junk st d path] Let_def)
    next
      case False
      have "Directory_namex junk st d path nameparent = bindE (Directory_dirlookup d name) (\<lambda>nxt.
          if nxt = - 1 then Inr (- 1, name)
          else bindE (open_subdir junk st nxt) (\<lambda>sub. case sub of None \<Rightarrow> Inr (- 1, name)
            | Some d' \<Rightarrow> dir_walk junk st d' ns nameparent))"
        using Some nr False IH
        by (auto simp: Directory_namex.simps [of junk st d path] open_subdir_def bindE_def split: sum.splits)
      also have "\<dots> = dir_walk junk st d (components path) nameparent"
        unfolding c(1,2) using c(4) False by (simp add: Let_def)
      finally show ?thesis .
    qed
  qed
qed

section \<open>Directories on disk\<close>

definition entry_wf :: "DirectoryEntry \<Rightarrow> bool" where
  "entry_wf e \<longleftrightarrow> length (de_name e) = 10 \<and> int_ok (de_sector e)"

lemma length_entry_bytes: "length (de_name e) = 10 \<Longrightarrow> length (entry_bytes e) = 20"
  by (simp add: entry_bytes_def)

lemma length_table_bytes: "\<forall>e \<in> set es. length (de_name e) = 10 \<Longrightarrow> length (table_bytes es) = 20 * length es"
  by (induction es) (simp_all add: table_bytes_def length_entry_bytes)

lemma entry_roundtrip: "entry_wf e \<Longrightarrow> entry_of_bytes (entry_bytes e) = e"
  by (cases e) (simp add: entry_wf_def entry_of_bytes_def entry_bytes_def cbyte_def)

lemma table_roundtrip:
  "\<forall>e \<in> set es. entry_wf e \<Longrightarrow> table_of_bytes (length es) (table_bytes es) = es"
proof (induction es)
  case (Cons e es)
  have "table_bytes (e # es) = entry_bytes e @ table_bytes es" by (simp add: table_bytes_def)
  moreover have "length (entry_bytes e) = 20" using Cons.prems by (simp add: length_entry_bytes entry_wf_def)
  ultimately show ?case using Cons by (simp add: entry_roundtrip)
qed simp

definition dir_image :: "Directory \<Rightarrow> byte list" where
  "dir_image d = bytes_of_int (dir_sector d) @ table_bytes (dir_table d)"

definition dir_wf :: "Directory \<Rightarrow> bool" where
  "dir_wf d \<longleftrightarrow> dir_inv d \<and> length (dir_table d) = 10 \<and> int_ok (dir_sector d) \<and> (\<forall>e \<in> set (dir_table d). entry_wf e)"

definition dir_on_disk :: "FileHeader \<Rightarrow> FileHeader \<Rightarrow> bitmap \<Rightarrow> store \<Rightarrow> Directory \<Rightarrow> bool" where
  "dir_on_disk h hm fm st d \<longleftrightarrow> file_on_disk h hm fm st \<and> fh_wf h \<and> st (fh_selfSector h) = FileHeader_bytes h
     \<and> 204 \<le> fh_capacity h \<and> dir_wf d \<and> dir_sector d = fh_selfSector h
     \<and> of_contents \<lparr>of_hdr = h, of_seekPosition = 0\<rparr> st = dir_image d"

text \<open>Memory that a \<open>Directory\<close> object can be allocated in.\<close>

definition dir_memory :: "Directory \<Rightarrow> bool" where
  "dir_memory junk \<longleftrightarrow> 10 \<le> length (dir_table junk) \<and> (\<forall>e \<in> set (dir_table junk). length (de_name e) = 10)"

lemma dir_wf_image:
  assumes "dir_wf d"
  shows "dir_tableSize d = 10" "length (table_bytes (dir_table d)) = 200" "length (dir_image d) = 204"
    "int_of_bytes (bytes_of_int (dir_sector d)) = dir_sector d"
    "table_of_bytes 10 (table_bytes (dir_table d)) = dir_table d"
  using assms length_table_bytes [of "dir_table d"] table_roundtrip [of "dir_table d"]
  by (auto simp: dir_wf_def dir_inv_def dir_image_def entry_wf_def)

lemma dir_on_disk_file:
  assumes "dir_on_disk h hm fm st d"
  shows "OpenFile_new st (fh_selfSector h) = Inr \<lparr>of_hdr = h, of_seekPosition = 0\<rparr>"
    "FileHeader_FetchFrom st (fh_selfSector h) = Inr h"
    "map_ok fm" "fh_inv h fm st" "store_ok st" "fh_limit h = 204"
proof -
  have d: "file_ok h fm st" "fh_wf h" "st (fh_selfSector h) = FileHeader_bytes h" "dir_wf d"
    "of_contents \<lparr>of_hdr = h, of_seekPosition = 0\<rparr> st = dir_image d"
    using assms by (simp_all add: dir_on_disk_def file_on_disk_def)
  then show m: "map_ok fm" "fh_inv h fm st" "store_ok st" by (simp_all add: file_ok_def)
  have "fh_selfSector h \<in> bm_used fm" using d(1) by (simp add: file_ok_def)
  from used_range [OF m(1) this] show f: "FileHeader_FetchFrom st (fh_selfSector h) = Inr h"
    using d(2,3) by (simp add: FileHeader_FetchFrom_def FileHeader_roundtrip)
  then show "OpenFile_new st (fh_selfSector h) = Inr \<lparr>of_hdr = h, of_seekPosition = 0\<rparr>"
    by (simp add: OpenFile_new_def)
  show "fh_limit h = 204"
    using length_of_contents [of fm "\<lparr>of_hdr = h, of_seekPosition = 0\<rparr>" st] m d(4,5) dir_wf_image(3) by simp
qed

lemma fetch_dir:
  assumes "dir_on_disk h hm fm st d" "dir_memory junk"
  shows "Directory_FetchFrom (Directory_default junk) \<lparr>of_hdr = h, of_seekPosition = 0\<rparr> st = Inr d"
proof -
  let ?f = "\<lparr>of_hdr = h, of_seekPosition = 0\<rparr>" and ?d0 = "Directory_default junk"
  note df = dir_on_disk_file [OF assms(1)]
  have wf: "dir_wf d" and cont: "of_contents ?f st = dir_image d" using assms(1) by (simp_all add: dir_on_disk_def)
  note im = dir_wf_image [OF wf]
  have d0: "dir_tableSize ?d0 = 10" "length (dir_table ?d0) = 10"
    "\<forall>e \<in> set (dir_table ?d0). length (de_name e) = 10"
    using assms(2) by (auto simp: dir_memory_def Directory_default_def Directory_sized_def Directory_new_def
        dest: in_set_takeD)
  have t0: "length (table_bytes (dir_table ?d0)) = 200" using length_table_bytes [OF d0(3)] d0(2) by simp
  have r1: "OpenFile_ReadAt ?f st 4 0 = Inr (4, bytes_of_int (dir_sector d))"
    using ReadAt_ok [of fm ?f st 4 0] df(3-5) cont by (simp add: Let_def dir_image_def)
  have r2: "OpenFile_ReadAt ?f st 200 4 = Inr (200, table_bytes (dir_table d))"
    using ReadAt_ok [of fm ?f st 200 4] df(3-5) cont im(2) by (simp add: Let_def dir_image_def)
  have "overwrite 0 (bytes_of_int (dir_sector d)) (bytes_of_int (dir_sector ?d0)) = bytes_of_int (dir_sector d)"
    "overwrite 0 (table_bytes (dir_table d)) (table_bytes (dir_table ?d0)) = table_bytes (dir_table d)"
    using im(2) t0 by (simp_all add: overwrite_def)
  moreover have "?d0\<lparr>dir_sector := dir_sector d, dir_table := dir_table d\<rparr> = d"
    using im(1) d0(1) by (cases d; cases ?d0) simp
  ultimately show ?thesis using r1 r2 im(4,5) d0 by (simp add: Directory_FetchFrom_def Let_def)
qed

lemma write_dir:
  assumes "dir_on_disk h hm fm st d" "dir_wf d'" "dir_sector d' = dir_sector d"
  shows "\<exists>f' st'. Directory_WriteBack (Suc dep) bytes d' \<lparr>of_hdr = h, of_seekPosition = 0\<rparr> st = Inr (f', st')
    \<and> dir_on_disk (of_hdr f') hm fm st' d'"
proof -
  let ?f = "\<lparr>of_hdr = h, of_seekPosition = 0\<rparr>"
  let ?f1 = "?f\<lparr>of_hdr := h\<lparr>fh_limit := 4\<rparr>\<rparr>" and ?f2 = "?f\<lparr>of_hdr := h\<lparr>fh_limit := 204\<rparr>\<rparr>"
  have fd: "file_on_disk h hm fm st" "fh_wf h" "204 \<le> fh_capacity h" "dir_sector d = fh_selfSector h"
    using assms(1) by (simp_all add: dir_on_disk_def)
  note im = dir_wf_image [OF assms(2)]
  obtain st1 where w1: "OpenFile_WriteAt (Suc dep) bytes ?f st (bytes_of_int (dir_sector d')) 4 0 = Inr (4, ?f1, st1)"
    "write_spec ?f hm fm st (bytes_of_int (dir_sector d')) 0 ?f1 fm st1"
    using WriteAt_inside [of ?f hm fm st 4 0 "bytes_of_int (dir_sector d')" dep bytes] fd
      dir_on_disk_file(6) [OF assms(1)] by auto
  have fd1: "file_on_disk (h\<lparr>fh_limit := 4\<rparr>) hm fm st1"
    and c1: "of_contents ?f1 st1 = bytes_of_int (dir_sector d')" using w1(2) by (simp_all add: write_spec_def)
  obtain st2 where w2: "OpenFile_WriteAt (Suc dep) bytes ?f1 st1 (table_bytes (dir_table d')) 200 4 = Inr (200, ?f2, st2)"
    "write_spec ?f1 hm fm st1 (table_bytes (dir_table d')) 4 ?f2 fm st2"
    using WriteAt_inside [of ?f1 hm fm st1 200 4 "table_bytes (dir_table d')" dep bytes] fd1 fd(3) im(2) by auto
  have "of_contents ?f2 st2 = dir_image d'" using w2(2) c1 by (simp add: write_spec_def dir_image_def)
  moreover have "fh_wf (h\<lparr>fh_limit := 204\<rparr>)"
    using fd(2) by (simp add: fh_wf_def fh_ints_def int_ok_def)
  moreover have "Directory_WriteBack (Suc dep) bytes d' ?f st = Inr (?f2, st2)"
    using w1(1) w2(1) im(1) by (simp add: Directory_WriteBack_def)
  ultimately show ?thesis
    using w2(2) assms(2,3) fd(3,4) by (intro exI [of _ ?f2] exI [of _ st2]) (simp add: dir_on_disk_def write_spec_def)
qed

lemma table_update_wf:
  assumes "dir_wf d" "entry_wf e" "dir_inv (d\<lparr>dir_table := (dir_table d)[j := e]\<rparr>)"
  shows "dir_wf (d\<lparr>dir_table := (dir_table d)[j := e]\<rparr>)"
  using assms set_update_subset_insert [of "dir_table d" j e] by (auto simp: dir_wf_def)

lemma add_wf:
  assumes "dir_wf d" "int_ok s" "Directory_AddInCurrentDir d name s = Inr (r, d')"
  shows "dir_wf d' \<and> dir_sector d' = dir_sector d"
proof -
  have inv: "dir_inv d" "dir_inv d'"
    using assms(1,3) AddInCurrentDir_ok [of d name s] by (auto simp: dir_wf_def)
  have sz: "dir_tableSize d = int (length (dir_table d))" using inv(1) by (simp add: dir_inv_def)
  from inv(1) show ?thesis
  proof (cases rule: FindIndex_cases [where name = name])
    case (1 j)
    then show ?thesis using assms by (simp add: Directory_AddInCurrentDir_def)
  next
    case 2
    have eq: "Directory_AddInCurrentDir_from d name s 0 = Inr (r, d')"
      using 2 assms(3) by (simp add: Directory_AddInCurrentDir_def)
    from Add_from_ok [OF sz, of 0 name s] sz eq consider
      (free) j where "j < length (dir_table d)" "d' = d\<lparr>dir_table := (dir_table d)[j :=
          \<lparr>de_inUse = True, de_sector = s, de_name = strncpy (de_name (dir_table d ! j)) name 9\<rparr>]\<rparr>"
      | (full) "d' = d" by auto
    then show ?thesis
    proof cases
      case free
      have "length (de_name (dir_table d ! j)) = 10" using inv(1) free(1) by (simp add: dir_inv_def)
      then show ?thesis
        using table_update_wf [OF assms(1)] free(2) inv(2) assms(2) cstr_strncpy(2) [of 9 "de_name (dir_table d ! j)" name]
        by (simp add: entry_wf_def)
    qed (use assms(1) in simp)
  qed
qed

lemma remove_wf:
  assumes "dir_wf d" "Directory_RemoveInCurrentDir d name = Inr (r, d')"
  shows "dir_wf d' \<and> dir_sector d' = dir_sector d"
proof -
  have inv: "dir_inv d" "dir_inv d'"
    using assms RemoveInCurrentDir_ok [of d name] by (auto simp: dir_wf_def)
  from inv(1) show ?thesis
  proof (cases rule: FindIndex_cases [where name = name])
    case (1 j)
    have d': "d' = d\<lparr>dir_table := (dir_table d)[j := (dir_table d ! j)\<lparr>de_inUse := False\<rparr>]\<rparr>"
      using 1 assms(2) by (simp add: Directory_RemoveInCurrentDir_def)
    have "entry_wf ((dir_table d ! j)\<lparr>de_inUse := False\<rparr>)"
      using assms(1) 1(1) nth_mem [OF 1(1)] by (auto simp: dir_wf_def entry_wf_def)
    then show ?thesis using table_update_wf [OF assms(1)] d' inv(2) by simp
  next
    case 2
    then show ?thesis using assms by (simp add: Directory_RemoveInCurrentDir_def)
  qed
qed

lemma parent_in_root:
  assumes "dir_on_disk h hm fm st d" "components path = [n]"
  shows "Directory_namex junk st d path True = Inr (fh_selfSector h, take 9 n)"
    "Directory_Find junk st d path = Inr (case dir_map d (name_key n) of None \<Rightarrow> - 1 | Some s \<Rightarrow> s)"
  using assms dirlookup_ok [of d "take 9 n"]
  by (simp_all add: Directory_Find_def namex_is_walk dir_on_disk_def FileNameMaxLen_def dir_wf_def Let_def)

lemma self_positive:
  assumes "dir_on_disk h hm fm st d"
  shows "fh_selfSector h \<noteq> - 1"
  using assms used_range [of fm "fh_selfSector h"] by (auto simp: dir_on_disk_def file_on_disk_def file_ok_def)

section \<open>Properties\<close>

text \<open>
  C30. A directory is a finite map of bounded size: any sequence of lookups, additions and removals
  in memory gives the replies of a map from names (cut to nine characters) to sectors that refuses
  a name it already has and refuses to grow beyond the size of the table.
\<close>

theorem directory_refines_map:
  assumes "dir_inv d"
  shows "agree (\<lambda>d' m. dir_inv d' \<and> dir_map d' = m \<and> length (dir_table d') = length (dir_table d))
    (run_calls dirt.call_table cs d) (run_calls (call_map (length (dir_table d))) cs (dir_map d))"
  using dirt.calls_represent [of "length (dir_table d)" d "dir_map d" cs] assms
  by (auto simp: dirt.represents_def agree_def split: sum.splits prod.splits)

text \<open>
  C31. \<open>namex\<close> terminates on every path and resolves it from left to right over the non-empty
  pieces between slashes, whatever the number of slashes between them; a path without any piece
  (the empty path or only slashes) makes it read through the null pointer that \<open>skipelem\<close> returns.
\<close>

theorem namex_walks:
  "Directory_namex junk st d path nameparent = dir_walk junk st d (components path) nameparent"
  by (rule namex_is_walk)

text \<open>
  C32. \<open>Add\<close> on a directory on disk, for a path of one element: it succeeds exactly when the name
  is new and the table has room; afterwards the directory on disk is the old one with the name
  added (or the same one), so a new \<open>Find\<close> of the path returns the new sector.
\<close>

theorem add_persists:
  assumes "dir_on_disk h hm fm st d" "dir_memory junk" "components path = [n]" "int_ok s" "0 < depth"
  shows "\<exists>r st' h' d'. Directory_Add depth bytes junk st d path s = Inr (r, st') \<and> dir_on_disk h' hm fm st' d'
    \<and> r = (dir_map d (name_key n) = None \<and> dir_count d < 10)
    \<and> dir_map d' = (if r then (dir_map d)(name_key n \<mapsto> s) else dir_map d)
    \<and> Directory_Find junk st' d' path = (if r then Inr s else Directory_Find junk st d path)"
proof -
  have wf: "dir_wf d" using assms(1) by (simp add: dir_on_disk_def)
  then have inv: "dir_inv d" "length (dir_table d) = 10" by (simp_all add: dir_wf_def)
  obtain r d' where add: "Directory_AddInCurrentDir d (take 9 n) s = Inr (r, d')"
    "r = (dir_map d (name_key n) = None \<and> dir_count d < 10)"
    "dir_map d' = (if r then (dir_map d)(name_key n \<mapsto> s) else dir_map d)"
    using AddInCurrentDir_ok [OF inv(1), of "take 9 n" s] unfolding cstr_take inv(2) by blast
  note wf' = add_wf [OF wf assms(4) add(1)]
  obtain dep where dep: "depth = Suc dep" using assms(5) by (cases depth) auto
  have eq: "Directory_Add depth bytes junk st d path s = (if r
      then bindE (Directory_WriteBack depth bytes d' \<lparr>of_hdr = h, of_seekPosition = 0\<rparr> st) (\<lambda>(_, st1). Inr (True, st1))
      else Inr (False, st))"
    using parent_in_root(1) [OF assms(1,3)] self_positive [OF assms(1)] dir_on_disk_file(1) [OF assms(1)]
      fetch_dir [OF assms(1,2)] add(1) by (simp add: Directory_Add_def)
  show ?thesis
  proof (cases r)
    case True
    obtain f' st' where w: "Directory_WriteBack depth bytes d' \<lparr>of_hdr = h, of_seekPosition = 0\<rparr> st = Inr (f', st')"
      "dir_on_disk (of_hdr f') hm fm st' d'"
      using write_dir [OF assms(1)] wf' dep by blast
    then have "Directory_Find junk st' d' path = Inr s"
      using parent_in_root(2) [OF w(2) assms(3)] add(3) True by simp
    with w True eq add(2,3) show ?thesis by (intro exI [of _ True]) auto
  next
    case False
    then show ?thesis using eq assms(1) add(2) by (intro exI [of _ False]) auto
  qed
qed

section \<open>Instances\<close>

definition low_map :: "nat \<Rightarrow> bitmap" where
  "low_map k = \<lparr>bm_numBits = 1024, bm_numWords = 32, bm_map = mask k # replicate 31 0\<rparr>"

lemma low_map_used: "k \<le> 32 \<Longrightarrow> bm_used (low_map k) = {0..<int k}"
proof -
  assume k: "k \<le> 32"
  have "bm_bit (low_map k) i \<longleftrightarrow> i < int k" if "0 \<le> i" "i < 1024" for i
  proof (cases "i < 32")
    case True
    then show ?thesis using that k by (auto simp: bm_bit_def low_map_def bit_mask_iff)
  next
    case False
    then have "0 < nat (i div 32)" by (simp add: pos_imp_zdiv_pos_iff)
    moreover have "nat (i div 32) \<le> 31" using that by simp
    ultimately show ?thesis using False k by (simp add: bm_bit_def low_map_def nth_Cons')
  qed
  then show ?thesis using k by (auto simp: bm_used_def low_map_def)
qed

lemma low_map_ok: "0 < k \<Longrightarrow> k \<le> 32 \<Longrightarrow> map_ok (low_map k)"
  unfolding map_ok_def using low_map_used [of k] by (simp add: bm_inv_def low_map_def divRoundUp_def)

definition root_dir :: Directory where
  "root_dir = \<lparr>dir_tableSize = 10, dir_table = replicate 10 \<lparr>de_inUse = False, de_sector = 0, de_name = replicate 10 0\<rparr>,
     dir_sector = 2\<rparr>"

definition root_hdr :: FileHeader where
  "root_hdr = \<lparr>fh_limit = 204, fh_capacity = 256, fh_nsectors = 2, fh_selfSector = 2, fh_type = 1,
     fh_createTime = 0, fh_modifyTime = 0, fh_dataSectors = 3 # 4 # replicate 23 0\<rparr>"

definition root_store :: store where
  "root_store = (\<lambda>s. replicate 128 0)(0 := FileHeader_bytes disk_map_hdr, 1 := map_bytes (bm_map (low_map 5)),
     2 := FileHeader_bytes root_hdr, 3 := take 128 (dir_image root_dir),
     4 := drop 128 (dir_image root_dir) @ replicate 52 0)"

lemma root_dir_wf: "dir_wf root_dir"
  by (simp add: dir_wf_def dir_inv_def root_dir_def entry_wf_def int_ok_def)

lemma root_hdrs: "fh_wf disk_map_hdr" "fh_wf root_hdr"
  by (simp_all add: fh_wf_def fh_ints_def disk_map_hdr_def root_hdr_def int_ok_def)

lemma root_store_ok: "store_ok root_store"
  using FileHeader_bytes_length [OF root_hdrs(1)] FileHeader_bytes_length [OF root_hdrs(2)]
    dir_wf_image(3) [OF root_dir_wf]
  by (simp add: store_ok_def root_store_def low_map_def)

lemma root_map: "map_on_disk disk_map_hdr (low_map 5) root_store"
proof -
  have bl: "fh_blocks disk_map_hdr root_store = [1]" by (simp add: fh_blocks_def disk_map_hdr_def)
  have "fh_inv disk_map_hdr (low_map 5) root_store"
    unfolding fh_inv_def fh_owned_def bl low_map_used [of 5, simplified] by (simp add: fh_shape_def disk_map_hdr_def)
  then show ?thesis using root_hdrs(1) root_store_ok low_map_ok [of 5]
    by (simp add: map_on_disk_def) (simp add: disk_map_hdr_def root_store_def)
qed

lemma root_on_disk: "dir_on_disk root_hdr disk_map_hdr (low_map 5) root_store root_dir"
proof -
  have bl: "fh_blocks root_hdr root_store = [3, 4]"
    by (simp add: fh_blocks_def root_hdr_def)
  have own: "fh_owned root_hdr root_store = {3, 4}" unfolding fh_owned_def bl by (simp add: root_hdr_def)
  have "fh_inv root_hdr (low_map 5) root_store"
    unfolding fh_inv_def own bl low_map_used [of 5, simplified] by (simp add: fh_shape_def root_hdr_def)
  then have "file_on_disk root_hdr disk_map_hdr (low_map 5) root_store"
    unfolding file_on_disk_def file_ok_def own map_header(2) [OF root_map] low_map_used [of 5, simplified]
    using root_map root_store_ok low_map_ok [of 5] by (simp add: root_hdr_def disk_map_hdr_def)
  moreover have "fh_data root_hdr root_store = dir_image root_dir @ replicate 52 0"
    unfolding fh_data_def bl by (simp add: root_store_def)
  then have "of_contents \<lparr>of_hdr = root_hdr, of_seekPosition = 0\<rparr> root_store = dir_image root_dir"
    using dir_wf_image(3) [OF root_dir_wf] by (simp add: of_contents_def root_hdr_def)
  ultimately show ?thesis
    using root_hdrs(2) root_dir_wf by (simp add: dir_on_disk_def) (simp add: root_hdr_def root_dir_def root_store_def)
qed

theorem directory_refines_map_witness:
  "agree (\<lambda>d' m. dir_inv d' \<and> dir_map d' = m \<and> length (dir_table d') = 10)
    (run_calls dirt.call_table [Call_Add [97] 5, Call_Lookup [97], Call_Remove [97]] root_dir)
    (run_calls (call_map 10) [Call_Add [97] 5, Call_Lookup [97], Call_Remove [97]] (dir_map root_dir))"
proof -
  have inv: "dir_inv root_dir" "length (dir_table root_dir) = 10" using root_dir_wf by (simp_all add: dir_wf_def)
  from directory_refines_map [OF inv(1)] show ?thesis unfolding inv(2) by blast
qed

theorem add_persists_witness:
  "\<exists>st' d'. Directory_Add 1 (\<lambda>_ _. 0) root_dir root_store root_dir [47, 97] 7 = Inr (True, st')
     \<and> Directory_Find root_dir st' d' [47, 97] = Inr 7"
proof -
  have "components [47, 97] = [[97]]" by (simp add: components_def slash_def)
  moreover have "dir_memory root_dir" by (simp add: dir_memory_def root_dir_def)
  moreover have "dir_map root_dir [97] = None" "dir_count root_dir = 0"
    by (simp_all add: dir_map_None dir_count_def root_dir_def)
  ultimately show ?thesis
    using add_persists [OF root_on_disk, of root_dir "[47, 97]" "[97]" 7 1 "\<lambda>_ _. 0"]
    by (auto simp: int_ok_def cstr_def)
qed

end
