(* ===== verification/Unix_Files.thy ===== *)
theory Unix_Files
  imports Nachos_Prelude
begin

text \<open>
  The file part of lib/sysdep.h and lib/sysdep.cc, and the stub file system of
  filesys/openfile.h and filesys/filesys.h that the default build uses (\<open>FILESYS_STUB\<close>):
  Nachos files are UNIX files.

  The host is modelled by the part the wrappers use: names of inodes, inode contents, and a table
  of descriptors with their offsets; \<open>open\<close> hands out the next unused descriptor. A failing host
  call returns -1, which the wrappers turn into a failed assertion where the source does.
\<close>

section \<open>The host\<close>

record unix =
  ux_names :: "byte list \<rightharpoonup> nat"
  ux_inodes :: "nat \<Rightarrow> byte list"
  ux_fds :: "int \<rightharpoonup> nat \<times> int"
  ux_nextInode :: nat
  ux_nextFd :: int

text \<open>\<open>open\<close> with and without \<open>O_CREAT|O_TRUNC\<close>.\<close>

definition ux_open :: "unix \<Rightarrow> byte list \<Rightarrow> bool \<Rightarrow> int \<times> unix" where
  "ux_open u name create =
     (case ux_names u name of
        Some i \<Rightarrow> (ux_nextFd u, u\<lparr>ux_fds := (ux_fds u)(ux_nextFd u \<mapsto> (i, 0)), ux_nextFd := ux_nextFd u + 1,
                     ux_inodes := (if create then (ux_inodes u)(i := []) else ux_inodes u)\<rparr>)
      | None \<Rightarrow>
          if create
          then (ux_nextFd u, u\<lparr>ux_names := (ux_names u)(name \<mapsto> ux_nextInode u),
                     ux_inodes := (ux_inodes u)(ux_nextInode u := []), ux_nextInode := ux_nextInode u + 1,
                     ux_fds := (ux_fds u)(ux_nextFd u \<mapsto> (ux_nextInode u, 0)), ux_nextFd := ux_nextFd u + 1\<rparr>)
          else (- 1, u))"

definition ux_lseek :: "unix \<Rightarrow> int \<Rightarrow> int \<Rightarrow> int \<Rightarrow> int \<times> unix" where
  "ux_lseek u fd offset whence =
     (case ux_fds u fd of
        None \<Rightarrow> (- 1, u)
      | Some (i, pos) \<Rightarrow>
          let new = offset + (if whence = 0 then 0 else if whence = 1 then pos else int (length (ux_inodes u i))) in
          if new < 0 then (- 1, u) else (new, u\<lparr>ux_fds := (ux_fds u)(fd \<mapsto> (i, new))\<rparr>))"

definition ux_read :: "unix \<Rightarrow> int \<Rightarrow> int \<Rightarrow> int \<times> byte list \<times> unix" where
  "ux_read u fd n =
     (case ux_fds u fd of
        None \<Rightarrow> (- 1, [], u)
      | Some (i, pos) \<Rightarrow>
          let bs = take (nat n) (drop (nat pos) (ux_inodes u i)) in
          (int (length bs), bs, u\<lparr>ux_fds := (ux_fds u)(fd \<mapsto> (i, pos + int (length bs)))\<rparr>))"

text \<open>Writing behind the end of a file fills the gap with zero bytes.\<close>

definition ux_write :: "unix \<Rightarrow> int \<Rightarrow> byte list \<Rightarrow> int \<times> unix" where
  "ux_write u fd bs =
     (case ux_fds u fd of
        None \<Rightarrow> (- 1, u)
      | Some (i, pos) \<Rightarrow>
          let old = ux_inodes u i;
              padded = old @ replicate (nat pos + length bs - length old) 0 in
          (int (length bs), u\<lparr>ux_inodes := (ux_inodes u)(i := overwrite (nat pos) bs padded),
                     ux_fds := (ux_fds u)(fd \<mapsto> (i, pos + int (length bs)))\<rparr>))"

section \<open>lib/sysdep.cc\<close>

definition OpenForWrite :: "unix \<Rightarrow> byte list \<Rightarrow> (int \<times> unix) res" where
  "OpenForWrite u name = (let (fd, u1) = ux_open u name True in bindE (assertE (fd \<ge> 0)) (\<lambda>_. Inr (fd, u1)))"

definition OpenForReadWrite :: "unix \<Rightarrow> byte list \<Rightarrow> bool \<Rightarrow> (int \<times> unix) res" where
  "OpenForReadWrite u name crashOnError =
     (let (fd, u1) = ux_open u name False in
      bindE (assertE (\<not> crashOnError \<or> fd \<ge> 0)) (\<lambda>_. Inr (fd, u1)))"

definition Read_fd :: "unix \<Rightarrow> int \<Rightarrow> int \<Rightarrow> (byte list \<times> unix) res" where
  "Read_fd u fd nBytes =
     (let (retVal, bs, u1) = ux_read u fd nBytes in bindE (assertE (retVal = nBytes)) (\<lambda>_. Inr (bs, u1)))"

definition ReadPartial :: "unix \<Rightarrow> int \<Rightarrow> int \<Rightarrow> int \<times> byte list \<times> unix" where
  "ReadPartial u fd nBytes = ux_read u fd nBytes"

definition WriteFile :: "unix \<Rightarrow> int \<Rightarrow> byte list \<Rightarrow> int \<Rightarrow> unix res" where
  "WriteFile u fd buffer nBytes =
     (if int (length buffer) < nBytes then Inl Bad_Access
      else let (retVal, u1) = ux_write u fd (take (nat nBytes) buffer) in
        bindE (assertE (retVal = nBytes)) (\<lambda>_. Inr u1))"

definition Lseek :: "unix \<Rightarrow> int \<Rightarrow> int \<Rightarrow> int \<Rightarrow> unix res" where
  "Lseek u fd offset whence =
     (let (retVal, u1) = ux_lseek u fd offset whence in bindE (assertE (retVal \<ge> 0)) (\<lambda>_. Inr u1))"

definition Tell :: "unix \<Rightarrow> int \<Rightarrow> int" where
  "Tell u fd = fst (ux_lseek u fd 0 1)"

definition Close_fd :: "unix \<Rightarrow> int \<Rightarrow> unix res" where
  "Close_fd u fd = bindE (assertE (ux_fds u fd \<noteq> None)) (\<lambda>_. Inr (u\<lparr>ux_fds := (ux_fds u)(fd := None)\<rparr>))"

text \<open>\<open>Unlink\<close> returns the host's result as a \<open>bool\<close>: FALSE for success.\<close>

definition Unlink :: "unix \<Rightarrow> byte list \<Rightarrow> bool \<times> unix" where
  "Unlink u name = (ux_names u name = None, u\<lparr>ux_names := (ux_names u)(name := None)\<rparr>)"

section \<open>The stub classes\<close>

record StubFile =
  sf_file :: int
  sf_currentOffset :: int

definition Stub_new :: "int \<Rightarrow> StubFile" where
  "Stub_new f = \<lparr>sf_file = f, sf_currentOffset = 0\<rparr>"

definition Stub_ReadAt :: "StubFile \<Rightarrow> unix \<Rightarrow> int \<Rightarrow> int \<Rightarrow> (int \<times> byte list \<times> unix) res" where
  "Stub_ReadAt f u numBytes position =
     bindE (Lseek u (sf_file f) position 0) (\<lambda>u1. Inr (ReadPartial u1 (sf_file f) numBytes))"

definition Stub_WriteAt :: "StubFile \<Rightarrow> unix \<Rightarrow> byte list \<Rightarrow> int \<Rightarrow> int \<Rightarrow> (int \<times> unix) res" where
  "Stub_WriteAt f u from_buf numBytes position =
     bindE (Lseek u (sf_file f) position 0) (\<lambda>u1.
     bindE (WriteFile u1 (sf_file f) from_buf numBytes) (\<lambda>u2. Inr (numBytes, u2)))"

definition Stub_Read :: "StubFile \<Rightarrow> unix \<Rightarrow> int \<Rightarrow> (int \<times> byte list \<times> StubFile \<times> unix) res" where
  "Stub_Read f u numBytes =
     bindE (Stub_ReadAt f u numBytes (sf_currentOffset f)) (\<lambda>(numRead, bs, u1).
     Inr (numRead, bs, f\<lparr>sf_currentOffset := sf_currentOffset f + numRead\<rparr>, u1))"

definition Stub_Write :: "StubFile \<Rightarrow> unix \<Rightarrow> byte list \<Rightarrow> int \<Rightarrow> (int \<times> StubFile \<times> unix) res" where
  "Stub_Write f u from_buf numBytes =
     bindE (Stub_WriteAt f u from_buf numBytes (sf_currentOffset f)) (\<lambda>(numWritten, u1).
     Inr (numWritten, f\<lparr>sf_currentOffset := sf_currentOffset f + numWritten\<rparr>, u1))"

definition Stub_Length :: "StubFile \<Rightarrow> unix \<Rightarrow> (int \<times> unix) res" where
  "Stub_Length f u = bindE (Lseek u (sf_file f) 0 2) (\<lambda>u1. Inr (Tell u1 (sf_file f), u1))"

definition StubFS_Create :: "unix \<Rightarrow> byte list \<Rightarrow> (bool \<times> unix) res" where
  "StubFS_Create u name =
     bindE (OpenForWrite u name) (\<lambda>(fd, u1).
     if fd = - 1 then Inr (False, u1) else bindE (Close_fd u1 fd) (\<lambda>u2. Inr (True, u2)))"

definition StubFS_Open :: "unix \<Rightarrow> byte list \<Rightarrow> (StubFile option \<times> unix) res" where
  "StubFS_Open u name =
     bindE (OpenForReadWrite u name False) (\<lambda>(fd, u1).
     if fd = - 1 then Inr (None, u1) else Inr (Some (Stub_new fd), u1))"

definition StubFS_Remove :: "unix \<Rightarrow> byte list \<Rightarrow> bool \<times> unix" where
  "StubFS_Remove u name = (let (r, u1) = Unlink u name in (r = False, u1))"

section \<open>Reading and writing\<close>

text \<open>The contents behind a descriptor.\<close>

definition fd_contents :: "unix \<Rightarrow> int \<Rightarrow> byte list option" where
  "fd_contents u fd = map_option (\<lambda>(i, _). ux_inodes u i) (ux_fds u fd)"

lemma Stub_ReadAt_ok:
  assumes "fd_contents u (sf_file f) = Some c" "0 \<le> p"
  shows "\<exists>u'. Stub_ReadAt f u n p = Inr (int (length (take (nat n) (drop (nat p) c))), take (nat n) (drop (nat p) c), u')
    \<and> ux_inodes u' = ux_inodes u \<and> ux_names u' = ux_names u \<and> (\<forall>fd. map_option fst (ux_fds u' fd) = map_option fst (ux_fds u fd))"
  using assms
  by (auto simp: Stub_ReadAt_def fd_contents_def Lseek_def ux_lseek_def ReadPartial_def ux_read_def Let_def)

lemma Stub_ReadAt_contents:
  assumes "fd_contents u (sf_file f) = Some c" "0 \<le> p" "Stub_ReadAt f u n p = Inr (k, bs, u')"
  shows "fd_contents u' = fd_contents u" "bs = take (nat n) (drop (nat p) c)" "k = int (length bs)"
proof -
  note r = Stub_ReadAt_ok [OF assms(1,2), of n]
  then show "bs = take (nat n) (drop (nat p) c)" "k = int (length bs)" using assms(3) by auto
  have "ux_inodes u' = ux_inodes u" "map_option fst (ux_fds u' fd) = map_option fst (ux_fds u fd)" for fd
    using r assms(3) by auto
  moreover have "fd_contents v fd = map_option (ux_inodes v) (map_option fst (ux_fds v fd))" for v fd
    by (simp add: fd_contents_def option.map_comp comp_def case_prod_unfold)
  ultimately show "fd_contents u' = fd_contents u" by (intro ext) simp
qed

lemma Stub_WriteAt_ok:
  assumes "fd_contents u (sf_file f) = Some c" "0 \<le> p" "0 \<le> n" "n \<le> int (length d)"
  shows "\<exists>u'. Stub_WriteAt f u d n p = Inr (n, u') \<and> dom (ux_fds u') = dom (ux_fds u)
    \<and> fd_contents u' (sf_file f) = Some (overwrite (nat p) (take (nat n) d)
         (c @ replicate (nat p + nat n - length c) 0))"
  using assms
  by (auto simp: Stub_WriteAt_def fd_contents_def Lseek_def ux_lseek_def WriteFile_def ux_write_def Let_def min_absorb2)

section \<open>Properties\<close>

text \<open>
  The stub file system: a write at any non-negative position of an open file succeeds and a
  read at the same position returns the bytes written.
\<close>

theorem stub_write_read:
  assumes "fd_contents u (sf_file f) = Some c" "0 \<le> p" "0 \<le> n" "n \<le> int (length d)"
  shows "\<exists>u' u''. Stub_WriteAt f u d n p = Inr (n, u') \<and> Stub_ReadAt f u' n p = Inr (n, take (nat n) d, u'')"
proof -
  obtain u' where w: "Stub_WriteAt f u d n p = Inr (n, u')" "fd_contents u' (sf_file f) = Some (overwrite (nat p)
      (take (nat n) d) (c @ replicate (nat p + nat n - length c) 0))"
    using Stub_WriteAt_ok [OF assms] by blast
  have len: "length (take (nat n) d) = nat n" using assms(4) by simp
  then have fit: "nat p + length (take (nat n) d) \<le> length (c @ replicate (nat p + nat n - length c) 0)" by simp
  from take_drop_overwrite [OF fit] len
  have "take (nat n) (drop (nat p) (overwrite (nat p) (take (nat n) d) (c @ replicate (nat p + nat n - length c) 0)))
      = take (nat n) d" by simp
  with Stub_ReadAt_ok [OF w(2) assms(2), of n] w(1) len assms(3) show ?thesis by auto
qed

definition example_unix :: unix where
  "example_unix = \<lparr>ux_names = [[97] \<mapsto> 0], ux_inodes = (\<lambda>_. [5]), ux_fds = [3 \<mapsto> (0, 0)], ux_nextInode = 1, ux_nextFd = 4\<rparr>"

theorem stub_write_read_witness:
  "\<exists>u' u''. Stub_WriteAt (Stub_new 3) example_unix [7, 8] 2 1 = Inr (2, u')
     \<and> Stub_ReadAt (Stub_new 3) u' 2 1 = Inr (2, [7, 8], u'')"
  using stub_write_read [of example_unix "Stub_new 3" "[5]" 1 2 "[7, 8]"]
  by (simp add: fd_contents_def example_unix_def Stub_new_def)

end
