(* ===== verification/File_System.thy ===== *)
theory File_System
  imports Directory
begin

text \<open>
  filesys/filesys.h and filesys/filesys.cc, the file system proper (the part compiled without
  \<open>FILESYS_STUB\<close>): formatting and mounting a disk, creating, opening and removing files and
  directories by path, and the pipe file in sector 2.

  The state of a \<open>FileSystem\<close> is its two open files; the disk is the abstract store of
  Synch_Disk. \<open>fs_env\<close> holds what the operations take from their surroundings: the bound on the
  mutual recursion of \<open>WriteAt\<close> and the free map, the clock, and the uninitialised memory
  (buffers, \<open>Directory\<close> objects, \<open>modifyTime\<close>, the local \<open>success\<close> of \<open>Create\<close>).
\<close>

section \<open>The class\<close>

definition FreeMapSector :: int where "FreeMapSector = 0"
definition DirectorySector :: int where "DirectorySector = 1"
definition PipeSector :: int where "PipeSector = 2"
definition FreeMapFileSize :: int where "FreeMapFileSize = NumSectors div BitsInByte"
definition NumDirEntries :: int where "NumDirEntries = 10"
definition DirectoryFileSize :: int where "DirectoryFileSize = 20 * NumDirEntries"
definition PipeFileSize :: int where "PipeFileSize = 1024"

record FileSystem =
  fs_freeMapFile :: OpenFile
  fs_directoryFile :: OpenFile

record fs_env =
  env_depth :: nat
  env_bytes :: "nat \<Rightarrow> nat \<Rightarrow> byte"
  env_dir :: Directory
  env_now :: int
  env_modify :: int
  env_success :: bool

definition FileSystem_format :: "fs_env \<Rightarrow> store \<Rightarrow> (FileSystem \<times> store) res" where
  "FileSystem_format v st =
     bindE (PersistentBitmap_new NumSectors) (\<lambda>freeMap.
     let directory = Directory_new (env_dir v) DirectorySector NumDirEntries;
         mapHdr = FileHeader_new FreeMapSector TYPE_FILE (env_now v) (env_modify v);
         dirHdr = FileHeader_new DirectorySector TYPE_DIR (env_now v) (env_modify v);
         pipeHdr = FileHeader_new PipeSector TYPE_PIPE (env_now v) (env_modify v) in
     bindE (Bitmap_Mark freeMap FreeMapSector) (\<lambda>freeMap.
     bindE (Bitmap_Mark freeMap DirectorySector) (\<lambda>freeMap.
     bindE (Bitmap_Mark freeMap PipeSector) (\<lambda>freeMap.
     bindE (FileHeader_Allocate mapHdr freeMap st FreeMapFileSize) (\<lambda>(ok1, mapHdr, freeMap, st).
     bindE (assertE ok1) (\<lambda>_.
     bindE (FileHeader_Allocate dirHdr freeMap st DirectoryFileSize) (\<lambda>(ok2, dirHdr, freeMap, st).
     bindE (assertE ok2) (\<lambda>_.
     bindE (FileHeader_Allocate pipeHdr freeMap st PipeFileSize) (\<lambda>(ok3, pipeHdr, freeMap, st).
     bindE (assertE ok3) (\<lambda>_.
     bindE (FileHeader_WriteBack mapHdr st FreeMapSector) (\<lambda>st.
     bindE (FileHeader_WriteBack dirHdr st DirectorySector) (\<lambda>st.
     bindE (FileHeader_WriteBack pipeHdr st PipeSector) (\<lambda>st.
     bindE (OpenFile_new st FreeMapSector) (\<lambda>freeMapFile.
     bindE (OpenFile_new st DirectorySector) (\<lambda>directoryFile.
     bindE (PersistentBitmap_WriteBack (env_depth v) (env_bytes v) freeMap freeMapFile st) (\<lambda>(freeMapFile, st).
     bindE (Directory_WriteBack (env_depth v) (env_bytes v) directory directoryFile st) (\<lambda>(directoryFile, st).
     Inr (\<lparr>fs_freeMapFile = freeMapFile, fs_directoryFile = directoryFile\<rparr>, st))))))))))))))))))"

definition FileSystem_new :: "fs_env \<Rightarrow> bool \<Rightarrow> store \<Rightarrow> (FileSystem \<times> store) res" where
  "FileSystem_new v format st =
     (if format then FileSystem_format v st
      else
        bindE (OpenFile_new st FreeMapSector) (\<lambda>freeMapFile.
        bindE (OpenFile_new st DirectorySector) (\<lambda>directoryFile.
        Inr (\<lparr>fs_freeMapFile = freeMapFile, fs_directoryFile = directoryFile\<rparr>, st))))"

text \<open>The local \<open>Directory\<close> object that every operation reads from the root directory's file.\<close>

definition fetch_root :: "fs_env \<Rightarrow> FileSystem \<Rightarrow> store \<Rightarrow> Directory res" where
  "fetch_root v fs st = Directory_FetchFrom (Directory_sized (env_dir v) NumDirEntries) (fs_directoryFile fs) st"

text \<open>The type-specific part of \<open>Create\<close>.\<close>

definition create_body :: "fs_env \<Rightarrow> int \<Rightarrow> int \<Rightarrow> bitmap \<Rightarrow> store \<Rightarrow> (bool \<times> bitmap \<times> store) res" where
  "create_body v sector type freeMap st =
     (let hdr = FileHeader_new sector type (env_now v) (env_modify v) in
      if type = TYPE_DIR then
        bindE (FileHeader_Allocate hdr freeMap st DirectoryFileSize) (\<lambda>(success, hdr, freeMap, st).
        bindE (FileHeader_WriteBack hdr st sector) (\<lambda>st.
        bindE (OpenFile_new st sector) (\<lambda>newfile.
        bindE (Directory_WriteBack (env_depth v) (env_bytes v) (Directory_new (env_dir v) sector NumDirEntries) newfile st) (\<lambda>(_, st).
        Inr (success, freeMap, st)))))
      else if type = TYPE_FILE then
        bindE (FileHeader_WriteBack hdr st sector) (\<lambda>st. Inr (True, freeMap, st))
      else Inr (env_success v, freeMap, st))"

definition FileSystem_Create :: "fs_env \<Rightarrow> FileSystem \<Rightarrow> store \<Rightarrow> byte list \<Rightarrow> int \<Rightarrow> (bool \<times> FileSystem \<times> store) res" where
  "FileSystem_Create v fs st name type =
     bindE (fetch_root v fs st) (\<lambda>directory.
     bindE (Directory_Find (env_dir v) st directory name) (\<lambda>found.
     if found \<noteq> - 1 then Inr (False, fs, st)
     else
       bindE (PersistentBitmap_open (fs_freeMapFile fs) st NumSectors) (\<lambda>freeMap.
       bindE (Bitmap_FindAndSet freeMap) (\<lambda>(sector, freeMap).
       if sector = - 1 then Inr (False, fs, st)
       else
         bindE (Directory_Add (env_depth v) (env_bytes v) (env_dir v) st directory name sector) (\<lambda>(added, st).
         if \<not> added then Inr (False, fs, st)
         else
           bindE (create_body v sector type freeMap st) (\<lambda>(success, freeMap, st).
           bindE (PersistentBitmap_WriteBack (env_depth v) (env_bytes v) freeMap (fs_freeMapFile fs) st) (\<lambda>(freeMapFile, st).
           Inr (success, fs\<lparr>fs_freeMapFile := freeMapFile\<rparr>, st))))))))"

definition FileSystem_Open :: "fs_env \<Rightarrow> FileSystem \<Rightarrow> store \<Rightarrow> byte list \<Rightarrow> OpenFile option res" where
  "FileSystem_Open v fs st name =
     bindE (fetch_root v fs st) (\<lambda>directory.
     bindE (Directory_Find (env_dir v) st directory name) (\<lambda>sector.
     if sector \<ge> 0 then bindE (OpenFile_new st sector) (\<lambda>f. Inr (Some f)) else Inr None))"

definition FileSystem_Remove :: "fs_env \<Rightarrow> FileSystem \<Rightarrow> store \<Rightarrow> byte list \<Rightarrow> (bool \<times> FileSystem \<times> store) res" where
  "FileSystem_Remove v fs st name =
     bindE (fetch_root v fs st) (\<lambda>directory.
     bindE (Directory_Find (env_dir v) st directory name) (\<lambda>sector.
     if sector = - 1 then Inr (False, fs, st)
     else
       bindE (FileHeader_FetchFrom st sector) (\<lambda>fileHdr.
       bindE (PersistentBitmap_open (fs_freeMapFile fs) st NumSectors) (\<lambda>freeMap.
       bindE (FileHeader_Deallocate fileHdr freeMap st) (\<lambda>(_, freeMap).
       bindE (Bitmap_Clear freeMap sector) (\<lambda>freeMap.
       bindE (Directory_Remove (env_depth v) (env_bytes v) (env_dir v) st directory name) (\<lambda>(_, st).
       bindE (PersistentBitmap_WriteBack (env_depth v) (env_bytes v) freeMap (fs_freeMapFile fs) st) (\<lambda>(freeMapFile, st).
       Inr (True, fs\<lparr>fs_freeMapFile := freeMapFile\<rparr>, st)))))))))"

definition FileSystem_List :: "fs_env \<Rightarrow> FileSystem \<Rightarrow> store \<Rightarrow> byte list list res" where
  "FileSystem_List v fs st = bindE (fetch_root v fs st) (\<lambda>d. Inr (Directory_List d))"

definition FileSystem_ReadPipe :: "store \<Rightarrow> (int \<times> byte list) res" where
  "FileSystem_ReadPipe st =
     bindE (FileHeader_FetchFrom st PipeSector) (\<lambda>pipehdr.
     bindE (OpenFile_new st PipeSector) (\<lambda>pipefile.
     OpenFile_ReadAt pipefile st (FileHeader_FileLimit pipehdr) 0))"

definition FileSystem_WritePipe :: "fs_env \<Rightarrow> store \<Rightarrow> byte list \<Rightarrow> int \<Rightarrow> store res" where
  "FileSystem_WritePipe v st data sz =
     bindE (OpenFile_new st PipeSector) (\<lambda>pipefile.
     bindE (OpenFile_WriteAt (env_depth v) (env_bytes v) pipefile st data sz 0) (\<lambda>(_, _, st). Inr st))"

text \<open>The active part of \<open>selfTest\<close>: the line typed in goes through the pipe.\<close>

definition FileSystem_selfTest :: "fs_env \<Rightarrow> store \<Rightarrow> byte list \<Rightarrow> ((int \<times> byte list) \<times> store) res" where
  "FileSystem_selfTest v st str =
     (let s = takeWhile (\<lambda>c. c \<noteq> 0) str in
      bindE (FileSystem_WritePipe v st s (int (length s))) (\<lambda>st1.
      bindE (FileSystem_ReadPipe st1) (\<lambda>r. Inr (r, st1))))"

section \<open>Files, directories and the map by themselves\<close>

text \<open>
  The lemmas of Open_File and Directory speak of a file beside the map. Formatting builds the map
  and the root directory from nothing, so it needs the parts one by one.
\<close>

lemma WriteAt_file:
  assumes "file_ok (of_hdr f) fm st" "0 < n" "0 \<le> p" "p \<le> fh_limit (of_hdr f)"
    "p + n \<le> fh_capacity (of_hdr f)" "n \<le> int (length d)"
  defines "f' \<equiv> f\<lparr>of_hdr := (of_hdr f)\<lparr>fh_limit := p + n\<rparr>\<rparr>"
  shows "\<exists>st'. OpenFile_WriteAt (Suc dep) junk f st d n p = Inr (n, f', st') \<and> file_ok (of_hdr f') fm st'
    \<and> fh_owned (of_hdr f) st' = fh_owned (of_hdr f) st
    \<and> of_contents f' st' = take (nat p) (of_contents f st) @ take (nat n) d
    \<and> st' (fh_selfSector (of_hdr f)) = FileHeader_bytes (of_hdr f')
    \<and> (\<forall>s. s \<notin> fh_owned (of_hdr f) st \<union> {fh_selfSector (of_hdr f)} \<longrightarrow> st' s = st s)"
proof -
  let ?h = "of_hdr f"
  obtain st' where st': "write_data (junk dep) ?h st d n p = Inr (?h\<lparr>fh_limit := p + n\<rparr>, st')"
    "file_ok (?h\<lparr>fh_limit := p + n\<rparr>) fm st'" "fh_owned ?h st' = fh_owned ?h st"
    "take (nat (p + n)) (fh_data ?h st') = take (nat p) (fh_data ?h st) @ take (nat n) d"
    "st' (fh_selfSector ?h) = FileHeader_bytes (?h\<lparr>fh_limit := p + n\<rparr>)"
    "\<forall>s. s \<notin> set (fh_blocks ?h st) \<union> {fh_selfSector ?h} \<longrightarrow> st' s = st s"
    using write_data_ok [OF assms(1-3,5,6)] by blast
  have cont: "take (nat p) (of_contents f st) = take (nat p) (fh_data ?h st)"
    using assms(4) by (simp add: of_contents_def min_absorb1)
  have "OpenFile_WriteAt (Suc dep) junk f st d n p = Inr (n, f', st')"
    using st'(1) assms(2-5) unfolding f'_def
    by (simp add: OpenFile_WriteAt.simps(2) FileHeader_FileLimit_def FileHeader_FileCapacity_def)
  moreover have "\<forall>s. s \<notin> fh_owned ?h st \<union> {fh_selfSector ?h} \<longrightarrow> st' s = st s"
    using st'(6) by (auto simp: fh_owned_def)
  ultimately show ?thesis using st' cont by (intro exI [of _ st']) (simp add: f'_def of_contents_def)
qed

definition dir_file :: "FileHeader \<Rightarrow> bitmap \<Rightarrow> store \<Rightarrow> Directory \<Rightarrow> bool" where
  "dir_file h fm st d \<longleftrightarrow> file_ok h fm st \<and> fh_wf h \<and> st (fh_selfSector h) = FileHeader_bytes h
     \<and> 204 \<le> fh_capacity h \<and> dir_wf d \<and> dir_sector d = fh_selfSector h
     \<and> of_contents \<lparr>of_hdr = h, of_seekPosition = 0\<rparr> st = dir_image d"

lemma dir_on_disk_parts:
  "dir_on_disk h hm fm st d \<longleftrightarrow> dir_file h fm st d \<and> map_on_disk hm fm st
     \<and> insert (fh_selfSector h) (fh_owned h st) \<inter> insert 0 (fh_owned hm st) = {}"
  by (auto simp: dir_on_disk_def dir_file_def file_on_disk_def)

lemma write_dir_file:
  assumes "file_ok h fm st" "fh_wf h" "204 \<le> fh_capacity h" "dir_wf d" "dir_sector d = fh_selfSector h"
  shows "\<exists>st'. Directory_WriteBack (Suc dep) bytes d \<lparr>of_hdr = h, of_seekPosition = 0\<rparr> st
      = Inr (\<lparr>of_hdr = h\<lparr>fh_limit := 204\<rparr>, of_seekPosition = 0\<rparr>, st')
    \<and> dir_file (h\<lparr>fh_limit := 204\<rparr>) fm st' d \<and> fh_owned h st' = fh_owned h st
    \<and> (\<forall>s. s \<notin> fh_owned h st \<union> {fh_selfSector h} \<longrightarrow> st' s = st s)"
proof -
  let ?f = "\<lparr>of_hdr = h, of_seekPosition = 0\<rparr>"
  let ?f1 = "?f\<lparr>of_hdr := h\<lparr>fh_limit := 4\<rparr>\<rparr>" and ?f2 = "?f\<lparr>of_hdr := h\<lparr>fh_limit := 204\<rparr>\<rparr>"
  note im = dir_wf_image [OF assms(4)]
  have lim: "0 \<le> fh_limit h" using assms(1) by (simp add: file_ok_def fh_inv_def fh_shape_def)
  obtain st1 where w1: "OpenFile_WriteAt (Suc dep) bytes ?f st (bytes_of_int (dir_sector d)) 4 0 = Inr (4, ?f1, st1)"
    "file_ok (h\<lparr>fh_limit := 4\<rparr>) fm st1" "fh_owned h st1 = fh_owned h st" "of_contents ?f1 st1 = bytes_of_int (dir_sector d)"
    "\<forall>s. s \<notin> fh_owned h st \<union> {fh_selfSector h} \<longrightarrow> st1 s = st s"
    using WriteAt_file [of ?f fm st 4 0 "bytes_of_int (dir_sector d)" dep bytes] assms(1,3) lim by auto
  obtain st2 where w2: "OpenFile_WriteAt (Suc dep) bytes ?f1 st1 (table_bytes (dir_table d)) 200 4 = Inr (200, ?f2, st2)"
    "file_ok (h\<lparr>fh_limit := 204\<rparr>) fm st2" "fh_owned (h\<lparr>fh_limit := 4\<rparr>) st2 = fh_owned (h\<lparr>fh_limit := 4\<rparr>) st1"
    "of_contents ?f2 st2 = bytes_of_int (dir_sector d) @ table_bytes (dir_table d)"
    "st2 (fh_selfSector h) = FileHeader_bytes (h\<lparr>fh_limit := 204\<rparr>)"
    "\<forall>s. s \<notin> fh_owned (h\<lparr>fh_limit := 4\<rparr>) st1 \<union> {fh_selfSector h} \<longrightarrow> st2 s = st1 s"
    using WriteAt_file [of ?f1 fm st1 200 4 "table_bytes (dir_table d)" dep bytes] w1(2,4) assms(3) im(2) by auto
  have own: "fh_owned (h\<lparr>fh_limit := k\<rparr>) s = fh_owned h s" for k s
    by (simp add: fh_owned_def fh_blocks_def index_ints_def)
  have "fh_wf (h\<lparr>fh_limit := 204\<rparr>)" using assms(2) by (simp add: fh_wf_def fh_ints_def int_ok_def)
  then have "dir_file (h\<lparr>fh_limit := 204\<rparr>) fm st2 d"
    using w2(2,4,5) assms(3-5) by (simp add: dir_file_def dir_image_def)
  moreover have "Directory_WriteBack (Suc dep) bytes d ?f st = Inr (?f2, st2)"
    using w1(1) w2(1) im(1) by (simp add: Directory_WriteBack_def)
  ultimately show ?thesis using w1(3,5) w2(3,6) by (intro exI [of _ st2]) (simp add: own)
qed

lemma write_map_file:
  assumes "file_ok hm fm st" "fh_wf hm" "fh_nsectors hm = 1" "fh_selfSector hm = 0"
  shows "\<exists>st'. PersistentBitmap_WriteBack (Suc dep) junk fm \<lparr>of_hdr = hm, of_seekPosition = 0\<rparr> st
      = Inr (\<lparr>of_hdr = hm\<lparr>fh_limit := 128\<rparr>, of_seekPosition = 0\<rparr>, st') \<and> map_on_disk (hm\<lparr>fh_limit := 128\<rparr>) fm st'
    \<and> fh_owned hm st' = fh_owned hm st \<and> (\<forall>s. s \<notin> fh_owned hm st \<union> {0} \<longrightarrow> st' s = st s)"
proof -
  let ?f = "\<lparr>of_hdr = hm, of_seekPosition = 0\<rparr>" and ?h = "hm\<lparr>fh_limit := 128\<rparr>"
  have m: "map_ok fm" "fh_inv hm fm st" "fh_shape hm" "fh_capacity hm = 128" "0 \<le> fh_limit hm"
    using assms(1,3) by (simp_all add: file_ok_def fh_inv_def fh_shape_def)
  note w = map_ok_words [OF m(1)]
  obtain st' where st': "OpenFile_WriteAt (Suc dep) junk ?f st (map_bytes (bm_map fm)) 128 0
      = Inr (128, ?f\<lparr>of_hdr := ?h\<rparr>, st')" "file_ok ?h fm st'" "fh_owned hm st' = fh_owned hm st"
    "of_contents (?f\<lparr>of_hdr := ?h\<rparr>) st' = map_bytes (bm_map fm)" "st' 0 = FileHeader_bytes ?h"
    "\<forall>s. s \<notin> fh_owned hm st \<union> {0} \<longrightarrow> st' s = st s"
    using WriteAt_file [of ?f fm st 128 0 "map_bytes (bm_map fm)" dep junk] assms m w by auto
  have sh: "fh_shape ?h" "fh_inv ?h fm st'" "store_ok st'" using st'(2) by (simp_all add: file_ok_def fh_inv_def)
  have "fh_blocks ?h st' = [fh_dataSectors ?h ! 0]"
    using sh(1) assms(3) by (cases "fh_dataSectors hm") (auto simp: fh_blocks_def fh_shape_def)
  then have "fh_data ?h st' = st' (fh_dataSectors hm ! 0)" by (simp add: fh_data_def)
  moreover have "length (fh_data ?h st') = 128" using length_fh_data [OF m(1) sh(2,3)] m(4) by simp
  ultimately have "st' (fh_dataSectors hm ! 0) = map_bytes (bm_map fm)" using st'(4) by (simp add: of_contents_def)
  moreover have "fh_wf ?h" using assms(2) by (simp add: fh_wf_def fh_ints_def int_ok_def)
  ultimately have "map_on_disk ?h fm st'" using m(1) sh(2,3) assms(3,4) st'(5) by (simp add: map_on_disk_def)
  moreover have "PersistentBitmap_WriteBack (Suc dep) junk fm ?f st = Inr (?f\<lparr>of_hdr := ?h\<rparr>, st')"
    using st'(1) w by (simp add: PersistentBitmap_WriteBack.simps)
  ultimately show ?thesis using st'(3,6) by auto
qed

lemma file_ok_frame:
  assumes "file_ok h fm st" "store_ok st'" "map_ok fm'" "insert (fh_selfSector h) (fh_owned h st) \<subseteq> bm_used fm'"
    and "\<And>s. s \<in> insert (fh_selfSector h) (fh_owned h st) \<Longrightarrow> st' s = st s"
  shows "file_ok h fm' st'" "fh_owned h st' = fh_owned h st"
    "of_contents \<lparr>of_hdr = h, of_seekPosition = k\<rparr> st' = of_contents \<lparr>of_hdr = h, of_seekPosition = k\<rparr> st"
proof -
  have inv: "fh_inv h fm st" using assms(1) by (simp add: file_ok_def)
  note f = fh_foreign [OF inv, of st']
  show own: "fh_owned h st' = fh_owned h st" using f(2) assms(5) by simp
  show "file_ok h fm' st'"
    using f(3) assms own by (auto simp: file_ok_def fh_inv_def)
  show "of_contents \<lparr>of_hdr = h, of_seekPosition = k\<rparr> st' = of_contents \<lparr>of_hdr = h, of_seekPosition = k\<rparr> st"
    using f(4) assms(5) by (simp add: of_contents_def)
qed

lemma dir_file_frame:
  assumes "dir_file h fm st d" "store_ok st'" "map_ok fm'" "insert (fh_selfSector h) (fh_owned h st) \<subseteq> bm_used fm'"
    and "\<And>s. s \<in> insert (fh_selfSector h) (fh_owned h st) \<Longrightarrow> st' s = st s"
  shows "dir_file h fm' st' d" "fh_owned h st' = fh_owned h st"
proof -
  have ok: "file_ok h fm st" using assms(1) by (simp add: dir_file_def)
  note f = file_ok_frame [OF ok assms(2-5)]
  show "fh_owned h st' = fh_owned h st" by (rule f(2))
  show "dir_file h fm' st' d" using assms(1) f(1,3) assms(5) by (simp add: dir_file_def)
qed

section \<open>A mounted file system\<close>

text \<open>
  The open files of \<open>fs\<close> are the files on disk: the free map \<open>fm\<close> (header \<open>hm\<close>) and the root
  directory \<open>d\<close> (header \<open>h\<close>).
\<close>

definition mounted :: "FileSystem \<Rightarrow> FileHeader \<Rightarrow> bitmap \<Rightarrow> FileHeader \<Rightarrow> Directory \<Rightarrow> store \<Rightarrow> bool" where
  "mounted fs hm fm h d st \<longleftrightarrow> fs = \<lparr>fs_freeMapFile = \<lparr>of_hdr = hm, of_seekPosition = 0\<rparr>,
       fs_directoryFile = \<lparr>of_hdr = h, of_seekPosition = 0\<rparr>\<rparr>
     \<and> dir_on_disk h hm fm st d \<and> fh_selfSector h = DirectorySector"

definition env_ok :: "fs_env \<Rightarrow> bool" where
  "env_ok v \<longleftrightarrow> 0 < env_depth v \<and> dir_memory (env_dir v) \<and> (\<forall>e \<in> set (dir_table (env_dir v)). entry_wf e)
     \<and> int_ok (env_now v) \<and> int_ok (env_modify v)"

lemma mounted_map:
  assumes "mounted fs hm fm h d st"
  shows "PersistentBitmap_open (fs_freeMapFile fs) st NumSectors = Inr fm" "map_on_disk hm fm st" "map_ok fm"
proof -
  show m: "map_on_disk hm fm st" using assms by (simp add: mounted_def dir_on_disk_parts)
  then show "map_ok fm" by (simp add: map_on_disk_def)
  obtain b0 where "Bitmap_new NumSectors = Inr b0" "map_shape b0"
    using Bitmap_new_ok [of NumSectors] by (auto simp: map_shape_def)
  then show "PersistentBitmap_open (fs_freeMapFile fs) st NumSectors = Inr fm"
    using assms fetch_map [OF m] by (simp add: PersistentBitmap_open_def mounted_def)
qed

lemma mounted_root:
  assumes "mounted fs hm fm h d st" "env_ok v"
  shows "fetch_root v fs st = Inr d"
    "components path = [n] \<Longrightarrow> Directory_Find (env_dir v) st d path = Inr (case dir_map d (name_key n) of None \<Rightarrow> - 1 | Some s \<Rightarrow> s)"
  using assms fetch_dir [of h hm fm st d "env_dir v"] parent_in_root(2) [of h hm fm st d path n "env_dir v"]
  by (simp_all add: mounted_def env_ok_def fetch_root_def NumDirEntries_def Directory_default_def)

lemma mounted_store:
  assumes "mounted fs hm fm h d st"
  shows "store_ok st" "insert (fh_selfSector h) (fh_owned h st) \<subseteq> bm_used fm" "insert 0 (fh_owned hm st) \<subseteq> bm_used fm"
    "insert (fh_selfSector h) (fh_owned h st) \<inter> insert 0 (fh_owned hm st) = {}"
  using assms by (auto simp: mounted_def dir_on_disk_def file_on_disk_def file_ok_def map_on_disk_def fh_inv_def map_ok_def)

text \<open>Replacing the root directory's table, and taking more sectors, keeps the disk mounted.\<close>

lemma mounted_write_dir:
  assumes "mounted fs hm fm h d st" "env_ok v" "dir_wf d'" "dir_sector d' = fh_selfSector h"
  shows "\<exists>st'. Directory_WriteBack (env_depth v) (env_bytes v) d' \<lparr>of_hdr = h, of_seekPosition = 0\<rparr> st
      = Inr (\<lparr>of_hdr = h, of_seekPosition = 0\<rparr>, st') \<and> mounted fs hm fm h d' st' \<and> fh_owned h st' = fh_owned h st
    \<and> (\<forall>t. t \<notin> insert (fh_selfSector h) (fh_owned h st) \<longrightarrow> st' t = st t)"
proof -
  have dd: "dir_on_disk h hm fm st d" using assms(1) by (simp add: mounted_def)
  obtain dep where dep: "env_depth v = Suc dep" using assms(2) by (cases "env_depth v") (auto simp: env_ok_def)
  have df: "dir_file h fm st d" "map_on_disk hm fm st" using dd by (simp_all add: dir_on_disk_parts)
  then have fo: "file_ok h fm st" "fh_wf h" "204 \<le> fh_capacity h" by (simp_all add: dir_file_def)
  have lim: "h\<lparr>fh_limit := 204\<rparr> = h" using dir_on_disk_file(6) [OF dd] by (cases h) simp
  obtain st' where w: "Directory_WriteBack (env_depth v) (env_bytes v) d' \<lparr>of_hdr = h, of_seekPosition = 0\<rparr> st
      = Inr (\<lparr>of_hdr = h, of_seekPosition = 0\<rparr>, st')" "dir_file h fm st' d'" "fh_owned h st' = fh_owned h st"
    "\<forall>t. t \<notin> fh_owned h st \<union> {fh_selfSector h} \<longrightarrow> st' t = st t"
    using write_dir_file [OF fo assms(3,4), of dep "env_bytes v"] unfolding lim dep by auto
  note ms = mounted_store [OF assms(1)]
  have "store_ok st'" using w(2) by (simp add: dir_file_def file_ok_def)
  then have m': "map_on_disk hm fm st'" "fh_owned hm st' = fh_owned hm st"
    using map_on_disk_frame [OF df(2), of st'] w(4) ms(4) map_header(2) [OF df(2)] by auto
  then have "mounted fs hm fm h d' st'"
    using w(2,3) ms(4) assms(1) by (simp add: mounted_def dir_on_disk_parts)
  with w(1,3,4) show ?thesis by (intro exI [of _ st']) auto
qed

lemma mounted_parent:
  assumes "mounted fs hm fm h d st" "env_ok v" "components path = [n]"
  shows "Directory_namex (env_dir v) st d path True = Inr (fh_selfSector h, take 9 n)" "fh_selfSector h \<noteq> - 1"
    "OpenFile_new st (fh_selfSector h) = Inr \<lparr>of_hdr = h, of_seekPosition = 0\<rparr>"
    "Directory_FetchFrom (Directory_default (env_dir v)) \<lparr>of_hdr = h, of_seekPosition = 0\<rparr> st = Inr d"
    "dir_wf d" "dir_inv d" "length (dir_table d) = 10" "dir_sector d = fh_selfSector h"
proof -
  have dd: "dir_on_disk h hm fm st d" and mem: "dir_memory (env_dir v)" using assms(1,2) by (simp_all add: mounted_def env_ok_def)
  show "Directory_namex (env_dir v) st d path True = Inr (fh_selfSector h, take 9 n)" "fh_selfSector h \<noteq> - 1"
    "OpenFile_new st (fh_selfSector h) = Inr \<lparr>of_hdr = h, of_seekPosition = 0\<rparr>"
    "Directory_FetchFrom (Directory_default (env_dir v)) \<lparr>of_hdr = h, of_seekPosition = 0\<rparr> st = Inr d"
    by (rule parent_in_root(1) [OF dd assms(3)], rule self_positive [OF dd], rule dir_on_disk_file(1) [OF dd], rule fetch_dir [OF dd mem])
  show "dir_wf d" "dir_sector d = fh_selfSector h" using dd by (simp_all add: dir_on_disk_def)
  then show "dir_inv d" "length (dir_table d) = 10" by (simp_all add: dir_wf_def)
qed

lemma mounted_add:
  assumes "mounted fs hm fm h d st" "env_ok v" "components path = [n]" "int_ok s"
    "dir_map d (name_key n) = None" "dir_count d < 10"
  shows "\<exists>st' d'. Directory_Add (env_depth v) (env_bytes v) (env_dir v) st d path s = Inr (True, st')
    \<and> mounted fs hm fm h d' st' \<and> dir_map d' = (dir_map d)(name_key n \<mapsto> s)
    \<and> (\<forall>t. t \<notin> insert (fh_selfSector h) (fh_owned h st) \<longrightarrow> st' t = st t)"
proof -
  note p = mounted_parent [OF assms(1-3)]
  obtain d' where add: "Directory_AddInCurrentDir d (take 9 n) s = Inr (True, d')" "dir_map d' = (dir_map d)(name_key n \<mapsto> s)"
    using AddInCurrentDir_ok [OF p(6), of "take 9 n" s] assms(5,6) unfolding cstr_take p(7) by auto
  note wf' = add_wf [OF p(5) assms(4) add(1)]
  obtain st' where "Directory_WriteBack (env_depth v) (env_bytes v) d' \<lparr>of_hdr = h, of_seekPosition = 0\<rparr> st
      = Inr (\<lparr>of_hdr = h, of_seekPosition = 0\<rparr>, st')" "mounted fs hm fm h d' st'" "fh_owned h st' = fh_owned h st"
    "\<forall>t. t \<notin> insert (fh_selfSector h) (fh_owned h st) \<longrightarrow> st' t = st t"
    using mounted_write_dir [OF assms(1,2), of d'] wf' p(8) by auto
  with p(1-4) add show ?thesis by (intro exI [of _ st'] exI [of _ d']) (simp add: Directory_Add_def)
qed

lemma mounted_remove:
  assumes "mounted fs hm fm h d st" "env_ok v" "components path = [n]" "dir_map d (name_key n) \<noteq> None"
  shows "\<exists>st' d'. Directory_Remove (env_depth v) (env_bytes v) (env_dir v) st d path = Inr (True, st')
    \<and> mounted fs hm fm h d' st' \<and> dir_map d' = (dir_map d)(name_key n := None) \<and> fh_owned h st' = fh_owned h st
    \<and> (\<forall>t. t \<notin> insert (fh_selfSector h) (fh_owned h st) \<longrightarrow> st' t = st t)"
proof -
  note p = mounted_parent [OF assms(1-3)]
  obtain d' where rem: "Directory_RemoveInCurrentDir d (take 9 n) = Inr (True, d')" "dir_map d' = (dir_map d)(name_key n := None)"
    using RemoveInCurrentDir_ok [OF p(6), of "take 9 n"] assms(4) unfolding cstr_take by auto
  note wf' = remove_wf [OF p(5) rem(1)]
  obtain st' where "Directory_WriteBack (env_depth v) (env_bytes v) d' \<lparr>of_hdr = h, of_seekPosition = 0\<rparr> st
      = Inr (\<lparr>of_hdr = h, of_seekPosition = 0\<rparr>, st')" "mounted fs hm fm h d' st'" "fh_owned h st' = fh_owned h st"
    "\<forall>t. t \<notin> insert (fh_selfSector h) (fh_owned h st) \<longrightarrow> st' t = st t"
    using mounted_write_dir [OF assms(1,2), of d'] wf' p(8) by auto
  with p(1-4) rem show ?thesis by (intro exI [of _ st'] exI [of _ d']) (simp add: Directory_Remove_def)
qed

lemma mounted_write_map:
  assumes "mounted fs hm fm h d st" "env_ok v" "map_ok fm'"
    "insert (fh_selfSector h) (fh_owned h st) \<union> fh_owned hm st \<subseteq> bm_used fm'"
  shows "\<exists>st'. PersistentBitmap_WriteBack (env_depth v) (env_bytes v) fm' (fs_freeMapFile fs) st = Inr (fs_freeMapFile fs, st')
    \<and> mounted fs hm fm' h d st' \<and> fh_owned h st' = fh_owned h st
    \<and> (\<forall>t. t \<notin> insert 0 (fh_owned hm st) \<longrightarrow> st' t = st t)"
proof -
  obtain dep where dep: "env_depth v = Suc dep" using assms(2) by (cases "env_depth v") (auto simp: env_ok_def)
  have m: "map_on_disk hm fm st" and df: "dir_file h fm st d" using assms(1) by (simp_all add: mounted_def dir_on_disk_parts)
  note ms = mounted_store [OF assms(1)]
  have hd: "fh_wf hm" "fh_nsectors hm = 1" "fh_selfSector hm = 0" "0 \<in> bm_used fm'" "fh_limit hm = 128"
    using m assms(3) by (simp_all add: map_on_disk_def map_ok_def)
  have sub: "insert (fh_selfSector hm) (fh_owned hm st) \<subseteq> bm_used fm'" using assms(4) hd(3,4) by simp
  have ok: "file_ok hm fm' st"
    by (rule file_ok_frame(1) [OF map_header(1) [OF m] ms(1) assms(3) sub]) simp
  have lim: "hm\<lparr>fh_limit := 128\<rparr> = hm" using hd(5) by (cases hm) simp
  obtain st' where st': "PersistentBitmap_WriteBack (env_depth v) (env_bytes v) fm' \<lparr>of_hdr = hm, of_seekPosition = 0\<rparr> st
      = Inr (\<lparr>of_hdr = hm, of_seekPosition = 0\<rparr>, st')" "map_on_disk hm fm' st'" "fh_owned hm st' = fh_owned hm st"
      "\<forall>s. s \<notin> fh_owned hm st \<union> {0} \<longrightarrow> st' s = st s"
    using write_map_file [OF ok hd(1-3), of dep "env_bytes v"] unfolding dep lim by blast
  have same: "st' s = st s" if "s \<in> insert (fh_selfSector h) (fh_owned h st)" for s
  proof -
    have "s \<notin> fh_owned hm st \<union> {0}" using that ms(4) by blast
    then show ?thesis using st'(4) by blast
  qed
  have "store_ok st'" using st'(2) by (simp add: map_on_disk_def)
  from dir_file_frame [OF df this assms(3) _ same] assms(4)
  have f: "dir_file h fm' st' d" "fh_owned h st' = fh_owned h st" by auto
  have "mounted fs hm fm' h d st'"
    using f ms(4) st'(2,3) assms(1) by (simp add: mounted_def dir_on_disk_parts)
  with st'(1,4) f(2) assms(1) show ?thesis by (intro exI [of _ st']) (auto simp: mounted_def)
qed

lemma mounted_frame:
  assumes "mounted fs hm fm h d st" "store_ok st'" "\<And>s. s \<in> bm_used fm \<Longrightarrow> st' s = st s"
  shows "mounted fs hm fm h d st'" "fh_owned h st' = fh_owned h st"
proof -
  have m: "map_on_disk hm fm st" and df: "dir_file h fm st d" using assms(1) by (simp_all add: mounted_def dir_on_disk_parts)
  note ms = mounted_store [OF assms(1)] and mo = mounted_map(3) [OF assms(1)]
  have m': "map_on_disk hm fm st'" "fh_owned hm st' = fh_owned hm st"
    using map_on_disk_frame [OF m assms(2)] assms(3) ms(3) map_header(2) [OF m] by auto
  have same: "st' s = st s" if "s \<in> insert (fh_selfSector h) (fh_owned h st)" for s
    using that ms(2) assms(3) by blast
  note f = dir_file_frame [OF df assms(2) mo ms(2) same]
  show "fh_owned h st' = fh_owned h st" by (rule f(2))
  show "mounted fs hm fm h d st'"
    using f m' ms(4) assms(1) by (simp add: mounted_def dir_on_disk_parts)
qed

section \<open>Creating and opening\<close>

text \<open>A file on disk beside the root directory and the map, with its header in sector \<open>s\<close>.\<close>

definition stored_file :: "FileHeader \<Rightarrow> int \<Rightarrow> FileHeader \<Rightarrow> FileHeader \<Rightarrow> bitmap \<Rightarrow> store \<Rightarrow> bool" where
  "stored_file hf s h hm fm st \<longleftrightarrow> file_on_disk hf hm fm st \<and> fh_wf hf \<and> fh_selfSector hf = s
     \<and> st s = FileHeader_bytes hf
     \<and> insert s (fh_owned hf st) \<inter> insert (fh_selfSector h) (fh_owned h st) = {}"

lemma new_header:
  assumes "env_ok v" "int_ok s" "int_ok type"
  shows "fh_wf (FileHeader_new s type (env_now v) (env_modify v))"
    "fh_blocks (FileHeader_new s type (env_now v) (env_modify v)) st = []"
    "fh_owned (FileHeader_new s type (env_now v) (env_modify v)) st = {}"
    "fh_inv (FileHeader_new s type (env_now v) (env_modify v)) fm st"
    "fh_selfSector (FileHeader_new s type (env_now v) (env_modify v)) = s"
  using assms by (auto simp: fh_wf_def fh_ints_def FileHeader_new_def env_ok_def int_ok_def fh_blocks_def fh_owned_def
      fh_inv_def fh_shape_def)

text \<open>
  \<open>Create\<close> in the root directory, for a type whose own part of the work returns \<open>ok\<close> and writes at
  most the new sector, which it leaves with the contents \<open>img s\<close> of the old ones.
\<close>

lemma create_entry_ok:
  assumes "mounted fs hm fm h d st" "env_ok v" "components path = [n]"
    and "dir_map d (name_key n) = None" "dir_count d < 10" "0 < bm_free fm"
    and body: "\<And>s fm' st1. 0 < s \<Longrightarrow> s < 1024 \<Longrightarrow> store_ok st1 \<Longrightarrow> create_body v s type fm' st1 = Inr (ok, fm', st1(s := img s (st1 s)))
      \<and> length (img s (st1 s)) = 128"
  shows "\<exists>s fm' d' st'. FileSystem_Create v fs st path type = Inr (ok, fs, st')
    \<and> 0 < s \<and> s < 1024 \<and> s \<notin> bm_used fm \<and> bm_used fm' = insert s (bm_used fm) \<and> map_ok fm' \<and> mounted fs hm fm' h d' st'
    \<and> dir_map d' = (dir_map d)(name_key n \<mapsto> s) \<and> st' s = img s (st s) \<and> s \<notin> insert (fh_selfSector h) (fh_owned h st')
    \<and> fh_owned hm st' = fh_owned hm st
    \<and> (\<forall>t \<in> bm_used fm - insert (fh_selfSector h) (fh_owned h st) - insert 0 (fh_owned hm st). st' t = st t)"
proof -
  note mm = mounted_map [OF assms(1)] and mr = mounted_root [OF assms(1,2)] and ms = mounted_store [OF assms(1)]
  obtain s fm' where s: "Bitmap_FindAndSet fm = Inr (s, fm')" "0 < s" "s < 1024" "s \<notin> bm_used fm"
    "bm_used fm' = insert s (bm_used fm)" "map_ok fm'" using take_one [OF mm(3) assms(6)] by metis
  have si: "int_ok s" "s \<noteq> - 1" using s(2,3) by (simp_all add: int_ok_def)
  obtain st1 d' where a: "Directory_Add (env_depth v) (env_bytes v) (env_dir v) st d path s = Inr (True, st1)"
    "mounted fs hm fm h d' st1" "dir_map d' = (dir_map d)(name_key n \<mapsto> s)"
    "\<forall>t. t \<notin> insert (fh_selfSector h) (fh_owned h st) \<longrightarrow> st1 t = st t"
    using mounted_add [OF assms(1-3) si(1) assms(4,5)] by blast
  let ?st2 = "st1(s := img s (st1 s))"
  note b = body [OF s(2,3) mounted_store(1) [OF a(2)], of fm']
  have "store_ok ?st2" using mounted_store(1) [OF a(2)] b by (simp add: store_ok_upd)
  then have m2: "mounted fs hm fm h d' ?st2" and h2: "fh_owned h ?st2 = fh_owned h st1"
    by (rule mounted_frame [OF a(2)]; use s(4) in auto)+
  obtain st3 where w: "PersistentBitmap_WriteBack (env_depth v) (env_bytes v) fm' (fs_freeMapFile fs) ?st2 = Inr (fs_freeMapFile fs, st3)"
    "mounted fs hm fm' h d' st3" "fh_owned h st3 = fh_owned h ?st2" "\<forall>t. t \<notin> insert 0 (fh_owned hm ?st2) \<longrightarrow> st3 t = ?st2 t"
    using mounted_write_map [OF m2 assms(2) s(6)] s(5) mounted_store(2,3) [OF m2] by blast
  have own: "fh_owned hm ?st2 = fh_owned hm st" "fh_owned hm st3 = fh_owned hm st"
    using map_header(2) mounted_map(2) [OF assms(1)] mounted_map(2) [OF m2] mounted_map(2) [OF w(2)] by auto
  have find: "Directory_Find (env_dir v) st d path = Inr (- 1)" using mr(2) [OF assms(3)] assms(4) by simp
  have run: "FileSystem_Create v fs st path type = Inr (ok, fs, st3)"
    using mr(1) find mm(1) s(1) a(1) b w(1) si(2) by (simp add: FileSystem_Create_def)
  have "s \<notin> insert 0 (fh_owned hm ?st2)" using s(4) ms(3) unfolding own by blast
  moreover have "st1 s = st s" using a(4) s(4) ms(2) by blast
  ultimately have s3: "st3 s = img s (st s)" using w(4) by simp
  have fresh: "s \<notin> insert (fh_selfSector h) (fh_owned h st3)"
    using mounted_store(2) [OF a(2)] s(4) unfolding w(3) h2 by auto
  have "st3 t = st t" if "t \<in> bm_used fm - insert (fh_selfSector h) (fh_owned h st) - insert 0 (fh_owned hm st)" for t
  proof -
    have "t \<notin> insert 0 (fh_owned hm ?st2)" using that unfolding own by blast
    with w(4) have "st3 t = ?st2 t" by blast
    also have "\<dots> = st1 t" using that s(4) by auto
    finally show ?thesis using a(4) that by auto
  qed
  then show ?thesis
    using run s(2-6) w(2) a(3) s3 fresh own(2) by (intro exI [of _ s] exI [of _ fm'] exI [of _ d'] exI [of _ st3]) blast
qed

lemma create_file_ok:
  assumes "mounted fs hm fm h d st" "env_ok v" "components path = [n]"
    and "dir_map d (name_key n) = None" "dir_count d < 10" "0 < bm_free fm"
  shows "\<exists>s fm' d' st'. FileSystem_Create v fs st path TYPE_FILE = Inr (True, fs, st')
    \<and> s \<notin> bm_used fm \<and> bm_used fm' = insert s (bm_used fm) \<and> mounted fs hm fm' h d' st'
    \<and> dir_map d' = (dir_map d)(name_key n \<mapsto> s)
    \<and> FileSystem_Open v fs st' path = Inr (Some \<lparr>of_hdr = FileHeader_new s TYPE_FILE (env_now v) (env_modify v), of_seekPosition = 0\<rparr>)
    \<and> stored_file (FileHeader_new s TYPE_FILE (env_now v) (env_modify v)) s h hm fm' st'
    \<and> (\<forall>t \<in> bm_used fm - insert (fh_selfSector h) (fh_owned h st) - insert 0 (fh_owned hm st). st' t = st t)"
proof -
  let ?new = "\<lambda>s. FileHeader_new s TYPE_FILE (env_now v) (env_modify v)"
  have nh: "fh_wf (?new s)" "fh_owned (?new s) st = {}" "fh_inv (?new s) fm st" "fh_selfSector (?new s) = s"
    if "0 < s" "s < 1024" for s fm st
    using that new_header [OF assms(2), of s TYPE_FILE] by (simp_all add: int_ok_def TYPE_FILE_def)
  have len: "length (FileHeader_bytes (?new s)) = 128" if "0 < s" "s < 1024" for s
    by (rule FileHeader_bytes_length [OF nh(1) [OF that]])
  have body: "create_body v s TYPE_FILE fm' st1 = Inr (True, fm', st1(s := FileHeader_bytes (?new s))) \<and> length (FileHeader_bytes (?new s)) = 128"
    if "0 < s" "s < 1024" for s fm' st1
    using that len [OF that]
    by (simp add: create_body_def FileHeader_WriteBack_def TYPE_FILE_def TYPE_DIR_def Let_def WriteSector_def assertE_def)
  obtain s fm' d' st' where c: "FileSystem_Create v fs st path TYPE_FILE = Inr (True, fs, st')" "0 < s" "s < 1024" "s \<notin> bm_used fm"
    "bm_used fm' = insert s (bm_used fm)" "map_ok fm'" "mounted fs hm fm' h d' st'" "dir_map d' = (dir_map d)(name_key n \<mapsto> s)"
    "st' s = FileHeader_bytes (?new s)" "s \<notin> insert (fh_selfSector h) (fh_owned h st')" "fh_owned hm st' = fh_owned hm st"
    "\<forall>t \<in> bm_used fm - insert (fh_selfSector h) (fh_owned h st) - insert 0 (fh_owned hm st). st' t = st t"
    using create_entry_ok [OF assms(1-6), of TYPE_FILE True "\<lambda>s _. FileHeader_bytes (?new s)"] body by blast
  have fetch: "OpenFile_new st' s = Inr \<lparr>of_hdr = ?new s, of_seekPosition = 0\<rparr>"
    using c(2,3,9) FileHeader_roundtrip [OF nh(1)] by (simp add: OpenFile_new_def FileHeader_FetchFrom_def)
  have open_it: "FileSystem_Open v fs st' path = Inr (Some \<lparr>of_hdr = ?new s, of_seekPosition = 0\<rparr>)"
    using mounted_root [OF c(7) assms(2)] assms(3) c(2,8) fetch by (simp add: FileSystem_Open_def)
  have "insert 0 (fh_owned hm st') \<subseteq> bm_used fm" using mounted_store(3) [OF assms(1)] c(11) by simp
  then have "file_on_disk (?new s) hm fm' st'"
    using nh [OF c(2,3)] c(4-6) mounted_store(1) [OF c(7)] mounted_map(2) [OF c(7)]
    by (auto simp: file_on_disk_def file_ok_def)
  then have "stored_file (?new s) s h hm fm' st'"
    using nh [OF c(2,3)] c(9,10) by (simp add: stored_file_def)
  then show ?thesis
    using c open_it by (intro exI [of _ s] exI [of _ fm'] exI [of _ d'] exI [of _ st']) blast
qed

section \<open>Formatting\<close>

lemma bitmap_eqI:
  assumes "map_ok b" "map_ok c" "bm_used b = bm_used c"
  shows "b = c"
proof -
  note w = map_ok_words [OF assms(1)] map_ok_words [OF assms(2)]
  have "bm_map b ! k = bm_map c ! k" if k: "k < 32" for k
  proof (rule bit_word_eqI)
    fix n :: nat assume "n < LENGTH(32)"
    then have n: "n < 32" by simp
    let ?i = "int (32 * k + n)"
    have i: "0 \<le> ?i" "?i < 1024" "nat (?i div 32) = k" "nat (?i mod 32) = n" using k n by auto
    have "?i \<in> bm_used b \<longleftrightarrow> ?i \<in> bm_used c" using assms(3) by simp
    then show "bit (bm_map b ! k) n = bit (bm_map c ! k) n"
      using i w unfolding bm_used_def bm_bit_def by simp
  qed
  then have "bm_map b = bm_map c" using w by (intro nth_equalityI) auto
  with w show ?thesis by (cases b; cases c) simp
qed

lemma low_map_step:
  assumes "0 < k" "k < 32"
  shows "Bitmap_FindAndSet (low_map k) = Inr (int k, low_map (Suc k))"
proof -
  have ok: "map_ok (low_map k)" "map_ok (low_map (Suc k))" using assms low_map_ok by simp_all
  then have inv: "bm_inv (low_map k)" "bm_numBits (low_map k) = 1024" by (simp_all add: map_ok_def)
  have used: "bm_used (low_map k) = {0..<int k}" "bm_used (low_map (Suc k)) = {0..<int (Suc k)}"
    using assms by (simp_all only: low_map_used)
  have fc: "first_clear (low_map k) (int k)" using inv(2) assms used(1) by (simp add: first_clear_def)
  have "bm_used (bm_write (low_map k) (int k) True) = insert (int k) {0..<int k}"
    using bm_used_write [OF inv(1), of "int k" True] inv(2) assms used(1) by simp
  also have "\<dots> = bm_used (low_map (Suc k))" unfolding used by auto
  finally have eq: "bm_used (bm_write (low_map k) (int k) True) = bm_used (low_map (Suc k))" .
  have "map_ok (bm_write (low_map k) (int k) True)" using inv eq used(2) by (simp add: map_ok_def)
  from bitmap_eqI [OF this ok(2) eq] FindAndSet_first [OF inv(1) fc] show ?thesis by simp
qed

lemma low_map_free: "0 < k \<Longrightarrow> k \<le> 32 \<Longrightarrow> Bitmap_NumClear (low_map k) = Inr (1024 - int k)"
  using NumClear_free [OF low_map_ok, of k] low_map_used [of k] by (simp add: bm_free_def low_map_def)

lemma reserve_three:
  "\<exists>b b1 b2. PersistentBitmap_new NumSectors = Inr b \<and> Bitmap_Mark b FreeMapSector = Inr b1
    \<and> Bitmap_Mark b1 DirectorySector = Inr b2 \<and> Bitmap_Mark b2 PipeSector = Inr (low_map 3)"
proof -
  obtain b where b: "Bitmap_new 1024 = Inr b" "bm_inv b" "bm_numBits b = 1024" "bm_used b = {}"
    using Bitmap_new_ok [of 1024] by auto
  let ?b1 = "bm_write b 0 True"
  let ?b2 = "bm_write ?b1 1 True"
  let ?b3 = "bm_write ?b2 2 True"
  have m: "Bitmap_Mark b 0 = Inr ?b1" "Bitmap_Mark ?b1 1 = Inr ?b2" "Bitmap_Mark ?b2 2 = Inr ?b3"
    by (rule Mark_ok; simp add: b)+
  have "bm_used ?b1 = {0}" using bm_used_write [of b 0 True] b by simp
  then have "bm_used ?b2 = {0, 1}" using bm_used_write [of ?b1 1 True] b by auto
  then have "bm_used ?b3 = {0, 1, 2}" using bm_used_write [of ?b2 2 True] b by auto
  moreover have "{0, 1, 2} = {0..<3 :: int}" by auto
  ultimately have u: "bm_used ?b3 = bm_used (low_map 3)" using low_map_used [of 3] by simp
  moreover have "map_ok ?b3" using b(2,3) \<open>bm_used ?b3 = {0, 1, 2}\<close> by (simp add: map_ok_def)
  ultimately have "?b3 = low_map 3" using low_map_ok [of 3] by (intro bitmap_eqI) simp_all
  then show ?thesis using b(1) m by (simp add: PersistentBitmap_new_def FreeMapSector_def DirectorySector_def PipeSector_def)
qed

definition formatted_hdr :: "fs_env \<Rightarrow> int \<Rightarrow> int \<Rightarrow> int \<Rightarrow> int list \<Rightarrow> FileHeader" where
  "formatted_hdr v self type limit blocks = \<lparr>fh_limit = limit, fh_capacity = int (length blocks) * 128,
     fh_nsectors = int (length blocks), fh_selfSector = self, fh_type = type, fh_createTime = env_now v,
     fh_modifyTime = env_modify v, fh_dataSectors = blocks @ replicate (25 - length blocks) 0\<rparr>"

lemma alloc_low_map:
  assumes "i + n \<le> 24" "0 < k" "k + n \<le> 32" "length ds = 25"
  shows "alloc_direct (int i) (int n) ds (low_map k) = Inr (0, overwrite i (map int [k..<k + n]) ds, low_map (k + n))"
  using assms
proof (induction n arbitrary: i k ds)
  case 0
  then show ?case by (simp add: alloc_direct.simps [of _ 0] overwrite_def)
next
  case (Suc n)
  have "alloc_direct (int i) (int (Suc n)) ds (low_map k) = alloc_direct (int (Suc i)) (int n) (ds[i := int k]) (low_map (Suc k))"
    using Suc.prems low_map_step [of k] by (subst alloc_direct.simps) (simp add: ac_simps)
  also have "\<dots> = Inr (0, overwrite (Suc i) (map int [Suc k..<Suc k + n]) (ds[i := int k]), low_map (Suc k + n))"
    using Suc.IH [of "Suc i" "Suc k" "ds[i := int k]"] Suc.prems by simp
  also have "overwrite (Suc i) (map int [Suc k..<Suc k + n]) (ds[i := int k]) = overwrite i (map int [k..<k + Suc n]) ds"
    using Suc.prems by (cases n) (auto simp: overwrite_def upt_conv_Cons take_Suc_conv_app_nth not_le)
  finally show ?case by simp
qed

lemma allocate_low_map:
  assumes "0 < n" "n \<le> 24" "0 < k" "k + n \<le> 32" "sz = int n * 128 - r" "0 \<le> r" "r < 128"
  shows "FileHeader_Allocate (FileHeader_new self type (env_now v) (env_modify v)) (low_map k) st sz
     = Inr (True, formatted_hdr v self type 0 (map int [k..<k + n]), low_map (k + n), st)"
proof -
  have sz: "0 < sz" "sz \<le> 7168" using assms by simp_all
  have n: "divRoundUp sz 128 = int n"
    using divRoundUp_bounds [of sz 128] sz(1) assms(5-7) by linarith
  show ?thesis
    using n sz assms alloc_low_map [of 0 n k "replicate 25 0"] low_map_free [of k]
    by (simp add: FileHeader_Allocate_def FileHeader_new_def formatted_hdr_def Let_def overwrite_def)
qed

lemma format_allocate:
  "FileHeader_Allocate (FileHeader_new 0 TYPE_FILE (env_now v) (env_modify v)) (low_map 3) st FreeMapFileSize
     = Inr (True, formatted_hdr v 0 TYPE_FILE 0 (map int [3..<4]), low_map 4, st)"
  "FileHeader_Allocate (FileHeader_new 1 TYPE_DIR (env_now v) (env_modify v)) (low_map 4) st DirectoryFileSize
     = Inr (True, formatted_hdr v 1 TYPE_DIR 0 (map int [4..<6]), low_map 6, st)"
  "FileHeader_Allocate (FileHeader_new 2 TYPE_PIPE (env_now v) (env_modify v)) (low_map 6) st PipeFileSize
     = Inr (True, formatted_hdr v 2 TYPE_PIPE 0 (map int [6..<14]), low_map 14, st)"
  using allocate_low_map [of 1 3 FreeMapFileSize 0 0 TYPE_FILE v st] allocate_low_map [of 2 4 DirectoryFileSize 56 1 TYPE_DIR v st]
    allocate_low_map [of 8 6 PipeFileSize 0 2 TYPE_PIPE v st]
  by (simp_all add: FreeMapFileSize_def DirectoryFileSize_def NumDirEntries_def PipeFileSize_def BitsInByte_def)

lemma limit_owned: "fh_owned (h\<lparr>fh_limit := k\<rparr>) s = fh_owned h s"
  by (simp add: fh_owned_def fh_blocks_def index_ints_def)

lemma formatted_ok:
  assumes "env_ok v" "0 \<le> self" "self < 3" "int_ok type" "3 \<le> a" "a \<le> b" "b \<le> 14" "store_ok s" "b - a \<le> 24"
    "0 \<le> l" "l \<le> int (b - a) * 128"
  defines "h \<equiv> formatted_hdr v self type l (map int [a..<b])"
  shows "fh_owned h s = {int a..<int b}" "file_ok h (low_map 14) s" "fh_wf h"
proof -
  have bl: "fh_blocks h s = map int [a..<b]" using assms(9) by (simp add: h_def formatted_hdr_def fh_blocks_def)
  have "set (map int [a..<b]) = {int a..<int b}" by (auto simp: image_int_atLeastLessThan)
  then show own: "fh_owned h s = {int a..<int b}"
    unfolding fh_owned_def bl using assms(9) by (simp add: h_def formatted_hdr_def)
  have used: "bm_used (low_map 14) = {0..<14}" using low_map_used [of 14] by simp
  have "fh_shape h" using assms(6,9-11) by (auto simp: fh_shape_def h_def formatted_hdr_def)
  moreover have "distinct (fh_blocks h s)" unfolding bl by (simp add: distinct_map)
  moreover have "{int a..<int b} \<subseteq> {0..<14} - {0}" using assms(5-7) by auto
  ultimately have "fh_inv h (low_map 14) s"
    unfolding fh_inv_def own used using assms(9) by (simp add: h_def formatted_hdr_def nth_append)
  moreover have "self \<in> {0..<14} - {int a..<int b}" using assms(2,3,5) by auto
  ultimately show "file_ok h (low_map 14) s"
    unfolding file_ok_def own used using low_map_ok [of 14] assms(8) by (simp add: h_def formatted_hdr_def)
  have "\<forall>x \<in> set (map int [a..<b] @ replicate (25 - (b - a)) 0). int_ok x" using assms(7) by (auto simp: int_ok_def)
  moreover have "length (map int [a..<b] @ replicate (25 - (b - a)) (0 :: int)) = 25" using assms(9) by simp
  moreover have "int_ok l" "int_ok (int (b - a) * 128)" "int_ok (int (b - a))" "int_ok self"
    using assms(2,3,7,10,11) by (auto simp: int_ok_def)
  ultimately show "fh_wf h"
    using assms(1,4) by (auto simp: fh_wf_def fh_ints_def h_def formatted_hdr_def env_ok_def)
qed

lemma empty_directory:
  assumes "env_ok v" "int_ok s"
  shows "dir_wf (Directory_new (env_dir v) s NumDirEntries)" "dir_map (Directory_new (env_dir v) s NumDirEntries) = Map.empty"
    "dir_sector (Directory_new (env_dir v) s NumDirEntries) = s" "dir_count (Directory_new (env_dir v) s NumDirEntries) = 0"
proof -
  let ?d = "Directory_new (env_dir v) s NumDirEntries"
  have len: "length (dir_table ?d) = 10" "dir_tableSize ?d = 10" "dir_sector ?d = s"
    using assms(1) by (simp_all add: Directory_new_def NumDirEntries_def env_ok_def dir_memory_def)
  have entry: "\<not> de_inUse e \<and> length (de_name e) = 10 \<and> entry_wf e" if "e \<in> set (dir_table ?d)" for e
    using that assms(1) by (auto simp: Directory_new_def NumDirEntries_def env_ok_def dir_memory_def entry_wf_def dest!: in_set_takeD)
  then have free: "\<not> de_inUse (dir_table ?d ! i)" if "i < 10" for i using that len(1) by simp
  have inv: "dir_inv ?d" unfolding dir_inv_def using len free entry by simp
  then show "dir_wf ?d" using len entry assms(2) by (simp add: dir_wf_def)
  show "dir_map ?d = Map.empty" using free len(1) by (auto simp: dir_map_None fun_eq_iff)
  show "dir_sector ?d = s" by (rule len(3))
  show "dir_count ?d = 0" using entry by (simp add: dir_count_def filter_empty_conv)
qed

definition format_map_hdr :: "fs_env \<Rightarrow> FileHeader" where
  "format_map_hdr v = formatted_hdr v 0 TYPE_FILE 128 (map int [3..<4])"

definition format_root_hdr :: "fs_env \<Rightarrow> FileHeader" where
  "format_root_hdr v = formatted_hdr v 1 TYPE_DIR 204 (map int [4..<6])"

definition format_pipe_hdr :: "fs_env \<Rightarrow> FileHeader" where
  "format_pipe_hdr v = formatted_hdr v 2 TYPE_PIPE 0 (map int [6..<14])"

text \<open>The state of a freshly formatted disk.\<close>

definition formatted :: "fs_env \<Rightarrow> FileSystem \<Rightarrow> store \<Rightarrow> bool" where
  "formatted v fs st \<longleftrightarrow> mounted fs (format_map_hdr v) (low_map 14) (format_root_hdr v)
       (Directory_new (env_dir v) DirectorySector NumDirEntries) st
     \<and> file_on_disk (format_pipe_hdr v) (format_map_hdr v) (low_map 14) st
     \<and> st PipeSector = FileHeader_bytes (format_pipe_hdr v)"

lemma format_ok:
  assumes "store_ok st" "env_ok v"
  shows "\<exists>fs st'. FileSystem_new v True st = Inr (fs, st') \<and> formatted v fs st'"
proof -
  obtain dep where dep: "env_depth v = Suc dep" using assms(2) by (cases "env_depth v") (auto simp: env_ok_def)
  let ?H0 = "formatted_hdr v 0 TYPE_FILE 0 (map int [3..<4])" and ?H1 = "formatted_hdr v 1 TYPE_DIR 0 (map int [4..<6])"
    and ?H2 = "format_pipe_hdr v" and ?d = "Directory_new (env_dir v) DirectorySector NumDirEntries"
  have types: "int_ok TYPE_FILE" "int_ok TYPE_DIR" "int_ok TYPE_PIPE" by (simp_all add: TYPE_FILE_def TYPE_DIR_def TYPE_PIPE_def int_ok_def)
  have f0: "fh_owned ?H0 s = {3..<4}" "file_ok ?H0 (low_map 14) s" "fh_wf ?H0" if "store_ok s" for s
    using formatted_ok [OF assms(2), of 0 TYPE_FILE 3 4 s 0] types that by simp_all
  have f1: "fh_owned ?H1 s = {4..<6}" "file_ok ?H1 (low_map 14) s" "fh_wf ?H1" if "store_ok s" for s
    using formatted_ok [OF assms(2), of 1 TYPE_DIR 4 6 s 0] types that by simp_all
  have f2: "fh_owned ?H2 s = {6..<14}" "file_ok ?H2 (low_map 14) s" "fh_wf ?H2" if "store_ok s" for s
    using formatted_ok [OF assms(2), of 2 TYPE_PIPE 6 14 s 0] types that by (simp_all add: format_pipe_hdr_def)
  have wf: "fh_wf ?H0" "fh_wf ?H1" "fh_wf ?H2" using f0(3) f1(3) f2(3) assms(1) by blast+
  note len = wf [THEN FileHeader_bytes_length]
  define st3 where "st3 = st(0 := FileHeader_bytes ?H0, 1 := FileHeader_bytes ?H1, 2 := FileHeader_bytes ?H2)"
  have s3: "store_ok st3" using assms(1) len by (simp add: st3_def store_ok_upd)
  have o0: "OpenFile_new st3 0 = Inr \<lparr>of_hdr = ?H0, of_seekPosition = 0\<rparr>" and o1: "OpenFile_new st3 1 = Inr \<lparr>of_hdr = ?H1, of_seekPosition = 0\<rparr>"
    using wf by (simp_all add: OpenFile_new_def FileHeader_FetchFrom_def FileHeader_roundtrip st3_def)
  have wb: "FileHeader_WriteBack ?H0 st 0 = Inr (st(0 := FileHeader_bytes ?H0))"
    "FileHeader_WriteBack ?H1 (st(0 := FileHeader_bytes ?H0)) 1 = Inr (st(0 := FileHeader_bytes ?H0, 1 := FileHeader_bytes ?H1))"
    "FileHeader_WriteBack ?H2 (st(0 := FileHeader_bytes ?H0, 1 := FileHeader_bytes ?H1)) 2 = Inr st3"
    using len by (simp_all add: FileHeader_WriteBack_def WriteSector_def st3_def)
  have eqs: "?H0\<lparr>fh_limit := 128\<rparr> = format_map_hdr v" "?H1\<lparr>fh_limit := 204\<rparr> = format_root_hdr v"
    by (simp_all add: formatted_hdr_def format_map_hdr_def format_root_hdr_def)
  have self: "fh_nsectors ?H0 = 1" "fh_selfSector ?H0 = 0" "fh_selfSector ?H1 = 1" "fh_capacity ?H1 = 256" "fh_selfSector ?H2 = 2"
    by (simp_all add: formatted_hdr_def format_pipe_hdr_def)
  obtain st4 where w4: "PersistentBitmap_WriteBack (env_depth v) (env_bytes v) (low_map 14) \<lparr>of_hdr = ?H0, of_seekPosition = 0\<rparr> st3
      = Inr (\<lparr>of_hdr = format_map_hdr v, of_seekPosition = 0\<rparr>, st4)" "map_on_disk (format_map_hdr v) (low_map 14) st4"
    "\<forall>s. s \<notin> {3..<4} \<union> {0} \<longrightarrow> st4 s = st3 s"
    using write_map_file [OF f0(2) [OF s3] wf(1) self(1,2), of dep "env_bytes v"] f0(1) [OF s3] unfolding dep eqs by auto
  have s4: "store_ok st4" using w4(2) by (simp add: map_on_disk_def)
  note ed = empty_directory [OF assms(2), of DirectorySector]
  have ds: "int_ok DirectorySector" by (simp add: int_ok_def DirectorySector_def)
  obtain st5 where w5: "Directory_WriteBack (env_depth v) (env_bytes v) ?d \<lparr>of_hdr = ?H1, of_seekPosition = 0\<rparr> st4
      = Inr (\<lparr>of_hdr = format_root_hdr v, of_seekPosition = 0\<rparr>, st5)" "dir_file (format_root_hdr v) (low_map 14) st5 ?d"
    "\<forall>s. s \<notin> {4..<6} \<union> {1} \<longrightarrow> st5 s = st4 s"
    using write_dir_file [OF f1(2) [OF s4] wf(2), of ?d dep "env_bytes v"] ed(1,3) [OF ds] f1(1) [OF s4] self(3,4)
    unfolding dep eqs by (auto simp: DirectorySector_def)
  have s5: "store_ok st5" using w5(2) by (simp add: dir_file_def file_ok_def)
  have own: "fh_owned (format_map_hdr v) st5 = {3..<4}" "fh_owned (format_root_hdr v) st5 = {4..<6}" "fh_owned ?H2 st5 = {6..<14}"
    using f0(1) [OF s5] f1(1) [OF s5] f2(1) [OF s5] unfolding eqs(1,2) [symmetric] limit_owned by simp_all
  have "fh_dataSectors (format_map_hdr v) ! 0 = 3" by (simp add: format_map_hdr_def formatted_hdr_def)
  then have m5: "map_on_disk (format_map_hdr v) (low_map 14) st5"
    using map_on_disk_frame(1) [OF w4(2) s5] w5(3) by simp
  let ?fs = "\<lparr>fs_freeMapFile = \<lparr>of_hdr = format_map_hdr v, of_seekPosition = 0\<rparr>, fs_directoryFile = \<lparr>of_hdr = format_root_hdr v, of_seekPosition = 0\<rparr>\<rparr>"
  have run: "FileSystem_new v True st = Inr (?fs, st5)"
    using reserve_three o0 o1 w4(1) w5(1) wb
    by (auto simp: FileSystem_new_def FileSystem_format_def FreeMapSector_def DirectorySector_def PipeSector_def format_allocate
        format_pipe_hdr_def Let_def)
  have r1: "fh_selfSector (format_root_hdr v) = 1" by (simp add: format_root_hdr_def formatted_hdr_def)
  then have "mounted ?fs (format_map_hdr v) (low_map 14) (format_root_hdr v) ?d st5"
    using w5(2) m5 own by (simp add: mounted_def dir_on_disk_parts DirectorySector_def)
  moreover have "file_on_disk ?H2 (format_map_hdr v) (low_map 14) st5"
    using f2(2) [OF s5] m5 own self(5) by (auto simp: file_on_disk_def)
  moreover have "st5 2 = FileHeader_bytes ?H2" using w4(3) w5(3) by (simp add: st3_def)
  ultimately show ?thesis using run by (auto simp: formatted_def PipeSector_def)
qed

section \<open>Removing\<close>

lemma remove_file_ok:
  assumes "mounted fs hm fm h d st" "env_ok v" "components path = [n]" "dir_map d (name_key n) = Some s"
    and "stored_file hf s h hm fm st" "fh_nsectors hf \<le> 24"
  shows "\<exists>fm' d' st'. FileSystem_Remove v fs st path = Inr (True, fs, st') \<and> mounted fs hm fm' h d' st'
    \<and> bm_used fm' = bm_used fm - insert s (fh_owned hf st) \<and> dir_map d' = (dir_map d)(name_key n := None)
    \<and> FileSystem_Open v fs st' path = Inr None"
proof -
  note mm = mounted_map [OF assms(1)] and mr = mounted_root [OF assms(1,2)] and ms = mounted_store [OF assms(1)]
  have hf: "file_ok hf fm st" "fh_wf hf" "fh_selfSector hf = s" "st s = FileHeader_bytes hf"
    "insert s (fh_owned hf st) \<inter> insert 0 (fh_owned hm st) = {}"
    "insert s (fh_owned hf st) \<inter> insert (fh_selfSector h) (fh_owned h st) = {}"
    using assms(5) by (auto simp: stored_file_def file_on_disk_def)
  have s: "s \<in> bm_used fm" "s \<notin> fh_owned hf st" and inv: "fh_inv hf fm st" using hf(1,3) by (auto simp: file_ok_def)
  have rng: "0 \<le> s" "s < 1024" using used_range [OF mm(3) s(1)] by auto
  have "0 \<notin> insert s (fh_owned hf st)" using hf(5) by blast
  then have s0: "s \<noteq> 0" "0 \<notin> fh_owned hf st" by auto
  have fetch: "FileHeader_FetchFrom st s = Inr hf"
    using rng hf(2,4) by (simp add: FileHeader_FetchFrom_def FileHeader_roundtrip)
  obtain h' fm1 where dl: "FileHeader_Deallocate hf fm st = Inr (h', fm1)" "map_shape fm1"
    "bm_used fm1 = bm_used fm - fh_owned hf st"
    using deallocate_ok [OF mm(3) inv] assms(6) by auto
  obtain fm2 where cl: "Bitmap_Clear fm1 s = Inr fm2" "map_shape fm2" "bm_used fm2 = bm_used fm1 - {s}"
    using free_one [OF dl(2) rng] by blast
  have used: "bm_used fm2 = bm_used fm - insert s (fh_owned hf st)" unfolding cl(3) dl(3) by auto
  have ok2: "map_ok fm2" using cl(2) mm(3) s0 unfolding map_ok_def map_shape_def used by auto
  obtain st1 d' where rm: "Directory_Remove (env_depth v) (env_bytes v) (env_dir v) st d path = Inr (True, st1)"
    "mounted fs hm fm h d' st1" "dir_map d' = (dir_map d)(name_key n := None)"
    "fh_owned h st1 = fh_owned h st" "\<forall>t. t \<notin> insert (fh_selfSector h) (fh_owned h st) \<longrightarrow> st1 t = st t"
    using mounted_remove [OF assms(1-3)] assms(4) by auto
  have own: "fh_owned hm st1 = fh_owned hm st"
    using map_header(2) mounted_map(2) [OF assms(1)] mounted_map(2) [OF rm(2)] by auto
  have "insert (fh_selfSector h) (fh_owned h st1) \<union> fh_owned hm st1 \<subseteq> bm_used fm2"
    unfolding own rm(4) used using ms(2,3) hf(5,6) by blast
  from mounted_write_map [OF rm(2) assms(2) ok2 this] obtain st2 where
    w: "PersistentBitmap_WriteBack (env_depth v) (env_bytes v) fm2 (fs_freeMapFile fs) st1 = Inr (fs_freeMapFile fs, st2)"
    "mounted fs hm fm2 h d' st2" by blast
  have find: "Directory_Find (env_dir v) st d path = Inr s" using mr(2) [OF assms(3)] assms(4) by simp
  have "FileSystem_Remove v fs st path = Inr (True, fs, st2)"
    using mr(1) find rng fetch mm(1) dl(1) cl(1) rm(1) w(1) by (simp add: FileSystem_Remove_def)
  moreover have "FileSystem_Open v fs st2 path = Inr None"
    using mounted_root [OF w(2) assms(2)] assms(3) rm(3) by (simp add: FileSystem_Open_def)
  ultimately show ?thesis using w(2) used rm(3) by (intro exI [of _ fm2] exI [of _ d'] exI [of _ st2]) blast
qed

section \<open>The pipe\<close>

lemma pipe_ok:
  assumes "file_on_disk h hm fm st" "fh_wf h" "fh_selfSector h = PipeSector" "st PipeSector = FileHeader_bytes h"
    and "0 < n" "n \<le> fh_capacity h" "n \<le> int (length data)" "0 < env_depth v"
  shows "\<exists>st'. FileSystem_WritePipe v st data n = Inr st' \<and> FileSystem_ReadPipe st' = Inr (n, take (nat n) data)"
proof -
  let ?f = "\<lparr>of_hdr = h, of_seekPosition = 0\<rparr>" and ?h = "h\<lparr>fh_limit := n\<rparr>"
  obtain dep where dep: "env_depth v = Suc dep" using assms(8) by (cases "env_depth v") auto
  have fo: "file_ok h fm st" using assms(1) by (simp add: file_on_disk_def)
  then have m: "map_ok fm" "PipeSector \<in> bm_used fm" "0 \<le> fh_limit h" "fh_shape h"
    using assms(3) by (auto simp: file_ok_def fh_inv_def fh_shape_def)
  have rng: "0 \<le> PipeSector" "PipeSector < NumSectors" by (simp_all add: PipeSector_def)
  have op: "OpenFile_new st PipeSector = Inr ?f"
    using assms(2,4) rng by (simp add: OpenFile_new_def FileHeader_FetchFrom_def FileHeader_roundtrip)
  obtain st' where w: "OpenFile_WriteAt (env_depth v) (env_bytes v) ?f st data n 0 = Inr (n, ?f\<lparr>of_hdr := ?h\<rparr>, st')"
    "file_ok ?h fm st'" "of_contents (?f\<lparr>of_hdr := ?h\<rparr>) st' = take (nat n) data" "st' PipeSector = FileHeader_bytes ?h"
    using WriteAt_file [of ?f fm st n 0 data dep "env_bytes v"] fo m(3) assms(3,5-7) unfolding dep by auto
  have "n \<le> 7168" using m(4) assms(6) by (simp add: fh_shape_def)
  then have wf: "fh_wf ?h" using assms(2,5) by (auto simp: fh_wf_def fh_ints_def int_ok_def)
  have op': "FileHeader_FetchFrom st' PipeSector = Inr ?h" "OpenFile_new st' PipeSector = Inr (?f\<lparr>of_hdr := ?h\<rparr>)"
    using wf w(4) rng by (simp_all add: OpenFile_new_def FileHeader_FetchFrom_def FileHeader_roundtrip)
  have "OpenFile_ReadAt (?f\<lparr>of_hdr := ?h\<rparr>) st' n 0 = Inr (n, take (nat n) data)"
    using ReadAt_ok [of fm "?f\<lparr>of_hdr := ?h\<rparr>" st' n 0] w(2,3) assms(5,7) by (simp add: file_ok_def min_absorb2)
  then show ?thesis
    using op w(1) op' by (simp add: FileSystem_WritePipe_def FileSystem_ReadPipe_def FileHeader_FileLimit_def)
qed

section \<open>Properties\<close>

text \<open>
  C37. Formatting any disk succeeds and leaves a mounted file system: the map marks exactly the
  fourteen sectors of the three headers and their data, the root directory is empty, the pipe
  file has its header in sector 2; and mounting the disk again, without formatting, gives the same
  open files and changes nothing.
\<close>

theorem format_then_mount:
  assumes "store_ok st" "env_ok v"
  shows "\<exists>fs st'. FileSystem_new v True st = Inr (fs, st') \<and> formatted v fs st' \<and> bm_used (low_map 14) = {0..<14}
    \<and> dir_map (Directory_new (env_dir v) DirectorySector NumDirEntries) = Map.empty
    \<and> FileSystem_new v False st' = Inr (fs, st')"
proof -
  obtain fs st' where f: "FileSystem_new v True st = Inr (fs, st')" "formatted v fs st'" using format_ok [OF assms] by blast
  have mt: "mounted fs (format_map_hdr v) (low_map 14) (format_root_hdr v) (Directory_new (env_dir v) DirectorySector NumDirEntries) st'"
    using f(2) by (simp add: formatted_def)
  have "OpenFile_new st' 0 = Inr (fs_freeMapFile fs)" "OpenFile_new st' DirectorySector = Inr (fs_directoryFile fs)"
    using map_header(5) [OF mounted_map(2) [OF mt]] mt dir_on_disk_file(1) [of "format_root_hdr v"]
    by (auto simp: mounted_def)
  then have "FileSystem_new v False st' = Inr (fs, st')"
    using mt by (simp add: FileSystem_new_def FreeMapSector_def mounted_def)
  then show ?thesis
    using f low_map_used [of 14] empty_directory(2) [OF assms(2), of DirectorySector]
    by (simp add: int_ok_def DirectorySector_def)
qed

definition example_env :: fs_env where
  "example_env = \<lparr>env_depth = 1, env_bytes = (\<lambda>_ _. 0), env_dir = root_dir, env_now = 0, env_modify = 0, env_success = False\<rparr>"

lemma example_env_ok: "env_ok example_env"
  by (auto simp: env_ok_def example_env_def dir_memory_def root_dir_def entry_wf_def int_ok_def)

theorem format_then_mount_witness:
  "\<exists>fs st'. FileSystem_new example_env True (\<lambda>s. replicate 128 7) = Inr (fs, st') \<and> formatted example_env fs st'"
  using format_then_mount [OF _ example_env_ok, of "\<lambda>s. replicate 128 7"] by (auto simp: store_ok_def)

text \<open>
  C38. Creating a file whose name is new in the root directory, while the directory has a free
  entry and the disk a free sector, returns TRUE; the file takes exactly one free sector, the
  other files keep their sectors' contents, and opening the name then finds the new, empty file.
\<close>

theorem create_then_open:
  assumes "mounted fs hm fm h d st" "env_ok v" "components path = [n]"
    and "dir_map d (name_key n) = None" "dir_count d < 10" "0 < bm_free fm"
  shows "\<exists>s fm' d' st'. FileSystem_Create v fs st path TYPE_FILE = Inr (True, fs, st')
    \<and> s \<notin> bm_used fm \<and> bm_used fm' = insert s (bm_used fm) \<and> mounted fs hm fm' h d' st'
    \<and> dir_map d' = (dir_map d)(name_key n \<mapsto> s)
    \<and> FileSystem_Open v fs st' path = Inr (Some \<lparr>of_hdr = FileHeader_new s TYPE_FILE (env_now v) (env_modify v), of_seekPosition = 0\<rparr>)
    \<and> stored_file (FileHeader_new s TYPE_FILE (env_now v) (env_modify v)) s h hm fm' st'
    \<and> (\<forall>t \<in> bm_used fm - insert (fh_selfSector h) (fh_owned h st) - insert 0 (fh_owned hm st). st' t = st t)"
  by (rule create_file_ok [OF assms])

lemma formatted_free:
  assumes "formatted v fs st" "env_ok v"
  shows "mounted fs (format_map_hdr v) (low_map 14) (format_root_hdr v) (Directory_new (env_dir v) DirectorySector NumDirEntries) st"
    "dir_map (Directory_new (env_dir v) DirectorySector NumDirEntries) k = None"
    "dir_count (Directory_new (env_dir v) DirectorySector NumDirEntries) < 10" "0 < bm_free (low_map 14)"
  using assms empty_directory [OF assms(2), of DirectorySector] low_map_used [of 14]
  by (simp_all add: formatted_def int_ok_def DirectorySector_def bm_free_def low_map_def)

lemma example_path: "components [47, 97] = [[97]]"
  by (simp add: components_def slash_def)

theorem create_then_open_witness:
  "\<exists>fs st st'. formatted example_env fs st \<and> FileSystem_Create example_env fs st [47, 97] TYPE_FILE = Inr (True, fs, st')
     \<and> (\<exists>f. FileSystem_Open example_env fs st' [47, 97] = Inr (Some f))"
proof -
  obtain fs st where f: "formatted example_env fs st"
    using format_ok [OF _ example_env_ok, of "\<lambda>s. replicate 128 7"] by (auto simp: store_ok_def)
  note ff = formatted_free [OF f example_env_ok]
  from create_then_open [OF ff(1) example_env_ok example_path ff(2-4)] f show ?thesis by blast
qed



text \<open>
  C40. What is written to the pipe is what is read from it: after \<open>WritePipe\<close> of \<open>n\<close> bytes, at
  most the capacity of the pipe file, \<open>ReadPipe\<close> returns \<open>n\<close> and exactly these bytes.
\<close>

theorem pipe_roundtrip:
  assumes "file_on_disk h hm fm st" "fh_wf h" "fh_selfSector h = PipeSector" "st PipeSector = FileHeader_bytes h"
    and "0 < n" "n \<le> fh_capacity h" "n \<le> int (length data)" "0 < env_depth v"
  shows "\<exists>st'. FileSystem_WritePipe v st data n = Inr st' \<and> FileSystem_ReadPipe st' = Inr (n, take (nat n) data)"
  by (rule pipe_ok [OF assms])

theorem pipe_roundtrip_witness:
  "\<exists>fs st st'. formatted example_env fs st \<and> FileSystem_WritePipe example_env st [104, 105] 2 = Inr st'
     \<and> FileSystem_ReadPipe st' = Inr (2, [104, 105])"
proof -
  obtain fs st where f: "formatted example_env fs st"
    using format_ok [OF _ example_env_ok, of "\<lambda>s. replicate 128 7"] by (auto simp: store_ok_def)
  then have d: "file_on_disk (format_pipe_hdr example_env) (format_map_hdr example_env) (low_map 14) st"
    "st PipeSector = FileHeader_bytes (format_pipe_hdr example_env)" by (simp_all add: formatted_def)
  have "fh_wf (format_pipe_hdr example_env)"
    using formatted_ok(3) [OF example_env_ok, of 2 TYPE_PIPE 6 14 "\<lambda>s. replicate 128 7" 0]
    by (simp add: format_pipe_hdr_def TYPE_PIPE_def int_ok_def store_ok_def)
  moreover have "fh_selfSector (format_pipe_hdr example_env) = PipeSector" "fh_capacity (format_pipe_hdr example_env) = 1024"
    by (simp_all add: format_pipe_hdr_def formatted_hdr_def PipeSector_def)
  ultimately show ?thesis
    using pipe_roundtrip [OF d(1) _ _ d(2), of 2 "[104, 105]" example_env] f by (auto simp: example_env_def)
qed

end
