(* ===== verification/Vm.thy ===== *)
theory Vm
  imports Mips_Laws Bitmap Unix_Files
begin

text \<open>
  Virtual memory and system calls: vm/SwappingLRU, vm/PhyMemManager, vm/VirtMemManager,
  vm/MemoryManager, userprog/noff.h, userprog/addrspace, userprog/ksyscall.h and
  userprog/exception.cc.

  The record \<open>vm\<close> extends the machine (theory Machine) with the kernel's state: the host's files,
  the two memory managers, the address space of the current thread, the clock and the fault
  counter. An \<open>AddrSpace\<close> holds a pointer to its page table in \<open>m_pageTables\<close>; page tables are
  allocated at increasing addresses \<open>vm_nextTable\<close>. The default build uses the stub file system
  (theory Unix_Files). Memory a constructor leaves uninitialised is an argument.

  The theorems about these definitions are in the theory that follows (Vm_Laws).
\<close>

section \<open>vm/SwappingLRU\<close>

record SwappingLRU =
  lastUsedTimeTable :: "int list"
  lru_tableSize :: int

definition SwappingLRU_new :: "int \<Rightarrow> SwappingLRU" where
  "SwappingLRU_new sz = \<lparr>lastUsedTimeTable = replicate (nat sz) (- 1), lru_tableSize = sz\<rparr>"

function lru_scan :: "SwappingLRU \<Rightarrow> int \<Rightarrow> int \<Rightarrow> int \<Rightarrow> int res" where
  "lru_scan s i least target =
     (if i < lru_tableSize s
      then bindE (arr_get (lastUsedTimeTable s) i) (\<lambda>t.
           if i = 0 \<or> t < least then lru_scan s (i + 1) t i else lru_scan s (i + 1) least target)
      else Inr target)"
  by pat_completeness auto
termination
  by (relation "measure (\<lambda>(s, i, least, target). nat (lru_tableSize s - i))") auto

declare lru_scan.simps [simp del]

text \<open>With an empty table the result would be an uninitialised variable.\<close>

definition SwappingLRU_findOneElementToSwap :: "SwappingLRU \<Rightarrow> int res" where
  "SwappingLRU_findOneElementToSwap s = (if lru_tableSize s \<le> 0 then Inl Bad_Access else lru_scan s 0 0 0)"

definition SwappingLRU_updateElementWeight :: "SwappingLRU \<Rightarrow> int \<Rightarrow> int \<Rightarrow> SwappingLRU res" where
  "SwappingLRU_updateElementWeight s now index =
     bindE (arr_set (lastUsedTimeTable s) index now) (\<lambda>t. Inr (s\<lparr>lastUsedTimeTable := t\<rparr>))"

section \<open>vm/PhyMemManager\<close>

record PhyMemPageEntry =
  mainThreadId :: int
  pm_virtualPage :: int

record PhyMemManager =
  phyPageNums :: int
  phyMemoryMap :: bitmap
  phyMemPageTable :: "PhyMemPageEntry list"
  swappingStrategy :: SwappingLRU

definition PhyMemManager_new :: "(nat \<Rightarrow> PhyMemPageEntry) \<Rightarrow> int \<Rightarrow> PhyMemManager res" where
  "PhyMemManager_new junk pageNums =
     bindE (Bitmap_new pageNums) (\<lambda>b. Inr
       \<lparr>phyPageNums = pageNums, phyMemoryMap = b, phyMemPageTable = map junk [0..<nat pageNums],
        swappingStrategy = SwappingLRU_new pageNums\<rparr>)"

definition PhyMemManager_findOneEmptyPage :: "PhyMemManager \<Rightarrow> (int \<times> PhyMemManager) res" where
  "PhyMemManager_findOneEmptyPage p =
     bindE (Bitmap_FindAndSet (phyMemoryMap p)) (\<lambda>(page, b). Inr (page, p\<lparr>phyMemoryMap := b\<rparr>))"

definition PhyMemManager_swapOnePage :: "PhyMemManager \<Rightarrow> int res" where
  "PhyMemManager_swapOnePage p = SwappingLRU_findOneElementToSwap (swappingStrategy p)"

definition PhyMemManager_clearOnePage :: "PhyMemManager \<Rightarrow> int \<Rightarrow> PhyMemManager res" where
  "PhyMemManager_clearOnePage p phyPage =
     bindE (Bitmap_Clear (phyMemoryMap p) phyPage) (\<lambda>b. Inr (p\<lparr>phyMemoryMap := b\<rparr>))"

definition PhyMemManager_isPageValid :: "PhyMemManager \<Rightarrow> int \<Rightarrow> bool res" where
  "PhyMemManager_isPageValid p phyPage = Bitmap_Test (phyMemoryMap p) phyPage"

definition PhyMemManager_getMainThread :: "PhyMemManager \<Rightarrow> int \<Rightarrow> int res" where
  "PhyMemManager_getMainThread p phyPage =
     bindE (Bitmap_Test (phyMemoryMap p) phyPage) (\<lambda>t.
     if t then bindE (arr_get (phyMemPageTable p) phyPage) (\<lambda>e. Inr (mainThreadId e)) else Inr (- 1))"

definition PhyMemManager_setMainThreadId :: "PhyMemManager \<Rightarrow> int \<Rightarrow> int \<Rightarrow> PhyMemManager res" where
  "PhyMemManager_setMainThreadId p phyPage thread =
     bindE (Bitmap_Test (phyMemoryMap p) phyPage) (\<lambda>t.
     if t then bindE (arr_get (phyMemPageTable p) phyPage) (\<lambda>e.
               bindE (arr_set (phyMemPageTable p) phyPage (e\<lparr>mainThreadId := thread\<rparr>)) (\<lambda>tab.
               Inr (p\<lparr>phyMemPageTable := tab\<rparr>)))
     else Inr p)"

definition PhyMemManager_getVirtualPage :: "PhyMemManager \<Rightarrow> int \<Rightarrow> int res" where
  "PhyMemManager_getVirtualPage p phyPage =
     bindE (Bitmap_Test (phyMemoryMap p) phyPage) (\<lambda>t.
     if t then bindE (arr_get (phyMemPageTable p) phyPage) (\<lambda>e. Inr (pm_virtualPage e)) else Inr (- 1))"

definition PhyMemManager_setVirtualPage :: "PhyMemManager \<Rightarrow> int \<Rightarrow> int \<Rightarrow> PhyMemManager res" where
  "PhyMemManager_setVirtualPage p phyPage vpage =
     bindE (Bitmap_Test (phyMemoryMap p) phyPage) (\<lambda>t.
     if t then bindE (arr_get (phyMemPageTable p) phyPage) (\<lambda>e.
               bindE (arr_set (phyMemPageTable p) phyPage (e\<lparr>pm_virtualPage := vpage\<rparr>)) (\<lambda>tab.
               Inr (p\<lparr>phyMemPageTable := tab\<rparr>)))
     else Inr p)"

definition PhyMemManager_updatePageWeight :: "PhyMemManager \<Rightarrow> int \<Rightarrow> int \<Rightarrow> PhyMemManager res" where
  "PhyMemManager_updatePageWeight p now phyPage =
     bindE (Bitmap_Test (phyMemoryMap p) phyPage) (\<lambda>t.
     if t then bindE (SwappingLRU_updateElementWeight (swappingStrategy p) now phyPage) (\<lambda>s.
               Inr (p\<lparr>swappingStrategy := s\<rparr>))
     else Inr p)"

section \<open>userprog/noff.h and the kernel state\<close>

record Segment =
  virtualAddr :: "32 word"
  inFileAddr :: "32 word"
  seg_size :: "32 word"

record NoffHeader =
  noffMagic :: "32 word"
  seg_code :: Segment
  initData :: Segment
  readonlyData :: Segment
  uninitData :: Segment

definition NOFFMAGIC :: "32 word" where "NOFFMAGIC = 0xbadfad"

definition sizeof_NoffHeader :: int where "sizeof_NoffHeader = 52"

definition UserStackSize :: "32 word" where "UserStackSize = 1024"
definition THREAD_COUNT_MAX :: int where "THREAD_COUNT_MAX = 128"
definition MAX_VIRT_PAGES :: int where "MAX_VIRT_PAGES = 4096"

record AddrSpace =
  as_pageTable :: nat
  as_threadId :: int
  as_numPages :: "32 word"
  as_exeFileId :: StubFile

record VirtMemManager =
  virtPageNums :: int
  virtMemTableSize :: int
  virtMemTable :: "AddrSpace option list"

record vm = machine +
  vm_unix :: unix
  vm_phy :: PhyMemManager
  vm_virt :: VirtMemManager
  vm_space :: "AddrSpace option"
  vm_totalTicks :: int
  vm_numPageFaults :: int
  vm_nextTable :: nat

section \<open>userprog/addrspace.cc\<close>

definition segment_of_bytes :: "byte list \<Rightarrow> Segment" where
  "segment_of_bytes bs = \<lparr>virtualAddr = word_of_bytes (take 4 bs), inFileAddr = word_of_bytes (take 4 (drop 4 bs)),
     seg_size = word_of_bytes (take 4 (drop 8 bs))\<rparr>"

definition NoffHeader_of_bytes :: "byte list \<Rightarrow> NoffHeader" where
  "NoffHeader_of_bytes bs =
     \<lparr>noffMagic = word_of_bytes (take 4 bs), seg_code = segment_of_bytes (drop 4 bs),
      initData = segment_of_bytes (drop 16 bs), readonlyData = segment_of_bytes (drop 28 bs),
      uninitData = segment_of_bytes (drop 40 bs)\<rparr>"

definition SwapSegment :: "Segment \<Rightarrow> Segment" where
  "SwapSegment s = \<lparr>virtualAddr = WordToHost (virtualAddr s), inFileAddr = WordToHost (inFileAddr s),
     seg_size = WordToHost (seg_size s)\<rparr>"

definition SwapHeader :: "NoffHeader \<Rightarrow> NoffHeader" where
  "SwapHeader h = \<lparr>noffMagic = WordToHost (noffMagic h), seg_code = SwapSegment (seg_code h),
     initData = SwapSegment (initData h), readonlyData = SwapSegment (readonlyData h),
     uninitData = SwapSegment (uninitData h)\<rparr>"

definition fresh_entry :: "nat \<Rightarrow> TranslationEntry" where
  "fresh_entry i = \<lparr>virtualPage = of_nat i, physicalPage = - 1, pt_valid = False, readOnly = False,
     pt_use = False, dirty = False\<rparr>"

text \<open>
  When the file cannot be opened the constructor returns early and every field of the object is
  what the memory contained before: \<open>junkSpace\<close>. \<open>junkHeader\<close> is the uninitialised \<open>noffH\<close>.
\<close>

definition AddrSpace_new :: "AddrSpace \<Rightarrow> byte list \<Rightarrow> 'z vm_scheme \<Rightarrow> int \<Rightarrow> byte list
    \<Rightarrow> (AddrSpace \<times> 'z vm_scheme) res" where
  "AddrSpace_new junkSpace junkHeader m thread fileName =
     bindE (StubFS_Open (vm_unix m) fileName) (\<lambda>(file, u1).
     case file of
       None \<Rightarrow> Inr (junkSpace, m\<lparr>vm_unix := u1\<rparr>)
     | Some executable \<Rightarrow>
         bindE (Stub_ReadAt executable u1 sizeof_NoffHeader 0) (\<lambda>(_, bs, u2).
         let h0 = NoffHeader_of_bytes (overwrite 0 bs junkHeader);
             h = (if noffMagic h0 \<noteq> NOFFMAGIC \<and> WordToHost (noffMagic h0) = NOFFMAGIC then SwapHeader h0 else h0) in
         bindE (assertE (noffMagic h = NOFFMAGIC)) (\<lambda>_.
         let sz = seg_size (seg_code h) + seg_size (readonlyData h) + seg_size (initData h)
                  + seg_size (uninitData h) + UserStackSize;
             numPages = sz div PageSize + (if sz mod PageSize > 0 then 1 else 0) in
         Inr (\<lparr>as_pageTable = vm_nextTable m, as_threadId = thread, as_numPages = numPages, as_exeFileId = executable\<rparr>,
              m\<lparr>vm_unix := u2, vm_nextTable := vm_nextTable m + 1,
                m_pageTables := (m_pageTables m)(vm_nextTable m := map fresh_entry [0..<unat numPages])\<rparr>))))"

definition AddrSpace_InitRegisters :: "AddrSpace \<Rightarrow> 'z vm_scheme \<Rightarrow> 'z vm_scheme res" where
  "AddrSpace_InitRegisters s m =
     bindE (fold (\<lambda>i r. bindE r (\<lambda>m. Machine_WriteRegister m (int i) 0)) [0..<NumTotalRegs] (Inr m)) (\<lambda>m1.
     bindE (Machine_WriteRegister m1 (int PCReg) 0) (\<lambda>m2.
     bindE (Machine_WriteRegister m2 (int NextPCReg) 4) (\<lambda>m3.
     Machine_WriteRegister m3 (int StackReg) (as_numPages s * PageSize - 16))))"

definition AddrSpace_RestoreState :: "AddrSpace \<Rightarrow> 'z vm_scheme \<Rightarrow> 'z vm_scheme" where
  "AddrSpace_RestoreState s m = m\<lparr>m_pageTable := Some (as_pageTable s), m_pageTableSize := as_numPages s\<rparr>"

text \<open>\<open>Execute\<close> up to the call of \<open>Machine::Run\<close>.\<close>

definition AddrSpace_Execute :: "AddrSpace \<Rightarrow> 'z vm_scheme \<Rightarrow> 'z vm_scheme res" where
  "AddrSpace_Execute s m =
     bindE (AddrSpace_InitRegisters s (m\<lparr>vm_space := Some s\<rparr>)) (\<lambda>m1. Inr (AddrSpace_RestoreState s m1))"

definition AddrSpace_Translate :: "AddrSpace \<Rightarrow> 'z vm_scheme \<Rightarrow> 32 word \<Rightarrow> bool
    \<Rightarrow> ((ExceptionType \<times> 32 word option) \<times> 'z vm_scheme) res" where
  "AddrSpace_Translate s m vaddr isReadWrite =
     (let vpn = vaddr div PageSize; offset = vaddr mod PageSize; pt = as_pageTable s in
      if vpn \<ge> NumVirtualPages then Inr ((AddressErrorException, None), m)
      else bindE (arr_get (m_pageTables m pt) (uint vpn)) (\<lambda>pte.
        if isReadWrite \<and> readOnly pte then Inr ((ReadOnlyException, None), m)
        else if sint (physicalPage pte) \<ge> sint NumPhysPages then Inr ((BusErrorException, None), m)
        else
          let pte1 = pte\<lparr>pt_use := True, dirty := dirty pte \<or> isReadWrite\<rparr>;
              paddr = physicalPage pte * PageSize + offset in
          bindE (assertE (paddr < PhysicalMemorySize)) (\<lambda>_.
          Inr ((NoException, Some paddr), m\<lparr>m_pageTables := (m_pageTables m)(pt := (m_pageTables m pt)[unat vpn := pte1])\<rparr>))))"

section \<open>vm/VirtMemManager\<close>

definition VirtMemManager_new :: "int \<Rightarrow> VirtMemManager res" where
  "VirtMemManager_new sz =
     bindE (assertE (sz > 0)) (\<lambda>_. Inr
       \<lparr>virtPageNums = 0, virtMemTableSize = sz, virtMemTable = replicate (nat sz) None\<rparr>)"

definition VirtMemManager_getAddrSpaceOfThread :: "VirtMemManager \<Rightarrow> int \<Rightarrow> (AddrSpace option) res" where
  "VirtMemManager_getAddrSpaceOfThread v thread =
     (if thread \<ge> 0 \<and> thread < virtMemTableSize v then arr_get (virtMemTable v) thread else Inr None)"

text \<open>Following a pointer to an address space.\<close>

definition deref :: "'a option \<Rightarrow> 'a res" where
  "deref p = (case p of None \<Rightarrow> Inl Bad_Access | Some x \<Rightarrow> Inr x)"

definition VirtMemManager_createAddrSpace :: "AddrSpace \<Rightarrow> byte list \<Rightarrow> 'z vm_scheme \<Rightarrow> int \<Rightarrow> byte list
    \<Rightarrow> (AddrSpace option \<times> 'z vm_scheme) res" where
  "VirtMemManager_createAddrSpace junkSpace junkHeader m thread filename =
     bindE (arr_get (virtMemTable (vm_virt m)) thread) (\<lambda>entry.
     case entry of
       Some s \<Rightarrow> Inr (Some s, m)
     | None \<Rightarrow>
         bindE (AddrSpace_new junkSpace junkHeader m thread filename) (\<lambda>(s, m1).
         let sz = sint (as_numPages s) in
         if virtPageNums (vm_virt m1) + sz > MAX_VIRT_PAGES
         then bindE (Close_fd (vm_unix m1) (sf_file (as_exeFileId s))) (\<lambda>u. Inr (None, m1\<lparr>vm_unix := u\<rparr>))
         else bindE (arr_set (virtMemTable (vm_virt m1)) thread (Some s)) (\<lambda>tab.
              Inr (Some s, m1\<lparr>vm_virt := (vm_virt m1)\<lparr>virtMemTable := tab,
                     virtPageNums := virtPageNums (vm_virt m1) + sz\<rparr>\<rparr>))))"

fun clear_pages :: "TranslationEntry list \<Rightarrow> PhyMemManager \<Rightarrow> PhyMemManager res" where
  "clear_pages [] p = Inr p"
| "clear_pages (e # es) p =
     (if pt_valid e then bindE (PhyMemManager_clearOnePage p (sint (physicalPage e))) (clear_pages es)
      else clear_pages es p)"

definition VirtMemManager_deleteAddrSpace :: "'z vm_scheme \<Rightarrow> int \<Rightarrow> 'z vm_scheme res" where
  "VirtMemManager_deleteAddrSpace m thread =
     (if thread \<ge> 0 \<and> thread < virtMemTableSize (vm_virt m)
      then bindE (arr_get (virtMemTable (vm_virt m)) thread) (\<lambda>entry.
        case entry of
          None \<Rightarrow> Inr m
        | Some s \<Rightarrow>
            bindE (if length (m_pageTables m (as_pageTable s)) < nat (sint (as_numPages s)) then Inl Bad_Access
                   else clear_pages (take (nat (sint (as_numPages s))) (m_pageTables m (as_pageTable s))) (vm_phy m)) (\<lambda>p.
            bindE (Close_fd (vm_unix m) (sf_file (as_exeFileId s))) (\<lambda>u.
            bindE (arr_set (virtMemTable (vm_virt m)) thread None) (\<lambda>tab.
            Inr (m\<lparr>vm_phy := p, vm_unix := u, vm_virt := (vm_virt m)\<lparr>virtMemTable := tab\<rparr>\<rparr>)))))
      else Inr m)"

section \<open>vm/MemoryManager\<close>

definition MemoryManager_new :: "(nat \<Rightarrow> PhyMemPageEntry) \<Rightarrow> (VirtMemManager \<times> PhyMemManager) res" where
  "MemoryManager_new junk =
     bindE (VirtMemManager_new THREAD_COUNT_MAX) (\<lambda>v.
     bindE (PhyMemManager_new junk (sint NumPhysPages)) (\<lambda>p. Inr (v, p)))"

definition set_pte :: "'z vm_scheme \<Rightarrow> nat \<Rightarrow> int \<Rightarrow> (TranslationEntry \<Rightarrow> TranslationEntry) \<Rightarrow> 'z vm_scheme res" where
  "set_pte m pt vpn f =
     bindE (arr_get (m_pageTables m pt) vpn) (\<lambda>e.
     bindE (arr_set (m_pageTables m pt) vpn (f e)) (\<lambda>t.
     Inr (m\<lparr>m_pageTables := (m_pageTables m)(pt := t)\<rparr>)))"

text \<open>
  The replacement of a page when no frame is free. The arguments of \<open>invalidEntry\<close> are in the
  order of the call: the virtual page where the thread is expected and the other way round.
\<close>

definition evict_page :: "'z vm_scheme \<Rightarrow> (int \<times> 'z vm_scheme) res" where
  "evict_page m =
     bindE (PhyMemManager_swapOnePage (vm_phy m)) (\<lambda>swapPhyPage.
     bindE (PhyMemManager_getMainThread (vm_phy m) swapPhyPage) (\<lambda>swapThreadId.
     bindE (PhyMemManager_getVirtualPage (vm_phy m) swapPhyPage) (\<lambda>swapVirtPage.
     bindE (VirtMemManager_getAddrSpaceOfThread (vm_virt m) swapThreadId) (\<lambda>sp.
     bindE (deref sp) (\<lambda>swapSpace.
     bindE (arr_get (m_pageTables m (as_pageTable swapSpace)) swapVirtPage) (\<lambda>e.
     bindE (if dirty e
            then bindE (Stub_WriteAt (as_exeFileId swapSpace) (vm_unix m)
                   (take 128 (drop (nat (swapPhyPage * 128)) (m_mainMemory m))) 128
                   (swapVirtPage * 128 + sizeof_NoffHeader)) (\<lambda>(_, u).
                 Inr (m\<lparr>vm_unix := u,
                        m_tlb := TLBManager_invalidEntry (m_tlb m) swapVirtPage (word_of_int swapThreadId)\<rparr>))
            else Inr m) (\<lambda>m1.
     bindE (set_pte m1 (as_pageTable swapSpace) swapVirtPage (\<lambda>e. e\<lparr>pt_valid := False\<rparr>)) (\<lambda>m2.
     Inr (swapPhyPage, m2)))))))))"

text \<open>The second half of the handler: the page is given the frame and read from the executable.\<close>

definition load_page :: "AddrSpace \<Rightarrow> int \<Rightarrow> int \<Rightarrow> 'z vm_scheme \<Rightarrow> 'z vm_scheme res" where
  "load_page space vpn page m1 =
     bindE (PhyMemManager_setVirtualPage (vm_phy m1) page vpn) (\<lambda>phy2.
     bindE (PhyMemManager_setMainThreadId phy2 page (m_pid m1)) (\<lambda>phy3.
     bindE (PhyMemManager_updatePageWeight phy3 (vm_totalTicks m1) page) (\<lambda>phy4.
     bindE (set_pte (m1\<lparr>vm_phy := phy4\<rparr>) (as_pageTable space) vpn
              (\<lambda>e. e\<lparr>pt_valid := True, physicalPage := word_of_int page\<rparr>)) (\<lambda>m2.
     bindE (deref (vm_space m2)) (\<lambda>cur.
     bindE (Stub_ReadAt (as_exeFileId cur) (vm_unix m2) 128 (vpn * 128 + sizeof_NoffHeader)) (\<lambda>(_, bs, u).
     if 0 \<le> page \<and> nat (page * 128) + 128 \<le> length (m_mainMemory m2)
     then Inr (m2\<lparr>vm_unix := u, m_mainMemory := overwrite (nat (page * 128)) bs (m_mainMemory m2)\<rparr>)
     else Inl Bad_Access))))))"

definition MemoryManager_pageFaultHandler :: "int \<Rightarrow> 'z vm_scheme \<Rightarrow> 'z vm_scheme res" where
  "MemoryManager_pageFaultHandler vpn m =
     bindE (VirtMemManager_getAddrSpaceOfThread (vm_virt m) (m_pid m)) (\<lambda>sp.
     bindE (deref sp) (\<lambda>space.
     bindE (arr_get (m_pageTables m (as_pageTable space)) vpn) (\<lambda>entry.
     if pt_valid entry then Inr m
     else
       bindE (PhyMemManager_findOneEmptyPage (vm_phy m)) (\<lambda>(page0, phy0).
       bindE (if page0 = - 1 then evict_page (m\<lparr>vm_phy := phy0\<rparr>) else Inr (page0, m\<lparr>vm_phy := phy0\<rparr>)) (\<lambda>(page, m1).
       load_page space vpn page m1)))))"

definition MemoryManager_getAddrSpaceOfThread :: "'z vm_scheme \<Rightarrow> int \<Rightarrow> (AddrSpace option) res" where
  "MemoryManager_getAddrSpaceOfThread m thread = VirtMemManager_getAddrSpaceOfThread (vm_virt m) thread"

definition MemoryManager_createAddrSpace :: "AddrSpace \<Rightarrow> byte list \<Rightarrow> 'z vm_scheme \<Rightarrow> int \<Rightarrow> byte list
    \<Rightarrow> (AddrSpace option \<times> 'z vm_scheme) res" where
  "MemoryManager_createAddrSpace junkSpace junkHeader m thread filename =
     VirtMemManager_createAddrSpace junkSpace junkHeader m thread filename"

definition MemoryManager_deleteAddrSpace :: "'z vm_scheme \<Rightarrow> int \<Rightarrow> 'z vm_scheme res" where
  "MemoryManager_deleteAddrSpace m thread = VirtMemManager_deleteAddrSpace m thread"

section \<open>userprog/exception.cc and userprog/ksyscall.h\<close>

definition SC_Halt :: "32 word" where "SC_Halt = 0"
definition SC_Add :: "32 word" where "SC_Add = 42"

definition SysHalt :: "'z vm_scheme \<Rightarrow> 'z vm_scheme res" where
  "SysHalt m = Inl Machine_Halt"

definition SysAdd :: "32 word \<Rightarrow> 32 word \<Rightarrow> 32 word" where
  "SysAdd op1 op2 = op1 + op2"

definition PageFaultHandler :: "'z vm_scheme \<Rightarrow> 'z vm_scheme res" where
  "PageFaultHandler m =
     bindE (Machine_ReadRegister m (int BadVAddrReg)) (\<lambda>addr.
     bindE (MemoryManager_pageFaultHandler (uint (addr div PageSize)) m) (\<lambda>m1.
     Inr (m1\<lparr>vm_numPageFaults := vm_numPageFaults m1 + 1\<rparr>)))"

definition ExceptionHandler :: "ExceptionType \<Rightarrow> 'z vm_scheme \<Rightarrow> 'z vm_scheme res" where
  "ExceptionHandler which m =
     bindE (Machine_ReadRegister m 2) (\<lambda>type.
     case which of
       SyscallException \<Rightarrow>
         if type = SC_Halt then SysHalt m
         else if type = SC_Add then
           bindE (Machine_ReadRegister m 4) (\<lambda>op1.
           bindE (Machine_ReadRegister m 5) (\<lambda>op2.
           bindE (Machine_WriteRegister m 2 (SysAdd op1 op2)) (\<lambda>m1.
           bindE (Machine_ReadRegister m1 (int PCReg)) (\<lambda>pc.
           bindE (Machine_WriteRegister m1 (int PrevPCReg) pc) (\<lambda>m2.
           bindE (Machine_ReadRegister m2 (int PCReg)) (\<lambda>pc2.
           bindE (Machine_WriteRegister m2 (int PCReg) (pc2 + 4)) (\<lambda>m3.
           bindE (Machine_ReadRegister m3 (int PCReg)) (\<lambda>pc3.
           Machine_WriteRegister m3 (int NextPCReg) (pc3 + 4)))))))))
         else Inl Assert_Failed
     | PageFaultException \<Rightarrow> PageFaultHandler m
     | _ \<Rightarrow> Inl Assert_Failed)"

end
