(* ===== verification/Vm_Laws.thy ===== *)
theory Vm_Laws
  imports Vm
begin

text \<open>
  Theorems about theory Vm. The replacement strategy is an interface in the source (the abstract
  class of vm/SwappingStrategy.h) and a locale here, interpreted on \<open>SwappingLRU\<close>. The kernel's
  exception handler satisfies the contract that the interpreter of theory Mips_Laws asks for. The
  invariant \<open>vm_ok\<close> says that the marked frames and the valid page-table entries of all threads
  correspond one to one, through the inverted table of the physical memory manager; page faults,
  creation and deletion of address spaces keep it.
\<close>

section \<open>The replacement strategy\<close>

locale swapping_strategy =
  fixes inv :: "'s \<Rightarrow> bool"
    and size :: "'s \<Rightarrow> int"
    and weight :: "'s \<Rightarrow> int \<Rightarrow> int"
    and findOneElementToSwap :: "'s \<Rightarrow> int res"
    and updateElementWeight :: "'s \<Rightarrow> int \<Rightarrow> int \<Rightarrow> 's res"
  assumes find_least: "inv s \<Longrightarrow> \<exists>i. findOneElementToSwap s = Inr i \<and> 0 \<le> i \<and> i < size s
      \<and> (\<forall>j. 0 \<le> j \<and> j < size s \<longrightarrow> weight s i \<le> weight s j)
      \<and> (\<forall>j. 0 \<le> j \<and> j < i \<longrightarrow> weight s i < weight s j)"
    and update_ok: "inv s \<Longrightarrow> 0 \<le> i \<Longrightarrow> i < size s \<Longrightarrow> \<exists>s'. updateElementWeight s now i = Inr s'
      \<and> inv s' \<and> size s' = size s
      \<and> (\<forall>j. 0 \<le> j \<and> j < size s \<longrightarrow> weight s' j = (if j = i then now else weight s j))"
begin

lemma fresh_element_stays:
  assumes "inv s" "0 \<le> i" "i < size s" "updateElementWeight s now i = Inr s'"
    and "0 \<le> k" "k < size s" "k \<noteq> i" "weight s k < now"
  shows "\<exists>v. findOneElementToSwap s' = Inr v \<and> v \<noteq> i \<and> 0 \<le> v \<and> v < size s \<and> weight s v \<le> weight s k"
proof -
  have s': "inv s'" "size s' = size s" "\<And>j. 0 \<le> j \<and> j < size s \<Longrightarrow> weight s' j = (if j = i then now else weight s j)"
    using update_ok [OF assms(1-3), of now] assms(4) by auto
  obtain v where v: "findOneElementToSwap s' = Inr v" "0 \<le> v" "v < size s"
    "\<And>j. 0 \<le> j \<and> j < size s \<Longrightarrow> weight s' v \<le> weight s' j"
    using find_least [OF s'(1)] s'(2) by auto
  have "weight s' v \<le> weight s k" using v(4) [of k] s'(3) [of k] assms(5-7) by simp
  then have "v \<noteq> i \<and> weight s v \<le> weight s k"
    using s'(3) [of v] v(2,3) assms(8) by (auto split: if_splits)
  with v show ?thesis by blast
qed

end

definition lru_ok :: "SwappingLRU \<Rightarrow> bool" where
  "lru_ok s \<longleftrightarrow> 0 < lru_tableSize s \<and> int (length (lastUsedTimeTable s)) = lru_tableSize s"

definition lru_time :: "SwappingLRU \<Rightarrow> int \<Rightarrow> int" where
  "lru_time s i = lastUsedTimeTable s ! nat i"

lemma lru_scan_least:
  assumes "lru_ok s" "0 < i" "i \<le> lru_tableSize s" "0 \<le> target" "target < i" "least = lru_time s target"
    and "\<forall>j. 0 \<le> j \<and> j < i \<longrightarrow> least \<le> lru_time s j" "\<forall>j. 0 \<le> j \<and> j < target \<longrightarrow> least < lru_time s j"
  shows "\<exists>k. lru_scan s i least target = Inr k \<and> 0 \<le> k \<and> k < lru_tableSize s
    \<and> (\<forall>j. 0 \<le> j \<and> j < lru_tableSize s \<longrightarrow> lru_time s k \<le> lru_time s j)
    \<and> (\<forall>j. 0 \<le> j \<and> j < k \<longrightarrow> lru_time s k < lru_time s j)"
  using assms
proof (induction "nat (lru_tableSize s - i)" arbitrary: i least target)
  case 0
  then have "i = lru_tableSize s" by simp
  with 0 show ?case by (subst lru_scan.simps) auto
next
  case (Suc x)
  then have i: "i < lru_tableSize s" by simp
  have x: "x = nat (lru_tableSize s - (i + 1))" using Suc.hyps(2) by simp
  have get: "arr_get (lastUsedTimeTable s) i = Inr (lru_time s i)"
    using Suc.prems i by (simp add: lru_ok_def lru_time_def)
  have split: "j < i + 1 \<longleftrightarrow> j < i \<or> j = i" for j by auto
  show ?case
  proof (cases "lru_time s i < least")
    case True
    have "lru_scan s i least target = lru_scan s (i + 1) (lru_time s i) i"
      using True i get by (subst lru_scan.simps) simp
    moreover have "lru_time s i < lru_time s j" if "0 \<le> j" "j < i" for j
      using True Suc.prems(7) that by (meson less_le_trans)
    moreover from this have "\<forall>j. 0 \<le> j \<and> j < i + 1 \<longrightarrow> lru_time s i \<le> lru_time s j"
      by (auto simp only: split) (meson less_imp_le)
    ultimately show ?thesis
      using Suc.hyps(1) [OF x, of i "lru_time s i"] Suc.prems i by simp
  next
    case False
    have "lru_scan s i least target = lru_scan s (i + 1) least target"
      using False i get Suc.prems(2) by (subst lru_scan.simps) simp
    moreover have "\<forall>j. 0 \<le> j \<and> j < i + 1 \<longrightarrow> least \<le> lru_time s j"
      using False Suc.prems(7) by (auto simp only: split)
    ultimately show ?thesis
      using Suc.hyps(1) [OF x, of target least] Suc.prems i by simp
  qed
qed

interpretation lru: swapping_strategy lru_ok lru_tableSize lru_time SwappingLRU_findOneElementToSwap
  SwappingLRU_updateElementWeight
proof (unfold_locales, goal_cases)
  case (1 s)
  then have s: "0 < lru_tableSize s" by (simp add: lru_ok_def)
  have get: "arr_get (lastUsedTimeTable s) 0 = Inr (lru_time s 0)"
    using 1 s by (simp add: lru_ok_def lru_time_def)
  have "SwappingLRU_findOneElementToSwap s = lru_scan s 1 (lru_time s 0) 0"
    using s get by (simp add: SwappingLRU_findOneElementToSwap_def lru_scan.simps [of s 0])
  moreover have "0 \<le> j \<and> j < 1 \<longleftrightarrow> j = (0 :: int)" for j by auto
  ultimately show ?case using lru_scan_least [OF 1, of 1 0 "lru_time s 0"] s by simp
next
  case (2 s i now)
  then show ?case
    by (auto simp: SwappingLRU_updateElementWeight_def lru_ok_def lru_time_def nth_list_update nat_eq_iff)
qed

lemma SwappingLRU_new_ok: "0 < n \<Longrightarrow> lru_ok (SwappingLRU_new n) \<and> lru_tableSize (SwappingLRU_new n) = n"
  by (simp add: lru_ok_def SwappingLRU_new_def)

section \<open>The exception handler and the processor state\<close>

lemma vm_update_cpu [simp]:
  "cpu_ok (m\<lparr>vm_unix := a\<rparr>) = cpu_ok m" "cpu_ok (m\<lparr>vm_phy := b\<rparr>) = cpu_ok m"
  "cpu_ok (m\<lparr>vm_numPageFaults := c\<rparr>) = cpu_ok m" "cpu_ok (m\<lparr>m_pageTables := d\<rparr>) = cpu_ok m"
  "cpu_ok (m\<lparr>m_tlb := e\<rparr>) = cpu_ok m"
  by (simp_all add: cpu_ok_def cpu_shape_def rg_def)

lemma WriteRegister_cpu_ok:
  assumes "cpu_ok m" "Machine_WriteRegister m num v = Inr m'" "num \<notin> {0, int LoadReg}"
  shows "cpu_ok m'"
  using assms
  by (auto simp: Machine_WriteRegister_def cpu_ok_def cpu_shape_def rg_def bindE_eq_Inr assertE_eq_Inr
      nth_list_update Let_def split: if_splits)

lemma set_pte_cpu_ok: "cpu_ok m \<Longrightarrow> set_pte m pt vpn f = Inr m' \<Longrightarrow> cpu_ok m'"
  by (auto simp: set_pte_def bindE_eq_Inr)

lemma evict_page_cpu_ok:
  assumes "cpu_ok m" "evict_page m = Inr (page, m')"
  shows "cpu_ok m'"
  using assms
  by (auto simp: evict_page_def bindE_eq_Inr split: if_splits prod.splits dest!: set_pte_cpu_ok [rotated])

lemma Stub_ReadAt_length: "Stub_ReadAt f u n p = Inr (k, bs, u') \<Longrightarrow> 0 \<le> n \<Longrightarrow> length bs \<le> nat n"
  by (auto simp: Stub_ReadAt_def ReadPartial_def ux_read_def bindE_eq_Inr Let_def split: option.splits)

lemma load_page_cpu_ok:
  assumes "cpu_ok m" "load_page space vpn page m = Inr m'"
  shows "cpu_ok m'"
proof -
  obtain phy m2 f w p k bs u where m2: "set_pte (m\<lparr>vm_phy := phy\<rparr>) (as_pageTable space) vpn
      (\<lambda>e. e\<lparr>pt_valid := True, physicalPage := word_of_int page\<rparr>) = Inr m2"
    and r: "Stub_ReadAt f w 128 p = Inr (k, bs, u)" "nat (page * 128) + 128 \<le> length (m_mainMemory m2)"
      "m' = m2\<lparr>vm_unix := u, m_mainMemory := overwrite (nat (page * 128)) bs (m_mainMemory m2)\<rparr>"
    using assms(2) unfolding load_page_def by (fastforce simp: bindE_eq_Inr split: if_splits)
  have "cpu_ok m2" using set_pte_cpu_ok [OF _ m2] assms(1) by simp
  with r Stub_ReadAt_length [OF r(1)] show ?thesis by simp
qed

lemma pageFaultHandler_cpu_ok:
  assumes "cpu_ok m" "MemoryManager_pageFaultHandler vpn m = Inr m'"
  shows "cpu_ok m'"
  using assms
  by (auto simp: MemoryManager_pageFaultHandler_def bindE_eq_Inr split: if_splits
      dest!: load_page_cpu_ok [rotated] evict_page_cpu_ok [rotated])

lemma ExceptionHandler_cpu_ok:
  assumes "cpu_ok m" "ExceptionHandler e m = Inr m'"
  shows "cpu_ok m'"
proof (cases "e = PageFaultException")
  case True
  then show ?thesis using assms
    by (auto simp: ExceptionHandler_def PageFaultHandler_def bindE_eq_Inr dest: pageFaultHandler_cpu_ok [rotated])
next
  case False
  then obtain v m1 w m2 w3 m3 w4 where w: "Machine_WriteRegister m 2 v = Inr m1" "Machine_WriteRegister m1 (int PrevPCReg) w = Inr m2"
    "Machine_WriteRegister m2 (int PCReg) w3 = Inr m3" "Machine_WriteRegister m3 (int NextPCReg) w4 = Inr m'"
    using assms(2) by (cases e) (auto simp: ExceptionHandler_def SysHalt_def bindE_eq_Inr split: if_splits)
  from WriteRegister_cpu_ok [OF assms(1) w(1)] have "cpu_ok m1" by simp
  from WriteRegister_cpu_ok [OF this w(2)] have "cpu_ok m2" by simp
  from WriteRegister_cpu_ok [OF this w(3)] have "cpu_ok m3" by simp
  from WriteRegister_cpu_ok [OF this w(4)] show ?thesis by simp
qed

interpretation kernel: handler_contract ExceptionHandler
  by unfold_locales (rule ExceptionHandler_cpu_ok)

section \<open>Frames and page tables\<close>

definition space_of :: "'z vm_scheme \<Rightarrow> int \<Rightarrow> AddrSpace option" where
  "space_of m t = (if 0 \<le> t \<and> t < THREAD_COUNT_MAX then virtMemTable (vm_virt m) ! nat t else None)"

definition table_of :: "'z vm_scheme \<Rightarrow> AddrSpace \<Rightarrow> TranslationEntry list" where
  "table_of m s = m_pageTables m (as_pageTable s)"

text \<open>Page \<open>v\<close> of thread \<open>t\<close> is in frame \<open>f\<close>.\<close>

definition in_frame :: "'z vm_scheme \<Rightarrow> int \<Rightarrow> int \<Rightarrow> int \<Rightarrow> bool" where
  "in_frame m t v f \<longleftrightarrow> (\<exists>s. space_of m t = Some s \<and> 0 \<le> v \<and> v < int (length (table_of m s))
     \<and> pt_valid (table_of m s ! nat v) \<and> sint (physicalPage (table_of m s ! nat v)) = f)"

definition unix_ok :: "unix \<Rightarrow> bool" where
  "unix_ok u \<longleftrightarrow> 0 \<le> ux_nextFd u \<and> (\<forall>fd. ux_fds u fd \<noteq> None \<longrightarrow> fd < ux_nextFd u)"

definition phy_ok :: "PhyMemManager \<Rightarrow> bool" where
  "phy_ok p \<longleftrightarrow> bm_inv (phyMemoryMap p) \<and> bm_numBits (phyMemoryMap p) = 128 \<and> length (phyMemPageTable p) = 128
     \<and> lru_ok (swappingStrategy p) \<and> lru_tableSize (swappingStrategy p) = 128"

definition space_ok :: "'z vm_scheme \<Rightarrow> AddrSpace \<Rightarrow> bool" where
  "space_ok m s \<longleftrightarrow> as_pageTable s < vm_nextTable m \<and> int (length (table_of m s)) = sint (as_numPages s)
     \<and> ux_fds (vm_unix m) (sf_file (as_exeFileId s)) \<noteq> None"

definition vm_shape :: "'z vm_scheme \<Rightarrow> bool" where
  "vm_shape m \<longleftrightarrow> phy_ok (vm_phy m) \<and> unix_ok (vm_unix m)
     \<and> virtMemTableSize (vm_virt m) = THREAD_COUNT_MAX \<and> length (virtMemTable (vm_virt m)) = nat THREAD_COUNT_MAX
     \<and> length (m_mainMemory m) = 16384
     \<and> (\<forall>t s. space_of m t = Some s \<longrightarrow> space_ok m s)
     \<and> (\<forall>t t' s s'. space_of m t = Some s \<and> space_of m t' = Some s' \<and> t \<noteq> t' \<longrightarrow>
          as_pageTable s \<noteq> as_pageTable s' \<and> sf_file (as_exeFileId s) \<noteq> sf_file (as_exeFileId s'))"

text \<open>\<open>F\<close> is the set of frames that are reserved but hold no page yet.\<close>

definition vm_inv :: "int set \<Rightarrow> 'z vm_scheme \<Rightarrow> bool" where
  "vm_inv F m \<longleftrightarrow> vm_shape m
     \<and> (\<forall>f. f \<in> bm_used (phyMemoryMap (vm_phy m)) \<longleftrightarrow> f \<in> F \<or> (\<exists>t v. in_frame m t v f))
     \<and> (\<forall>t v f. in_frame m t v f \<longrightarrow> f \<notin> F \<and> phyMemPageTable (vm_phy m) ! nat f = \<lparr>mainThreadId = t, pm_virtualPage = v\<rparr>)"

abbreviation vm_ok :: "'z vm_scheme \<Rightarrow> bool" where
  "vm_ok \<equiv> vm_inv {}"

lemma vm_invD:
  assumes "vm_inv F m"
  shows "vm_shape m" "f \<in> bm_used (phyMemoryMap (vm_phy m)) \<longleftrightarrow> f \<in> F \<or> (\<exists>t v. in_frame m t v f)"
    "in_frame m t v f \<Longrightarrow> f \<notin> F"
    "in_frame m t v f \<Longrightarrow> phyMemPageTable (vm_phy m) ! nat f = \<lparr>mainThreadId = t, pm_virtualPage = v\<rparr>"
  using assms by (auto simp: vm_inv_def)

lemma in_frame_range:
  assumes "vm_inv F m" "in_frame m t v f"
  shows "0 \<le> f" "f < 128"
  using assms by (auto simp: vm_inv_def vm_shape_def phy_ok_def bm_used_def dest!: spec [of _ f])

lemma in_frame_fun: "in_frame m t v f \<Longrightarrow> in_frame m t v f' \<Longrightarrow> f = f'"
  by (auto simp: in_frame_def)

lemma in_frame_unique:
  assumes "vm_inv F m" "in_frame m t v f" "in_frame m t' v' f"
  shows "t = t' \<and> v = v'"
  using vm_invD(4) [OF assms(1,2)] vm_invD(4) [OF assms(1,3)] by simp

definition put_pte :: "'z vm_scheme \<Rightarrow> AddrSpace \<Rightarrow> int \<Rightarrow> TranslationEntry \<Rightarrow> 'z vm_scheme" where
  "put_pte m s v e = m\<lparr>m_pageTables := (m_pageTables m)(as_pageTable s := (table_of m s)[nat v := e])\<rparr>"

lemma put_pte_frame [simp]:
  "vm_phy (put_pte m s v e) = vm_phy m" "vm_virt (put_pte m s v e) = vm_virt m" "vm_unix (put_pte m s v e) = vm_unix m"
  "vm_space (put_pte m s v e) = vm_space m" "m_mainMemory (put_pte m s v e) = m_mainMemory m"
  "vm_nextTable (put_pte m s v e) = vm_nextTable m" "m_pid (put_pte m s v e) = m_pid m"
  "space_of (put_pte m s v e) = space_of m"
  by (simp_all add: put_pte_def space_of_def fun_eq_iff)

lemma table_of_put_pte:
  "table_of (put_pte m s v e) s' = (if as_pageTable s' = as_pageTable s then (table_of m s)[nat v := e] else table_of m s')"
  by (simp add: table_of_def put_pte_def)

lemma length_table_put_pte [simp]: "length (table_of (put_pte m s v e) s') = length (table_of m s')"
  by (simp add: table_of_def put_pte_def)

lemma vm_shape_put_pte [simp]: "vm_shape (put_pte m s v e) = vm_shape m"
  by (simp add: vm_shape_def space_ok_def)

lemma in_frame_put_pte:
  assumes "vm_shape m" "space_of m t0 = Some s0" "0 \<le> v0" "v0 < int (length (table_of m s0))"
  shows "in_frame (put_pte m s0 v0 e) t v f =
    (if t = t0 \<and> v = v0 then pt_valid e \<and> sint (physicalPage e) = f else in_frame m t v f)"
proof (cases "t = t0")
  case True
  with assms show ?thesis
    by (auto simp: in_frame_def table_of_put_pte nth_list_update nat_eq_iff)
next
  case False
  then have "as_pageTable s \<noteq> as_pageTable s0" if "space_of m t = Some s" for s
    using assms(1,2) that unfolding vm_shape_def by blast
  with False show ?thesis by (auto simp: in_frame_def table_of_put_pte)
qed

lemma set_pte_put:
  assumes "vm_shape m" "space_of m t0 = Some s0" "0 \<le> v0" "v0 < int (length (table_of m s0))"
  shows "set_pte m (as_pageTable s0) v0 g = Inr (put_pte m s0 v0 (g (table_of m s0 ! nat v0)))"
  using assms by (simp add: set_pte_def table_of_def put_pte_def)

lemma view_cong:
  assumes "vm_virt m' = vm_virt m" "m_pageTables m' = m_pageTables m"
  shows "space_of m' = space_of m" "table_of m' = table_of m" "in_frame m' = in_frame m"
proof -
  show s: "space_of m' = space_of m" "table_of m' = table_of m"
    using assms by (simp_all add: space_of_def table_of_def fun_eq_iff)
  show "in_frame m' = in_frame m" by (simp add: fun_eq_iff in_frame_def s)
qed

lemma vm_shape_cong:
  assumes "vm_shape m" "vm_virt m' = vm_virt m" "m_pageTables m' = m_pageTables m" "vm_nextTable m' = vm_nextTable m"
    and "phy_ok (vm_phy m')" "unix_ok (vm_unix m')" "dom (ux_fds (vm_unix m')) = dom (ux_fds (vm_unix m))"
    and "length (m_mainMemory m') = length (m_mainMemory m)"
  shows "vm_shape m'"
proof -
  have "ux_fds (vm_unix m') fd \<noteq> None \<longleftrightarrow> ux_fds (vm_unix m) fd \<noteq> None" for fd
    using assms(7) by (metis domIff)
  with assms view_cong [OF assms(2,3)] show ?thesis by (simp add: vm_shape_def space_ok_def)
qed

lemma fd_contents_dom: "fd_contents u fd \<noteq> None \<longleftrightarrow> ux_fds u fd \<noteq> None"
  by (simp add: fd_contents_def)

lemma Stub_ReadAt_host:
  assumes "Stub_ReadAt f u n p = Inr (k, bs, u')"
  shows "ux_nextFd u' = ux_nextFd u" "dom (ux_fds u') = dom (ux_fds u)"
  using assms by (auto simp: Stub_ReadAt_def Lseek_def ux_lseek_def ReadPartial_def ux_read_def bindE_eq_Inr
      Let_def assertE_eq_Inr split: option.splits if_splits)

lemma Stub_WriteAt_host:
  assumes "Stub_WriteAt f u d n p = Inr (k, u')"
  shows "ux_nextFd u' = ux_nextFd u" "dom (ux_fds u') = dom (ux_fds u)"
  using assms by (auto simp: Stub_WriteAt_def Lseek_def ux_lseek_def WriteFile_def ux_write_def bindE_eq_Inr
      Let_def assertE_eq_Inr split: option.splits if_splits)

lemma unix_ok_cong: "ux_nextFd u' = ux_nextFd u \<Longrightarrow> dom (ux_fds u') = dom (ux_fds u) \<Longrightarrow> unix_ok u \<Longrightarrow> unix_ok u'"
  unfolding unix_ok_def by (metis domIff)

subsection \<open>Loading a page\<close>

lemma page_entry_eta: "e\<lparr>pm_virtualPage := v, mainThreadId := t\<rparr> = \<lparr>mainThreadId = t, pm_virtualPage = v\<rparr>"
  by (cases e) simp

lemma claim_frame:
  assumes "phy_ok p" "f \<in> bm_used (phyMemoryMap p)"
  shows "\<exists>p1 p2 p3. PhyMemManager_setVirtualPage p f v = Inr p1 \<and> PhyMemManager_setMainThreadId p1 f t = Inr p2
    \<and> PhyMemManager_updatePageWeight p2 now f = Inr p3 \<and> phy_ok p3 \<and> phyMemoryMap p3 = phyMemoryMap p
    \<and> phyMemPageTable p3 = (phyMemPageTable p)[nat f := \<lparr>mainThreadId = t, pm_virtualPage = v\<rparr>]"
proof -
  have f: "0 \<le> f" "f < 128" and p: "bm_inv (phyMemoryMap p)" "bm_numBits (phyMemoryMap p) = 128"
    "length (phyMemPageTable p) = 128" "lru_ok (swappingStrategy p)" "lru_tableSize (swappingStrategy p) = 128"
    using assms by (auto simp: phy_ok_def bm_used_def)
  have test: "Bitmap_Test (phyMemoryMap p) f = Inr True" using Test_ok [of "phyMemoryMap p" f] f p assms(2) by simp
  obtain s' where s': "SwappingLRU_updateElementWeight (swappingStrategy p) now f = Inr s'" "lru_ok s'" "lru_tableSize s' = 128"
    using lru.update_ok [OF p(4), of f now] f p(5) by auto
  show ?thesis
    using p f test s'
    by (simp add: PhyMemManager_setVirtualPage_def PhyMemManager_setMainThreadId_def
        PhyMemManager_updatePageWeight_def phy_ok_def nat_less_iff page_entry_eta)
qed

lemma load_page_ok:
  assumes "vm_inv {f} m" "space_of m (m_pid m) = Some s" "vm_space m = Some s"
    and "0 \<le> v" "v < int (length (table_of m s))" "\<not> pt_valid (table_of m s ! nat v)"
  shows "\<exists>m' c. load_page s v f m = Inr m' \<and> vm_ok m'
    \<and> (\<forall>t' v' f'. in_frame m' t' v' f' \<longleftrightarrow> in_frame m t' v' f' \<or> (t' = m_pid m \<and> v' = v \<and> f' = f))
    \<and> fd_contents (vm_unix m') = fd_contents (vm_unix m) \<and> fd_contents (vm_unix m') (sf_file (as_exeFileId s)) = Some c
    \<and> m_mainMemory m' = overwrite (nat (f * 128)) (take 128 (drop (nat (v * 128 + 52)) c)) (m_mainMemory m)"
proof -
  note shape = vm_invD(1) [OF assms(1)]
  have f: "f \<in> bm_used (phyMemoryMap (vm_phy m))" using vm_invD(2) [OF assms(1), of f] by simp
  have phy: "phy_ok (vm_phy m)" using shape by (simp add: vm_shape_def)
  have fr: "0 \<le> f" "f < 128" using f phy by (auto simp: bm_used_def phy_ok_def)
  obtain p1 p2 p3 where p: "PhyMemManager_setVirtualPage (vm_phy m) f v = Inr p1"
      "PhyMemManager_setMainThreadId p1 f (m_pid m) = Inr p2" "PhyMemManager_updatePageWeight p2 (vm_totalTicks m) f = Inr p3"
      "phy_ok p3" "phyMemoryMap p3 = phyMemoryMap (vm_phy m)"
      "phyMemPageTable p3 = (phyMemPageTable (vm_phy m))[nat f := \<lparr>mainThreadId = m_pid m, pm_virtualPage = v\<rparr>]"
    using claim_frame [OF phy f] by metis
  let ?m1 = "m\<lparr>vm_phy := p3\<rparr>"
  have view: "space_of ?m1 = space_of m" "table_of ?m1 = table_of m" "in_frame ?m1 = in_frame m"
    by (rule view_cong; simp)+
  have shape1: "vm_shape ?m1" by (rule vm_shape_cong [OF shape]) (use shape p(4) in \<open>simp_all add: vm_shape_def\<close>)
  define e where "e = (table_of m s ! nat v)\<lparr>pt_valid := True, physicalPage := word_of_int f\<rparr>"
  let ?m2 = "put_pte ?m1 s v e"
  have set: "set_pte ?m1 (as_pageTable s) v (\<lambda>e. e\<lparr>pt_valid := True, physicalPage := word_of_int f\<rparr>) = Inr ?m2"
    unfolding e_def view(2) [symmetric] using assms(2,4,5) by (intro set_pte_put [OF shape1, where ?t0.0 = "m_pid m"]) (simp_all add: view)
  have e: "pt_valid e" "sint (physicalPage e) = f" using fr by (simp_all add: e_def sint_word_of_int_ok int_ok_def)
  have frames: "in_frame ?m2 t' v' f' \<longleftrightarrow> in_frame m t' v' f' \<or> (t' = m_pid m \<and> v' = v \<and> f' = f)" for t' v' f'
    using in_frame_put_pte [OF shape1, of "m_pid m" s v e t' v' f'] assms(2,4-6) e
    by (auto simp: view in_frame_def [of m])
  obtain c where c: "fd_contents (vm_unix m) (sf_file (as_exeFileId s)) = Some c"
    using shape assms(2) by (metis fd_contents_dom not_None_eq space_ok_def vm_shape_def)
  obtain k u where r: "Stub_ReadAt (as_exeFileId s) (vm_unix m) 128 (v * 128 + sizeof_NoffHeader)
      = Inr (k, take 128 (drop (nat (v * 128 + 52)) c), u)"
    using Stub_ReadAt_ok [OF c, of "v * 128 + 52" 128] assms(4) by (auto simp: sizeof_NoffHeader_def)
  have u: "fd_contents u = fd_contents (vm_unix m)" "unix_ok u" "dom (ux_fds u) = dom (ux_fds (vm_unix m))"
    using Stub_ReadAt_contents(1) [OF c _ r] Stub_ReadAt_host [OF r] shape assms(4)
    by (auto simp: sizeof_NoffHeader_def vm_shape_def intro: unix_ok_cong)
  have mem: "length (m_mainMemory m) = 16384" using shape by (simp add: vm_shape_def)
  let ?m3 = "?m2\<lparr>vm_unix := u, m_mainMemory := overwrite (nat (f * 128)) (take 128 (drop (nat (v * 128 + 52)) c)) (m_mainMemory m)\<rparr>"
  have run: "load_page s v f m = Inr ?m3"
    using p(1-3) set assms(3) r mem fr by (simp add: load_page_def deref_def)
  have view3: "in_frame ?m3 = in_frame ?m2" by (rule view_cong(3)) simp_all
  have "nat (f * 128) + length (take 128 (drop (nat (v * 128 + 52)) c)) \<le> nat (f * 128) + 128" by simp
  also have "\<dots> \<le> length (m_mainMemory m)" using fr mem by simp
  finally have fit: "length (m_mainMemory ?m3) = 16384" using mem length_overwrite by fastforce
  have "vm_shape ?m3"
    by (rule vm_shape_cong [of ?m2]) (use shape1 u p(4) mem fit in simp_all)
  moreover have "g \<in> bm_used (phyMemoryMap (vm_phy ?m3)) \<longleftrightarrow> (\<exists>t' v'. in_frame ?m3 t' v' g)" for g
    using vm_invD(2) [OF assms(1), of g] by (auto simp: view3 frames p(5))
  moreover have "phyMemPageTable (vm_phy ?m3) ! nat g = \<lparr>mainThreadId = t', pm_virtualPage = v'\<rparr>"
    if "in_frame ?m3 t' v' g" for t' v' g
  proof (cases "g = f")
    case True
    then show ?thesis using that vm_invD(3) [OF assms(1), of t' v' g] fr phy
      by (auto simp: view3 frames p(6) phy_ok_def nat_less_iff)
  next
    case False
    then have g: "in_frame m t' v' g" using that by (simp add: view3 frames)
    show ?thesis using False fr in_frame_range [OF assms(1) g] vm_invD(4) [OF assms(1) g]
      by (simp add: p(6) nat_eq_iff)
  qed
  ultimately have "vm_ok ?m3" by (simp add: vm_inv_def)
  with run frames u(1) c view3 show ?thesis by (intro exI [of _ ?m3] exI [of _ c]) simp
qed

subsection \<open>Evicting a page\<close>

definition frame_bytes :: "'z vm_scheme \<Rightarrow> int \<Rightarrow> byte list" where
  "frame_bytes m f = take 128 (drop (nat (f * 128)) (m_mainMemory m))"

text \<open>What the executable of a space holds for one of its pages.\<close>

definition page_on_file :: "'z vm_scheme \<Rightarrow> AddrSpace \<Rightarrow> int \<Rightarrow> byte list" where
  "page_on_file m s v =
     (case fd_contents (vm_unix m) (sf_file (as_exeFileId s)) of
        None \<Rightarrow> [] | Some c \<Rightarrow> take 128 (drop (nat (v * 128 + 52)) c))"

lemma length_frame_bytes: "vm_shape m \<Longrightarrow> 0 \<le> f \<Longrightarrow> f < 128 \<Longrightarrow> length (frame_bytes m f) = 128"
  by (simp add: frame_bytes_def vm_shape_def)

lemma save_page:
  assumes "vm_shape m" "space_ok m s" "0 \<le> f" "f < 128" "0 \<le> v"
  shows "\<exists>u. Stub_WriteAt (as_exeFileId s) (vm_unix m) (frame_bytes m f) 128 (v * 128 + sizeof_NoffHeader) = Inr (128, u)
    \<and> unix_ok u \<and> dom (ux_fds u) = dom (ux_fds (vm_unix m))
    \<and> page_on_file (m\<lparr>vm_unix := u\<rparr>) s v = frame_bytes m f"
proof -
  obtain c where c: "fd_contents (vm_unix m) (sf_file (as_exeFileId s)) = Some c"
    using assms(2) by (metis fd_contents_dom not_None_eq space_ok_def)
  note len = length_frame_bytes [OF assms(1,3,4)]
  let ?c = "c @ replicate (nat (v * 128 + 52) + nat 128 - length c) 0"
  obtain u where u: "Stub_WriteAt (as_exeFileId s) (vm_unix m) (frame_bytes m f) 128 (v * 128 + 52) = Inr (128, u)"
    "fd_contents u (sf_file (as_exeFileId s)) = Some (overwrite (nat (v * 128 + 52)) (take (nat 128) (frame_bytes m f)) ?c)"
    using Stub_WriteAt_ok [OF c, of "v * 128 + 52" 128 "frame_bytes m f"] assms(5) len by auto
  have "take 128 (drop (nat (v * 128 + 52)) (overwrite (nat (v * 128 + 52)) (frame_bytes m f) ?c)) = frame_bytes m f"
    using take_drop_overwrite [of "nat (v * 128 + 52)" "frame_bytes m f" ?c] len by simp
  then have "page_on_file (m\<lparr>vm_unix := u\<rparr>) s v = frame_bytes m f" using u(2) len by (simp add: page_on_file_def)
  moreover have "unix_ok u" "dom (ux_fds u) = dom (ux_fds (vm_unix m))"
    using Stub_WriteAt_host [OF u(1)] unix_ok_cong assms(1) by (auto simp: vm_shape_def)
  ultimately show ?thesis using u(1) by (auto simp: sizeof_NoffHeader_def)
qed

lemma victim_page:
  assumes "vm_ok m" "bm_used (phyMemoryMap (vm_phy m)) = bm_all (phyMemoryMap (vm_phy m))"
  shows "\<exists>f t v s. PhyMemManager_swapOnePage (vm_phy m) = Inr f \<and> PhyMemManager_getMainThread (vm_phy m) f = Inr t
    \<and> PhyMemManager_getVirtualPage (vm_phy m) f = Inr v \<and> VirtMemManager_getAddrSpaceOfThread (vm_virt m) t = Inr (Some s)
    \<and> space_of m t = Some s \<and> 0 \<le> v \<and> v < int (length (table_of m s)) \<and> in_frame m t v f
    \<and> (\<forall>g. 0 \<le> g \<and> g < 128 \<longrightarrow> lru_time (swappingStrategy (vm_phy m)) f \<le> lru_time (swappingStrategy (vm_phy m)) g)"
proof -
  have phy: "phy_ok (vm_phy m)" using vm_invD(1) [OF assms(1)] by (simp add: vm_shape_def)
  obtain f where f: "SwappingLRU_findOneElementToSwap (swappingStrategy (vm_phy m)) = Inr f" "0 \<le> f" "f < 128"
    "\<forall>g. 0 \<le> g \<and> g < 128 \<longrightarrow> lru_time (swappingStrategy (vm_phy m)) f \<le> lru_time (swappingStrategy (vm_phy m)) g"
    using lru.find_least [of "swappingStrategy (vm_phy m)"] phy by (auto simp: phy_ok_def)
  have used: "f \<in> bm_used (phyMemoryMap (vm_phy m))" using assms(2) f phy by (simp add: bm_all_def phy_ok_def)
  then obtain t v where tv: "in_frame m t v f" using vm_invD(2) [OF assms(1), of f] by blast
  then obtain s where s: "space_of m t = Some s" "0 \<le> v" "v < int (length (table_of m s))" by (auto simp: in_frame_def)
  have "VirtMemManager_getAddrSpaceOfThread (vm_virt m) t = Inr (Some s)"
    using s(1) vm_invD(1) [OF assms(1)] by (auto simp: VirtMemManager_getAddrSpaceOfThread_def space_of_def vm_shape_def
        THREAD_COUNT_MAX_def split: if_splits)
  moreover have "Bitmap_Test (phyMemoryMap (vm_phy m)) f = Inr True"
    using Test_ok [of "phyMemoryMap (vm_phy m)" f] f used phy by (simp add: phy_ok_def)
  ultimately show ?thesis
    using f tv s vm_invD(4) [OF assms(1) tv] phy
    by (intro exI [of _ f] exI [of _ t] exI [of _ v] exI [of _ s])
      (simp add: PhyMemManager_swapOnePage_def PhyMemManager_getMainThread_def PhyMemManager_getVirtualPage_def phy_ok_def)
qed

lemma evict_page_ok:
  assumes "vm_ok m" "bm_used (phyMemoryMap (vm_phy m)) = bm_all (phyMemoryMap (vm_phy m))"
  shows "\<exists>f t v s m'. evict_page m = Inr (f, m') \<and> in_frame m t v f \<and> space_of m t = Some s \<and> vm_inv {f} m'
    \<and> (\<forall>t' v' f'. in_frame m' t' v' f' \<longleftrightarrow> in_frame m t' v' f' \<and> f' \<noteq> f)
    \<and> (\<forall>g. 0 \<le> g \<and> g < 128 \<longrightarrow> lru_time (swappingStrategy (vm_phy m)) f \<le> lru_time (swappingStrategy (vm_phy m)) g)
    \<and> (dirty (table_of m s ! nat v) \<longrightarrow> page_on_file m' s v = frame_bytes m f)
    \<and> vm_virt m' = vm_virt m \<and> vm_space m' = vm_space m \<and> m_pid m' = m_pid m \<and> m_mainMemory m' = m_mainMemory m
    \<and> (\<forall>t' s'. space_of m t' = Some s' \<longrightarrow> length (table_of m' s') = length (table_of m s')
        \<and> (\<forall>v'. (t', v') \<noteq> (t, v) \<and> 0 \<le> v' \<longrightarrow> table_of m' s' ! nat v' = table_of m s' ! nat v'))"
proof -
  note shape = vm_invD(1) [OF assms(1)]
  obtain f t v s where f: "PhyMemManager_swapOnePage (vm_phy m) = Inr f" "PhyMemManager_getMainThread (vm_phy m) f = Inr t"
    "PhyMemManager_getVirtualPage (vm_phy m) f = Inr v" "VirtMemManager_getAddrSpaceOfThread (vm_virt m) t = Inr (Some s)"
    and s: "space_of m t = Some s" "0 \<le> v" "v < int (length (table_of m s))" "in_frame m t v f"
    and least: "\<forall>g. 0 \<le> g \<and> g < 128 \<longrightarrow> lru_time (swappingStrategy (vm_phy m)) f \<le> lru_time (swappingStrategy (vm_phy m)) g"
    using victim_page [OF assms] by blast
  have fr: "0 \<le> f" "f < 128" using in_frame_range [OF assms(1) s(4)] by auto
  have ok: "space_ok m s" using shape s(1) unfolding vm_shape_def by blast
  let ?d = "dirty (table_of m s ! nat v)"
  obtain u where u: "Stub_WriteAt (as_exeFileId s) (vm_unix m) (frame_bytes m f) 128 (v * 128 + sizeof_NoffHeader) = Inr (128, u)"
    "unix_ok u" "dom (ux_fds u) = dom (ux_fds (vm_unix m))" "page_on_file (m\<lparr>vm_unix := u\<rparr>) s v = frame_bytes m f"
    using save_page [OF shape ok fr s(2)] by blast
  define m1 where "m1 = (if ?d then m\<lparr>vm_unix := u, m_tlb := TLBManager_invalidEntry (m_tlb m) v (word_of_int t)\<rparr> else m)"
  have same: "vm_virt m1 = vm_virt m" "m_pageTables m1 = m_pageTables m" "vm_nextTable m1 = vm_nextTable m" "vm_phy m1 = vm_phy m"
    "m_mainMemory m1 = m_mainMemory m" "vm_space m1 = vm_space m" "m_pid m1 = m_pid m" by (simp_all add: m1_def)
  have view: "space_of m1 = space_of m" "table_of m1 = table_of m" "in_frame m1 = in_frame m"
    by (rule view_cong [OF same(1,2)])+
  have shape1: "vm_shape m1"
    by (rule vm_shape_cong [OF shape same(1-3)]) (use shape u(2,3) in \<open>simp_all add: m1_def vm_shape_def\<close>)
  define m2 where "m2 = put_pte m1 s v ((table_of m s ! nat v)\<lparr>pt_valid := False\<rparr>)"
  have set: "set_pte m1 (as_pageTable s) v (\<lambda>e. e\<lparr>pt_valid := False\<rparr>) = Inr m2"
    unfolding m2_def using set_pte_put [OF shape1, of t s v "\<lambda>e. e\<lparr>pt_valid := False\<rparr>"] s by (simp add: view)
  have run: "evict_page m = Inr (f, m2)"
    using f s(2,3) u(1) set fr
    by (simp add: evict_page_def deref_def m1_def table_of_def frame_bytes_def split: if_splits)
  have frames: "in_frame m2 t' v' f' \<longleftrightarrow> in_frame m t' v' f' \<and> f' \<noteq> f" for t' v' f'
  proof -
    have "in_frame m2 t' v' f' \<longleftrightarrow> in_frame m t' v' f' \<and> (t', v') \<noteq> (t, v)"
      unfolding m2_def using in_frame_put_pte [OF shape1, of t s v] s by (simp add: view)
    moreover have "f' = f \<longleftrightarrow> (t', v') = (t, v)" if "in_frame m t' v' f'"
      using in_frame_unique [OF assms(1) s(4)] in_frame_fun [OF s(4)] that by blast
    ultimately show ?thesis by blast
  qed
  have phy2: "vm_phy m2 = vm_phy m" "vm_shape m2" using shape1 by (simp_all add: m2_def same)
  have "g \<in> bm_used (phyMemoryMap (vm_phy m2)) \<longleftrightarrow> g \<in> {f} \<or> (\<exists>t' v'. in_frame m2 t' v' g)" for g
    using vm_invD(2) [OF assms(1), of g] s(4) unfolding frames phy2 by blast
  then have "vm_inv {f} m2"
    using vm_invD(4) [OF assms(1)] phy2 by (simp add: vm_inv_def frames)
  moreover have "?d \<longrightarrow> page_on_file m2 s v = frame_bytes m f"
    using u(4) by (simp add: page_on_file_def m2_def m1_def)
  moreover have "length (table_of m2 s') = length (table_of m s')
      \<and> (\<forall>v'. (t', v') \<noteq> (t, v) \<and> 0 \<le> v' \<longrightarrow> table_of m2 s' ! nat v' = table_of m s' ! nat v')" if "space_of m t' = Some s'" for t' s'
  proof -
    have "as_pageTable s' = as_pageTable s \<longleftrightarrow> t' = t" using shape s(1) that unfolding vm_shape_def by (metis option.inject)
    moreover have "t' = t \<Longrightarrow> s' = s" using s(1) that by simp
    ultimately show ?thesis using s(2) by (auto simp: m2_def table_of_put_pte view nth_list_update nat_eq_iff)
  qed
  ultimately show ?thesis
    using run s(1,4) frames least same
    by (intro exI [of _ f] exI [of _ t] exI [of _ v] exI [of _ s] exI [of _ m2]) (simp add: m2_def)
qed

lemma findOneEmptyPage_ok:
  assumes "vm_ok m" "PhyMemManager_findOneEmptyPage (vm_phy m) = Inr (f, p)" "f \<noteq> - 1"
  shows "vm_inv {f} (m\<lparr>vm_phy := p\<rparr>)" "\<not> in_frame m t v f" "0 \<le> f" "f < 128"
proof -
  let ?b = "phyMemoryMap (vm_phy m)"
  note shape = vm_invD(1) [OF assms(1)]
  have phy: "phy_ok (vm_phy m)" using shape by (simp add: vm_shape_def)
  have b: "bm_inv ?b" using phy by (simp add: phy_ok_def)
  have p: "first_clear ?b f \<and> p = (vm_phy m)\<lparr>phyMemoryMap := bm_write ?b f True\<rparr>"
    using b assms(2,3)
    by (cases rule: FindAndSet_cases) (auto simp: PhyMemManager_findOneEmptyPage_def)
  then have f: "0 \<le> f" "f < 128" "f \<notin> bm_used ?b" using phy by (simp_all add: first_clear_def phy_ok_def)
  show "0 \<le> f" "f < 128" by (rule f)+
  show free: "\<not> in_frame m t v f" for t v using vm_invD(2) [OF assms(1), of f] f(3) by blast
  have view: "in_frame (m\<lparr>vm_phy := p\<rparr>) = in_frame m" by (rule view_cong) simp_all
  have "vm_shape (m\<lparr>vm_phy := p\<rparr>)"
    by (rule vm_shape_cong [OF shape]) (use shape phy in \<open>simp_all add: vm_shape_def p phy_ok_def\<close>)
  moreover have "bm_used (phyMemoryMap p) = insert f (bm_used ?b)"
    using bm_used_write [OF b f(1)] f phy by (simp add: p phy_ok_def)
  moreover have "phyMemPageTable p = phyMemPageTable (vm_phy m)" by (simp add: p)
  ultimately show "vm_inv {f} (m\<lparr>vm_phy := p\<rparr>)"
    using vm_invD(2,4) [OF assms(1)] free by (auto simp: vm_inv_def view)
qed

section \<open>The page-fault handler\<close>

text \<open>
  Where the frame comes from: it was free, or all frames were taken and it was the least recently
  loaded one, whose page has been written to its file if it was dirty.
\<close>

definition frame_source :: "'z vm_scheme \<Rightarrow> int \<Rightarrow> 'z vm_scheme \<Rightarrow> bool" where
  "frame_source m f m' \<longleftrightarrow> (\<forall>t' v'. \<not> in_frame m t' v' f)
     \<or> (bm_used (phyMemoryMap (vm_phy m)) = {0..<128}
        \<and> (\<forall>g. 0 \<le> g \<and> g < 128 \<longrightarrow> lru_time (swappingStrategy (vm_phy m)) f \<le> lru_time (swappingStrategy (vm_phy m)) g)
        \<and> (\<exists>t' v' s'. in_frame m t' v' f \<and> space_of m t' = Some s'
             \<and> (dirty (table_of m s' ! nat v') \<longrightarrow> page_on_file m' s' v' = frame_bytes m f)))"

text \<open>What a page fault for page \<open>v\<close> of the current thread, whose space is \<open>s\<close>, did: it used frame \<open>f\<close>.\<close>

definition fault_served :: "'z vm_scheme \<Rightarrow> AddrSpace \<Rightarrow> int \<Rightarrow> int \<Rightarrow> 'z vm_scheme \<Rightarrow> bool" where
  "fault_served m s v f m' \<longleftrightarrow> 0 \<le> f \<and> f < 128
     \<and> (\<forall>t' v' f'. in_frame m' t' v' f' \<longleftrightarrow> (if f' = f then t' = m_pid m \<and> v' = v else in_frame m t' v' f'))
     \<and> m_mainMemory m' = overwrite (nat (f * 128)) (page_on_file m' s v) (m_mainMemory m)
     \<and> frame_source m f m'"

lemma choose_frame:
  assumes "vm_ok m" "space_of m (m_pid m) = Some s" "\<not> pt_valid (table_of m s ! nat v)" "0 \<le> v" "v < int (length (table_of m s))"
  shows "\<exists>page0 phy0 f m1. PhyMemManager_findOneEmptyPage (vm_phy m) = Inr (page0, phy0)
    \<and> (if page0 = - 1 then evict_page (m\<lparr>vm_phy := phy0\<rparr>) else Inr (page0, m\<lparr>vm_phy := phy0\<rparr>)) = Inr (f, m1)
    \<and> vm_inv {f} m1 \<and> space_of m1 = space_of m \<and> length (table_of m1 s) = length (table_of m s)
    \<and> table_of m1 s ! nat v = table_of m s ! nat v
    \<and> vm_space m1 = vm_space m \<and> m_pid m1 = m_pid m \<and> m_mainMemory m1 = m_mainMemory m
    \<and> (\<forall>t' v' f'. in_frame m1 t' v' f' \<longleftrightarrow> in_frame m t' v' f' \<and> f' \<noteq> f)
    \<and> frame_source m f m1"
proof -
  let ?b = "phyMemoryMap (vm_phy m)"
  have phy: "phy_ok (vm_phy m)" using vm_invD(1) [OF assms(1)] by (simp add: vm_shape_def)
  then have b: "bm_inv ?b" by (simp add: phy_ok_def)
  show ?thesis
  proof (cases rule: FindAndSet_cases [OF b])
    case 1
    then have find: "PhyMemManager_findOneEmptyPage (vm_phy m) = Inr (- 1, vm_phy m)"
      by (simp add: PhyMemManager_findOneEmptyPage_def)
    obtain f t v' s' m1 where e: "evict_page m = Inr (f, m1)" "in_frame m t v' f" "space_of m t = Some s'" "vm_inv {f} m1"
        "\<forall>t' v' f'. in_frame m1 t' v' f' \<longleftrightarrow> in_frame m t' v' f' \<and> f' \<noteq> f"
        "\<forall>g. 0 \<le> g \<and> g < 128 \<longrightarrow> lru_time (swappingStrategy (vm_phy m)) f \<le> lru_time (swappingStrategy (vm_phy m)) g"
        "dirty (table_of m s' ! nat v') \<longrightarrow> page_on_file m1 s' v' = frame_bytes m f"
        "vm_virt m1 = vm_virt m" "vm_space m1 = vm_space m" "m_pid m1 = m_pid m" "m_mainMemory m1 = m_mainMemory m"
        "\<forall>t' s'. space_of m t' = Some s' \<longrightarrow> length (table_of m1 s') = length (table_of m s')
          \<and> (\<forall>w. (t', w) \<noteq> (t, v') \<and> 0 \<le> w \<longrightarrow> table_of m1 s' ! nat w = table_of m s' ! nat w)"
      using evict_page_ok [OF assms(1) 1(1)] by blast
    have "(m_pid m, v) \<noteq> (t, v')" using e(2) assms(2,3) by (auto simp: in_frame_def)
    then have "length (table_of m1 s) = length (table_of m s)" "table_of m1 s ! nat v = table_of m s ! nat v"
      using e(12) assms(2,4) by blast+
    moreover have "space_of m1 = space_of m" using e(8) by (simp add: space_of_def fun_eq_iff)
    moreover have "bm_used ?b = {0..<128}" using 1(1) phy by (simp add: bm_all_def phy_ok_def)
    ultimately show ?thesis
      using find e(1,4-7,9-11) e(2,3) by (intro exI [of _ "- 1"] exI [of _ "vm_phy m"] exI [of _ f] exI [of _ m1]) (auto simp: frame_source_def)
  next
    case (2 f)
    let ?p = "(vm_phy m)\<lparr>phyMemoryMap := bm_write ?b f True\<rparr>"
    have find: "PhyMemManager_findOneEmptyPage (vm_phy m) = Inr (f, ?p)"
      using 2 by (simp add: PhyMemManager_findOneEmptyPage_def)
    have "f \<noteq> - 1" using 2 by (simp add: first_clear_def)
    note ok = findOneEmptyPage_ok [OF assms(1) find this]
    have view: "space_of (m\<lparr>vm_phy := ?p\<rparr>) = space_of m" "table_of (m\<lparr>vm_phy := ?p\<rparr>) = table_of m"
      "in_frame (m\<lparr>vm_phy := ?p\<rparr>) = in_frame m" by (rule view_cong; simp)+
    show ?thesis
      using find ok \<open>f \<noteq> - 1\<close> by (intro exI [of _ f] exI [of _ ?p] exI [of _ f] exI [of _ "m\<lparr>vm_phy := ?p\<rparr>"]) (auto simp: view frame_source_def)
  qed
qed

lemma pageFaultHandler_served:
  assumes "vm_ok m" "space_of m (m_pid m) = Some s" "vm_space m = Some s"
    and "0 \<le> v" "v < int (length (table_of m s))" "\<not> pt_valid (table_of m s ! nat v)"
  shows "\<exists>f m'. MemoryManager_pageFaultHandler v m = Inr m' \<and> vm_ok m' \<and> fault_served m s v f m'"
proof -
  note shape = vm_invD(1) [OF assms(1)]
  have get: "VirtMemManager_getAddrSpaceOfThread (vm_virt m) (m_pid m) = Inr (Some s)"
    using assms(2) shape by (auto simp: VirtMemManager_getAddrSpaceOfThread_def space_of_def vm_shape_def
        THREAD_COUNT_MAX_def split: if_splits)
  obtain page0 phy0 f m1 where c: "PhyMemManager_findOneEmptyPage (vm_phy m) = Inr (page0, phy0)"
      "(if page0 = - 1 then evict_page (m\<lparr>vm_phy := phy0\<rparr>) else Inr (page0, m\<lparr>vm_phy := phy0\<rparr>)) = Inr (f, m1)"
    and m1: "vm_inv {f} m1" "space_of m1 = space_of m" "length (table_of m1 s) = length (table_of m s)"
      "table_of m1 s ! nat v = table_of m s ! nat v" "vm_space m1 = vm_space m" "m_pid m1 = m_pid m"
      "m_mainMemory m1 = m_mainMemory m" "\<forall>t' v' f'. in_frame m1 t' v' f' \<longleftrightarrow> in_frame m t' v' f' \<and> f' \<noteq> f"
    and victim: "frame_source m f m1"
    using choose_frame [OF assms(1,2,6,4,5)] by blast
  have "space_of m1 (m_pid m1) = Some s" "vm_space m1 = Some s" "v < int (length (table_of m1 s))"
      "\<not> pt_valid (table_of m1 s ! nat v)" using assms m1 by simp_all
  from load_page_ok [OF m1(1) this(1,2) assms(4) this(3,4)]
  obtain m' c' where m': "load_page s v f m1 = Inr m'" "vm_ok m'"
      "\<forall>t' v' f'. in_frame m' t' v' f' \<longleftrightarrow> in_frame m1 t' v' f' \<or> (t' = m_pid m \<and> v' = v \<and> f' = f)"
      "fd_contents (vm_unix m') = fd_contents (vm_unix m1)" "fd_contents (vm_unix m') (sf_file (as_exeFileId s)) = Some c'"
      "m_mainMemory m' = overwrite (nat (f * 128)) (take 128 (drop (nat (v * 128 + 52)) c')) (m_mainMemory m)"
    using m1 by auto
  have "MemoryManager_pageFaultHandler v m = Inr m'"
    using get c m' assms(4-6) by (simp add: MemoryManager_pageFaultHandler_def deref_def table_of_def)
  moreover have "page_on_file m' = page_on_file m1" using m'(4) by (simp add: page_on_file_def fun_eq_iff)
  moreover have "f \<in> bm_used (phyMemoryMap (vm_phy m1))" using vm_invD(2) [OF m1(1), of f] by simp
  then have "0 \<le> f \<and> f < 128" using vm_invD(1) [OF m1(1)] by (auto simp: bm_used_def vm_shape_def phy_ok_def)
  moreover have "page_on_file m' s v = take 128 (drop (nat (v * 128 + 52)) c')" using m'(5) by (simp add: page_on_file_def)
  ultimately have "fault_served m s v f m'"
    unfolding fault_served_def using victim m'(3,6) m1(8) by (auto simp: frame_source_def)
  with \<open>MemoryManager_pageFaultHandler v m = Inr m'\<close> m'(2) show ?thesis by blast
qed

section \<open>Creating and deleting address spaces\<close>

lemma clear_pages_ok:
  assumes "phy_ok p" "\<forall>e \<in> set es. pt_valid e \<longrightarrow> 0 \<le> sint (physicalPage e) \<and> sint (physicalPage e) < 128"
  shows "\<exists>p'. clear_pages es p = Inr p' \<and> phy_ok p' \<and> phyMemPageTable p' = phyMemPageTable p
    \<and> bm_used (phyMemoryMap p') = bm_used (phyMemoryMap p) - {sint (physicalPage e) | e. e \<in> set es \<and> pt_valid e}"
  using assms
proof (induction es arbitrary: p)
  case (Cons e es)
  show ?case
  proof (cases "pt_valid e")
    case True
    let ?f = "sint (physicalPage e)"
    let ?p = "p\<lparr>phyMemoryMap := bm_write (phyMemoryMap p) ?f False\<rparr>"
    have f: "0 \<le> ?f" "?f < 128" using Cons.prems True by auto
    have clear: "PhyMemManager_clearOnePage p ?f = Inr ?p"
      using Clear_ok [of "phyMemoryMap p" ?f] f Cons.prems(1) by (simp add: PhyMemManager_clearOnePage_def phy_ok_def)
    have ok: "phy_ok ?p" using Cons.prems(1) by (simp add: phy_ok_def)
    have used: "bm_used (phyMemoryMap ?p) = bm_used (phyMemoryMap p) - {?f}"
      using bm_used_write [of "phyMemoryMap p" ?f] f Cons.prems(1) by (simp add: phy_ok_def)
    have rest: "\<forall>e \<in> set es. pt_valid e \<longrightarrow> 0 \<le> sint (physicalPage e) \<and> sint (physicalPage e) < 128"
      using Cons.prems(2) by simp
    obtain p' where p': "clear_pages es ?p = Inr p'" "phy_ok p'" "phyMemPageTable p' = phyMemPageTable ?p"
      "bm_used (phyMemoryMap p') = bm_used (phyMemoryMap ?p) - {sint (physicalPage e) | e. e \<in> set es \<and> pt_valid e}"
      using Cons.IH [OF ok rest] by blast
    have "{sint (physicalPage e') | e'. e' \<in> set (e # es) \<and> pt_valid e'}
        = insert ?f {sint (physicalPage e) | e. e \<in> set es \<and> pt_valid e}" using True by auto
    with p'(4) used have "bm_used (phyMemoryMap p') = bm_used (phyMemoryMap p)
        - {sint (physicalPage e') | e'. e' \<in> set (e # es) \<and> pt_valid e'}" by blast
    with p' clear True show ?thesis by (intro exI [of _ p']) simp
  next
    case False
    then have "{sint (physicalPage e') | e'. e' \<in> set (e # es) \<and> pt_valid e'}
        = {sint (physicalPage e) | e. e \<in> set es \<and> pt_valid e}" by auto
    with False show ?thesis using Cons.IH [OF Cons.prems(1)] Cons.prems(2) by simp
  qed
qed simp

lemma in_frame_table:
  assumes "space_of m t = Some s"
  shows "(\<exists>v. in_frame m t v f) \<longleftrightarrow> (\<exists>e \<in> set (table_of m s). pt_valid e \<and> sint (physicalPage e) = f)"
proof
  assume "\<exists>v. in_frame m t v f"
  then obtain v where v: "0 \<le> v" "v < int (length (table_of m s))" "pt_valid (table_of m s ! nat v)"
    "sint (physicalPage (table_of m s ! nat v)) = f" using assms by (auto simp: in_frame_def)
  then show "\<exists>e \<in> set (table_of m s). pt_valid e \<and> sint (physicalPage e) = f"
    by (intro bexI [of _ "table_of m s ! nat v"]) (auto simp: nat_less_iff)
next
  assume "\<exists>e \<in> set (table_of m s). pt_valid e \<and> sint (physicalPage e) = f"
  then obtain i where "i < length (table_of m s)" "pt_valid (table_of m s ! i)" "sint (physicalPage (table_of m s ! i)) = f"
    by (auto simp: in_set_conv_nth)
  then show "\<exists>v. in_frame m t v f" using assms by (intro exI [of _ "int i"]) (simp add: in_frame_def)
qed

lemma deleteAddrSpace_ok:
  assumes "vm_ok m" "space_of m t = Some s"
  shows "\<exists>m'. VirtMemManager_deleteAddrSpace m t = Inr m' \<and> vm_ok m' \<and> space_of m' = (space_of m)(t := None)
    \<and> (\<forall>t' v f. in_frame m' t' v f \<longleftrightarrow> in_frame m t' v f \<and> t' \<noteq> t)
    \<and> bm_used (phyMemoryMap (vm_phy m')) = bm_used (phyMemoryMap (vm_phy m)) - {f. \<exists>v. in_frame m t v f}"
proof -
  note shape = vm_invD(1) [OF assms(1)]
  have t: "0 \<le> t" "t < 128" "virtMemTable (vm_virt m) ! nat t = Some s" and sh: "phy_ok (vm_phy m)" "unix_ok (vm_unix m)"
    "virtMemTableSize (vm_virt m) = 128" "length (virtMemTable (vm_virt m)) = 128"
    using assms(2) shape by (auto simp: space_of_def THREAD_COUNT_MAX_def vm_shape_def split: if_splits)
  have s: "int (length (table_of m s)) = sint (as_numPages s)" "ux_fds (vm_unix m) (sf_file (as_exeFileId s)) \<noteq> None"
    using shape assms(2) by (auto simp: vm_shape_def space_ok_def)
  have "\<forall>e \<in> set (table_of m s). pt_valid e \<longrightarrow> 0 \<le> sint (physicalPage e) \<and> sint (physicalPage e) < 128"
    using in_frame_table [OF assms(2)] in_frame_range [OF assms(1)] by metis
  from clear_pages_ok [OF sh(1) this] obtain p where p: "clear_pages (table_of m s) (vm_phy m) = Inr p" "phy_ok p"
      "phyMemPageTable p = phyMemPageTable (vm_phy m)"
      "bm_used (phyMemoryMap p) = bm_used (phyMemoryMap (vm_phy m)) - {f. \<exists>e \<in> set (table_of m s). pt_valid e \<and> sint (physicalPage e) = f}"
    by (auto simp: set_eq_iff)
  let ?u = "(vm_unix m)\<lparr>ux_fds := (ux_fds (vm_unix m))(sf_file (as_exeFileId s) := None)\<rparr>"
  let ?m = "m\<lparr>vm_phy := p, vm_unix := ?u, vm_virt := (vm_virt m)\<lparr>virtMemTable := (virtMemTable (vm_virt m))[nat t := None]\<rparr>\<rparr>"
  have run: "VirtMemManager_deleteAddrSpace m t = Inr ?m"
    using t sh s p(1) by (auto simp: VirtMemManager_deleteAddrSpace_def Close_fd_def table_of_def
        simp flip: s(1))
  have space: "space_of ?m = (space_of m)(t := None)"
    using t sh by (auto simp: space_of_def fun_eq_iff nth_list_update nat_eq_iff THREAD_COUNT_MAX_def)
  have table: "table_of ?m = table_of m" by (simp add: table_of_def fun_eq_iff)
  have frames: "in_frame ?m t' v f \<longleftrightarrow> in_frame m t' v f \<and> t' \<noteq> t" for t' v f
    by (auto simp: in_frame_def space table)
  have apart: "sf_file (as_exeFileId s') \<noteq> sf_file (as_exeFileId s)" if "space_of m t' = Some s'" "t' \<noteq> t" for t' s'
    using shape assms(2) that unfolding vm_shape_def by blast
  have "space_ok ?m s'" if "space_of m t' = Some s'" "t' \<noteq> t" for t' s'
    using apart [OF that] shape that(1) by (auto simp: vm_shape_def space_ok_def table)
  then have "vm_shape ?m"
    using shape p(2) sh unfolding vm_shape_def space by (auto simp: unix_ok_def)
  moreover have used: "bm_used (phyMemoryMap p) = bm_used (phyMemoryMap (vm_phy m)) - {f. \<exists>v. in_frame m t v f}"
    using p(4) in_frame_table [OF assms(2)] by simp
  moreover have "t' = t" if "in_frame m t' v f" "in_frame m t v' f" for t' v v' f
    using in_frame_unique [OF assms(1) that] by simp
  then have "f \<in> bm_used (phyMemoryMap (vm_phy ?m)) \<longleftrightarrow> (\<exists>t' v. in_frame ?m t' v f)" for f
    using vm_invD(2) [OF assms(1), of f] used by (simp add: frames) blast
  ultimately have "vm_ok ?m"
    using vm_invD(4) [OF assms(1)] p(3) by (simp add: vm_inv_def frames)
  with run space frames used show ?thesis by (intro exI [of _ ?m]) simp
qed

text \<open>A new page table behind all others changes nothing.\<close>

lemma vm_ok_extend:
  fixes tab :: "TranslationEntry list"
  assumes "vm_ok m" "unix_ok u" "dom (ux_fds (vm_unix m)) \<subseteq> dom (ux_fds u)"
  defines "m1 \<equiv> m\<lparr>vm_unix := u, vm_nextTable := vm_nextTable m + 1,
     m_pageTables := (m_pageTables m)(vm_nextTable m := tab)\<rparr>"
  shows "vm_ok m1" "in_frame m1 = in_frame m" "space_of m1 = space_of m"
    "space_of m t = Some s \<Longrightarrow> as_pageTable s < vm_nextTable m"
proof -
  note shape = vm_invD(1) [OF assms(1)]
  show space: "space_of m1 = space_of m" by (simp add: space_of_def m1_def fun_eq_iff)
  have ptr: "space_ok m s" if "space_of m t = Some s" for s t
    using shape that unfolding vm_shape_def by blast
  then show "space_of m t = Some s \<Longrightarrow> as_pageTable s < vm_nextTable m" by (simp add: space_ok_def)
  have table: "table_of m1 s = table_of m s" if "space_of m t = Some s" for s t
    using ptr [OF that] by (simp add: table_of_def m1_def space_ok_def)
  show frames: "in_frame m1 = in_frame m" using table by (auto simp: in_frame_def space fun_eq_iff)
  have "space_ok m1 s" if "space_of m t = Some s" for s t
    using ptr [OF that] table [OF that] assms(3) by (auto simp: space_ok_def m1_def)
  then have "vm_shape m1" using shape assms(2) unfolding vm_shape_def space by (simp add: m1_def)
  with assms(1) show "vm_ok m1" unfolding vm_inv_def frames by (simp add: m1_def)
qed

lemma vm_ok_add_space:
  fixes n :: int
  assumes "vm_ok m" "0 \<le> t" "t < THREAD_COUNT_MAX" "space_of m t = None" "space_ok m s"
    and "\<forall>e \<in> set (table_of m s). \<not> pt_valid e"
    and "\<And>t' s'. space_of m t' = Some s' \<Longrightarrow> as_pageTable s' \<noteq> as_pageTable s \<and> sf_file (as_exeFileId s') \<noteq> sf_file (as_exeFileId s)"
  defines "m1 \<equiv> m\<lparr>vm_virt := (vm_virt m)\<lparr>virtMemTable := (virtMemTable (vm_virt m))[nat t := Some s], virtPageNums := n\<rparr>\<rparr>"
  shows "vm_ok m1" "in_frame m1 = in_frame m"
proof -
  note shape = vm_invD(1) [OF assms(1)]
  have space: "space_of m1 = (space_of m)(t \<mapsto> s)"
    using shape assms(2,3) by (auto simp: space_of_def m1_def vm_shape_def nth_list_update nat_eq_iff fun_eq_iff)
  have table: "table_of m1 = table_of m" by (simp add: table_of_def m1_def fun_eq_iff)
  have "\<not> pt_valid (table_of m s ! nat v)" if "0 \<le> v" "v < int (length (table_of m s))" for v
    using assms(6) that by (simp add: nat_less_iff)
  then show frames: "in_frame m1 = in_frame m" using assms(4) by (auto simp: in_frame_def space table fun_eq_iff)
  have ok: "space_ok m1 = space_ok m" by (simp add: space_ok_def table fun_eq_iff) (simp add: m1_def)
  have apart: "\<forall>t1 t2 s1 s2. space_of m t1 = Some s1 \<and> space_of m t2 = Some s2 \<and> t1 \<noteq> t2 \<longrightarrow>
      as_pageTable s1 \<noteq> as_pageTable s2 \<and> sf_file (as_exeFileId s1) \<noteq> sf_file (as_exeFileId s2)"
    using shape unfolding vm_shape_def by blast
  have "as_pageTable s1 \<noteq> as_pageTable s2 \<and> sf_file (as_exeFileId s1) \<noteq> sf_file (as_exeFileId s2)"
    if "space_of m1 t1 = Some s1" "space_of m1 t2 = Some s2" "t1 \<noteq> t2" for t1 t2 s1 s2
    using that apart assms(7) [of t1 s1] assms(7) [of t2 s2] by (auto simp: space split: if_splits)
  moreover have "space_ok m1 s1" if "space_of m1 t1 = Some s1" for t1 s1
    using that assms(5) shape unfolding ok by (auto simp: space vm_shape_def split: if_splits)
  moreover have "phy_ok (vm_phy m1) \<and> unix_ok (vm_unix m1) \<and> virtMemTableSize (vm_virt m1) = THREAD_COUNT_MAX
      \<and> length (virtMemTable (vm_virt m1)) = nat THREAD_COUNT_MAX \<and> length (m_mainMemory m1) = 16384"
    using shape by (simp add: m1_def vm_shape_def)
  ultimately have "vm_shape m1" unfolding vm_shape_def [of m1] by blast
  with assms(1) show "vm_ok m1" unfolding vm_inv_def frames by (simp add: m1_def)
qed

lemma pages_of_size:
  fixes sz :: "32 word"
  defines "n \<equiv> sz div PageSize + (if sz mod PageSize > 0 then 1 else 0)"
  shows "sint n = int (unat n)"
proof -
  have "unat (sz div PageSize) \<le> 33554431"
    using unsigned_less [of sz, where ?'a = nat] by (simp add: unat_div PageSize_def)
  moreover have "unat n \<le> unat (sz div PageSize) + 1"
    unfolding n_def by (auto simp: unat_word_ariths(1) intro: le_SucI)
  ultimately have "unat n < 2147483648" by linarith
  then have "uint n < 2147483648" by (metis of_nat_less_iff of_nat_numeral uint_nat)
  then show ?thesis by (simp add: sint_cases)
qed

lemma StubFS_Open_ok:
  assumes "unix_ok u" "ux_names u name \<noteq> None"
  shows "\<exists>u'. StubFS_Open u name = Inr (Some (Stub_new (ux_nextFd u)), u') \<and> unix_ok u'
    \<and> dom (ux_fds u') = insert (ux_nextFd u) (dom (ux_fds u)) \<and> ux_nextFd u \<notin> dom (ux_fds u)"
proof -
  obtain i where i: "ux_names u name = Some i" using assms(2) by blast
  let ?u = "u\<lparr>ux_fds := (ux_fds u)(ux_nextFd u \<mapsto> (i, 0)), ux_nextFd := ux_nextFd u + 1\<rparr>"
  have free: "ux_nextFd u \<notin> dom (ux_fds u)" using assms(1) by (fastforce simp: unix_ok_def)
  have "fd < ux_nextFd u + 1" if "ux_fds u fd \<noteq> None" for fd
    using assms(1) that by (fastforce simp: unix_ok_def)
  then have "unix_ok ?u" using assms(1) by (simp add: unix_ok_def)
  with free i assms(1) show ?thesis
    by (intro exI [of _ ?u]) (simp add: StubFS_Open_def OpenForReadWrite_def ux_open_def unix_ok_def)
qed

lemma Stub_ReadAt_exists:
  assumes "sf_file f \<in> dom (ux_fds u)" "0 \<le> p"
  obtains k bs u' where "Stub_ReadAt f u n p = Inr (k, bs, u')"
proof -
  obtain c where "fd_contents u (sf_file f) = Some c" using assms(1) fd_contents_dom [of u "sf_file f"] by auto
  from Stub_ReadAt_ok [OF this assms(2), of n] that show ?thesis by blast
qed

lemma AddrSpace_new_ok:
  assumes "vm_ok m" "ux_names (vm_unix m) name \<noteq> None" "AddrSpace_new j h m t name = Inr (s, m1)"
  shows "vm_ok m1" "in_frame m1 = in_frame m" "space_of m1 = space_of m" "vm_virt m1 = vm_virt m" "space_ok m1 s"
    "\<forall>e \<in> set (table_of m1 s). \<not> pt_valid e"
    "space_of m t' = Some s' \<Longrightarrow> as_pageTable s' \<noteq> as_pageTable s \<and> sf_file (as_exeFileId s') \<noteq> sf_file (as_exeFileId s)"
    "sf_file (as_exeFileId s) \<in> dom (ux_fds (vm_unix m1))"
    "dom (ux_fds (vm_unix m1)) = insert (sf_file (as_exeFileId s)) (dom (ux_fds (vm_unix m)))"
    "sf_file (as_exeFileId s) \<notin> dom (ux_fds (vm_unix m))"
proof -
  let ?fd = "ux_nextFd (vm_unix m)"
  have u: "unix_ok (vm_unix m)" using vm_invD(1) [OF assms(1)] by (simp add: vm_shape_def)
  obtain u1 where u1: "StubFS_Open (vm_unix m) name = Inr (Some (Stub_new ?fd), u1)" "unix_ok u1"
    "dom (ux_fds u1) = insert ?fd (dom (ux_fds (vm_unix m)))" "?fd \<notin> dom (ux_fds (vm_unix m))"
    using StubFS_Open_ok [OF u assms(2)] by blast
  obtain k bs u2 sz where r: "Stub_ReadAt (Stub_new ?fd) u1 sizeof_NoffHeader 0 = Inr (k, bs, u2)"
    and s: "s = \<lparr>as_pageTable = vm_nextTable m, as_threadId = t,
        as_numPages = sz div PageSize + (if sz mod PageSize > 0 then 1 else 0), as_exeFileId = Stub_new ?fd\<rparr>"
    and m1: "m1 = m\<lparr>vm_unix := u2, vm_nextTable := vm_nextTable m + 1, m_pageTables := (m_pageTables m)(vm_nextTable m :=
        map fresh_entry [0..<unat (sz div PageSize + (if sz mod PageSize > 0 then 1 else 0))])\<rparr>"
    using assms(3) u1(1) by (auto simp: AddrSpace_new_def bindE_eq_Inr Let_def simp del: fun_upd_apply)
  have u2: "unix_ok u2" "dom (ux_fds u2) = insert ?fd (dom (ux_fds (vm_unix m)))"
    using Stub_ReadAt_host [OF r] u1(2,3) unix_ok_cong by auto
  have dom: "dom (ux_fds (vm_unix m)) \<subseteq> dom (ux_fds u2)" using u2(2) by blast
  show "vm_ok m1" "in_frame m1 = in_frame m" "space_of m1 = space_of m" unfolding m1 by (rule vm_ok_extend [OF assms(1) u2(1) dom])+
  show "vm_virt m1 = vm_virt m" by (simp add: m1)
  show fd: "sf_file (as_exeFileId s) \<notin> dom (ux_fds (vm_unix m))" "sf_file (as_exeFileId s) \<in> dom (ux_fds (vm_unix m1))"
    "dom (ux_fds (vm_unix m1)) = insert (sf_file (as_exeFileId s)) (dom (ux_fds (vm_unix m)))"
    using u1(4) u2 by (simp_all add: s m1 Stub_new_def)
  have table: "table_of m1 s = map fresh_entry [0..<unat (as_numPages s)]" by (simp add: table_of_def m1 s)
  show "\<forall>e \<in> set (table_of m1 s). \<not> pt_valid e" unfolding table by (auto simp: fresh_entry_def)
  have "int (length (table_of m1 s)) = sint (as_numPages s)" 
    using pages_of_size [of sz] unfolding table by (simp only: length_map length_upt s AddrSpace.simps minus_nat.diff_0)
  then show "space_ok m1 s" using fd(2) by (auto simp: space_ok_def) (simp add: s m1)
  show "as_pageTable s' \<noteq> as_pageTable s \<and> sf_file (as_exeFileId s') \<noteq> sf_file (as_exeFileId s)" if "space_of m t' = Some s'"
  proof -
    have "space_ok m s'" using vm_invD(1) [OF assms(1)] that unfolding vm_shape_def by blast
    with fd(1) show ?thesis by (auto simp: space_ok_def) (simp add: s)
  qed
qed

lemma createAddrSpace_ok:
  assumes "vm_ok m" "ux_names (vm_unix m) name \<noteq> None" "VirtMemManager_createAddrSpace j h m t name = Inr (r, m')"
  shows "vm_ok m' \<and> in_frame m' = in_frame m"
proof (cases "space_of m t")
  case (Some s)
  then have "m' = m" using assms(3) by (auto simp: VirtMemManager_createAddrSpace_def space_of_def arr_get_eq_Inr bindE_eq_Inr split: if_splits)
  with assms(1) show ?thesis by simp
next
  case None
  have len: "length (virtMemTable (vm_virt m)) = 128" using vm_invD(1) [OF assms(1)] by (simp add: vm_shape_def THREAD_COUNT_MAX_def)
  have t: "0 \<le> t" "t < 128" using assms(3) len by (auto simp: VirtMemManager_createAddrSpace_def bindE_eq_Inr arr_get_eq_Inr)
  have entry: "arr_get (virtMemTable (vm_virt m)) t = Inr None" using None t len by (simp add: space_of_def THREAD_COUNT_MAX_def)
  obtain s m1 where new: "AddrSpace_new j h m t name = Inr (s, m1)"
    using assms(3) entry by (auto simp: VirtMemManager_createAddrSpace_def bindE_eq_Inr)
  note n = AddrSpace_new_ok [OF assms(1,2) new]
  show ?thesis
  proof (cases "virtPageNums (vm_virt m1) + sint (as_numPages s) > MAX_VIRT_PAGES")
    case True
    let ?u = "(vm_unix m1)\<lparr>ux_fds := (ux_fds (vm_unix m1))(sf_file (as_exeFileId s) := None)\<rparr>"
    have m': "m' = m1\<lparr>vm_unix := ?u\<rparr>"
      using assms(3) entry new True n(8) by (auto simp: VirtMemManager_createAddrSpace_def Close_fd_def)
    have view: "space_of m' = space_of m1" "table_of m' = table_of m1" "in_frame m' = in_frame m1" unfolding m' by (rule view_cong; simp)+
    have "space_ok m' s'" if s': "space_of m t' = Some s'" for t' s'
    proof -
      have "space_ok m1 s'" using vm_invD(1) [OF n(1)] s' unfolding vm_shape_def n(3) by blast
      with n(7) [OF s'] show ?thesis unfolding space_ok_def view by (simp add: m')
    qed
    moreover have "unix_ok ?u" using vm_invD(1) [OF n(1)] by (auto simp: vm_shape_def unix_ok_def)
    ultimately have "vm_shape m'" using vm_invD(1) [OF n(1)] unfolding vm_shape_def view n(3) by (simp add: m')
    with n(1) have "vm_ok m'" unfolding vm_inv_def view by (simp add: m')
    with view(3) n(2) show ?thesis by simp
  next
    case False
    then have m': "m' = m1\<lparr>vm_virt := (vm_virt m1)\<lparr>virtMemTable := (virtMemTable (vm_virt m1))[nat t := Some s],
        virtPageNums := virtPageNums (vm_virt m1) + sint (as_numPages s)\<rparr>\<rparr>"
      using assms(3) entry new n(4) t len by (auto simp: VirtMemManager_createAddrSpace_def)
    have t': "t < THREAD_COUNT_MAX" "space_of m1 t = None" using t None n(3) by (simp_all add: THREAD_COUNT_MAX_def)
    have apart: "\<And>t' s'. space_of m1 t' = Some s' \<Longrightarrow> as_pageTable s' \<noteq> as_pageTable s \<and> sf_file (as_exeFileId s') \<noteq> sf_file (as_exeFileId s)"
      using n(3,7) by simp
    show ?thesis using vm_ok_add_space [OF n(1) t(1) t' n(5,6) apart] n(2) unfolding m' by simp
  qed
qed

section \<open>Reachable states\<close>

definition vm_boot :: "'z vm_scheme \<Rightarrow> bool" where
  "vm_boot m \<longleftrightarrow> (\<exists>junk. MemoryManager_new junk = Inr (vm_virt m, vm_phy m)) \<and> unix_ok (vm_unix m)
     \<and> length (m_mainMemory m) = 16384"

text \<open>
  The operations that touch page tables, frames and memory, in any order: address spaces are made
  and deleted, threads are switched, the user program translates addresses and stores, and the
  current thread takes page faults.
\<close>

inductive vm_step :: "'z vm_scheme \<Rightarrow> 'z vm_scheme \<Rightarrow> bool" where
  create: "MemoryManager_createAddrSpace j h m t name = Inr (r, m') \<Longrightarrow> ux_names (vm_unix m) name \<noteq> None \<Longrightarrow> vm_step m m'"
| delete: "MemoryManager_deleteAddrSpace m t = Inr m' \<Longrightarrow> vm_step m m'"
| switch: "space_of m t = Some s \<Longrightarrow>
    vm_step m (AddrSpace_RestoreState s (m\<lparr>m_pid := t, vm_space := Some s, vm_totalTicks := now\<rparr>))"
| translate: "Machine_Translate m va sz wr = Inr (r, m') \<Longrightarrow> vm_step m m'"
| store: "mem_store (m_mainMemory m) pa sz v = Inr mem \<Longrightarrow> vm_step m (m\<lparr>m_mainMemory := mem\<rparr>)"
| fault: "vm_space m = space_of m (m_pid m) \<Longrightarrow> MemoryManager_pageFaultHandler v m = Inr m' \<Longrightarrow> vm_step m m'"

lemma vm_boot_ok: "vm_boot m \<Longrightarrow> vm_ok m"
proof -
  assume boot: "vm_boot m"
  then obtain junk where new: "MemoryManager_new junk = Inr (vm_virt m, vm_phy m)" by (auto simp: vm_boot_def)
  obtain b where b: "Bitmap_new 128 = Inr b" "bm_inv b" "bm_numBits b = 128" "bm_used b = {}"
    using Bitmap_new_ok [of 128] by auto
  have virt: "vm_virt m = \<lparr>virtPageNums = 0, virtMemTableSize = 128, virtMemTable = replicate 128 None\<rparr>"
    and phy: "vm_phy m = \<lparr>phyPageNums = 128, phyMemoryMap = b, phyMemPageTable = map junk [0..<128], swappingStrategy = SwappingLRU_new 128\<rparr>"
    using new b(1) by (auto simp: MemoryManager_new_def VirtMemManager_new_def PhyMemManager_new_def NumPhysPages_def THREAD_COUNT_MAX_def)
  have space: "space_of m t = None" for t by (auto simp: space_of_def virt THREAD_COUNT_MAX_def nat_less_iff intro!: nth_replicate)
  have "phy_ok (vm_phy m)" using b SwappingLRU_new_ok [of 128] by (simp add: phy phy_ok_def)
  then have "vm_shape m" using boot by (simp add: vm_shape_def space vm_boot_def virt THREAD_COUNT_MAX_def)
  then show "vm_ok m" by (simp add: vm_inv_def in_frame_def space phy b(4))
qed

lemma same_frames:
  assumes "vm_ok m" "vm_virt m' = vm_virt m" "vm_phy m' = vm_phy m" "vm_unix m' = vm_unix m" "vm_nextTable m' = vm_nextTable m"
    and "length (m_mainMemory m') = length (m_mainMemory m)"
    and "\<And>pt. map (\<lambda>e. (pt_valid e, physicalPage e)) (m_pageTables m' pt) = map (\<lambda>e. (pt_valid e, physicalPage e)) (m_pageTables m pt)"
  shows "vm_ok m'"
proof -
  have space: "space_of m' = space_of m" using assms(2) by (simp add: space_of_def fun_eq_iff)
  have len: "length (table_of m' s) = length (table_of m s)" for s
    using arg_cong [OF assms(7) [of "as_pageTable s"], of length] by (simp add: table_of_def)
  have entry: "pt_valid (table_of m' s ! i) = pt_valid (table_of m s ! i)" "physicalPage (table_of m' s ! i) = physicalPage (table_of m s ! i)"
    if "i < length (table_of m s)" for s i
  proof -
    have "(pt_valid (table_of m' s ! i), physicalPage (table_of m' s ! i)) = (pt_valid (table_of m s ! i), physicalPage (table_of m s ! i))"
      using that len [of s] assms(7) [of "as_pageTable s"] unfolding table_of_def by (metis (no_types, lifting) nth_map)
    then show "pt_valid (table_of m' s ! i) = pt_valid (table_of m s ! i)" "physicalPage (table_of m' s ! i) = physicalPage (table_of m s ! i)"
      by simp_all
  qed
  have frames: "in_frame m' = in_frame m"
    by (auto simp: fun_eq_iff in_frame_def space len entry nat_less_iff)
  have "space_ok m' = space_ok m" by (simp add: space_ok_def len fun_eq_iff assms)
  then have "vm_shape m'" using vm_invD(1) [OF assms(1)] by (simp add: vm_shape_def space assms)
  with assms(1) show ?thesis by (simp add: vm_inv_def frames assms(3))
qed

lemma Translate_vm_ok:
  assumes "vm_ok m" "Machine_Translate m va sz wr = Inr (r, m')"
  shows "vm_ok m'"
proof -
  have upd: "map (\<lambda>e. (pt_valid e, physicalPage e)) (xs[i := (xs ! i)\<lparr>dirty := True\<rparr>]) = map (\<lambda>e. (pt_valid e, physicalPage e)) xs" for xs i
    by (rule nth_equalityI, simp, rename_tac k, case_tac "k = i") simp_all
  show ?thesis
    by (rule same_frames [OF assms(1)])
      (use assms(2) in \<open>auto simp: Machine_Translate_def Let_def bindE_eq_Inr arr_get_eq_Inr upd
        split: if_splits prod.splits option.splits\<close>)
qed

lemma vm_step_ok:
  assumes "vm_step m m'" "vm_ok m"
  shows "vm_ok m'"
  using assms
proof (induction rule: vm_step.induct)
  case (create j h m t name r m')
  then show ?case using createAddrSpace_ok [OF create(3,2)] by (simp add: MemoryManager_createAddrSpace_def)
next
  case (delete m t m')
  show ?case
  proof (cases "space_of m t")
    case None
    then have "m' = m" using delete vm_invD(1) [OF delete(2)]
      by (auto simp: MemoryManager_deleteAddrSpace_def VirtMemManager_deleteAddrSpace_def space_of_def vm_shape_def
          THREAD_COUNT_MAX_def split: if_splits)
    with delete show ?thesis by simp
  next
    case (Some s)
    from deleteAddrSpace_ok [OF delete(2) this] delete(1) show ?thesis by (auto simp: MemoryManager_deleteAddrSpace_def)
  qed
next
  case (switch m t s now)
  show ?case by (rule same_frames [OF switch(2)]) (simp_all add: AddrSpace_RestoreState_def)
next
  case (translate m va sz wr r m')
  then show ?case by (blast intro: Translate_vm_ok)
next
  case (store m pa sz v mem)
  show ?case by (rule same_frames [OF store(2)]) (simp_all add: load_store(2) [OF store(1)])
next
  case (fault m v m')
  obtain s where s: "space_of m (m_pid m) = Some s" "0 \<le> v" "v < int (length (table_of m s))"
      "pt_valid (table_of m s ! nat v) \<Longrightarrow> m' = m"
    using fault(2) vm_invD(1) [OF fault(3)]
    by (auto simp: MemoryManager_pageFaultHandler_def VirtMemManager_getAddrSpaceOfThread_def space_of_def vm_shape_def
        bindE_eq_Inr arr_get_eq_Inr deref_def table_of_def split: if_splits option.splits)
  show ?case
  proof (cases "pt_valid (table_of m s ! nat v)")
    case True
    with s(4) fault(3) show ?thesis by simp
  next
    case False
    with pageFaultHandler_served [OF fault(3) s(1) _ s(2,3)] fault(1,2) s(1) show ?thesis by auto
  qed
qed

section \<open>Properties\<close>

text \<open>A machine whose 128 frames hold the first 128 of the 129 pages of one thread.\<close>

definition full_space :: AddrSpace where
  "full_space = \<lparr>as_pageTable = 0, as_threadId = 0, as_numPages = 129, as_exeFileId = Stub_new 3\<rparr>"

definition full_table :: "TranslationEntry list" where
  "full_table = map (\<lambda>i. if i < 128 then example_entry (of_nat i) (of_nat i) False else fresh_entry i) [0..<129]"

definition full_phy :: PhyMemManager where
  "full_phy = \<lparr>phyPageNums = 128, phyMemoryMap = \<lparr>bm_numBits = 128, bm_numWords = 4, bm_map = replicate 4 (- 1)\<rparr>,
     phyMemPageTable = map (\<lambda>i. \<lparr>mainThreadId = 0, pm_virtualPage = int i\<rparr>) [0..<128],
     swappingStrategy = SwappingLRU_new 128\<rparr>"

definition full_tlb :: tlb where
  "full_tlb = TLBManager_update (TLBManager_new \<lparr>Tag = 0, PPN = 0, valid = False, threadId = 0, lru = 0\<rparr>) 0 0 0"

definition full_vm :: vm where
  "full_vm = \<lparr>m_registers = replicate 40 0, m_mainMemory = replicate 16384 0, m_tlb = full_tlb,
     m_pageTables = (\<lambda>_. full_table), m_pageTable = Some 0, m_pageTableSize = 129, m_singleStep = False,
     m_runUntilTime = 0, m_status = UserMode, m_pid = 0, vm_unix = example_unix, vm_phy = full_phy,
     vm_virt = \<lparr>virtPageNums = 129, virtMemTableSize = 128, virtMemTable = Some full_space # replicate 127 None\<rparr>,
     vm_space = Some full_space, vm_totalTicks = 5, vm_numPageFaults = 0, vm_nextTable = 1\<rparr>"

lemma full_space_of: "space_of full_vm t = (if t = 0 then Some full_space else None)"
  by (auto simp: space_of_def full_vm_def THREAD_COUNT_MAX_def nth_Cons nat_less_iff split: nat.splits intro!: nth_replicate)

lemma full_table_entry:
  "length full_table = 129" "i < 128 \<Longrightarrow> full_table ! i = example_entry (of_nat i) (of_nat i) False"
  "full_table ! 128 = fresh_entry 128"
  by (simp_all add: full_table_def del: upt_Suc)

lemma full_in_frame: "in_frame full_vm t v f \<longleftrightarrow> t = 0 \<and> 0 \<le> v \<and> v < 128 \<and> f = v"
proof -
  have table: "table_of full_vm full_space = full_table" by (simp add: table_of_def full_vm_def)
  have low: "pt_valid (full_table ! nat v) \<and> sint (physicalPage (full_table ! nat v)) = v" if "0 \<le> v" "v < 128"
    using that full_table_entry(2) [of "nat v"] by (simp add: example_entry_def nat_less_iff sint_word_of_int_ok int_ok_def)
  have high: "\<not> pt_valid (full_table ! nat v)" if "\<not> v < 128" "v < 129"
  proof -
    have "nat v = 128" using that by simp
    then show ?thesis using full_table_entry(3) by (simp add: fresh_entry_def)
  qed
  show ?thesis
    using low high full_table_entry(1)
    by (cases "v < 128"; cases "v < 129") (auto simp: in_frame_def full_space_of table split: if_splits)
qed

lemma full_used: "bm_used (phyMemoryMap full_phy) = {0..<128}"
  by (auto simp: bm_used_def bm_bit_def full_phy_def nat_less_iff)

lemma full_vm_ok: "vm_ok full_vm"
proof -
  have unix: "unix_ok example_unix" by (simp add: unix_ok_def example_unix_def)
  have "space_ok full_vm full_space"
    using full_table_entry(1) by (simp add: space_ok_def table_of_def) (simp add: full_vm_def full_space_def Stub_new_def example_unix_def)
  moreover have "phy_ok full_phy"
    using SwappingLRU_new_ok [of 128] by (simp add: phy_ok_def full_phy_def bm_inv_def divRoundUp_def)
  ultimately have "vm_shape full_vm"
    by (simp add: vm_shape_def full_space_of) (simp add: full_vm_def unix THREAD_COUNT_MAX_def)
  moreover have "phyMemPageTable full_phy ! nat f = \<lparr>mainThreadId = 0, pm_virtualPage = f\<rparr>" if "0 \<le> f" "f < 128" for f
    using that by (simp add: full_phy_def nat_less_iff del: upt_Suc)
  ultimately show ?thesis
    using full_used by (auto simp: vm_inv_def full_in_frame) (auto simp: full_vm_def)
qed

text \<open>
  C33. A page fault of the current thread on a page of its space is always served: the handler
  returns with the page in a frame, the frame holds the page as it is in the executable, no other
  page is moved and no other byte of memory changes; the frame was free or, when all 128 were
  taken, the least recently loaded one, whose page was first written to its file if it was dirty.
  The one-to-one correspondence of marked frames and valid entries is kept.
\<close>

theorem page_fault_correct:
  assumes "vm_ok m" "space_of m (m_pid m) = Some s" "vm_space m = Some s"
    and "0 \<le> v" "v < int (length (table_of m s))" "\<not> pt_valid (table_of m s ! nat v)"
  shows "\<exists>f m'. MemoryManager_pageFaultHandler v m = Inr m' \<and> vm_ok m' \<and> fault_served m s v f m'"
  by (rule pageFaultHandler_served [OF assms])

theorem page_fault_correct_witness:
  "vm_ok full_vm \<and> \<not> pt_valid (table_of full_vm full_space ! nat 128)
   \<and> (\<exists>f m'. MemoryManager_pageFaultHandler 128 full_vm = Inr m' \<and> vm_ok m' \<and> fault_served full_vm full_space 128 f m')"
proof -
  have table: "table_of full_vm full_space = full_table" by (simp add: table_of_def full_vm_def)
  have inv: "\<not> pt_valid (table_of full_vm full_space ! nat 128)"
    using full_table_entry(3) by (simp add: table fresh_entry_def)
  have "m_pid full_vm = 0" "vm_space full_vm = Some full_space" by (simp_all add: full_vm_def)
  then have "space_of full_vm (m_pid full_vm) = Some full_space" by (simp add: full_space_of)
  from page_fault_correct [OF full_vm_ok this \<open>vm_space full_vm = Some full_space\<close> _ _ inv] inv full_vm_ok
  show ?thesis using full_table_entry(1) by (simp add: table)
qed

text \<open>
  C34. Whatever sequence of address-space creations and deletions, thread switches, translations,
  stores and page faults the system goes through after its start, two different pages never
  occupy the same frame, and the frames marked in the bitmap are exactly the occupied ones.
\<close>

definition frames_isolated :: "'z vm_scheme \<Rightarrow> bool" where
  "frames_isolated m \<longleftrightarrow>
     (\<forall>t v f t' v'. in_frame m t v f \<and> in_frame m t' v' f \<longrightarrow> t = t' \<and> v = v')
     \<and> bm_used (phyMemoryMap (vm_phy m)) = {f. \<exists>t v. in_frame m t v f}"


text \<open>A program of eight code pages and no data, ready to be started.\<close>

definition boot_file :: "byte list" where
  "boot_file = [0xad, 0xdf, 0xba, 0, 0, 0, 0, 0, 52, 0, 0, 0, 0, 4, 0, 0,
     0, 0, 0, 0, 0, 0, 0, 0, 0, 0, 0, 0, 0, 0, 0, 0, 0, 0, 0, 0, 0, 0, 0, 0, 0, 0, 0, 0, 0, 0, 0, 0, 0, 0, 0, 0]"

definition boot_vm :: vm where
  "boot_vm = full_vm\<lparr>vm_virt := \<lparr>virtPageNums = 0, virtMemTableSize = 128, virtMemTable = replicate 128 None\<rparr>,
     vm_phy := \<lparr>phyPageNums = 128, phyMemoryMap = (case Bitmap_new 128 of Inr b \<Rightarrow> b),
       phyMemPageTable = map (\<lambda>_. \<lparr>mainThreadId = 0, pm_virtualPage = 0\<rparr>) [0..<128],
       swappingStrategy = SwappingLRU_new 128\<rparr>,
     vm_unix := example_unix\<lparr>ux_inodes := (\<lambda>_. boot_file)\<rparr>\<rparr>"

lemma boot_vm_boot: "vm_boot boot_vm"
proof -
  obtain b where "Bitmap_new 128 = Inr b" using Bitmap_new_ok [of 128] by auto
  then have "MemoryManager_new (\<lambda>_. \<lparr>mainThreadId = 0, pm_virtualPage = 0\<rparr>) = Inr (vm_virt boot_vm, vm_phy boot_vm)"
    by (simp add: MemoryManager_new_def VirtMemManager_new_def PhyMemManager_new_def NumPhysPages_def THREAD_COUNT_MAX_def
        boot_vm_def del: upt_Suc)
  then show ?thesis by (auto simp: vm_boot_def boot_vm_def full_vm_def unix_ok_def example_unix_def simp del: upt_Suc)
qed

lemma boot_header:
  "NoffHeader_of_bytes boot_file
   = \<lparr>noffMagic = NOFFMAGIC, seg_code = \<lparr>virtualAddr = 0, inFileAddr = 52, seg_size = 1024\<rparr>,
      initData = \<lparr>virtualAddr = 0, inFileAddr = 0, seg_size = 0\<rparr>, readonlyData = \<lparr>virtualAddr = 0, inFileAddr = 0, seg_size = 0\<rparr>,
      uninitData = \<lparr>virtualAddr = 0, inFileAddr = 0, seg_size = 0\<rparr>\<rparr>"
  by (simp add: NoffHeader_of_bytes_def segment_of_bytes_def boot_file_def NOFFMAGIC_def push_bit_eq_mult)

lemma boot_create:
  "\<exists>s m'. MemoryManager_createAddrSpace full_space [] boot_vm 1 [97] = Inr (Some s, m') \<and> as_numPages s = 16
     \<and> space_of m' 1 = Some s"
proof -
  have len: "length boot_file = 52" by (simp add: boot_file_def)
  have opn: "StubFS_Open (vm_unix boot_vm) [97] = Inr (Some (Stub_new 4), (vm_unix boot_vm)\<lparr>ux_fds := [3 \<mapsto> (0, 0), 4 \<mapsto> (0, 0)], ux_nextFd := 5\<rparr>)"
    by (simp add: StubFS_Open_def OpenForReadWrite_def ux_open_def boot_vm_def example_unix_def)
  have rd: "\<exists>u. Stub_ReadAt (Stub_new 4) ((vm_unix boot_vm)\<lparr>ux_fds := [3 \<mapsto> (0, 0), 4 \<mapsto> (0, 0)], ux_nextFd := 5\<rparr>) sizeof_NoffHeader 0
      = Inr (52, boot_file, u)"
    by (simp add: Stub_ReadAt_def Lseek_def ux_lseek_def ReadPartial_def ux_read_def sizeof_NoffHeader_def boot_vm_def
        example_unix_def Stub_new_def len)
  then obtain u where u: "Stub_ReadAt (Stub_new 4) ((vm_unix boot_vm)\<lparr>ux_fds := [3 \<mapsto> (0, 0), 4 \<mapsto> (0, 0)], ux_nextFd := 5\<rparr>) sizeof_NoffHeader 0
      = Inr (52, boot_file, u)" by blast
  have ov: "overwrite 0 boot_file [] = boot_file" by (simp add: overwrite_def)
  have sz: "(2048 :: 32 word) div PageSize = 16" "(2048 :: 32 word) mod PageSize = 0" by (simp_all add: PageSize_def)
  obtain m1 where new: "AddrSpace_new full_space [] boot_vm 1 [97] = Inr (\<lparr>as_pageTable = 1, as_threadId = 1, as_numPages = 16, as_exeFileId = Stub_new 4\<rparr>, m1)"
      "vm_virt m1 = vm_virt boot_vm"
    using opn u ov boot_header sz
    by (simp add: AddrSpace_new_def Let_def UserStackSize_def) (simp add: boot_vm_def full_vm_def)
  show ?thesis
    using new by (simp add: MemoryManager_createAddrSpace_def VirtMemManager_createAddrSpace_def boot_vm_def
        space_of_def THREAD_COUNT_MAX_def MAX_VIRT_PAGES_def)
qed


text \<open>
  C35. Every instruction of a user program, page faults and system calls included, leaves the
  processor state well-formed: forty registers, register zero equal to zero, the pending load
  aimed at a general register, and all of physical memory in place.
\<close>

theorem instructions_keep_cpu_state:
  fixes m :: "'z vm_scheme"
  assumes "cpu_ok m" "Machine_OneInstruction ExceptionHandler m = Inr m'"
  shows "cpu_ok m'"
  by (rule kernel.OneInstruction_ok [OF assms])

lemma word_of_zero_bytes: "word_of_bytes (replicate n 0) = 0"
  by (induction n) simp_all

lemma full_vm_fetch: "Machine_ReadMem ExceptionHandler full_vm 0 4 = Inr (Some 0, full_vm)"
proof -
  have tlb: "TLBManager_translate full_tlb 0 = (0, full_tlb)"
    by (simp add: full_tlb_def TLBManager_translate_def TLBManager_update_def TLBManager_new_def TLBI_def TLBT_def tlb_scan.simps
        tlb_victim.simps numeral_eq_Suc)
  then have tr: "Machine_Translate full_vm 0 4 False = Inr ((NoException, Some 0), full_vm)"
    by (simp add: Machine_Translate_def full_vm_def)
  have "mem_load (m_mainMemory full_vm) 0 4 = Inr 0"
    by (simp add: mem_load_def full_vm_def WordToHost_def word_of_zero_bytes)
  then show ?thesis by (simp add: Machine_ReadMem_def tr retry_address_def)
qed

theorem instructions_keep_cpu_state_witness:
  "cpu_ok full_vm \<and> (\<exists>m'. Machine_OneInstruction ExceptionHandler full_vm = Inr m' \<and> cpu_ok m')"
proof -
  have ok: "cpu_ok full_vm" by (simp add: cpu_ok_def cpu_shape_def rg_def full_vm_def PhysicalMemorySize_def NumPhysPages_def PageSize_def)
  have "rg full_vm PCReg = 0" by (simp add: rg_def full_vm_def)
  with full_vm_fetch have fetch: "Machine_ReadMem ExceptionHandler full_vm (rg full_vm PCReg) 4 = Inr (Some 0, full_vm)" by simp
  have dec: "Instruction_Decode 0 = \<lparr>ins_value = 0, ins_opCode = OP_SLL, ins_rs = 0, ins_rt = 0, ins_rd = 0, ins_extra = 0\<rparr>"
    by (simp add: Instruction_Decode_def opTable_def specialTable_def field5_def)
  obtain r where sw: "exec_switch ExceptionHandler (Instruction_Decode 0) (rg full_vm NextPCReg + 4) full_vm
      = Inr (Advance 0 0 (rg full_vm NextPCReg + 4) r)" "cpu_shape r"
    using set_rg_shape [OF cpu_ok_shape [OF ok], of 0] by (simp add: dec exec_switch_def exec_shift_def)
  obtain r' where "Machine_DelayedLoad r 0 0 = Inr r'" using DelayedLoad_ok [OF sw(2), of 0 0] by auto
  with fetch sw(1) obtain m' where run: "Machine_OneInstruction ExceptionHandler full_vm = Inr m'"
    by (auto simp: Machine_OneInstruction_def Let_def)
  from instructions_keep_cpu_state [OF ok run] run ok show ?thesis by blast
qed

lemma invalidEntry_keeps:
  assumes "tlb_inv T" "(vpn, p) \<in> tlb_holds T" "vpn \<noteq> w"
  shows "(vpn, p) \<in> tlb_holds (TLBManager_invalidEntry T th w)"
proof (cases "TLBI vpn = TLBI w")
  case False
  then show ?thesis using assms by (simp add: tlb_holds_def TLBManager_invalidEntry_def)
next
  case True
  then have "TLBT vpn \<noteq> TLBT w" using assms(3) tlb_key_eq by blast
  then show ?thesis using assms(1,2) True by (force simp: tlb_holds_def TLBManager_invalidEntry_def)
qed

lemma evict_page_tlb:
  assumes "vm_ok m" "in_frame m t v f" "evict_page m = Inr (f, m')" "space_of m t = Some s"
  shows "m_tlb m' = (if dirty (table_of m s ! nat v) then TLBManager_invalidEntry (m_tlb m) v (word_of_int t) else m_tlb m)"
proof -
  have phy: "phy_ok (vm_phy m)" using vm_invD(1) [OF assms(1)] by (simp add: vm_shape_def)
  have f: "f \<in> bm_used (phyMemoryMap (vm_phy m))" using vm_invD(2) [OF assms(1), of f] assms(2) by blast
  then have "Bitmap_Test (phyMemoryMap (vm_phy m)) f = Inr True"
    using Test_ok [of "phyMemoryMap (vm_phy m)" f] in_frame_range [OF assms(1,2)] phy by (simp add: phy_ok_def)
  then have g: "PhyMemManager_getMainThread (vm_phy m) f = Inr t" "PhyMemManager_getVirtualPage (vm_phy m) f = Inr v"
    using vm_invD(4) [OF assms(1,2)] in_frame_range [OF assms(1,2)] phy
    by (simp_all add: PhyMemManager_getMainThread_def PhyMemManager_getVirtualPage_def phy_ok_def)
  have "VirtMemManager_getAddrSpaceOfThread (vm_virt m) t = Inr (Some s)"
    using assms(4) vm_invD(1) [OF assms(1)] by (auto simp: VirtMemManager_getAddrSpaceOfThread_def space_of_def vm_shape_def
        THREAD_COUNT_MAX_def split: if_splits)
  moreover have "PhyMemManager_swapOnePage (vm_phy m) = Inr f" using assms(3) by (auto simp: evict_page_def bindE_eq_Inr)
  ultimately show ?thesis
    using assms(3) g by (auto simp: evict_page_def deref_def set_pte_def table_of_def bindE_eq_Inr arr_get_eq_Inr split: if_splits)
qed

text \<open>
  C36. Eviction does not remove the translation of the evicted page from the TLB: unless the page
  is dirty and its number happens to be the number of its thread, an entry of the TLB that sends
  the page to the frame is still there after the page has lost the frame. (The handler calls
  \<open>invalidEntry\<close> only for dirty pages, and with its two arguments exchanged.)
\<close>

theorem eviction_leaves_stale_entry:
  assumes "vm_ok m" "bm_used (phyMemoryMap (vm_phy m)) = bm_all (phyMemoryMap (vm_phy m))" "evict_page m = Inr (f, m')"
    and "in_frame m t v f" "space_of m t = Some s" "\<not> dirty (table_of m s ! nat v) \<or> v \<noteq> t"
    and "tlb_inv (m_tlb m)" "(word_of_int v, word_of_int f) \<in> tlb_holds (m_tlb m)"
  shows "\<not> in_frame m' t v f \<and> (word_of_int v, word_of_int f) \<in> tlb_holds (m_tlb m')"
proof -
  have "\<not> in_frame m' t v f" using evict_page_ok [OF assms(1,2)] assms(3) by auto
  moreover have "0 \<le> t" "t < 128" "0 \<le> v" using assms(4) by (auto simp: in_frame_def space_of_def THREAD_COUNT_MAX_def split: if_splits)
  have "int (length (table_of m s)) = sint (as_numPages s)"
    using vm_invD(1) [OF assms(1)] assms(5) by (auto simp: vm_shape_def space_ok_def)
  then have "v < 2 ^ 31" using assms(4,5) sint_bounds(2) [of "as_numPages s"] by (auto simp: in_frame_def)
  then have "(word_of_int v :: 32 word) \<noteq> word_of_int t" if "v \<noteq> t"
    using that \<open>0 \<le> v\<close> \<open>0 \<le> t\<close> \<open>t < 128\<close> sint_word_of_int_ok [of v] sint_word_of_int_ok [of t] by (auto simp: int_ok_def)
  then have "(word_of_int v, word_of_int f) \<in> tlb_holds (m_tlb m')"
    unfolding evict_page_tlb [OF assms(1,4,3,5)] using assms(6,8) invalidEntry_keeps [OF assms(7,8)] by auto
  ultimately show ?thesis by blast
qed

theorem eviction_leaves_stale_entry_witness:
  "vm_ok full_vm \<and> (\<exists>m'. evict_page full_vm = Inr (0, m') \<and> in_frame full_vm 0 0 0
     \<and> \<not> in_frame m' 0 0 0 \<and> (word_of_int 0, word_of_int 0) \<in> tlb_holds (m_tlb m'))"
proof -
  have full: "bm_used (phyMemoryMap (vm_phy full_vm)) = bm_all (phyMemoryMap (vm_phy full_vm))"
    using full_used by (simp add: full_vm_def) (simp add: bm_all_def full_phy_def)
  obtain f t v s m' where e: "evict_page full_vm = Inr (f, m')" "in_frame full_vm t v f"
    using evict_page_ok [OF full_vm_ok full] by blast
  have "lru_time (SwappingLRU_new 128) 0 = - 1" "\<And>j. 0 \<le> j \<Longrightarrow> j < 128 \<Longrightarrow> lru_time (SwappingLRU_new 128) j = - 1"
    by (simp_all add: lru_time_def SwappingLRU_new_def nat_less_iff)
  moreover obtain k where k: "SwappingLRU_findOneElementToSwap (SwappingLRU_new 128) = Inr k" "0 \<le> k" "k < 128"
      "\<forall>j. 0 \<le> j \<and> j < k \<longrightarrow> lru_time (SwappingLRU_new 128) k < lru_time (SwappingLRU_new 128) j"
    using lru.find_least [of "SwappingLRU_new 128"] SwappingLRU_new_ok [of 128] by auto
  ultimately have "k = 0" by (metis le_less less_irrefl order_refl)
  then have "f = 0" using e(1) k(1) by (auto simp: evict_page_def PhyMemManager_swapOnePage_def full_vm_def full_phy_def bindE_eq_Inr)
  then have e0: "evict_page full_vm = Inr (0, m')" "in_frame full_vm 0 0 0" using e by (simp_all add: full_in_frame)
  have clean: "\<not> dirty (table_of full_vm full_space ! nat 0)"
    using full_table_entry(2) [of 0] by (simp add: table_of_def full_vm_def example_entry_def)
  have "tlb_inv full_tlb" "(0 div PageSize, 0) \<in> tlb_holds full_tlb"
    unfolding full_tlb_def by (rule TLBManager_update_ok, rule TLBManager_new_inv)+
  then have tlb: "tlb_inv (m_tlb full_vm)" "(word_of_int 0, word_of_int 0) \<in> tlb_holds (m_tlb full_vm)"
    by (simp_all add: full_vm_def)
  have sp: "space_of full_vm 0 = Some full_space" by (simp add: full_space_of)
  from eviction_leaves_stale_entry [OF full_vm_ok full e0(1,2) sp _ tlb] clean e0 full_vm_ok show ?thesis by blast
qed

end
