(* ===== verification/Sequence.thy ===== *)
theory Sequence
  imports Linked_List
begin

text \<open>
  The list methods that the kernel's queues use, as operations on HOL lists: ready list, semaphore
  queues, wait queues, pending interrupts, the lists of the thread manager. The lemmas tie each of
  them to the pointer implementation of Linked_List: on a list that represents \<open>xs\<close> the method
  stops with the same fault or returns a list that represents the result.
\<close>

definition seq_RemoveFront :: "'a list \<Rightarrow> ('a \<times> 'a list) res" where
  "seq_RemoveFront xs = (case xs of [] \<Rightarrow> Inl Assert_Failed | x # ys \<Rightarrow> Inr (x, ys))"

definition seq_Front :: "'a list \<Rightarrow> 'a res" where
  "seq_Front xs = (case xs of [] \<Rightarrow> Inl Bad_Access | x # ys \<Rightarrow> Inr x)"

definition seq_Remove :: "'a \<Rightarrow> 'a list \<Rightarrow> 'a list res" where
  "seq_Remove x xs = (if count_list xs x = 1 then Inr (remove1 x xs) else Inl Assert_Failed)"

definition seq_Insert :: "('a \<Rightarrow> 'a \<Rightarrow> int) \<Rightarrow> 'a \<Rightarrow> 'a list \<Rightarrow> 'a list res" where
  "seq_Insert cmp x xs = (if x \<in> set xs then Inl Assert_Failed else Inr (sorted_insert cmp x xs))"

lemma seq_simps [simp]:
  "seq_RemoveFront [] = Inl Assert_Failed" "seq_RemoveFront (x # xs) = Inr (x, xs)"
  "seq_Front [] = Inl Bad_Access" "seq_Front (x # xs) = Inr x"
  "x \<notin> set xs \<Longrightarrow> seq_Insert cmp x xs = Inr (sorted_insert cmp x xs)"
  by (simp_all add: seq_RemoveFront_def seq_Front_def seq_Insert_def)

lemma seq_Insert_eq_Inr [res_simps]:
  "seq_Insert cmp x xs = Inr ys \<longleftrightarrow> x \<notin> set xs \<and> ys = sorted_insert cmp x xs"
  by (auto simp: seq_Insert_def)

lemma seq_RemoveFront_eq_Inr [res_simps]: "seq_RemoveFront xs = Inr (x, ys) \<longleftrightarrow> xs = x # ys"
  by (auto simp: seq_RemoveFront_def split: list.splits)

lemma seq_Remove_eq_Inr [res_simps]:
  "seq_Remove x xs = Inr ys \<longleftrightarrow> count_list xs x = 1 \<and> ys = remove1 x xs"
  by (auto simp: seq_Remove_def)

lemma distinct_sorted_insert [simp]: "distinct (sorted_insert cmp x xs) \<longleftrightarrow> distinct (x # xs)"
  using mset_sorted_insert [of cmp x xs] by (metis mset.simps(2) mset_eq_imp_distinct_iff)

lemma length_sorted_insert [simp]: "length (sorted_insert cmp x xs) = Suc (length xs)"
  using mset_sorted_insert [of cmp x xs] by (metis mset.simps(2) size_mset length_Cons)

lemma seq_agree:
  assumes "List_rep l xs"
  shows "rel_sum (=) (\<lambda>(x, l') (y, ys). x = y \<and> List_rep l' ys) (List_RemoveFront l) (seq_RemoveFront xs)"
    and "List_Front l = seq_Front xs"
    and "rel_sum (=) List_rep (List_Append l x) (Inr (xs @ [x]))"
    and "rel_sum (=) List_rep (List_Remove l x) (seq_Remove x xs)"
    and "rel_sum (=) List_rep (SortedList_Insert cmp l x) (seq_Insert cmp x xs)"
    and "List_IsEmpty l \<longleftrightarrow> xs = []"
proof -
  show "rel_sum (=) (\<lambda>(x, l') (y, ys). x = y \<and> List_rep l' ys) (List_RemoveFront l) (seq_RemoveFront xs)"
    using assms RemoveFront_rep [of l] RemoveFront_rep_Nil [of l] by (cases xs) force+
  show "List_Front l = seq_Front xs"
    using Front_rep [OF assms] by (simp add: seq_Front_def split: list.splits)
  show "rel_sum (=) List_rep (List_Append l x) (Inr (xs @ [x]))" using Append_rep [OF assms, of x] by auto
  show "rel_sum (=) List_rep (List_Remove l x) (seq_Remove x xs)"
    using Remove_rep [OF assms, of x] by (auto simp: seq_Remove_def split: if_splits)
  show "rel_sum (=) List_rep (SortedList_Insert cmp l x) (seq_Insert cmp x xs)"
    using Insert_rep [OF assms, of x cmp] by (auto simp: seq_Insert_def split: if_splits)
  show "List_IsEmpty l \<longleftrightarrow> xs = []" by (rule IsEmpty_rep [OF assms])
qed

end
