(* ===== verification/Hash.thy ===== *)
theory Hash
  imports Sequence
begin

text \<open>
  lib/hash.h and lib/hash.cc: the template class \<open>HashTable\<close>, an array of lists that grows by
  \<open>ReHash\<close>, and \<open>HashIterator\<close>.

  A bucket is a HOL list; theory Sequence ties the list methods used here to the pointers of
  Linked_List. The functions passed to the constructor are fields of the record. An iterator of a
  bucket is the list of the items from the current one on. The hash function returns an
  \<open>unsigned\<close>, so the remainder of \<open>HashValue\<close> is taken on words and then read as an \<open>int\<close>.

  \<open>hash_rep h M\<close> says that \<open>h\<close> is a legal table that holds the finite map \<open>M\<close>; the lemmas show that
  every operation implements the one on maps. The table has \<open>4 ^ n\<close> buckets; as it grows only when
  there are three items per bucket, it stays below \<open>2 ^ 31\<close> buckets while the number of items does.
\<close>

section \<open>The class HashTable\<close>

definition InitialBuckets :: int where "InitialBuckets = 4"
definition ResizeRatio :: int where "ResizeRatio = 3"
definition IncreaseSizeBy :: int where "IncreaseSizeBy = 4"

record ('k, 't) hashtable =
  ht_buckets :: "'t list list"
  ht_numBuckets :: int
  ht_numItems :: int
  ht_getKey :: "'t \<Rightarrow> 'k"
  ht_hash :: "'k \<Rightarrow> 32 word"

definition HashTable_InitBuckets :: "int \<Rightarrow> ('k, 't) hashtable \<Rightarrow> ('k, 't) hashtable" where
  "HashTable_InitBuckets sz h = h\<lparr>ht_numBuckets := sz, ht_buckets := replicate (nat sz) []\<rparr>"

definition HashTable_new :: "('t \<Rightarrow> 'k) \<Rightarrow> ('k \<Rightarrow> 32 word) \<Rightarrow> ('k, 't) hashtable" where
  "HashTable_new get hFunc =
     HashTable_InitBuckets InitialBuckets
       \<lparr>ht_buckets = [], ht_numBuckets = 0, ht_numItems = 0, ht_getKey = get, ht_hash = hFunc\<rparr>"

definition HashTable_IsEmpty :: "('k, 't) hashtable \<Rightarrow> bool" where
  "HashTable_IsEmpty h \<longleftrightarrow> ht_numItems h = 0"

definition HashTable_delete :: "('k, 't) hashtable \<Rightarrow> unit res" where
  "HashTable_delete h = assertE (HashTable_IsEmpty h)"

definition HashTable_HashValue :: "('k, 't) hashtable \<Rightarrow> 'k \<Rightarrow> int res" where
  "HashTable_HashValue h key =
     (let n = word_of_int (ht_numBuckets h) :: 32 word in
      if n = 0 then Inl Arith_Trap
      else let result = sint (ht_hash h key mod n) in
           bindE (assertE (0 \<le> result \<and> result < ht_numBuckets h)) (\<lambda>_. Inr result))"

text \<open>\<open>None\<close>: not found, \<open>*itemPtr\<close> is \<open>NULL\<close>.\<close>

fun find_in_list :: "('t \<Rightarrow> 'k) \<Rightarrow> 'k \<Rightarrow> 't list \<Rightarrow> 't option" where
  "find_in_list get key [] = None"
| "find_in_list get key (x # xs) = (if key = get x then Some x else find_in_list get key xs)"

definition HashTable_FindInBucket :: "('k, 't) hashtable \<Rightarrow> int \<Rightarrow> 'k \<Rightarrow> 't option res" where
  "HashTable_FindInBucket h bucket key =
     bindE (arr_get (ht_buckets h) bucket) (\<lambda>b. Inr (find_in_list (ht_getKey h) key b))"

definition HashTable_Find :: "('k, 't) hashtable \<Rightarrow> 'k \<Rightarrow> 't option res" where
  "HashTable_Find h key = bindE (HashTable_HashValue h key) (\<lambda>bucket. HashTable_FindInBucket h bucket key)"

definition HashTable_IsInTable :: "('k, 't) hashtable \<Rightarrow> 'k \<Rightarrow> bool res" where
  "HashTable_IsInTable h key = bindE (HashTable_Find h key) (\<lambda>r. Inr (r \<noteq> None))"

fun sanity_bucket :: "('k, 't) hashtable \<Rightarrow> int \<Rightarrow> 't list \<Rightarrow> unit res" where
  "sanity_bucket h i [] = Inr ()"
| "sanity_bucket h i (x # xs) =
     bindE (HashTable_HashValue h (ht_getKey h x)) (\<lambda>v. bindE (assertE (i = v)) (\<lambda>_. sanity_bucket h i xs))"

fun sanity_buckets :: "('k, 't) hashtable \<Rightarrow> int \<Rightarrow> int \<Rightarrow> 't list list \<Rightarrow> int res" where
  "sanity_buckets h i numFound [] = Inr numFound"
| "sanity_buckets h i numFound (b # bs) =
     bindE (sanity_bucket h i b) (\<lambda>_. sanity_buckets h (i + 1) (numFound + int (length b)) bs)"

definition HashTable_SanityCheck :: "('k, 't) hashtable \<Rightarrow> unit res" where
  "HashTable_SanityCheck h =
     bindE (sanity_buckets h 0 0 (ht_buckets h)) (\<lambda>numFound. assertE (ht_numItems h = numFound))"

definition append_item :: "('k, 't) hashtable \<Rightarrow> 't \<Rightarrow> ('k, 't) hashtable res" where
  "append_item h item =
     bindE (HashTable_HashValue h (ht_getKey h item)) (\<lambda>v.
     bindE (arr_get (ht_buckets h) v) (\<lambda>b.
     bindE (arr_set (ht_buckets h) v (b @ [item])) (\<lambda>bs. Inr (h\<lparr>ht_buckets := bs\<rparr>))))"

text \<open>The inner and the outer loop of \<open>ReHash\<close> over the old table.\<close>

fun rehash_bucket :: "('k, 't) hashtable \<Rightarrow> 't list \<Rightarrow> ('k, 't) hashtable res" where
  "rehash_bucket h [] = Inr h"
| "rehash_bucket h (x # xs) = bindE (append_item h x) (\<lambda>h. rehash_bucket h xs)"

fun rehash_table :: "('k, 't) hashtable \<Rightarrow> 't list list \<Rightarrow> ('k, 't) hashtable res" where
  "rehash_table h [] = Inr h"
| "rehash_table h (b # bs) = bindE (rehash_bucket h b) (\<lambda>h. rehash_table h bs)"

definition HashTable_ReHash :: "('k, 't) hashtable \<Rightarrow> ('k, 't) hashtable res" where
  "HashTable_ReHash h =
     (let oldTable = ht_buckets h in
      bindE (HashTable_SanityCheck h) (\<lambda>_.
      bindE (rehash_table (HashTable_InitBuckets (ht_numBuckets h * IncreaseSizeBy) h) oldTable) (\<lambda>h.
      bindE (HashTable_SanityCheck h) (\<lambda>_. Inr h))))"

definition HashTable_Insert :: "('k, 't) hashtable \<Rightarrow> 't \<Rightarrow> ('k, 't) hashtable res" where
  "HashTable_Insert h item =
     (let key = ht_getKey h item in
      bindE (HashTable_IsInTable h key) (\<lambda>t. bindE (assertE (\<not> t)) (\<lambda>_.
      bindE (if ht_numItems h sdiv ht_numBuckets h \<ge> ResizeRatio then HashTable_ReHash h else Inr h) (\<lambda>h.
      bindE (append_item h item) (\<lambda>h.
      let h = h\<lparr>ht_numItems := ht_numItems h + 1\<rparr> in
      bindE (HashTable_IsInTable h key) (\<lambda>t. bindE (assertE t) (\<lambda>_. Inr h)))))))"

definition HashTable_Remove :: "('k, 't) hashtable \<Rightarrow> 'k \<Rightarrow> ('t \<times> ('k, 't) hashtable) res" where
  "HashTable_Remove h key =
     bindE (HashTable_HashValue h key) (\<lambda>bucket.
     bindE (HashTable_FindInBucket h bucket key) (\<lambda>found.
     case found of None \<Rightarrow> Inl Assert_Failed
     | Some item \<Rightarrow>
         bindE (arr_get (ht_buckets h) bucket) (\<lambda>b.
         bindE (seq_Remove item b) (\<lambda>b.
         bindE (arr_set (ht_buckets h) bucket b) (\<lambda>bs.
         let h = h\<lparr>ht_buckets := bs, ht_numItems := ht_numItems h - 1\<rparr> in
         bindE (HashTable_IsInTable h key) (\<lambda>t. bindE (assertE (\<not> t)) (\<lambda>_. Inr (item, h))))))))"

text \<open>\<open>Apply\<close> returns the items in the order of the calls of the function.\<close>

definition HashTable_Apply :: "('k, 't) hashtable \<Rightarrow> 't list" where
  "HashTable_Apply h = concat (ht_buckets h)"

section \<open>The class HashIterator\<close>

record 't hashiter =
  hi_bucket :: int
  hi_bucketIter :: "'t list option"

function HashTable_FindNextFullBucket :: "('k, 't) hashtable \<Rightarrow> int \<Rightarrow> int res" where
  "HashTable_FindNextFullBucket h bucket =
     (if bucket < ht_numBuckets h
      then bindE (arr_get (ht_buckets h) bucket) (\<lambda>b.
           if b \<noteq> [] then Inr bucket else HashTable_FindNextFullBucket h (bucket + 1))
      else Inr bucket)"
  by pat_completeness auto
termination
  by (relation "measure (\<lambda>(h, b). nat (ht_numBuckets h - b))") auto

definition iter_at :: "('k, 't) hashtable \<Rightarrow> int \<Rightarrow> 't hashiter res" where
  "iter_at h start =
     bindE (HashTable_FindNextFullBucket h start) (\<lambda>bucket.
     if bucket < ht_numBuckets h
     then bindE (arr_get (ht_buckets h) bucket) (\<lambda>b. Inr \<lparr>hi_bucket = bucket, hi_bucketIter = Some b\<rparr>)
     else Inr \<lparr>hi_bucket = bucket, hi_bucketIter = None\<rparr>)"

definition HashIterator_new :: "('k, 't) hashtable \<Rightarrow> 't hashiter res" where
  "HashIterator_new h = iter_at h 0"

definition HashIterator_IsDone :: "('k, 't) hashtable \<Rightarrow> 't hashiter \<Rightarrow> bool" where
  "HashIterator_IsDone h it \<longleftrightarrow> hi_bucket it = ht_numBuckets h"

definition HashIterator_Item :: "('k, 't) hashtable \<Rightarrow> 't hashiter \<Rightarrow> 't res" where
  "HashIterator_Item h it =
     bindE (assertE (\<not> HashIterator_IsDone h it)) (\<lambda>_.
     case hi_bucketIter it of Some (x # xs) \<Rightarrow> Inr x | Some [] \<Rightarrow> Inl Assert_Failed | None \<Rightarrow> Inl Bad_Access)"

definition HashIterator_Next :: "('k, 't) hashtable \<Rightarrow> 't hashiter \<Rightarrow> 't hashiter res" where
  "HashIterator_Next h it = (case hi_bucketIter it of
       None \<Rightarrow> Inl Bad_Access
     | Some [] \<Rightarrow> Inl Bad_Access
     | Some [x] \<Rightarrow> iter_at h (hi_bucket it + 1)
     | Some (x # y # xs) \<Rightarrow> Inr (it\<lparr>hi_bucketIter := Some (y # xs)\<rparr>))"

text \<open>The loop of hash.h's example: the items an iterator visits. The bound is the number of rounds.\<close>

fun HashIterator_loop :: "nat \<Rightarrow> ('k, 't) hashtable \<Rightarrow> 't hashiter \<Rightarrow> 't list res" where
  "HashIterator_loop 0 h it = Inl Diverges"
| "HashIterator_loop (Suc n) h it =
     (if HashIterator_IsDone h it then Inr []
      else bindE (HashIterator_Item h it) (\<lambda>x.
           bindE (HashIterator_Next h it) (\<lambda>it.
           bindE (HashIterator_loop n h it) (\<lambda>xs. Inr (x # xs)))))"

section \<open>SelfTest\<close>

fun selftest_insert :: "('k, 't) hashtable \<Rightarrow> 't list \<Rightarrow> ('k, 't) hashtable res" where
  "selftest_insert h [] = Inr h"
| "selftest_insert h (x # p) =
     bindE (HashTable_Insert h x) (\<lambda>h.
     bindE (HashTable_IsInTable h (ht_getKey h x)) (\<lambda>t.
     bindE (assertE t) (\<lambda>_. bindE (assertE (\<not> HashTable_IsEmpty h)) (\<lambda>_. selftest_insert h p))))"

fun selftest_remove :: "('k, 't) hashtable \<Rightarrow> 't list \<Rightarrow> ('k, 't) hashtable res" where
  "selftest_remove h [] = Inr h"
| "selftest_remove h (x # p) =
     bindE (HashTable_Remove h (ht_getKey h x)) (\<lambda>(y, h). bindE (assertE (y = x)) (\<lambda>_. selftest_remove h p))"

definition HashTable_SelfTest :: "('k, 't) hashtable \<Rightarrow> 't list \<Rightarrow> ('k, 't) hashtable res" where
  "HashTable_SelfTest h p =
     bindE (HashIterator_new h) (\<lambda>it.
     bindE (HashTable_SanityCheck h) (\<lambda>_.
     bindE (assertE (HashTable_IsEmpty h)) (\<lambda>_.
     bindE (assertE (HashIterator_IsDone h it)) (\<lambda>_.
     bindE (selftest_insert h p) (\<lambda>h.
     bindE (selftest_remove h p) (\<lambda>h.
     bindE (assertE (HashTable_IsEmpty h)) (\<lambda>_.
     bindE (HashTable_SanityCheck h) (\<lambda>_. Inr h))))))))"

section \<open>Legal tables\<close>

definition home :: "('k, 't) hashtable \<Rightarrow> 'k \<Rightarrow> nat" where
  "home h key = nat (uint (ht_hash h key) mod ht_numBuckets h)"

definition hash_core :: "('k, 't) hashtable \<Rightarrow> ('k \<rightharpoonup> 't) \<Rightarrow> bool" where
  "hash_core h M \<longleftrightarrow> (\<exists>n. ht_numBuckets h = 4 ^ Suc n) \<and> ht_numBuckets h < 2 ^ 31
     \<and> int (length (ht_buckets h)) = ht_numBuckets h
     \<and> (\<forall>i < length (ht_buckets h). distinct (map (ht_getKey h) (ht_buckets h ! i))
          \<and> (\<forall>x \<in> set (ht_buckets h ! i). home h (ht_getKey h x) = i))
     \<and> (\<forall>k x. M k = Some x \<longleftrightarrow> ht_getKey h x = k \<and> x \<in> set (ht_buckets h ! home h k))"

definition hash_rep :: "('k, 't) hashtable \<Rightarrow> ('k \<rightharpoonup> 't) \<Rightarrow> bool" where
  "hash_rep h M \<longleftrightarrow> hash_core h M \<and> ht_numItems h = int (length (concat (ht_buckets h)))"

lemma hash_coreD:
  assumes "hash_core h M"
  shows "0 < ht_numBuckets h" "ht_numBuckets h < 2 ^ 31" "int (length (ht_buckets h)) = ht_numBuckets h"
    "i < length (ht_buckets h) \<Longrightarrow> distinct (map (ht_getKey h) (ht_buckets h ! i))"
    "i < length (ht_buckets h) \<Longrightarrow> x \<in> set (ht_buckets h ! i) \<Longrightarrow> home h (ht_getKey h x) = i"
    "M k = Some x \<longleftrightarrow> ht_getKey h x = k \<and> x \<in> set (ht_buckets h ! home h k)"
  using assms by (auto simp: hash_core_def)

lemma HashValue_ok:
  assumes "hash_core h M"
  shows "HashTable_HashValue h key = Inr (int (home h key))" "home h key < length (ht_buckets h)"
proof -
  note D = hash_coreD [OF assms]
  let ?n = "ht_numBuckets h" and ?w = "word_of_int (ht_numBuckets h) :: 32 word"
  have n: "uint ?w = ?n" using D(1,2) by (simp add: uint_word_of_int_eq take_bit_eq_mod)
  then have "?w \<noteq> 0" using D(1) by auto
  have r: "uint (ht_hash h key mod ?w) = uint (ht_hash h key) mod ?n" by (simp add: uint_mod_distrib n)
  have b: "0 \<le> uint (ht_hash h key) mod ?n" "uint (ht_hash h key) mod ?n < ?n" using D(1) by simp_all
  then have "uint (ht_hash h key mod ?w) < 2 ^ 31" using r D(2) by linarith
  then have s: "sint (ht_hash h key mod ?w) = uint (ht_hash h key) mod ?n"
    using r b by (simp add: sint_uint signed_take_bit_int_eq_self)
  show "HashTable_HashValue h key = Inr (int (home h key))"
    using \<open>?w \<noteq> 0\<close> s b by (simp add: HashTable_HashValue_def Let_def home_def)
  show "home h key < length (ht_buckets h)" using b D(3) by (simp add: home_def nat_less_iff)
qed


section \<open>The operations on legal tables\<close>

lemma find_in_list_iff:
  assumes "distinct (map get xs)"
  shows "find_in_list get key xs = Some x \<longleftrightarrow> x \<in> set xs \<and> get x = key"
  using assms by (induction xs) (auto simp: image_iff)

lemma option_eq_iff: "(\<And>x. a = Some x \<longleftrightarrow> b = Some x) \<Longrightarrow> a = b"
  by (cases a; cases b) auto

lemma Find_core:
  assumes "hash_core h M"
  shows "HashTable_FindInBucket h (int (home h key)) key = Inr (M key)" "HashTable_Find h key = Inr (M key)"
    "HashTable_IsInTable h key = Inr (M key \<noteq> None)"
proof -
  note V = HashValue_ok [OF assms, of key] and D = hash_coreD [OF assms]
  have "find_in_list (ht_getKey h) key (ht_buckets h ! home h key) = M key"
    using find_in_list_iff [OF D(4) [OF V(2)]] D(6) [of key] by (intro option_eq_iff) auto
  then show f: "HashTable_FindInBucket h (int (home h key)) key = Inr (M key)"
    using V(2) by (simp add: HashTable_FindInBucket_def)
  then show g: "HashTable_Find h key = Inr (M key)" by (simp add: HashTable_Find_def V(1))
  then show "HashTable_IsInTable h key = Inr (M key \<noteq> None)" by (simp add: HashTable_IsInTable_def)
qed

lemma length_concat_update:
  "i < length bs \<Longrightarrow> length (concat (bs[i := b])) + length (bs ! i) = length (concat bs) + length b"
proof (induction bs arbitrary: i)
  case (Cons c bs)
  then show ?case by (cases i) (auto simp: algebra_simps)
qed simp

lemma home_cong [simp]:
  "home (h\<lparr>ht_buckets := bs\<rparr>) = home h" "home (h\<lparr>ht_numItems := n\<rparr>) = home h"
  by (simp_all add: home_def fun_eq_iff)

lemma core_numItems [simp]: "hash_core (h\<lparr>ht_numItems := n\<rparr>) M = hash_core h M"
  by (simp add: hash_core_def)

text \<open>Replacing one bucket.\<close>

lemma set_bucket_core:
  assumes core: "hash_core h M" and i: "i < length (ht_buckets h)" and d: "distinct (map (ht_getKey h) b)"
    and b: "\<And>x. x \<in> set b \<Longrightarrow> home h (ht_getKey h x) = i"
    and M': "\<And>k x. M' k = Some x \<longleftrightarrow> (if home h k = i then ht_getKey h x = k \<and> x \<in> set b else M k = Some x)"
  shows "hash_core (h\<lparr>ht_buckets := (ht_buckets h)[i := b]\<rparr>) M'"
proof -
  note D = hash_coreD [OF core]
  have "\<exists>n. ht_numBuckets h = 4 ^ Suc n" using core by (simp add: hash_core_def)
  moreover have "distinct (map (ht_getKey h) ((ht_buckets h)[i := b] ! j))" if "j < length (ht_buckets h)" for j
    using D(4) [OF that] d that by (cases "j = i") simp_all
  moreover have "home h (ht_getKey h x) = j" if "j < length (ht_buckets h)" "x \<in> set ((ht_buckets h)[i := b] ! j)" for j x
    using D(5) [OF that(1)] b that by (cases "j = i") auto
  moreover have "M' k = Some x \<longleftrightarrow> ht_getKey h x = k \<and> x \<in> set ((ht_buckets h)[i := b] ! home h k)" for k x
    using M' [of k x] D(6) [of k x] i by (cases "home h k = i") simp_all
  ultimately show ?thesis using D(2,3) by (simp add: hash_core_def)
qed

lemma append_core:
  assumes core: "hash_core h M" and new: "M (ht_getKey h x) = None"
  shows "\<exists>bs. append_item h x = Inr (h\<lparr>ht_buckets := bs\<rparr>) \<and> hash_core (h\<lparr>ht_buckets := bs\<rparr>) (M(ht_getKey h x \<mapsto> x))
    \<and> length (concat bs) = Suc (length (concat (ht_buckets h)))"
proof -
  let ?k = "ht_getKey h x"
  let ?i = "home h ?k"
  let ?b = "ht_buckets h ! ?i @ [x]"
  note V = HashValue_ok [OF core, of ?k] and D = hash_coreD [OF core]
  have fresh: "ht_getKey h y \<noteq> ?k" if "y \<in> set (ht_buckets h ! ?i)" for y
    using that D(6) [of ?k y] new by auto
  have "hash_core (h\<lparr>ht_buckets := (ht_buckets h)[?i := ?b]\<rparr>) (M(?k \<mapsto> x))"
  proof (rule set_bucket_core [OF core V(2)])
    have "?k \<notin> ht_getKey h ` set (ht_buckets h ! ?i)" using fresh by (metis imageE)
    then show "distinct (map (ht_getKey h) ?b)" using D(4) [OF V(2)] by simp
    show "home h (ht_getKey h y) = ?i" if "y \<in> set ?b" for y using that D(5) [OF V(2), of y] by auto
    show "(M(?k \<mapsto> x)) k = Some y \<longleftrightarrow> (if home h k = ?i then ht_getKey h y = k \<and> y \<in> set ?b else M k = Some y)" for k y
      using D(6) [of k y] fresh [of y] by auto
  qed
  moreover have "append_item h x = Inr (h\<lparr>ht_buckets := (ht_buckets h)[?i := ?b]\<rparr>)"
    using V by (simp add: append_item_def)
  moreover have "length (concat ((ht_buckets h)[?i := ?b])) = Suc (length (concat (ht_buckets h)))"
    using length_concat_update [OF V(2), of ?b] by simp
  ultimately show ?thesis by blast
qed

lemma rehash_bucket_core:
  assumes "hash_core h M" "distinct (map (ht_getKey h) xs)" "\<And>x. x \<in> set xs \<Longrightarrow> M (ht_getKey h x) = None"
  shows "\<exists>bs M'. rehash_bucket h xs = Inr (h\<lparr>ht_buckets := bs\<rparr>) \<and> hash_core (h\<lparr>ht_buckets := bs\<rparr>) M'
    \<and> (\<forall>k x. M' k = Some x \<longleftrightarrow> M k = Some x \<or> x \<in> set xs \<and> ht_getKey h x = k)
    \<and> length (concat bs) = length (concat (ht_buckets h)) + length xs"
  using assms
proof (induction xs arbitrary: h M)
  case Nil
  then show ?case by (intro exI [of _ "ht_buckets h"] exI [of _ M]) simp
next
  case (Cons x xs)
  let ?k = "ht_getKey h x"
  obtain bs where a: "append_item h x = Inr (h\<lparr>ht_buckets := bs\<rparr>)" "hash_core (h\<lparr>ht_buckets := bs\<rparr>) (M(?k \<mapsto> x))"
    "length (concat bs) = Suc (length (concat (ht_buckets h)))"
    using append_core [OF Cons.prems(1), of x] Cons.prems(3) by auto
  have n: "M ?k = None" using Cons.prems(3) by simp
  have "?k \<notin> ht_getKey h ` set xs" using Cons.prems(2) by simp
  then have nk: "ht_getKey h y \<noteq> ?k" if "y \<in> set xs" for y using that by (metis imageI)
  have "\<exists>bs' M'. rehash_bucket (h\<lparr>ht_buckets := bs\<rparr>) xs = Inr ((h\<lparr>ht_buckets := bs\<rparr>)\<lparr>ht_buckets := bs'\<rparr>)
    \<and> hash_core ((h\<lparr>ht_buckets := bs\<rparr>)\<lparr>ht_buckets := bs'\<rparr>) M'
    \<and> (\<forall>k y. M' k = Some y \<longleftrightarrow> (M(?k \<mapsto> x)) k = Some y \<or> y \<in> set xs \<and> ht_getKey (h\<lparr>ht_buckets := bs\<rparr>) y = k)
    \<and> length (concat bs') = length (concat (ht_buckets (h\<lparr>ht_buckets := bs\<rparr>))) + length xs"
    by (rule Cons.IH [OF a(2)]) (use Cons.prems(2,3) nk in auto)
  then obtain bs' M' where r: "rehash_bucket (h\<lparr>ht_buckets := bs\<rparr>) xs = Inr (h\<lparr>ht_buckets := bs'\<rparr>)"
    "hash_core (h\<lparr>ht_buckets := bs'\<rparr>) M'"
    "\<forall>k y. M' k = Some y \<longleftrightarrow> (M(?k \<mapsto> x)) k = Some y \<or> y \<in> set xs \<and> ht_getKey h y = k"
    "length (concat bs') = length (concat bs) + length xs" by auto
  have "M' k = Some y \<longleftrightarrow> M k = Some y \<or> y \<in> set (x # xs) \<and> ht_getKey h y = k" for k y
    using r(3) n by auto
  then show ?case using a(1,3) r(1,2,4) by (intro exI [of _ bs'] exI [of _ M']) simp
qed

lemma rehash_bucket_append: "rehash_bucket h (xs @ ys) = bindE (rehash_bucket h xs) (\<lambda>h. rehash_bucket h ys)"
  by (induction xs arbitrary: h) (simp_all add: bindE_assoc)

lemma rehash_table_concat: "rehash_table h bs = rehash_bucket h (concat bs)"
  by (induction bs arbitrary: h) (simp_all add: rehash_bucket_append)

lemma in_concat: "x \<in> set (concat bs) \<longleftrightarrow> (\<exists>i < length bs. x \<in> set (bs ! i))"
proof
  assume "x \<in> set (concat bs)"
  then obtain b where "b \<in> set bs" "x \<in> set b" by auto
  then show "\<exists>i < length bs. x \<in> set (bs ! i)" using in_set_conv_nth [of b bs] by auto
qed (auto intro: nth_mem)

lemma distinct_buckets:
  assumes "\<And>i. i < length bs \<Longrightarrow> distinct (map f (bs ! i)) \<and> (\<forall>x \<in> set (bs ! i). g (f x) = i + c)"
  shows "distinct (map f (concat bs))"
  using assms
proof (induction bs arbitrary: c)
  case (Cons b bs)
  have hd: "distinct (map f b)" "\<forall>x \<in> set b. g (f x) = c" using Cons.prems [of 0] by simp_all
  have tail: "distinct (map f (bs ! i)) \<and> (\<forall>x \<in> set (bs ! i). g (f x) = i + Suc c)" if "i < length bs" for i
    using Cons.prems [of "Suc i"] that by simp
  have "g (f y) \<noteq> c" if y: "y \<in> set (concat bs)" for y
  proof -
    obtain i where "i < length bs" "y \<in> set (bs ! i)" using y unfolding in_concat by blast
    then show ?thesis using tail [of i] by simp
  qed
  then have "f ` set b \<inter> f ` set (concat bs) = {}" using hd(2) by fastforce
  then show ?case using Cons.IH [OF tail] hd(1) by simp
qed simp

lemma core_distinct: "hash_core h M \<Longrightarrow> distinct (map (ht_getKey h) (concat (ht_buckets h)))"
  by (rule distinct_buckets [where g = "home h" and c = 0]) (simp add: hash_core_def)

lemma core_items:
  assumes "hash_core h M"
  shows "x \<in> set (concat (ht_buckets h)) \<longleftrightarrow> M (ht_getKey h x) = Some x"
proof -
  note D = hash_coreD [OF assms]
  have "x \<in> set (concat (ht_buckets h)) \<longleftrightarrow> (\<exists>i < length (ht_buckets h). x \<in> set (ht_buckets h ! i))"
    by (rule in_concat)
  also have "\<dots> \<longleftrightarrow> x \<in> set (ht_buckets h ! home h (ht_getKey h x))"
    using D(5) HashValue_ok(2) [OF assms] by metis
  finally show ?thesis using D(6) by simp
qed

lemma sanity_bucket_ok:
  "(\<And>x. x \<in> set b \<Longrightarrow> HashTable_HashValue h (ht_getKey h x) = Inr i) \<Longrightarrow> sanity_bucket h i b = Inr ()"
  by (induction b) simp_all

lemma sanity_buckets_ok:
  assumes "\<And>j x. j < length bs \<Longrightarrow> x \<in> set (bs ! j) \<Longrightarrow> HashTable_HashValue h (ht_getKey h x) = Inr (i + int j)"
  shows "sanity_buckets h i n bs = Inr (n + int (length (concat bs)))"
  using assms
proof (induction bs arbitrary: i n)
  case (Cons b bs)
  have "sanity_bucket h i b = Inr ()" by (rule sanity_bucket_ok) (use Cons.prems [of 0] in simp)
  moreover have "sanity_buckets h (i + 1) (n + int (length b)) bs = Inr (n + int (length b) + int (length (concat bs)))"
    by (rule Cons.IH) (use Cons.prems [of "Suc _"] in \<open>simp add: algebra_simps\<close>)
  ultimately show ?case by simp
qed simp

lemma sanity_ok:
  assumes "hash_rep h M"
  shows "HashTable_SanityCheck h = Inr ()"
proof -
  have core: "hash_core h M" and n: "ht_numItems h = int (length (concat (ht_buckets h)))"
    using assms by (simp_all add: hash_rep_def)
  have "sanity_buckets h 0 0 (ht_buckets h) = Inr (0 + int (length (concat (ht_buckets h))))"
    by (rule sanity_buckets_ok) (use HashValue_ok(1) [OF core] hash_coreD(5) [OF core] in simp)
  then show ?thesis by (simp add: HashTable_SanityCheck_def n)
qed

lemma InitBuckets_core:
  assumes "n = 4 ^ Suc j" "n < 2 ^ 31"
  shows "hash_core (HashTable_InitBuckets n h) Map.empty"
proof -
  have "0 < n" using assms(1) by simp
  then have "home (HashTable_InitBuckets n h) k < nat n" for k
    by (simp add: home_def HashTable_InitBuckets_def)
  then show ?thesis using assms \<open>0 < n\<close> by (auto simp: hash_core_def HashTable_InitBuckets_def)
qed

lemma HashTable_new_rep: "hash_rep (HashTable_new get hFunc) Map.empty"
proof -
  have "hash_core (HashTable_new get hFunc) Map.empty"
    unfolding HashTable_new_def by (rule InitBuckets_core [of _ 0]) (simp_all add: InitialBuckets_def)
  then show ?thesis by (simp add: hash_rep_def HashTable_new_def HashTable_InitBuckets_def)
qed

lemma ReHash_rep:
  assumes rep: "hash_rep h M" and few: "ht_numItems h < 2 ^ 31" and full: "3 \<le> ht_numItems h div ht_numBuckets h"
  shows "\<exists>h'. HashTable_ReHash h = Inr h' \<and> hash_rep h' M \<and> ht_numItems h' = ht_numItems h \<and> ht_getKey h' = ht_getKey h"
proof -
  have core: "hash_core h M" and n: "ht_numItems h = int (length (concat (ht_buckets h)))"
    using rep by (simp_all add: hash_rep_def)
  obtain j where j: "ht_numBuckets h = 4 ^ Suc j" using core unfolding hash_core_def by blast
  have pos: "0 < ht_numBuckets h" by (rule hash_coreD(1) [OF core])
  have "3 * ht_numBuckets h \<le> ht_numItems h div ht_numBuckets h * ht_numBuckets h"
    using full pos by (intro mult_right_mono) simp_all
  also have "\<dots> \<le> ht_numItems h"
    using pos by (simp add: minus_mod_eq_div_mult [symmetric])
  finally have "(4::int) ^ Suc j < 4 ^ 15" using few j by simp
  then have "Suc (Suc j) \<le> 15" using power_less_imp_less_exp [of "4::int" "Suc j" 15] by simp
  then have "(4::int) ^ Suc (Suc j) \<le> 4 ^ 15" by (intro power_increasing) simp_all
  then have small: "ht_numBuckets h * IncreaseSizeBy = 4 ^ Suc (Suc j)" "ht_numBuckets h * IncreaseSizeBy < 2 ^ 31"
    using j by (simp_all add: IncreaseSizeBy_def)
  define h0 where "h0 = HashTable_InitBuckets (ht_numBuckets h * IncreaseSizeBy) h"
  have h0: "hash_core h0 Map.empty" unfolding h0_def by (rule InitBuckets_core [OF small])
  have keys: "ht_getKey h0 = ht_getKey h" "ht_numItems h0 = ht_numItems h" "concat (ht_buckets h0) = []"
    by (simp_all add: h0_def HashTable_InitBuckets_def)
  have none: "Map.empty (ht_getKey h x) = None" for x by simp
  obtain bs M' where r: "rehash_bucket h0 (concat (ht_buckets h)) = Inr (h0\<lparr>ht_buckets := bs\<rparr>)"
    "hash_core (h0\<lparr>ht_buckets := bs\<rparr>) M'"
    "\<forall>k x. M' k = Some x \<longleftrightarrow> Map.empty k = Some x \<or> x \<in> set (concat (ht_buckets h)) \<and> ht_getKey h x = k"
    "length (concat bs) = length (concat (ht_buckets h0)) + length (concat (ht_buckets h))"
    using rehash_bucket_core [OF h0, of "concat (ht_buckets h)", unfolded keys(1), OF core_distinct [OF core] none] by blast
  have M': "M' k = Some x \<longleftrightarrow> x \<in> set (concat (ht_buckets h)) \<and> ht_getKey h x = k" for k x
    using r(3) by (simp del: set_concat)
  have "M' k = M k" for k
  proof (rule option_eq_iff)
    fix x
    have "M k = Some x \<longleftrightarrow> x \<in> set (concat (ht_buckets h)) \<and> ht_getKey h x = k"
      unfolding core_items [OF core] using hash_coreD(6) [OF core, of k x] by auto
    then show "M' k = Some x \<longleftrightarrow> M k = Some x" unfolding M' by blast
  qed
  then have "M' = M" by (simp add: fun_eq_iff)
  then have rep': "hash_rep (h0\<lparr>ht_buckets := bs\<rparr>) M" using r(2,4) n keys by (simp add: hash_rep_def)
  have "HashTable_ReHash h = Inr (h0\<lparr>ht_buckets := bs\<rparr>)"
    using sanity_ok [OF rep] sanity_ok [OF rep'] r(1)
    by (simp add: HashTable_ReHash_def Let_def rehash_table_concat h0_def)
  then show ?thesis using rep' keys by simp
qed


lemma hash_Insert_rep:
  assumes rep: "hash_rep h M" and few: "ht_numItems h < 2 ^ 31"
  shows "if M (ht_getKey h x) = None
    then \<exists>h'. HashTable_Insert h x = Inr h' \<and> hash_rep h' (M(ht_getKey h x \<mapsto> x)) \<and> ht_getKey h' = ht_getKey h
      \<and> ht_numItems h' = ht_numItems h + 1
    else HashTable_Insert h x = Inl Assert_Failed"
proof (cases "M (ht_getKey h x)")
  case (Some y)
  have "hash_core h M" using rep by (simp add: hash_rep_def)
  from Find_core(3) [OF this, of "ht_getKey h x"] show ?thesis using Some by (simp add: HashTable_Insert_def Let_def)
next
  case None
  let ?k = "ht_getKey h x"
  have core: "hash_core h M" and n: "0 \<le> ht_numItems h" using rep by (simp_all add: hash_rep_def)
  have pos: "0 < ht_numBuckets h" by (rule hash_coreD(1) [OF core])
  have "\<exists>h1. (if ht_numItems h sdiv ht_numBuckets h \<ge> ResizeRatio then HashTable_ReHash h else Inr h) = Inr h1 \<and> hash_rep h1 M
    \<and> ht_numItems h1 = ht_numItems h \<and> ht_getKey h1 = ht_getKey h"
    using ReHash_rep [OF rep few] rep n pos by (simp add: ResizeRatio_def)
  then obtain h1 where h1: "(if ht_numItems h sdiv ht_numBuckets h \<ge> ResizeRatio then HashTable_ReHash h else Inr h) = Inr h1"
    "hash_rep h1 M" "ht_numItems h1 = ht_numItems h" "ht_getKey h1 = ht_getKey h" by blast
  have core1: "hash_core h1 M" using h1(2) by (simp add: hash_rep_def)
  obtain bs where a: "append_item h1 x = Inr (h1\<lparr>ht_buckets := bs\<rparr>)" "hash_core (h1\<lparr>ht_buckets := bs\<rparr>) (M(?k \<mapsto> x))"
    "length (concat bs) = Suc (length (concat (ht_buckets h1)))"
    using append_core [OF core1, of x] None unfolding h1(4) by auto
  let ?h = "h1\<lparr>ht_buckets := bs, ht_numItems := ht_numItems h1 + 1\<rparr>"
  have core2: "hash_core ?h (M(?k \<mapsto> x))" using a(2) core_numItems [where h = "h1\<lparr>ht_buckets := bs\<rparr>"] by simp
  then have "hash_rep ?h (M(?k \<mapsto> x))" using h1(2) a(3) by (simp add: hash_rep_def)
  moreover have "HashTable_Insert h x = Inr ?h"
    using Find_core(3) [OF core, of ?k] Find_core(3) [OF core2, of ?k] None h1(1) a(1) by (simp add: HashTable_Insert_def Let_def)
  ultimately show ?thesis using None h1(3,4) by simp
qed

lemma distinct_count_list: "distinct xs \<Longrightarrow> x \<in> set xs \<Longrightarrow> count_list xs x = 1"
  by (induction xs) auto

lemma hash_Remove_rep:
  assumes rep: "hash_rep h M"
  shows "case M key of None \<Rightarrow> HashTable_Remove h key = Inl Assert_Failed
    | Some x \<Rightarrow> \<exists>h'. HashTable_Remove h key = Inr (x, h') \<and> hash_rep h' (M(key := None)) \<and> ht_getKey h' = ht_getKey h
        \<and> ht_numItems h' = ht_numItems h - 1"
proof -
  have core: "hash_core h M" and n: "ht_numItems h = int (length (concat (ht_buckets h)))"
    using rep by (simp_all add: hash_rep_def)
  note V = HashValue_ok [OF core, of key] and D = hash_coreD [OF core]
  let ?i = "home h key"
  let ?b = "ht_buckets h ! ?i"
  show ?thesis
  proof (cases "M key")
    case None
    then show ?thesis using V Find_core(1) [OF core, of key] by (simp add: HashTable_Remove_def)
  next
    case (Some x)
    then have x: "ht_getKey h x = key" "x \<in> set ?b" using D(6) [of key x] by simp_all
    have d: "distinct (map (ht_getKey h) ?b)" by (rule D(4) [OF V(2)])
    then have db: "distinct ?b" by (simp add: distinct_map)
    let ?h = "h\<lparr>ht_buckets := (ht_buckets h)[?i := remove1 x ?b], ht_numItems := ht_numItems h - 1\<rparr>"
    have only: "y = x" if "y \<in> set ?b" "ht_getKey h y = key" for y
      using d that x by (auto simp: distinct_map dest: inj_onD)
    have "hash_core (h\<lparr>ht_buckets := (ht_buckets h)[?i := remove1 x ?b]\<rparr>) (M(key := None))"
    proof (rule set_bucket_core [OF core V(2)])
      show "distinct (map (ht_getKey h) (remove1 x ?b))"
        using d db by (simp add: distinct_map inj_on_def)
      show "home h (ht_getKey h y) = ?i" if "y \<in> set (remove1 x ?b)" for y
        using that D(5) [OF V(2), of y] notin_set_remove1 by metis
      show "(M(key := None)) k = Some y \<longleftrightarrow> (if home h k = ?i then ht_getKey h y = k \<and> y \<in> set (remove1 x ?b) else M k = Some y)" for k y
        using D(6) [of k y] only [of y] x(1) db by auto
    qed
    then have core2: "hash_core ?h (M(key := None))"
      using core_numItems [where h = "h\<lparr>ht_buckets := (ht_buckets h)[?i := remove1 x ?b]\<rparr>"] by simp
    have "length (concat ((ht_buckets h)[?i := remove1 x ?b])) + 1 = length (concat (ht_buckets h))"
    proof -
      have "length (remove1 x ?b) = length ?b - 1" using x(2) by (simp add: length_remove1)
      then show ?thesis using length_concat_update [OF V(2), of "remove1 x ?b"] length_pos_if_in_set [OF x(2)] by arith
    qed
    then have "hash_rep ?h (M(key := None))" using core2 n by (simp add: hash_rep_def)
    moreover have "count_list ?b x = 1" by (rule distinct_count_list [OF db x(2)])
    then have "HashTable_Remove h key = Inr (x, ?h)"
      using V Find_core(1) [OF core, of key] Find_core(3) [OF core2, of key] Some
      by (simp add: HashTable_Remove_def seq_Remove_def Let_def)
    ultimately show ?thesis using Some by simp
  qed
qed


section \<open>Iterators\<close>

lemma FindNextFullBucket_ok:
  assumes "int (length (ht_buckets h)) = ht_numBuckets h" "i \<le> length (ht_buckets h)"
  shows "\<exists>j. HashTable_FindNextFullBucket h (int i) = Inr (int j) \<and> i \<le> j \<and> j \<le> length (ht_buckets h)
    \<and> concat (drop i (ht_buckets h)) = concat (drop j (ht_buckets h))
    \<and> (j < length (ht_buckets h) \<longrightarrow> ht_buckets h ! j \<noteq> [])"
  using assms(2)
proof (induction "length (ht_buckets h) - i" arbitrary: i)
  case 0
  then have "i = length (ht_buckets h)" by simp
  moreover have "HashTable_FindNextFullBucket h (int i) = Inr (int i)"
    using \<open>i = length (ht_buckets h)\<close> assms(1) by (subst HashTable_FindNextFullBucket.simps) simp
  ultimately show ?case by (intro exI [of _ i]) simp
next
  case (Suc n)
  then have i: "i < length (ht_buckets h)" by simp
  have d: "drop i (ht_buckets h) = ht_buckets h ! i # drop (Suc i) (ht_buckets h)" by (rule Cons_nth_drop_Suc [OF i, symmetric])
  show ?case
  proof (cases "ht_buckets h ! i = []")
    case False
    then have "HashTable_FindNextFullBucket h (int i) = Inr (int i)"
      using i assms(1) by (subst HashTable_FindNextFullBucket.simps) simp
    then show ?thesis using i False by auto
  next
    case True
    have eq: "HashTable_FindNextFullBucket h (int i) = HashTable_FindNextFullBucket h (int (Suc i))"
      using i True assms(1) by (subst HashTable_FindNextFullBucket.simps) (simp add: add.commute)
    obtain j where "HashTable_FindNextFullBucket h (int (Suc i)) = Inr (int j) \<and> Suc i \<le> j \<and> j \<le> length (ht_buckets h)
      \<and> concat (drop (Suc i) (ht_buckets h)) = concat (drop j (ht_buckets h))
      \<and> (j < length (ht_buckets h) \<longrightarrow> ht_buckets h ! j \<noteq> [])"
      using Suc.hyps(1) [of "Suc i"] Suc.hyps(2) i by (metis Suc_diff_Suc Suc_leI diff_Suc_Suc nat.inject)
    then show ?thesis using eq d True by (intro exI [of _ j]) (simp del: HashTable_FindNextFullBucket.simps of_nat_Suc)
  qed
qed

text \<open>What an iterator has still to visit.\<close>

definition iter_rep :: "('k, 't) hashtable \<Rightarrow> 't hashiter \<Rightarrow> 't list \<Rightarrow> bool" where
  "iter_rep h it xs \<longleftrightarrow> (\<exists>j. hi_bucket it = int j \<and> j \<le> length (ht_buckets h)
     \<and> (if j = length (ht_buckets h) then hi_bucketIter it = None \<and> xs = []
         else \<exists>b. b \<noteq> [] \<and> hi_bucketIter it = Some b \<and> xs = b @ concat (drop (Suc j) (ht_buckets h))))"

lemma iter_at_rep:
  assumes "int (length (ht_buckets h)) = ht_numBuckets h" "i \<le> length (ht_buckets h)"
  shows "\<exists>it. iter_at h (int i) = Inr it \<and> iter_rep h it (concat (drop i (ht_buckets h)))"
proof -
  obtain j where j: "HashTable_FindNextFullBucket h (int i) = Inr (int j)" "j \<le> length (ht_buckets h)"
    "concat (drop i (ht_buckets h)) = concat (drop j (ht_buckets h))" "j < length (ht_buckets h) \<Longrightarrow> ht_buckets h ! j \<noteq> []"
    using FindNextFullBucket_ok [OF assms] by blast
  show ?thesis
  proof (cases "j = length (ht_buckets h)")
    case True
    then show ?thesis using j(1,3) assms(1) by (simp add: iter_at_def iter_rep_def del: HashTable_FindNextFullBucket.simps)
  next
    case False
    then have lt: "j < length (ht_buckets h)" using j(2) by simp
    have "concat (drop j (ht_buckets h)) = ht_buckets h ! j @ concat (drop (Suc j) (ht_buckets h))"
      by (simp add: Cons_nth_drop_Suc [OF lt, symmetric])
    then show ?thesis using j(1,3,4) lt assms(1) by (simp add: iter_at_def iter_rep_def del: HashTable_FindNextFullBucket.simps)
  qed
qed

lemma iter_loop_rep:
  assumes "int (length (ht_buckets h)) = ht_numBuckets h" "iter_rep h it xs" "length xs < n"
  shows "HashIterator_loop n h it = Inr xs"
  using assms(2,3)
proof (induction n arbitrary: it xs)
  case (Suc n)
  obtain j where j: "hi_bucket it = int j" "j \<le> length (ht_buckets h)"
    "if j = length (ht_buckets h) then hi_bucketIter it = None \<and> xs = []
         else \<exists>b. b \<noteq> [] \<and> hi_bucketIter it = Some b \<and> xs = b @ concat (drop (Suc j) (ht_buckets h))"
    using Suc.prems(1) unfolding iter_rep_def by blast
  show ?case
  proof (cases "j = length (ht_buckets h)")
    case True
    then show ?thesis using j assms(1) by (simp add: HashIterator_IsDone_def)
  next
    case False
    then obtain x b where b: "hi_bucketIter it = Some (x # b)" "xs = (x # b) @ concat (drop (Suc j) (ht_buckets h))"
      using j(3) by (metis list.exhaust)
    have nd: "\<not> HashIterator_IsDone h it" using False j(1,2) assms(1) by (simp add: HashIterator_IsDone_def)
    have item: "HashIterator_Item h it = Inr x" using nd b(1) by (simp add: HashIterator_Item_def)
    have "\<exists>it'. HashIterator_Next h it = Inr it' \<and> iter_rep h it' (b @ concat (drop (Suc j) (ht_buckets h)))"
    proof (cases b)
      case Nil
      have "HashIterator_Next h it = iter_at h (int (Suc j))"
        using b(1) Nil j(1) by (simp add: HashIterator_Next_def add.commute)
      then show ?thesis using iter_at_rep [OF assms(1), of "Suc j"] False j(2) Nil by simp
    next
      case (Cons y ys)
      then show ?thesis using b(1) j(1,2) False by (simp add: HashIterator_Next_def iter_rep_def)
    qed
    then obtain it' where it': "HashIterator_Next h it = Inr it'" "iter_rep h it' (b @ concat (drop (Suc j) (ht_buckets h)))" by blast
    have "HashIterator_loop n h it' = Inr (b @ concat (drop (Suc j) (ht_buckets h)))"
      by (rule Suc.IH [OF it'(2)]) (use Suc.prems(2) b(2) in simp)
    then show ?thesis using nd item it'(1) b(2) by simp
  qed
qed simp

lemma iterate_rep:
  assumes "hash_rep h M"
  shows "\<exists>it. HashIterator_new h = Inr it \<and> (HashIterator_IsDone h it \<longleftrightarrow> M = Map.empty)
    \<and> HashIterator_loop (nat (ht_numItems h) + 1) h it = Inr (HashTable_Apply h)"
    "distinct (HashTable_Apply h)" "set (HashTable_Apply h) = ran M"
proof -
  have core: "hash_core h M" and n: "ht_numItems h = int (length (concat (ht_buckets h)))"
    using assms by (simp_all add: hash_rep_def)
  have len: "int (length (ht_buckets h)) = ht_numBuckets h" by (rule hash_coreD(3) [OF core])
  show d: "distinct (HashTable_Apply h)" using core_distinct [OF core] by (simp only: HashTable_Apply_def distinct_map)
  have iff: "M k = Some x \<longleftrightarrow> x \<in> set (HashTable_Apply h) \<and> ht_getKey h x = k" for k x
    unfolding HashTable_Apply_def core_items [OF core] using hash_coreD(6) [OF core, of k x] by auto
  then show r: "set (HashTable_Apply h) = ran M" by (auto simp: ran_def)
  obtain it where it: "iter_at h (int 0) = Inr it" "iter_rep h it (concat (drop 0 (ht_buckets h)))"
    using iter_at_rep [OF len, of 0] by blast
  have loop: "HashIterator_loop (nat (ht_numItems h) + 1) h it = Inr (HashTable_Apply h)"
    unfolding HashTable_Apply_def by (rule iter_loop_rep [OF len it(2), unfolded drop_0]) (use n in simp)
  have "HashIterator_IsDone h it \<longleftrightarrow> HashTable_Apply h = []"
  proof -
    obtain j where j: "hi_bucket it = int j" "j \<le> length (ht_buckets h)"
      "if j = length (ht_buckets h) then hi_bucketIter it = None \<and> HashTable_Apply h = []
         else \<exists>b. b \<noteq> [] \<and> hi_bucketIter it = Some b \<and> HashTable_Apply h = b @ concat (drop (Suc j) (ht_buckets h))"
      using it(2) unfolding iter_rep_def drop_0 HashTable_Apply_def by blast
    then show ?thesis using len by (cases "j = length (ht_buckets h)") (auto simp: HashIterator_IsDone_def simp del: concat_eq_Nil_conv)
  qed
  also have "\<dots> \<longleftrightarrow> ran M = {}" unfolding r [symmetric] by simp
  also have "\<dots> \<longleftrightarrow> M = Map.empty" by (auto simp: ran_def fun_eq_iff) (metis not_None_eq)
  finally show "\<exists>it. HashIterator_new h = Inr it \<and> (HashIterator_IsDone h it \<longleftrightarrow> M = Map.empty)
    \<and> HashIterator_loop (nat (ht_numItems h) + 1) h it = Inr (HashTable_Apply h)"
    using it(1) loop by (simp add: HashIterator_new_def)
qed


section \<open>The self test\<close>

lemma selftest_insert_rep:
  assumes "hash_rep h M" "distinct (map (ht_getKey h) p)" "\<And>x. x \<in> set p \<Longrightarrow> M (ht_getKey h x) = None"
    and "ht_numItems h + int (length p) < 2 ^ 31"
  shows "\<exists>h' M'. selftest_insert h p = Inr h' \<and> hash_rep h' M' \<and> ht_getKey h' = ht_getKey h
    \<and> ht_numItems h' = ht_numItems h + int (length p)
    \<and> (\<forall>k x. M' k = Some x \<longleftrightarrow> M k = Some x \<or> x \<in> set p \<and> ht_getKey h x = k)"
  using assms
proof (induction p arbitrary: h M)
  case Nil
  then show ?case by auto
next
  case (Cons x p)
  let ?k = "ht_getKey h x"
  have n: "M ?k = None" and few: "ht_numItems h < 2 ^ 31" using Cons.prems(3,4) by simp_all
  obtain h1 where h1: "HashTable_Insert h x = Inr h1" "hash_rep h1 (M(?k \<mapsto> x))" "ht_getKey h1 = ht_getKey h"
    "ht_numItems h1 = ht_numItems h + 1"
    using hash_Insert_rep [OF Cons.prems(1) few, of x] n by auto
  have core: "hash_core h1 (M(?k \<mapsto> x))" using h1(2) by (simp add: hash_rep_def)
  have ne: "\<not> HashTable_IsEmpty h1" using h1(4) Cons.prems(1) by (simp add: HashTable_IsEmpty_def hash_rep_def)
  have nk: "ht_getKey h y \<noteq> ?k" if "y \<in> set p" for y using Cons.prems(2) that by (metis distinct.simps(2) image_eqI list.set_map list.simps(9))
  have "\<exists>h' M'. selftest_insert h1 p = Inr h' \<and> hash_rep h' M' \<and> ht_getKey h' = ht_getKey h1
    \<and> ht_numItems h' = ht_numItems h1 + int (length p)
    \<and> (\<forall>k y. M' k = Some y \<longleftrightarrow> (M(?k \<mapsto> x)) k = Some y \<or> y \<in> set p \<and> ht_getKey h1 y = k)"
    by (rule Cons.IH [OF h1(2)]) (use Cons.prems nk h1(3,4) in simp_all)
  then obtain h' M' where h': "selftest_insert h1 p = Inr h'" "hash_rep h' M'" "ht_getKey h' = ht_getKey h"
    "ht_numItems h' = ht_numItems h + 1 + int (length p)"
    "\<forall>k y. M' k = Some y \<longleftrightarrow> (M(?k \<mapsto> x)) k = Some y \<or> y \<in> set p \<and> ht_getKey h y = k"
    unfolding h1(3,4) by blast
  have "selftest_insert h (x # p) = Inr h'"
    using h1(1,3) Find_core(3) [OF core, of ?k] ne h'(1) by simp
  moreover have "M' k = Some y \<longleftrightarrow> M k = Some y \<or> y \<in> set (x # p) \<and> ht_getKey h y = k" for k y
    using h'(5) n by auto
  ultimately show ?case using h'(2-4) by (intro exI [of _ h'] exI [of _ M']) simp
qed

lemma selftest_remove_rep:
  assumes "hash_rep h M" "distinct (map (ht_getKey h) p)" "\<And>k x. M k = Some x \<longleftrightarrow> x \<in> set p \<and> ht_getKey h x = k"
  shows "\<exists>h'. selftest_remove h p = Inr h' \<and> hash_rep h' Map.empty"
  using assms
proof (induction p arbitrary: h M)
  case Nil
  then have "M = Map.empty" by (metis empty_iff empty_set not_Some_eq)
  then show ?case using Nil.prems(1) by simp
next
  case (Cons x p)
  let ?k = "ht_getKey h x"
  have "M ?k = Some x" unfolding Cons.prems(3) by simp
  then obtain h1 where h1: "HashTable_Remove h ?k = Inr (x, h1)" "hash_rep h1 (M(?k := None))" "ht_getKey h1 = ht_getKey h"
    using hash_Remove_rep [OF Cons.prems(1), of ?k] by auto
  have "?k \<notin> ht_getKey h ` set p" using Cons.prems(2) by simp
  then have nk: "ht_getKey h y \<noteq> ?k" if "y \<in> set p" for y using that by (metis imageI)
  have "(M(?k := None)) k = Some y \<longleftrightarrow> y \<in> set p \<and> ht_getKey h1 y = k" for k y
    using Cons.prems(3) [of k y] nk [of y] h1(3) by (cases "k = ?k") auto
  then have "\<exists>h'. selftest_remove h1 p = Inr h' \<and> hash_rep h' Map.empty"
    by (intro Cons.IH [OF h1(2)]) (use Cons.prems(2) h1(3) in simp_all)
  then show ?case using h1(1) by simp
qed

lemma SelfTest_rep:
  assumes "hash_rep h Map.empty" "distinct (map (ht_getKey h) p)" "int (length p) < 2 ^ 31"
  shows "\<exists>h'. HashTable_SelfTest h p = Inr h' \<and> hash_rep h' Map.empty"
proof -
  have empty: "ht_numItems g = 0" if "hash_rep g Map.empty" for g :: "('a, 'b) hashtable"
  proof -
    have "HashTable_Apply g = []" using iterate_rep(3) [OF that] by simp
    then show ?thesis using that by (simp only: hash_rep_def HashTable_Apply_def list.size of_nat_0)
  qed
  obtain it where it: "HashIterator_new h = Inr it" "HashIterator_IsDone h it" using iterate_rep(1) [OF assms(1)] by blast
  have n0: "ht_numItems h = 0" by (rule empty [OF assms(1)])
  obtain h1 M where h1: "selftest_insert h p = Inr h1" "hash_rep h1 M" "ht_getKey h1 = ht_getKey h"
    "\<forall>k x. M k = Some x \<longleftrightarrow> x \<in> set p \<and> ht_getKey h x = k"
    using selftest_insert_rep [OF assms(1,2)] assms(3) n0 by auto
  obtain h2 where h2: "selftest_remove h1 p = Inr h2" "hash_rep h2 Map.empty"
    using selftest_remove_rep [OF h1(2), of p] assms(2) h1(4) unfolding h1(3) by blast
  have "HashTable_SelfTest h p = Inr h2"
    using it sanity_ok [OF assms(1)] sanity_ok [OF h2(2)] n0 empty [OF h2(2)] h1(1) h2(1)
    by (simp add: HashTable_SelfTest_def HashTable_IsEmpty_def)
  then show ?thesis using h2(2) by blast
qed

text \<open>
  C9. The hash table implements a finite map from keys to items. A new table is empty. On a legal table
  with fewer than \<open>2 ^ 31\<close> items, \<open>Find\<close> returns what the map has; \<open>Insert\<close> of a new key adds the item,
  whether or not the table grows, and of a key that is there it fails its assertion; \<open>Remove\<close> returns
  and deletes the item of its key, or fails; \<open>SanityCheck\<close> passes; \<open>Apply\<close> and an iterator visit every
  item exactly once. \<open>SelfTest\<close> passes on an empty table for any items with different keys.
\<close>

theorem hash_refines_map:
  assumes "hash_rep h M" "ht_numItems h < 2 ^ 31"
  shows "hash_rep (HashTable_new get hFunc) Map.empty
    \<and> HashTable_Find h key = Inr (M key)
    \<and> (if M (ht_getKey h x) = None
       then \<exists>h'. HashTable_Insert h x = Inr h' \<and> hash_rep h' (M(ht_getKey h x \<mapsto> x)) \<and> ht_numItems h' = ht_numItems h + 1
       else HashTable_Insert h x = Inl Assert_Failed)
    \<and> (case M key of None \<Rightarrow> HashTable_Remove h key = Inl Assert_Failed
       | Some y \<Rightarrow> \<exists>h'. HashTable_Remove h key = Inr (y, h') \<and> hash_rep h' (M(key := None)) \<and> ht_numItems h' = ht_numItems h - 1)
    \<and> HashTable_SanityCheck h = Inr ()
    \<and> distinct (HashTable_Apply h) \<and> set (HashTable_Apply h) = ran M
    \<and> (\<exists>it. HashIterator_new h = Inr it \<and> HashIterator_loop (nat (ht_numItems h) + 1) h it = Inr (HashTable_Apply h))
    \<and> (HashTable_delete h = Inr () \<longleftrightarrow> M = Map.empty)
    \<and> (M = Map.empty \<longrightarrow> distinct (map (ht_getKey h) p) \<longrightarrow> int (length p) < 2 ^ 31 \<longrightarrow>
         (\<exists>h'. HashTable_SelfTest h p = Inr h' \<and> hash_rep h' Map.empty))"
proof -
  have core: "hash_core h M" and n: "ht_numItems h = int (length (HashTable_Apply h))"
    using assms(1) unfolding hash_rep_def HashTable_Apply_def by blast+
  note it = iterate_rep [OF assms(1)]
  have ins: "if M (ht_getKey h x) = None
       then \<exists>h'. HashTable_Insert h x = Inr h' \<and> hash_rep h' (M(ht_getKey h x \<mapsto> x)) \<and> ht_numItems h' = ht_numItems h + 1
       else HashTable_Insert h x = Inl Assert_Failed"
    using hash_Insert_rep [OF assms, of x] by (cases "M (ht_getKey h x)") auto
  have rem: "case M key of None \<Rightarrow> HashTable_Remove h key = Inl Assert_Failed
       | Some y \<Rightarrow> \<exists>h'. HashTable_Remove h key = Inr (y, h') \<and> hash_rep h' (M(key := None)) \<and> ht_numItems h' = ht_numItems h - 1"
    using hash_Remove_rep [OF assms(1), of key] by (cases "M key") auto
  have "HashTable_delete h = Inr () \<longleftrightarrow> HashTable_Apply h = []"
    using n by (simp add: HashTable_delete_def HashTable_IsEmpty_def assertE_eq_Inr)
  also have "\<dots> \<longleftrightarrow> ran M = {}" using it(3) by (metis set_empty)
  also have "\<dots> \<longleftrightarrow> M = Map.empty" by (auto simp: ran_def fun_eq_iff) (metis not_None_eq)
  finally have del: "HashTable_delete h = Inr () \<longleftrightarrow> M = Map.empty" .
  have self: "\<exists>h'. HashTable_SelfTest h p = Inr h' \<and> hash_rep h' Map.empty"
    if "M = Map.empty" "distinct (map (ht_getKey h) p)" "int (length p) < 2 ^ 31"
    using SelfTest_rep [of h p] assms(1) that by simp
  show ?thesis
    using HashTable_new_rep [of get hFunc] Find_core(2) [OF core, of key] sanity_ok [OF assms(1)] it ins rem del self by blast
qed

theorem hash_refines_map_witness:
  "\<exists>h' :: (int, int) hashtable. HashTable_Insert (HashTable_new id word_of_int) 7 = Inr h' \<and> hash_rep h' [7 \<mapsto> 7]"
proof -
  let ?h = "HashTable_new id word_of_int :: (int, int) hashtable"
  have h: "ht_numItems ?h < 2 ^ 31" "ht_getKey ?h 7 = 7" by (simp_all add: HashTable_new_def HashTable_InitBuckets_def)
  have "\<exists>h'. HashTable_Insert ?h 7 = Inr h' \<and> hash_rep h' (Map.empty(ht_getKey ?h 7 \<mapsto> 7))"
    using hash_refines_map [OF HashTable_new_rep h(1), where x = 7 and key = 0 and p = "[]"] by fastforce
  then show ?thesis by (simp only: h(2))
qed

end
