(* ===== verification/Interrupt.thy ===== *)
theory Interrupt
  imports Sequence Vm Disk
begin

text \<open>
  machine/interrupt.h, machine/interrupt.cc and the counters of machine/stats.h: the simulation of
  hardware interrupts and of time.

  \<open>hw\<close> is the part of the global \<open>kernel\<close> object the interrupt simulation works on: the
  \<open>Interrupt\<close> object, \<open>kernel->stats\<close> and \<open>kernel->machine\<close> (with the memory manager of Vm
  in the same record). The handler of a pending interrupt is a \<open>CallBackObj\<close>, whose virtual
  \<open>CallBack\<close> is the argument \<open>cb\<close>; theory Devices supplies the one of this kernel.
  \<open>OneTick\<close> is \<open>Interrupt_OneTick\<close>, up to the \<open>Yield\<close> at its end, which switches threads and
  is therefore a step of theory Threads.

  The loop of \<open>CheckIfDue\<close> runs as long as interrupts are due. It carries the number of pending
  interrupts as its bound, and the lemmas of the locale \<open>handlers\<close> show that this is enough for
  handlers that schedule with a positive delay: the loop serves exactly the interrupts that were
  due when it started, in the order of their times.
\<close>

section \<open>Time and pending interrupts\<close>

datatype IntStatus = IntOff | IntOn
datatype IntType = TimerInt | DiskInt | ConsoleWriteInt | ConsoleReadInt | NetworkSendInt | NetworkRecvInt

record Statistics =
  st_totalTicks :: int
  st_idleTicks :: int
  st_systemTicks :: int
  st_userTicks :: int
  st_numDiskReads :: int
  st_numDiskWrites :: int
  st_numConsoleCharsRead :: int
  st_numConsoleCharsWritten :: int
  st_numPageFaults :: int
  st_numPacketsSent :: int
  st_numPacketsRecvd :: int

definition Statistics_new :: Statistics where
  "Statistics_new = \<lparr>st_totalTicks = 0, st_idleTicks = 0, st_systemTicks = 0, st_userTicks = 0, st_numDiskReads = 0,
     st_numDiskWrites = 0, st_numConsoleCharsRead = 0, st_numConsoleCharsWritten = 0, st_numPageFaults = 0,
     st_numPacketsSent = 0, st_numPacketsRecvd = 0\<rparr>"

text \<open>\<open>pi_this\<close> is the address of the object, by which the sorted list tells items apart.\<close>

record 'cb PendingInterrupt =
  pi_this :: nat
  callOnInterrupt :: 'cb
  pi_when :: int
  pi_type :: IntType

definition PendingCompare :: "'cb PendingInterrupt \<Rightarrow> 'cb PendingInterrupt \<Rightarrow> int" where
  "PendingCompare x y = (if pi_when x < pi_when y then - 1 else if pi_when x > pi_when y then 1 else 0)"

record 'cb hw =
  hw_level :: IntStatus
  hw_pending :: "'cb PendingInterrupt list"
  hw_inHandler :: bool
  hw_yieldOnReturn :: bool
  hw_status :: MachineStatus
  hw_stats :: Statistics
  hw_machine :: "vm option"
  hw_new :: nat

abbreviation now :: "('cb, 'z) hw_scheme \<Rightarrow> int" where
  "now s \<equiv> st_totalTicks (hw_stats s)"

section \<open>The class Interrupt\<close>

definition Interrupt_new :: "('cb, 'z) hw_scheme \<Rightarrow> ('cb, 'z) hw_scheme" where
  "Interrupt_new s = s\<lparr>hw_level := IntOff, hw_pending := [], hw_inHandler := False, hw_yieldOnReturn := False,
     hw_status := SystemMode\<rparr>"

definition Interrupt_ChangeLevel :: "IntStatus \<Rightarrow> ('cb, 'z) hw_scheme \<Rightarrow> ('cb, 'z) hw_scheme" where
  "Interrupt_ChangeLevel l s = s\<lparr>hw_level := l\<rparr>"

definition Interrupt_Schedule :: "'cb \<Rightarrow> int \<Rightarrow> IntType \<Rightarrow> ('cb, 'z) hw_scheme \<Rightarrow> ('cb, 'z) hw_scheme res" where
  "Interrupt_Schedule toCall fromNow type s =
     (let toOccur = \<lparr>pi_this = hw_new s, callOnInterrupt = toCall, pi_when = now s + fromNow, pi_type = type\<rparr> in
      bindE (assertE (fromNow > 0)) (\<lambda>_.
      bindE (seq_Insert PendingCompare toOccur (hw_pending s)) (\<lambda>pending.
      Inr (s\<lparr>hw_pending := pending, hw_new := hw_new s + 1\<rparr>))))"

text \<open>The \<open>do ... while\<close> of \<open>CheckIfDue\<close>; the first argument bounds the number of rounds.\<close>

fun fire :: "nat \<Rightarrow> ('cb \<Rightarrow> ('cb, 'z) hw_scheme \<Rightarrow> ('cb, 'z) hw_scheme res) \<Rightarrow> ('cb, 'z) hw_scheme
    \<Rightarrow> ('cb, 'z) hw_scheme res" where
  "fire 0 cb s = Inl Diverges"
| "fire (Suc n) cb s =
     bindE (seq_RemoveFront (hw_pending s)) (\<lambda>(next, pending).
     bindE (cb (callOnInterrupt next) (s\<lparr>hw_pending := pending\<rparr>)) (\<lambda>s.
     if hw_pending s \<noteq> [] \<and> pi_when (hd (hw_pending s)) \<le> now s then fire n cb s else Inr s))"

definition Interrupt_CheckIfDue :: "('cb \<Rightarrow> ('cb, 'z) hw_scheme \<Rightarrow> ('cb, 'z) hw_scheme res) \<Rightarrow> bool
    \<Rightarrow> ('cb, 'z) hw_scheme \<Rightarrow> (bool \<times> ('cb, 'z) hw_scheme) res" where
  "Interrupt_CheckIfDue cb advanceClock s =
     bindE (assertE (hw_level s = IntOff)) (\<lambda>_.
     if hw_pending s = [] then Inr (False, s)
     else
       bindE (seq_Front (hw_pending s)) (\<lambda>next.
       if pi_when next > now s \<and> \<not> advanceClock then Inr (False, s)
       else
         let s = (if pi_when next > now s
                  then s\<lparr>hw_stats := (hw_stats s)\<lparr>st_idleTicks := st_idleTicks (hw_stats s) + (pi_when next - now s),
                           st_totalTicks := pi_when next\<rparr>\<rparr>
                  else s) in
         bindE (case hw_machine s of None \<Rightarrow> Inr s
                | Some m \<Rightarrow> bindE (Machine_DelayedLoad m 0 0) (\<lambda>m. Inr (s\<lparr>hw_machine := Some m\<rparr>))) (\<lambda>s.
         bindE (fire (length (hw_pending s)) cb (s\<lparr>hw_inHandler := True\<rparr>)) (\<lambda>s.
         Inr (True, s\<lparr>hw_inHandler := False\<rparr>)))))"

text \<open>\<open>OneTick\<close> up to its test of \<open>yieldOnReturn\<close>.\<close>

definition Interrupt_OneTick :: "('cb \<Rightarrow> ('cb, 'z) hw_scheme \<Rightarrow> ('cb, 'z) hw_scheme res) \<Rightarrow> ('cb, 'z) hw_scheme
    \<Rightarrow> ('cb, 'z) hw_scheme res" where
  "Interrupt_OneTick cb s =
     (let st = hw_stats s;
          st = (if hw_status s = SystemMode
                then st\<lparr>st_totalTicks := st_totalTicks st + SystemTick, st_systemTicks := st_systemTicks st + SystemTick\<rparr>
                else st\<lparr>st_totalTicks := st_totalTicks st + UserTick, st_userTicks := st_userTicks st + UserTick\<rparr>);
          s = Interrupt_ChangeLevel IntOff (s\<lparr>hw_stats := st\<rparr>) in
      bindE (Interrupt_CheckIfDue cb False s) (\<lambda>(_, s). Inr (Interrupt_ChangeLevel IntOn s)))"

text \<open>\<open>SetLevel\<close>, up to the same test when interrupts are being turned on.\<close>

definition Interrupt_SetLevel :: "('cb \<Rightarrow> ('cb, 'z) hw_scheme \<Rightarrow> ('cb, 'z) hw_scheme res) \<Rightarrow> IntStatus \<Rightarrow> ('cb, 'z) hw_scheme
    \<Rightarrow> (IntStatus \<times> ('cb, 'z) hw_scheme) res" where
  "Interrupt_SetLevel cb l s =
     (let old = hw_level s in
      bindE (assertE (l = IntOff \<or> \<not> hw_inHandler s)) (\<lambda>_.
      let s = Interrupt_ChangeLevel l s in
      bindE (if l = IntOn \<and> old = IntOff then Interrupt_OneTick cb s else Inr s) (\<lambda>s. Inr (old, s))))"

definition Interrupt_YieldOnReturn :: "('cb, 'z) hw_scheme \<Rightarrow> ('cb, 'z) hw_scheme res" where
  "Interrupt_YieldOnReturn s = bindE (assertE (hw_inHandler s)) (\<lambda>_. Inr (s\<lparr>hw_yieldOnReturn := True\<rparr>))"

definition Interrupt_Halt :: "('cb, 'z) hw_scheme \<Rightarrow> ('cb, 'z) hw_scheme res" where
  "Interrupt_Halt s = Inl Machine_Halt"

definition Interrupt_Idle :: "('cb \<Rightarrow> ('cb, 'z) hw_scheme \<Rightarrow> ('cb, 'z) hw_scheme res) \<Rightarrow> ('cb, 'z) hw_scheme
    \<Rightarrow> ('cb, 'z) hw_scheme res" where
  "Interrupt_Idle cb s =
     bindE (Interrupt_CheckIfDue cb True (s\<lparr>hw_status := IdleMode\<rparr>)) (\<lambda>(fired, s).
     if fired then Inr (s\<lparr>hw_status := SystemMode\<rparr>) else Interrupt_Halt s)"

section \<open>Pending interrupts stay sorted\<close>

interpretation pending_cmp: comparator PendingCompare
  by unfold_locales (auto simp: PendingCompare_def split: if_splits)

definition pending_ok :: "('cb, 'z) hw_scheme \<Rightarrow> bool" where
  "pending_ok s \<longleftrightarrow> sorted_wrt (\<lambda>x y. pi_when x \<le> pi_when y) (hw_pending s)
     \<and> distinct (map pi_this (hw_pending s)) \<and> (\<forall>p \<in> set (hw_pending s). pi_this p < hw_new s)"

lemma pending_le: "pending_cmp.le = (\<lambda>x y. pi_when x \<le> pi_when y)"
  by (auto simp: fun_eq_iff pending_cmp.le_def PendingCompare_def)

lemma distinct_map_insert:
  "distinct (map f (sorted_insert cmp x xs)) \<longleftrightarrow> f x \<notin> f ` set xs \<and> distinct (map f xs)"
proof -
  have "mset (map f (sorted_insert cmp x xs)) = mset (map f (x # xs))" by simp
  then have "distinct (map f (sorted_insert cmp x xs)) = distinct (map f (x # xs))" by (rule mset_eq_imp_distinct_iff)
  then show ?thesis by simp
qed

text \<open>A new interrupt in the future goes behind every interrupt that is due.\<close>

lemma insert_future:
  assumes "\<forall>p \<in> set due. pi_when p \<le> t" "t < pi_when x"
  shows "sorted_insert PendingCompare x (due @ later) = due @ sorted_insert PendingCompare x later"
proof -
  have "0 \<le> PendingCompare x y" if "y \<in> set due" for y
    using assms that by (auto simp: PendingCompare_def)
  then have "takeWhile (\<lambda>y. 0 \<le> PendingCompare x y) (due @ later) = due @ takeWhile (\<lambda>y. 0 \<le> PendingCompare x y) later"
    "dropWhile (\<lambda>y. 0 \<le> PendingCompare x y) (due @ later) = dropWhile (\<lambda>y. 0 \<le> PendingCompare x y) later"
    by (simp_all add: takeWhile_append2 dropWhile_append2)
  then show ?thesis by (simp add: sorted_insert_def)
qed

lemma Schedule_ok:
  assumes "pending_ok s" "0 < d"
    and p_def: "p = \<lparr>pi_this = hw_new s, callOnInterrupt = c, pi_when = now s + d, pi_type = t\<rparr>"
  shows "Interrupt_Schedule c d t s = Inr (s\<lparr>hw_pending := sorted_insert PendingCompare p (hw_pending s), hw_new := hw_new s + 1\<rparr>)"
    and "pending_ok (s\<lparr>hw_pending := sorted_insert PendingCompare p (hw_pending s), hw_new := hw_new s + 1\<rparr>)"
proof -
  have new: "p \<notin> set (hw_pending s)" using assms(1) by (auto simp: pending_ok_def p_def)
  then show "Interrupt_Schedule c d t s = Inr (s\<lparr>hw_pending := sorted_insert PendingCompare p (hw_pending s), hw_new := hw_new s + 1\<rparr>)"
    using assms(2) by (simp add: Interrupt_Schedule_def p_def)
  show "pending_ok (s\<lparr>hw_pending := sorted_insert PendingCompare p (hw_pending s), hw_new := hw_new s + 1\<rparr>)"
    using assms(1) pending_cmp.sorted_insert_sorted [of "hw_pending s" p]
    by (auto simp: pending_ok_def pending_le distinct_map_insert p_def less_Suc_eq)
qed


section \<open>Handlers\<close>

text \<open>
  What a handler may do to the interrupt simulation: schedule interrupts in the future. It leaves
  time, level and the flags alone.
\<close>

definition scheduled :: "('cb, 'z) hw_scheme \<Rightarrow> ('cb, 'z) hw_scheme \<Rightarrow> bool" where
  "scheduled s s' \<longleftrightarrow> now s' = now s \<and> hw_level s' = hw_level s \<and> hw_inHandler s' = hw_inHandler s
     \<and> hw_status s' = hw_status s \<and> hw_yieldOnReturn s' = hw_yieldOnReturn s \<and> pending_ok s'
     \<and> (\<exists>ps. (\<forall>p \<in> set ps. now s < pi_when p)
          \<and> hw_pending s' = foldl (\<lambda>l p. sorted_insert PendingCompare p l) (hw_pending s) ps)"

lemma scheduled_refl: "pending_ok s \<Longrightarrow> scheduled s s"
  by (auto simp: scheduled_def intro: exI [of _ "[]"])

lemma scheduled_trans:
  assumes "scheduled s t" "scheduled t u"
  shows "scheduled s u"
proof -
  obtain ps qs where "\<forall>p \<in> set ps. now s < pi_when p" "\<forall>p \<in> set qs. now t < pi_when p"
    "hw_pending t = foldl (\<lambda>l p. sorted_insert PendingCompare p l) (hw_pending s) ps"
    "hw_pending u = foldl (\<lambda>l p. sorted_insert PendingCompare p l) (hw_pending t) qs"
    using assms by (auto simp: scheduled_def)
  moreover have "now t = now s" using assms(1) by (simp add: scheduled_def)
  ultimately show ?thesis using assms by (auto simp: scheduled_def intro!: exI [of _ "ps @ qs"])
qed

lemma Schedule_scheduled:
  assumes "pending_ok s" "Interrupt_Schedule c d t s = Inr s'"
  shows "scheduled s s'"
proof -
  let ?p = "\<lparr>pi_this = hw_new s, callOnInterrupt = c, pi_when = now s + d, pi_type = t\<rparr>"
  have d: "0 < d" using assms(2) by (auto simp: Interrupt_Schedule_def Let_def res_simps)
  note ok = Schedule_ok [OF assms(1) d refl, of c t]
  have "scheduled s (s\<lparr>hw_pending := sorted_insert PendingCompare ?p (hw_pending s), hw_new := hw_new s + 1\<rparr>)"
    using ok(2) d by (auto simp: scheduled_def intro!: exI [of _ "[?p]"])
  then show ?thesis using ok(1) assms(2) by simp
qed

lemma insert_future_all:
  assumes "\<forall>p \<in> set due. pi_when p \<le> t" "\<forall>p \<in> set ps. t < pi_when p"
  shows "foldl (\<lambda>l p. sorted_insert PendingCompare p l) (due @ later) ps
    = due @ foldl (\<lambda>l p. sorted_insert PendingCompare p l) later ps"
  using assms(2) by (induction ps arbitrary: later) (auto simp: insert_future [OF assms(1)])

lemma set_insert_all [simp]: "set (foldl (\<lambda>l p. sorted_insert cmp p l) l ps) = set l \<union> set ps"
  by (induction ps arbitrary: l) auto

definition serve_one where
  "serve_one cb p s = cb (callOnInterrupt p) (s\<lparr>hw_pending := tl (hw_pending s)\<rparr>)"

fun serve :: "('cb \<Rightarrow> ('cb, 'z) hw_scheme \<Rightarrow> ('cb, 'z) hw_scheme res) \<Rightarrow> 'cb PendingInterrupt list
    \<Rightarrow> ('cb, 'z) hw_scheme \<Rightarrow> ('cb, 'z) hw_scheme res" where
  "serve cb [] s = Inr s"
| "serve cb (p # ps) s = bindE (serve_one cb p s) (serve cb ps)"

definition is_due :: "('cb, 'z) hw_scheme \<Rightarrow> 'cb PendingInterrupt \<Rightarrow> bool" where
  "is_due s p \<longleftrightarrow> pi_when p \<le> now s"

text \<open>
  \<open>CheckIfDue\<close> as a whole: it always ends; if it returns, the interrupts that are still pending lie
  in the future, and what it did is to serve, in order, the interrupts that were due.
\<close>

definition loads_done :: "('cb, 'z) hw_scheme \<Rightarrow> ('cb, 'z) hw_scheme \<Rightarrow> bool" where
  "loads_done s s1 \<longleftrightarrow> hw_level s1 = hw_level s \<and> hw_pending s1 = hw_pending s \<and> hw_inHandler s1
     \<and> hw_yieldOnReturn s1 = hw_yieldOnReturn s \<and> hw_status s1 = hw_status s \<and> hw_new s1 = hw_new s
     \<and> hw.more s1 = hw.more s"

definition checked where
  "checked cb adv s b s' \<longleftrightarrow>
      pending_ok s' \<and> hw_level s' = IntOff \<and> (b \<longleftrightarrow> hw_pending s \<noteq> [] \<and> (adv \<or> is_due s (hd (hw_pending s))))
      \<and> now s' = (if b then max (now s) (pi_when (hd (hw_pending s))) else now s)
      \<and> (\<forall>q \<in> set (hw_pending s'). \<not> is_due s' q)
      \<and> (if b then \<exists>s1 s2. loads_done s s1 \<and> now s1 = now s' \<and> serve cb (filter (is_due s1) (hw_pending s)) s1 = Inr s2
                    \<and> s' = s2\<lparr>hw_inHandler := False\<rparr> else s' = s)"

lemma filter_due:
  assumes "sorted_wrt (\<lambda>x y. pi_when x \<le> pi_when y) xs"
  shows "\<exists>later. xs = filter (is_due s) xs @ later \<and> (\<forall>q \<in> set later. \<not> is_due s q)"
  using assms
proof (induction xs)
  case (Cons x xs)
  show ?case
  proof (cases "is_due s x")
    case True
    then show ?thesis using Cons by auto
  next
    case False
    then have "\<forall>q \<in> set (x # xs). \<not> is_due s q" using Cons.prems by (force simp: is_due_def)
    then have "filter (is_due s) (x # xs) = []" "\<forall>q \<in> set (x # xs). \<not> is_due s q" by (simp_all add: filter_empty_conv)
    then show ?thesis by auto
  qed
qed simp

locale handlers =
  fixes cb :: "'cb \<Rightarrow> ('cb, 'z) hw_scheme \<Rightarrow> ('cb, 'z) hw_scheme res"
  assumes handler_scheduled: "pending_ok s \<Longrightarrow> cb c s = Inr s' \<Longrightarrow> scheduled s s'"
    and handler_returns: "cb c s \<noteq> Inl Diverges"
begin

lemma serve_one_ok:
  assumes "pending_ok s" "hw_pending s = p # due @ later" "\<forall>q \<in> set due. is_due s q"
    and "\<forall>q \<in> set later. \<not> is_due s q" "serve_one cb p s = Inr s'"
  shows "scheduled (s\<lparr>hw_pending := due @ later\<rparr>) s'"
    and "\<exists>later'. hw_pending s' = due @ later' \<and> (\<forall>q \<in> set later'. \<not> is_due s' q)"
    and "now s' = now s" "pending_ok s'" "hw_level s' = hw_level s"
proof -
  have "pending_ok (s\<lparr>hw_pending := due @ later\<rparr>)" using assms(1,2) by (auto simp: pending_ok_def)
  then show sch: "scheduled (s\<lparr>hw_pending := due @ later\<rparr>) s'"
    using assms(2,5) handler_scheduled by (simp add: serve_one_def)
  then obtain ps where ps: "\<forall>q \<in> set ps. now s < pi_when q"
    "hw_pending s' = foldl (\<lambda>l p. sorted_insert PendingCompare p l) (due @ later) ps"
    by (auto simp: scheduled_def)
  show now: "now s' = now s" "pending_ok s'" "hw_level s' = hw_level s" using sch by (auto simp: scheduled_def)
  show "\<exists>later'. hw_pending s' = due @ later' \<and> (\<forall>q \<in> set later'. \<not> is_due s' q)"
  proof (intro exI conjI)
    show "hw_pending s' = due @ foldl (\<lambda>l p. sorted_insert PendingCompare p l) later ps"
      unfolding ps(2) using assms(3) ps(1) by (intro insert_future_all [of due "now s"]) (auto simp: is_due_def)
    show "\<forall>q \<in> set (foldl (\<lambda>l p. sorted_insert PendingCompare p l) later ps). \<not> is_due s' q"
      using ps(1) assms(4) now(1) by (auto simp: is_due_def)
  qed
qed

lemma fire_ok:
  assumes "pending_ok s" "hw_pending s = due @ later" "due \<noteq> []" "\<forall>q \<in> set due. is_due s q"
    and "\<forall>q \<in> set later. \<not> is_due s q" "length due \<le> n"
  shows "fire n cb s = serve cb due s \<and> serve cb due s \<noteq> Inl Diverges
    \<and> (\<forall>s'. serve cb due s = Inr s' \<longrightarrow> pending_ok s' \<and> now s' = now s \<and> hw_level s' = hw_level s
         \<and> (\<forall>q \<in> set (hw_pending s'). \<not> is_due s' q))"
  using assms
proof (induction n arbitrary: s due later)
  case 0
  then show ?case by simp
next
  case (Suc n)
  obtain p ps where due: "due = p # ps" using Suc.prems(3) by (cases due) auto
  have pend: "hw_pending s = p # ps @ later" using Suc.prems(2) due by simp
  have step: "fire (Suc n) cb s = bindE (serve_one cb p s)
    (\<lambda>s. if hw_pending s \<noteq> [] \<and> pi_when (hd (hw_pending s)) \<le> now s then fire n cb s else Inr s)"
    using pend by (simp add: serve_one_def)
  show ?case
  proof (cases "serve_one cb p s")
    case (Inl e)
    then show ?thesis using step due handler_returns by (auto simp: serve_one_def)
  next
    case (Inr s')
    have nd: "\<forall>q \<in> set ps. is_due s q" using Suc.prems(4) due by simp
    note one = serve_one_ok [OF Suc.prems(1) pend nd Suc.prems(5) Inr]
    obtain later' where later': "hw_pending s' = ps @ later'" "\<forall>q \<in> set later'. \<not> is_due s' q" using one(2) by blast
    show ?thesis
    proof (cases "ps = []")
      case True
      then have "\<not> (hw_pending s' \<noteq> [] \<and> pi_when (hd (hw_pending s')) \<le> now s')"
        using later' by (cases later') (auto simp: is_due_def)
      then have "fire (Suc n) cb s = Inr s'" "serve cb due s = Inr s'" using step Inr True due by auto
      then show ?thesis using one(3-5) later' True by simp
    next
      case False
      then have go: "hw_pending s' \<noteq> [] \<and> pi_when (hd (hw_pending s')) \<le> now s'"
        using later' nd one(3) by (cases ps) (auto simp: is_due_def)
      have nd': "\<forall>q \<in> set ps. is_due s' q" using nd one(3) by (simp add: is_due_def)
      have len: "length ps \<le> n" using Suc.prems(6) due by simp
      note ih = Suc.IH [OF one(4) later'(1) False nd' later'(2) len]
      have eqs: "fire (Suc n) cb s = fire n cb s'" "serve cb due s = serve cb ps s'"
        unfolding step due using go Inr by simp_all
      show ?thesis unfolding eqs using ih unfolding one(3,5) .
    qed
  qed
qed

lemma CheckIfDue_ok:
  assumes "pending_ok s" "hw_level s = IntOff"
  shows "Interrupt_CheckIfDue cb adv s \<noteq> Inl Diverges"
    and "Interrupt_CheckIfDue cb adv s = Inr (b, s') \<Longrightarrow>
      checked cb adv s b s'"
proof -
  have both: "Interrupt_CheckIfDue cb adv s \<noteq> Inl Diverges \<and> (\<forall>b s'. Interrupt_CheckIfDue cb adv s = Inr (b, s') \<longrightarrow>
      checked cb adv s b s')"
  proof (cases "hw_pending s")
    case Nil
    then show ?thesis using assms by (simp add: Interrupt_CheckIfDue_def checked_def)
  next
    case (Cons p ps)
    have srt: "sorted_wrt (\<lambda>x y. pi_when x \<le> pi_when y) (hw_pending s)" using assms(1) by (simp add: pending_ok_def)
    show ?thesis
    proof (cases "is_due s p \<or> adv")
      case False
      then have "\<forall>q \<in> set (hw_pending s). \<not> is_due s q" using srt Cons by (force simp: is_due_def)
      then show ?thesis using assms Cons False by (simp add: Interrupt_CheckIfDue_def is_due_def checked_def)
    next
      case True
      define t where "t = max (now s) (pi_when p)"
      define s0 where "s0 = (if pi_when p > now s then s\<lparr>hw_stats := (hw_stats s)\<lparr>st_idleTicks := st_idleTicks (hw_stats s)
        + (pi_when p - now s), st_totalTicks := pi_when p\<rparr>\<rparr> else s)"
      define L where "L = (case hw_machine s0 of None \<Rightarrow> Inr s0
        | Some m \<Rightarrow> bindE (Machine_DelayedLoad m 0 0) (\<lambda>m. Inr (s0\<lparr>hw_machine := Some m\<rparr>)))"
      have run: "Interrupt_CheckIfDue cb adv s = bindE L (\<lambda>s. bindE (fire (length (hw_pending s)) cb (s\<lparr>hw_inHandler := True\<rparr>)) (\<lambda>s.
         Inr (True, s\<lparr>hw_inHandler := False\<rparr>)))"
        using assms(2) Cons True unfolding Interrupt_CheckIfDue_def L_def s0_def by (auto simp: is_due_def Let_def)
      have L: "L \<noteq> Inl Diverges" "\<And>s1. L = Inr s1 \<Longrightarrow> loads_done s (s1\<lparr>hw_inHandler := True\<rparr>) \<and> now s1 = t"
        unfolding L_def s0_def t_def loads_done_def
        by (auto simp: Machine_DelayedLoad_def arr_set_def Let_def split: option.splits if_splits)
      show ?thesis
      proof (cases L)
        case (Inl e)
        then show ?thesis using L(1) run by simp
      next
        case (Inr s1)
        let ?s = "s1\<lparr>hw_inHandler := True\<rparr>"
        have ld: "loads_done s ?s" "now ?s = t" using L(2) [OF Inr] by simp_all
        then have same: "hw_pending ?s = hw_pending s" "pending_ok ?s" "hw_level ?s = IntOff"
          using assms by (auto simp: loads_done_def pending_ok_def)
        obtain later where later: "hw_pending s = filter (is_due ?s) (hw_pending s) @ later" "\<forall>q \<in> set later. \<not> is_due ?s q"
          using filter_due [OF srt] by blast
        have ne: "filter (is_due ?s) (hw_pending s) \<noteq> []" using Cons ld(2) by (simp add: is_due_def t_def)
        have len: "length (filter (is_due ?s) (hw_pending s)) \<le> length (hw_pending s1)" using same(1) by simp
        have all: "\<forall>q \<in> set (filter (is_due ?s) (hw_pending s)). is_due ?s q" by simp
        note f = fire_ok [OF same(2) later(1) [folded same(1)] ne [folded same(1)] all [folded same(1)] later(2) len [folded same(1)], unfolded same(1)]
        show ?thesis
        proof (cases "serve cb (filter (is_due ?s) (hw_pending s)) ?s")
          case (Inl e)
          then show ?thesis using f run Inr by simp
        next
          case (Inr s2)
          then have "Interrupt_CheckIfDue cb adv s = Inr (True, s2\<lparr>hw_inHandler := False\<rparr>)"
            using f run \<open>L = Inr s1\<close> by simp
          moreover have "pending_ok (s2\<lparr>hw_inHandler := False\<rparr>) \<and> now s2 = t \<and> hw_level s2 = IntOff
            \<and> (\<forall>q \<in> set (hw_pending s2). \<not> is_due s2 q)"
            using f Inr ld(2) same(3) by (simp add: pending_ok_def)
          ultimately show ?thesis using Inr ld Cons True by (auto simp: is_due_def t_def checked_def)
        qed
      qed
    qed
  qed
  show "Interrupt_CheckIfDue cb adv s \<noteq> Inl Diverges" using both by blast
  show "Interrupt_CheckIfDue cb adv s = Inr (b, s') \<Longrightarrow>
      checked cb adv s b s'"
    using both by blast
qed

end

end
