(* ===== verification/Threads.thy ===== *)
theory Threads
  imports Interrupt
begin

text \<open>
  threads/thread.h, thread.cc, scheduler.cc and ThreadManager.cc: thread control blocks, the ready
  list, context switches and the thread manager.

  \<open>kernel\<close> is the global \<open>kernel\<close> object as far as threads use it. Threads, semaphores, locks,
  condition variables and synchronised lists are objects at addresses (\<open>nat\<close>); a freed object is
  gone from its map, so that using a dangling pointer is \<open>Bad_Access\<close>.

  A host stack cannot be a HOL value, so the stack and the saved machine state of a thread are its
  field \<open>th_frames\<close>: what the thread still has to do, innermost call first. \<open>SWITCH\<close> leaves the
  frame \<open>F_Switched\<close> (the code of \<open>Scheduler::Run\<close> behind it) on the stack of the thread that
  gives up the processor. Theory Synch says what each frame does; an operation of this theory that
  calls another one that may switch threads pushes frames for what follows. Code that runs with
  interrupts off between two switches is one step, as it is on the machine.

  \<open>'a\<close> is the type of device operations a thread may call (theory Devices), \<open>'cb\<close> that of
  interrupt handlers.
\<close>

section \<open>Objects\<close>

datatype ThreadStatus = JUST_CREATED | RUNNING | READY | BLOCKED | ZOMMBIE

datatype 'a frame =
    F_Begin | F_Finish | F_Yield | F_Sleep bool | F_Switched
  | F_SetLevel IntStatus | F_OneTick | F_SetStatus MachineStatus
  | F_Fork nat | F_createThread int | F_setPriority nat int
  | F_P nat | F_P_loop nat | F_V nat
  | F_Acquire nat | F_SetHolder nat | F_Release nat
  | F_Wait nat nat | F_DeleteSemaphore nat | F_Signal nat nat | F_Broadcast nat nat
  | F_SL_Append nat nat | F_SL_PutItem nat nat | F_SL_RemoveFront nat | F_SL_TakeItem nat
  | F_SL_Remove nat nat | F_SL_DropItem nat nat | F_SL_Apply nat | F_SL_Visit nat
  | F_Execute AddrSpace | F_MachineRun | F_Instruction | F_Do 'a

record 'a Thread =
  th_uid :: int
  th_pid :: int
  th_priority :: int
  th_status :: ThreadStatus
  th_parent :: "nat option"
  th_activeChild :: "nat list"
  th_exitedChild :: "nat list"
  th_stack :: "int option"
  th_userRegisters :: "32 word list"
  th_space :: "AddrSpace option"
  th_frames :: "'a frame list"

record Semaphore =
  sem_value :: int
  sem_queue :: "nat list"

record Lock =
  lock_semaphore :: nat
  lock_holder :: "nat option"

record SynchList =
  sl_list :: "nat list"
  sl_lock :: nat
  sl_listEmpty :: nat

record ('cb, 'a) kernel = "'cb hw" +
  k_currentThread :: nat
  k_threads :: "nat \<rightharpoonup> 'a Thread"
  k_readyList :: "nat list"
  k_toBeDestroyed :: "nat option"
  k_threadCnt :: int
  k_threadList :: "nat list"
  k_threadMap :: bitmap
  k_sems :: "nat \<rightharpoonup> Semaphore"
  k_locks :: "nat \<rightharpoonup> Lock"
  k_conds :: "nat \<rightharpoonup> nat list"
  k_slists :: "nat \<rightharpoonup> SynchList"
  k_brk :: nat
  k_result :: "nat \<Rightarrow> nat option"
  k_visited :: "nat \<Rightarrow> nat list"

definition STACK_FENCEPOST :: int where "STACK_FENCEPOST = 0xdedbeef"

text \<open>Following a pointer, and changing the object behind it.\<close>

definition object :: "(nat \<rightharpoonup> 'o) \<Rightarrow> nat \<Rightarrow> 'o res" where
  "object h p = (case h p of None \<Rightarrow> Inl Bad_Access | Some x \<Rightarrow> Inr x)"

definition upd_thread :: "nat \<Rightarrow> ('a Thread \<Rightarrow> 'a Thread) \<Rightarrow> ('cb, 'a, 'z) kernel_scheme \<Rightarrow> ('cb, 'a, 'z) kernel_scheme res" where
  "upd_thread t f k =
     bindE (object (k_threads k) t) (\<lambda>th. Inr (k\<lparr>k_threads := (k_threads k)(t \<mapsto> f th)\<rparr>))"

text \<open>What the running thread does next, and popping the frame it is about to execute.\<close>

definition push :: "'a frame list \<Rightarrow> ('cb, 'a, 'z) kernel_scheme \<Rightarrow> ('cb, 'a, 'z) kernel_scheme res" where
  "push fs k = upd_thread (k_currentThread k) (\<lambda>th. th\<lparr>th_frames := fs @ th_frames th\<rparr>) k"

definition set_level :: "IntStatus \<Rightarrow> ('cb, 'a, 'z) kernel_scheme \<Rightarrow> ('cb, 'a, 'z) kernel_scheme" where
  "set_level = Interrupt_ChangeLevel"

section \<open>The thread manager\<close>

definition ThreadManager_new :: "('cb, 'a, 'z) kernel_scheme \<Rightarrow> ('cb, 'a, 'z) kernel_scheme res" where
  "ThreadManager_new k =
     bindE (Bitmap_new THREAD_COUNT_MAX) (\<lambda>m. Inr (k\<lparr>k_threadCnt := 0, k_threadList := [], k_threadMap := m\<rparr>))"

definition generateThreadID :: "('cb, 'a, 'z) kernel_scheme \<Rightarrow> (int \<times> ('cb, 'a, 'z) kernel_scheme) res" where
  "generateThreadID k = bindE (Bitmap_FindAndSet (k_threadMap k)) (\<lambda>(pid, m). Inr (pid, k\<lparr>k_threadMap := m\<rparr>))"

text \<open>\<open>currentThread\<close> is an argument of the constructor: before the main thread exists it is not initialised.\<close>

definition Thread_new :: "int \<Rightarrow> int \<Rightarrow> nat option \<Rightarrow> 'a Thread" where
  "Thread_new uid pid currentThread =
     \<lparr>th_uid = uid, th_pid = pid, th_priority = 0, th_status = JUST_CREATED, th_parent = currentThread,
      th_activeChild = [], th_exitedChild = [], th_stack = None, th_userRegisters = replicate NumTotalRegs 0,
      th_space = None, th_frames = []\<rparr>"

definition addChild :: "nat \<Rightarrow> nat option \<Rightarrow> ('cb, 'a, 'z) kernel_scheme \<Rightarrow> ('cb, 'a, 'z) kernel_scheme res" where
  "addChild t child k = (case child of None \<Rightarrow> Inr k
     | Some c \<Rightarrow> upd_thread t (\<lambda>th. th\<lparr>th_activeChild := th_activeChild th @ [c]\<rparr>) k)"

definition createThread :: "nat option \<Rightarrow> int \<Rightarrow> ('cb, 'a, 'z) kernel_scheme
    \<Rightarrow> (nat option \<times> ('cb, 'a, 'z) kernel_scheme) res" where
  "createThread currentThread uid k =
     (if k_threadCnt k + 1 < THREAD_COUNT_MAX then
        let k = k\<lparr>k_threadCnt := k_threadCnt k + 1\<rparr> in
        bindE (generateThreadID k) (\<lambda>(pid, k).
        let t = k_brk k;
            k = k\<lparr>k_threads := (k_threads k)(t \<mapsto> Thread_new uid pid currentThread), k_brk := k_brk k + 1\<rparr> in
        bindE (if k_threadCnt k > 1 then addChild (k_currentThread k) (Some t) k else Inr k) (\<lambda>k.
        Inr (Some t, k\<lparr>k_threadList := k_threadList k @ [t]\<rparr>)))
      else Inr (None, k))"

text \<open>\<open>delete thread\<close>: the destructor refuses the running thread.\<close>

definition Thread_delete :: "nat \<Rightarrow> ('cb, 'a, 'z) kernel_scheme \<Rightarrow> ('cb, 'a, 'z) kernel_scheme res" where
  "Thread_delete t k = bindE (assertE (t \<noteq> k_currentThread k)) (\<lambda>_. Inr (k\<lparr>k_threads := (k_threads k)(t := None)\<rparr>))"

definition deleteThread :: "nat option \<Rightarrow> ('cb, 'a, 'z) kernel_scheme \<Rightarrow> ('cb, 'a, 'z) kernel_scheme res" where
  "deleteThread thread k = (case thread of None \<Rightarrow> Inr k
     | Some t \<Rightarrow>
         let k = k\<lparr>k_threadCnt := k_threadCnt k - 1\<rparr> in
         bindE (object (k_threads k) t) (\<lambda>th.
         bindE (Bitmap_Clear (k_threadMap k) (th_pid th)) (\<lambda>m.
         bindE (seq_Remove t (k_threadList k)) (\<lambda>l.
         Thread_delete t (k\<lparr>k_threadMap := m, k_threadList := l\<rparr>)))))"

definition getThreadPtr :: "int \<Rightarrow> ('cb, 'a, 'z) kernel_scheme \<Rightarrow> nat option res" where
  "getThreadPtr pid k =
     bindE (Bitmap_Test (k_threadMap k) pid) (\<lambda>used.
     if \<not> used then Inr None
     else Inr (find (\<lambda>t. case k_threads k t of Some th \<Rightarrow> th_pid th = pid | None \<Rightarrow> False) (k_threadList k)))"

definition childThreadExit :: "nat \<Rightarrow> nat option \<Rightarrow> ('cb, 'a, 'z) kernel_scheme \<Rightarrow> ('cb, 'a, 'z) kernel_scheme res" where
  "childThreadExit t child k = (case child of None \<Rightarrow> Inr k
     | Some c \<Rightarrow>
         bindE (object (k_threads k) t) (\<lambda>th.
         bindE (seq_Remove c (th_activeChild th)) (\<lambda>l.
         upd_thread t (\<lambda>th. th\<lparr>th_activeChild := l, th_exitedChild := th_exitedChild th @ [c]\<rparr>) k)))"

text \<open>A null child is not in the list, so \<open>Remove\<close> aborts.\<close>

definition removeExitedChild :: "nat \<Rightarrow> int \<Rightarrow> ('cb, 'a, 'z) kernel_scheme
    \<Rightarrow> (nat option \<times> ('cb, 'a, 'z) kernel_scheme) res" where
  "removeExitedChild t pid k =
     bindE (getThreadPtr pid k) (\<lambda>child.
     bindE (object (k_threads k) t) (\<lambda>th.
     case child of None \<Rightarrow> Inl Assert_Failed
     | Some c \<Rightarrow>
         bindE (seq_Remove c (th_exitedChild th)) (\<lambda>l.
         bindE (upd_thread t (\<lambda>th. th\<lparr>th_exitedChild := l\<rparr>) k) (\<lambda>k. Inr (child, k)))))"

section \<open>The scheduler\<close>

text \<open>Threads on the ready list are alive (theorem \<open>thread_placement\<close>), so the comparison reads a live object.\<close>

definition priority :: "('cb, 'a, 'z) kernel_scheme \<Rightarrow> nat \<Rightarrow> int" where
  "priority k t = (case k_threads k t of Some th \<Rightarrow> th_priority th | None \<Rightarrow> 0)"

definition ThreadPriorityCompare :: "('cb, 'a, 'z) kernel_scheme \<Rightarrow> nat \<Rightarrow> nat \<Rightarrow> int" where
  "ThreadPriorityCompare k x y =
     (if priority k x < priority k y then - 1 else if priority k x > priority k y then 1 else 0)"

definition Scheduler_new :: "('cb, 'a, 'z) kernel_scheme \<Rightarrow> ('cb, 'a, 'z) kernel_scheme" where
  "Scheduler_new k = k\<lparr>k_readyList := [], k_toBeDestroyed := None\<rparr>"

definition setStatus :: "nat \<Rightarrow> ThreadStatus \<Rightarrow> ('cb, 'a, 'z) kernel_scheme \<Rightarrow> ('cb, 'a, 'z) kernel_scheme res" where
  "setStatus t st = upd_thread t (\<lambda>th. th\<lparr>th_status := st\<rparr>)"

definition ReadyToRun :: "nat \<Rightarrow> ('cb, 'a, 'z) kernel_scheme \<Rightarrow> ('cb, 'a, 'z) kernel_scheme res" where
  "ReadyToRun t k =
     bindE (assertE (hw_level k = IntOff)) (\<lambda>_.
     bindE (setStatus t READY k) (\<lambda>k.
     bindE (seq_Insert (ThreadPriorityCompare k) t (k_readyList k)) (\<lambda>l. Inr (k\<lparr>k_readyList := l\<rparr>))))"

definition FindNextToRun :: "('cb, 'a, 'z) kernel_scheme \<Rightarrow> (nat option \<times> ('cb, 'a, 'z) kernel_scheme) res" where
  "FindNextToRun k =
     bindE (assertE (hw_level k = IntOff)) (\<lambda>_.
     if k_readyList k = [] then Inr (None, k)
     else bindE (seq_RemoveFront (k_readyList k)) (\<lambda>(t, l). Inr (Some t, k\<lparr>k_readyList := l\<rparr>)))"

definition CheckToBeDestroyed :: "('cb, 'a, 'z) kernel_scheme \<Rightarrow> ('cb, 'a, 'z) kernel_scheme res" where
  "CheckToBeDestroyed k =
     (if k_toBeDestroyed k \<noteq> None
      then bindE (deleteThread (k_toBeDestroyed k) k) (\<lambda>k. Inr (k\<lparr>k_toBeDestroyed := None\<rparr>))
      else Inr k)"

definition the_machine :: "('cb, 'a, 'z) kernel_scheme \<Rightarrow> vm res" where
  "the_machine k = (case hw_machine k of None \<Rightarrow> Inl Bad_Access | Some m \<Rightarrow> Inr m)"

fun mapE :: "('x \<Rightarrow> 'y res) \<Rightarrow> 'x list \<Rightarrow> 'y list res" where
  "mapE f [] = Inr []"
| "mapE f (x # xs) = bindE (f x) (\<lambda>y. bindE (mapE f xs) (\<lambda>ys. Inr (y # ys)))"

definition SaveUserState :: "nat \<Rightarrow> ('cb, 'a, 'z) kernel_scheme \<Rightarrow> ('cb, 'a, 'z) kernel_scheme res" where
  "SaveUserState t k =
     bindE (the_machine k) (\<lambda>m.
     bindE (mapE (\<lambda>i. Machine_ReadRegister m (int i)) [0..<NumTotalRegs]) (\<lambda>rs.
     upd_thread t (\<lambda>th. th\<lparr>th_userRegisters := rs\<rparr>) k))"

definition RestoreUserState :: "nat \<Rightarrow> ('cb, 'a, 'z) kernel_scheme \<Rightarrow> ('cb, 'a, 'z) kernel_scheme res" where
  "RestoreUserState t k =
     bindE (the_machine k) (\<lambda>m.
     bindE (object (k_threads k) t) (\<lambda>th.
     bindE (fold (\<lambda>i r. bindE r (\<lambda>m. Machine_WriteRegister m (int i) (th_userRegisters th ! i))) [0..<NumTotalRegs] (Inr m)) (\<lambda>m.
     Inr (k\<lparr>hw_machine := Some m\<rparr>))))"

definition CheckOverflow :: "nat \<Rightarrow> ('cb, 'a, 'z) kernel_scheme \<Rightarrow> unit res" where
  "CheckOverflow t k =
     bindE (object (k_threads k) t) (\<lambda>th.
     case th_stack th of None \<Rightarrow> Inr () | Some v \<Rightarrow> assertE (v = STACK_FENCEPOST))"

text \<open>\<open>Run\<close> up to \<open>SWITCH\<close>, and what the old thread does when it is switched to again. \<open>SaveState\<close> of an address space is empty.\<close>

definition Scheduler_Run :: "nat \<Rightarrow> bool \<Rightarrow> ('cb, 'a, 'z) kernel_scheme \<Rightarrow> ('cb, 'a, 'z) kernel_scheme res" where
  "Scheduler_Run nextThread finishing k =
     (let oldThread = k_currentThread k in
      bindE (assertE (hw_level k = IntOff)) (\<lambda>_.
      bindE (if finishing
             then bindE (assertE (k_toBeDestroyed k = None)) (\<lambda>_. Inr (k\<lparr>k_toBeDestroyed := Some oldThread\<rparr>))
             else Inr k) (\<lambda>k.
      bindE (object (k_threads k) oldThread) (\<lambda>old.
      bindE (if th_space old \<noteq> None then SaveUserState oldThread k else Inr k) (\<lambda>k.
      bindE (CheckOverflow oldThread k) (\<lambda>_.
      bindE (push [F_Switched] k) (\<lambda>k.
      setStatus nextThread RUNNING (k\<lparr>k_currentThread := nextThread\<rparr>))))))))"

definition after_switch :: "('cb, 'a, 'z) kernel_scheme \<Rightarrow> ('cb, 'a, 'z) kernel_scheme res" where
  "after_switch k =
     (let oldThread = k_currentThread k in
      bindE (assertE (hw_level k = IntOff)) (\<lambda>_.
      bindE (CheckToBeDestroyed k) (\<lambda>k.
      bindE (object (k_threads k) oldThread) (\<lambda>old.
      case th_space old of None \<Rightarrow> Inr k
      | Some s \<Rightarrow>
          bindE (RestoreUserState oldThread k) (\<lambda>k.
          bindE (the_machine k) (\<lambda>m. Inr (k\<lparr>hw_machine := Some (AddrSpace_RestoreState s m)\<rparr>)))))))"

section \<open>Thread operations\<close>

text \<open>
  \<open>SWITCH\<close> to a thread that never ran enters \<open>ThreadRoot\<close>, which calls \<open>Begin\<close>, the forked
  procedure and \<open>Finish\<close>: a new stack holds the frame \<open>F_Begin\<close>.
\<close>

definition StackAllocate :: "nat \<Rightarrow> ('cb, 'a, 'z) kernel_scheme \<Rightarrow> ('cb, 'a, 'z) kernel_scheme res" where
  "StackAllocate t = upd_thread t (\<lambda>th. th\<lparr>th_stack := Some STACK_FENCEPOST, th_frames := [F_Begin]\<rparr>)"

definition Thread_Fork :: "nat \<Rightarrow> ('cb, 'a, 'z) kernel_scheme \<Rightarrow> ('cb, 'a, 'z) kernel_scheme res" where
  "Thread_Fork t k =
     bindE (StackAllocate t k) (\<lambda>k.
     let oldLevel = hw_level k; k = set_level IntOff k in
     bindE (ReadyToRun t k) (\<lambda>k.
     push [F_Yield, F_SetLevel oldLevel] k))"

definition Thread_Begin :: "('cb, 'a, 'z) kernel_scheme \<Rightarrow> ('cb, 'a, 'z) kernel_scheme res" where
  "Thread_Begin k = bindE (CheckToBeDestroyed k) (\<lambda>k. push [F_SetLevel IntOn] k)"

definition Thread_Yield :: "('cb, 'a, 'z) kernel_scheme \<Rightarrow> ('cb, 'a, 'z) kernel_scheme res" where
  "Thread_Yield k =
     (let this = k_currentThread k; oldLevel = hw_level k; k = set_level IntOff k in
      bindE (push [F_SetLevel oldLevel] k) (\<lambda>k.
      bindE (FindNextToRun k) (\<lambda>(nextThread, k).
      case nextThread of None \<Rightarrow> Inr k
      | Some n \<Rightarrow> bindE (ReadyToRun this k) (\<lambda>k. Scheduler_Run n False k))))"

text \<open>\<open>Sleep\<close> up to its loop, and one round of the loop.\<close>

definition Thread_Sleep :: "bool \<Rightarrow> ('cb, 'a, 'z) kernel_scheme \<Rightarrow> ('cb, 'a, 'z) kernel_scheme res" where
  "Thread_Sleep finishing k =
     bindE (assertE (hw_level k = IntOff)) (\<lambda>_.
     bindE (if \<not> finishing then setStatus (k_currentThread k) BLOCKED k else Inr k) (\<lambda>k.
     push [F_Sleep finishing] k))"

definition Sleep_round :: "('cb \<Rightarrow> ('cb, 'a, 'z) kernel_scheme \<Rightarrow> ('cb, 'a, 'z) kernel_scheme res) \<Rightarrow> bool
    \<Rightarrow> ('cb, 'a, 'z) kernel_scheme \<Rightarrow> ('cb, 'a, 'z) kernel_scheme res" where
  "Sleep_round cb finishing k =
     bindE (FindNextToRun k) (\<lambda>(nextThread, k).
     case nextThread of
       None \<Rightarrow> bindE (Interrupt_Idle cb k) (\<lambda>k. push [F_Sleep finishing] k)
     | Some n \<Rightarrow> Scheduler_Run n finishing k)"

definition Thread_Finish :: "('cb, 'a, 'z) kernel_scheme \<Rightarrow> ('cb, 'a, 'z) kernel_scheme res" where
  "Thread_Finish k =
     (let this = k_currentThread k; k = set_level IntOff k in
      bindE (object (k_threads k) this) (\<lambda>th.
      bindE (setStatus this ZOMMBIE k) (\<lambda>k.
      bindE (case th_parent th of None \<Rightarrow> Inr k | Some p \<Rightarrow> childThreadExit p (Some this) k) (\<lambda>k.
      Thread_Sleep True k))))"

end
