(* ===== verification/Synch.thy ===== *)
theory Synch
  imports Threads
begin

text \<open>
  threads/synch.h, synch.cc and synchlist.cc: semaphores, locks, condition variables and
  synchronised lists; and \<open>Machine::Run\<close> of machine/mipssim.cc.

  \<open>exec\<close> says what each frame of a thread's stack does: one atomic piece of the source, up to the
  point where interrupts are turned on again or the processor is given away; the rest of the
  function is pushed as further frames. \<open>kstep\<close> is one step of the machine: the running thread
  executes the frame on top of its stack, or, when its stack is empty, the procedure it was forked
  with (any C++ code that uses the public interface) makes its next call.
\<close>

section \<open>Semaphores\<close>

definition Semaphore_new :: "int \<Rightarrow> ('cb, 'a, 'z) kernel_scheme \<Rightarrow> nat \<times> ('cb, 'a, 'z) kernel_scheme" where
  "Semaphore_new initialValue k =
     (k_brk k, k\<lparr>k_sems := (k_sems k)(k_brk k \<mapsto> \<lparr>sem_value = initialValue, sem_queue = []\<rparr>), k_brk := k_brk k + 1\<rparr>)"

definition Semaphore_delete :: "nat \<Rightarrow> ('cb, 'a, 'z) kernel_scheme \<Rightarrow> ('cb, 'a, 'z) kernel_scheme res" where
  "Semaphore_delete s k = bindE (object (k_sems k) s) (\<lambda>_. Inr (k\<lparr>k_sems := (k_sems k)(s := None)\<rparr>))"

definition upd_sem :: "nat \<Rightarrow> Semaphore \<Rightarrow> ('cb, 'a, 'z) kernel_scheme \<Rightarrow> ('cb, 'a, 'z) kernel_scheme" where
  "upd_sem s x k = k\<lparr>k_sems := (k_sems k)(s \<mapsto> x)\<rparr>"

text \<open>
  The loop of \<open>P\<close>: every round starts with the test, interrupts are off. \<open>Sleep\<close> returns into the
  next round.
\<close>

definition P_round :: "nat \<Rightarrow> ('cb, 'a, 'z) kernel_scheme \<Rightarrow> ('cb, 'a, 'z) kernel_scheme res" where
  "P_round s k =
     bindE (object (k_sems k) s) (\<lambda>sem.
     if sem_value sem = 0 then
       bindE (push [F_P_loop s] (upd_sem s (sem\<lparr>sem_queue := sem_queue sem @ [k_currentThread k]\<rparr>) k)) (\<lambda>k.
       Thread_Sleep False k)
     else Inr (upd_sem s (sem\<lparr>sem_value := sem_value sem - 1\<rparr>) k))"

definition Semaphore_P :: "nat \<Rightarrow> ('cb, 'a, 'z) kernel_scheme \<Rightarrow> ('cb, 'a, 'z) kernel_scheme res" where
  "Semaphore_P s k =
     (let oldLevel = hw_level k in push [F_P_loop s, F_SetLevel oldLevel] (set_level IntOff k))"

text \<open>
  \<open>V\<close> with interrupts off, as the handlers of device interrupts call it (both calls of \<open>SetLevel\<close>
  then leave the level off), and as a call of a thread.
\<close>

definition V_body :: "nat \<Rightarrow> ('cb, 'a, 'z) kernel_scheme \<Rightarrow> ('cb, 'a, 'z) kernel_scheme res" where
  "V_body s k =
     bindE (object (k_sems k) s) (\<lambda>sem.
     bindE (if sem_queue sem \<noteq> []
            then bindE (seq_RemoveFront (sem_queue sem)) (\<lambda>(t, q).
                 bindE (ReadyToRun t k) (\<lambda>k. Inr (sem\<lparr>sem_queue := q\<rparr>, k)))
            else Inr (sem, k)) (\<lambda>(sem, k).
     Inr (upd_sem s (sem\<lparr>sem_value := sem_value sem + 1\<rparr>) k)))"

definition Semaphore_V :: "nat \<Rightarrow> ('cb, 'a, 'z) kernel_scheme \<Rightarrow> ('cb, 'a, 'z) kernel_scheme res" where
  "Semaphore_V s k =
     (let oldLevel = hw_level k in bindE (V_body s (set_level IntOff k)) (\<lambda>k. push [F_SetLevel oldLevel] k))"

section \<open>Locks\<close>

definition Lock_new :: "('cb, 'a, 'z) kernel_scheme \<Rightarrow> nat \<times> ('cb, 'a, 'z) kernel_scheme" where
  "Lock_new k =
     (let (s, k) = Semaphore_new 1 k in
      (k_brk k, k\<lparr>k_locks := (k_locks k)(k_brk k \<mapsto> \<lparr>lock_semaphore = s, lock_holder = None\<rparr>), k_brk := k_brk k + 1\<rparr>))"

definition upd_lock :: "nat \<Rightarrow> nat option \<Rightarrow> ('cb, 'a, 'z) kernel_scheme \<Rightarrow> ('cb, 'a, 'z) kernel_scheme res" where
  "upd_lock l holder k =
     bindE (object (k_locks k) l) (\<lambda>x. Inr (k\<lparr>k_locks := (k_locks k)(l \<mapsto> x\<lparr>lock_holder := holder\<rparr>)\<rparr>))"

definition IsHeldByCurrentThread :: "nat \<Rightarrow> ('cb, 'a, 'z) kernel_scheme \<Rightarrow> bool res" where
  "IsHeldByCurrentThread l k = bindE (object (k_locks k) l) (\<lambda>x. Inr (lock_holder x = Some (k_currentThread k)))"

definition Lock_Acquire :: "nat \<Rightarrow> ('cb, 'a, 'z) kernel_scheme \<Rightarrow> ('cb, 'a, 'z) kernel_scheme res" where
  "Lock_Acquire l k = bindE (object (k_locks k) l) (\<lambda>x. push [F_P (lock_semaphore x), F_SetHolder l] k)"

definition Lock_Release :: "nat \<Rightarrow> ('cb, 'a, 'z) kernel_scheme \<Rightarrow> ('cb, 'a, 'z) kernel_scheme res" where
  "Lock_Release l k =
     bindE (IsHeldByCurrentThread l k) (\<lambda>held.
     bindE (assertE held) (\<lambda>_.
     bindE (object (k_locks k) l) (\<lambda>x.
     bindE (upd_lock l None k) (\<lambda>k. push [F_V (lock_semaphore x)] k))))"

section \<open>Condition variables\<close>

definition Condition_new :: "('cb, 'a, 'z) kernel_scheme \<Rightarrow> nat \<times> ('cb, 'a, 'z) kernel_scheme" where
  "Condition_new k = (k_brk k, k\<lparr>k_conds := (k_conds k)(k_brk k \<mapsto> []), k_brk := k_brk k + 1\<rparr>)"

definition Condition_Wait :: "nat \<Rightarrow> nat \<Rightarrow> ('cb, 'a, 'z) kernel_scheme \<Rightarrow> ('cb, 'a, 'z) kernel_scheme res" where
  "Condition_Wait c conditionLock k =
     bindE (IsHeldByCurrentThread conditionLock k) (\<lambda>held.
     bindE (assertE held) (\<lambda>_.
     bindE (object (k_conds k) c) (\<lambda>q.
     let (waiter, k) = Semaphore_new 0 k in
     push [F_Release conditionLock, F_P waiter, F_Acquire conditionLock, F_DeleteSemaphore waiter]
       (k\<lparr>k_conds := (k_conds k)(c \<mapsto> q @ [waiter])\<rparr>))))"

definition Condition_Signal :: "nat \<Rightarrow> nat \<Rightarrow> ('cb, 'a, 'z) kernel_scheme \<Rightarrow> ('cb, 'a, 'z) kernel_scheme res" where
  "Condition_Signal c conditionLock k =
     bindE (IsHeldByCurrentThread conditionLock k) (\<lambda>held.
     bindE (assertE held) (\<lambda>_.
     bindE (object (k_conds k) c) (\<lambda>q.
     if q \<noteq> [] then
       bindE (seq_RemoveFront q) (\<lambda>(waiter, q). push [F_V waiter] (k\<lparr>k_conds := (k_conds k)(c \<mapsto> q)\<rparr>))
     else Inr k)))"

definition Condition_Broadcast :: "nat \<Rightarrow> nat \<Rightarrow> ('cb, 'a, 'z) kernel_scheme \<Rightarrow> ('cb, 'a, 'z) kernel_scheme res" where
  "Condition_Broadcast c conditionLock k =
     bindE (object (k_conds k) c) (\<lambda>q.
     if q \<noteq> [] then push [F_Signal c conditionLock, F_Broadcast c conditionLock] k else Inr k)"

section \<open>Synchronised lists\<close>

definition SynchList_new :: "('cb, 'a, 'z) kernel_scheme \<Rightarrow> nat \<times> ('cb, 'a, 'z) kernel_scheme" where
  "SynchList_new k =
     (let (l, k) = Lock_new k; (c, k) = Condition_new k in
      (k_brk k, k\<lparr>k_slists := (k_slists k)(k_brk k \<mapsto> \<lparr>sl_list = [], sl_lock = l, sl_listEmpty = c\<rparr>), k_brk := k_brk k + 1\<rparr>))"

definition upd_list :: "nat \<Rightarrow> nat list \<Rightarrow> ('cb, 'a, 'z) kernel_scheme \<Rightarrow> ('cb, 'a, 'z) kernel_scheme res" where
  "upd_list l xs k =
     bindE (object (k_slists k) l) (\<lambda>x. Inr (k\<lparr>k_slists := (k_slists k)(l \<mapsto> x\<lparr>sl_list := xs\<rparr>)\<rparr>))"

definition SynchList_Append :: "nat \<Rightarrow> nat \<Rightarrow> ('cb, 'a, 'z) kernel_scheme \<Rightarrow> ('cb, 'a, 'z) kernel_scheme res" where
  "SynchList_Append l item k =
     bindE (object (k_slists k) l) (\<lambda>x.
     push [F_Acquire (sl_lock x), F_SL_PutItem l item, F_Signal (sl_listEmpty x) (sl_lock x), F_Release (sl_lock x)] k)"

definition SynchList_RemoveFront :: "nat \<Rightarrow> ('cb, 'a, 'z) kernel_scheme \<Rightarrow> ('cb, 'a, 'z) kernel_scheme res" where
  "SynchList_RemoveFront l k =
     bindE (object (k_slists k) l) (\<lambda>x. push [F_Acquire (sl_lock x), F_SL_TakeItem l] k)"

text \<open>
  The value that a call returns, a pointer, is left for the code of the running thread in
  \<open>k_result\<close>. The \<open>while\<close> loop of \<open>RemoveFront\<close>, its test first, and what follows it.
\<close>

definition returning :: "nat option \<Rightarrow> ('cb, 'a, 'z) kernel_scheme \<Rightarrow> ('cb, 'a, 'z) kernel_scheme" where
  "returning r k = k\<lparr>k_result := (k_result k)(k_currentThread k := r)\<rparr>"

definition SynchList_take :: "nat \<Rightarrow> ('cb, 'a, 'z) kernel_scheme \<Rightarrow> ('cb, 'a, 'z) kernel_scheme res" where
  "SynchList_take l k =
     bindE (object (k_slists k) l) (\<lambda>x.
     if sl_list x = [] then push [F_Wait (sl_listEmpty x) (sl_lock x), F_SL_TakeItem l] k
     else bindE (seq_RemoveFront (sl_list x)) (\<lambda>(item, xs).
          bindE (upd_list l xs (returning (Some item) k)) (\<lambda>k. push [F_Release (sl_lock x)] k)))"

definition SynchList_Remove :: "nat \<Rightarrow> nat \<Rightarrow> ('cb, 'a, 'z) kernel_scheme \<Rightarrow> ('cb, 'a, 'z) kernel_scheme res" where
  "SynchList_Remove l item k =
     bindE (object (k_slists k) l) (\<lambda>x.
     push [F_Acquire (sl_lock x), F_SL_DropItem l item, F_Release (sl_lock x)] k)"

text \<open>
  The function that \<open>Apply\<close> calls is the caller's: the items it is called on, in order, are left for the
  running thread in \<open>k_visited\<close>.
\<close>

definition SynchList_visit :: "nat \<Rightarrow> ('cb, 'a, 'z) kernel_scheme \<Rightarrow> ('cb, 'a, 'z) kernel_scheme res" where
  "SynchList_visit l k =
     bindE (object (k_slists k) l) (\<lambda>x. Inr (k\<lparr>k_visited := (k_visited k)(k_currentThread k := sl_list x)\<rparr>))"

definition SynchList_Apply :: "nat \<Rightarrow> ('cb, 'a, 'z) kernel_scheme \<Rightarrow> ('cb, 'a, 'z) kernel_scheme res" where
  "SynchList_Apply l k =
     bindE (object (k_slists k) l) (\<lambda>x. push [F_Acquire (sl_lock x), F_SL_Visit l, F_Release (sl_lock x)] k)"

text \<open>
  The destructors. The kernel deletes locks, conditions and lists only while it halts, so they are not
  among the calls of \<open>kstep\<close>.
\<close>

definition Lock_delete :: "nat \<Rightarrow> ('cb, 'a, 'z) kernel_scheme \<Rightarrow> ('cb, 'a, 'z) kernel_scheme res" where
  "Lock_delete l k =
     bindE (object (k_locks k) l) (\<lambda>x.
     bindE (Semaphore_delete (lock_semaphore x) k) (\<lambda>k. Inr (k\<lparr>k_locks := (k_locks k)(l := None)\<rparr>)))"

definition Condition_delete :: "nat \<Rightarrow> ('cb, 'a, 'z) kernel_scheme \<Rightarrow> ('cb, 'a, 'z) kernel_scheme res" where
  "Condition_delete c k = bindE (object (k_conds k) c) (\<lambda>_. Inr (k\<lparr>k_conds := (k_conds k)(c := None)\<rparr>))"

definition SynchList_delete :: "nat \<Rightarrow> ('cb, 'a, 'z) kernel_scheme \<Rightarrow> ('cb, 'a, 'z) kernel_scheme res" where
  "SynchList_delete l k =
     bindE (object (k_slists k) l) (\<lambda>x.
     bindE (Condition_delete (sl_listEmpty x) k) (\<lambda>k.
     bindE (Lock_delete (sl_lock x) k) (\<lambda>k. Inr (k\<lparr>k_slists := (k_slists k)(l := None)\<rparr>))))"

section \<open>Time slices and user programs\<close>

text \<open>The end of \<open>OneTick\<close>: a context switch if a handler has asked for one.\<close>

definition yield_if_asked :: "MachineStatus \<Rightarrow> ('cb, 'a, 'z) kernel_scheme \<Rightarrow> ('cb, 'a, 'z) kernel_scheme res" where
  "yield_if_asked oldStatus k =
     (if hw_yieldOnReturn k
      then push [F_Yield, F_SetStatus oldStatus] (k\<lparr>hw_yieldOnReturn := False, hw_status := SystemMode\<rparr>)
      else Inr k)"

type_synonym ('cb, 'a, 'z) callback = "'cb \<Rightarrow> ('cb, 'a, 'z) kernel_scheme \<Rightarrow> ('cb, 'a, 'z) kernel_scheme res"

definition OneTick :: "('cb, 'a, 'z) callback \<Rightarrow> ('cb, 'a, 'z) kernel_scheme \<Rightarrow> ('cb, 'a, 'z) kernel_scheme res" where
  "OneTick cb k = bindE (Interrupt_OneTick cb k) (yield_if_asked (hw_status k))"

definition SetLevel :: "('cb, 'a, 'z) callback \<Rightarrow> IntStatus \<Rightarrow> ('cb, 'a, 'z) kernel_scheme \<Rightarrow> ('cb, 'a, 'z) kernel_scheme res" where
  "SetLevel cb l k =
     bindE (Interrupt_SetLevel cb l k) (\<lambda>(old, k').
     if l = IntOn \<and> old = IntOff then yield_if_asked (hw_status k) k' else Inr k')"

text \<open>
  The memory manager of Vm keeps its own view of the kernel's clock and of the running thread's
  process id and address space; it is brought up to date before a user instruction.
\<close>

definition user_machine :: "('cb, 'a, 'z) kernel_scheme \<Rightarrow> vm res" where
  "user_machine k =
     bindE (the_machine k) (\<lambda>m.
     bindE (object (k_threads k) (k_currentThread k)) (\<lambda>th.
     Inr (m\<lparr>m_pid := th_pid th, m_status := hw_status k, vm_space := th_space th, vm_totalTicks := now k\<rparr>)))"

definition leave_machine :: "vm \<Rightarrow> ('cb, 'a, 'z) kernel_scheme \<Rightarrow> ('cb, 'a, 'z) kernel_scheme res" where
  "leave_machine m k =
     upd_thread (k_currentThread k) (\<lambda>th. th\<lparr>th_space := vm_space m\<rparr>)
       (k\<lparr>hw_machine := Some m, hw_status := m_status m,
          hw_stats := (hw_stats k)\<lparr>st_numPageFaults := vm_numPageFaults m\<rparr>\<rparr>)"

definition Machine_Run :: "('cb, 'a, 'z) kernel_scheme \<Rightarrow> ('cb, 'a, 'z) kernel_scheme res" where
  "Machine_Run k = push [F_Instruction] (k\<lparr>hw_status := UserMode\<rparr>)"

definition Machine_Run_round :: "('cb, 'a, 'z) kernel_scheme \<Rightarrow> ('cb, 'a, 'z) kernel_scheme res" where
  "Machine_Run_round k =
     bindE (user_machine k) (\<lambda>m.
     bindE (Machine_OneInstruction ExceptionHandler m) (\<lambda>m.
     bindE (leave_machine m k) (\<lambda>k. push [F_OneTick, F_Instruction] k)))"

definition Execute :: "AddrSpace \<Rightarrow> ('cb, 'a, 'z) kernel_scheme \<Rightarrow> ('cb, 'a, 'z) kernel_scheme res" where
  "Execute s k =
     bindE (user_machine k) (\<lambda>m.
     bindE (AddrSpace_Execute s m) (\<lambda>m.
     bindE (leave_machine m k) (\<lambda>k. push [F_MachineRun] k)))"

section \<open>Steps\<close>

fun exec :: "('cb, 'a, 'z) callback \<Rightarrow> ('a \<Rightarrow> ('cb, 'a, 'z) kernel_scheme \<Rightarrow> ('cb, 'a, 'z) kernel_scheme res)
    \<Rightarrow> 'a frame \<Rightarrow> ('cb, 'a, 'z) kernel_scheme \<Rightarrow> ('cb, 'a, 'z) kernel_scheme res" where
  "exec cb act F_Begin k = Thread_Begin k"
| "exec cb act F_Finish k = Thread_Finish k"
| "exec cb act F_Yield k = Thread_Yield k"
| "exec cb act (F_Sleep finishing) k = Sleep_round cb finishing k"
| "exec cb act F_Switched k = after_switch k"
| "exec cb act (F_SetLevel l) k = SetLevel cb l k"
| "exec cb act F_OneTick k = OneTick cb k"
| "exec cb act (F_SetStatus st) k = Inr (k\<lparr>hw_status := st\<rparr>)"
| "exec cb act (F_Fork t) k = Thread_Fork t k"
| "exec cb act (F_createThread uid) k =
     bindE (createThread (Some (k_currentThread k)) uid k) (\<lambda>(t, k). Inr (returning t k))"
| "exec cb act (F_setPriority t p) k = upd_thread t (\<lambda>th. th\<lparr>th_priority := p\<rparr>) k"
| "exec cb act (F_P s) k = Semaphore_P s k"
| "exec cb act (F_P_loop s) k = P_round s k"
| "exec cb act (F_V s) k = Semaphore_V s k"
| "exec cb act (F_Acquire l) k = Lock_Acquire l k"
| "exec cb act (F_SetHolder l) k = upd_lock l (Some (k_currentThread k)) k"
| "exec cb act (F_Release l) k = Lock_Release l k"
| "exec cb act (F_Wait c l) k = Condition_Wait c l k"
| "exec cb act (F_DeleteSemaphore s) k = Semaphore_delete s k"
| "exec cb act (F_Signal c l) k = Condition_Signal c l k"
| "exec cb act (F_Broadcast c l) k = Condition_Broadcast c l k"
| "exec cb act (F_SL_Append l x) k = SynchList_Append l x k"
| "exec cb act (F_SL_PutItem l x) k = bindE (object (k_slists k) l) (\<lambda>y. upd_list l (sl_list y @ [x]) k)"
| "exec cb act (F_SL_RemoveFront l) k = SynchList_RemoveFront l k"
| "exec cb act (F_SL_TakeItem l) k = SynchList_take l k"
| "exec cb act (F_SL_Remove l x) k = SynchList_Remove l x k"
| "exec cb act (F_SL_DropItem l x) k =
     bindE (object (k_slists k) l) (\<lambda>y. bindE (seq_Remove x (sl_list y)) (\<lambda>xs. upd_list l xs k))"
| "exec cb act (F_SL_Apply l) k = SynchList_Apply l k"
| "exec cb act (F_SL_Visit l) k = SynchList_visit l k"
| "exec cb act (F_Execute s) k = Execute s k"
| "exec cb act F_MachineRun k = Machine_Run k"
| "exec cb act F_Instruction k = Machine_Run_round k"
| "exec cb act (F_Do a) k = act a k"

text \<open>Executing the frame on top of the running thread's stack.\<close>

definition run_frame :: "('cb, 'a, 'z) callback \<Rightarrow> ('a \<Rightarrow> ('cb, 'a, 'z) kernel_scheme \<Rightarrow> ('cb, 'a, 'z) kernel_scheme res)
    \<Rightarrow> ('cb, 'a, 'z) kernel_scheme \<Rightarrow> ('cb, 'a, 'z) kernel_scheme res" where
  "run_frame cb act k =
     bindE (object (k_threads k) (k_currentThread k)) (\<lambda>th.
     case th_frames th of
       [] \<Rightarrow> Inl Bad_Access
     | f # fs \<Rightarrow>
         bindE (upd_thread (k_currentThread k) (\<lambda>th. th\<lparr>th_frames := fs\<rparr>) k) (\<lambda>k. exec cb act f k))"

text \<open>
  The calls a thread's own code can make: the public methods, on objects that exist. The semaphore
  of a lock and the one a thread waits with on a condition are not accessible outside their
  classes. A thread is forked once, after it was created, and its priority is set while it is not
  on the ready list.
\<close>

definition frames :: "('cb, 'a, 'z) kernel_scheme \<Rightarrow> nat \<Rightarrow> 'a frame list" where
  "frames k t = (case k_threads k t of None \<Rightarrow> [] | Some th \<Rightarrow> th_frames th)"

definition private_sem :: "('cb, 'a, 'z) kernel_scheme \<Rightarrow> nat \<Rightarrow> bool" where
  "private_sem k s \<longleftrightarrow> (\<exists>l x. k_locks k l = Some x \<and> lock_semaphore x = s) \<or> (\<exists>t. F_DeleteSemaphore s \<in> set (frames k t))"

fun call_ok :: "('cb, 'a, 'z) kernel_scheme \<Rightarrow> 'a frame \<Rightarrow> bool" where
  "call_ok k (F_P s) = (k_sems k s \<noteq> None \<and> \<not> private_sem k s)"
| "call_ok k (F_V s) = (k_sems k s \<noteq> None \<and> \<not> private_sem k s)"
| "call_ok k (F_Fork t) = (\<exists>th. k_threads k t = Some th \<and> th_status th = JUST_CREATED)"
| "call_ok k (F_setPriority t p) = (t \<notin> set (k_readyList k))"
| "call_ok k F_Begin = False"
| "call_ok k (F_Sleep b) = False"
| "call_ok k F_Switched = False"
| "call_ok k (F_SetLevel l) = False"
| "call_ok k (F_SetStatus st) = False"
| "call_ok k (F_P_loop s) = False"
| "call_ok k (F_SetHolder l) = False"
| "call_ok k (F_DeleteSemaphore s) = False"
| "call_ok k (F_SL_PutItem l x) = False"
| "call_ok k (F_SL_TakeItem l) = False"
| "call_ok k (F_SL_DropItem l x) = False"
| "call_ok k (F_SL_Visit l) = False"
| "call_ok k F_Instruction = False"
| "call_ok k _ = True"

inductive kstep :: "('cb, 'a, 'z) callback \<Rightarrow> ('a \<Rightarrow> ('cb, 'a, 'z) kernel_scheme \<Rightarrow> ('cb, 'a, 'z) kernel_scheme res)
    \<Rightarrow> ('cb, 'a, 'z) kernel_scheme \<Rightarrow> ('cb, 'a, 'z) kernel_scheme \<Rightarrow> bool"
  for cb act where
  step_frame: "run_frame cb act k = Inr k' \<Longrightarrow> kstep cb act k k'"
| step_call: "k_threads k (k_currentThread k) = Some th \<Longrightarrow> th_frames th = [] \<Longrightarrow> call_ok k f
    \<Longrightarrow> exec cb act f k = Inr k' \<Longrightarrow> kstep cb act k k'"
| step_new: "k_threads k (k_currentThread k) = Some th \<Longrightarrow> th_frames th = []
    \<Longrightarrow> (p, k') \<in> {Semaphore_new v k, Lock_new k, Condition_new k, SynchList_new k}
    \<Longrightarrow> kstep cb act k k'"

inductive_cases kstepE: "kstep cb act k k'"

end
