(* ===== verification/Kernel_View.thy ===== *)
theory Kernel_View
  imports Synch
begin

text \<open>
  What the correctness of threads and synchronisation depends on: \<open>view\<close> abstracts a kernel state to
  the running thread, status, stack and priority of every thread, ready list, semaphores, locks,
  condition variables and synchronised lists. The lemmas \<open>*_view\<close> give the effect of the operations of Threads and Synch
  on the view; the invariants of Kernel_Inv are stated over it. \<open>dev\<close> picks the semaphores of the
  device drivers out of the part of the state that theory Devices adds.
\<close>

section \<open>The view\<close>

record 'a kview =
  v_cur :: nat
  v_stat :: "nat \<Rightarrow> ThreadStatus option"
  v_frames :: "nat \<Rightarrow> 'a frame list"
  v_prio :: "nat \<Rightarrow> int"
  v_ready :: "nat list"
  v_doomed :: "nat option"
  v_sems :: "nat \<rightharpoonup> Semaphore"
  v_locks :: "nat \<rightharpoonup> Lock"
  v_conds :: "nat \<rightharpoonup> nat list"
  v_slists :: "nat \<rightharpoonup> SynchList"
  v_brk :: nat
  v_dev :: "nat set"

definition view :: "('z \<Rightarrow> nat set) \<Rightarrow> ('cb, 'a, 'z) kernel_scheme \<Rightarrow> 'a kview" where
  "view dev k = \<lparr>v_cur = k_currentThread k, v_stat = (\<lambda>t. map_option th_status (k_threads k t)), v_frames = frames k,
     v_prio = priority k, v_ready = k_readyList k, v_doomed = k_toBeDestroyed k, v_sems = k_sems k, v_locks = k_locks k,
     v_conds = k_conds k, v_slists = k_slists k, v_brk = k_brk k, v_dev = dev (kernel.more k)\<rparr>"

definition prio_cmp :: "(nat \<Rightarrow> int) \<Rightarrow> nat \<Rightarrow> nat \<Rightarrow> int" where
  "prio_cmp p x y = (if p x < p y then - 1 else if p x > p y then 1 else 0)"

lemma ThreadPriorityCompare_prio: "ThreadPriorityCompare k = prio_cmp (priority k)"
  by (simp add: fun_eq_iff ThreadPriorityCompare_def prio_cmp_def)

interpretation by_priority: comparator "prio_cmp p" for p
  by unfold_locales (auto simp: prio_cmp_def split: if_splits)

lemma by_priority_le: "by_priority.le p = (\<lambda>x y. p x \<le> p y)"
  by (auto simp: fun_eq_iff by_priority.le_def prio_cmp_def)

named_theorems views \<open>effect of an operation on the view\<close>

lemma object_eq_Inr [res_simps]: "object h p = Inr x \<longleftrightarrow> h p = Some x"
  by (auto simp: object_def split: option.splits)

lemma view_level [simp]: "view dev (k\<lparr>hw_level := l\<rparr>) = view dev k"
  by (simp add: view_def frames_def priority_def fun_eq_iff)

lemma view_hw [simp]:
  "view dev (k\<lparr>hw_status := st\<rparr>) = view dev k" "view dev (k\<lparr>hw_yieldOnReturn := y\<rparr>) = view dev k"
  "view dev (k\<lparr>hw_stats := ss\<rparr>) = view dev k" "view dev (k\<lparr>hw_machine := m\<rparr>) = view dev k"
  "view dev (k\<lparr>hw_inHandler := b\<rparr>) = view dev k" "view dev (k\<lparr>hw_pending := ps\<rparr>) = view dev k"
  "view dev (k\<lparr>hw_new := n\<rparr>) = view dev k" "view dev (k\<lparr>k_result := r\<rparr>) = view dev k" "view dev (k\<lparr>k_visited := w\<rparr>) = view dev k"
  "view dev (k\<lparr>k_slists := sl\<rparr>) = (view dev k)\<lparr>v_slists := sl\<rparr>" "view dev (k\<lparr>k_threadCnt := c\<rparr>) = view dev k"
  "view dev (k\<lparr>k_threadList := ls\<rparr>) = view dev k" "view dev (k\<lparr>k_threadMap := tm\<rparr>) = view dev k"
  by (simp_all add: view_def frames_def priority_def fun_eq_iff)

lemma returning_view [simp]: "view dev (returning r k) = view dev k"
  by (simp add: returning_def)

lemma set_level_view [simp]: "view dev (set_level l k) = view dev k"
  by (simp add: set_level_def Interrupt_ChangeLevel_def)

lemma upd_thread_view:
  assumes "upd_thread t f k = Inr k'"
  shows "\<exists>th. k_threads k t = Some th \<and> view dev k' = (view dev k)\<lparr>v_stat := (v_stat (view dev k))(t \<mapsto> th_status (f th)),
    v_frames := (v_frames (view dev k))(t := th_frames (f th)), v_prio := (v_prio (view dev k))(t := th_priority (f th))\<rparr>"
  using assms by (auto simp: upd_thread_def res_simps view_def frames_def priority_def fun_eq_iff)

lemma upd_thread_same:
  assumes "upd_thread t f k = Inr k'"
    and "\<And>th. th_status (f th) = th_status th \<and> th_frames (f th) = th_frames th \<and> th_priority (f th) = th_priority th"
  shows "view dev k' = view dev k"
proof -
  obtain th where "k_threads k t = Some th" and v: "view dev k' = (view dev k)\<lparr>v_stat := (v_stat (view dev k))(t \<mapsto> th_status th),
    v_frames := (v_frames (view dev k))(t := th_frames th), v_prio := (v_prio (view dev k))(t := th_priority th)\<rparr>"
    using upd_thread_view [OF assms(1), of dev] assms(2) by auto
  then have "(v_stat (view dev k))(t \<mapsto> th_status th) = v_stat (view dev k)"
    "(v_frames (view dev k))(t := th_frames th) = v_frames (view dev k)"
    "(v_prio (view dev k))(t := th_priority th) = v_prio (view dev k)"
    by (auto simp: view_def frames_def priority_def fun_eq_iff)
  then show ?thesis unfolding v by simp
qed

lemma push_view:
  assumes "push fs k = Inr k'"
  shows "v_stat (view dev k) (v_cur (view dev k)) \<noteq> None \<and> view dev k' = (view dev k)\<lparr>v_frames := (v_frames (view dev k))
    (v_cur (view dev k) := fs @ v_frames (view dev k) (v_cur (view dev k)))\<rparr>"
proof -
  obtain th where th: "k_threads k (k_currentThread k) = Some th" "k' = k\<lparr>k_threads := (k_threads k)(k_currentThread k \<mapsto> th\<lparr>th_frames := fs @ th_frames th\<rparr>)\<rparr>"
    using assms by (auto simp: push_def upd_thread_def res_simps)
  then show ?thesis by (auto simp: view_def frames_def priority_def fun_eq_iff)
qed

lemma pop_view:
  assumes "upd_thread (k_currentThread k) (\<lambda>th. th\<lparr>th_frames := fs\<rparr>) k = Inr k'"
  shows "view dev k' = (view dev k)\<lparr>v_frames := (v_frames (view dev k))(v_cur (view dev k) := fs)\<rparr>"
  using assms by (auto simp: upd_thread_def res_simps view_def frames_def priority_def fun_eq_iff)

lemma setStatus_view:
  assumes "setStatus t st k = Inr k'"
  shows "v_stat (view dev k) t \<noteq> None \<and> view dev k' = (view dev k)\<lparr>v_stat := (v_stat (view dev k))(t \<mapsto> st)\<rparr>"
  using assms by (auto simp: setStatus_def upd_thread_def res_simps view_def frames_def priority_def fun_eq_iff)

definition ready_view :: "nat \<Rightarrow> 'a kview \<Rightarrow> 'a kview" where
  "ready_view t v = v\<lparr>v_stat := (v_stat v)(t \<mapsto> READY), v_ready := sorted_insert (prio_cmp (v_prio v)) t (v_ready v)\<rparr>"

lemma ReadyToRun_view:
  assumes "ReadyToRun t k = Inr k'"
  shows "v_stat (view dev k) t \<noteq> None \<and> t \<notin> set (v_ready (view dev k)) \<and> view dev k' = ready_view t (view dev k)"
proof -
  obtain k1 where k1: "setStatus t READY k = Inr k1" "t \<notin> set (k_readyList k1)"
    "k' = k1\<lparr>k_readyList := sorted_insert (ThreadPriorityCompare k1) t (k_readyList k1)\<rparr>"
    using assms by (auto simp: ReadyToRun_def res_simps)
  have rd: "k_readyList k1 = v_ready (view dev k1)" "ThreadPriorityCompare k1 = prio_cmp (v_prio (view dev k1))" for dev
    by (simp_all add: view_def ThreadPriorityCompare_prio)
  note v1 = setStatus_view [OF k1(1), of dev]
  have "view dev k' = (view dev k1)\<lparr>v_ready := sorted_insert (ThreadPriorityCompare k1) t (k_readyList k1)\<rparr>"
    unfolding k1(3) by (simp add: view_def frames_def priority_def fun_eq_iff)
  then show ?thesis using v1 k1(2) unfolding rd [of dev] by (simp add: ready_view_def)
qed

lemma FindNextToRun_view:
  assumes "FindNextToRun k = Inr (r, k')"
  shows "case r of None \<Rightarrow> v_ready (view dev k) = [] \<and> k' = k
    | Some t \<Rightarrow> \<exists>q. v_ready (view dev k) = t # q \<and> view dev k' = (view dev k)\<lparr>v_ready := q\<rparr>"
proof -
  have eq: "view dev (k\<lparr>k_readyList := q\<rparr>) = (view dev k)\<lparr>v_ready := q\<rparr>" for q
    by (simp add: view_def frames_def priority_def fun_eq_iff)
  show ?thesis using assms
    by (auto simp: FindNextToRun_def res_simps eq split: if_splits) (simp_all add: view_def)
qed

definition V_view :: "nat \<Rightarrow> Semaphore \<Rightarrow> 'a kview \<Rightarrow> 'a kview" where
  "V_view s x v = (case sem_queue x of
     [] \<Rightarrow> v\<lparr>v_sems := (v_sems v)(s \<mapsto> x\<lparr>sem_value := sem_value x + 1\<rparr>)\<rparr>
   | t # q \<Rightarrow> (ready_view t v)\<lparr>v_sems := (v_sems v)(s \<mapsto> \<lparr>sem_value = sem_value x + 1, sem_queue = q\<rparr>)\<rparr>)"

lemma upd_sem_view: "view dev (upd_sem s x k) = (view dev k)\<lparr>v_sems := (v_sems (view dev k))(s \<mapsto> x)\<rparr>"
  by (simp add: view_def upd_sem_def frames_def priority_def fun_eq_iff)

lemma V_body_view:
  assumes "V_body s k = Inr k'"
  shows "\<exists>x. v_sems (view dev k) s = Some x \<and> view dev k' = V_view s x (view dev k)
    \<and> (\<forall>t q. sem_queue x = t # q \<longrightarrow> t \<notin> set (v_ready (view dev k)))"
proof -
  have sems: "v_sems (view dev k) = k_sems k" by (simp add: view_def)
  obtain x where x: "k_sems k s = Some x" using assms by (auto simp: V_body_def res_simps)
  show ?thesis
  proof (cases "sem_queue x")
    case Nil
    then show ?thesis using assms x by (auto simp: V_body_def object_def sems upd_sem_view V_view_def)
  next
    case (Cons t q)
    then obtain k1 where k1: "ReadyToRun t k = Inr k1"
      "k' = upd_sem s (x\<lparr>sem_queue := q, sem_value := sem_value x + 1\<rparr>) k1"
      using assms x by (auto simp: V_body_def object_def res_simps)
    note v = ReadyToRun_view [OF k1(1), of dev]
    have eq: "x\<lparr>sem_queue := q, sem_value := sem_value x + 1\<rparr> = \<lparr>sem_value = sem_value x + 1, sem_queue = q\<rparr>" by simp
    have "v_sems (ready_view t (view dev k)) = k_sems k" by (simp add: ready_view_def sems)
    then show ?thesis using v x Cons unfolding k1(2) eq by (simp add: upd_sem_view V_view_def sems)
  qed
qed

section \<open>Switching, creating and destroying threads\<close>

definition doom_view :: "'a kview \<Rightarrow> 'a kview" where
  "doom_view v = (case v_doomed v of None \<Rightarrow> v
     | Some z \<Rightarrow> v\<lparr>v_stat := (v_stat v)(z := None), v_frames := (v_frames v)(z := []), v_prio := (v_prio v)(z := 0), v_doomed := None\<rparr>)"

lemma CheckToBeDestroyed_view:
  assumes "CheckToBeDestroyed k = Inr k'"
  shows "view dev k' = doom_view (view dev k) \<and> v_doomed (view dev k) \<noteq> Some (v_cur (view dev k))"
  using assms
  by (auto simp: CheckToBeDestroyed_def deleteThread_def Thread_delete_def Let_def res_simps doom_view_def view_def
      frames_def priority_def fun_eq_iff split: option.splits if_splits)

definition run_view :: "nat \<Rightarrow> bool \<Rightarrow> 'a kview \<Rightarrow> 'a kview" where
  "run_view n finishing v = v\<lparr>v_doomed := (if finishing then Some (v_cur v) else v_doomed v),
     v_frames := (v_frames v)(v_cur v := F_Switched # v_frames v (v_cur v)), v_cur := n, v_stat := (v_stat v)(n \<mapsto> RUNNING)\<rparr>"

lemma SaveUserState_view: "SaveUserState t k = Inr k' \<Longrightarrow> view dev k' = view dev k"
  unfolding SaveUserState_def by (auto simp: res_simps intro: upd_thread_same)

lemma RestoreUserState_view: "RestoreUserState t k = Inr k' \<Longrightarrow> view dev k' = view dev k"
  unfolding RestoreUserState_def by (auto simp: res_simps)

lemma Scheduler_Run_view:
  assumes "Scheduler_Run n finishing k = Inr k'"
  shows "view dev k' = run_view n finishing (view dev k)" "v_stat (view dev k) n \<noteq> None"
    "v_stat (view dev k) (v_cur (view dev k)) \<noteq> None" "finishing \<Longrightarrow> v_doomed (view dev k) = None"
proof -
  obtain k1 where fin: "(if finishing then bindE (assertE (k_toBeDestroyed k = None)) (\<lambda>_. Inr (k\<lparr>k_toBeDestroyed := Some (k_currentThread k)\<rparr>))
      else Inr k) = Inr k1"
    and rest: "bindE (object (k_threads k1) (k_currentThread k)) (\<lambda>old.
      bindE (if th_space old \<noteq> None then SaveUserState (k_currentThread k) k1 else Inr k1) (\<lambda>k1.
      bindE (CheckOverflow (k_currentThread k) k1) (\<lambda>_. bindE (push [F_Switched] k1) (\<lambda>k1.
      setStatus n RUNNING (k1\<lparr>k_currentThread := n\<rparr>))))) = Inr k'"
    using assms unfolding Scheduler_Run_def Let_def bindE_eq_Inr by blast
  obtain old k2 k3 where "object (k_threads k1) (k_currentThread k) = Inr old" and k2: "(if th_space old \<noteq> None then SaveUserState (k_currentThread k) k1 else Inr k1) = Inr k2"
    and k3: "push [F_Switched] k2 = Inr k3" and run: "setStatus n RUNNING (k3\<lparr>k_currentThread := n\<rparr>) = Inr k'"
    using rest unfolding bindE_eq_Inr by blast
  have v1: "view dev k1 = (view dev k)\<lparr>v_doomed := (if finishing then Some (v_cur (view dev k)) else v_doomed (view dev k))\<rparr>"
    using fin by (auto simp: res_simps view_def frames_def priority_def fun_eq_iff split: if_splits)
  have v2: "view dev k2 = view dev k1" using k2 SaveUserState_view by (auto split: if_splits)
  note v3 = push_view [OF k3, of dev]
  have v4: "view dev (k3\<lparr>k_currentThread := n\<rparr>) = (view dev k3)\<lparr>v_cur := n\<rparr>"
    by (simp add: view_def frames_def priority_def fun_eq_iff)
  note v5 = setStatus_view [OF run, of dev, unfolded v4]
  show "view dev k' = run_view n finishing (view dev k)"
    using v5 v3 unfolding v2 v1 by (simp add: run_view_def)
  show "v_stat (view dev k) n \<noteq> None" using v5 v3 unfolding v2 v1 by simp
  show "v_stat (view dev k) (v_cur (view dev k)) \<noteq> None" using v3 unfolding v2 v1 by simp
  show "finishing \<Longrightarrow> v_doomed (view dev k) = None" using fin by (auto simp: view_def res_simps)
qed

lemma after_switch_view:
  assumes "after_switch k = Inr k'"
  shows "view dev k' = doom_view (view dev k) \<and> v_doomed (view dev k) \<noteq> Some (v_cur (view dev k))"
proof -
  obtain k1 where k1: "CheckToBeDestroyed k = Inr k1" "view dev k' = view dev k1"
    using assms by (auto simp: after_switch_def Let_def res_simps RestoreUserState_view split: option.splits)
  then show ?thesis using CheckToBeDestroyed_view [OF k1(1), of dev] by simp
qed

text \<open>\<open>createThread\<close> gives a new thread at an address never used before, or nothing changes.\<close>

definition create_view :: "nat \<Rightarrow> 'a kview \<Rightarrow> 'a kview" where
  "create_view t v = v\<lparr>v_stat := (v_stat v)(t \<mapsto> JUST_CREATED), v_frames := (v_frames v)(t := []), v_prio := (v_prio v)(t := 0),
     v_brk := v_brk v + 1\<rparr>"

lemma createThread_view:
  assumes "createThread p uid k = Inr (r, k')"
  shows "case r of None \<Rightarrow> k' = k | Some t \<Rightarrow> t = v_brk (view dev k) \<and> view dev k' = create_view t (view dev k)"
proof (cases "k_threadCnt k + 1 < THREAD_COUNT_MAX")
  case False
  then show ?thesis using assms by (auto simp: createThread_def)
next
  case True
  then obtain pid k1 where k1: "generateThreadID (k\<lparr>k_threadCnt := k_threadCnt k + 1\<rparr>) = Inr (pid, k1)"
    using assms by (auto simp: createThread_def Let_def bindE_eq_Inr)
  define kk where "kk = k1\<lparr>k_threads := (k_threads k1)(k_brk k1 \<mapsto> Thread_new uid pid p), k_brk := k_brk k1 + 1\<rparr>"
  have "bindE (if k_threadCnt kk > 1 then addChild (k_currentThread kk) (Some (k_brk k1)) kk else Inr kk) (\<lambda>k.
      Inr (Some (k_brk k1), k\<lparr>k_threadList := k_threadList k @ [k_brk k1]\<rparr>)) = Inr (r, k')"
    using assms True k1 unfolding createThread_def kk_def Let_def by simp
  then obtain k2 where k2: "(if k_threadCnt kk > 1 then addChild (k_currentThread kk) (Some (k_brk k1)) kk else Inr kk) = Inr k2"
    and r: "r = Some (k_brk k1)" "k' = k2\<lparr>k_threadList := k_threadList k2 @ [k_brk k1]\<rparr>"
    by (auto simp: bindE_eq_Inr)
  have k1v: "view dev k1 = view dev k" using k1 by (auto simp: generateThreadID_def res_simps)
  have "view dev k2 = view dev kk"
    using k2 by (auto simp: addChild_def split: if_splits intro: upd_thread_same)
  also have "\<dots> = create_view (k_brk k1) (view dev k1)"
    by (simp add: kk_def view_def frames_def priority_def create_view_def Thread_new_def fun_eq_iff)
  finally show ?thesis using r k1v by (simp add: view_def [of dev k1] view_def [of dev k])
qed

lemma childThreadExit_view: "childThreadExit t c k = Inr k' \<Longrightarrow> view dev k' = view dev k"
  by (auto simp: childThreadExit_def res_simps intro: upd_thread_same split: option.splits)

lemma StackAllocate_view:
  assumes "StackAllocate t k = Inr k'"
  shows "v_stat (view dev k) t \<noteq> None \<and> view dev k' = (view dev k)\<lparr>v_frames := (v_frames (view dev k))(t := [F_Begin])\<rparr>"
  using assms by (auto simp: StackAllocate_def upd_thread_def res_simps view_def frames_def priority_def fun_eq_iff)

lemma leave_machine_view: "leave_machine m k = Inr k' \<Longrightarrow> view dev k' = view dev k"
  by (auto simp: leave_machine_def dest!: upd_thread_same [of _ _ _ _ dev])

lemma upd_lock_view:
  assumes "upd_lock l h k = Inr k'"
  shows "\<exists>x. v_locks (view dev k) l = Some x \<and> view dev k' = (view dev k)\<lparr>v_locks := (v_locks (view dev k))(l \<mapsto> x\<lparr>lock_holder := h\<rparr>)\<rparr>"
  using assms by (auto simp: upd_lock_def res_simps view_def frames_def priority_def fun_eq_iff)

lemma upd_list_view:
  assumes "upd_list l xs k = Inr k'"
  shows "\<exists>y. k_slists k l = Some y \<and> view dev k' = (view dev k)\<lparr>v_slists := (v_slists (view dev k))(l \<mapsto> y\<lparr>sl_list := xs\<rparr>)\<rparr>"
  using assms by (auto simp: upd_list_def res_simps) (simp add: view_def)

lemma conds_view: "view dev (k\<lparr>k_conds := c\<rparr>) = (view dev k)\<lparr>v_conds := c\<rparr>"
  by (simp add: view_def frames_def priority_def fun_eq_iff)

lemma Semaphore_new_view:
  "Semaphore_new n k = (s, k') \<Longrightarrow> s = v_brk (view dev k) \<and> view dev k' = (view dev k)\<lparr>v_sems := (v_sems (view dev k))(s \<mapsto> \<lparr>sem_value = n, sem_queue = []\<rparr>), v_brk := s + 1\<rparr>"
  by (auto simp: Semaphore_new_def view_def frames_def priority_def fun_eq_iff)

lemma Semaphore_delete_view:
  "Semaphore_delete s k = Inr k' \<Longrightarrow> v_sems (view dev k) s \<noteq> None \<and> view dev k' = (view dev k)\<lparr>v_sems := (v_sems (view dev k))(s := None)\<rparr>"
  by (auto simp: Semaphore_delete_def res_simps view_def frames_def priority_def fun_eq_iff)

lemma Lock_new_view:
  "Lock_new k = (l, k') \<Longrightarrow> l = v_brk (view dev k) + 1 \<and> view dev k' = (view dev k)\<lparr>v_sems := (v_sems (view dev k))(v_brk (view dev k) \<mapsto> \<lparr>sem_value = 1, sem_queue = []\<rparr>),
     v_locks := (v_locks (view dev k))(l \<mapsto> \<lparr>lock_semaphore = v_brk (view dev k), lock_holder = None\<rparr>), v_brk := l + 1\<rparr>"
  by (auto simp: Lock_new_def Semaphore_new_def view_def frames_def priority_def fun_eq_iff)

lemma Condition_new_view:
  "Condition_new k = (c, k') \<Longrightarrow> c = v_brk (view dev k) \<and> view dev k' = (view dev k)\<lparr>v_conds := (v_conds (view dev k))(c \<mapsto> []), v_brk := c + 1\<rparr>"
  by (auto simp: Condition_new_def view_def frames_def priority_def fun_eq_iff)

lemma SynchList_new_view:
  assumes "SynchList_new k = (p, k')" "Lock_new k = (l, k1)" "Condition_new k1 = (c, k2)"
  shows "\<exists>z. view dev k' = (view dev k2)\<lparr>v_brk := v_brk (view dev k2) + 1, v_slists := z\<rparr>"
    "p = v_brk (view dev k2)" "v_slists (view dev k') = (v_slists (view dev k2))(p \<mapsto> \<lparr>sl_list = [], sl_lock = l, sl_listEmpty = c\<rparr>)"
  using assms by (auto simp: SynchList_new_def view_def frames_def priority_def fun_eq_iff)

end
