(* ===== verification/Kernel_Inv.thy ===== *)
theory Kernel_Inv
  imports Kernel_View
begin

text \<open>
  The invariant of threads and synchronisation, over the view of Kernel_View, and that every
  elementary change of the view keeps it.

  \<^item> \<open>K_ready\<close>: the ready list holds exactly the READY threads, each once, by priority.
  \<^item> \<open>K_queue\<close>: a thread in the queue of a semaphore is BLOCKED in \<open>P\<close> on that semaphore; every
    BLOCKED thread is in a queue.
  \<^item> \<open>K_stack\<close>: only the current thread is RUNNING; the shape of the stacks.
  \<^item> \<open>K_lock\<close>: conservation of the token of a lock. The value of its semaphore, its holder and the
    stacks (\<open>tok\<close>: a pending \<open>P\<close> owes a token, a \<open>P\<close> already done and a pending \<open>V\<close> hold one)
    together hold exactly one token. \<open>\<delta>\<close> is what the frame being executed still owes.
  \<^item> \<open>K_wake\<close>: while threads queue at a semaphore, at least as many threads as its value are awake
    and about to test it again.
  \<^item> \<open>K_waiter\<close>: the semaphore of a waiting thread is used by that thread only.
  \<^item> \<open>K_bound\<close>: addresses in use were handed out before.
\<close>

section \<open>Definitions\<close>

fun deep :: "'a frame \<Rightarrow> bool" where
  "deep (F_Sleep b) = False"
| "deep F_Switched = False"
| "deep (F_P_loop s) = False"
| "deep F_Finish = False"
| "deep (F_Fork t) = False"
| "deep (F_setPriority t p) = False"
| "deep _ = True"

fun blocked :: "'a frame list \<Rightarrow> bool" where
  "blocked (F_P_loop s # fs) = list_all deep fs"
| "blocked _ = False"

fun shape :: "'a frame list \<Rightarrow> bool" where
  "shape (F_Sleep b # fs) = (if b then fs = [] else blocked fs)"
| "shape (F_Switched # fs) = (blocked fs \<or> list_all deep fs)"
| "shape fs = (blocked fs \<or> list_all deep fs)"

definition waits_on :: "'a frame list \<Rightarrow> nat \<Rightarrow> bool" where
  "waits_on fs s \<longleftrightarrow> (\<exists>r. fs = F_P_loop s # r \<or> fs = F_Sleep False # F_P_loop s # r \<or> fs = F_Switched # F_P_loop s # r)"

fun weight :: "nat \<Rightarrow> nat \<Rightarrow> 'a frame \<Rightarrow> int" where
  "weight l s (F_P s') = (if s' = s then - 1 else 0)"
| "weight l s (F_P_loop s') = (if s' = s then - 1 else 0)"
| "weight l s (F_V s') = (if s' = s then 1 else 0)"
| "weight l s (F_SetHolder l') = (if l' = l then 1 else 0)"
| "weight l s _ = 0"

primrec tok :: "nat \<Rightarrow> nat \<Rightarrow> 'a frame list \<Rightarrow> int" where
  "tok l s [] = 0"
| "tok l s (f # fs) = weight l s f + tok l s fs"

primrec solvent :: "nat \<Rightarrow> nat \<Rightarrow> 'a frame list \<Rightarrow> bool" where
  "solvent l s [] = True"
| "solvent l s (f # fs) = (0 \<le> weight l s f + tok l s fs \<and> solvent l s fs)"

definition uses :: "nat \<Rightarrow> 'a frame list \<Rightarrow> bool" where
  "uses s fs \<longleftrightarrow> F_P s \<in> set fs \<or> F_P_loop s \<in> set fs"

primrec ordered :: "nat \<Rightarrow> 'a frame list \<Rightarrow> bool" where
  "ordered s [] = True"
| "ordered s (f # fs) = ((f = F_DeleteSemaphore s \<longrightarrow> \<not> uses s fs \<and> F_DeleteSemaphore s \<notin> set fs) \<and> ordered s fs)"

fun refs :: "'a frame \<Rightarrow> nat set" where
  "refs (F_P s) = {s}"
| "refs (F_P_loop s) = {s}"
| "refs (F_V s) = {s}"
| "refs (F_SetHolder l) = {l}"
| "refs (F_DeleteSemaphore s) = {s}"
| "refs _ = {}"

definition K_ready :: "'a kview \<Rightarrow> bool" where
  "K_ready v \<longleftrightarrow> distinct (v_ready v) \<and> (\<forall>t. t \<in> set (v_ready v) \<longleftrightarrow> v_stat v t = Some READY)
     \<and> sorted_wrt (\<lambda>x y. v_prio v x \<le> v_prio v y) (v_ready v)"

definition K_queue :: "'a kview \<Rightarrow> bool" where
  "K_queue v \<longleftrightarrow> (\<forall>s x. v_sems v s = Some x \<longrightarrow> distinct (sem_queue x)
       \<and> (\<forall>t \<in> set (sem_queue x). v_stat v t = Some BLOCKED \<and> waits_on (v_frames v t) s))
     \<and> (\<forall>t. v_stat v t = Some BLOCKED \<longrightarrow> (\<exists>s x. v_sems v s = Some x \<and> t \<in> set (sem_queue x)))"

definition K_stack :: "'a kview \<Rightarrow> bool" where
  "K_stack v \<longleftrightarrow> (\<forall>t. shape (v_frames v t))
     \<and> (\<forall>t. v_stat v t = None \<or> v_stat v t = Some JUST_CREATED \<longrightarrow> v_frames v t = [])
     \<and> (\<forall>t. v_stat v t = Some ZOMMBIE \<longrightarrow> v_frames v t \<in> {[], [F_Sleep True], [F_Switched]})
     \<and> (\<forall>t b. t \<noteq> v_cur v \<longrightarrow> F_Sleep b \<notin> set (v_frames v t))
     \<and> (\<forall>t. v_stat v t = Some RUNNING \<longrightarrow> t = v_cur v)
     \<and> (\<forall>t. v_doomed v = Some t \<longrightarrow> v_stat v t = Some ZOMMBIE)
     \<and> v_stat v (v_cur v) \<noteq> None \<and> v_stat v (v_cur v) \<noteq> Some JUST_CREATED"

definition alive :: "'a kview \<Rightarrow> nat set" where
  "alive v = {t. v_stat v t \<noteq> None}"

definition token_sum :: "nat \<Rightarrow> Lock \<Rightarrow> 'a kview \<Rightarrow> int" where
  "token_sum l x v = sem_value (the (v_sems v (lock_semaphore x))) + (if lock_holder x = None then 0 else 1)
     + (\<Sum>t \<in> alive v. tok l (lock_semaphore x) (v_frames v t))"

definition K_lock :: "(nat \<Rightarrow> int) \<Rightarrow> 'a kview \<Rightarrow> bool" where
  "K_lock \<delta> v \<longleftrightarrow> (\<forall>l x. v_locks v l = Some x \<longrightarrow> (\<exists>y. v_sems v (lock_semaphore x) = Some y \<and> 0 \<le> sem_value y)
     \<and> (\<forall>t. solvent l (lock_semaphore x) (v_frames v t)) \<and> token_sum l x v + \<delta> l = 1)"

definition retrying :: "nat \<Rightarrow> Semaphore \<Rightarrow> 'a kview \<Rightarrow> nat set" where
  "retrying s x v = {t. F_P_loop s \<in> set (v_frames v t) \<and> t \<notin> set (sem_queue x)}"

definition K_wake :: "'a kview \<Rightarrow> bool" where
  "K_wake v \<longleftrightarrow> (\<forall>s x. v_sems v s = Some x \<and> sem_queue x \<noteq> [] \<longrightarrow> sem_value x \<le> int (card (retrying s x v)))"

definition lock_sems :: "'a kview \<Rightarrow> nat set" where
  "lock_sems v = {s. \<exists>l x. v_locks v l = Some x \<and> lock_semaphore x = s}"

definition K_waiter :: "'a kview \<Rightarrow> bool" where
  "K_waiter v \<longleftrightarrow> (\<forall>t s. F_DeleteSemaphore s \<in> set (v_frames v t) \<longrightarrow> s \<notin> lock_sems v \<and> s \<notin> v_dev v
     \<and> (\<forall>t'. t' \<noteq> t \<longrightarrow> \<not> uses s (v_frames v t') \<and> F_DeleteSemaphore s \<notin> set (v_frames v t'))
     \<and> ordered s (v_frames v t))"

definition K_bound :: "'a kview \<Rightarrow> bool" where
  "K_bound v \<longleftrightarrow> (\<forall>t. v_stat v t \<noteq> None \<longrightarrow> t < v_brk v) \<and> (\<forall>s. v_sems v s \<noteq> None \<longrightarrow> s < v_brk v)
     \<and> (\<forall>l x. v_locks v l = Some x \<longrightarrow> l < v_brk v \<and> lock_semaphore x < v_brk v)
     \<and> (\<forall>l x l' x'. v_locks v l = Some x \<longrightarrow> v_locks v l' = Some x' \<longrightarrow> lock_semaphore x = lock_semaphore x' \<longrightarrow> l = l')
     \<and> (\<forall>c q. v_conds v c = Some q \<longrightarrow> (\<forall>w \<in> set q. w < v_brk v \<and> w \<notin> lock_sems v))
     \<and> (\<forall>t f. f \<in> set (v_frames v t) \<longrightarrow> (\<forall>n \<in> refs f. n < v_brk v))
     \<and> (\<forall>s \<in> v_dev v. s < v_brk v \<and> s \<notin> lock_sems v)"

definition kinv :: "(nat \<Rightarrow> int) \<Rightarrow> 'a kview \<Rightarrow> bool" where
  "kinv \<delta> v \<longleftrightarrow> K_ready v \<and> K_queue v \<and> K_stack v \<and> K_lock \<delta> v \<and> K_wake v \<and> K_waiter v \<and> K_bound v"

section \<open>Basic facts\<close>

lemma blocked_iff: "blocked fs \<longleftrightarrow> (\<exists>s r. fs = F_P_loop s # r \<and> list_all deep r)"
  by (cases fs rule: blocked.cases) auto

lemma shape_iff: "shape fs \<longleftrightarrow> blocked fs \<or> list_all deep fs \<or> fs = [F_Sleep True]
    \<or> (\<exists>r. fs = F_Sleep False # r \<and> blocked r) \<or> (\<exists>r. fs = F_Switched # r \<and> (blocked r \<or> list_all deep r))"
  by (cases fs rule: shape.cases) (auto split: if_splits)

lemma deep_not:
  assumes "list_all deep r"
  shows "F_P_loop s \<notin> set r" "F_Sleep b \<notin> set r" "F_Switched \<notin> set r" "F_Finish \<notin> set r" "F_Fork t \<notin> set r"
    "F_setPriority t p \<notin> set r" "\<not> waits_on r s"
  using assms by (auto simp: list_all_iff waits_on_def)

lemma tok_append [simp]: "tok l s (xs @ ys) = tok l s xs + tok l s ys"
  by (induction xs) auto

lemma solvent_tok: "solvent l s fs \<Longrightarrow> 0 \<le> tok l s fs"
  by (cases fs) auto

lemma uses_simps [simp]:
  "uses s (f # fs) \<longleftrightarrow> f = F_P s \<or> f = F_P_loop s \<or> uses s fs" "uses s (xs @ ys) \<longleftrightarrow> uses s xs \<or> uses s ys" "\<not> uses s []"
  by (auto simp: uses_def)

lemma ordered_absent: "F_DeleteSemaphore s \<notin> set fs \<Longrightarrow> ordered s fs"
  by (induction fs) auto

lemma ordered_append:
  "F_DeleteSemaphore s \<notin> set xs \<Longrightarrow> ordered s (xs @ ys) \<longleftrightarrow> ordered s ys"
  "ordered s xs \<Longrightarrow> \<not> uses s ys \<Longrightarrow> F_DeleteSemaphore s \<notin> set ys \<Longrightarrow> ordered s (xs @ ys)"
  by (induction xs) (auto simp: ordered_absent)

lemma alive_finite: "K_bound v \<Longrightarrow> finite (alive v)"
  by (rule finite_subset [of _ "{..<v_brk v}"]) (auto simp: alive_def K_bound_def)

lemma frames_alive: "K_stack v \<Longrightarrow> v_frames v t \<noteq> [] \<Longrightarrow> t \<in> alive v"
  by (auto simp: K_stack_def alive_def)

lemma retrying_finite: "K_stack v \<Longrightarrow> K_bound v \<Longrightarrow> finite (retrying s x v)"
  by (rule finite_subset [OF _ alive_finite]) (fastforce simp: retrying_def intro: frames_alive)+

lemma waits_on_loop: "waits_on fs s \<Longrightarrow> F_P_loop s \<in> set fs"
  by (auto simp: waits_on_def)

lemma waits_on_unique: "waits_on fs s \<Longrightarrow> waits_on fs s' \<Longrightarrow> s = s'"
  by (auto simp: waits_on_def)

lemma K_queueD:
  assumes "K_queue v" "v_sems v s = Some x"
  shows "distinct (sem_queue x)"
    "t \<in> set (sem_queue x) \<Longrightarrow> v_stat v t = Some BLOCKED" "t \<in> set (sem_queue x) \<Longrightarrow> waits_on (v_frames v t) s"
  using assms unfolding K_queue_def by blast+

lemma queue_unique:
  assumes "K_queue v" "v_sems v s = Some x" "t \<in> set (sem_queue x)" "v_sems v s' = Some x'" "t \<in> set (sem_queue x')"
  shows "s = s'"
  using assms unfolding K_queue_def by (meson waits_on_unique)

lemma not_queued: "K_queue v \<Longrightarrow> v_sems v s = Some x \<Longrightarrow> v_stat v t \<noteq> Some BLOCKED \<Longrightarrow> t \<notin> set (sem_queue x)"
  unfolding K_queue_def by blast


lemma sum_upd:
  fixes g :: "'b \<Rightarrow> int"
  assumes "finite A" "c \<in> A"
  shows "(\<Sum>t\<in>A. g ((fr(c := x)) t)) = (\<Sum>t\<in>A. g (fr t)) - g (fr c) + g x"
proof -
  have "(\<Sum>t\<in>A. g ((fr(c := x)) t)) = g x + (\<Sum>t\<in>A - {c}. g ((fr(c := x)) t))"
    using sum.remove [OF assms, of "\<lambda>t. g ((fr(c := x)) t)"] by simp
  also have "(\<Sum>t\<in>A - {c}. g ((fr(c := x)) t)) = (\<Sum>t\<in>A - {c}. g (fr t))"
    by (rule sum.cong) auto
  also have "\<dots> = (\<Sum>t\<in>A. g (fr t)) - g (fr c)"
    using sum.remove [OF assms, of "\<lambda>t. g (fr t)"] by simp
  finally show ?thesis by simp
qed

abbreviation sem_of :: "'a kview \<Rightarrow> nat \<Rightarrow> nat" where
  "sem_of v l \<equiv> lock_semaphore (the (v_locks v l))"

lemma K_lock_value: "K_lock \<delta> v \<Longrightarrow> v_locks v l = Some x \<Longrightarrow> v_sems v (lock_semaphore x) = Some y \<Longrightarrow> 0 \<le> sem_value y"
  unfolding K_lock_def by (metis option.inject)

text \<open>\<open>K_queue\<close> depends on the queues only.\<close>

lemma K_queue_cong:
  assumes "K_queue v" "v_stat w = v_stat v" "v_frames w = v_frames v"
    and "\<And>s. map_option sem_queue (v_sems w s) = map_option sem_queue (v_sems v s)"
  shows "K_queue w"
proof -
  have to: "\<exists>x. v_sems v s = Some x \<and> sem_queue x = sem_queue y" if "v_sems w s = Some y" for s y
    using assms(4) [of s] that by (cases "v_sems v s") auto
  have fro: "\<exists>y. v_sems w s = Some y \<and> sem_queue x = sem_queue y" if "v_sems v s = Some x" for s x
    using assms(4) [of s] that by (cases "v_sems w s") auto
  show ?thesis unfolding K_queue_def assms(2,3)
  proof (intro conjI allI impI)
    fix s y
    assume "v_sems w s = Some y"
    then obtain x where x: "v_sems v s = Some x" "sem_queue x = sem_queue y" using to by blast
    have "distinct (sem_queue x) \<and> (\<forall>t \<in> set (sem_queue x). v_stat v t = Some BLOCKED \<and> waits_on (v_frames v t) s)"
      using assms(1) x(1) unfolding K_queue_def by blast
    then show "distinct (sem_queue y)" "\<forall>t \<in> set (sem_queue y). v_stat v t = Some BLOCKED \<and> waits_on (v_frames v t) s"
      unfolding x(2) by simp_all
  next
    fix t
    assume "v_stat v t = Some BLOCKED"
    then obtain s x where x: "v_sems v s = Some x" "t \<in> set (sem_queue x)" using assms(1) unfolding K_queue_def by blast
    then obtain y where "v_sems w s = Some y" "sem_queue x = sem_queue y" using fro by blast
    then show "\<exists>s y. v_sems w s = Some y \<and> t \<in> set (sem_queue y)" using x(2) by auto
  qed
qed

text \<open>Replacing the running thread's stack.\<close>

lemma K_lock_frames:
  assumes "K_lock \<delta> v" "K_bound v" "v_cur v \<in> alive v"
    and "\<And>l x. v_locks v l = Some x \<Longrightarrow> solvent l (lock_semaphore x) fs
      \<and> \<delta>' l = \<delta> l + tok l (lock_semaphore x) (v_frames v (v_cur v)) - tok l (lock_semaphore x) fs"
  shows "K_lock \<delta>' (v\<lparr>v_frames := (v_frames v)(v_cur v := fs)\<rparr>)"
proof -
  have fin: "finite (alive v)" by (rule alive_finite [OF assms(2)])
  have al: "alive (v\<lparr>v_frames := g\<rparr>) = alive v" for g by (simp add: alive_def)
  have "token_sum l x (v\<lparr>v_frames := (v_frames v)(v_cur v := fs)\<rparr>) = token_sum l x v
    - tok l (lock_semaphore x) (v_frames v (v_cur v)) + tok l (lock_semaphore x) fs" for l x
    using sum_upd [OF fin assms(3), of "tok l (lock_semaphore x)" "v_frames v" fs] by (simp add: token_sum_def al)
  then show ?thesis using assms(1,4) by (simp add: K_lock_def)
qed

abbreviation with_frames :: "'a kview \<Rightarrow> 'a frame list \<Rightarrow> 'a kview" where
  "with_frames v fs \<equiv> v\<lparr>v_frames := (v_frames v)(v_cur v := fs)\<rparr>"

lemma K_queue_frames:
  assumes "K_queue v" "\<And>s x. v_sems v s = Some x \<Longrightarrow> v_cur v \<in> set (sem_queue x) \<Longrightarrow> waits_on fs s"
  shows "K_queue (with_frames v fs)"
proof -
  have "waits_on (v_frames (with_frames v fs) t) s" if "v_sems v s = Some x" "t \<in> set (sem_queue x)" for s x t
    using assms that by (cases "t = v_cur v") (auto simp: K_queue_def)
  then show ?thesis using assms(1) by (simp add: K_queue_def)
qed

lemma K_stack_frames:
  assumes "K_stack v" "shape fs" "v_stat v (v_cur v) = Some ZOMMBIE \<Longrightarrow> fs \<in> {[], [F_Sleep True], [F_Switched]}"
  shows "K_stack (with_frames v fs)"
  using assms unfolding K_stack_def by auto

lemma K_wake_frames:
  assumes "K_wake v" "K_stack v" "K_bound v" "v_cur v \<in> alive v"
    and "\<And>s. F_P_loop s \<in> set (v_frames v (v_cur v)) \<Longrightarrow> F_P_loop s \<in> set fs"
  shows "K_wake (with_frames v fs)"
  unfolding K_wake_def
proof (intro allI impI)
  fix s x
  assume x: "v_sems (with_frames v fs) s = Some x \<and> sem_queue x \<noteq> []"
  have "retrying s x v \<subseteq> retrying s x (with_frames v fs)" using assms(5) by (auto simp: retrying_def)
  moreover have "finite (retrying s x (with_frames v fs))"
    by (rule finite_subset [OF _ finite.insertI [OF retrying_finite [OF assms(2,3)], of "v_cur v"]]) (auto simp: retrying_def)
  ultimately have "card (retrying s x v) \<le> card (retrying s x (with_frames v fs))" by (rule card_mono [rotated])
  moreover have "sem_value x \<le> int (card (retrying s x v))" using assms(1) x by (simp add: K_wake_def)
  ultimately show "sem_value x \<le> int (card (retrying s x (with_frames v fs)))" by linarith
qed

lemma K_waiter_frames:
  assumes "K_waiter v"
    and "\<And>s t. uses s fs \<Longrightarrow> \<not> uses s (v_frames v (v_cur v)) \<Longrightarrow> t \<noteq> v_cur v \<Longrightarrow> F_DeleteSemaphore s \<notin> set (v_frames v t)"
    and "\<And>s. F_DeleteSemaphore s \<in> set fs \<Longrightarrow> ordered s fs"
    and "\<And>s t. F_DeleteSemaphore s \<in> set fs \<Longrightarrow> F_DeleteSemaphore s \<notin> set (v_frames v (v_cur v)) \<Longrightarrow>
      s \<notin> lock_sems v \<and> s \<notin> v_dev v \<and> (t \<noteq> v_cur v \<longrightarrow> \<not> uses s (v_frames v t) \<and> F_DeleteSemaphore s \<notin> set (v_frames v t))"
  shows "K_waiter (with_frames v fs)"
  unfolding K_waiter_def
proof (intro allI impI)
  fix t s
  let ?v = "with_frames v fs"
  assume del: "F_DeleteSemaphore s \<in> set (v_frames ?v t)"
  have ls: "lock_sems ?v = lock_sems v" "v_dev ?v = v_dev v" by (simp_all add: lock_sems_def)
  note W = assms(1) [unfolded K_waiter_def, rule_format]
  show "s \<notin> lock_sems ?v \<and> s \<notin> v_dev ?v
     \<and> (\<forall>t'. t' \<noteq> t \<longrightarrow> \<not> uses s (v_frames ?v t') \<and> F_DeleteSemaphore s \<notin> set (v_frames ?v t')) \<and> ordered s (v_frames ?v t)"
  proof (cases "t = v_cur v")
    case True
    then have d: "F_DeleteSemaphore s \<in> set fs" using del by simp
    show ?thesis
    proof (cases "F_DeleteSemaphore s \<in> set (v_frames v (v_cur v))")
      case True
      then show ?thesis using W [of s "v_cur v"] assms(3) [OF d] \<open>t = v_cur v\<close> unfolding ls by auto
    next
      case False
      then show ?thesis using assms(4) [OF d] assms(3) [OF d] \<open>t = v_cur v\<close> unfolding ls by auto
    qed
  next
    case False
    then have d: "F_DeleteSemaphore s \<in> set (v_frames v t)" using del by simp
    have "\<not> uses s fs" using assms(2) [of s t] W [OF d] d False by auto
    moreover have "F_DeleteSemaphore s \<notin> set fs" using assms(4) [of s t] W [OF d] d False by metis
    ultimately show ?thesis using W [OF d] False unfolding ls by auto
  qed
qed

lemma K_bound_frames:
  assumes "K_bound v" "\<And>f n. f \<in> set fs \<Longrightarrow> n \<in> refs f \<Longrightarrow> n < v_brk v"
  shows "K_bound (with_frames v fs)"
  using assms unfolding K_bound_def lock_sems_def by simp

lemma pop_ok:
  assumes "kinv (\<lambda>_. 0) v" "v_frames v (v_cur v) = f # fs" "\<And>s. f \<noteq> F_P_loop s"
  shows "kinv (\<lambda>l. weight l (sem_of v l) f) (v\<lparr>v_frames := (v_frames v)(v_cur v := fs)\<rparr>)"
proof -
  let ?v = "v\<lparr>v_frames := (v_frames v)(v_cur v := fs)\<rparr>"
  note K = assms(1) [unfolded kinv_def]
  have sh: "shape (f # fs)" using K assms(2) unfolding K_stack_def by metis
  have wt: "waits_on (f # fs) s \<Longrightarrow> waits_on fs s" for s using assms(3) by (auto simp: waits_on_def)
  have cur: "v_cur v \<in> alive v" using K assms(2) frames_alive by (metis list.distinct(1))
  have "K_ready ?v" using K by (simp add: K_ready_def)
  moreover have "K_queue ?v"
  proof (rule K_queue_frames)
    show "K_queue v" using K by simp
    show "waits_on fs s" if "v_sems v s = Some x" "v_cur v \<in> set (sem_queue x)" for s x
    proof -
      have "waits_on (v_frames v (v_cur v)) s" using K that unfolding K_queue_def by blast
      then show ?thesis using wt assms(2) by simp
    qed
  qed
  moreover have "shape fs" using sh by (cases f) (auto simp: shape_iff)
  then have "K_stack ?v"
  proof (rule K_stack_frames [rotated])
    show "K_stack v" using K by simp
    show "fs \<in> {[], [F_Sleep True], [F_Switched]}" if "v_stat v (v_cur v) = Some ZOMMBIE"
    proof -
      have "v_frames v (v_cur v) \<in> {[], [F_Sleep True], [F_Switched]}" using K that unfolding K_stack_def by blast
      then show ?thesis using assms(2) by auto
    qed
  qed
  moreover have "K_lock (\<lambda>l. weight l (sem_of v l) f) ?v"
  proof (rule K_lock_frames [of "\<lambda>_. 0"])
    show "K_lock (\<lambda>_. 0) v" "K_bound v" "v_cur v \<in> alive v" using K cur by simp_all
    show "solvent l (lock_semaphore x) fs \<and> weight l (sem_of v l) f
      = 0 + tok l (lock_semaphore x) (v_frames v (v_cur v)) - tok l (lock_semaphore x) fs" if "v_locks v l = Some x" for l x
    proof -
      have "solvent l (lock_semaphore x) (v_frames v (v_cur v))" using K that unfolding K_lock_def by blast
      then show ?thesis using that assms(2) by simp
    qed
  qed
  moreover have loop: "F_P_loop s \<in> set (v_frames ?v t) \<longleftrightarrow> F_P_loop s \<in> set (v_frames v t)" for s t
    by (cases "t = v_cur v") (use assms(2) assms(3) [of s] in simp_all)
  then have "retrying s x ?v = retrying s x v" for s x unfolding retrying_def by simp
  then have "K_wake ?v" using K unfolding K_wake_def by simp
  moreover have "K_waiter ?v"
  proof (rule K_waiter_frames)
    show "K_waiter v" using K by simp
    show "ordered s fs" if "F_DeleteSemaphore s \<in> set fs" for s
    proof -
      have "ordered s (f # fs)" using K that assms(2) unfolding K_waiter_def by (metis list.set_intros(2))
      then show ?thesis by simp
    qed
  qed (use assms(2) in auto)
  moreover have "K_bound ?v"
  proof (rule K_bound_frames)
    show "n < v_brk v" if "g \<in> set fs" "n \<in> refs g" for g n
    proof -
      have "g \<in> set (v_frames v (v_cur v))" using that assms(2) by simp
      then show ?thesis using K that unfolding K_bound_def by blast
    qed
  qed (use K in simp)
  ultimately show ?thesis by (simp add: kinv_def)
qed

text \<open>Pushing frames on the running thread's stack.\<close>

lemma push_ok:
  assumes "kinv \<delta> v" "v_stat v (v_cur v) = Some RUNNING" "shape (new @ v_frames v (v_cur v))"
    and "\<And>l x. v_locks v l = Some x \<Longrightarrow> solvent l (lock_semaphore x) (new @ v_frames v (v_cur v))
      \<and> \<delta>' l = \<delta> l - tok l (lock_semaphore x) new"
    and "\<And>f n. f \<in> set new \<Longrightarrow> n \<in> refs f \<Longrightarrow> n < v_brk v"
    and "\<And>s t. uses s new \<Longrightarrow> t \<noteq> v_cur v \<Longrightarrow> F_DeleteSemaphore s \<notin> set (v_frames v t)"
    and "\<And>s t. F_DeleteSemaphore s \<in> set new \<Longrightarrow> ordered s new \<and> s \<notin> lock_sems v \<and> s \<notin> v_dev v
      \<and> \<not> uses s (v_frames v t) \<and> F_DeleteSemaphore s \<notin> set (v_frames v t)"
  shows "kinv \<delta>' (with_frames v (new @ v_frames v (v_cur v)))"
proof -
  note K = assms(1) [unfolded kinv_def]
  have cur: "v_cur v \<in> alive v" using assms(2) by (simp add: alive_def)
  have "K_ready (with_frames v (new @ v_frames v (v_cur v)))" using K by (simp add: K_ready_def)
  moreover have "K_queue (with_frames v (new @ v_frames v (v_cur v)))"
    by (rule K_queue_frames) (use K not_queued assms(2) in fastforce)+
  moreover have "K_stack (with_frames v (new @ v_frames v (v_cur v)))"
    by (rule K_stack_frames) (use K assms(2,3) in simp_all)
  moreover have "K_lock \<delta>' (with_frames v (new @ v_frames v (v_cur v)))"
    by (rule K_lock_frames [of \<delta>]) (use K cur assms(4) in simp_all)
  moreover have "K_wake (with_frames v (new @ v_frames v (v_cur v)))"
    by (rule K_wake_frames) (use K cur in simp_all)
  moreover have "K_waiter (with_frames v (new @ v_frames v (v_cur v)))"
  proof (rule K_waiter_frames)
    show "K_waiter v" using K by simp
    show "F_DeleteSemaphore s \<notin> set (v_frames v t)"
      if "uses s (new @ v_frames v (v_cur v))" "\<not> uses s (v_frames v (v_cur v))" "t \<noteq> v_cur v" for s t
      using assms(6) [of s t] that by simp
    show "ordered s (new @ v_frames v (v_cur v))" if "F_DeleteSemaphore s \<in> set (new @ v_frames v (v_cur v))" for s
    proof (cases "F_DeleteSemaphore s \<in> set new")
      case True
      then show ?thesis using assms(7) [of s "v_cur v"] by (simp add: ordered_append)
    next
      case False
      then have "ordered s (v_frames v (v_cur v))" using K that unfolding K_waiter_def by auto
      then show ?thesis using False by (simp add: ordered_append)
    qed
    show "s \<notin> lock_sems v \<and> s \<notin> v_dev v \<and> (t \<noteq> v_cur v \<longrightarrow> \<not> uses s (v_frames v t) \<and> F_DeleteSemaphore s \<notin> set (v_frames v t))"
      if "F_DeleteSemaphore s \<in> set (new @ v_frames v (v_cur v))" "F_DeleteSemaphore s \<notin> set (v_frames v (v_cur v))" for s t
      using assms(7) [of s t] that by simp
  qed
  moreover have "K_bound (with_frames v (new @ v_frames v (v_cur v)))"
  proof (rule K_bound_frames)
    show "n < v_brk v" if "f \<in> set (new @ v_frames v (v_cur v))" "n \<in> refs f" for f n
    proof (cases "f \<in> set new")
      case True
      then show ?thesis using assms(5) that by simp
    next
      case False
      then have "f \<in> set (v_frames v (v_cur v))" using that by simp
      then show ?thesis using K that(2) unfolding K_bound_def by blast
    qed
  qed (use K in simp)
  ultimately show ?thesis by (simp add: kinv_def)
qed

text \<open>Frames that name no semaphore and hold no token.\<close>

definition plain :: "'a frame \<Rightarrow> bool" where
  "plain f \<longleftrightarrow> deep f \<and> refs f = {}"

lemma plain_weight: "plain f \<Longrightarrow> weight l s f = 0"
  by (cases f) (auto simp: plain_def)

lemma plain_list:
  assumes "list_all plain fs"
  shows "tok l s fs = 0" "solvent l s fs" "\<not> uses s fs" "F_DeleteSemaphore s \<notin> set fs" "list_all deep fs"
    "f \<in> set fs \<Longrightarrow> refs f = {}" "solvent l s gs \<Longrightarrow> solvent l s (fs @ gs)"
proof -
  show t: "tok l s fs = 0" using assms by (induction fs) (auto simp: plain_weight)
  show "solvent l s fs" using assms
  proof (induction fs)
    case (Cons f fs)
    moreover have "tok l s (f # fs) = 0" using Cons.prems by (induction fs) (auto simp: plain_weight)
    ultimately show ?case by simp
  qed simp
  show "\<not> uses s fs" "F_DeleteSemaphore s \<notin> set fs" "list_all deep fs" "f \<in> set fs \<Longrightarrow> refs f = {}"
    using assms by (auto simp: list_all_iff plain_def uses_def)
  show "solvent l s gs \<Longrightarrow> solvent l s (fs @ gs)"
    using assms
  proof (induction fs)
    case (Cons f fs)
    have "tok l s (fs @ gs) = tok l s gs" using Cons.prems by (induction fs) (auto simp: plain_weight)
    then show ?case using Cons solvent_tok [of l s gs] by (auto simp: plain_weight)
  qed simp
qed

lemma push_plain_ok:
  assumes "kinv \<delta> v" "v_stat v (v_cur v) = Some RUNNING" "list_all plain new" "list_all deep (v_frames v (v_cur v))"
  shows "kinv \<delta> (with_frames v (new @ v_frames v (v_cur v)))"
proof (rule push_ok [OF assms(1,2)])
  note pl = plain_list [OF assms(3)]
  show "shape (new @ v_frames v (v_cur v))" using pl(5) assms(4) by (simp add: shape_iff)
  show "solvent l (lock_semaphore x) (new @ v_frames v (v_cur v)) \<and> \<delta> l = \<delta> l - tok l (lock_semaphore x) new"
    if "v_locks v l = Some x" for l x
    using pl(1,7) assms(1) that by (simp add: kinv_def K_lock_def)
qed (use plain_list [OF assms(3)] in auto)

text \<open>\<open>V\<close>: one more, and the first in the queue becomes ready.\<close>

lemma V_ok:
  assumes "kinv \<delta> v" "v_sems v s = Some x"
    and "\<And>l y. v_locks v l = Some y \<Longrightarrow> \<delta>' l = \<delta> l - (if lock_semaphore y = s then 1 else 0)"
  shows "kinv \<delta>' (V_view s x v)"
proof -
  note K = assms(1) [unfolded kinv_def]
  have lock: "K_lock \<delta>' (v\<lparr>v_stat := st, v_ready := r, v_sems := (v_sems v)(s \<mapsto> y)\<rparr>)"
    if "alive (v\<lparr>v_stat := st\<rparr>) = alive v" "sem_value y = sem_value x + 1" for st r y
  proof -
    have al: "alive (v\<lparr>v_stat := st, v_ready := r, v_sems := z\<rparr>) = alive v" for z using that(1) by (simp add: alive_def)
    have "token_sum l z (v\<lparr>v_stat := st, v_ready := r, v_sems := (v_sems v)(s \<mapsto> y)\<rparr>)
      = token_sum l z v + (if lock_semaphore z = s then 1 else 0)" for l z
      using that(2) assms(2) by (simp add: token_sum_def al)
    moreover have "0 \<le> sem_value x" if "v_locks v l = Some z" "lock_semaphore z = s" for l z
      using K_lock_value [of \<delta> v l z x] K assms(2) that by simp
    ultimately show ?thesis using K assms(2,3) that(2) unfolding K_lock_def by auto
  qed
  have waiter: "K_waiter (v\<lparr>v_stat := st, v_ready := r, v_sems := z\<rparr>)" for st r z
    using K by (simp add: K_waiter_def lock_sems_def)
  show ?thesis
  proof (cases "sem_queue x")
    case Nil
    let ?v = "v\<lparr>v_sems := (v_sems v)(s \<mapsto> x\<lparr>sem_value := sem_value x + 1\<rparr>)\<rparr>"
    have eq: "V_view s x v = ?v" using Nil by (simp add: V_view_def)
    have v: "?v = v\<lparr>v_stat := v_stat v, v_ready := v_ready v, v_sems := (v_sems v)(s \<mapsto> x\<lparr>sem_value := sem_value x + 1\<rparr>)\<rparr>" by simp
    have "K_ready ?v" "K_stack ?v" using K by (simp_all add: K_ready_def K_stack_def)
    moreover have "K_queue ?v"
      by (rule K_queue_cong [of v]) (use K assms(2) Nil in auto)
    moreover have "K_wake ?v" using K Nil unfolding K_wake_def by (auto simp: retrying_def)
    moreover have "K_bound ?v" using K assms(2) unfolding K_bound_def lock_sems_def by auto
    moreover have "K_lock \<delta>' ?v" using lock [of "v_stat v" "x\<lparr>sem_value := sem_value x + 1\<rparr>" "v_ready v"] unfolding v by simp
    moreover have "K_waiter ?v" unfolding v by (rule waiter)
    ultimately show ?thesis unfolding eq kinv_def by simp
  next
    case (Cons t q)
    let ?y = "\<lparr>sem_value = sem_value x + 1, sem_queue = q\<rparr>"
    let ?v = "(ready_view t v)\<lparr>v_sems := (v_sems v)(s \<mapsto> ?y)\<rparr>"
    have eq: "V_view s x v = ?v" using Cons by (simp add: V_view_def)
    have t: "v_stat v t = Some BLOCKED" "waits_on (v_frames v t) s" "t \<notin> set q" "t \<notin> set (v_ready v)" "distinct q"
    proof -
      have KQ: "K_queue v" using K by simp
      have t: "t \<in> set (sem_queue x)" using Cons by simp
      show st: "v_stat v t = Some BLOCKED" "waits_on (v_frames v t) s" by (rule K_queueD [OF KQ assms(2)], rule t)+
      have "v_stat v t \<noteq> Some READY" using st by simp
      then show "t \<notin> set (v_ready v)" using K unfolding K_ready_def by blast
      show "t \<notin> set q" "distinct q" using K_queueD(1) [OF KQ assms(2)] Cons by auto
    qed
    have "K_ready ?v"
      using K t by_priority.sorted_insert_sorted [of "v_prio v" "v_ready v" t] by (auto simp: K_ready_def ready_view_def by_priority_le)
    moreover have "K_queue ?v"
    proof -
      have other: "t \<notin> set (sem_queue z)" if "v_sems v s' = Some z" "s' \<noteq> s" for s' z
      proof
        assume tz: "t \<in> set (sem_queue z)"
        have "t \<in> set (sem_queue x)" "K_queue v" using Cons K by simp_all
        from queue_unique [OF this(2) that(1) tz assms(2) this(1)] that(2) show False by simp
      qed
      show ?thesis unfolding K_queue_def
      proof (intro conjI allI impI)
        fix s' z
        assume z: "v_sems ?v s' = Some z"
        have old: "distinct (sem_queue w) \<and> (\<forall>t \<in> set (sem_queue w). v_stat v t = Some BLOCKED \<and> waits_on (v_frames v t) s')"
          if "v_sems v s' = Some w" for w using K that by (simp add: K_queue_def)
        have same: "v_stat ?v u = v_stat v u" "v_frames ?v u = v_frames v u" if "u \<noteq> t" for u using that by (simp_all add: ready_view_def)
        have "distinct (sem_queue z) \<and> (\<forall>u \<in> set (sem_queue z). u \<noteq> t \<and> v_stat v u = Some BLOCKED \<and> waits_on (v_frames v u) s')"
        proof (cases "s' = s")
          case True
          then have "z = ?y" using z by simp
          then show ?thesis using old [of x] assms(2) True Cons t(3) by auto
        next
          case False
          then have "v_sems v s' = Some z" using z by simp
          then show ?thesis using old [of z] other [OF _ False] by auto
        qed
        then show "distinct (sem_queue z)" "\<forall>u \<in> set (sem_queue z). v_stat ?v u = Some BLOCKED \<and> waits_on (v_frames ?v u) s'"
          using same by auto
      next
        fix u
        assume "v_stat ?v u = Some BLOCKED"
        then have u: "u \<noteq> t" "v_stat v u = Some BLOCKED" by (auto simp: ready_view_def split: if_splits)
        then obtain s' z where z: "v_sems v s' = Some z" "u \<in> set (sem_queue z)" using K unfolding K_queue_def by blast
        show "\<exists>s' z. v_sems ?v s' = Some z \<and> u \<in> set (sem_queue z)"
        proof (cases "s' = s")
          case True
          then show ?thesis using z u(1) assms(2) Cons by (intro exI [of _ s] exI [of _ ?y]) auto
        next
          case False
          then show ?thesis using z by (intro exI [of _ s'] exI [of _ z]) simp
        qed
      qed
    qed
    moreover have "K_stack ?v" using K t(1) unfolding K_stack_def ready_view_def by auto
    moreover have "K_wake ?v"
      unfolding K_wake_def
    proof (intro allI impI)
      fix s' z
      assume z: "v_sems ?v s' = Some z \<and> sem_queue z \<noteq> []"
      show "sem_value z \<le> int (card (retrying s' z ?v))"
      proof (cases "s' = s")
        case True
        then have zy: "z = ?y" using z by simp
        have "F_P_loop s \<in> set (v_frames v t)" using t(2) by (rule waits_on_loop)
        then have r: "retrying s' z ?v = insert t (retrying s x v)"
          using t(3) Cons unfolding True zy by (auto simp: retrying_def ready_view_def)
        have "t \<notin> retrying s x v" using Cons by (simp add: retrying_def)
        moreover have "sem_value x \<le> int (card (retrying s x v))" using K assms(2) Cons by (simp add: K_wake_def)
        moreover have "finite (retrying s x v)" using K by (intro retrying_finite) simp_all
        moreover have "sem_value z = sem_value x + 1" by (simp add: zy)
        ultimately show ?thesis unfolding r by simp
      next
        case False
        then have "v_sems v s' = Some z" using z by simp
        moreover have "retrying s' z ?v = retrying s' z v" by (simp add: retrying_def ready_view_def)
        ultimately show ?thesis using K z by (simp add: K_wake_def)
      qed
    qed
    moreover have "K_bound ?v" using K assms(2) t(1) unfolding K_bound_def lock_sems_def ready_view_def by auto
    moreover have "alive (v\<lparr>v_stat := (v_stat v)(t \<mapsto> READY)\<rparr>) = alive v" using t(1) by (auto simp: alive_def)
    then have "K_lock \<delta>' ?v" unfolding ready_view_def using lock [of _ ?y] by simp
    moreover have "K_waiter ?v" unfolding ready_view_def using waiter by simp
    ultimately show ?thesis unfolding eq kinv_def by simp
  qed
qed

end
