(* ===== verification/Kernel_Moves.thy ===== *)
theory Kernel_Moves
  imports Kernel_Inv
begin

text \<open>
  The changes of the view that switch threads, create and destroy objects, and change locks; each
  keeps the invariant of Kernel_Inv.
\<close>

section \<open>Rules for two parts of the invariant\<close>

lemma K_stackI:
  assumes "\<And>t. shape (v_frames v t)"
    and "\<And>t. v_stat v t = None \<or> v_stat v t = Some JUST_CREATED \<Longrightarrow> v_frames v t = []"
    and "\<And>t. v_stat v t = Some ZOMMBIE \<Longrightarrow> v_frames v t \<in> {[], [F_Sleep True], [F_Switched]}"
    and "\<And>t b. t \<noteq> v_cur v \<Longrightarrow> F_Sleep b \<notin> set (v_frames v t)"
    and "\<And>t. v_stat v t = Some RUNNING \<Longrightarrow> t = v_cur v"
    and "\<And>t. v_doomed v = Some t \<Longrightarrow> v_stat v t = Some ZOMMBIE"
    and "v_stat v (v_cur v) \<noteq> None" "v_stat v (v_cur v) \<noteq> Some JUST_CREATED"
  shows "K_stack v"
  unfolding K_stack_def using assms by blast

lemma K_stackD:
  assumes "K_stack v"
  shows "shape (v_frames v t)"
    and "v_stat v t = None \<or> v_stat v t = Some JUST_CREATED \<Longrightarrow> v_frames v t = []"
    and "v_stat v t = Some ZOMMBIE \<Longrightarrow> v_frames v t \<in> {[], [F_Sleep True], [F_Switched]}"
    and "t \<noteq> v_cur v \<Longrightarrow> F_Sleep b \<notin> set (v_frames v t)"
    and "v_stat v t = Some RUNNING \<Longrightarrow> t = v_cur v"
    and "v_doomed v = Some t \<Longrightarrow> v_stat v t = Some ZOMMBIE"
    and "v_stat v (v_cur v) \<noteq> None" "v_stat v (v_cur v) \<noteq> Some JUST_CREATED"
  using assms unfolding K_stack_def by blast+

lemma K_boundI:
  assumes "\<And>t. v_stat v t \<noteq> None \<Longrightarrow> t < v_brk v" "\<And>s. v_sems v s \<noteq> None \<Longrightarrow> s < v_brk v"
    and "\<And>l x. v_locks v l = Some x \<Longrightarrow> l < v_brk v" "\<And>l x. v_locks v l = Some x \<Longrightarrow> lock_semaphore x < v_brk v"
    and "\<And>l x l' x'. v_locks v l = Some x \<Longrightarrow> v_locks v l' = Some x' \<Longrightarrow> lock_semaphore x = lock_semaphore x' \<Longrightarrow> l = l'"
    and "\<And>c q w. v_conds v c = Some q \<Longrightarrow> w \<in> set q \<Longrightarrow> w < v_brk v"
    and "\<And>c q w. v_conds v c = Some q \<Longrightarrow> w \<in> set q \<Longrightarrow> w \<notin> lock_sems v"
    and "\<And>t f n. f \<in> set (v_frames v t) \<Longrightarrow> n \<in> refs f \<Longrightarrow> n < v_brk v"
    and "\<And>s. s \<in> v_dev v \<Longrightarrow> s < v_brk v" "\<And>s. s \<in> v_dev v \<Longrightarrow> s \<notin> lock_sems v"
  shows "K_bound v"
  unfolding K_bound_def by (intro conjI allI impI ballI; (rule assms, assumption+))

lemma K_boundD:
  assumes "K_bound v"
  shows "v_stat v t \<noteq> None \<Longrightarrow> t < v_brk v" "v_sems v s \<noteq> None \<Longrightarrow> s < v_brk v"
    and "v_locks v l = Some x \<Longrightarrow> l < v_brk v" "v_locks v l = Some x \<Longrightarrow> lock_semaphore x < v_brk v"
    and "v_locks v l = Some x \<Longrightarrow> v_locks v l' = Some x' \<Longrightarrow> lock_semaphore x = lock_semaphore x' \<Longrightarrow> l = l'"
    and "v_conds v c = Some q \<Longrightarrow> w \<in> set q \<Longrightarrow> w < v_brk v"
    and "v_conds v c = Some q \<Longrightarrow> w \<in> set q \<Longrightarrow> w \<notin> lock_sems v"
    and "f \<in> set (v_frames v t) \<Longrightarrow> n \<in> refs f \<Longrightarrow> n < v_brk v"
    and "s \<in> v_dev v \<Longrightarrow> s < v_brk v" "s \<in> v_dev v \<Longrightarrow> s \<notin> lock_sems v"
  using assms unfolding K_bound_def by blast+

lemma K_bound_step:
  assumes K: "K_bound v"
    and stat: "\<And>t. v_stat w t \<noteq> None \<Longrightarrow> v_stat v t = None \<Longrightarrow> t < v_brk w"
    and sems: "\<And>s. v_sems w s \<noteq> None \<Longrightarrow> v_sems v s = None \<Longrightarrow> s < v_brk w"
    and conds: "\<And>c q u. v_conds w c = Some q \<Longrightarrow> u \<in> set q \<Longrightarrow>
      (\<exists>c q. v_conds v c = Some q \<and> u \<in> set q) \<or> u < v_brk w \<and> u \<notin> lock_sems w"
    and frames: "\<And>t f n. f \<in> set (v_frames w t) \<Longrightarrow> f \<notin> set (v_frames v t) \<Longrightarrow> n \<in> refs f \<Longrightarrow> n < v_brk w"
    and eq: "v_locks w = v_locks v" "v_dev w = v_dev v" "v_brk v \<le> v_brk w"
  shows "K_bound w"
proof (rule K_boundI, unfold eq(1,2))
  have ls: "lock_sems w = lock_sems v" by (simp add: lock_sems_def eq)
  note D = K_boundD [OF K]
  show "t < v_brk w" if "v_stat w t \<noteq> None" for t using D(1) [of t] stat [OF that] eq(3) by fastforce
  show "s < v_brk w" if "v_sems w s \<noteq> None" for s using D(2) [of s] sems [OF that] eq(3) by fastforce
  show "l < v_brk w" if "v_locks v l = Some x" for l x using D(3) [OF that] eq(3) by simp
  show "lock_semaphore x < v_brk w" if "v_locks v l = Some x" for l x using D(4) [OF that] eq(3) by simp
  show "l = l'" if "v_locks v l = Some x" "v_locks v l' = Some x'" "lock_semaphore x = lock_semaphore x'" for l x l' x'
    using D(5) that by simp
  show "u < v_brk w" if "v_conds w c = Some q" "u \<in> set q" for c q u
    using conds [OF that] D(6) [of _ _ u] eq(3) by (meson less_le_trans)
  show "u \<notin> lock_sems w" if "v_conds w c = Some q" "u \<in> set q" for c q u
    using conds [OF that] D(7) [of _ _ u] unfolding ls by blast
  show "n < v_brk w" if "f \<in> set (v_frames w t)" "n \<in> refs f" for t f n
    using D(8) [of f t n] frames [of f t n] that eq(3) by (meson less_le_trans)
  show "s < v_brk w" if "s \<in> v_dev v" for s using D(9) [OF that] eq(3) by simp
  show "s \<notin> lock_sems w" if "s \<in> v_dev v" for s using D(10) that unfolding ls by simp
qed

lemma K_bound_cong:
  assumes "K_bound v" "\<And>t. v_stat w t \<noteq> None \<Longrightarrow> v_stat v t \<noteq> None" "\<And>t. set (v_frames w t) \<subseteq> set (v_frames v t)"
    and "v_sems w = v_sems v" "v_locks w = v_locks v" "v_conds w = v_conds v" "v_dev w = v_dev v" "v_brk w = v_brk v"
  shows "K_bound w"
  by (rule K_bound_step [OF assms(1)], unfold assms(4-8)) (use assms(2,3) in blast)+

section \<open>Dispatching\<close>

definition knr :: "(nat \<Rightarrow> int) \<Rightarrow> 'a kview \<Rightarrow> bool" where
  "knr \<delta> v \<longleftrightarrow> K_queue v \<and> K_stack v \<and> K_lock \<delta> v \<and> K_wake v \<and> K_waiter v \<and> K_bound v"

lemma kinv_knr: "kinv \<delta> v \<longleftrightarrow> K_ready v \<and> knr \<delta> v"
  by (simp add: kinv_def knr_def)

lemma knr_ready [simp]: "knr \<delta> (v\<lparr>v_ready := r\<rparr>) = knr \<delta> v"
  by (simp add: knr_def K_queue_def K_stack_def K_lock_def K_wake_def K_waiter_def K_bound_def token_sum_def alive_def
      retrying_def lock_sems_def)

text \<open>Changing the status of a thread between statuses that are neither BLOCKED nor dead.\<close>

lemma knr_stat:
  assumes "knr \<delta> v" "v_stat v t \<notin> {None, Some BLOCKED, Some ZOMMBIE}" "st \<notin> {BLOCKED, JUST_CREATED}"
    and "st = RUNNING \<Longrightarrow> t = v_cur v" "st = ZOMMBIE \<Longrightarrow> v_frames v t \<in> {[], [F_Sleep True], [F_Switched]}"
    and "v_stat v t = Some JUST_CREATED \<Longrightarrow> t \<noteq> v_cur v"
  shows "knr \<delta> (v\<lparr>v_stat := (v_stat v)(t \<mapsto> st)\<rparr>)"
proof -
  let ?v = "v\<lparr>v_stat := (v_stat v)(t \<mapsto> st)\<rparr>"
  note K = assms(1) [unfolded knr_def]
  have al: "alive ?v = alive v" using assms(2) by (auto simp: alive_def)
  have st: "v_stat ?v u = Some BLOCKED \<longleftrightarrow> v_stat v u = Some BLOCKED" for u using assms(2,3) by auto
  have "K_queue ?v" using K unfolding K_queue_def st by simp
  moreover have "K_stack ?v"
  proof (rule K_stackI)
    note S = K_stackD [of v]
    show "shape (v_frames ?v u)" for u using S(1) K by simp
    show "v_frames ?v u = []" if "v_stat ?v u = None \<or> v_stat ?v u = Some JUST_CREATED" for u
      using S(2) [of u] K that assms(3) by (simp split: if_splits)
    show "v_frames ?v u \<in> {[], [F_Sleep True], [F_Switched]}" if "v_stat ?v u = Some ZOMMBIE" for u
      using S(3) [of u] K that assms(5) by (simp split: if_splits)
    show "F_Sleep b \<notin> set (v_frames ?v u)" if "u \<noteq> v_cur ?v" for u b using S(4) K that by simp
    show "u = v_cur ?v" if "v_stat ?v u = Some RUNNING" for u
      using S(5) [of u] K that assms(4) by (simp split: if_splits)
    show "v_stat ?v u = Some ZOMMBIE" if "v_doomed ?v = Some u" for u
    proof -
      have "v_stat v u = Some ZOMMBIE" using S(6) [of u] K that by simp
      then show ?thesis using assms(2) by auto
    qed
    show "v_stat ?v (v_cur ?v) \<noteq> None" "v_stat ?v (v_cur ?v) \<noteq> Some JUST_CREATED"
      using S(7,8) K assms(3) by simp_all
  qed
  moreover have "K_lock \<delta> ?v" using K unfolding K_lock_def token_sum_def al by simp
  moreover have "K_wake ?v" using K by (simp add: K_wake_def retrying_def)
  moreover have "K_waiter ?v" using K by (simp add: K_waiter_def lock_sems_def)
  moreover have "K_bound ?v" by (rule K_bound_cong [of v]) (use K assms(2) in \<open>auto split: if_splits\<close>)
  ultimately show ?thesis by (simp add: knr_def)
qed

lemma run_knr:
  assumes "knr \<delta> v" "v_stat v n = Some READY" "v_stat v (v_cur v) \<noteq> Some RUNNING"
    and "blocked (v_frames v (v_cur v)) \<or> list_all deep (v_frames v (v_cur v))"
    and "v_stat v (v_cur v) = Some ZOMMBIE \<Longrightarrow> v_frames v (v_cur v) = []"
    and "finishing \<Longrightarrow> v_stat v (v_cur v) = Some ZOMMBIE"
  shows "knr \<delta> (run_view n finishing v)"
proof -
  note K = assms(1) [unfolded knr_def]
  let ?fs = "F_Switched # v_frames v (v_cur v)"
  let ?w = "with_frames v ?fs"
  have cur: "v_cur v \<in> alive v" using K by (auto simp: K_stack_def alive_def)
  have nosleep: "F_Sleep b \<notin> set ?fs" for b
    using assms(4) deep_not(2) by (auto simp: blocked_iff)
  have "K_queue ?w"
  proof (rule K_queue_frames)
    show "K_queue v" using K by simp
    show "waits_on ?fs s" if "v_sems v s = Some x" "v_cur v \<in> set (sem_queue x)" for s x
    proof -
      have "waits_on (v_frames v (v_cur v)) s" using K_queueD(3) [of v s x "v_cur v"] K that by simp
      then show ?thesis using nosleep assms(4) by (auto simp: waits_on_def blocked_iff)
    qed
  qed
  moreover have "K_stack ?w"
    by (rule K_stack_frames) (use K assms(4,5) in \<open>auto simp: shape_iff\<close>)
  moreover have "K_lock \<delta> ?w"
  proof (rule K_lock_frames [of \<delta>])
    show "solvent l (lock_semaphore x) ?fs \<and> \<delta> l = \<delta> l + tok l (lock_semaphore x) (v_frames v (v_cur v)) - tok l (lock_semaphore x) ?fs"
      if "v_locks v l = Some x" for l x
    proof -
      have "solvent l (lock_semaphore x) (v_frames v (v_cur v))" using K that by (simp add: K_lock_def)
      then show ?thesis using solvent_tok by simp
    qed
  qed (use K cur in simp_all)
  moreover have "K_wake ?w" by (rule K_wake_frames) (use K cur in simp_all)
  moreover have "K_waiter ?w"
  proof (rule K_waiter_frames)
    show "ordered s ?fs" if "F_DeleteSemaphore s \<in> set ?fs" for s
      using K that by (auto simp: K_waiter_def)
  qed (use K in auto)
  moreover have "K_bound ?w"
    by (rule K_bound_frames) (use K in \<open>auto simp: K_bound_def\<close>)
  ultimately have w: "K_queue ?w" "K_stack ?w" "K_lock \<delta> ?w" "K_wake ?w" "K_waiter ?w" "K_bound ?w" by simp_all
  let ?d = "if finishing then Some (v_cur v) else v_doomed v"
  let ?v = "?w\<lparr>v_doomed := ?d, v_cur := n, v_stat := (v_stat v)(n \<mapsto> RUNNING)\<rparr>"
  have eq: "run_view n finishing v = ?v" by (simp add: run_view_def)
  have al: "alive ?v = alive ?w" using assms(2) by (auto simp: alive_def)
  have st: "v_stat ?v u = Some BLOCKED \<longleftrightarrow> v_stat ?w u = Some BLOCKED" for u using assms(2) by auto
  have ne: "v_stat v (v_cur v) = Some ZOMMBIE \<Longrightarrow> n \<noteq> v_cur v" using assms(2) by auto
  have "K_queue ?v" using w(1) unfolding K_queue_def st by simp
  moreover have "K_stack ?v"
  proof (rule K_stackI)
    note S = K_stackD [of ?w]
    show "shape (v_frames ?v u)" for u using S(1) w(2) by simp
    show "v_frames ?v u = []" if "v_stat ?v u = None \<or> v_stat ?v u = Some JUST_CREATED" for u
    proof -
      have "v_stat ?w u = None \<or> v_stat ?w u = Some JUST_CREATED" using that by (simp split: if_splits)
      then have "v_frames ?w u = []" using S(2) w(2) by blast
      then show ?thesis by simp
    qed
    show "v_frames ?v u \<in> {[], [F_Sleep True], [F_Switched]}" if "v_stat ?v u = Some ZOMMBIE" for u
    proof -
      have "v_stat ?w u = Some ZOMMBIE" using that by (simp split: if_splits)
      then have "v_frames ?w u \<in> {[], [F_Sleep True], [F_Switched]}" using S(3) w(2) by blast
      then show ?thesis by simp
    qed
    show "F_Sleep b \<notin> set (v_frames ?v u)" if "u \<noteq> v_cur ?v" for u b
    proof (cases "u = v_cur v")
      case True
      then show ?thesis using nosleep by simp
    next
      case False
      then show ?thesis using S(4) [of u] w(2) by simp
    qed
    show "u = v_cur ?v" if "v_stat ?v u = Some RUNNING" for u
    proof (rule ccontr)
      assume "u \<noteq> v_cur ?v"
      then have "v_stat v u = Some RUNNING" using that by simp
      then show False using K_stackD(5) [of v u] K assms(3) by auto
    qed
    show "v_stat ?v u = Some ZOMMBIE" if "v_doomed ?v = Some u" for u
    proof -
      have "v_stat v u = Some ZOMMBIE" using that assms(6) K_stackD(6) [of v u] K by (simp split: if_splits)
      then show ?thesis using assms(2) by auto
    qed
  qed simp_all
  moreover have "K_lock \<delta> ?v" using w(3) unfolding K_lock_def token_sum_def al by simp
  moreover have "K_wake ?v" using w(4) by (simp add: K_wake_def retrying_def)
  moreover have "K_waiter ?v" using w(5) by (simp add: K_waiter_def lock_sems_def)
  moreover have "K_bound ?v" by (rule K_bound_cong [of ?w]) (use w(6) assms(2) in \<open>auto split: if_splits\<close>)
  ultimately show ?thesis unfolding eq knr_def by simp
qed

lemma run_ok:
  assumes "kinv \<delta> v" "v_ready v = n # q" "v_stat v (v_cur v) \<noteq> Some RUNNING"
    and "blocked (v_frames v (v_cur v)) \<or> list_all deep (v_frames v (v_cur v))"
    and "v_stat v (v_cur v) = Some ZOMMBIE \<Longrightarrow> v_frames v (v_cur v) = []"
    and "finishing \<Longrightarrow> v_stat v (v_cur v) = Some ZOMMBIE"
  shows "kinv \<delta> (run_view n finishing (v\<lparr>v_ready := q\<rparr>))"
proof -
  have R: "K_ready v" "knr \<delta> v" using assms(1) by (simp_all add: kinv_knr)
  have n: "v_stat v n = Some READY" using R(1) assms(2) unfolding K_ready_def by (metis list.set_intros(1))
  have "knr \<delta> (run_view n finishing (v\<lparr>v_ready := q\<rparr>))"
    by (rule run_knr) (use R(2) n assms(3-6) in simp_all)
  moreover have "K_ready (run_view n finishing (v\<lparr>v_ready := q\<rparr>))"
    using R(1) assms(2) unfolding K_ready_def run_view_def by auto
  ultimately show ?thesis by (simp add: kinv_knr)
qed

lemma yield_ok:
  assumes "kinv \<delta> v" "v_ready v = n # q" "v_stat v (v_cur v) = Some RUNNING" "list_all deep (v_frames v (v_cur v))"
  shows "kinv \<delta> (run_view n False (ready_view (v_cur v) (v\<lparr>v_ready := q\<rparr>)))"
proof -
  have R: "K_ready v" "knr \<delta> v" using assms(1) by (simp_all add: kinv_knr)
  have n: "v_stat v n = Some READY" using R(1) assms(2) unfolding K_ready_def by (metis list.set_intros(1))
  then have ne: "n \<noteq> v_cur v" using assms(3) by auto
  have "v_stat v (v_cur v) \<noteq> Some READY" using assms(3) by simp
  then have cq: "v_cur v \<notin> set (n # q)" using R(1) assms(2) unfolding K_ready_def by metis
  let ?w = "ready_view (v_cur v) (v\<lparr>v_ready := q\<rparr>)"
  have "knr \<delta> ?w" unfolding ready_view_def
    using knr_stat [OF R(2), of "v_cur v" READY] assms(3) by simp
  then have "knr \<delta> (run_view n False ?w)"
    by (rule run_knr) (use n ne assms(3,4) in \<open>simp_all add: ready_view_def\<close>)
  moreover have "K_ready (run_view n False ?w)"
    using R(1) assms(2) cq ne by_priority.sorted_insert_sorted [of "v_prio v" q "v_cur v"]
    unfolding K_ready_def run_view_def ready_view_def by (auto simp: by_priority_le)
  ultimately show ?thesis by (simp add: kinv_knr)
qed

section \<open>Threads come and go\<close>

lemma sum_dead:
  assumes "finite A" "z \<in> A" "g z = (0::int)"
  shows "(\<Sum>t\<in>A - {z}. g t) = (\<Sum>t\<in>A. g t)"
  using sum.remove [OF assms(1,2), of g] assms(3) by simp

lemma zombie_tok:
  assumes "fs \<in> {[], [F_Sleep True], [F_Switched]}"
  shows "tok l s fs = 0"
  using assms by auto

lemma doom_ok:
  assumes "kinv \<delta> v" "v_doomed v \<noteq> Some (v_cur v)"
  shows "kinv \<delta> (doom_view v)"
proof (cases "v_doomed v")
  case None
  then show ?thesis using assms by (simp add: doom_view_def)
next
  case (Some z)
  note K = assms(1) [unfolded kinv_def]
  let ?v = "v\<lparr>v_stat := (v_stat v)(z := None), v_frames := (v_frames v)(z := []), v_prio := (v_prio v)(z := 0), v_doomed := None\<rparr>"
  have eq: "doom_view v = ?v" using Some by (simp add: doom_view_def)
  have z: "v_stat v z = Some ZOMMBIE" "z \<noteq> v_cur v" using K Some assms(2) by (auto simp: K_stack_def)
  have fz: "v_frames v z \<in> {[], [F_Sleep True], [F_Switched]}" using K z(1) by (simp add: K_stack_def)
  have nz: "z \<notin> set (v_ready v)" using K z(1) by (simp add: K_ready_def)
  have al: "alive ?v = alive v - {z}" "z \<in> alive v" using z(1) by (auto simp: alive_def)
  have fin: "finite (alive v)" using K by (simp add: alive_finite)
  have sub: "set (v_frames ?v t) \<subseteq> set (v_frames v t)" for t by simp
  have sum: "(\<Sum>t\<in>alive ?v. tok l s (v_frames ?v t)) = (\<Sum>t\<in>alive v. tok l s (v_frames v t))" for l s
  proof -
    have "(\<Sum>t\<in>alive ?v. tok l s (v_frames ?v t)) = (\<Sum>t\<in>alive v - {z}. tok l s (v_frames v t))"
      unfolding al(1) by (rule sum.cong) auto
    then show ?thesis using sum_dead [OF fin al(2), of "\<lambda>t. tok l s (v_frames v t)"] zombie_tok [OF fz] by simp
  qed
  have "K_ready ?v"
  proof -
    have "sorted_wrt (\<lambda>x y. v_prio ?v x \<le> v_prio ?v y) (v_ready v)"
      by (rule sorted_wrt_mono_rel [of _ "\<lambda>x y. v_prio v x \<le> v_prio v y"]) (use K nz in \<open>auto simp: K_ready_def\<close>)
    then show ?thesis using K z(1) by (auto simp: K_ready_def)
  qed
  moreover have "K_queue ?v"
  proof -
    have "t \<noteq> z" if "v_sems v s = Some x" "t \<in> set (sem_queue x)" for s x t
      using K_queueD(2) [of v s x t] K that z(1) by auto
    then show ?thesis using K unfolding K_queue_def by (auto split: if_splits)
  qed
  moreover have "K_stack ?v"
  proof (rule K_stackI)
    note S = K_stackD [of v]
    show "shape (v_frames ?v u)" for u using S(1) [of u] K by simp
    show "v_frames ?v u = []" if "v_stat ?v u = None \<or> v_stat ?v u = Some JUST_CREATED" for u
      using S(2) [of u] K that by (simp split: if_splits)
    show "v_frames ?v u \<in> {[], [F_Sleep True], [F_Switched]}" if "v_stat ?v u = Some ZOMMBIE" for u
      using S(3) [of u] K that by (simp split: if_splits)
    show "F_Sleep b \<notin> set (v_frames ?v u)" if "u \<noteq> v_cur ?v" for u b using S(4) [of u] K that by simp
    show "u = v_cur ?v" if "v_stat ?v u = Some RUNNING" for u using S(5) [of u] K that by (simp split: if_splits)
    show "v_stat ?v (v_cur ?v) \<noteq> None" "v_stat ?v (v_cur ?v) \<noteq> Some JUST_CREATED" using S(7,8) K z(2) by simp_all
  qed simp
  moreover have "K_lock \<delta> ?v" using K sum unfolding K_lock_def token_sum_def by auto
  moreover have "retrying s x ?v = retrying s x v" for s x using fz by (auto simp: retrying_def)
  then have "K_wake ?v" using K by (simp add: K_wake_def)
  moreover have "K_waiter ?v"
  proof -
    have "lock_sems ?v = lock_sems v" by (simp add: lock_sems_def)
    then show ?thesis using K unfolding K_waiter_def by (simp split: if_splits)
  qed
  moreover have "K_bound ?v" by (rule K_bound_cong [of v]) (use K in \<open>auto split: if_splits\<close>)
  ultimately show ?thesis unfolding eq kinv_def by simp
qed


text \<open>A part of the view that changes without moving a token.\<close>

lemma K_lock_cong:
  assumes "K_lock \<delta> v" "v_locks w = v_locks v"
    and "\<And>l x. v_locks v l = Some x \<Longrightarrow> v_sems w (lock_semaphore x) = v_sems v (lock_semaphore x)"
    and tok: "\<And>l s t. tok l s (v_frames w t) = tok l s (v_frames v t)"
    and "\<And>l s t. solvent l s (v_frames v t) \<Longrightarrow> solvent l s (v_frames w t)"
    and fin: "finite (alive v)" "finite (alive w)"
    and dead: "\<And>l s t. (t \<in> alive v) \<noteq> (t \<in> alive w) \<Longrightarrow> tok l s (v_frames v t) = 0"
  shows "K_lock \<delta> w"
proof -
  have sum: "(\<Sum>t\<in>alive w. tok l s (v_frames w t)) = (\<Sum>t\<in>alive v. tok l s (v_frames v t))" for l s
    by (rule sum.mono_neutral_cong [OF fin]) (use tok dead in auto)
  have "token_sum l x w = token_sum l x v" if "v_locks v l = Some x" for l x
    using assms(3) [OF that] sum by (simp add: token_sum_def)
  then show ?thesis using assms(1,3,5) unfolding K_lock_def assms(2) by simp
qed

lemma fresh:
  assumes "K_bound v" "K_stack v"
  shows "v_stat v (v_brk v) = None" "v_sems v (v_brk v) = None" "v_locks v (v_brk v) = None" "v_frames v (v_brk v) = []"
    "v_cur v \<noteq> v_brk v" "v_brk v \<notin> lock_sems v" "v_brk v \<notin> v_dev v" "f \<in> set (v_frames v t) \<Longrightarrow> v_brk v \<notin> refs f"
proof -
  note D = K_boundD [OF assms(1)]
  show st: "v_stat v (v_brk v) = None" "v_sems v (v_brk v) = None" "v_locks v (v_brk v) = None"
    using D(1) [of "v_brk v"] D(2) [of "v_brk v"] D(3) [of "v_brk v"] less_irrefl by (blast, blast, metis option.exhaust)
  show "v_frames v (v_brk v) = []" using K_stackD(2) [OF assms(2)] st(1) by simp
  show "v_cur v \<noteq> v_brk v" using K_stackD(7) [OF assms(2)] st(1) by auto
  show "v_brk v \<notin> lock_sems v" using D(4) unfolding lock_sems_def by fastforce
  show "v_brk v \<notin> v_dev v" using D(9) by blast
  show "f \<in> set (v_frames v t) \<Longrightarrow> v_brk v \<notin> refs f" using D(8) [of f t "v_brk v"] by blast
qed

lemma create_ok:
  assumes "kinv \<delta> v"
  shows "kinv \<delta> (create_view (v_brk v) v)"
proof -
  note K = assms(1) [unfolded kinv_def]
  let ?t = "v_brk v"
  note F = fresh [of v]
  let ?v = "v\<lparr>v_stat := (v_stat v)(?t \<mapsto> JUST_CREATED), v_frames := (v_frames v)(?t := []), v_prio := (v_prio v)(?t := 0), v_brk := v_brk v + 1\<rparr>"
  have eq: "create_view ?t v = ?v" by (simp add: create_view_def)
  have fr: "v_frames ?v = v_frames v" using F(4) K by auto
  have nr: "?t \<notin> set (v_ready v)" using F(1) K by (simp add: K_ready_def)
  have al: "alive ?v = insert ?t (alive v)" by (auto simp: alive_def)
  have fin: "finite (alive v)" using K by (simp add: alive_finite)
  have ls: "lock_sems ?v = lock_sems v" by (simp add: lock_sems_def)
  have "sorted_wrt (\<lambda>x y. v_prio ?v x \<le> v_prio ?v y) (v_ready v)"
    by (rule sorted_wrt_mono_rel [of _ "\<lambda>x y. v_prio v x \<le> v_prio v y"]) (use K nr in \<open>auto simp: K_ready_def\<close>)
  then have "K_ready ?v" using K nr by (simp add: K_ready_def)
  moreover have "K_queue ?v"
  proof -
    have st: "v_stat ?v u = Some BLOCKED \<longleftrightarrow> v_stat v u = Some BLOCKED" for u using F(1) K by simp
    show ?thesis using K unfolding K_queue_def st fr by simp
  qed
  moreover have "K_stack ?v"
  proof (rule K_stackI, unfold fr)
    note S = K_stackD [of v]
    show "shape (v_frames v u)" for u using S(1) K by simp
    show "v_frames v u = []" if "v_stat ?v u = None \<or> v_stat ?v u = Some JUST_CREATED" for u
      using S(2) [of u] F(4) K that by (simp split: if_splits)
    show "v_frames v u \<in> {[], [F_Sleep True], [F_Switched]}" if "v_stat ?v u = Some ZOMMBIE" for u
      using S(3) [of u] K that by (simp split: if_splits)
    show "F_Sleep b \<notin> set (v_frames v u)" if "u \<noteq> v_cur ?v" for u b using S(4) K that by simp
    show "u = v_cur ?v" if "v_stat ?v u = Some RUNNING" for u
      using S(5) [of u] K that by (simp split: if_splits)
    show "v_stat ?v u = Some ZOMMBIE" if "v_doomed ?v = Some u" for u
    proof -
      have "v_stat v u = Some ZOMMBIE" using S(6) [of u] K that by simp
      then show ?thesis using F(1) K by auto
    qed
    show "v_stat ?v (v_cur ?v) \<noteq> None" "v_stat ?v (v_cur ?v) \<noteq> Some JUST_CREATED"
      using S(7,8) F(5) K by simp_all
  qed
  moreover have "K_lock \<delta> ?v"
  proof (rule K_lock_cong [of _ v], unfold fr al)
    show "tok l s (v_frames v t) = 0" if "(t \<in> alive v) \<noteq> (t \<in> insert ?t (alive v))" for l s t
      using that F(4) K by auto
  qed (use K fin in simp_all)
  moreover have "K_wake ?v" using K unfolding K_wake_def retrying_def fr by simp
  moreover have "K_waiter ?v" using K unfolding K_waiter_def ls fr by simp
  moreover have "K_bound ?v" by (rule K_bound_step [of v]) (use K fr in \<open>auto split: if_splits\<close>)
  ultimately show ?thesis unfolding eq kinv_def by simp
qed

lemma fork_ok:
  assumes "kinv \<delta> v" "v_stat v t = Some JUST_CREATED"
  shows "kinv \<delta> (ready_view t (v\<lparr>v_frames := (v_frames v)(t := [F_Begin])\<rparr>))"
proof -
  note K = assms(1) [unfolded kinv_def]
  have old: "v_frames v t = []" using K_stackD(2) [of v t] K assms(2) by simp
  have tc: "t \<noteq> v_cur v" using K_stackD(8) [of v] K assms(2) by auto
  let ?v = "v\<lparr>v_frames := (v_frames v)(t := [F_Begin])\<rparr>"
  have mem: "f \<in> set (v_frames ?v u) \<longleftrightarrow> f \<in> set (v_frames v u) \<or> u = t \<and> f = F_Begin" for f u using old by auto
  have us: "uses s (v_frames ?v u) = uses s (v_frames v u)" for s u unfolding uses_def mem by simp
  have al: "alive ?v = alive v" by (simp add: alive_def)
  have ls: "lock_sems ?v = lock_sems v" by (simp add: lock_sems_def)
  have fin: "finite (alive v)" using K by (simp add: alive_finite)
  have nr: "t \<notin> set (v_ready v)" using K assms(2) by (simp add: K_ready_def)
  have "K_queue ?v"
  proof -
    have "t \<notin> set (sem_queue x)" if "v_sems v s = Some x" for s x
      using K_queueD(2) [of v s x t] K that assms(2) by auto
    then show ?thesis using K unfolding K_queue_def by (auto split: if_splits)
  qed
  moreover have "K_lock \<delta> ?v"
  proof (rule K_lock_cong [of _ v], unfold al)
    show "tok l s (v_frames ?v u) = tok l s (v_frames v u)" for l s u using old by simp
    show "solvent l s (v_frames ?v u)" if "solvent l s (v_frames v u)" for l s u using that by simp
  qed (use K fin in simp_all)
  moreover have "K_wake ?v" using K unfolding K_wake_def retrying_def mem by simp
  moreover have "K_waiter ?v" using K unfolding K_waiter_def ls us mem by simp
  moreover have "K_bound ?v" by (rule K_bound_step [of v]) (use K in \<open>auto split: if_splits\<close>)
  ultimately have rest: "K_queue ?v" "K_lock \<delta> ?v" "K_wake ?v" "K_waiter ?v" "K_bound ?v" by simp_all
  let ?w = "?v\<lparr>v_stat := (v_stat ?v)(t \<mapsto> READY)\<rparr>"
  have eq: "ready_view t ?v = ?w\<lparr>v_ready := sorted_insert (prio_cmp (v_prio v)) t (v_ready v)\<rparr>" by (simp add: ready_view_def)
  have al': "alive ?w = alive ?v" using assms(2) by (auto simp: alive_def)
  have st: "v_stat ?w u = Some BLOCKED \<longleftrightarrow> v_stat ?v u = Some BLOCKED" for u using assms(2) by auto
  have "knr \<delta> ?w" unfolding knr_def
  proof (intro conjI)
    show "K_queue ?w" using rest(1) unfolding K_queue_def st by simp
    show "K_lock \<delta> ?w" using rest(2) unfolding K_lock_def token_sum_def al' by simp
    show "K_wake ?w" using rest(3) by (simp add: K_wake_def retrying_def)
    show "K_waiter ?w" using rest(4) by (simp add: K_waiter_def lock_sems_def)
    show "K_bound ?w" by (rule K_bound_cong [of ?v]) (use rest(5) assms(2) in \<open>auto split: if_splits\<close>)
    show "K_stack ?w"
    proof (rule K_stackI)
      note S = K_stackD [of v]
      show "shape (v_frames ?w u)" for u using S(1) [of u] K by simp
      show "v_frames ?w u = []" if "v_stat ?w u = None \<or> v_stat ?w u = Some JUST_CREATED" for u
        using S(2) [of u] K that by (simp split: if_splits)
      show "v_frames ?w u \<in> {[], [F_Sleep True], [F_Switched]}" if "v_stat ?w u = Some ZOMMBIE" for u
        using S(3) [of u] K that by (simp split: if_splits)
      show "F_Sleep b \<notin> set (v_frames ?w u)" if "u \<noteq> v_cur ?w" for u b using S(4) [of u] K that by simp
      show "u = v_cur ?w" if "v_stat ?w u = Some RUNNING" for u using S(5) [of u] K that by (simp split: if_splits)
      show "v_stat ?w u = Some ZOMMBIE" if "v_doomed ?w = Some u" for u
      proof -
        have "v_stat v u = Some ZOMMBIE" using S(6) [of u] K that by simp
        then show ?thesis using assms(2) by auto
      qed
      show "v_stat ?w (v_cur ?w) \<noteq> None" "v_stat ?w (v_cur ?w) \<noteq> Some JUST_CREATED" using S(7,8) K tc by simp_all
    qed
  qed
  moreover have "K_ready (ready_view t ?v)"
    using K nr by_priority.sorted_insert_sorted [of "v_prio v" "v_ready v" t]
    by (auto simp: K_ready_def ready_view_def by_priority_le)
  ultimately show ?thesis unfolding kinv_knr eq by simp
qed

lemma knr_prio [simp]: "knr \<delta> (v\<lparr>v_prio := p\<rparr>) = knr \<delta> v"
  by (simp add: knr_def K_queue_def K_stack_def K_lock_def K_wake_def K_waiter_def K_bound_def token_sum_def alive_def
      retrying_def lock_sems_def)

lemma prio_ok:
  assumes "kinv \<delta> v" "t \<notin> set (v_ready v)"
  shows "kinv \<delta> (v\<lparr>v_prio := (v_prio v)(t := p)\<rparr>)"
proof -
  let ?v = "v\<lparr>v_prio := (v_prio v)(t := p)\<rparr>"
  have R: "K_ready v" "knr \<delta> v" using assms(1) by (simp_all add: kinv_knr)
  have "sorted_wrt (\<lambda>x y. v_prio ?v x \<le> v_prio ?v y) (v_ready v)"
    by (rule sorted_wrt_mono_rel [of _ "\<lambda>x y. v_prio v x \<le> v_prio v y"]) (use R assms(2) in \<open>auto simp: K_ready_def\<close>)
  then show ?thesis using R by (simp add: kinv_knr K_ready_def)
qed

end
