(* ===== verification/Sync_Moves.thy ===== *)
theory Sync_Moves
  imports Kernel_Moves
begin

text \<open>
  The changes of the view that create and delete semaphores, locks and condition variables, take and
  release locks, and block the running thread; each keeps the invariant of Kernel_Inv.
\<close>

section \<open>New objects\<close>

lemma new_sem_ok:
  assumes "kinv \<delta> v"
  shows "kinv \<delta> (v\<lparr>v_sems := (v_sems v)(v_brk v \<mapsto> \<lparr>sem_value = n, sem_queue = []\<rparr>), v_brk := v_brk v + 1\<rparr>)"
proof -
  let ?x = "\<lparr>sem_value = n, sem_queue = []\<rparr>"
  let ?v = "v\<lparr>v_sems := (v_sems v)(v_brk v \<mapsto> ?x), v_brk := v_brk v + 1\<rparr>"
  note K = assms(1) [unfolded kinv_def]
  note F = fresh [of v]
  have al: "alive ?v = alive v" by (simp add: alive_def)
  have ls: "lock_sems ?v = lock_sems v" by (simp add: lock_sems_def)
  have fin: "finite (alive v)" using K by (simp add: alive_finite)
  have "K_ready ?v" using K by (simp add: K_ready_def)
  moreover have "K_queue ?v"
  proof -
    have "\<exists>s x. v_sems ?v s = Some x \<and> t \<in> set (sem_queue x)" if t: "v_stat v t = Some BLOCKED" for t
    proof -
      obtain s x where sx: "v_sems v s = Some x" "t \<in> set (sem_queue x)" using K t unfolding K_queue_def by blast
      then have "s \<noteq> v_brk v" using F(2) K by auto
      then show ?thesis using sx by (intro exI [of _ s] exI [of _ x]) simp
    qed
    then show ?thesis using K unfolding K_queue_def by (simp split: if_splits)
  qed
  moreover have "K_stack ?v" using K by (simp add: K_stack_def)
  moreover have "K_lock \<delta> ?v"
  proof (rule K_lock_cong [of _ v], unfold al)
    show "v_sems ?v (lock_semaphore x) = v_sems v (lock_semaphore x)" if "v_locks v l = Some x" for l x
    proof -
      have "lock_semaphore x \<noteq> v_brk v" using K_boundD(4) [of v l x] K that by simp
      then show ?thesis by simp
    qed
  qed (use K fin in simp_all)
  moreover have "K_wake ?v" using K unfolding K_wake_def retrying_def by auto
  moreover have "K_waiter ?v" using K unfolding K_waiter_def ls by simp
  moreover have "K_bound ?v" by (rule K_bound_step [of v]) (use K in \<open>auto split: if_splits\<close>)
  ultimately show ?thesis unfolding kinv_def by simp
qed

lemma conds_ok:
  assumes "kinv \<delta> v" "\<And>w. w \<in> set q \<Longrightarrow> w < v_brk v \<and> w \<notin> lock_sems v" "v_brk v \<le> b"
  shows "kinv \<delta> (v\<lparr>v_conds := (v_conds v)(c \<mapsto> q), v_brk := b\<rparr>)"
proof -
  let ?v = "v\<lparr>v_conds := (v_conds v)(c \<mapsto> q), v_brk := b\<rparr>"
  note K = assms(1) [unfolded kinv_def]
  have "K_ready ?v" "K_queue ?v" "K_stack ?v" "K_lock \<delta> ?v" "K_wake ?v" "K_waiter ?v"
    using K by (simp_all add: K_ready_def K_queue_def K_stack_def K_lock_def token_sum_def alive_def K_wake_def retrying_def
        K_waiter_def lock_sems_def)
  moreover have "K_bound ?v"
  proof (rule K_bound_step [of v])
    have ls: "lock_sems ?v = lock_sems v" by (simp add: lock_sems_def)
    show "(\<exists>c q. v_conds v c = Some q \<and> u \<in> set q) \<or> u < v_brk ?v \<and> u \<notin> lock_sems ?v"
      if "v_conds ?v d = Some r" "u \<in> set r" for d r u
    proof (cases "d = c")
      case True
      then show ?thesis using that assms(2) [of u] assms(3) unfolding ls by simp
    next
      case False
      then show ?thesis using that by auto
    qed
  qed (use K assms(3) in auto)
  ultimately show ?thesis unfolding kinv_def by simp
qed

lemma weight_absent: "s \<notin> refs f \<Longrightarrow> l \<notin> refs f \<Longrightarrow> weight l s f = 0"
  by (cases f) auto

lemma tok_absent:
  assumes "\<And>f. f \<in> set fs \<Longrightarrow> s \<notin> refs f \<and> l \<notin> refs f"
  shows "tok l s fs = 0" "solvent l s fs"
proof -
  show "tok l s fs = 0" using assms by (induction fs) (simp_all add: weight_absent)
  show "solvent l s fs" using assms
  proof (induction fs)
    case (Cons f fs)
    have "tok l s gs = 0" if "\<And>f. f \<in> set gs \<Longrightarrow> s \<notin> refs f \<and> l \<notin> refs f" for gs :: "'a frame list"
      using that by (induction gs) (simp_all add: weight_absent)
    from this [of "f # fs"] Cons.prems have "tok l s (f # fs) = 0" by blast
    then show ?case using Cons by simp
  qed simp
qed

lemma lock_sems_ran: "lock_sems v = lock_semaphore ` ran (v_locks v)"
  by (auto simp: lock_sems_def ran_def)

lemma new_lock_ok:
  assumes "kinv (\<lambda>_. 0) v"
  shows "kinv (\<lambda>_. 0) (v\<lparr>v_sems := (v_sems v)(v_brk v \<mapsto> \<lparr>sem_value = 1, sem_queue = []\<rparr>),
    v_locks := (v_locks v)(v_brk v + 1 \<mapsto> \<lparr>lock_semaphore = v_brk v, lock_holder = None\<rparr>), v_brk := v_brk v + 2\<rparr>)"
proof -
  let ?w = "v\<lparr>v_sems := (v_sems v)(v_brk v \<mapsto> \<lparr>sem_value = 1, sem_queue = []\<rparr>), v_brk := v_brk v + 1\<rparr>"
  let ?x = "\<lparr>lock_semaphore = v_brk v, lock_holder = None\<rparr>"
  let ?v = "?w\<lparr>v_locks := (v_locks v)(v_brk v + 1 \<mapsto> ?x), v_brk := v_brk v + 2\<rparr>"
  note K = assms(1) [unfolded kinv_def]
  note W = new_sem_ok [OF assms(1), of 1, unfolded kinv_def]
  note F = fresh [of v]
  note D = K_boundD [of v]
  have ls: "lock_sems ?v = insert (v_brk v) (lock_sems v)"
  proof -
    have "v_locks v (v_brk v + 1) = None"
    proof (rule ccontr)
      assume "v_locks v (v_brk v + 1) \<noteq> None"
      then obtain y where "v_locks v (v_brk v + 1) = Some y" by blast
      then show False using D(3) [of "v_brk v + 1" y] K by simp
    qed
    then show ?thesis by (simp add: lock_sems_ran)
  qed
  have "K_ready ?v" "K_queue ?v" "K_stack ?v" "K_wake ?v"
    using W by (simp_all add: K_ready_def K_queue_def K_stack_def K_wake_def retrying_def)
  moreover have "K_lock (\<lambda>_. 0) ?v"
  proof -
    have abs: "tok (v_brk v + 1) (v_brk v) (v_frames v t) = 0 \<and> solvent (v_brk v + 1) (v_brk v) (v_frames v t)" for t
    proof -
      have "v_brk v \<notin> refs f \<and> v_brk v + 1 \<notin> refs f" if "f \<in> set (v_frames v t)" for f
        using D(8) [of f t "v_brk v"] D(8) [of f t "v_brk v + 1"] K that by auto
      then show ?thesis using tok_absent [of "v_frames v t" "v_brk v" "v_brk v + 1"] by blast
    qed
    have "v_sems ?w = v_sems ?v" "token_sum l x ?v = token_sum l x ?w" for l x
      by (simp_all add: token_sum_def alive_def)
    then show ?thesis using W abs unfolding K_lock_def by (auto simp: token_sum_def)
  qed
  moreover have "K_waiter ?v"
  proof -
    have "F_DeleteSemaphore (v_brk v) \<notin> set (v_frames v t)" for t using F(8) [of "F_DeleteSemaphore (v_brk v)" t] K by auto
    then show ?thesis using K unfolding K_waiter_def ls by auto
  qed
  moreover have "K_bound ?v"
  proof (rule K_boundI, unfold ls)
    have slt: "lock_semaphore y \<noteq> v_brk v" if "v_locks v l = Some y" for l y using D(4) [of l y] K that by simp
    show "t < v_brk ?v" if "v_stat ?v t \<noteq> None" for t using D(1) [of t] K that by simp
    show "s < v_brk ?v" if "v_sems ?v s \<noteq> None" for s using D(2) [of s] K that by (simp split: if_splits)
    show "l < v_brk ?v" if "v_locks ?v l = Some x" for l x using D(3) [of l x] K that by (simp split: if_splits)
    show "lock_semaphore x < v_brk ?v" if "v_locks ?v l = Some x" for l x using D(4) [of l x] K that by (auto split: if_splits)
    show "l = l'" if "v_locks ?v l = Some x" "v_locks ?v l' = Some x'" "lock_semaphore x = lock_semaphore x'" for l x l' x'
    proof (cases "l = v_brk v + 1 \<or> l' = v_brk v + 1")
      case True
      have "l = v_brk v + 1 \<Longrightarrow> lock_semaphore x = v_brk v" "l \<noteq> v_brk v + 1 \<Longrightarrow> v_locks v l = Some x"
        "l' = v_brk v + 1 \<Longrightarrow> lock_semaphore x' = v_brk v" "l' \<noteq> v_brk v + 1 \<Longrightarrow> v_locks v l' = Some x'"
        using that(1,2) by auto
      then show ?thesis using True that(3) slt by metis
    next
      case False
      then show ?thesis using D(5) [of l x l' x'] K that by simp
    qed
    show "u < v_brk ?v" if "v_conds ?v c = Some q" "u \<in> set q" for c q u using D(6) [of c q u] K that by simp
    show "u \<notin> insert (v_brk v) (lock_sems v)" if "v_conds ?v c = Some q" "u \<in> set q" for c q u
      using D(6) [of c q u] D(7) [of c q u] K that by simp
    show "n < v_brk ?v" if "f \<in> set (v_frames ?v t)" "n \<in> refs f" for t f n using D(8) [of f t n] K that by simp
    show "s < v_brk ?v" if "s \<in> v_dev ?v" for s using D(9) [of s] K that by simp
    show "s \<notin> insert (v_brk v) (lock_sems v)" if "s \<in> v_dev ?v" for s using D(9) [of s] D(10) [of s] K that by simp
  qed
  ultimately show ?thesis unfolding kinv_def by simp
qed

section \<open>Holders\<close>

abbreviation held :: "nat option \<Rightarrow> int" where
  "held h \<equiv> if h = None then 0 else 1"

lemma holder_ok:
  assumes "kinv \<delta> v" "v_locks v l = Some x" "\<And>l'. l' \<noteq> l \<Longrightarrow> \<delta>' l' = \<delta> l'" "\<delta>' l = \<delta> l + held (lock_holder x) - held h"
  shows "kinv \<delta>' (v\<lparr>v_locks := (v_locks v)(l \<mapsto> x\<lparr>lock_holder := h\<rparr>)\<rparr>)"
proof -
  let ?v = "v\<lparr>v_locks := (v_locks v)(l \<mapsto> x\<lparr>lock_holder := h\<rparr>)\<rparr>"
  note K = assms(1) [unfolded kinv_def]
  have old: "\<exists>z. v_locks v l' = Some z \<and> lock_semaphore z = lock_semaphore y" if "v_locks ?v l' = Some y" for l' y
    using that assms(2) by (auto split: if_splits)
  have new: "\<exists>z. v_locks ?v l' = Some z \<and> lock_semaphore z = lock_semaphore y" if "v_locks v l' = Some y" for l' y
    using that assms(2) by (cases "l' = l") simp_all
  have ls: "lock_sems ?v = lock_sems v"
  proof (intro equalityI subsetI)
    show "s \<in> lock_sems v" if s: "s \<in> lock_sems ?v" for s
    proof -
      obtain l' y where "v_locks ?v l' = Some y" "lock_semaphore y = s" using s unfolding lock_sems_def by blast
      then show ?thesis using old [of l' y] unfolding lock_sems_def by blast
    qed
    show "s \<in> lock_sems ?v" if s: "s \<in> lock_sems v" for s
    proof -
      obtain l' y where "v_locks v l' = Some y" "lock_semaphore y = s" using s unfolding lock_sems_def by blast
      then show ?thesis using new [of l' y] unfolding lock_sems_def by blast
    qed
  qed
  have "K_ready ?v" "K_queue ?v" "K_stack ?v" "K_wake ?v"
    using K by (simp_all add: K_ready_def K_queue_def K_stack_def K_wake_def retrying_def)
  moreover have "K_waiter ?v" using K unfolding K_waiter_def ls by simp
  moreover have "K_lock \<delta>' ?v"
    unfolding K_lock_def
  proof (intro allI impI)
    fix l' y
    assume y: "v_locks ?v l' = Some y"
    have al: "alive ?v = alive v" by (simp add: alive_def)
    show "(\<exists>z. v_sems ?v (lock_semaphore y) = Some z \<and> 0 \<le> sem_value z) \<and> (\<forall>t. solvent l' (lock_semaphore y) (v_frames ?v t))
      \<and> token_sum l' y ?v + \<delta>' l' = 1"
    proof (cases "l' = l")
      case True
      then have "y = x\<lparr>lock_holder := h\<rparr>" using y by simp
      moreover have "(\<exists>z. v_sems v (lock_semaphore x) = Some z \<and> 0 \<le> sem_value z) \<and> (\<forall>t. solvent l (lock_semaphore x) (v_frames v t))
        \<and> token_sum l x v + \<delta> l = 1" using K assms(2) unfolding K_lock_def by blast
      ultimately show ?thesis using assms(4) True unfolding token_sum_def al by simp
    next
      case False
      then have "v_locks v l' = Some y" using y by simp
      then show ?thesis using K assms(3) [OF False] unfolding K_lock_def token_sum_def al by simp
    qed
  qed
  moreover have "K_bound ?v"
  proof (rule K_boundI, unfold ls)
    note D = K_boundD [of v]
    show "l' < v_brk ?v" if l: "v_locks ?v l' = Some y" for l' y
    proof -
      obtain z where "v_locks v l' = Some z" using old [OF l] by blast
      then show ?thesis using D(3) [of l' z] K by simp
    qed
    show "lock_semaphore y < v_brk ?v" if l: "v_locks ?v l' = Some y" for l' y
    proof -
      obtain z where "v_locks v l' = Some z" "lock_semaphore z = lock_semaphore y" using old [OF l] by blast
      then show ?thesis using D(4) [of l' z] K by simp
    qed
    show "a = b" if ab: "v_locks ?v a = Some y" "v_locks ?v b = Some z" "lock_semaphore y = lock_semaphore z" for a y b z
    proof -
      obtain y' where "v_locks v a = Some y'" "lock_semaphore y' = lock_semaphore y" using old [OF ab(1)] by blast
      moreover obtain z' where "v_locks v b = Some z'" "lock_semaphore z' = lock_semaphore z" using old [OF ab(2)] by blast
      ultimately show ?thesis using D(5) [of a y' b z'] K ab(3) by simp
    qed
    show "s < v_brk ?v" if "v_sems ?v s \<noteq> None" for s using D(2) [of s] K that by simp
    show "t < v_brk ?v" if "v_stat ?v t \<noteq> None" for t using D(1) [of t] K that by simp
    show "u < v_brk ?v" if "v_conds ?v c = Some q" "u \<in> set q" for c q u using D(6) [of c q u] K that by simp
    show "u \<notin> lock_sems v" if "v_conds ?v c = Some q" "u \<in> set q" for c q u using D(7) [of c q u] K that by simp
    show "n < v_brk ?v" if "f \<in> set (v_frames ?v t)" "n \<in> refs f" for t f n using D(8) [of f t n] K that by simp
    show "s < v_brk ?v" if "s \<in> v_dev ?v" for s using D(9) [of s] K that by simp
    show "s \<notin> lock_sems v" if "s \<in> v_dev ?v" for s using D(10) [of s] K that by simp
  qed
  ultimately show ?thesis unfolding kinv_def by simp
qed

section \<open>Deleting a semaphore\<close>

lemma delete_ok:
  assumes "kinv \<delta> v" "s \<notin> lock_sems v" "\<And>t. \<not> uses s (v_frames v t)"
  shows "kinv \<delta> (v\<lparr>v_sems := (v_sems v)(s := None)\<rparr>)"
proof -
  let ?v = "v\<lparr>v_sems := (v_sems v)(s := None)\<rparr>"
  note K = assms(1) [unfolded kinv_def]
  have ls: "lock_sems ?v = lock_sems v" by (simp add: lock_sems_def)
  have al: "alive ?v = alive v" by (simp add: alive_def)
  have fin: "finite (alive v)" using K by (simp add: alive_finite)
  have "K_ready ?v" "K_stack ?v" using K by (simp_all add: K_ready_def K_stack_def)
  moreover have "K_queue ?v"
  proof -
    have "\<exists>r x. v_sems ?v r = Some x \<and> t \<in> set (sem_queue x)" if t: "v_stat v t = Some BLOCKED" for t
    proof -
      obtain r x where rx: "v_sems v r = Some x" "t \<in> set (sem_queue x)" using K t unfolding K_queue_def by blast
      have "waits_on (v_frames v t) r" using K_queueD(3) [of v r x t] K rx by simp
      then have "uses r (v_frames v t)" using waits_on_loop unfolding uses_def by blast
      then have "r \<noteq> s" using assms(3) by blast
      then show ?thesis using rx by (intro exI [of _ r] exI [of _ x]) simp
    qed
    then show ?thesis using K unfolding K_queue_def by (simp split: if_splits)
  qed
  moreover have "K_lock \<delta> ?v"
  proof (rule K_lock_cong [of _ v], unfold al)
    show "v_sems ?v (lock_semaphore x) = v_sems v (lock_semaphore x)" if "v_locks v l = Some x" for l x
    proof -
      have "lock_semaphore x \<noteq> s" using assms(2) that unfolding lock_sems_def by blast
      then show ?thesis by simp
    qed
  qed (use K fin in simp_all)
  moreover have "K_wake ?v" using K unfolding K_wake_def retrying_def by simp
  moreover have "K_waiter ?v" using K unfolding K_waiter_def ls by simp
  moreover have "K_bound ?v" by (rule K_bound_step [of v]) (use K in \<open>auto split: if_splits\<close>)
  ultimately show ?thesis unfolding kinv_def by simp
qed

section \<open>Falling asleep\<close>

text \<open>A thread that is not running calls \<open>Sleep\<close>.\<close>

lemma sleep_again_ok:
  assumes "kinv \<delta> v" "b \<Longrightarrow> v_stat v (v_cur v) = Some ZOMMBIE \<and> v_frames v (v_cur v) = []"
    and "\<not> b \<Longrightarrow> v_stat v (v_cur v) \<noteq> Some ZOMMBIE \<and> blocked (v_frames v (v_cur v))"
  shows "kinv \<delta> (with_frames v (F_Sleep b # v_frames v (v_cur v)))"
proof -
  note K = assms(1) [unfolded kinv_def]
  let ?fs = "F_Sleep b # v_frames v (v_cur v)"
  have cur: "v_cur v \<in> alive v" using K_stackD(7) [of v] K by (simp add: alive_def)
  have "K_ready (with_frames v ?fs)" using K by (simp add: K_ready_def)
  moreover have "K_queue (with_frames v ?fs)"
  proof (rule K_queue_frames)
    show "waits_on ?fs s" if q: "v_sems v s = Some x" "v_cur v \<in> set (sem_queue x)" for s x
    proof (cases b)
      case True
      then show ?thesis using K_queueD(2) [of v s x "v_cur v"] K q assms(2) by simp
    next
      case False
      have "waits_on (v_frames v (v_cur v)) s" using K_queueD(3) [of v s x "v_cur v"] K q by simp
      then show ?thesis using assms(3) [OF False] False by (auto simp: waits_on_def blocked_iff)
    qed
  qed (use K in simp)
  moreover have "K_stack (with_frames v ?fs)"
  proof (rule K_stack_frames)
    show "shape ?fs" using assms(2,3) by (cases b) simp_all
    show "?fs \<in> {[], [F_Sleep True], [F_Switched]}" if "v_stat v (v_cur v) = Some ZOMMBIE"
      using assms(2,3) that by (cases b) simp_all
  qed (use K in simp)
  moreover have "K_lock \<delta> (with_frames v ?fs)"
  proof (rule K_lock_frames [of \<delta>])
    show "solvent l (lock_semaphore x) ?fs \<and> \<delta> l = \<delta> l + tok l (lock_semaphore x) (v_frames v (v_cur v)) - tok l (lock_semaphore x) ?fs"
      if "v_locks v l = Some x" for l x
    proof -
      have "solvent l (lock_semaphore x) (v_frames v (v_cur v))" using K that by (simp add: K_lock_def)
      then show ?thesis using solvent_tok by simp
    qed
  qed (use K cur in simp_all)
  moreover have "K_wake (with_frames v ?fs)" by (rule K_wake_frames) (use K cur in simp_all)
  moreover have "K_waiter (with_frames v ?fs)"
  proof (rule K_waiter_frames)
    show "ordered s ?fs" if "F_DeleteSemaphore s \<in> set ?fs" for s using K that by (auto simp: K_waiter_def)
  qed (use K in auto)
  moreover have "K_bound (with_frames v ?fs)"
    by (rule K_bound_frames) (use K in \<open>auto simp: K_bound_def\<close>)
  ultimately show ?thesis by (simp add: kinv_def)
qed

lemma finish_ok:
  assumes "kinv \<delta> v" "v_stat v (v_cur v) = Some RUNNING" "v_frames v (v_cur v) = []"
  shows "kinv \<delta> (with_frames (v\<lparr>v_stat := (v_stat v)(v_cur v \<mapsto> ZOMMBIE)\<rparr>) [F_Sleep True])"
proof -
  let ?w = "v\<lparr>v_stat := (v_stat v)(v_cur v \<mapsto> ZOMMBIE)\<rparr>"
  have R: "K_ready v" "knr \<delta> v" using assms(1) by (simp_all add: kinv_knr)
  have "knr \<delta> ?w" by (rule knr_stat [OF R(2)]) (use assms(2,3) in simp_all)
  moreover have "K_ready ?w"
  proof -
    have "v_cur v \<notin> set (v_ready v)" using R(1) assms(2) unfolding K_ready_def by simp
    then show ?thesis using R(1) assms(2) by (auto simp: K_ready_def)
  qed
  ultimately have "kinv \<delta> ?w" by (simp add: kinv_knr)
  from sleep_again_ok [OF this, of True] assms(3) show ?thesis by simp
qed

section \<open>P\<close>

lemma take_ok:
  assumes "kinv \<delta> v" "v_frames v (v_cur v) = F_P_loop s # fs" "v_sems v s = Some x" "sem_value x \<noteq> 0"
    and "v_stat v (v_cur v) = Some RUNNING"
  shows "kinv \<delta> (v\<lparr>v_frames := (v_frames v)(v_cur v := fs), v_sems := (v_sems v)(s \<mapsto> x\<lparr>sem_value := sem_value x - 1\<rparr>)\<rparr>)"
proof -
  note K = assms(1) [unfolded kinv_def]
  let ?y = "x\<lparr>sem_value := sem_value x - 1\<rparr>"
  let ?w = "with_frames v fs"
  let ?v = "?w\<lparr>v_sems := (v_sems v)(s \<mapsto> ?y)\<rparr>"
  have deepfs: "list_all deep fs" using K_stackD(1) [of v "v_cur v"] K assms(2) by (simp add: shape_iff)
  have nq: "v_cur v \<notin> set (sem_queue y)" if "v_sems v r = Some y" for r y
    using K_queueD(2) [of v r y "v_cur v"] K that assms(5) by auto
  have cur: "v_cur v \<in> alive v" using assms(5) by (simp add: alive_def)
  have fin: "finite (alive v)" using K by (simp add: alive_finite)
  have "K_ready ?v" using K by (simp add: K_ready_def)
  moreover have "K_queue ?w" by (rule K_queue_frames) (use K nq in auto)
  then have "K_queue ?v" by (rule K_queue_cong) (use assms(3) in simp_all)
  moreover have "K_stack ?w" by (rule K_stack_frames) (use K assms(5) deepfs in \<open>simp_all add: shape_iff\<close>)
  then have "K_stack ?v" by (simp add: K_stack_def)
  moreover have "K_lock \<delta> ?v"
    unfolding K_lock_def
  proof (intro allI impI)
    fix l z
    assume "v_locks ?v l = Some z"
    then have z: "v_locks v l = Some z" by simp
    have old: "(\<exists>y. v_sems v (lock_semaphore z) = Some y \<and> 0 \<le> sem_value y) \<and> (\<forall>t. solvent l (lock_semaphore z) (v_frames v t))
      \<and> token_sum l z v + \<delta> l = 1" using K z unfolding K_lock_def by blast
    have al: "alive ?v = alive v" by (simp add: alive_def)
    have sum: "(\<Sum>t\<in>alive v. tok l (lock_semaphore z) (((v_frames v)(v_cur v := fs)) t))
      = (\<Sum>t\<in>alive v. tok l (lock_semaphore z) (v_frames v t)) + (if s = lock_semaphore z then 1 else 0)"
      using sum_upd [OF fin cur, of "tok l (lock_semaphore z)" "v_frames v" fs] assms(2) by simp
    have "solvent l (lock_semaphore z) (v_frames v (v_cur v))" using old by blast
    then have sol: "solvent l (lock_semaphore z) fs" using assms(2) by simp
    show "(\<exists>y. v_sems ?v (lock_semaphore z) = Some y \<and> 0 \<le> sem_value y) \<and> (\<forall>t. solvent l (lock_semaphore z) (v_frames ?v t))
      \<and> token_sum l z ?v + \<delta> l = 1"
      using old sol sum assms(3,4) unfolding token_sum_def al by auto
  qed
  moreover have "K_wake ?v"
    unfolding K_wake_def
  proof (intro allI impI)
    fix r y
    assume y: "v_sems ?v r = Some y \<and> sem_queue y \<noteq> []"
    have pl: "F_P_loop r' \<in> set (v_frames ?v t) \<longleftrightarrow> F_P_loop r' \<in> set (v_frames v t) \<and> \<not> (t = v_cur v \<and> r' = s)" for r' t
      using assms(2) deep_not(1) [OF deepfs] by auto
    show "sem_value y \<le> int (card (retrying r y ?v))"
    proof (cases "r = s")
      case True
      then have y': "y = ?y" using y by simp
      have r: "retrying r y ?v = retrying s x v - {v_cur v}" unfolding retrying_def pl True y' by auto
      have "v_cur v \<in> retrying s x v" using assms(2) nq [OF assms(3)] by (simp add: retrying_def)
      moreover have "finite (retrying s x v)" using K by (intro retrying_finite) simp_all
      ultimately have "int (card (retrying r y ?v)) = int (card (retrying s x v)) - 1"
        unfolding r by (metis card_Suc_Diff1 diff_Suc_1 of_nat_Suc add_diff_cancel_left')
      moreover have "sem_value x \<le> int (card (retrying s x v))" using K assms(3) y y' by (simp add: K_wake_def)
      ultimately show ?thesis unfolding y' by simp
    next
      case False
      then have yv: "v_sems v r = Some y" using y by simp
      have "retrying r y ?v = retrying r y v" unfolding retrying_def pl using False by simp
      then show ?thesis using K yv y by (simp add: K_wake_def)
    qed
  qed
  moreover have "K_waiter ?w"
  proof (rule K_waiter_frames)
    show "ordered r fs" if "F_DeleteSemaphore r \<in> set fs" for r
    proof -
      have "ordered r (v_frames v (v_cur v))" using K that assms(2) unfolding K_waiter_def by (metis list.set_intros(2))
      then show ?thesis using assms(2) by simp
    qed
  qed (use K assms(2) in auto)
  then have "K_waiter ?v" by (simp add: K_waiter_def lock_sems_def)
  moreover have "K_bound ?v" by (rule K_bound_step [of v]) (use K assms(2,3) in \<open>auto split: if_splits\<close>)
  ultimately show ?thesis by (simp add: kinv_def)
qed

lemma block_ok:
  assumes "kinv \<delta> v" "v_frames v (v_cur v) = F_P_loop s # fs" "v_sems v s = Some x" "sem_value x = 0"
    and "v_stat v (v_cur v) = Some RUNNING"
  shows "kinv \<delta> (v\<lparr>v_sems := (v_sems v)(s \<mapsto> x\<lparr>sem_queue := sem_queue x @ [v_cur v]\<rparr>), v_stat := (v_stat v)(v_cur v \<mapsto> BLOCKED),
    v_frames := (v_frames v)(v_cur v := F_Sleep False # F_P_loop s # fs)\<rparr>)"
proof -
  note K = assms(1) [unfolded kinv_def]
  let ?y = "x\<lparr>sem_queue := sem_queue x @ [v_cur v]\<rparr>"
  let ?v = "v\<lparr>v_sems := (v_sems v)(s \<mapsto> ?y), v_stat := (v_stat v)(v_cur v \<mapsto> BLOCKED)\<rparr>"
  have deepfs: "list_all deep fs" using K_stackD(1) [of v "v_cur v"] K assms(2) by (simp add: shape_iff)
  have nq: "v_cur v \<notin> set (sem_queue y)" if "v_sems v r = Some y" for r y
    using K_queueD(2) [of v r y "v_cur v"] K that assms(5) by auto
  have al: "alive ?v = alive v" using assms(5) by (auto simp: alive_def)
  have fin: "finite (alive v)" using K by (simp add: alive_finite)
  have ls: "lock_sems ?v = lock_sems v" by (simp add: lock_sems_def)
  have "v_cur v \<notin> set (v_ready v)" using K assms(5) unfolding K_ready_def by simp
  then have "K_ready ?v" using K assms(5) by (auto simp: K_ready_def)
  moreover have "K_queue ?v"
    unfolding K_queue_def
  proof (intro conjI allI impI)
    fix r y
    assume y: "v_sems ?v r = Some y"
    have "distinct (sem_queue y) \<and> (\<forall>t \<in> set (sem_queue y). v_stat ?v t = Some BLOCKED \<and> waits_on (v_frames v t) r)"
    proof (cases "r = s")
      case True
      then have "y = ?y" using y by simp
      moreover have "waits_on (v_frames v (v_cur v)) s" using assms(2) by (simp add: waits_on_def)
      moreover note K_queueD [of v s x] K assms(3) nq [OF assms(3)]
      ultimately show ?thesis using True by auto
    next
      case False
      then have "v_sems v r = Some y" using y by simp
      then show ?thesis using K_queueD [of v r y] K by auto
    qed
    then show "distinct (sem_queue y)" "\<forall>t \<in> set (sem_queue y). v_stat ?v t = Some BLOCKED \<and> waits_on (v_frames ?v t) r" by simp_all
  next
    fix t
    assume t: "v_stat ?v t = Some BLOCKED"
    show "\<exists>r y. v_sems ?v r = Some y \<and> t \<in> set (sem_queue y)"
    proof (cases "t = v_cur v")
      case True
      then show ?thesis by (intro exI [of _ s] exI [of _ ?y]) simp
    next
      case False
      then have "v_stat v t = Some BLOCKED" using t by simp
      then obtain r y where ry: "v_sems v r = Some y" "t \<in> set (sem_queue y)" using K unfolding K_queue_def by blast
      show ?thesis
      proof (cases "r = s")
        case True
        then show ?thesis using ry assms(3) by (intro exI [of _ s] exI [of _ ?y]) simp
      next
        case False
        then show ?thesis using ry by (intro exI [of _ r] exI [of _ y]) simp
      qed
    qed
  qed
  moreover have "K_stack ?v"
  proof (rule K_stackI)
    note S = K_stackD [of v]
    show "shape (v_frames ?v u)" for u using S(1) K by simp
    show "v_frames ?v u = []" if "v_stat ?v u = None \<or> v_stat ?v u = Some JUST_CREATED" for u
      using S(2) [of u] K that by (simp split: if_splits)
    show "v_frames ?v u \<in> {[], [F_Sleep True], [F_Switched]}" if "v_stat ?v u = Some ZOMMBIE" for u
      using S(3) [of u] K that by (simp split: if_splits)
    show "F_Sleep b \<notin> set (v_frames ?v u)" if "u \<noteq> v_cur ?v" for u b using S(4) K that by simp
    show "u = v_cur ?v" if "v_stat ?v u = Some RUNNING" for u using S(5) [of u] K that by (simp split: if_splits)
    show "v_stat ?v u = Some ZOMMBIE" if "v_doomed ?v = Some u" for u
    proof -
      have "v_stat v u = Some ZOMMBIE" using S(6) [of u] K that by simp
      then show ?thesis using assms(5) by auto
    qed
  qed simp_all
  moreover have "K_lock \<delta> ?v"
  proof -
    have "token_sum l z ?v = token_sum l z v" for l z using assms(3) by (simp add: token_sum_def al)
    then show ?thesis using K assms(3,4) unfolding K_lock_def by auto
  qed
  moreover have "K_wake ?v"
    unfolding K_wake_def
  proof (intro allI impI)
    fix r y
    assume y: "v_sems ?v r = Some y \<and> sem_queue y \<noteq> []"
    show "sem_value y \<le> int (card (retrying r y ?v))"
    proof (cases "r = s")
      case True
      then have "y = ?y" using y by simp
      then show ?thesis using assms(4) by simp
    next
      case False
      then have yv: "v_sems v r = Some y" using y by simp
      have "retrying r y ?v = retrying r y v" by (simp add: retrying_def)
      then show ?thesis using K yv y by (simp add: K_wake_def)
    qed
  qed
  moreover have "K_waiter ?v" using K unfolding K_waiter_def ls by simp
  moreover have "K_bound ?v" by (rule K_bound_step [of v]) (use K assms(3,5) in \<open>auto split: if_splits\<close>)
  ultimately have "kinv \<delta> ?v" by (simp add: kinv_def)
  from sleep_again_ok [OF this, of False] assms(2) deepfs show ?thesis by simp
qed

end
