(* ===== verification/Kernel_Step.thy ===== *)
theory Kernel_Step
  imports Sync_Moves
begin

text \<open>
  Every step of the kernel keeps the invariant of Kernel_Inv. \<open>good v v'\<close> is what one frame of a
  thread's stack guarantees: the invariant afterwards, the status of the running thread that fits
  the frame on top of its stack, and that only the running thread takes or gives up locks.

  The device drivers are the parameters of the locale \<open>drivers\<close>: an interrupt handler may call
  \<open>V\<close> on semaphores of the drivers, and a driver's operation may make calls of the public
  interface, \<open>P\<close> and \<open>V\<close> on the drivers' semaphores among them. Theory Devices interprets it.
\<close>

section \<open>What a step guarantees\<close>

definition cur_ok :: "'a kview \<Rightarrow> bool" where
  "cur_ok v \<longleftrightarrow> (case v_frames v (v_cur v) of
       F_Sleep b # r \<Rightarrow> if b then v_stat v (v_cur v) = Some ZOMMBIE \<and> r = []
                        else v_stat v (v_cur v) \<in> {Some BLOCKED, Some READY}
     | _ \<Rightarrow> v_stat v (v_cur v) = Some RUNNING)"

lemma cur_ok_running: "v_stat v (v_cur v) = Some RUNNING \<Longrightarrow> (\<And>b r. v_frames v (v_cur v) \<noteq> F_Sleep b # r) \<Longrightarrow> cur_ok v"
  by (auto simp: cur_ok_def split: list.split frame.split)

lemma cur_ok_cong: "v_cur w = v_cur v \<Longrightarrow> v_stat w = v_stat v \<Longrightarrow> v_frames w = v_frames v \<Longrightarrow> cur_ok w = cur_ok v"
  by (simp only: cur_ok_def)

lemma deep_no_sleep: "list_all deep fs \<Longrightarrow> fs \<noteq> F_Sleep b # r"
  by auto

lemma cur_ok_deep: "v_stat v (v_cur v) = Some RUNNING \<Longrightarrow> list_all deep (v_frames v (v_cur v)) \<Longrightarrow> cur_ok v"
  by (rule cur_ok_running) (auto simp: deep_no_sleep)

definition holders_kept :: "'a kview \<Rightarrow> 'a kview \<Rightarrow> bool" where
  "holders_kept v v' \<longleftrightarrow> (\<forall>l x. v_locks v l = Some x \<longrightarrow> (\<exists>x'. v_locks v' l = Some x' \<and> lock_semaphore x' = lock_semaphore x
     \<and> (lock_holder x' = lock_holder x \<or> lock_holder x = None \<and> lock_holder x' = Some (v_cur v)
        \<or> lock_holder x = Some (v_cur v) \<and> lock_holder x' = None)))"

definition good :: "'a kview \<Rightarrow> 'a kview \<Rightarrow> bool" where
  "good v v' \<longleftrightarrow> kinv (\<lambda>_. 0) v' \<and> cur_ok v' \<and> holders_kept v v'"

lemma same_holders: "v_locks v' = v_locks v \<Longrightarrow> holders_kept v v'"
  by (simp add: holders_kept_def)

lemma good_from: "good u v' \<Longrightarrow> v_locks u = v_locks v \<Longrightarrow> v_cur u = v_cur v \<Longrightarrow> good v v'"
  by (simp add: good_def holders_kept_def)

lemma plain_push_good:
  assumes "kinv (\<lambda>_. 0) v" "v_stat v (v_cur v) = Some RUNNING" "list_all deep (v_frames v (v_cur v))" "list_all plain new"
  shows "good v (with_frames v (new @ v_frames v (v_cur v)))"
  unfolding good_def
proof (intro conjI)
  show "kinv (\<lambda>_. 0) (with_frames v (new @ v_frames v (v_cur v)))" by (rule push_plain_ok [OF assms(1,2,4,3)])
  show "cur_ok (with_frames v (new @ v_frames v (v_cur v)))"
    by (rule cur_ok_deep) (use assms(2,3) plain_list(5) [OF assms(4)] in simp_all)
qed (simp add: same_holders)

lemma same_good:
  assumes "kinv (\<lambda>_. 0) v" "v_stat v (v_cur v) = Some RUNNING" "list_all deep (v_frames v (v_cur v))"
  shows "good v v"
  using assms by (simp add: good_def cur_ok_deep same_holders)

text \<open>The synchronised lists play no part in the invariant.\<close>

lemma lists_free [simp]: "kinv \<delta> (v\<lparr>v_slists := z\<rparr>) = kinv \<delta> v" "cur_ok (v\<lparr>v_slists := z\<rparr>) = cur_ok v"
proof -
  show "kinv \<delta> (v\<lparr>v_slists := z\<rparr>) = kinv \<delta> v"
    by (simp add: kinv_def K_ready_def K_queue_def K_stack_def K_lock_def token_sum_def alive_def K_wake_def retrying_def
        K_waiter_def lock_sems_def K_bound_def)
  show "cur_ok (v\<lparr>v_slists := z\<rparr>) = cur_ok v" by (rule cur_ok_cong) simp_all
qed

lemma lists_good [simp]: "good (v\<lparr>v_slists := z\<rparr>) w = good v w" "good v (w\<lparr>v_slists := z\<rparr>) = good v w"
  by (simp_all add: good_def holders_kept_def)

text \<open>At most one holder: when a thread has taken the semaphore of a lock but not yet set the holder, there is none.\<close>

lemma no_holder:
  assumes "K_lock \<delta> v" "v_locks v l = Some x" "0 < \<delta> l"
  shows "lock_holder x = None"
proof (rule ccontr)
  assume h: "lock_holder x \<noteq> None"
  have old: "(\<exists>y. v_sems v (lock_semaphore x) = Some y \<and> 0 \<le> sem_value y) \<and> (\<forall>t. solvent l (lock_semaphore x) (v_frames v t))
      \<and> token_sum l x v + \<delta> l = 1" using assms(1,2) unfolding K_lock_def by blast
  have "0 \<le> (\<Sum>t\<in>alive v. tok l (lock_semaphore x) (v_frames v t))"
    by (rule sum_nonneg) (use old solvent_tok in blast)
  then show False using old h assms(3) by (auto simp: token_sum_def)
qed

section \<open>Handlers\<close>

text \<open>The effect of interrupt handlers: calls of \<open>V\<close> on semaphores of the drivers.\<close>

inductive wakes :: "'a kview \<Rightarrow> 'a kview \<Rightarrow> bool" for v where
  wakes_refl: "wakes v v"
| wakes_V: "wakes v w \<Longrightarrow> s \<in> v_dev w \<Longrightarrow> v_sems w s = Some x \<Longrightarrow> wakes v (V_view s x w)"

lemma wakes_trans: "wakes v w \<Longrightarrow> wakes u v \<Longrightarrow> wakes u w"
  by (induction rule: wakes.induct) (auto intro: wakes.intros)

lemma V_view_same:
  "v_cur (V_view s x v) = v_cur v" "v_frames (V_view s x v) = v_frames v" "v_locks (V_view s x v) = v_locks v"
  "v_dev (V_view s x v) = v_dev v"
  by (auto simp: V_view_def ready_view_def split: list.split)

lemma wakes_same:
  assumes "wakes v w"
  shows "v_cur w = v_cur v \<and> v_frames w = v_frames v \<and> v_locks w = v_locks v \<and> v_dev w = v_dev v"
  using assms by (induction rule: wakes.induct) (simp_all add: V_view_same)

lemma V_stat:
  assumes "K_queue v" "v_sems v s = Some x"
  shows "v_stat (V_view s x v) t = v_stat v t \<or> v_stat v t = Some BLOCKED \<and> v_stat (V_view s x v) t = Some READY"
proof (cases "sem_queue x")
  case Nil
  then show ?thesis by (simp add: V_view_def)
next
  case (Cons u q)
  then have "v_stat v u = Some BLOCKED" using K_queueD(2) [OF assms, of u] by simp
  then show ?thesis using Cons by (simp add: V_view_def ready_view_def)
qed

lemma wakes_ok:
  assumes "wakes v w" "kinv \<delta> v"
  shows "kinv \<delta> w \<and> (\<forall>t. v_stat w t = v_stat v t \<or> v_stat v t = Some BLOCKED \<and> v_stat w t = Some READY)"
  using assms
proof (induction rule: wakes.induct)
  case wakes_refl
  then show ?case by simp
next
  case (wakes_V w s x)
  have kw: "kinv \<delta> w" using wakes_V by simp
  have "s \<notin> lock_sems w" using kw wakes_V(2) K_boundD(10) unfolding kinv_def by blast
  then have "lock_semaphore y \<noteq> s" if "v_locks w l = Some y" for l y using that unfolding lock_sems_def by blast
  then have "kinv \<delta> (V_view s x w)" by (intro V_ok [OF kw wakes_V(3)]) auto
  moreover have "K_queue w" using kw by (simp add: kinv_def)
  moreover note wakes_V(4) [OF wakes_V(5)]
  ultimately show ?case using V_stat [OF _ wakes_V(3)] by (metis option.inject ThreadStatus.distinct)
qed

section \<open>The frames that take and release semaphores and locks\<close>

lemma token_injective:
  assumes "K_bound v" "v_locks v l = Some x" "v_locks v l' = Some y" "l' \<noteq> l"
  shows "lock_semaphore y \<noteq> lock_semaphore x"
  using K_boundD(5) [OF assms(1-3)] assms(4) by auto

lemma lock_sem_public:
  assumes "kinv \<delta> v" "v_locks v l = Some x"
  shows "F_DeleteSemaphore (lock_semaphore x) \<notin> set (v_frames v t)"
proof -
  have "lock_semaphore x \<in> lock_sems v" using assms(2) unfolding lock_sems_def by blast
  then show ?thesis using assms(1) unfolding kinv_def K_waiter_def by blast
qed

text \<open>
  The view when the frame \<open>f\<close> is executed: the thread runs, \<open>f\<close> is no longer on its stack, and the
  token it owes or holds is not accounted for.
\<close>

fun safe :: "'a kview \<Rightarrow> 'a frame \<Rightarrow> bool" where
  "safe v (F_P s) \<longleftrightarrow> s < v_brk v \<and> (\<forall>t. t \<noteq> v_cur v \<longrightarrow> F_DeleteSemaphore s \<notin> set (v_frames v t))"
| "safe v (F_DeleteSemaphore s) \<longleftrightarrow> s \<notin> lock_sems v \<and> (\<forall>t. \<not> uses s (v_frames v t))"
| "safe v (F_Fork t) \<longleftrightarrow> v_stat v t = Some JUST_CREATED"
| "safe v (F_setPriority t p) \<longleftrightarrow> t \<notin> set (v_ready v)"
| "safe v F_Finish \<longleftrightarrow> v_frames v (v_cur v) = []"
| "safe v (F_Sleep b) \<longleftrightarrow> False"
| "safe v F_Switched \<longleftrightarrow> False"
| "safe v (F_P_loop s) \<longleftrightarrow> False"
| "safe v f \<longleftrightarrow> True"

definition executing :: "'a frame \<Rightarrow> 'a kview \<Rightarrow> bool" where
  "executing f v \<longleftrightarrow> kinv (\<lambda>l. weight l (sem_of v l) f) v \<and> v_stat v (v_cur v) = Some RUNNING
     \<and> list_all deep (v_frames v (v_cur v)) \<and> safe v f
     \<and> (\<forall>l x. v_locks v l = Some x \<longrightarrow> solvent l (lock_semaphore x) (f # v_frames v (v_cur v)))"

lemma executingD:
  assumes "executing f v"
  shows "kinv (\<lambda>l. weight l (sem_of v l) f) v" "v_stat v (v_cur v) = Some RUNNING" "list_all deep (v_frames v (v_cur v))"
    "safe v f" "v_locks v l = Some x \<Longrightarrow> solvent l (lock_semaphore x) (f # v_frames v (v_cur v))"
  using assms by (simp_all add: executing_def)

lemma executing_weightless:
  assumes "executing f v" "\<And>l s. weight l s f = 0"
  shows "kinv (\<lambda>_. 0) v" "v_stat v (v_cur v) = Some RUNNING" "list_all deep (v_frames v (v_cur v))"
  using assms by (simp_all add: executing_def)

lemma kinv_weight_cong:
  assumes "kinv \<delta> v" "\<And>l x. v_locks v l = Some x \<Longrightarrow> \<delta>' l = \<delta> l"
  shows "kinv \<delta>' v"
  using assms unfolding kinv_def K_lock_def by metis

lemma P_good:
  assumes E: "executing (F_P s) v"
  shows "good v (with_frames v ([F_P_loop s, F_SetLevel lev] @ v_frames v (v_cur v)))"
  unfolding good_def
proof (intro conjI)
  note K = executingD(1) [OF E] and R = executingD(2,3) [OF E] and S = executingD(4) [OF E] and sol = executingD(5) [OF E]
  have sh: "shape ([F_P_loop s, F_SetLevel lev] @ v_frames v (v_cur v))" using R(2) by (simp add: shape_iff)
  show "kinv (\<lambda>_. 0) (with_frames v ([F_P_loop s, F_SetLevel lev] @ v_frames v (v_cur v)))"
  proof (rule push_ok [OF K R(1) sh])
    show "solvent l (lock_semaphore x) ([F_P_loop s, F_SetLevel lev] @ v_frames v (v_cur v))
      \<and> 0 = weight l (sem_of v l) (F_P s) - tok l (lock_semaphore x) [F_P_loop s, F_SetLevel lev]" if l: "v_locks v l = Some x" for l x
      using sol [OF l] l solvent_tok [of l "lock_semaphore x" "v_frames v (v_cur v)"] by simp
  qed (use S in auto)
  show "cur_ok (with_frames v ([F_P_loop s, F_SetLevel lev] @ v_frames v (v_cur v)))"
    by (rule cur_ok_running) (use R in simp_all)
qed (simp add: same_holders)

lemma V_good:
  assumes E: "executing (F_V s) v" and x: "v_sems v s = Some x"
  shows "good v (with_frames (V_view s x v) ([F_SetLevel lev] @ v_frames v (v_cur v)))"
proof -
  note K = executingD(1) [OF E] and R = executingD(2,3) [OF E]
  have "kinv (\<lambda>_. 0) (V_view s x v)"
    by (rule V_ok [OF K x]) auto
  moreover have "K_queue v" using K by (simp add: kinv_def)
  then have "v_stat (V_view s x v) (v_cur v) = Some RUNNING" using V_stat [OF _ x, of "v_cur v"] R(1) by auto
  ultimately have "good (V_view s x v) (with_frames (V_view s x v) ([F_SetLevel lev] @ v_frames (V_view s x v) (v_cur (V_view s x v))))"
    by (intro plain_push_good) (use R in \<open>simp_all add: V_view_same plain_def\<close>)
  then have "good v (with_frames (V_view s x v) ([F_SetLevel lev] @ v_frames (V_view s x v) (v_cur (V_view s x v))))"
    by (rule good_from) (simp_all add: V_view_same)
  then show ?thesis by (simp add: V_view_same)
qed

lemma Acquire_good:
  assumes E: "executing (F_Acquire l) v" and l: "v_locks v l = Some x"
  shows "good v (with_frames v ([F_P (lock_semaphore x), F_SetHolder l] @ v_frames v (v_cur v)))"
  unfolding good_def
proof (intro conjI)
  note R = executing_weightless [OF E, simplified]
  note K = R(1) [unfolded kinv_def]
  have sh: "shape ([F_P (lock_semaphore x), F_SetHolder l] @ v_frames v (v_cur v))" using R(3) by (simp add: shape_iff)
  show "kinv (\<lambda>_. 0) (with_frames v ([F_P (lock_semaphore x), F_SetHolder l] @ v_frames v (v_cur v)))"
  proof (rule push_ok [OF R(1,2) sh])
    show "solvent l' (lock_semaphore y) ([F_P (lock_semaphore x), F_SetHolder l] @ v_frames v (v_cur v))
      \<and> 0 = 0 - tok l' (lock_semaphore y) [F_P (lock_semaphore x), F_SetHolder l]" if y: "v_locks v l' = Some y" for l' y
    proof -
      have sol: "solvent l' (lock_semaphore y) (v_frames v (v_cur v))" using K y unfolding K_lock_def by blast
      then have nn: "0 \<le> tok l' (lock_semaphore y) (v_frames v (v_cur v))" by (rule solvent_tok)
      show ?thesis
      proof (cases "l' = l")
        case True
        then have "y = x" using y l by simp
        then show ?thesis using sol nn True by simp
      next
        case False
        then have "lock_semaphore x \<noteq> lock_semaphore y" using token_injective [of v l x l' y] K l y by auto
        then show ?thesis using sol nn False by simp
      qed
    qed
    show "F_DeleteSemaphore s \<notin> set (v_frames v t)" if "uses s [F_P (lock_semaphore x), F_SetHolder l]" for s t
      using lock_sem_public [OF R(1) l] that by simp
    show "n < v_brk v" if "f \<in> set [F_P (lock_semaphore x), F_SetHolder l]" "n \<in> refs f" for f n
      using that K_boundD(3,4) [of v l x] K l by auto
  qed auto
  show "cur_ok (with_frames v ([F_P (lock_semaphore x), F_SetHolder l] @ v_frames v (v_cur v)))"
    by (rule cur_ok_running) (use R in simp_all)
qed (simp add: same_holders)

lemma SetHolder_good:
  assumes E: "executing (F_SetHolder l) v" and l: "v_locks v l = Some x"
  shows "good v (v\<lparr>v_locks := (v_locks v)(l \<mapsto> x\<lparr>lock_holder := Some (v_cur v)\<rparr>)\<rparr>)"
  unfolding good_def
proof (intro conjI)
  note K = executingD(1) [OF E] and R = executingD(2,3) [OF E]
  have free: "lock_holder x = None" using no_holder [of _ v l x] K l unfolding kinv_def by fastforce
  show "kinv (\<lambda>_. 0) (v\<lparr>v_locks := (v_locks v)(l \<mapsto> x\<lparr>lock_holder := Some (v_cur v)\<rparr>)\<rparr>)"
    by (rule holder_ok [OF K l]) (use free in simp_all)
  show "cur_ok (v\<lparr>v_locks := (v_locks v)(l \<mapsto> x\<lparr>lock_holder := Some (v_cur v)\<rparr>)\<rparr>)"
    by (rule cur_ok_deep) (use R in simp_all)
  show "holders_kept v (v\<lparr>v_locks := (v_locks v)(l \<mapsto> x\<lparr>lock_holder := Some (v_cur v)\<rparr>)\<rparr>)"
    using l free by (simp add: holders_kept_def)
qed

lemma Release_good:
  assumes E: "executing (F_Release l) v" and l: "v_locks v l = Some x" "lock_holder x = Some (v_cur v)"
  shows "good v (with_frames (v\<lparr>v_locks := (v_locks v)(l \<mapsto> x\<lparr>lock_holder := None\<rparr>)\<rparr>) ([F_V (lock_semaphore x)] @ v_frames v (v_cur v)))"
proof -
  note R = executing_weightless [OF E, simplified]
  note K = R(1) [unfolded kinv_def]
  let ?w = "v\<lparr>v_locks := (v_locks v)(l \<mapsto> x\<lparr>lock_holder := None\<rparr>)\<rparr>"
  let ?d = "\<lambda>l'. if l' = l then 1 else 0"
  let ?new = "[F_V (lock_semaphore x)] @ v_frames ?w (v_cur ?w)"
  have kw: "kinv ?d ?w" by (rule holder_ok [OF R(1) l(1)]) (use l(2) in simp_all)
  have "kinv (\<lambda>_. 0) (with_frames ?w ?new)"
  proof (rule push_ok [OF kw])
    show "shape ?new" using R(3) by (simp add: shape_iff)
    show "solvent l' (lock_semaphore y) ?new \<and> 0 = ?d l' - tok l' (lock_semaphore y) [F_V (lock_semaphore x)]"
      if y: "v_locks ?w l' = Some y" for l' y
    proof (cases "l' = l")
      case True
      then have y': "y = x\<lparr>lock_holder := None\<rparr>" using y by simp
      have "solvent l (lock_semaphore x) (v_frames v (v_cur v))" using K l unfolding K_lock_def by blast
      then show ?thesis using solvent_tok [of l "lock_semaphore x" "v_frames v (v_cur v)"] True y' by simp
    next
      case False
      then have y': "v_locks v l' = Some y" using y by simp
      then have "lock_semaphore x \<noteq> lock_semaphore y" using token_injective [of v l x l' y] K l False by auto
      moreover have "solvent l' (lock_semaphore y) (v_frames v (v_cur v))" using K y' unfolding K_lock_def by blast
      ultimately show ?thesis using solvent_tok [of l' "lock_semaphore y" "v_frames v (v_cur v)"] False by simp
    qed
    show "n < v_brk ?w" if "f \<in> set [F_V (lock_semaphore x)]" "n \<in> refs f" for f n
      using that K_boundD(4) [of v l x] K l by simp
  qed (use R(2) in auto)
  moreover have "cur_ok (with_frames ?w ?new)" by (rule cur_ok_deep) (use R in simp_all)
  moreover have "holders_kept v (with_frames ?w ?new)" using l by (simp add: holders_kept_def)
  ultimately show ?thesis by (simp add: good_def)
qed

lemma Wait_good:
  assumes E: "executing (F_Wait c l) v" and q: "v_conds v c = Some q" and w: "w = v_brk v"
  shows "good v (with_frames (v\<lparr>v_sems := (v_sems v)(w \<mapsto> \<lparr>sem_value = 0, sem_queue = []\<rparr>), v_conds := (v_conds v)(c \<mapsto> q @ [w]), v_brk := w + 1\<rparr>)
    ([F_Release l, F_P w, F_Acquire l, F_DeleteSemaphore w] @ v_frames v (v_cur v)))"
proof -
  note R = executing_weightless [OF E, simplified]
  note K = R(1) [unfolded kinv_def]
  note F = fresh [of v]
  let ?u = "v\<lparr>v_sems := (v_sems v)(w \<mapsto> \<lparr>sem_value = 0, sem_queue = []\<rparr>), v_brk := w + 1\<rparr>"
  let ?w = "?u\<lparr>v_conds := (v_conds v)(c \<mapsto> q @ [w]), v_brk := w + 1\<rparr>"
  let ?f = "[F_Release l, F_P w, F_Acquire l, F_DeleteSemaphore w]"
  let ?new = "?f @ v_frames ?w (v_cur ?w)"
  have ls: "lock_sems ?u = lock_sems v" "lock_sems ?w = lock_sems v" by (simp_all add: lock_sems_def)
  have ku: "kinv (\<lambda>_. 0) ?u" using new_sem_ok [OF R(1), of 0] unfolding w by simp
  have kw: "kinv (\<lambda>_. 0) ?w"
  proof -
    have "u < v_brk ?u \<and> u \<notin> lock_sems ?u" if "u \<in> set (q @ [w])" for u
      using that K_boundD(6,7) [of v c q u] K q F(6) unfolding ls unfolding w by auto
    then show ?thesis using conds_ok [OF ku, of "q @ [w]" "w + 1" c] by simp
  qed
  have absent: "\<not> uses w (v_frames v t)" "F_DeleteSemaphore w \<notin> set (v_frames v t)" for t
    using F(8) [of "F_P w" t] F(8) [of "F_P_loop w" t] F(8) [of "F_DeleteSemaphore w" t] K unfolding uses_def w by auto
  have "kinv (\<lambda>_. 0) (with_frames ?w ?new)"
  proof (rule push_ok [OF kw])
    show "shape ?new" using R(3) by (simp add: shape_iff)
    show "solvent l' (lock_semaphore y) ?new \<and> 0 = 0 - tok l' (lock_semaphore y) ?f" if y: "v_locks ?w l' = Some y" for l' y
    proof -
      have y': "v_locks v l' = Some y" using y by simp
      then have "lock_semaphore y \<noteq> w" using K_boundD(4) [of v l' y] K w by auto
      moreover have "solvent l' (lock_semaphore y) (v_frames v (v_cur v))" using K y' unfolding K_lock_def by blast
      ultimately show ?thesis using solvent_tok [of l' "lock_semaphore y" "v_frames v (v_cur v)"] by simp
    qed
    show "n < v_brk ?w" if "f \<in> set ?f" "n \<in> refs f" for f n using that by auto
    show "F_DeleteSemaphore s \<notin> set (v_frames ?w t)" if "uses s ?f" for s t using that absent by simp
    show "ordered s ?f \<and> s \<notin> lock_sems ?w \<and> s \<notin> v_dev ?w \<and> \<not> uses s (v_frames ?w t) \<and> F_DeleteSemaphore s \<notin> set (v_frames ?w t)"
      if "F_DeleteSemaphore s \<in> set ?f" for s t
    proof -
      have "s = w" using that by simp
      then show ?thesis using absent F(6,7) K unfolding ls unfolding w by (simp add: uses_def)
    qed
  qed (use R(2) in simp)
  moreover have "cur_ok (with_frames ?w ?new)" by (rule cur_ok_deep) (use R in simp_all)
  moreover have "holders_kept v (with_frames ?w ?new)" by (simp add: same_holders)
  ultimately show ?thesis by (simp add: good_def)
qed

lemma DeleteSemaphore_good:
  assumes E: "executing (F_DeleteSemaphore s) v"
  shows "good v (v\<lparr>v_sems := (v_sems v)(s := None)\<rparr>)"
  unfolding good_def
proof (intro conjI)
  note R = executing_weightless [OF E, simplified]
  have S: "s \<notin> lock_sems v" "\<And>t. \<not> uses s (v_frames v t)" using E unfolding executing_def by simp_all
  show "kinv (\<lambda>_. 0) (v\<lparr>v_sems := (v_sems v)(s := None)\<rparr>)" by (rule delete_ok [OF R(1) S])
  show "cur_ok (v\<lparr>v_sems := (v_sems v)(s := None)\<rparr>)" by (rule cur_ok_deep) (use R in simp_all)
qed (simp add: same_holders)

lemma Signal_good:
  assumes E: "executing (F_Signal c l) v" and q: "v_conds v c = Some (w # q)"
  shows "good v (with_frames (v\<lparr>v_conds := (v_conds v)(c \<mapsto> q)\<rparr>) ([F_V w] @ v_frames v (v_cur v)))"
proof -
  note R = executing_weightless [OF E, simplified]
  note K = R(1) [unfolded kinv_def]
  let ?w = "v\<lparr>v_conds := (v_conds v)(c \<mapsto> q), v_brk := v_brk v\<rparr>"
  let ?new = "[F_V w] @ v_frames ?w (v_cur ?w)"
  have w: "w < v_brk v" "w \<notin> lock_sems v" using K_boundD(6,7) [of v c "w # q" w] K q by auto
  have kw: "kinv (\<lambda>_. 0) ?w"
    by (rule conds_ok [OF R(1)]) (use K_boundD(6,7) [of v c "w # q"] K q in auto)
  have "kinv (\<lambda>_. 0) (with_frames ?w ?new)"
  proof (rule push_ok [OF kw])
    show "shape ?new" using R(3) by (simp add: shape_iff)
    show "solvent l' (lock_semaphore y) ?new \<and> 0 = 0 - tok l' (lock_semaphore y) [F_V w]" if y: "v_locks ?w l' = Some y" for l' y
    proof -
      have y': "v_locks v l' = Some y" using y by simp
      then have "lock_semaphore y \<noteq> w" using w(2) unfolding lock_sems_def by blast
      moreover have "solvent l' (lock_semaphore y) (v_frames v (v_cur v))" using K y' unfolding K_lock_def by blast
      ultimately show ?thesis using solvent_tok [of l' "lock_semaphore y" "v_frames v (v_cur v)"] by simp
    qed
  qed (use R(2) w in auto)
  moreover have "cur_ok (with_frames ?w ?new)" by (rule cur_ok_deep) (use R in simp_all)
  moreover have "holders_kept v (with_frames ?w ?new)" by (simp add: same_holders)
  ultimately show ?thesis by (simp add: good_def)
qed

section \<open>Operations of a running thread\<close>

lemma push_good:
  assumes "push new k = Inr k'" "kinv (\<lambda>_. 0) (view dev k)" "v_stat (view dev k) (v_cur (view dev k)) = Some RUNNING"
    and "list_all deep (v_frames (view dev k) (v_cur (view dev k)))" "list_all plain new"
  shows "good (view dev k) (view dev k')"
  using push_view [OF assms(1), of dev] plain_push_good [OF assms(2-5)] by simp

lemma doom_same:
  assumes "v_doomed v \<noteq> Some (v_cur v)"
  shows "v_cur (doom_view v) = v_cur v" "v_frames (doom_view v) (v_cur v) = v_frames v (v_cur v)"
    "v_stat (doom_view v) (v_cur v) = v_stat v (v_cur v)" "v_locks (doom_view v) = v_locks v"
  using assms by (auto simp: doom_view_def split: option.split)

lemma Begin_good:
  assumes "Thread_Begin k = Inr k'" and E: "executing F_Begin (view dev k)"
  shows "good (view dev k) (view dev k')"
proof -
  obtain k1 where k1: "CheckToBeDestroyed k = Inr k1" "push [F_SetLevel IntOn] k1 = Inr k'"
    using assms(1) by (auto simp: Thread_Begin_def res_simps)
  note R = executing_weightless [OF E, simplified]
  have v1: "view dev k1 = doom_view (view dev k)" "v_doomed (view dev k) \<noteq> Some (v_cur (view dev k))"
    using CheckToBeDestroyed_view [OF k1(1), of dev] by blast+
  note same = doom_same [OF v1(2)]
  have "good (view dev k1) (view dev k')"
    by (rule push_good [OF k1(2)]) (use R doom_ok [OF R(1) v1(2)] same v1(1) in \<open>simp_all add: plain_def\<close>)
  then show ?thesis by (rule good_from) (simp_all add: v1(1) same)
qed

lemma Yield_good:
  assumes "Thread_Yield k = Inr k'" and E: "executing F_Yield (view dev k)"
  shows "good (view dev k) (view dev k')"
proof -
  note R = executing_weightless [OF E, simplified]
  obtain k1 r k2 where k1: "push [F_SetLevel (hw_level k)] (set_level IntOff k) = Inr k1" and k2: "FindNextToRun k1 = Inr (r, k2)"
    and rest: "(case r of None \<Rightarrow> Inr k2 | Some n \<Rightarrow> bindE (ReadyToRun (k_currentThread k) k2) (\<lambda>k. Scheduler_Run n False k)) = Inr k'"
    using assms(1) unfolding Thread_Yield_def Let_def bindE_eq_Inr by auto
  have lev: "view dev (set_level IntOff k) = view dev k" by simp
  have g: "good (view dev k) (view dev k1)"
    using push_good [OF k1, of dev] R unfolding lev by (simp add: plain_def)
  have v1: "view dev k1 = with_frames (view dev k) (F_SetLevel (hw_level k) # v_frames (view dev k) (v_cur (view dev k)))"
    using push_view [OF k1, of dev] unfolding lev by simp
  show ?thesis
  proof (cases r)
    case None
    then show ?thesis using FindNextToRun_view [OF k2, of dev] rest g by simp
  next
    case (Some n)
    then obtain q where q: "v_ready (view dev k1) = n # q" "view dev k2 = (view dev k1)\<lparr>v_ready := q\<rparr>"
      using FindNextToRun_view [OF k2, of dev] by auto
    obtain k3 where k3: "ReadyToRun (k_currentThread k) k2 = Inr k3" "Scheduler_Run n False k3 = Inr k'"
      using rest Some by (auto simp: bindE_eq_Inr)
    have cur: "k_currentThread k = v_cur (view dev k1)" unfolding v1 by (simp add: view_def)
    have "view dev k3 = ready_view (v_cur (view dev k1)) ((view dev k1)\<lparr>v_ready := q\<rparr>)"
      using ReadyToRun_view [OF k3(1), of dev] unfolding q(2) cur by simp
    then have v': "view dev k' = run_view n False (ready_view (v_cur (view dev k1)) ((view dev k1)\<lparr>v_ready := q\<rparr>))"
      using Scheduler_Run_view(1) [OF k3(2), of dev] by simp
    have d1: "v_stat (view dev k1) (v_cur (view dev k1)) = Some RUNNING" "list_all deep (v_frames (view dev k1) (v_cur (view dev k1)))"
      unfolding v1 using R by simp_all
    have K1: "kinv (\<lambda>_. 0) (view dev k1)" using g by (simp add: good_def)
    have ok: "kinv (\<lambda>_. 0) (view dev k')" unfolding v' by (rule yield_ok [OF K1 q(1) d1])
    have "n \<noteq> v_cur (view dev k1)"
    proof
      assume n: "n = v_cur (view dev k1)"
      have "K_ready (view dev k1)" "n \<in> set (v_ready (view dev k1))" using K1 q(1) by (simp_all add: kinv_def)
      then have "v_stat (view dev k1) n = Some READY" unfolding K_ready_def by blast
      then show False using d1(1) n by simp
    qed
    moreover have "F_Sleep b \<notin> set (v_frames (view dev k1) n)" if "n \<noteq> v_cur (view dev k1)" for b
      using K1 that K_stackD(4) [of "view dev k1" n b] unfolding kinv_def by blast
    ultimately have "F_Sleep b \<notin> set (v_frames (view dev k') (v_cur (view dev k')))" for b
      unfolding v' by (simp add: run_view_def ready_view_def)
    then have "cur_ok (view dev k')"
      by (intro cur_ok_running) (auto simp: v' run_view_def, metis list.set_intros(1))
    moreover have "holders_kept (view dev k) (view dev k')"
      by (rule same_holders) (simp add: v' v1 run_view_def ready_view_def)
    ultimately show ?thesis using ok by (simp add: good_def)
  qed
qed

lemma Fork_good:
  assumes "Thread_Fork t k = Inr k'" and E: "executing (F_Fork t) (view dev k)"
  shows "good (view dev k) (view dev k')"
proof -
  note R = executing_weightless [OF E, simplified]
  have S: "v_stat (view dev k) t = Some JUST_CREATED" using executingD(4) [OF E] by simp
  obtain k1 k2 where k1: "StackAllocate t k = Inr k1" and k2: "ReadyToRun t (set_level IntOff k1) = Inr k2"
    and k3: "push [F_Yield, F_SetLevel (hw_level k1)] k2 = Inr k'"
    using assms(1) unfolding Thread_Fork_def Let_def bindE_eq_Inr by blast
  have v1: "view dev k1 = (view dev k)\<lparr>v_frames := (v_frames (view dev k))(t := [F_Begin])\<rparr>"
    using StackAllocate_view [OF k1, of dev] by blast
  have v2: "view dev k2 = ready_view t (view dev k1)"
    using ReadyToRun_view [OF k2, of dev] by simp
  have ok: "kinv (\<lambda>_. 0) (view dev k2)" unfolding v2 v1 by (rule fork_ok [OF R(1) S])
  have tc: "t \<noteq> v_cur (view dev k)" using S R(2) by auto
  have "good (view dev k2) (view dev k')"
    by (rule push_good [OF k3 ok]) (use R tc in \<open>simp_all add: v2 v1 ready_view_def plain_def\<close>)
  then show ?thesis by (rule good_from) (simp_all add: v2 v1 ready_view_def)
qed

lemma createThread_good:
  assumes "createThread p uid k = Inr (r, k')" and E: "executing (F_createThread uid) (view dev k)"
  shows "good (view dev k) (view dev k')"
proof -
  note R = executing_weightless [OF E, simplified]
  show ?thesis
  proof (cases r)
    case None
    then have "k' = k" using createThread_view [OF assms(1), of dev] by simp
    then show ?thesis using same_good [OF R] by simp
  next
    case (Some t)
    then have v': "view dev k' = create_view (v_brk (view dev k)) (view dev k)"
      using createThread_view [OF assms(1), of dev] by simp
    have "v_cur (view dev k) \<noteq> v_brk (view dev k)" using fresh(5) [of "view dev k"] R(1) by (simp add: kinv_def)
    then have "cur_ok (view dev k')" by (intro cur_ok_deep) (use R in \<open>simp_all add: v' create_view_def\<close>)
    moreover have "kinv (\<lambda>_. 0) (view dev k')" unfolding v' by (rule create_ok [OF R(1)])
    moreover have "holders_kept (view dev k) (view dev k')" by (rule same_holders) (simp add: v' create_view_def)
    ultimately show ?thesis by (simp add: good_def)
  qed
qed

lemma setPriority_good:
  assumes "upd_thread t (\<lambda>th. th\<lparr>th_priority := p\<rparr>) k = Inr k'" and E: "executing (F_setPriority t p) (view dev k)"
  shows "good (view dev k) (view dev k')"
proof -
  note R = executing_weightless [OF E, simplified]
  let ?v = "view dev k"
  have S: "t \<notin> set (v_ready ?v)" using executingD(4) [OF E] by simp
  have v': "view dev k' = ?v\<lparr>v_prio := (v_prio ?v)(t := p)\<rparr>"
    using assms(1) by (auto simp: upd_thread_def res_simps view_def frames_def priority_def fun_eq_iff)
  have "kinv (\<lambda>_. 0) (view dev k')" unfolding v' by (rule prio_ok [OF R(1) S])
  moreover have "cur_ok (view dev k')" by (rule cur_ok_deep) (use R in \<open>simp_all add: v'\<close>)
  moreover have "holders_kept ?v (view dev k')" by (rule same_holders) (simp add: v')
  ultimately show ?thesis by (simp add: good_def)
qed

lemma Finish_good:
  assumes "Thread_Finish k = Inr k'" and E: "executing F_Finish (view dev k)"
  shows "good (view dev k) (view dev k')"
proof -
  note R = executing_weightless [OF E, simplified]
  have S: "v_frames (view dev k) (v_cur (view dev k)) = []" using executingD(4) [OF E] by simp
  let ?c = "k_currentThread k"
  obtain th k1 k2 where "object (k_threads (set_level IntOff k)) ?c = Inr th" and k1: "setStatus ?c ZOMMBIE (set_level IntOff k) = Inr k1"
    and k2: "(case th_parent th of None \<Rightarrow> Inr k1 | Some p \<Rightarrow> childThreadExit p (Some ?c) k1) = Inr k2"
    and k3: "Thread_Sleep True k2 = Inr k'"
    using assms(1) unfolding Thread_Finish_def Let_def bindE_eq_Inr by blast
  have cur: "?c = v_cur (view dev k)" by (simp add: view_def)
  have v1: "view dev k1 = (view dev k)\<lparr>v_stat := (v_stat (view dev k))(v_cur (view dev k) \<mapsto> ZOMMBIE)\<rparr>"
    using setStatus_view [OF k1, of dev] unfolding cur by simp
  have v2: "view dev k2 = view dev k1" using k2 by (auto simp: childThreadExit_view split: option.splits)
  have "push [F_Sleep True] k2 = Inr k'" using k3 by (auto simp: Thread_Sleep_def res_simps)
  then have v': "view dev k' = with_frames ((view dev k)\<lparr>v_stat := (v_stat (view dev k))(v_cur (view dev k) \<mapsto> ZOMMBIE)\<rparr>) [F_Sleep True]"
    using push_view [of "[F_Sleep True]" k2 k' dev] S unfolding v2 v1 by simp
  have "kinv (\<lambda>_. 0) (view dev k')" unfolding v' by (rule finish_ok [OF R(1,2) S])
  moreover have "cur_ok (view dev k')" unfolding v' by (simp add: cur_ok_def)
  moreover have "holders_kept (view dev k) (view dev k')" by (rule same_holders) (simp add: v')
  ultimately show ?thesis by (simp add: good_def)
qed

lemma Switched_good:
  assumes "after_switch k = Inr k'" "kinv (\<lambda>_. 0) (view dev k)" "v_stat (view dev k) (v_cur (view dev k)) = Some RUNNING"
    and "\<And>b. F_Sleep b \<notin> set (v_frames (view dev k) (v_cur (view dev k)))"
  shows "good (view dev k) (view dev k')"
proof -
  have v': "view dev k' = doom_view (view dev k)" "v_doomed (view dev k) \<noteq> Some (v_cur (view dev k))"
    using after_switch_view [OF assms(1), of dev] by blast+
  note same = doom_same [OF v'(2)]
  have "cur_ok (view dev k')" unfolding v'(1)
    by (rule cur_ok_running) (use assms(3,4) in \<open>auto simp: same\<close>, metis list.set_intros(1))
  then show ?thesis using doom_ok [OF assms(2) v'(2)] v'(1) by (simp add: good_def same_holders same)
qed

lemma P_round_good:
  assumes "P_round s k1 = Inr k'" and pop: "upd_thread (k_currentThread k) (\<lambda>th. th\<lparr>th_frames := fs\<rparr>) k = Inr k1"
    and K: "kinv (\<lambda>_. 0) (view dev k)" and R: "v_stat (view dev k) (v_cur (view dev k)) = Some RUNNING"
    and F: "v_frames (view dev k) (v_cur (view dev k)) = F_P_loop s # fs"
  shows "good (view dev k) (view dev k')"
proof -
  let ?v = "view dev k"
  have v1: "view dev k1 = with_frames ?v fs" by (rule pop_view [OF pop])
  have cur: "k_currentThread k1 = v_cur ?v" using v1 by (simp add: view_def)
  obtain x where x: "k_sems k1 s = Some x" using assms(1) by (auto simp: P_round_def res_simps)
  then have xv: "v_sems ?v s = Some x" using v1 by (simp add: view_def)
  have dfs: "list_all deep fs" using K_stackD(1) [of ?v "v_cur ?v"] K F by (simp add: kinv_def shape_iff)
  show ?thesis
  proof (cases "sem_value x = 0")
    case False
    have v': "view dev k' = ?v\<lparr>v_frames := (v_frames ?v)(v_cur ?v := fs), v_sems := (v_sems ?v)(s \<mapsto> x\<lparr>sem_value := sem_value x - 1\<rparr>)\<rparr>"
      using assms(1) x False by (auto simp: P_round_def object_def upd_sem_view v1)
    have "kinv (\<lambda>_. 0) (view dev k')" unfolding v' by (rule take_ok [OF K F xv False R])
    moreover have "cur_ok (view dev k')" by (rule cur_ok_deep) (use R dfs in \<open>simp_all add: v'\<close>)
    moreover have "holders_kept ?v (view dev k')" by (rule same_holders) (simp add: v')
    ultimately show ?thesis by (simp add: good_def)
  next
    case True
    let ?k = "upd_sem s (x\<lparr>sem_queue := sem_queue x @ [k_currentThread k1]\<rparr>) k1"
    obtain k2 where k2: "push [F_P_loop s] ?k = Inr k2" "Thread_Sleep False k2 = Inr k'"
      using assms(1) x True by (auto simp: P_round_def object_def res_simps)
    obtain k3 where k3: "setStatus (k_currentThread k2) BLOCKED k2 = Inr k3" "push [F_Sleep False] k3 = Inr k'"
      using k2(2) by (auto simp: Thread_Sleep_def res_simps)
    have v2: "view dev k2 = ?v\<lparr>v_sems := (v_sems ?v)(s \<mapsto> x\<lparr>sem_queue := sem_queue x @ [v_cur ?v]\<rparr>)\<rparr>"
    proof -
      have "(v_frames ?v)(v_cur ?v := F_P_loop s # fs) = v_frames ?v" using F by (metis fun_upd_triv)
      then show ?thesis using push_view [OF k2(1), of dev] unfolding upd_sem_view v1 cur by simp
    qed
    have cur2: "k_currentThread k2 = v_cur ?v" using v2 by (simp add: view_def)
    have v3: "view dev k3 = (view dev k2)\<lparr>v_stat := (v_stat (view dev k2))(v_cur ?v \<mapsto> BLOCKED)\<rparr>"
      using setStatus_view [OF k3(1), of dev] unfolding cur2 by simp
    have v': "view dev k' = ?v\<lparr>v_sems := (v_sems ?v)(s \<mapsto> x\<lparr>sem_queue := sem_queue x @ [v_cur ?v]\<rparr>), v_stat := (v_stat ?v)(v_cur ?v \<mapsto> BLOCKED),
        v_frames := (v_frames ?v)(v_cur ?v := F_Sleep False # F_P_loop s # fs)\<rparr>"
      using push_view [OF k3(2), of dev] F unfolding v3 v2 by simp
    have "kinv (\<lambda>_. 0) (view dev k')" unfolding v' by (rule block_ok [OF K F xv True R])
    moreover have "cur_ok (view dev k')" unfolding v' by (simp add: cur_ok_def)
    moreover have "holders_kept ?v (view dev k')" by (rule same_holders) (simp add: v')
    ultimately show ?thesis by (simp add: good_def)
  qed
qed

lemma push_from:
  assumes "push new k1 = Inr k'" "view dev k1 = view dev k" "executing f (view dev k)" "\<And>l s. weight l s f = 0" "list_all plain new"
  shows "good (view dev k) (view dev k')"
  using push_good [OF assms(1), of dev] executing_weightless [OF assms(3,4)] assms(5) unfolding assms(2) by simp

lemma same_from:
  assumes "view dev k' = view dev k" "executing f (view dev k)" "\<And>l s. weight l s f = 0"
  shows "good (view dev k) (view dev k')"
  using same_good [OF executing_weightless [OF assms(2,3)]] unfolding assms(1) .

lemma lists_from:
  assumes "view dev k' = (view dev k)\<lparr>v_slists := z\<rparr>" "executing f (view dev k)" "\<And>l s. weight l s f = 0"
  shows "good (view dev k) (view dev k')"
  using same_good [OF executing_weightless [OF assms(2,3)]] unfolding assms(1) by simp

lemma lists_push_from:
  assumes "push new k1 = Inr k'" "view dev k1 = (view dev k)\<lparr>v_slists := z\<rparr>" "executing f (view dev k)" "\<And>l s. weight l s f = 0"
    "list_all plain new"
  shows "good (view dev k) (view dev k')"
  using push_good [OF assms(1), of dev] executing_weightless [OF assms(3,4)] assms(5) unfolding assms(2) by simp

lemma run_cur_ok:
  assumes "K_stack v" "\<And>b. F_Sleep b \<notin> set (v_frames v (v_cur v))"
  shows "cur_ok (run_view n fin (v\<lparr>v_ready := q\<rparr>))"
proof (rule cur_ok_running)
  have no: "F_Sleep b \<notin> set (v_frames v n)" for b
    using K_stackD(4) [OF assms(1), of n b] assms(2) [of b] by (cases "n = v_cur v") simp_all
  show "v_frames (run_view n fin (v\<lparr>v_ready := q\<rparr>)) (v_cur (run_view n fin (v\<lparr>v_ready := q\<rparr>))) \<noteq> F_Sleep b # r" for b r
  proof (cases "n = v_cur v")
    case True
    then show ?thesis by (simp add: run_view_def)
  next
    case False
    then show ?thesis using no [of b] by (auto simp: run_view_def)
  qed
qed (simp add: run_view_def)

definition driver_frame :: "'a kview \<Rightarrow> 'a frame \<Rightarrow> bool" where
  "driver_frame v f \<longleftrightarrow> plain f \<or> (\<exists>s \<in> v_dev v. f = F_P s \<or> f = F_V s)"

text \<open>An operation of a driver continues with calls of the public interface.\<close>

lemma driver_push_good:
  assumes E: "executing (F_Do a) v" and fs0: "\<And>f. f \<in> set fs \<Longrightarrow> driver_frame v f"
  shows "good v (with_frames v (fs @ v_frames v (v_cur v)))"
proof -
  let ?v = v
  note fs = fs0 [unfolded driver_frame_def]
  note R = executing_weightless [OF E, simplified]
  note K = R(1) [unfolded kinv_def]
  let ?w = "with_frames ?v (fs @ v_frames ?v (v_cur ?v))"
  have "deep f" if f: "f \<in> set fs" for f
  proof (cases "plain f")
    case False
    then obtain s where "f = F_P s \<or> f = F_V s" using fs [OF f] by blast
    then show ?thesis by auto
  qed (simp add: plain_def)
  then have dp: "list_all deep fs" by (simp add: list_all_iff)
  have w0: "weight l (lock_semaphore x) f = 0" if l: "v_locks ?v l = Some x" and f: "f \<in> set fs" for l x f
  proof (cases "plain f")
    case True
    then show ?thesis by (rule plain_weight)
  next
    case False
    then obtain s where s: "s \<in> v_dev ?v" "f = F_P s \<or> f = F_V s" using fs [OF f] by blast
    have "s \<notin> lock_sems ?v" using K_boundD(10) [of ?v s] K s(1) by simp
    then have "lock_semaphore x \<noteq> s" using l unfolding lock_sems_def by blast
    then show ?thesis using s(2) by auto
  qed
  have t0: "tok l (lock_semaphore x) gs = 0 \<and> solvent l (lock_semaphore x) (gs @ v_frames ?v (v_cur ?v))"
    if l: "v_locks ?v l = Some x" and gs: "set gs \<subseteq> set fs" for l x gs
    using gs
  proof (induction gs)
    case Nil
    then show ?case using K l unfolding K_lock_def by simp
  next
    case (Cons g gs)
    have "solvent l (lock_semaphore x) (v_frames ?v (v_cur ?v))" using K l unfolding K_lock_def by blast
    then show ?case using Cons w0 [OF l, of g] solvent_tok [of l "lock_semaphore x" "v_frames ?v (v_cur ?v)"] by simp
  qed
  have devs: "s < v_brk ?v \<and> (\<forall>t. F_DeleteSemaphore s \<notin> set (v_frames ?v t))" if "s \<in> v_dev ?v" for s
    using that K_boundD(9) [of ?v s] K unfolding K_waiter_def by blast
  have nodel: "F_DeleteSemaphore s \<notin> set fs" for s
    using fs [of "F_DeleteSemaphore s"] by (auto simp: plain_def)
  have "kinv (\<lambda>_. 0) ?w"
  proof (rule push_ok [OF R(1,2)])
    show "shape (fs @ v_frames ?v (v_cur ?v))" using dp R(3) by (simp add: shape_iff)
    show "solvent l (lock_semaphore x) (fs @ v_frames ?v (v_cur ?v)) \<and> 0 = 0 - tok l (lock_semaphore x) fs"
      if "v_locks ?v l = Some x" for l x using t0 [OF that, of fs] by simp
    show "n < v_brk ?v" if "f \<in> set fs" "n \<in> refs f" for f n
      using fs [OF that(1)] that(2) devs by (auto simp: plain_def)
    show "F_DeleteSemaphore s \<notin> set (v_frames ?v t)" if "uses s fs" for s t
    proof -
      have "F_P s \<in> set fs \<or> F_P_loop s \<in> set fs" using that by (simp add: uses_def)
      then have "s \<in> v_dev ?v" using fs [of "F_P s"] fs [of "F_P_loop s"] by (auto simp: plain_def)
      then show ?thesis using devs by blast
    qed
  qed (use nodel in blast)
  moreover have "cur_ok ?w" by (rule cur_ok_deep) (use R dp in simp_all)
  moreover have "holders_kept ?v ?w" by (rule same_holders) simp
  ultimately show ?thesis by (simp add: good_def)
qed

section \<open>Interrupts\<close>

locale drivers =
  fixes dev :: "'z \<Rightarrow> nat set"
    and cb :: "('cb, 'a, 'z) callback"
    and act :: "'a \<Rightarrow> ('cb, 'a, 'z) kernel_scheme \<Rightarrow> ('cb, 'a, 'z) kernel_scheme res"
  assumes handler_wakes: "cb c k = Inr k' \<Longrightarrow> wakes (view dev k) (view dev k')"
    and operation_good: "act a k = Inr k' \<Longrightarrow> executing (F_Do a) (view dev k) \<Longrightarrow> good (view dev k) (view dev k')"
begin

lemma fire_wakes: "fire n cb k = Inr k' \<Longrightarrow> wakes (view dev k) (view dev k')"
proof (induction n arbitrary: k)
  case (Suc n)
  obtain p ps k1 where "hw_pending k = p # ps" and k1: "cb (callOnInterrupt p) (k\<lparr>hw_pending := ps\<rparr>) = Inr k1"
    and rest: "(if hw_pending k1 \<noteq> [] \<and> pi_when (hd (hw_pending k1)) \<le> now k1 then fire n cb k1 else Inr k1) = Inr k'"
    using Suc.prems by (auto simp: bindE_eq_Inr seq_RemoveFront_eq_Inr)
  have "wakes (view dev k) (view dev k1)" using handler_wakes [OF k1] by simp
  moreover have "wakes (view dev k1) (view dev k')" using rest Suc.IH [of k1] by (auto split: if_splits intro: wakes_refl)
  ultimately show ?case using wakes_trans by blast
qed simp

lemma CheckIfDue_wakes: "Interrupt_CheckIfDue cb adv k = Inr (b, k') \<Longrightarrow> wakes (view dev k) (view dev k')"
  by (auto simp: Interrupt_CheckIfDue_def res_simps Let_def wakes_refl split: if_splits option.splits dest!: fire_wakes)

lemma Interrupt_OneTick_wakes: "Interrupt_OneTick cb k = Inr k' \<Longrightarrow> wakes (view dev k) (view dev k')"
  by (auto simp: Interrupt_OneTick_def Interrupt_ChangeLevel_def Let_def res_simps split: if_splits dest!: CheckIfDue_wakes)

lemma Interrupt_SetLevel_wakes: "Interrupt_SetLevel cb l k = Inr (old, k') \<Longrightarrow> wakes (view dev k) (view dev k')"
  by (auto simp: Interrupt_SetLevel_def Interrupt_ChangeLevel_def Let_def res_simps wakes_refl split: if_splits dest!: Interrupt_OneTick_wakes)

lemma Idle_wakes: "Interrupt_Idle cb k = Inr k' \<Longrightarrow> wakes (view dev k) (view dev k')"
  by (auto simp: Interrupt_Idle_def Interrupt_Halt_def res_simps split: if_splits dest!: CheckIfDue_wakes)

lemma yield_if_asked_good:
  assumes "yield_if_asked st k1 = Inr k'" "wakes (view dev k) (view dev k1)" "executing f (view dev k)" "\<And>l s. weight l s f = 0"
  shows "good (view dev k) (view dev k')"
proof -
  note R = executing_weightless [OF assms(3,4)]
  note W = wakes_ok [OF assms(2) R(1)] and S = wakes_same [OF assms(2)]
  have R1: "kinv (\<lambda>_. 0) (view dev k1)" "v_stat (view dev k1) (v_cur (view dev k1)) = Some RUNNING"
    "list_all deep (v_frames (view dev k1) (v_cur (view dev k1)))"
    using W [THEN conjunct1] W [THEN conjunct2, rule_format, of "v_cur (view dev k)"] S R(2,3) by auto
  have "good (view dev k1) (view dev k')"
  proof (cases "hw_yieldOnReturn k1")
    case True
    let ?k = "k1\<lparr>hw_yieldOnReturn := False, hw_status := SystemMode\<rparr>"
    have "push [F_Yield, F_SetStatus st] ?k = Inr k'" using assms(1) True by (simp add: yield_if_asked_def)
    from push_good [OF this, of dev] R1 show ?thesis by (simp add: plain_def)
  next
    case False
    then have "k' = k1" using assms(1) by (simp add: yield_if_asked_def)
    then show ?thesis using same_good [OF R1] by simp
  qed
  then show ?thesis by (rule good_from) (use S in simp_all)
qed

lemma yield_if_asked_no: "wakes (view dev k) (view dev k1) \<Longrightarrow> executing f (view dev k) \<Longrightarrow> (\<And>l s. weight l s f = 0)
    \<Longrightarrow> good (view dev k) (view dev k1)"
  using yield_if_asked_good [of st "k1\<lparr>hw_yieldOnReturn := False\<rparr>" "k1\<lparr>hw_yieldOnReturn := False\<rparr>" k f]
  by (simp add: yield_if_asked_def)

lemma SetLevel_good:
  assumes "SetLevel cb l k = Inr k'" "executing f (view dev k)" "\<And>l s. weight l s f = 0"
  shows "good (view dev k) (view dev k')"
proof -
  obtain old k1 where k1: "Interrupt_SetLevel cb l k = Inr (old, k1)"
    and rest: "(if l = IntOn \<and> old = IntOff then yield_if_asked (hw_status k) k1 else Inr k1) = Inr k'"
    using assms(1) by (auto simp: SetLevel_def bindE_eq_Inr)
  note w = Interrupt_SetLevel_wakes [OF k1]
  show ?thesis
  proof (cases "l = IntOn \<and> old = IntOff")
    case True
    then show ?thesis using rest yield_if_asked_good [OF _ w assms(2,3)] by simp
  next
    case False
    then have "k' = k1" using rest by auto
    then show ?thesis using yield_if_asked_no [OF w assms(2,3)] by simp
  qed
qed

lemma OneTick_good:
  assumes "OneTick cb k = Inr k'" "executing f (view dev k)" "\<And>l s. weight l s f = 0"
  shows "good (view dev k) (view dev k')"
proof -
  obtain k1 where k1: "Interrupt_OneTick cb k = Inr k1" "yield_if_asked (hw_status k) k1 = Inr k'"
    using assms(1) by (auto simp: OneTick_def bindE_eq_Inr)
  show ?thesis by (rule yield_if_asked_good [OF k1(2) Interrupt_OneTick_wakes [OF k1(1)] assms(2,3)])
qed

lemma Sleep_good:
  assumes "Sleep_round cb b k1 = Inr k'" and pop: "upd_thread (k_currentThread k) (\<lambda>th. th\<lparr>th_frames := fs\<rparr>) k = Inr k1"
    and K: "kinv (\<lambda>_. 0) (view dev k)" and C: "cur_ok (view dev k)"
    and F: "v_frames (view dev k) (v_cur (view dev k)) = F_Sleep b # fs"
  shows "good (view dev k) (view dev k')"
proof -
  let ?v = "view dev k"
  let ?w = "with_frames ?v fs"
  have v1: "view dev k1 = ?w" by (rule pop_view [OF pop])
  have st: "if b then v_stat ?v (v_cur ?v) = Some ZOMMBIE \<and> fs = [] else v_stat ?v (v_cur ?v) \<in> {Some BLOCKED, Some READY}"
    using C F by (simp add: cur_ok_def)
  have sh: "if b then fs = [] else blocked fs" using K_stackD(1) [of ?v "v_cur ?v"] K F by (simp add: kinv_def)
  have K1: "kinv (\<lambda>_. 0) ?w" using pop_ok [OF K F] by simp
  obtain r k2 where k2: "FindNextToRun k1 = Inr (r, k2)"
    and rest: "(case r of None \<Rightarrow> bindE (Interrupt_Idle cb k2) (\<lambda>k. push [F_Sleep b] k) | Some n \<Rightarrow> Scheduler_Run n b k2) = Inr k'"
    using assms(1) by (auto simp: Sleep_round_def bindE_eq_Inr)
  show ?thesis
  proof (cases r)
    case None
    then have "k2 = k1" using FindNextToRun_view [OF k2, of dev] by simp
    then obtain k3 where k3: "Interrupt_Idle cb k1 = Inr k3" "push [F_Sleep b] k3 = Inr k'"
      using rest None by (auto simp: bindE_eq_Inr)
    have w: "wakes ?w (view dev k3)" using Idle_wakes [OF k3(1)] unfolding v1 .
    note W = wakes_ok [OF w K1] and S = wakes_same [OF w]
    have st3: "v_stat (view dev k3) (v_cur ?v) = v_stat ?v (v_cur ?v)
      \<or> v_stat ?v (v_cur ?v) = Some BLOCKED \<and> v_stat (view dev k3) (v_cur ?v) = Some READY" using W by simp
    have v': "view dev k' = with_frames (view dev k3) (F_Sleep b # v_frames (view dev k3) (v_cur (view dev k3)))"
      using push_view [OF k3(2), of dev] by simp
    have fr: "v_frames (view dev k3) (v_cur (view dev k3)) = fs" "v_cur (view dev k3) = v_cur ?v" using S by simp_all
    have "kinv (\<lambda>_. 0) (view dev k')" unfolding v'
      by (rule sleep_again_ok) (use W [THEN conjunct1] st st3 sh fr in \<open>auto split: if_splits\<close>)
    moreover have "cur_ok (view dev k')" unfolding v' using st st3 fr by (auto simp: cur_ok_def split: if_splits)
    moreover have "holders_kept ?v (view dev k')" by (rule same_holders) (use S v' in simp)
    ultimately show ?thesis by (simp add: good_def)
  next
    case (Some n)
    then obtain q where q: "v_ready ?w = n # q" "view dev k2 = ?w\<lparr>v_ready := q\<rparr>"
      using FindNextToRun_view [OF k2, of dev] v1 by auto
    have "Scheduler_Run n b k2 = Inr k'" using rest Some by simp
    then have v': "view dev k' = run_view n b (?w\<lparr>v_ready := q\<rparr>)" using Scheduler_Run_view(1) [of n b k2 k' dev] q(2) by simp
    have "kinv (\<lambda>_. 0) (view dev k')" unfolding v'
      by (rule run_ok [OF K1 q(1)]) (use st sh in \<open>auto split: if_splits\<close>)
    moreover have "F_Sleep b' \<notin> set fs" for b' using sh by (auto simp: blocked_iff dest: deep_not(2) split: if_splits)
    then have "cur_ok (view dev k')" unfolding v' by (intro run_cur_ok) (use K1 in \<open>simp_all add: kinv_def\<close>)
    moreover have "holders_kept ?v (view dev k')" by (rule same_holders) (simp add: v' run_view_def)
    ultimately show ?thesis by (simp add: good_def)
  qed
qed

section \<open>Every step\<close>

lemma SynchList_take_good:
  assumes "SynchList_take l k = Inr k'" "executing (F_SL_TakeItem l) (view dev k)"
  shows "good (view dev k) (view dev k')"
proof -
  obtain x where x: "k_slists k l = Some x" using assms(1) by (auto simp: SynchList_take_def res_simps)
  show ?thesis
  proof (cases "sl_list x")
    case Nil
    then have "push [F_Wait (sl_listEmpty x) (sl_lock x), F_SL_TakeItem l] k = Inr k'"
      using assms(1) x by (simp add: SynchList_take_def object_def)
    then show ?thesis by (rule push_from [OF _ refl assms(2)]) (simp_all add: plain_def)
  next
    case (Cons i xs)
    then obtain k1 where k1: "upd_list l xs (returning (Some i) k) = Inr k1" "push [F_Release (sl_lock x)] k1 = Inr k'"
      using assms(1) x by (auto simp: SynchList_take_def object_def bindE_eq_Inr)
    obtain z where "view dev k1 = (view dev k)\<lparr>v_slists := z\<rparr>" using upd_list_view [OF k1(1), of dev] by auto
    then show ?thesis by (rule lists_push_from [OF k1(2) _ assms(2)]) (simp_all add: plain_def)
  qed
qed

lemma Wait_exec:
  assumes "Condition_Wait c l k = Inr k'" "executing (F_Wait c l) (view dev k)"
  shows "good (view dev k) (view dev k')"
proof -
  obtain q where q: "k_conds k c = Some q" using assms(1) by (auto simp: Condition_Wait_def res_simps)
  let ?w = "v_brk (view dev k)"
  obtain k1 where k1: "Semaphore_new 0 k = (?w, k1)"
    "push [F_Release l, F_P ?w, F_Acquire l, F_DeleteSemaphore ?w] (k1\<lparr>k_conds := (k_conds k1)(c \<mapsto> q @ [?w])\<rparr>) = Inr k'"
    using assms(1) q by (auto simp: Condition_Wait_def res_simps object_def Semaphore_new_def view_def)
  note v1 = Semaphore_new_view [OF k1(1), of dev]
  have c: "k_conds k1 = v_conds (view dev k1)" by (simp add: view_def)
  have "view dev k' = with_frames ((view dev k)\<lparr>v_sems := (v_sems (view dev k))(?w \<mapsto> \<lparr>sem_value = 0, sem_queue = []\<rparr>),
      v_conds := (v_conds (view dev k))(c \<mapsto> q @ [?w]), v_brk := ?w + 1\<rparr>)
      ([F_Release l, F_P ?w, F_Acquire l, F_DeleteSemaphore ?w] @ v_frames (view dev k) (v_cur (view dev k)))"
    using push_view [OF k1(2), of dev] v1 unfolding conds_view c by simp
  then show ?thesis using Wait_good [OF assms(2), of q ?w] q by (simp add: view_def [of dev k, THEN arg_cong, of v_conds])
qed

lemma Signal_exec:
  assumes "Condition_Signal c l k = Inr k'" "executing (F_Signal c l) (view dev k)"
  shows "good (view dev k) (view dev k')"
proof -
  obtain q where q: "k_conds k c = Some q" using assms(1) by (auto simp: Condition_Signal_def res_simps)
  have qv: "v_conds (view dev k) c = Some q" using q by (simp add: view_def)
  show ?thesis
  proof (cases q)
    case Nil
    then have "k' = k" using assms(1) q by (auto simp: Condition_Signal_def res_simps object_def)
    show ?thesis unfolding \<open>k' = k\<close> by (rule same_from [OF refl assms(2)]) simp
  next
    case (Cons w ws)
    then have p: "push [F_V w] (k\<lparr>k_conds := (k_conds k)(c \<mapsto> ws)\<rparr>) = Inr k'"
      using assms(1) q by (auto simp: Condition_Signal_def res_simps object_def)
    have c: "k_conds k = v_conds (view dev k)" by (simp add: view_def)
    have "view dev k' = with_frames ((view dev k)\<lparr>v_conds := (v_conds (view dev k))(c \<mapsto> ws)\<rparr>) ([F_V w] @ v_frames (view dev k) (v_cur (view dev k)))"
      using push_view [OF p, of dev] unfolding conds_view c by simp
    then show ?thesis using Signal_good [OF assms(2), of w ws] qv Cons by simp
  qed
qed

lemma Release_exec:
  assumes "Lock_Release l k = Inr k'" "executing (F_Release l) (view dev k)"
  shows "good (view dev k) (view dev k')"
proof -
  obtain x k1 where x: "k_locks k l = Some x" "lock_holder x = Some (k_currentThread k)"
    and k1: "upd_lock l None k = Inr k1" "push [F_V (lock_semaphore x)] k1 = Inr k'"
    using assms(1) by (auto simp: Lock_Release_def IsHeldByCurrentThread_def res_simps)
  have xv: "v_locks (view dev k) l = Some x" "lock_holder x = Some (v_cur (view dev k))" using x by (simp_all add: view_def)
  have v1: "view dev k1 = (view dev k)\<lparr>v_locks := (v_locks (view dev k))(l \<mapsto> x\<lparr>lock_holder := None\<rparr>)\<rparr>"
    using upd_lock_view [OF k1(1), of dev] xv(1) by auto
  have "view dev k' = with_frames ((view dev k)\<lparr>v_locks := (v_locks (view dev k))(l \<mapsto> x\<lparr>lock_holder := None\<rparr>)\<rparr>)
      ([F_V (lock_semaphore x)] @ v_frames (view dev k) (v_cur (view dev k)))"
    using push_view [OF k1(2), of dev] unfolding v1 by simp
  then show ?thesis using Release_good [OF assms(2) xv] by simp
qed

lemma V_exec:
  assumes "Semaphore_V s k = Inr k'" "executing (F_V s) (view dev k)"
  shows "good (view dev k) (view dev k')"
proof -
  obtain k1 where k1: "V_body s (set_level IntOff k) = Inr k1" "push [F_SetLevel (hw_level k)] k1 = Inr k'"
    using assms(1) by (auto simp: Semaphore_V_def Let_def bindE_eq_Inr)
  obtain x where x: "v_sems (view dev k) s = Some x" "view dev k1 = V_view s x (view dev k)"
    using V_body_view [OF k1(1), of dev] by auto
  have "view dev k' = with_frames (V_view s x (view dev k)) ([F_SetLevel (hw_level k)] @ v_frames (view dev k) (v_cur (view dev k)))"
    using push_view [OF k1(2), of dev] unfolding x(2) by (simp add: V_view_same)
  then show ?thesis using V_good [OF assms(2) x(1)] by simp
qed

lemma P_exec:
  assumes "Semaphore_P s k = Inr k'" "executing (F_P s) (view dev k)"
  shows "good (view dev k) (view dev k')"
  using push_view [OF assms(1) [unfolded Semaphore_P_def Let_def], of dev] P_good [OF assms(2)] by simp

lemma Acquire_exec:
  assumes "Lock_Acquire l k = Inr k'" "executing (F_Acquire l) (view dev k)"
  shows "good (view dev k) (view dev k')"
proof -
  obtain x where x: "k_locks k l = Some x" "push [F_P (lock_semaphore x), F_SetHolder l] k = Inr k'"
    using assms(1) by (auto simp: Lock_Acquire_def res_simps)
  have "v_locks (view dev k) l = Some x" using x(1) by (simp add: view_def)
  then show ?thesis using Acquire_good [OF assms(2)] push_view [OF x(2), of dev] by simp
qed

lemma SetHolder_exec:
  assumes "upd_lock l (Some (k_currentThread k)) k = Inr k'" "executing (F_SetHolder l) (view dev k)"
  shows "good (view dev k) (view dev k')"
proof -
  have "k_currentThread k = v_cur (view dev k)" by (simp add: view_def)
  then show ?thesis using upd_lock_view [OF assms(1), of dev] SetHolder_good [OF assms(2)] by auto
qed

lemma DeleteSemaphore_exec:
  assumes "Semaphore_delete s k = Inr k'" "executing (F_DeleteSemaphore s) (view dev k)"
  shows "good (view dev k) (view dev k')"
  using Semaphore_delete_view [OF assms(1), of dev] DeleteSemaphore_good [OF assms(2)] by simp

lemma Run_exec:
  assumes "Machine_Run_round k = Inr k'" "executing F_Instruction (view dev k)"
  shows "good (view dev k) (view dev k')"
proof -
  obtain m m' k1 where k1: "leave_machine m' k = Inr k1" "push [F_OneTick, F_Instruction] k1 = Inr k'"
    using assms(1) by (auto simp: Machine_Run_round_def bindE_eq_Inr)
  show ?thesis by (rule push_from [OF k1(2) leave_machine_view [OF k1(1)] assms(2)]) (simp_all add: plain_def)
qed

lemma Execute_exec:
  assumes "Execute s k = Inr k'" "executing (F_Execute s) (view dev k)"
  shows "good (view dev k) (view dev k')"
proof -
  obtain m m' k1 where k1: "leave_machine m' k = Inr k1" "push [F_MachineRun] k1 = Inr k'"
    using assms(1) by (auto simp: Execute_def bindE_eq_Inr)
  show ?thesis by (rule push_from [OF k1(2) leave_machine_view [OF k1(1)] assms(2)]) (simp_all add: plain_def)
qed

lemma exec_good:
  assumes "exec cb act f k = Inr k'" "executing f (view dev k)"
  shows "good (view dev k) (view dev k')"
proof (cases f)
  case F_Begin
  then show ?thesis using assms Begin_good by simp
next
  case F_Finish
  then show ?thesis using assms Finish_good by simp
next
  case F_Yield
  then show ?thesis using assms Yield_good by simp
next
  case (F_Sleep b)
  then show ?thesis using executingD(4) [OF assms(2)] by simp
next
  case F_Switched
  then show ?thesis using executingD(4) [OF assms(2)] by simp
next
  case (F_SetLevel l)
  then show ?thesis using assms SetLevel_good [of l k k' f] by simp
next
  case F_OneTick
  then show ?thesis using assms OneTick_good [of k k' f] by simp
next
  case (F_SetStatus st)
  then have "view dev k' = view dev k" using assms(1) by auto
  then show ?thesis by (rule same_from [OF _ assms(2)]) (simp add: F_SetStatus)
next
  case (F_Fork t)
  then show ?thesis using assms Fork_good by simp
next
  case (F_createThread uid)
  then obtain r k1 where k1: "createThread (Some (k_currentThread k)) uid k = Inr (r, k1)" "k' = returning r k1"
    using assms(1) by (auto simp: bindE_eq_Inr)
  then show ?thesis using createThread_good [OF k1(1)] assms(2) F_createThread by simp
next
  case (F_setPriority t p)
  then show ?thesis using assms setPriority_good by simp
next
  case (F_P s)
  then show ?thesis using assms P_exec by simp
next
  case (F_P_loop s)
  then show ?thesis using executingD(4) [OF assms(2)] by simp
next
  case (F_V s)
  then show ?thesis using assms V_exec by simp
next
  case (F_Acquire l)
  then show ?thesis using assms Acquire_exec by simp
next
  case (F_SetHolder l)
  then show ?thesis using assms SetHolder_exec by simp
next
  case (F_Release l)
  then show ?thesis using assms Release_exec by simp
next
  case (F_Wait c l)
  then show ?thesis using assms Wait_exec by simp
next
  case (F_DeleteSemaphore s)
  then show ?thesis using assms DeleteSemaphore_exec by simp
next
  case (F_Signal c l)
  then show ?thesis using assms Signal_exec by simp
next
  case (F_Broadcast c l)
  then obtain q where "object (k_conds k) c = Inr q" and q: "(if q \<noteq> [] then push [F_Signal c l, F_Broadcast c l] k else Inr k) = Inr k'"
    using assms(1) by (auto simp: Condition_Broadcast_def bindE_eq_Inr)
  show ?thesis
  proof (cases "q = []")
    case True
    then have "view dev k' = view dev k" using q by simp
    then show ?thesis by (rule same_from [OF _ assms(2)]) (simp add: F_Broadcast)
  next
    case False
    then have "push [F_Signal c l, F_Broadcast c l] k = Inr k'" using q by simp
    then show ?thesis by (rule push_from [OF _ refl assms(2)]) (simp_all add: F_Broadcast plain_def)
  qed
next
  case (F_SL_Append l i)
  then obtain x where "object (k_slists k) l = Inr x" and "push [F_Acquire (sl_lock x), F_SL_PutItem l i, F_Signal (sl_listEmpty x) (sl_lock x), F_Release (sl_lock x)] k = Inr k'"
    using assms(1) by (auto simp: SynchList_Append_def bindE_eq_Inr)
  from this(2) show ?thesis by (rule push_from [OF _ refl assms(2)]) (simp_all add: F_SL_Append plain_def)
next
  case (F_SL_PutItem l i)
  then obtain z where "view dev k' = (view dev k)\<lparr>v_slists := z\<rparr>" using assms(1) upd_list_view by (fastforce simp: bindE_eq_Inr)
  then show ?thesis by (rule lists_from [OF _ assms(2)]) (simp add: F_SL_PutItem)
next
  case (F_SL_RemoveFront l)
  then obtain x where "object (k_slists k) l = Inr x" and "push [F_Acquire (sl_lock x), F_SL_TakeItem l] k = Inr k'"
    using assms(1) by (auto simp: SynchList_RemoveFront_def bindE_eq_Inr)
  from this(2) show ?thesis by (rule push_from [OF _ refl assms(2)]) (simp_all add: F_SL_RemoveFront plain_def)
next
  case (F_SL_TakeItem l)
  then show ?thesis using assms SynchList_take_good by simp
next
  case (F_SL_Remove l i)
  then obtain x where "object (k_slists k) l = Inr x" and "push [F_Acquire (sl_lock x), F_SL_DropItem l i, F_Release (sl_lock x)] k = Inr k'"
    using assms(1) by (auto simp: SynchList_Remove_def bindE_eq_Inr)
  from this(2) show ?thesis by (rule push_from [OF _ refl assms(2)]) (simp_all add: F_SL_Remove plain_def)
next
  case (F_SL_DropItem l i)
  then obtain z where "view dev k' = (view dev k)\<lparr>v_slists := z\<rparr>" using assms(1) upd_list_view by (fastforce simp: bindE_eq_Inr)
  then show ?thesis by (rule lists_from [OF _ assms(2)]) (simp add: F_SL_DropItem)
next
  case (F_SL_Apply l)
  then obtain x where "object (k_slists k) l = Inr x" and "push [F_Acquire (sl_lock x), F_SL_Visit l, F_Release (sl_lock x)] k = Inr k'"
    using assms(1) by (auto simp: SynchList_Apply_def bindE_eq_Inr)
  from this(2) show ?thesis by (rule push_from [OF _ refl assms(2)]) (simp_all add: F_SL_Apply plain_def)
next
  case (F_SL_Visit l)
  then have "view dev k' = view dev k" using assms(1) by (auto simp: SynchList_visit_def bindE_eq_Inr)
  then show ?thesis by (rule same_from [OF _ assms(2)]) (simp add: F_SL_Visit)
next
  case (F_Execute s)
  then show ?thesis using assms Execute_exec by simp
next
  case F_MachineRun
  then have p: "push [F_Instruction] (k\<lparr>hw_status := UserMode\<rparr>) = Inr k'" using assms(1) by (simp add: Machine_Run_def)
  show ?thesis by (rule push_from [OF p _ assms(2)]) (simp_all add: F_MachineRun plain_def)
next
  case F_Instruction
  then show ?thesis using assms Run_exec by simp
next
  case (F_Do a)
  then show ?thesis using assms operation_good by simp
qed

lemma popped_executing:
  assumes K: "kinv (\<lambda>_. 0) v" and R: "v_stat v (v_cur v) = Some RUNNING" and F: "v_frames v (v_cur v) = f # fs"
    and f: "\<And>b. f \<noteq> F_Sleep b" "f \<noteq> F_Switched" "\<And>s. f \<noteq> F_P_loop s"
  shows "executing f (with_frames v fs)"
  unfolding executing_def
proof (intro conjI allI impI)
  let ?w = "with_frames v fs"
  note K' = K [unfolded kinv_def]
  have ls: "lock_sems ?w = lock_sems v" by (simp add: lock_sems_def)
  have sh: "shape (f # fs)" using K_stackD(1) [of v "v_cur v"] K' F by simp
  then have dp: "list_all deep (f # fs)" using f by (simp add: shape_iff) (metis blocked_iff list.inject)
  show "kinv (\<lambda>l. weight l (sem_of ?w l) f) ?w" using pop_ok [OF K F f(3)] by simp
  show "v_stat ?w (v_cur ?w) = Some RUNNING" using R by simp
  show "list_all deep (v_frames ?w (v_cur ?w))" using dp by simp
  show "solvent l (lock_semaphore x) (f # v_frames ?w (v_cur ?w))" if "v_locks ?w l = Some x" for l x
  proof -
    have "solvent l (lock_semaphore x) (v_frames v (v_cur v))" using K' that unfolding K_lock_def by simp
    then show ?thesis using F by simp
  qed
  have W: "s \<notin> lock_sems v \<and> s \<notin> v_dev v \<and> (\<forall>t'. t' \<noteq> t \<longrightarrow> \<not> uses s (v_frames v t') \<and> F_DeleteSemaphore s \<notin> set (v_frames v t'))
     \<and> ordered s (v_frames v t)" if "F_DeleteSemaphore s \<in> set (v_frames v t)" for s t
    using K' that unfolding K_waiter_def by blast
  show "safe ?w f"
  proof (cases "(\<exists>s. f = F_P s) \<or> (\<exists>s. f = F_DeleteSemaphore s)")
    case False
    then show ?thesis using dp f by (cases f) simp_all
  next
    case True
    then consider (P) s where "f = F_P s" | (D) s where "f = F_DeleteSemaphore s" by blast
    then show ?thesis
    proof cases
      case P
      have "s < v_brk v" using K_boundD(8) [of v f "v_cur v" s] K' F P by simp
      moreover have "F_DeleteSemaphore s \<notin> set (v_frames v t)" if "t \<noteq> v_cur v" for t
      proof -
        have "uses s (v_frames v (v_cur v))" using F P by simp
        then show ?thesis using W [of s t] that by metis
      qed
      ultimately show ?thesis using P by simp
    next
      case D
      note W' = W [of s "v_cur v"]
      have "s \<notin> lock_sems v" "\<not> uses s fs" "\<And>t. t \<noteq> v_cur v \<Longrightarrow> \<not> uses s (v_frames v t)" using W' F D by simp_all
      then show ?thesis using D ls by simp
    qed
  qed
qed

lemma run_frame_good:
  assumes "run_frame cb act k = Inr k'" "kinv (\<lambda>_. 0) (view dev k)" "cur_ok (view dev k)"
  shows "good (view dev k) (view dev k')"
proof -
  let ?v = "view dev k"
  obtain th where th': "k_threads k (k_currentThread k) = Some th" and go: "(case th_frames th of [] \<Rightarrow> Inl Bad_Access
      | f # fs \<Rightarrow> bindE (upd_thread (k_currentThread k) (\<lambda>th. th\<lparr>th_frames := fs\<rparr>) k) (\<lambda>k. exec cb act f k)) = Inr k'"
    using assms(1) by (auto simp: run_frame_def bindE_eq_Inr object_eq_Inr)
  obtain f fs where ffs: "th_frames th = f # fs" using go by (cases "th_frames th") simp_all
  note th = th' ffs
  obtain k1 where pop: "upd_thread (k_currentThread k) (\<lambda>th. th\<lparr>th_frames := fs\<rparr>) k = Inr k1" and ex: "exec cb act f k1 = Inr k'"
    using go ffs by (auto simp: bindE_eq_Inr)
  have F: "v_frames ?v (v_cur ?v) = f # fs" using th by (simp add: view_def frames_def)
  have v1: "view dev k1 = with_frames ?v fs" by (rule pop_view [OF pop])
  show ?thesis
  proof (cases "\<exists>b. f = F_Sleep b")
    case True
    then obtain b where b: "f = F_Sleep b" by blast
    then have "Sleep_round cb b k1 = Inr k'" using ex by simp
    then show ?thesis by (rule Sleep_good [OF _ pop assms(2,3)]) (use F b in simp)
  next
    case False
    then have R: "v_stat ?v (v_cur ?v) = Some RUNNING"
      using assms(3) F by (cases f) (simp_all add: cur_ok_def)
    have sh: "shape (f # fs)" using K_stackD(1) [of ?v "v_cur ?v"] assms(2) F by (simp add: kinv_def)
    consider (S) "f = F_Switched" | (P) s where "f = F_P_loop s" | (E) "f \<noteq> F_Switched" "\<And>s. f \<noteq> F_P_loop s" by blast
    then show ?thesis
    proof cases
      case S
      have "kinv (\<lambda>_. 0) (view dev k1)" using pop_ok [OF assms(2) F] S unfolding v1 by simp
      moreover have "F_Sleep b \<notin> set fs" for b using sh S by (auto simp: blocked_iff dest: deep_not(2))
      moreover have "after_switch k1 = Inr k'" using ex S by simp
      ultimately have "good (view dev k1) (view dev k')" by (intro Switched_good) (use R in \<open>simp_all add: v1\<close>)
      then show ?thesis by (rule good_from) (simp_all add: v1)
    next
      case P
      then have "P_round s k1 = Inr k'" using ex by simp
      then show ?thesis by (rule P_round_good [OF _ pop assms(2) R]) (use F P in simp)
    next
      case E
      have "executing f (view dev k1)" unfolding v1 by (rule popped_executing [OF assms(2) R F]) (use False E in auto)
      then have "good (view dev k1) (view dev k')" by (rule exec_good [OF ex])
      then show ?thesis by (rule good_from) (simp_all add: v1)
    qed
  qed
qed

lemma called_executing:
  assumes "call_ok k f" "kinv (\<lambda>_. 0) (view dev k)" "cur_ok (view dev k)" "v_frames (view dev k) (v_cur (view dev k)) = []"
  shows "executing f (view dev k)"
  unfolding executing_def
proof (intro conjI allI impI)
  let ?v = "view dev k"
  note K = assms(2) [unfolded kinv_def]
  have priv: "private_sem k s \<longleftrightarrow> s \<in> lock_sems ?v \<or> (\<exists>t. F_DeleteSemaphore s \<in> set (v_frames ?v t))" for s
    by (auto simp: private_sem_def lock_sems_def view_def)
  have w: "weight l (lock_semaphore x) f = 0" if "v_locks ?v l = Some x" for l x
  proof -
    have "lock_semaphore x \<in> lock_sems ?v" using that unfolding lock_sems_def by blast
    then show ?thesis using assms(1) priv by (cases f) auto
  qed
  show R: "v_stat ?v (v_cur ?v) = Some RUNNING" using assms(3,4) by (simp add: cur_ok_def)
  show "list_all deep (v_frames ?v (v_cur ?v))" using assms(4) by simp
  show "kinv (\<lambda>l. weight l (sem_of ?v l) f) ?v" by (rule kinv_weight_cong [OF assms(2)]) (simp add: w)
  show "solvent l (lock_semaphore x) (f # v_frames ?v (v_cur ?v))" if "v_locks ?v l = Some x" for l x
    using w [OF that] assms(4) by simp
  show "safe ?v f"
  proof (cases f)
    case (F_P s)
    then have "v_sems ?v s \<noteq> None" "\<not> private_sem k s" using assms(1) by (simp_all add: view_def)
    then show ?thesis using F_P K_boundD(2) [of ?v s] K priv by simp
  next
    case (F_Fork t)
    then show ?thesis using assms(1) by (auto simp: view_def)
  next
    case (F_setPriority t p)
    then show ?thesis using assms(1) by (simp add: view_def)
  qed (use assms(1,4) in simp_all)
qed

lemma new_good:
  fixes k :: "('cb, 'a, 'z) kernel_scheme"
  assumes "(p, k') \<in> {Semaphore_new n k, Lock_new k, Condition_new k, SynchList_new k}"
    and "kinv (\<lambda>_. 0) (view dev k)" "cur_ok (view dev k)"
  shows "good (view dev k) (view dev k')"
proof -
  have keep: "good (view dev k) w" if "kinv (\<lambda>_. 0) w" "v_cur w = v_cur (view dev k)" "v_stat w = v_stat (view dev k)"
    "v_frames w = v_frames (view dev k)" "\<And>l x. v_locks (view dev k) l = Some x \<Longrightarrow> v_locks w l = Some x" for w
    using that(1,5) cur_ok_cong [OF that(2-4)] assms(3) by (simp add: good_def holders_kept_def)
  have lock: "v_locks v l = Some x \<Longrightarrow> kinv (\<lambda>_. 0) v \<Longrightarrow> l \<noteq> v_brk v + 1" for l x and v :: "'a kview"
    using K_boundD(3) [of v l x] by (auto simp: kinv_def)
  have Lock: "good (view dev k) (view dev k1) \<and> kinv (\<lambda>_. 0) (view dev k1)" if "Lock_new k = (l, k1)" for l k1
  proof -
    have v: "view dev k1 = (view dev k)\<lparr>v_sems := (v_sems (view dev k))(v_brk (view dev k) \<mapsto> \<lparr>sem_value = 1, sem_queue = []\<rparr>),
      v_locks := (v_locks (view dev k))(v_brk (view dev k) + 1 \<mapsto> \<lparr>lock_semaphore = v_brk (view dev k), lock_holder = None\<rparr>),
      v_brk := v_brk (view dev k) + 2\<rparr>"
      using Lock_new_view [OF that, of dev] by simp
    have "kinv (\<lambda>_. 0) (view dev k1)" unfolding v by (rule new_lock_ok [OF assms(2)])
    moreover have "v_locks (view dev k1) l' = Some x" if l': "v_locks (view dev k) l' = Some x" for l' x
      using lock [OF l' assms(2)] l' unfolding v by simp
    ultimately show ?thesis using keep [of "view dev k1"] v by simp
  qed
  have Cond: "good (view dev k1) (view dev k2)" if "Condition_new k1 = (c, k2)" "kinv (\<lambda>_. 0) (view dev k1)" "cur_ok (view dev k1)" for c k1 k2
  proof -
    have v: "view dev k2 = (view dev k1)\<lparr>v_conds := (v_conds (view dev k1))(c \<mapsto> []), v_brk := v_brk (view dev k1) + 1\<rparr>"
      using Condition_new_view [OF that(1), of dev] by simp
    have "kinv (\<lambda>_. 0) (view dev k2)" unfolding v by (rule conds_ok [OF that(2)]) simp_all
    moreover have "cur_ok (view dev k2)" using cur_ok_cong [of "view dev k2" "view dev k1"] that(3) v by simp
    ultimately show ?thesis by (simp add: good_def v same_holders)
  qed
  consider (S) "(p, k') = Semaphore_new n k" | (L) "(p, k') = Lock_new k" | (C) "(p, k') = Condition_new k"
    | (SL) "(p, k') = SynchList_new k" using assms(1) by blast
  then show ?thesis
  proof cases
    case S
    have v: "view dev k' = (view dev k)\<lparr>v_sems := (v_sems (view dev k))(v_brk (view dev k) \<mapsto> \<lparr>sem_value = n, sem_queue = []\<rparr>), v_brk := v_brk (view dev k) + 1\<rparr>"
      using Semaphore_new_view [OF S [symmetric], of dev] by simp
    have "kinv (\<lambda>_. 0) (view dev k')" unfolding v by (rule new_sem_ok [OF assms(2)])
    then show ?thesis using keep [of "view dev k'"] v by simp
  next
    case L
    then show ?thesis using Lock [of p k'] by simp
  next
    case C
    then show ?thesis using Cond [of k p k'] assms(2,3) by simp
  next
    case SL
    obtain l k1 where L: "Lock_new k = (l, k1)" by (cases "Lock_new k")
    obtain c k2 where C: "Condition_new k1 = (c, k2)" by (cases "Condition_new k1")
    have g1: "good (view dev k) (view dev k1)" "kinv (\<lambda>_. 0) (view dev k1)" "cur_ok (view dev k1)"
      using Lock [OF L] by (simp_all add: good_def)
    have g2: "good (view dev k1) (view dev k2)" by (rule Cond [OF C g1(2,3)])
    obtain z where v3: "view dev k' = (view dev k2)\<lparr>v_brk := v_brk (view dev k2) + 1, v_slists := z\<rparr>"
      using SynchList_new_view [OF SL [symmetric] L C, of dev] by blast
    have "kinv (\<lambda>_. 0) (view dev k')"
    proof -
      have K2: "kinv (\<lambda>_. 0) (view dev k2)" using g2 by (simp add: good_def)
      have "v_conds (view dev k2) c = Some []" using Condition_new_view [OF C, of dev] by simp
      then have "(v_conds (view dev k2))(c \<mapsto> []) = v_conds (view dev k2)" by (metis fun_upd_triv)
      then show ?thesis using conds_ok [OF K2, of "[]" "v_brk (view dev k2) + 1" c] unfolding v3 by simp
    qed
    moreover have "holders_kept (view dev k) (view dev k')"
    proof -
      have "v_locks (view dev k') = v_locks (view dev k1)" using Condition_new_view [OF C, of dev] v3 by simp
      then show ?thesis using g1(1) by (simp add: good_def holders_kept_def)
    qed
    moreover have "cur_ok (view dev k')" using g2 cur_ok_cong [of "view dev k'" "view dev k2"] v3 by (simp add: good_def)
    ultimately show ?thesis by (simp add: good_def)
  qed
qed

lemma step_good:
  assumes "kstep cb act k k'" "kinv (\<lambda>_. 0) (view dev k)" "cur_ok (view dev k)"
  shows "good (view dev k) (view dev k')"
  using assms(1)
proof cases
  case step_frame
  then show ?thesis using run_frame_good assms(2,3) by blast
next
  case (step_call th f)
  have "v_frames (view dev k) (v_cur (view dev k)) = []" using step_call(1,2) by (simp add: view_def frames_def)
  from called_executing [OF step_call(3) assms(2,3) this] show ?thesis by (rule exec_good [OF step_call(4)])
next
  case (step_new th p n)
  then show ?thesis using new_good assms(2,3) by blast
qed

end

end
