(* ===== verification/Network.thy ===== *)
theory Network
  imports Disk
begin

text \<open>
  The message formats of machine/network.h and network/post.h: packet and mail headers, their layout
  in the byte buffers that go over the wire, and the class \<open>Mail\<close>.

  A packet on the wire is a packet header, a mail header and the data, padded to \<open>MaxWireSize\<close>
  bytes with whatever the buffer held before (\<open>junk\<close>). Lengths are unsigned, addresses are
  integers. Copying more bytes than a buffer holds is \<open>Bad_Access\<close>.
\<close>

section \<open>Headers\<close>

record PacketHeader =
  pkt_to :: int
  pkt_from :: int
  pkt_length :: "32 word"

record MailHeader =
  mail_to :: int
  mail_from :: int
  mail_length :: "32 word"

definition MaxWireSize :: nat where "MaxWireSize = 64"
definition sizeof_Header :: nat where "sizeof_Header = 12"
definition MaxPacketSize :: nat where "MaxPacketSize = MaxWireSize - sizeof_Header"
definition MaxMailSize :: nat where "MaxMailSize = MaxPacketSize - sizeof_Header"

lemma wire_sizes: "MaxWireSize = 64" "sizeof_Header = 12" "MaxPacketSize = 52" "MaxMailSize = 40"
  by (simp_all add: MaxWireSize_def sizeof_Header_def MaxPacketSize_def MaxMailSize_def)

definition header_bytes :: "int \<Rightarrow> int \<Rightarrow> 32 word \<Rightarrow> byte list" where
  "header_bytes a b n = bytes_of_int a @ bytes_of_int b @ bytes_of_word n"

definition PacketHeader_bytes :: "PacketHeader \<Rightarrow> byte list" where
  "PacketHeader_bytes h = header_bytes (pkt_to h) (pkt_from h) (pkt_length h)"

definition PacketHeader_of_bytes :: "byte list \<Rightarrow> PacketHeader" where
  "PacketHeader_of_bytes bs = \<lparr>pkt_to = int_of_bytes (take 4 bs), pkt_from = int_of_bytes (take 4 (drop 4 bs)),
     pkt_length = word_of_bytes (take 4 (drop 8 bs))\<rparr>"

definition MailHeader_bytes :: "MailHeader \<Rightarrow> byte list" where
  "MailHeader_bytes h = header_bytes (mail_to h) (mail_from h) (mail_length h)"

definition MailHeader_of_bytes :: "byte list \<Rightarrow> MailHeader" where
  "MailHeader_of_bytes bs = \<lparr>mail_to = int_of_bytes (take 4 bs), mail_from = int_of_bytes (take 4 (drop 4 bs)),
     mail_length = word_of_bytes (take 4 (drop 8 bs))\<rparr>"

lemma length_headers [simp]: "length (header_bytes a b n) = 12" "length (PacketHeader_bytes p) = 12" "length (MailHeader_bytes m) = 12"
  by (simp_all add: header_bytes_def PacketHeader_bytes_def MailHeader_bytes_def)

lemma PacketHeader_roundtrip:
  assumes "int_ok (pkt_to h)" "int_ok (pkt_from h)"
  shows "PacketHeader_of_bytes (PacketHeader_bytes h @ rest) = h"
  using assms by (simp add: PacketHeader_of_bytes_def PacketHeader_bytes_def header_bytes_def)

lemma MailHeader_roundtrip:
  assumes "int_ok (mail_to h)" "int_ok (mail_from h)"
  shows "MailHeader_of_bytes (MailHeader_bytes h @ rest) = h"
  using assms by (simp add: MailHeader_of_bytes_def MailHeader_bytes_def header_bytes_def)

section \<open>Buffers\<close>

text \<open>A new buffer of \<open>n\<close> bytes, and \<open>bcopy\<close> of \<open>n\<close> bytes to an offset of a buffer.\<close>

definition new_buffer :: "(nat \<Rightarrow> byte) \<Rightarrow> nat \<Rightarrow> byte list" where
  "new_buffer junk n = map junk [0..<n]"

definition bcopy :: "byte list \<Rightarrow> nat \<Rightarrow> byte list \<Rightarrow> nat \<Rightarrow> byte list res" where
  "bcopy src off dst n =
     (if length src < n \<or> length dst < off + n then Inl Bad_Access else Inr (overwrite off (take n src) dst))"

text \<open>\<open>NetworkOutput::Send\<close> puts the header before the data; \<open>PostOfficeOutput::Send\<close> does the same with its header.\<close>

definition Network_wire :: "(nat \<Rightarrow> byte) \<Rightarrow> PacketHeader \<Rightarrow> byte list \<Rightarrow> byte list res" where
  "Network_wire junk hdr data =
     bcopy data sizeof_Header (overwrite 0 (PacketHeader_bytes hdr) (new_buffer junk MaxWireSize)) (unat (pkt_length hdr))"

definition Post_buffer :: "(nat \<Rightarrow> byte) \<Rightarrow> MailHeader \<Rightarrow> byte list \<Rightarrow> byte list res" where
  "Post_buffer junk hdr data =
     bcopy data sizeof_Header (overwrite 0 (MailHeader_bytes hdr) (new_buffer junk MaxPacketSize)) (unat (mail_length hdr))"

section \<open>Mail\<close>

record Mail =
  m_pktHdr :: PacketHeader
  m_mailHdr :: MailHeader
  m_data :: "byte list"

definition Mail_new :: "(nat \<Rightarrow> byte) \<Rightarrow> PacketHeader \<Rightarrow> MailHeader \<Rightarrow> byte list \<Rightarrow> Mail res" where
  "Mail_new junk pktH mailH msgData =
     bindE (assertE (unat (mail_length mailH) \<le> MaxMailSize)) (\<lambda>_.
     bindE (bcopy msgData 0 (new_buffer junk MaxMailSize) (unat (mail_length mailH))) (\<lambda>d.
     Inr \<lparr>m_pktHdr = pktH, m_mailHdr = mailH, m_data = d\<rparr>))"

section \<open>A message survives the wire\<close>

lemma overwrite_start: "length new \<le> length xs \<Longrightarrow> overwrite 0 new xs = new @ drop (length new) xs"
  by (simp add: overwrite_def)

lemma length_new_buffer [simp]: "length (new_buffer junk n) = n"
  by (simp add: new_buffer_def)

lemma wire_layout:
  assumes "n \<le> length data" "12 + n \<le> length buf" "length hdr = 12"
  shows "bcopy data 12 (overwrite 0 hdr buf) n = Inr (hdr @ take n data @ drop (12 + n) buf)"
  using assms by (simp add: bcopy_def overwrite_def min_def add.commute)

lemma Post_buffer_layout:
  assumes "unat (mail_length h) \<le> MaxMailSize" "unat (mail_length h) \<le> length data"
  shows "\<exists>pad. Post_buffer junk h data = Inr (MailHeader_bytes h @ take (unat (mail_length h)) data @ pad)
    \<and> length pad = MaxMailSize - unat (mail_length h)"
proof -
  have "Post_buffer junk h data = Inr (MailHeader_bytes h @ take (unat (mail_length h)) data
      @ drop (12 + unat (mail_length h)) (new_buffer junk 52))"
    using assms by (simp add: Post_buffer_def wire_layout wire_sizes)
  then show ?thesis using assms by (auto simp: wire_sizes)
qed

lemma Network_wire_layout:
  assumes "unat (pkt_length h) \<le> MaxPacketSize" "unat (pkt_length h) \<le> length data"
  shows "\<exists>pad. Network_wire junk h data = Inr (PacketHeader_bytes h @ take (unat (pkt_length h)) data @ pad)
    \<and> length pad = MaxPacketSize - unat (pkt_length h)"
proof -
  have "Network_wire junk h data = Inr (PacketHeader_bytes h @ take (unat (pkt_length h)) data
      @ drop (12 + unat (pkt_length h)) (new_buffer junk 64))"
    using assms by (simp add: Network_wire_def wire_layout wire_sizes)
  then show ?thesis using assms by (auto simp: wire_sizes)
qed

end
