(* ===== verification/Devices.thy ===== *)
theory Devices
  imports Complex_Main Kernel_Step Network Synch_Disk
begin

text \<open>
  The device simulations and their drivers: machine/timer.cc, machine/console.cc,
  machine/network.cc and \<open>Disk::CallBack\<close> of machine/disk.cc, with the drivers threads/alarm.cc,
  userprog/synchconsole.cc, filesys/synchdisk.cc and network/post.cc; machine/callback.h; and the
  construction of all of them in threads/kernel.cc.

  A \<open>CallBackObj\<close> is a device or, as the object a device notifies, a driver. \<open>devices\<close> holds
  the device and driver objects the kernel points to, a null pointer being \<open>None\<close>, and the host:
  what the keyboard and the socket deliver on each poll, the random numbers, the contents of
  uninitialised buffers are functions of how often they were asked for, so they are arbitrary but
  fixed. \<open>CallBack\<close> is the virtual method, \<open>driver_call\<close> what the drivers' operations do
  when a thread calls them: the pieces of code between two operations on semaphores or locks.
\<close>

section \<open>State\<close>

datatype driver = D_Alarm | D_SynchDisk | D_SynchConsoleInput | D_SynchConsoleOutput | D_PostOfficeInput | D_PostOfficeOutput

datatype CallBackObj = CB_Timer | CB_Disk | CB_ConsoleInput | CB_ConsoleOutput | CB_NetworkInput | CB_NetworkOutput
  | CB_driver driver

datatype key = NoKey | EndOfFile | ReadError | Key byte

record host =
  h_keyboard :: "nat \<Rightarrow> key"
  h_polled :: nat
  h_display :: "byte list"
  h_socket :: "nat \<Rightarrow> byte list option"
  h_listened :: nat
  h_sent :: "(int \<times> byte list) list"
  h_random :: "nat \<Rightarrow> nat"
  h_drawn :: nat
  h_junk :: "nat \<Rightarrow> byte"

record Timer =
  tm_randomize :: bool
  tm_callPeriodically :: driver
  tm_disable :: bool

record ConsoleInput =
  ci_callWhenAvail :: driver
  ci_incoming :: byte

record ConsoleOutput =
  co_callWhenDone :: driver
  co_putBusy :: bool

text \<open>\<open>SynchConsoleInput\<close> and \<open>SynchConsoleOutput\<close> have the same data.\<close>

record SynchConsole =
  sc_lock :: nat
  sc_waitFor :: nat

record DiskDriver =
  sy_semaphore :: nat
  sy_lock :: nat
  sy_disk :: synchdisk

record NetworkInput =
  ni_callWhenAvail :: driver
  ni_inHdr :: PacketHeader
  ni_inbox :: "byte list"

record NetworkOutput =
  no_chanceToWork :: rat
  no_callWhenDone :: driver
  no_sendBusy :: bool

record PostOfficeInput =
  pi_boxes :: "nat list"
  pi_numBoxes :: int
  pi_messageAvailable :: nat
  pi_buffer :: "byte list"

record PostOfficeOutput =
  po_messageSent :: nat
  po_sendLock :: nat

record devices =
  dv_timer :: "Timer option"
  dv_consoleIn :: "ConsoleInput option"
  dv_synchConsoleIn :: "SynchConsole option"
  dv_consoleOut :: "ConsoleOutput option"
  dv_synchConsoleOut :: "SynchConsole option"
  dv_synchDisk :: "DiskDriver option"
  dv_networkIn :: "NetworkInput option"
  dv_postOfficeIn :: "PostOfficeInput option"
  dv_networkOut :: "NetworkOutput option"
  dv_postOfficeOut :: "PostOfficeOutput option"
  dv_hostName :: int
  dv_mails :: "nat \<rightharpoonup> Mail"
  dv_newMail :: nat
  dv_char :: "nat \<Rightarrow> byte"
  dv_sector :: "nat \<Rightarrow> byte list"
  dv_received :: "nat \<Rightarrow> (PacketHeader \<times> MailHeader \<times> byte list) option"
  dv_host :: host

text \<open>The calls of driver operations, and the pieces their code is cut into.\<close>

datatype device_op =
    Do_GetChar | Do_ConsoleInput_GetChar
  | Do_PutChar byte | Do_ConsoleOutput_PutChar byte
  | Do_ReadSector int | Do_read int | Do_WriteSector int "byte list" | Do_write int "byte list"
  | Do_PostalDelivery | Do_deliver
  | Do_Receive int | Do_Get
  | Do_Send PacketHeader MailHeader "byte list" | Do_Network_Send PacketHeader "byte list"
  | Do_Initialize_rest

type_synonym nachos = "(CallBackObj, device_op, devices) kernel_scheme"

abbreviation devs :: "nachos \<Rightarrow> devices" where
  "devs k \<equiv> kernel.more k"

abbreviation upd_devs :: "(devices \<Rightarrow> devices) \<Rightarrow> nachos \<Rightarrow> nachos" where
  "upd_devs f k \<equiv> kernel.more_update f k"

abbreviation upd_host :: "(host \<Rightarrow> host) \<Rightarrow> nachos \<Rightarrow> nachos" where
  "upd_host f k \<equiv> upd_devs (\<lambda>d. d\<lparr>dv_host := f (dv_host d)\<rparr>) k"

section \<open>Timer and alarm\<close>

definition RandomNumber :: "nachos \<Rightarrow> nat \<times> nachos" where
  "RandomNumber k =
     (let h = dv_host (devs k) in (h_random h (h_drawn h), upd_host (\<lambda>h. h\<lparr>h_drawn := h_drawn h + 1\<rparr>) k))"

definition Timer_SetInterrupt :: "nachos \<Rightarrow> nachos res" where
  "Timer_SetInterrupt k =
     bindE (deref (dv_timer (devs k))) (\<lambda>t.
     if \<not> tm_disable t then
       let (delay, k) = (if tm_randomize t
                         then let (r, k) = RandomNumber k in (1 + int r mod (TimerTicks * 2), k)
                         else (TimerTicks, k)) in
       Interrupt_Schedule CB_Timer delay TimerInt k
     else Inr k)"

definition Timer_new :: "bool \<Rightarrow> driver \<Rightarrow> nachos \<Rightarrow> nachos res" where
  "Timer_new doRandom toCall k =
     Timer_SetInterrupt (upd_devs (\<lambda>d. d\<lparr>dv_timer := Some \<lparr>tm_randomize = doRandom, tm_callPeriodically = toCall, tm_disable = False\<rparr>\<rparr>) k)"

definition Timer_Disable :: "nachos \<Rightarrow> nachos" where
  "Timer_Disable = upd_devs (\<lambda>d. d\<lparr>dv_timer := map_option (\<lambda>t. t\<lparr>tm_disable := True\<rparr>) (dv_timer d)\<rparr>)"

definition Alarm_new :: "bool \<Rightarrow> nachos \<Rightarrow> nachos res" where
  "Alarm_new doRandom k = Timer_new doRandom D_Alarm k"

definition Alarm_CallBack :: "nachos \<Rightarrow> nachos res" where
  "Alarm_CallBack k = Inr k"

section \<open>Interrupt handlers of the drivers\<close>

definition driver_CallBack :: "driver \<Rightarrow> nachos \<Rightarrow> nachos res" where
  "driver_CallBack c k = (case c of
     D_Alarm \<Rightarrow> Alarm_CallBack k
   | D_SynchDisk \<Rightarrow> bindE (deref (dv_synchDisk (devs k))) (\<lambda>x. V_body (sy_semaphore x) k)
   | D_SynchConsoleInput \<Rightarrow> bindE (deref (dv_synchConsoleIn (devs k))) (\<lambda>x. V_body (sc_waitFor x) k)
   | D_SynchConsoleOutput \<Rightarrow> bindE (deref (dv_synchConsoleOut (devs k))) (\<lambda>x. V_body (sc_waitFor x) k)
   | D_PostOfficeInput \<Rightarrow> bindE (deref (dv_postOfficeIn (devs k))) (\<lambda>x. V_body (pi_messageAvailable x) k)
   | D_PostOfficeOutput \<Rightarrow> bindE (deref (dv_postOfficeOut (devs k))) (\<lambda>x. V_body (po_messageSent x) k))"

definition Timer_CallBack :: "nachos \<Rightarrow> nachos res" where
  "Timer_CallBack k =
     bindE (deref (dv_timer (devs k))) (\<lambda>t. bindE (driver_CallBack (tm_callPeriodically t) k) Timer_SetInterrupt)"

section \<open>Console\<close>

text \<open>\<open>EOF\<close> as a character; \<open>char\<close> is signed.\<close>

definition EOF_char :: byte where "EOF_char = - 1"

definition ConsoleInput_new :: "driver \<Rightarrow> nachos \<Rightarrow> nachos res" where
  "ConsoleInput_new toCall k =
     Interrupt_Schedule CB_ConsoleInput ConsoleTime ConsoleReadInt
       (upd_devs (\<lambda>d. d\<lparr>dv_consoleIn := Some \<lparr>ci_callWhenAvail = toCall, ci_incoming = EOF_char\<rparr>\<rparr>) k)"

definition set_incoming :: "byte \<Rightarrow> nachos \<Rightarrow> nachos" where
  "set_incoming c = upd_devs (\<lambda>d. d\<lparr>dv_consoleIn := map_option (\<lambda>x. x\<lparr>ci_incoming := c\<rparr>) (dv_consoleIn d)\<rparr>)"

definition ConsoleInput_CallBack :: "nachos \<Rightarrow> nachos res" where
  "ConsoleInput_CallBack k =
     bindE (deref (dv_consoleIn (devs k))) (\<lambda>x.
     bindE (assertE (ci_incoming x = EOF_char)) (\<lambda>_.
     let h = dv_host (devs k); k = upd_host (\<lambda>h. h\<lparr>h_polled := h_polled h + 1\<rparr>) k in
     case h_keyboard h (h_polled h) of
       NoKey \<Rightarrow> Interrupt_Schedule CB_ConsoleInput ConsoleTime ConsoleReadInt k
     | EndOfFile \<Rightarrow> driver_CallBack (ci_callWhenAvail x) k
     | ReadError \<Rightarrow> Inl Assert_Failed
     | Key c \<Rightarrow>
         driver_CallBack (ci_callWhenAvail x)
           ((set_incoming c k)\<lparr>hw_stats := (hw_stats k)\<lparr>st_numConsoleCharsRead := st_numConsoleCharsRead (hw_stats k) + 1\<rparr>\<rparr>)))"

definition ConsoleInput_GetChar :: "nachos \<Rightarrow> (byte \<times> nachos) res" where
  "ConsoleInput_GetChar k =
     bindE (deref (dv_consoleIn (devs k))) (\<lambda>x.
     let ch = ci_incoming x in
     bindE (if ch \<noteq> EOF_char then Interrupt_Schedule CB_ConsoleInput ConsoleTime ConsoleReadInt k else Inr k) (\<lambda>k.
     Inr (ch, set_incoming EOF_char k)))"

definition ConsoleOutput_new :: "driver \<Rightarrow> nachos \<Rightarrow> nachos" where
  "ConsoleOutput_new toCall = upd_devs (\<lambda>d. d\<lparr>dv_consoleOut := Some \<lparr>co_callWhenDone = toCall, co_putBusy = False\<rparr>\<rparr>)"

definition set_putBusy :: "bool \<Rightarrow> nachos \<Rightarrow> nachos" where
  "set_putBusy b = upd_devs (\<lambda>d. d\<lparr>dv_consoleOut := map_option (\<lambda>x. x\<lparr>co_putBusy := b\<rparr>) (dv_consoleOut d)\<rparr>)"

definition ConsoleOutput_CallBack :: "nachos \<Rightarrow> nachos res" where
  "ConsoleOutput_CallBack k =
     bindE (deref (dv_consoleOut (devs k))) (\<lambda>x.
     driver_CallBack (co_callWhenDone x)
       ((set_putBusy False k)\<lparr>hw_stats := (hw_stats k)\<lparr>st_numConsoleCharsWritten := st_numConsoleCharsWritten (hw_stats k) + 1\<rparr>\<rparr>))"

definition ConsoleOutput_PutChar :: "byte \<Rightarrow> nachos \<Rightarrow> nachos res" where
  "ConsoleOutput_PutChar ch k =
     bindE (deref (dv_consoleOut (devs k))) (\<lambda>x.
     bindE (assertE (\<not> co_putBusy x)) (\<lambda>_.
     Interrupt_Schedule CB_ConsoleOutput ConsoleTime ConsoleWriteInt
       (set_putBusy True (upd_host (\<lambda>h. h\<lparr>h_display := h_display h @ [ch]\<rparr>) k))))"

definition SynchConsoleInput_new :: "nachos \<Rightarrow> nachos res" where
  "SynchConsoleInput_new k =
     bindE (ConsoleInput_new D_SynchConsoleInput k) (\<lambda>k.
     let (l, k) = Lock_new k; (s, k) = Semaphore_new 0 k in
     Inr (upd_devs (\<lambda>d. d\<lparr>dv_synchConsoleIn := Some \<lparr>sc_lock = l, sc_waitFor = s\<rparr>\<rparr>) k))"

definition SynchConsoleOutput_new :: "nachos \<Rightarrow> nachos res" where
  "SynchConsoleOutput_new k =
     (let k = ConsoleOutput_new D_SynchConsoleOutput k; (l, k) = Lock_new k; (s, k) = Semaphore_new 0 k in
      Inr (upd_devs (\<lambda>d. d\<lparr>dv_synchConsoleOut := Some \<lparr>sc_lock = l, sc_waitFor = s\<rparr>\<rparr>) k))"

definition SynchConsoleInput_GetChar :: "nachos \<Rightarrow> nachos res" where
  "SynchConsoleInput_GetChar k =
     bindE (deref (dv_synchConsoleIn (devs k))) (\<lambda>x.
     push [F_Acquire (sc_lock x), F_P (sc_waitFor x), F_Do Do_ConsoleInput_GetChar, F_Release (sc_lock x)] k)"

definition SynchConsoleOutput_PutChar :: "byte \<Rightarrow> nachos \<Rightarrow> nachos res" where
  "SynchConsoleOutput_PutChar ch k =
     bindE (deref (dv_synchConsoleOut (devs k))) (\<lambda>x.
     push [F_Acquire (sc_lock x), F_Do (Do_ConsoleOutput_PutChar ch), F_P (sc_waitFor x), F_Release (sc_lock x)] k)"

section \<open>Disk\<close>

definition Disk_CallBack_int :: "nachos \<Rightarrow> nachos res" where
  "Disk_CallBack_int k =
     bindE (deref (dv_synchDisk (devs k))) (\<lambda>x.
     driver_CallBack D_SynchDisk
       (upd_devs (\<lambda>d. d\<lparr>dv_synchDisk := Some (x\<lparr>sy_disk := (sy_disk x)\<lparr>sd_disk := Disk_CallBack (sd_disk (sy_disk x))\<rparr>\<rparr>)\<rparr>) k))"

definition DiskDriver_new :: "(nat \<Rightarrow> DiskCacheEntry) \<Rightarrow> byte list option \<Rightarrow> nachos \<Rightarrow> nachos res" where
  "DiskDriver_new junk unixfile k =
     (let (s, k) = Semaphore_new 0 k; (l, k) = Lock_new k in
      bindE (SynchDisk_new junk unixfile) (\<lambda>sd.
      Inr (upd_devs (\<lambda>d. d\<lparr>dv_synchDisk := Some \<lparr>sy_semaphore = s, sy_lock = l, sy_disk = sd\<rparr>\<rparr>) k)))"

definition DiskDriver_ReadSector :: "int \<Rightarrow> nachos \<Rightarrow> nachos res" where
  "DiskDriver_ReadSector sectorNumber k =
     bindE (deref (dv_synchDisk (devs k))) (\<lambda>x.
     push [F_Acquire (sy_lock x), F_Do (Do_read sectorNumber), F_Release (sy_lock x)] k)"

definition set_synchdisk :: "synchdisk \<Rightarrow> nachos \<Rightarrow> nachos" where
  "set_synchdisk sd = upd_devs (\<lambda>d. d\<lparr>dv_synchDisk := map_option (\<lambda>x. x\<lparr>sy_disk := sd\<rparr>) (dv_synchDisk d)\<rparr>)"

text \<open>What \<open>ReadSector\<close> does under the lock, up to \<open>semaphore->P()\<close>; a hit in the cache does not wait.\<close>

definition DiskDriver_read :: "int \<Rightarrow> nachos \<Rightarrow> nachos res" where
  "DiskDriver_read sectorNumber k =
     bindE (deref (dv_synchDisk (devs k))) (\<lambda>x.
     let sd = sy_disk x; c = sd_cache sd;
         give = (\<lambda>data k. upd_devs (\<lambda>d. d\<lparr>dv_sector := (dv_sector d)(k_currentThread k := data)\<rparr>) k) in
     case cache_find c sectorNumber 0 of
       Some index \<Rightarrow>
         Inr (give (ce_data (c ! index)) (set_synchdisk (sd\<lparr>sd_cache := c[index := (c ! index)\<lparr>ce_lru := now k\<rparr>]\<rparr>) k))
     | None \<Rightarrow>
         bindE (Disk_ReadRequest (sd_disk sd) (now k) sectorNumber) (\<lambda>(data, ticks, d1).
         let swap = cache_victim c 0 0;
             c1 = c[swap := \<lparr>ce_valid = 1, ce_dirty = 0, ce_sector = sectorNumber, ce_lru = now k, ce_data = data\<rparr>];
             k = k\<lparr>hw_stats := (hw_stats k)\<lparr>st_numDiskReads := st_numDiskReads (hw_stats k) + 1\<rparr>\<rparr> in
         bindE (Interrupt_Schedule CB_Disk ticks DiskInt (give data (set_synchdisk \<lparr>sd_disk = d1, sd_cache = c1\<rparr> k))) (\<lambda>k.
         push [F_P (sy_semaphore x)] k)))"

definition DiskDriver_WriteSector :: "int \<Rightarrow> byte list \<Rightarrow> nachos \<Rightarrow> nachos res" where
  "DiskDriver_WriteSector sectorNumber data k =
     bindE (deref (dv_synchDisk (devs k))) (\<lambda>x.
     push [F_Acquire (sy_lock x), F_Do (Do_write sectorNumber data), F_P (sy_semaphore x), F_Release (sy_lock x)] k)"

definition DiskDriver_write :: "int \<Rightarrow> byte list \<Rightarrow> nachos \<Rightarrow> nachos res" where
  "DiskDriver_write sectorNumber data k =
     bindE (deref (dv_synchDisk (devs k))) (\<lambda>x.
     let sd = sy_disk x in
     bindE (Disk_WriteRequest (sd_disk sd) (now k) sectorNumber data) (\<lambda>(ticks, d1).
     let c1 = map (\<lambda>e. if ce_sector e = sectorNumber then e\<lparr>ce_valid := - 1\<rparr> else e) (sd_cache sd);
         k = k\<lparr>hw_stats := (hw_stats k)\<lparr>st_numDiskWrites := st_numDiskWrites (hw_stats k) + 1\<rparr>\<rparr> in
     Interrupt_Schedule CB_Disk ticks DiskInt (set_synchdisk \<lparr>sd_disk = d1, sd_cache = c1\<rparr> k)))"

section \<open>Network\<close>

definition NetworkInput_new :: "PacketHeader \<Rightarrow> byte list \<Rightarrow> driver \<Rightarrow> nachos \<Rightarrow> nachos res" where
  "NetworkInput_new junkHdr junkBox toCall k =
     Interrupt_Schedule CB_NetworkInput NetworkTime NetworkRecvInt
       (upd_devs (\<lambda>d. d\<lparr>dv_networkIn := Some \<lparr>ni_callWhenAvail = toCall, ni_inHdr = junkHdr\<lparr>pkt_length := 0\<rparr>, ni_inbox = junkBox\<rparr>\<rparr>) k)"

definition NetworkInput_CallBack :: "nachos \<Rightarrow> nachos res" where
  "NetworkInput_CallBack k =
     bindE (Interrupt_Schedule CB_NetworkInput NetworkTime NetworkRecvInt k) (\<lambda>k.
     bindE (deref (dv_networkIn (devs k))) (\<lambda>x.
     if pkt_length (ni_inHdr x) \<noteq> 0 then Inr k
     else let h = dv_host (devs k); k = upd_host (\<lambda>h. h\<lparr>h_listened := h_listened h + 1\<rparr>) k in
     case h_socket h (h_listened h) of
       None \<Rightarrow> Inr k
     | Some buffer \<Rightarrow>
         bindE (assertE (length buffer = MaxWireSize)) (\<lambda>_.
         let hdr = PacketHeader_of_bytes buffer in
         bindE (assertE (pkt_to hdr = dv_hostName (devs k) \<and> unat (pkt_length hdr) \<le> MaxPacketSize)) (\<lambda>_.
         bindE (bcopy (drop sizeof_Header buffer) 0 (ni_inbox x) (unat (pkt_length hdr))) (\<lambda>inbox.
         driver_CallBack (ni_callWhenAvail x)
           ((upd_devs (\<lambda>d. d\<lparr>dv_networkIn := Some (x\<lparr>ni_inHdr := hdr, ni_inbox := inbox\<rparr>)\<rparr>) k)
              \<lparr>hw_stats := (hw_stats k)\<lparr>st_numPacketsRecvd := st_numPacketsRecvd (hw_stats k) + 1\<rparr>\<rparr>))))))"

definition NetworkInput_Receive :: "byte list \<Rightarrow> nachos \<Rightarrow> (PacketHeader \<times> byte list \<times> nachos) res" where
  "NetworkInput_Receive data k =
     bindE (deref (dv_networkIn (devs k))) (\<lambda>x.
     let hdr = ni_inHdr x;
         k = upd_devs (\<lambda>d. d\<lparr>dv_networkIn := Some (x\<lparr>ni_inHdr := hdr\<lparr>pkt_length := 0\<rparr>\<rparr>)\<rparr>) k in
     bindE (if pkt_length hdr \<noteq> 0 then bcopy (ni_inbox x) 0 data (unat (pkt_length hdr)) else Inr data) (\<lambda>data.
     Inr (hdr, data, k)))"

definition NetworkOutput_new :: "rat \<Rightarrow> driver \<Rightarrow> nachos \<Rightarrow> nachos" where
  "NetworkOutput_new reliability toCall =
     upd_devs (\<lambda>d. d\<lparr>dv_networkOut := Some
       \<lparr>no_chanceToWork = (if reliability < 0 then 0 else if reliability > 1 then 1 else reliability),
        no_callWhenDone = toCall, no_sendBusy = False\<rparr>\<rparr>)"

definition NetworkOutput_CallBack :: "nachos \<Rightarrow> nachos res" where
  "NetworkOutput_CallBack k =
     bindE (deref (dv_networkOut (devs k))) (\<lambda>x.
     driver_CallBack (no_callWhenDone x)
       ((upd_devs (\<lambda>d. d\<lparr>dv_networkOut := Some (x\<lparr>no_sendBusy := False\<rparr>)\<rparr>) k)
          \<lparr>hw_stats := (hw_stats k)\<lparr>st_numPacketsSent := st_numPacketsSent (hw_stats k) + 1\<rparr>\<rparr>))"

definition NetworkOutput_Send :: "PacketHeader \<Rightarrow> byte list \<Rightarrow> nachos \<Rightarrow> nachos res" where
  "NetworkOutput_Send hdr data k =
     bindE (deref (dv_networkOut (devs k))) (\<lambda>x.
     bindE (assertE (\<not> no_sendBusy x \<and> pkt_length hdr > 0 \<and> unat (pkt_length hdr) \<le> MaxPacketSize
                     \<and> pkt_from hdr = dv_hostName (devs k))) (\<lambda>_.
     bindE (Interrupt_Schedule CB_NetworkOutput NetworkTime NetworkSendInt k) (\<lambda>k.
     let (r, k) = RandomNumber k in
     if rat_of_nat (r mod 100) \<ge> no_chanceToWork x * 100 then Inr k
     else bindE (Network_wire (h_junk (dv_host (devs k))) hdr data) (\<lambda>buffer.
          Inr (upd_host (\<lambda>h. h\<lparr>h_sent := h_sent h @ [(pkt_to hdr, buffer)]\<rparr>) k)))))"

section \<open>Post office\<close>

text \<open>\<open>MailBox::Put\<close> and the second half of \<open>MailBox::Get\<close>, which copies the mail that \<open>RemoveFront\<close> returned.\<close>

definition MailBox_Put :: "nat \<Rightarrow> PacketHeader \<Rightarrow> MailHeader \<Rightarrow> byte list \<Rightarrow> nachos \<Rightarrow> nachos res" where
  "MailBox_Put box pktHdr mailHdr data k =
     bindE (Mail_new (h_junk (dv_host (devs k))) pktHdr mailHdr data) (\<lambda>mail.
     let p = dv_newMail (devs k) in
     push [F_SL_Append box p] (upd_devs (\<lambda>d. d\<lparr>dv_mails := (dv_mails d)(p \<mapsto> mail), dv_newMail := p + 1\<rparr>) k))"

definition MailBox_copy :: "nachos \<Rightarrow> (PacketHeader \<times> MailHeader \<times> byte list \<times> nachos) res" where
  "MailBox_copy k =
     bindE (deref (k_result k (k_currentThread k))) (\<lambda>p.
     bindE (object (dv_mails (devs k)) p) (\<lambda>mail.
     let n = unat (mail_length (m_mailHdr mail)) in
     if length (m_data mail) < n then Inl Bad_Access
     else Inr (m_pktHdr mail, m_mailHdr mail, take n (m_data mail), upd_devs (\<lambda>d. d\<lparr>dv_mails := (dv_mails d)(p := None)\<rparr>) k)))"

text \<open>One round of the loop of \<open>PostalDelivery\<close>, after its \<open>P\<close>; \<open>pi_buffer\<close> is the buffer it reuses.\<close>

definition PostalDelivery_round :: "nachos \<Rightarrow> nachos res" where
  "PostalDelivery_round k =
     bindE (deref (dv_postOfficeIn (devs k))) (\<lambda>x.
     bindE (NetworkInput_Receive (pi_buffer x) k) (\<lambda>(pktHdr, buffer, k).
     let mailHdr = MailHeader_of_bytes buffer in
     bindE (assertE (0 \<le> mail_to mailHdr \<and> mail_to mailHdr < pi_numBoxes x)) (\<lambda>_.
     bindE (assertE (unat (mail_length mailHdr) \<le> MaxMailSize)) (\<lambda>_.
     bindE (arr_get (pi_boxes x) (mail_to mailHdr)) (\<lambda>box.
     MailBox_Put box pktHdr mailHdr (drop sizeof_Header buffer)
       (upd_devs (\<lambda>d. d\<lparr>dv_postOfficeIn := Some (x\<lparr>pi_buffer := buffer\<rparr>)\<rparr>) k))))))"

definition PostalDelivery :: "nachos \<Rightarrow> nachos res" where
  "PostalDelivery k =
     bindE (deref (dv_postOfficeIn (devs k))) (\<lambda>x.
     push [F_P (pi_messageAvailable x), F_Do Do_deliver, F_Do Do_PostalDelivery] k)"

definition PostOfficeInput_Receive :: "int \<Rightarrow> nachos \<Rightarrow> nachos res" where
  "PostOfficeInput_Receive box k =
     bindE (deref (dv_postOfficeIn (devs k))) (\<lambda>x.
     bindE (assertE (box \<ge> 0 \<and> box < pi_numBoxes x)) (\<lambda>_.
     bindE (arr_get (pi_boxes x) box) (\<lambda>l. push [F_SL_RemoveFront l, F_Do Do_Get] k)))"

definition PostOfficeInput_Get :: "nachos \<Rightarrow> nachos res" where
  "PostOfficeInput_Get k =
     bindE (MailBox_copy k) (\<lambda>(pktHdr, mailHdr, data, k).
     bindE (assertE (unat (mail_length mailHdr) \<le> MaxMailSize)) (\<lambda>_.
     Inr (upd_devs (\<lambda>d. d\<lparr>dv_received := (dv_received d)(k_currentThread k \<mapsto> (pktHdr, mailHdr, data))\<rparr>) k)))"

definition PostOfficeOutput_Send :: "PacketHeader \<Rightarrow> MailHeader \<Rightarrow> byte list \<Rightarrow> nachos \<Rightarrow> nachos res" where
  "PostOfficeOutput_Send pktHdr mailHdr data k =
     bindE (deref (dv_postOfficeOut (devs k))) (\<lambda>x.
     bindE (assertE (unat (mail_length mailHdr) \<le> MaxMailSize)) (\<lambda>_.
     bindE (assertE (0 \<le> mail_to mailHdr)) (\<lambda>_.
     let pktHdr = pktHdr\<lparr>pkt_from := dv_hostName (devs k), pkt_length := mail_length mailHdr + of_nat sizeof_Header\<rparr> in
     bindE (Post_buffer (h_junk (dv_host (devs k))) mailHdr data) (\<lambda>buffer.
     push [F_Acquire (po_sendLock x), F_Do (Do_Network_Send pktHdr buffer), F_P (po_messageSent x), F_Release (po_sendLock x)] k))))"

section \<open>Calling a handler\<close>

definition CallBack :: "CallBackObj \<Rightarrow> nachos \<Rightarrow> nachos res" where
  "CallBack c k = (case c of
     CB_Timer \<Rightarrow> Timer_CallBack k
   | CB_Disk \<Rightarrow> Disk_CallBack_int k
   | CB_ConsoleInput \<Rightarrow> ConsoleInput_CallBack k
   | CB_ConsoleOutput \<Rightarrow> ConsoleOutput_CallBack k
   | CB_NetworkInput \<Rightarrow> NetworkInput_CallBack k
   | CB_NetworkOutput \<Rightarrow> NetworkOutput_CallBack k
   | CB_driver d \<Rightarrow> driver_CallBack d k)"

section \<open>threads/kernel.cc\<close>

record options =
  op_randomSlice :: bool
  op_debugUserProg :: bool
  op_consoleIn :: "string option"
  op_consoleOut :: "string option"
  op_reliability :: rat
  op_hostName :: int
  op_seed :: "int option"

definition atoi :: "string \<Rightarrow> int" where
  "atoi s =
     (let s = dropWhile (\<lambda>c. c \<in> {CHR '' '', CHR 0x09, CHR 0x0A, CHR 0x0B, CHR 0x0C, CHR 0x0D}) s;
          neg = (s \<noteq> [] \<and> hd s = CHR ''-'');
          s = (if s \<noteq> [] \<and> hd s \<in> {CHR ''-'', CHR ''+''} then tl s else s);
          ds = takeWhile (\<lambda>c. 48 \<le> (of_char c :: int) \<and> (of_char c :: int) \<le> 57) s;
          n = foldl (\<lambda>n c. 10 * n + (of_char c - 48)) 0 ds
      in if neg then - n else n)"

text \<open>The loop over \<open>argv\<close> of the constructor; \<open>atof\<close> is a parameter. A flag without its argument stops Nachos.\<close>

fun Kernel_args :: "(string \<Rightarrow> rat) \<Rightarrow> string list \<Rightarrow> options \<Rightarrow> options res" where
  "Kernel_args atof [] opt = Inr opt"
| "Kernel_args atof [a] opt =
     (if a \<in> {''-rs'', ''-ci'', ''-co'', ''-n'', ''-m''} then Inl Assert_Failed
      else if a = ''-s'' then Inr (opt\<lparr>op_debugUserProg := True\<rparr>)
      else Inr opt)"
| "Kernel_args atof (a # b # rest) opt =
     (if a = ''-rs'' then Kernel_args atof rest (opt\<lparr>op_seed := Some (atoi b), op_randomSlice := True\<rparr>)
      else if a = ''-s'' then Kernel_args atof (b # rest) (opt\<lparr>op_debugUserProg := True\<rparr>)
      else if a = ''-ci'' then Kernel_args atof rest (opt\<lparr>op_consoleIn := Some b\<rparr>)
      else if a = ''-co'' then Kernel_args atof rest (opt\<lparr>op_consoleOut := Some b\<rparr>)
      else if a = ''-n'' then Kernel_args atof rest (opt\<lparr>op_reliability := atof b\<rparr>)
      else if a = ''-m'' then Kernel_args atof rest (opt\<lparr>op_hostName := atoi b\<rparr>)
      else Kernel_args atof (b # rest) opt)"

definition Kernel_new :: "(string \<Rightarrow> rat) \<Rightarrow> string list \<Rightarrow> options res" where
  "Kernel_new atof argv = Kernel_args atof (drop 1 argv)
     \<lparr>op_randomSlice = False, op_debugUserProg = False, op_consoleIn = None, op_consoleOut = None, op_reliability = 1,
      op_hostName = 0, op_seed = None\<rparr>"

text \<open>What uninitialised memory and the host hold when the kernel starts.\<close>

record surroundings =
  su_host :: host
  su_disk :: "byte list option"
  su_cache :: "nat \<Rightarrow> DiskCacheEntry"
  su_vm :: vm
  su_tlb :: TLBEntry
  su_frames :: "nat \<Rightarrow> PhyMemPageEntry"
  su_header :: PacketHeader
  su_inbox :: "byte list"
  su_buffer :: "byte list"

text \<open>
  \<open>Initialize\<close> up to the \<open>Yield\<close> in \<open>Fork\<close> of the postal worker, and the rest of it. The
  machine is a \<open>vm\<close> whose memory manager is still the one found in memory.
\<close>

definition new_devices :: "surroundings \<Rightarrow> options \<Rightarrow> devices" where
  "new_devices u opt =
     \<lparr>dv_timer = None, dv_consoleIn = None, dv_synchConsoleIn = None, dv_consoleOut = None, dv_synchConsoleOut = None,
      dv_synchDisk = None, dv_networkIn = None, dv_postOfficeIn = None, dv_networkOut = None, dv_postOfficeOut = None,
      dv_hostName = op_hostName opt, dv_mails = Map.empty, dv_newMail = 0, dv_char = (\<lambda>_. EOF_char), dv_sector = (\<lambda>_. []),
      dv_received = (\<lambda>_. None), dv_host = su_host u\<rparr>"

text \<open>The global \<open>kernel\<close> object before \<open>Initialize\<close>: no objects yet.\<close>

definition blank_kernel :: "devices \<Rightarrow> nachos" where
  "blank_kernel d =
     \<lparr>hw_level = IntOff, hw_pending = [], hw_inHandler = False, hw_yieldOnReturn = False, hw_status = SystemMode,
      hw_stats = Statistics_new, hw_machine = None, hw_new = 0, k_currentThread = 0, k_threads = Map.empty, k_readyList = [],
      k_toBeDestroyed = None, k_threadCnt = 0, k_threadList = [], k_threadMap = \<lparr>bm_numBits = 0, bm_numWords = 0, bm_map = []\<rparr>,
      k_sems = Map.empty, k_locks = Map.empty, k_conds = Map.empty, k_slists = Map.empty, k_brk = 0, k_result = (\<lambda>_. None), k_visited = (\<lambda>_. []),
      \<dots> = d\<rparr>"

fun MailBoxes_new :: "nat \<Rightarrow> nachos \<Rightarrow> nat list \<times> nachos" where
  "MailBoxes_new 0 k = ([], k)"
| "MailBoxes_new (Suc n) k = (let (l, k) = SynchList_new k; (ls, k) = MailBoxes_new n k in (l # ls, k))"

definition PostOfficeInput_new :: "surroundings \<Rightarrow> nat \<Rightarrow> nachos \<Rightarrow> nachos res" where
  "PostOfficeInput_new u nBoxes k =
     (let (s, k) = Semaphore_new 0 k; (boxes, k) = MailBoxes_new nBoxes k;
          k = upd_devs (\<lambda>d. d\<lparr>dv_postOfficeIn := Some \<lparr>pi_boxes = boxes, pi_numBoxes = int nBoxes, pi_messageAvailable = s,
                                                       pi_buffer = su_buffer u\<rparr>\<rparr>) k in
      bindE (NetworkInput_new (su_header u) (su_inbox u) D_PostOfficeInput k) (\<lambda>k.
      bindE (createThread (Some (k_currentThread k)) 0 k) (\<lambda>(t, k).
      bindE (deref t) (\<lambda>t. Thread_Fork t k))))"

definition PostOfficeOutput_new :: "rat \<Rightarrow> nachos \<Rightarrow> nachos" where
  "PostOfficeOutput_new reliability k =
     (let (s, k) = Semaphore_new 0 k; (l, k) = Lock_new k in
      NetworkOutput_new reliability D_PostOfficeOutput
        (upd_devs (\<lambda>d. d\<lparr>dv_postOfficeOut := Some \<lparr>po_messageSent = s, po_sendLock = l\<rparr>\<rparr>) k))"

definition Kernel_threads :: "nachos \<Rightarrow> nachos res" where
  "Kernel_threads k =
     bindE (ThreadManager_new k) (\<lambda>k.
     bindE (createThread None 0 k) (\<lambda>(t, k).
     bindE (deref t) (\<lambda>t.
     bindE (setStatus t RUNNING (k\<lparr>k_currentThread := t\<rparr>)) (\<lambda>k.
     Inr (Scheduler_new (Interrupt_new (k\<lparr>hw_stats := Statistics_new\<rparr>)))))))"

definition Kernel_machine :: "surroundings \<Rightarrow> options \<Rightarrow> nachos \<Rightarrow> nachos res" where
  "Kernel_machine u opt k =
     (let v = su_vm u in
      bindE (Machine_new (op_debugUserProg opt) (su_tlb u) (m_pageTables v) (m_pageTableSize v) 0 SystemMode 0) (\<lambda>m.
      Inr (k\<lparr>hw_machine := Some (machine.extend m (vm.fields (vm_unix v) (vm_phy v) (vm_virt v) None 0 0 (vm_nextTable v)))\<rparr>)))"

definition Kernel_Initialize :: "surroundings \<Rightarrow> options \<Rightarrow> nachos res" where
  "Kernel_Initialize u opt =
     bindE (Kernel_threads (blank_kernel (new_devices u opt))) (\<lambda>k.
     bindE (Alarm_new (op_randomSlice opt) k) (\<lambda>k.
     bindE (Kernel_machine u opt k) (\<lambda>k.
     bindE (SynchConsoleInput_new k) (\<lambda>k.
     bindE (SynchConsoleOutput_new k) (\<lambda>k.
     bindE (DiskDriver_new (su_cache u) (su_disk u) k) (\<lambda>k.
     bindE (push [F_Do Do_Initialize_rest] k) (\<lambda>k.
     PostOfficeInput_new u 10 k)))))))"

definition Kernel_Initialize_rest :: "surroundings \<Rightarrow> options \<Rightarrow> nachos \<Rightarrow> nachos res" where
  "Kernel_Initialize_rest u opt k =
     (let k = PostOfficeOutput_new (op_reliability opt) k in
      bindE (MemoryManager_new (su_frames u)) (\<lambda>(v, p).
      bindE (the_machine k) (\<lambda>m.
      push [F_SetLevel IntOn] (k\<lparr>hw_machine := Some (m\<lparr>vm_virt := v, vm_phy := p\<rparr>)\<rparr>))))"

section \<open>The operations of the drivers\<close>

text \<open>What a call returns is left for the calling thread in \<open>dv_char\<close>, \<open>dv_sector\<close> and \<open>dv_received\<close>.\<close>

definition driver_call :: "surroundings \<Rightarrow> options \<Rightarrow> device_op \<Rightarrow> nachos \<Rightarrow> nachos res" where
  "driver_call u opt a k = (case a of
     Do_GetChar \<Rightarrow> SynchConsoleInput_GetChar k
   | Do_ConsoleInput_GetChar \<Rightarrow>
       bindE (ConsoleInput_GetChar k) (\<lambda>(ch, k). Inr (upd_devs (\<lambda>d. d\<lparr>dv_char := (dv_char d)(k_currentThread k := ch)\<rparr>) k))
   | Do_PutChar ch \<Rightarrow> SynchConsoleOutput_PutChar ch k
   | Do_ConsoleOutput_PutChar ch \<Rightarrow> ConsoleOutput_PutChar ch k
   | Do_ReadSector s \<Rightarrow> DiskDriver_ReadSector s k
   | Do_read s \<Rightarrow> DiskDriver_read s k
   | Do_WriteSector s data \<Rightarrow> DiskDriver_WriteSector s data k
   | Do_write s data \<Rightarrow> DiskDriver_write s data k
   | Do_PostalDelivery \<Rightarrow> PostalDelivery k
   | Do_deliver \<Rightarrow> PostalDelivery_round k
   | Do_Receive box \<Rightarrow> PostOfficeInput_Receive box k
   | Do_Get \<Rightarrow> PostOfficeInput_Get k
   | Do_Send pktHdr mailHdr data \<Rightarrow> PostOfficeOutput_Send pktHdr mailHdr data k
   | Do_Network_Send hdr data \<Rightarrow> NetworkOutput_Send hdr data k
   | Do_Initialize_rest \<Rightarrow> Kernel_Initialize_rest u opt k)"

end
