(* ===== verification/Device_Laws.thy ===== *)
theory Device_Laws
  imports Devices
begin

text \<open>
  The handlers and the drivers of theory Devices meet the contracts of the locales \<open>handlers\<close>
  (theory Interrupt) and \<open>drivers\<close> (theory Kernel_Step): a handler schedules into the future,
  returns, and wakes threads only by \<open>V\<close> on the semaphores of the drivers (\<open>driver_sems\<close>);
  an operation of a driver keeps the invariant of the kernel.
\<close>

section \<open>The semaphores of the drivers\<close>

definition driver_sems :: "devices \<Rightarrow> nat set" where
  "driver_sems d =
     set_option (map_option sy_semaphore (dv_synchDisk d)) \<union> set_option (map_option sc_waitFor (dv_synchConsoleIn d))
     \<union> set_option (map_option sc_waitFor (dv_synchConsoleOut d)) \<union> set_option (map_option pi_messageAvailable (dv_postOfficeIn d))
     \<union> set_option (map_option po_messageSent (dv_postOfficeOut d))"

abbreviation kview_of :: "nachos \<Rightarrow> device_op kview" where
  "kview_of \<equiv> view driver_sems"

lemma upd_devs_fields [simp]:
  "hw_level (upd_devs f k) = hw_level k" "hw_stats (upd_devs f k) = hw_stats k" "hw_inHandler (upd_devs f k) = hw_inHandler k"
  "hw_status (upd_devs f k) = hw_status k" "hw_yieldOnReturn (upd_devs f k) = hw_yieldOnReturn k"
  "hw_pending (upd_devs f k) = hw_pending k" "hw_new (upd_devs f k) = hw_new k" "hw_machine (upd_devs f k) = hw_machine k"
  "k_currentThread (upd_devs f k) = k_currentThread k" "k_threads (upd_devs f k) = k_threads k"
  "k_result (upd_devs f k) = k_result k" "devs (upd_devs f k) = f (devs k)"
  by (cases k; simp)+

lemma upd_devs_view: "view dev (upd_devs f k) = (view dev k)\<lparr>v_dev := dev (f (devs k))\<rparr>"
  by (simp add: view_def frames_def priority_def fun_eq_iff)

lemma upd_devs_same:
  assumes "driver_sems (f (devs k)) = driver_sems (devs k)"
  shows "kview_of (upd_devs f k) = kview_of k"
proof -
  have "v_dev (kview_of k) = driver_sems (devs k)" by (simp add: view_def)
  then show ?thesis by (simp add: upd_devs_view assms)
qed

lemma devices_view [simp]:
  "kview_of (set_incoming c k) = kview_of k" "kview_of (set_putBusy b k) = kview_of k"
  "kview_of (upd_devs (\<lambda>d. d\<lparr>dv_networkIn := n\<rparr>) k) = kview_of k" "kview_of (upd_devs (\<lambda>d. d\<lparr>dv_networkOut := m\<rparr>) k) = kview_of k"
  "kview_of (upd_devs (\<lambda>d. d\<lparr>dv_timer := t\<rparr>) k) = kview_of k" "kview_of (upd_devs (\<lambda>d. d\<lparr>dv_consoleIn := ci\<rparr>) k) = kview_of k"
  "kview_of (upd_devs (\<lambda>d. d\<lparr>dv_consoleOut := co\<rparr>) k) = kview_of k"
  "kview_of (upd_devs (\<lambda>d. d\<lparr>dv_char := fc d\<rparr>) k) = kview_of k" "kview_of (upd_devs (\<lambda>d. d\<lparr>dv_sector := fs d\<rparr>) k) = kview_of k"
  "kview_of (upd_devs (\<lambda>d. d\<lparr>dv_received := fr d\<rparr>) k) = kview_of k"
  "kview_of (upd_devs (\<lambda>d. d\<lparr>dv_mails := fm d\<rparr>) k) = kview_of k" "kview_of (upd_devs (\<lambda>d. d\<lparr>dv_host := fh d\<rparr>) k) = kview_of k"
  "kview_of (upd_devs (\<lambda>d. d\<lparr>dv_mails := fm d, dv_newMail := p\<rparr>) k) = kview_of k"
  unfolding set_incoming_def set_putBusy_def by (rule upd_devs_same, simp add: driver_sems_def)+

lemma set_synchdisk_view [simp]: "kview_of (set_synchdisk sd k) = kview_of k"
  unfolding set_synchdisk_def by (rule upd_devs_same) (auto simp: driver_sems_def option.map_comp comp_def)

lemma Schedule_view: "Interrupt_Schedule c d t k = Inr k' \<Longrightarrow> kview_of k' = kview_of k"
  by (auto simp: Interrupt_Schedule_def Let_def res_simps)

lemma deref_eq_Inr [res_simps]: "deref x = Inr y \<longleftrightarrow> x = Some y"
  by (cases x) (simp_all add: deref_def)

section \<open>Handlers wake threads\<close>

lemma V_body_wakes:
  assumes "V_body s k = Inr k'" "s \<in> driver_sems (devs k)"
  shows "wakes (kview_of k) (kview_of k')"
proof -
  obtain x where x: "v_sems (kview_of k) s = Some x" "kview_of k' = V_view s x (kview_of k)"
    using V_body_view [OF assms(1), of driver_sems] by blast
  have "s \<in> v_dev (kview_of k)" using assms(2) by (simp add: view_def)
  then show ?thesis unfolding x(2) by (rule wakes_V [OF wakes_refl _ x(1)])
qed

lemma driver_CallBack_wakes: "driver_CallBack c k = Inr k' \<Longrightarrow> wakes (kview_of k) (kview_of k')"
  by (cases c) (auto simp: driver_CallBack_def Alarm_CallBack_def res_simps driver_sems_def intro: wakes_refl V_body_wakes)

lemma driver_CallBack_from: "driver_CallBack c k1 = Inr k' \<Longrightarrow> kview_of k1 = kview_of k \<Longrightarrow> wakes (kview_of k) (kview_of k')"
  using driver_CallBack_wakes [of c k1 k'] by simp

lemma RandomNumber_view [simp]: "kview_of (snd (RandomNumber k)) = kview_of k"
  by (simp add: RandomNumber_def Let_def)

lemma SetInterrupt_view: "Timer_SetInterrupt k = Inr k' \<Longrightarrow> kview_of k' = kview_of k"
  by (auto simp: Timer_SetInterrupt_def RandomNumber_def Let_def res_simps Schedule_view split: if_splits)

abbreviation polled :: "nachos \<Rightarrow> nachos" where
  "polled k \<equiv> upd_host (\<lambda>h. h\<lparr>h_polled := h_polled h + 1\<rparr>) k"

abbreviation key_read :: "byte \<Rightarrow> nachos \<Rightarrow> nachos" where
  "key_read c k \<equiv> (set_incoming c k)\<lparr>hw_stats := (hw_stats k)\<lparr>st_numConsoleCharsRead := st_numConsoleCharsRead (hw_stats k) + 1\<rparr>\<rparr>"

lemma ConsoleInput_cases:
  assumes "ConsoleInput_CallBack k = Inr k'"
  obtains (poll) "Interrupt_Schedule CB_ConsoleInput ConsoleTime ConsoleReadInt (polled k) = Inr k'"
    | (eof) d where "driver_CallBack d (polled k) = Inr k'"
    | (key) d c where "driver_CallBack d (key_read c (polled k)) = Inr k'"
proof -
  obtain x where "dv_consoleIn (devs k) = Some x"
    and run: "(case h_keyboard (dv_host (devs k)) (h_polled (dv_host (devs k))) of
       NoKey \<Rightarrow> Interrupt_Schedule CB_ConsoleInput ConsoleTime ConsoleReadInt (polled k)
     | EndOfFile \<Rightarrow> driver_CallBack (ci_callWhenAvail x) (polled k)
     | ReadError \<Rightarrow> Inl Assert_Failed
     | Key c \<Rightarrow> driver_CallBack (ci_callWhenAvail x) (key_read c (polled k))) = Inr k'"
    using assms unfolding ConsoleInput_CallBack_def Let_def bindE_eq_Inr deref_eq_Inr by blast
  show thesis using run that by (cases "h_keyboard (dv_host (devs k)) (h_polled (dv_host (devs k)))") auto
qed

abbreviation heard :: "nachos \<Rightarrow> nachos" where
  "heard k \<equiv> upd_host (\<lambda>h. h\<lparr>h_listened := h_listened h + 1\<rparr>) k"

abbreviation packet_in :: "NetworkInput \<Rightarrow> nachos \<Rightarrow> nachos" where
  "packet_in x k \<equiv> (upd_devs (\<lambda>d. d\<lparr>dv_networkIn := Some x\<rparr>) k)
     \<lparr>hw_stats := (hw_stats k)\<lparr>st_numPacketsRecvd := st_numPacketsRecvd (hw_stats k) + 1\<rparr>\<rparr>"

lemma NetworkInput_cases:
  assumes "NetworkInput_CallBack k = Inr k'"
  obtains k1 where "Interrupt_Schedule CB_NetworkInput NetworkTime NetworkRecvInt k = Inr k1"
    "k' = k1 \<or> k' = heard k1 \<or> (\<exists>d x. driver_CallBack d (packet_in x (heard k1)) = Inr k')"
proof -
  obtain k1 x where k1: "Interrupt_Schedule CB_NetworkInput NetworkTime NetworkRecvInt k = Inr k1" "dv_networkIn (devs k1) = Some x"
    using assms by (auto simp: NetworkInput_CallBack_def res_simps)
  let ?h = "dv_host (devs k1)"
  consider (full) "pkt_length (ni_inHdr x) \<noteq> 0" | (idle) "pkt_length (ni_inHdr x) = 0" "h_socket ?h (h_listened ?h) = None"
    | (packet) buffer where "pkt_length (ni_inHdr x) = 0" "h_socket ?h (h_listened ?h) = Some buffer" by fastforce
  then have "k' = k1 \<or> k' = heard k1 \<or> (\<exists>d x. driver_CallBack d (packet_in x (heard k1)) = Inr k')"
  proof cases
    case full
    then show ?thesis using assms k1 by (simp add: NetworkInput_CallBack_def deref_def)
  next
    case idle
    then show ?thesis using assms k1 by (simp add: NetworkInput_CallBack_def deref_def Let_def)
  next
    case packet
    then have "\<exists>inbox. driver_CallBack (ni_callWhenAvail x)
        (packet_in (x\<lparr>ni_inHdr := PacketHeader_of_bytes buffer, ni_inbox := inbox\<rparr>) (heard k1)) = Inr k'"
      using assms k1 by (auto simp: NetworkInput_CallBack_def deref_def Let_def res_simps)
    then show ?thesis by blast
  qed
  then show thesis using that k1(1) by blast
qed

lemma CallBack_wakes:
  assumes "CallBack c k = Inr k'"
  shows "wakes (kview_of k) (kview_of k')"
proof (cases c)
  case CB_Timer
  then obtain t k1 where "dv_timer (devs k) = Some t" "driver_CallBack (tm_callPeriodically t) k = Inr k1" "Timer_SetInterrupt k1 = Inr k'"
    using assms by (auto simp: CallBack_def Timer_CallBack_def res_simps)
  then show ?thesis using driver_CallBack_wakes SetInterrupt_view by metis
next
  case CB_Disk
  then obtain x where x: "dv_synchDisk (devs k) = Some x" "driver_CallBack D_SynchDisk
       (upd_devs (\<lambda>d. d\<lparr>dv_synchDisk := Some (x\<lparr>sy_disk := (sy_disk x)\<lparr>sd_disk := Disk_CallBack (sd_disk (sy_disk x))\<rparr>\<rparr>)\<rparr>) k) = Inr k'"
    using assms by (auto simp: CallBack_def Disk_CallBack_int_def res_simps)
  show ?thesis by (rule driver_CallBack_from [OF x(2) upd_devs_same]) (simp add: driver_sems_def x(1))
next
  case CB_ConsoleInput
  then have "ConsoleInput_CallBack k = Inr k'" using assms by (simp add: CallBack_def)
  then show ?thesis
  proof (cases rule: ConsoleInput_cases)
    case poll
    then show ?thesis using Schedule_view [OF poll] by (simp add: wakes_refl)
  next
    case (eof d)
    show ?thesis by (rule driver_CallBack_from [OF eof]) simp
  next
    case (key d c)
    show ?thesis by (rule driver_CallBack_from [OF key]) simp
  qed
next
  case CB_ConsoleOutput
  then show ?thesis using assms
    by (auto simp: CallBack_def ConsoleOutput_CallBack_def bindE_eq_Inr intro: driver_CallBack_from)
next
  case CB_NetworkInput
  then have "NetworkInput_CallBack k = Inr k'" using assms by (simp add: CallBack_def)
  then obtain k1 where k1: "Interrupt_Schedule CB_NetworkInput NetworkTime NetworkRecvInt k = Inr k1"
    and rest: "k' = k1 \<or> k' = heard k1 \<or> (\<exists>d x. driver_CallBack d (packet_in x (heard k1)) = Inr k')"
    by (rule NetworkInput_cases)
  have "wakes (kview_of k1) (kview_of k')"
    using rest
  proof (elim disjE exE)
    fix d x
    assume d: "driver_CallBack d (packet_in x (heard k1)) = Inr k'"
    have "kview_of (packet_in x (heard k1)) = kview_of k1" by (simp only: view_hw devices_view)
    then show ?thesis by (rule driver_CallBack_from [OF d])
  qed (simp_all add: wakes_refl)
  then show ?thesis using Schedule_view [OF k1] by simp
next
  case CB_NetworkOutput
  then show ?thesis using assms
    by (auto simp: CallBack_def NetworkOutput_CallBack_def bindE_eq_Inr intro: driver_CallBack_from)
next
  case (CB_driver d)
  then show ?thesis using assms driver_CallBack_wakes by (simp add: CallBack_def)
qed

section \<open>Handlers return and schedule into the future\<close>

definition same_hw :: "nachos \<Rightarrow> nachos \<Rightarrow> bool" where
  "same_hw k k' \<longleftrightarrow> hw_level k' = hw_level k \<and> hw_stats k' = hw_stats k \<and> hw_inHandler k' = hw_inHandler k \<and> hw_status k' = hw_status k
     \<and> hw_yieldOnReturn k' = hw_yieldOnReturn k \<and> hw_pending k' = hw_pending k \<and> hw_new k' = hw_new k"

lemma ReadyToRun_hw: "ReadyToRun t k = Inr k' \<Longrightarrow> same_hw k k'"
  by (auto simp: ReadyToRun_def setStatus_def upd_thread_def res_simps same_hw_def)

lemma V_body_hw:
  assumes "V_body s k = Inr k'"
  shows "same_hw k k'"
proof -
  obtain x where x: "k_sems k s = Some x" using assms by (auto simp: V_body_def res_simps)
  show ?thesis
  proof (cases "sem_queue x")
    case Nil
    then show ?thesis using assms x by (auto simp: V_body_def object_def upd_sem_def same_hw_def)
  next
    case (Cons t q)
    then obtain k1 y where "ReadyToRun t k = Inr k1" "k' = upd_sem s y k1"
      using assms x by (auto simp: V_body_def object_def res_simps)
    then show ?thesis using ReadyToRun_hw [of t k k1] by (simp add: same_hw_def upd_sem_def)
  qed
qed

lemma scheduled_pending: "scheduled s s' \<Longrightarrow> pending_ok s'"
  by (simp add: scheduled_def)

text \<open>A change that keeps time, level, flags and pending interrupts.\<close>

lemma scheduled_same:
  assumes "pending_ok s" "now s' = now s" "hw_level s' = hw_level s" "hw_inHandler s' = hw_inHandler s"
    "hw_status s' = hw_status s" "hw_yieldOnReturn s' = hw_yieldOnReturn s" "hw_pending s' = hw_pending s" "hw_new s' = hw_new s"
  shows "scheduled s s'"
  using assms by (auto simp: scheduled_def pending_ok_def intro: exI [of _ "[]"])

lemma V_body_scheduled:
  fixes k :: nachos
  shows "V_body s k = Inr k' \<Longrightarrow> pending_ok k \<Longrightarrow> scheduled k k'"
  using V_body_hw [of s k k'] by (intro scheduled_same) (simp_all add: same_hw_def)

lemma driver_CallBack_scheduled: "driver_CallBack c k = Inr k' \<Longrightarrow> pending_ok k \<Longrightarrow> scheduled k k'"
  by (cases c) (auto simp: driver_CallBack_def Alarm_CallBack_def res_simps scheduled_refl intro: V_body_scheduled)

lemma driver_CallBack_then:
  assumes "driver_CallBack c k1 = Inr k'" "scheduled k k1"
  shows "scheduled k k'"
  by (rule scheduled_trans [OF assms(2) driver_CallBack_scheduled [OF assms(1) scheduled_pending [OF assms(2)]]])

lemma Schedule_then: "Interrupt_Schedule c d t k1 = Inr k' \<Longrightarrow> scheduled k k1 \<Longrightarrow> scheduled k k'"
  by (rule scheduled_trans [OF _ Schedule_scheduled [OF scheduled_pending]])

lemma SetInterrupt_scheduled:
  assumes "Timer_SetInterrupt k = Inr k'" "pending_ok k"
  shows "scheduled k k'"
proof (cases "k' = k")
  case True
  then show ?thesis using assms(2) by (simp add: scheduled_refl)
next
  case False
  then obtain d k1 where k1: "Interrupt_Schedule CB_Timer d TimerInt k1 = Inr k'" "k1 = k \<or> k1 = snd (RandomNumber k)"
    using assms(1) by (auto simp: Timer_SetInterrupt_def Let_def res_simps split: if_splits prod.splits)
  then have "scheduled k k1" using assms(2) by (auto simp: RandomNumber_def Let_def intro!: scheduled_same)
  then show ?thesis by (rule Schedule_then [OF k1(1)])
qed

lemma CallBack_scheduled:
  assumes "CallBack c k = Inr k'" "pending_ok k"
  shows "scheduled k k'"
proof (cases c)
  case CB_Timer
  then obtain t k1 where t: "dv_timer (devs k) = Some t" "driver_CallBack (tm_callPeriodically t) k = Inr k1" "Timer_SetInterrupt k1 = Inr k'"
    using assms by (auto simp: CallBack_def Timer_CallBack_def res_simps)
  have s1: "scheduled k k1" by (rule driver_CallBack_scheduled [OF t(2) assms(2)])
  then have "pending_ok k1" by (simp add: scheduled_def)
  then show ?thesis using SetInterrupt_scheduled [OF t(3)] scheduled_trans [OF s1] by blast
next
  case CB_Disk
  then obtain x k1 where x: "driver_CallBack D_SynchDisk k1 = Inr k'" "k1 = upd_devs x k"
    using assms by (auto simp: CallBack_def Disk_CallBack_int_def res_simps)
  show ?thesis by (rule driver_CallBack_then [OF x(1) scheduled_same [OF assms(2)]]) (simp_all add: x(2))
next
  case CB_ConsoleInput
  then have "ConsoleInput_CallBack k = Inr k'" using assms by (simp add: CallBack_def)
  then show ?thesis
  proof (cases rule: ConsoleInput_cases)
    case poll
    show ?thesis by (rule Schedule_then [OF poll scheduled_same]) (simp_all add: assms(2))
  next
    case (eof d)
    show ?thesis by (rule driver_CallBack_then [OF eof scheduled_same]) (simp_all add: assms(2))
  next
    case (key d c)
    show ?thesis by (rule driver_CallBack_then [OF key scheduled_same]) (simp_all add: set_incoming_def assms(2))
  qed
next
  case CB_ConsoleOutput
  then obtain d k1 where x: "driver_CallBack d k1 = Inr k'"
    "k1 = (set_putBusy False k)\<lparr>hw_stats := (hw_stats k)\<lparr>st_numConsoleCharsWritten := st_numConsoleCharsWritten (hw_stats k) + 1\<rparr>\<rparr>"
    using assms by (auto simp: CallBack_def ConsoleOutput_CallBack_def bindE_eq_Inr)
  show ?thesis by (rule driver_CallBack_then [OF x(1) scheduled_same [OF assms(2)]]) (simp_all add: x(2) set_putBusy_def)
next
  case CB_NetworkInput
  then have "NetworkInput_CallBack k = Inr k'" using assms by (simp add: CallBack_def)
  then obtain k1 where k1: "Interrupt_Schedule CB_NetworkInput NetworkTime NetworkRecvInt k = Inr k1"
    and rest: "k' = k1 \<or> k' = heard k1 \<or> (\<exists>d x. driver_CallBack d (packet_in x (heard k1)) = Inr k')"
    by (rule NetworkInput_cases)
  have s1: "scheduled k k1" by (rule Schedule_scheduled [OF assms(2) k1])
  then have p1: "pending_ok k1" by (simp add: scheduled_def)
  have "scheduled k1 k'"
    using rest
  proof (elim disjE exE)
    fix d x
    assume d: "driver_CallBack d (packet_in x (heard k1)) = Inr k'"
    show ?thesis by (rule driver_CallBack_then [OF d scheduled_same [OF p1]]) simp_all
  qed (use p1 in \<open>simp_all add: scheduled_refl scheduled_same\<close>)
  then show ?thesis using scheduled_trans [OF s1] by blast
next
  case CB_NetworkOutput
  then obtain d f k1 where x: "driver_CallBack d k1 = Inr k'"
    "k1 = (upd_devs f k)\<lparr>hw_stats := (hw_stats k)\<lparr>st_numPacketsSent := st_numPacketsSent (hw_stats k) + 1\<rparr>\<rparr>"
    using assms by (auto simp: CallBack_def NetworkOutput_CallBack_def bindE_eq_Inr)
  show ?thesis by (rule driver_CallBack_then [OF x(1) scheduled_same [OF assms(2)]]) (simp_all add: x(2))
next
  case (CB_driver d)
  then show ?thesis using assms driver_CallBack_scheduled by (simp add: CallBack_def)
qed

text \<open>No handler runs for ever: \<open>Diverges\<close> is not among their faults.\<close>

definition returns :: "'r res \<Rightarrow> bool" where
  "returns x \<longleftrightarrow> x \<noteq> Inl Diverges"

named_theorems returns_intros \<open>operations without loops\<close>

lemma returns_basic [returns_intros]:
  "returns (Inr x)" "returns (assertE b)" "returns (Inl Assert_Failed)" "returns (Inl Bad_Access)" "returns (deref p)"
  "returns (object h q)" "returns (seq_RemoveFront xs)" "returns (seq_Insert cmp y xs)" "returns (bcopy src off dst n)"
  by (auto simp: returns_def assertE_def deref_def object_def seq_RemoveFront_def seq_Insert_def bcopy_def split: option.split list.split)

lemma returns_bindE [returns_intros]: "returns x \<Longrightarrow> (\<And>y. x = Inr y \<Longrightarrow> returns (f y)) \<Longrightarrow> returns (bindE x f)"
  by (cases x) (auto simp: returns_def)

lemma returns_case [returns_intros]:
  "(b \<Longrightarrow> returns x) \<Longrightarrow> (\<not> b \<Longrightarrow> returns y) \<Longrightarrow> returns (if b then x else y)"
  "(\<And>a c. p = (a, c) \<Longrightarrow> returns (g a c)) \<Longrightarrow> returns (case p of (a, c) \<Rightarrow> g a c)"
  "(z = None \<Longrightarrow> returns u) \<Longrightarrow> (\<And>w. z = Some w \<Longrightarrow> returns (v w)) \<Longrightarrow> returns (case z of None \<Rightarrow> u | Some w \<Rightarrow> v w)"
  by (auto split: prod.split option.split)

lemma Schedule_returns [returns_intros]: "returns (Interrupt_Schedule c d t k)"
  unfolding Interrupt_Schedule_def Let_def by (intro returns_intros)

lemma V_body_returns [returns_intros]: "returns (V_body s k)"
  unfolding V_body_def ReadyToRun_def setStatus_def upd_thread_def by (intro returns_intros)

lemma driver_CallBack_returns [returns_intros]: "returns (driver_CallBack c k)"
  by (cases c) (simp_all add: driver_CallBack_def Alarm_CallBack_def, (intro returns_intros)+)

lemma SetInterrupt_returns [returns_intros]: "returns (Timer_SetInterrupt k)"
  unfolding Timer_SetInterrupt_def Let_def by (intro returns_intros)

lemma CallBack_returns: "returns (CallBack c k)"
proof (cases c)
  case CB_Timer
  show ?thesis unfolding CallBack_def CB_Timer Timer_CallBack_def by (simp, intro returns_intros)
next
  case CB_Disk
  show ?thesis unfolding CallBack_def CB_Disk Disk_CallBack_int_def by (simp, intro returns_intros)
next
  case CB_ConsoleInput
  show ?thesis unfolding CallBack_def CB_ConsoleInput ConsoleInput_CallBack_def Let_def
    by (simp, intro returns_intros) (auto split: key.split intro!: returns_intros)
next
  case CB_ConsoleOutput
  show ?thesis unfolding CallBack_def CB_ConsoleOutput ConsoleOutput_CallBack_def by (simp, intro returns_intros)
next
  case CB_NetworkInput
  show ?thesis unfolding CallBack_def CB_NetworkInput NetworkInput_CallBack_def Let_def by (simp, intro returns_intros)
next
  case CB_NetworkOutput
  show ?thesis unfolding CallBack_def CB_NetworkOutput NetworkOutput_CallBack_def by (simp, intro returns_intros)
next
  case (CB_driver d)
  show ?thesis unfolding CallBack_def CB_driver by (simp, intro returns_intros)
qed

interpretation device_handlers: handlers CallBack
  by unfold_locales (use CallBack_scheduled CallBack_returns in \<open>auto simp: returns_def\<close>)

end
