(* ===== verification/Kernel_Boot.thy ===== *)
theory Kernel_Boot
  imports Device_Laws
begin

text \<open>
  The drivers of theory Devices meet the contract of the locale \<open>drivers\<close>; the kernel that
  \<open>Kernel_Initialize\<close> builds satisfies the invariant of Kernel_Inv, and so do all states it reaches.

  \<open>calm v\<close>: the running thread runs kernel code and nothing is owed. \<open>grown v w\<close>: objects were
  created. A semaphore that is \<open>usable\<close> may become one of a driver's.
\<close>

section \<open>Constructors\<close>

definition calm :: "'a kview \<Rightarrow> bool" where
  "calm v \<longleftrightarrow> kinv (\<lambda>_. 0) v \<and> v_stat v (v_cur v) = Some RUNNING \<and> list_all deep (v_frames v (v_cur v))"

definition grown :: "'a kview \<Rightarrow> 'a kview \<Rightarrow> bool" where
  "grown v w \<longleftrightarrow> calm w \<and> v_cur w = v_cur v \<and> v_frames w = v_frames v \<and> v_dev w = v_dev v \<and> v_brk v \<le> v_brk w
     \<and> (\<forall>l x. v_locks v l = Some x \<longrightarrow> v_locks w l = Some x) \<and> (\<forall>s \<in> lock_sems w. s \<in> lock_sems v \<or> v_brk v \<le> s)"

definition usable :: "'a kview \<Rightarrow> nat \<Rightarrow> bool" where
  "usable v s \<longleftrightarrow> s < v_brk v \<and> s \<notin> lock_sems v \<and> (\<forall>t. F_DeleteSemaphore s \<notin> set (v_frames v t))"

lemma lists_grown [simp]: "grown v (w\<lparr>v_slists := z\<rparr>) = grown v w"
  by (simp add: grown_def calm_def lock_sems_def)

lemma calm_good: "calm v \<Longrightarrow> good v v"
  unfolding calm_def by (blast intro: same_good)

lemma calm_executing: "calm v \<Longrightarrow> (\<And>l s. weight l s f = 0) \<Longrightarrow> safe v f \<Longrightarrow> executing f v"
  by (auto simp: calm_def executing_def kinv_def K_lock_def intro: solvent_tok)

lemma executing_calm: "executing f v \<Longrightarrow> (\<And>l s. weight l s f = 0) \<Longrightarrow> calm v"
  using executing_weightless [of f v] by (simp add: calm_def)

lemma grown_refl: "calm v \<Longrightarrow> grown v v"
  by (simp add: grown_def)

lemma grown_trans: "grown u v \<Longrightarrow> grown v w \<Longrightarrow> grown u w"
  unfolding grown_def by (auto dest: order_trans)

lemma grown_calm: "grown v w \<Longrightarrow> calm w"
  by (simp add: grown_def)

lemma grown_good: "grown v w \<Longrightarrow> good v w"
  using calm_good [of w] by (auto simp: grown_def good_def holders_kept_def)

lemma good_grown: "grown v w \<Longrightarrow> good w z \<Longrightarrow> good v z"
  by (auto simp: grown_def good_def holders_kept_def)

lemma grown_usable: "grown v w \<Longrightarrow> usable v s \<Longrightarrow> usable w s"
  by (auto simp: grown_def usable_def)

lemma calm_grows:
  assumes "calm v" "kinv (\<lambda>_. 0) w" "v_cur w = v_cur v" "v_stat w = v_stat v" "v_frames w = v_frames v" "v_dev w = v_dev v"
    and "v_brk v \<le> v_brk w" "\<And>l x. v_locks v l = Some x \<Longrightarrow> v_locks w l = Some x"
    and "\<And>s. s \<in> lock_sems w \<Longrightarrow> s \<in> lock_sems v \<or> v_brk v \<le> s"
  shows "grown v w"
  using assms by (auto simp: grown_def calm_def)

lemma calm_fresh:
  assumes "calm v"
  shows "v_brk v \<notin> lock_sems v" "F_DeleteSemaphore (v_brk v) \<notin> set (v_frames v t)" "v_locks v l = Some x \<Longrightarrow> l < v_brk v"
proof -
  have K: "K_bound v" "K_stack v" using assms by (simp_all add: calm_def kinv_def)
  show "v_brk v \<notin> lock_sems v" "F_DeleteSemaphore (v_brk v) \<notin> set (v_frames v t)"
    using fresh(6) [OF K] fresh(8) [OF K, of "F_DeleteSemaphore (v_brk v)" t] by auto
  show "v_locks v l = Some x \<Longrightarrow> l < v_brk v" using K_boundD(3) [OF K(1)] .
qed

lemma Semaphore_new_grown:
  assumes "Semaphore_new n k = (s, k')" "calm (view dev k)"
  shows "grown (view dev k) (view dev k')" "usable (view dev k') s"
proof -
  let ?v = "view dev k"
  have s: "s = v_brk ?v" and v: "view dev k' = ?v\<lparr>v_sems := (v_sems ?v)(s \<mapsto> \<lparr>sem_value = n, sem_queue = []\<rparr>), v_brk := s + 1\<rparr>"
    using Semaphore_new_view [OF assms(1), of dev] by simp_all
  have ls: "lock_sems (view dev k') = lock_sems ?v" by (simp add: v lock_sems_def)
  have "kinv (\<lambda>_. 0) (view dev k')"
    using new_sem_ok [of "\<lambda>_. 0" ?v n] assms(2) unfolding v s by (simp add: calm_def)
  then show "grown ?v (view dev k')"
    by (rule calm_grows [OF assms(2)]) (simp_all add: ls, simp_all add: v s)
  show "usable (view dev k') s"
    using calm_fresh(1,2) [OF assms(2)] unfolding usable_def ls by (simp add: v s)
qed

lemma Lock_new_grown:
  assumes "Lock_new k = (l, k')" "calm (view dev k)"
  shows "grown (view dev k) (view dev k')"
proof -
  let ?v = "view dev k"
  have v: "view dev k' = ?v\<lparr>v_sems := (v_sems ?v)(v_brk ?v \<mapsto> \<lparr>sem_value = 1, sem_queue = []\<rparr>),
      v_locks := (v_locks ?v)(v_brk ?v + 1 \<mapsto> \<lparr>lock_semaphore = v_brk ?v, lock_holder = None\<rparr>), v_brk := v_brk ?v + 2\<rparr>"
    using Lock_new_view [OF assms(1), of dev] by simp
  have "kinv (\<lambda>_. 0) (view dev k')" unfolding v by (rule new_lock_ok) (use assms(2) in \<open>simp add: calm_def\<close>)
  then show ?thesis
  proof (rule calm_grows [OF assms(2)])
    show "v_locks (view dev k') l' = Some x" if "v_locks ?v l' = Some x" for l' x
      using calm_fresh(3) [OF assms(2) that] that by (simp add: v)
    show "s \<in> lock_sems ?v \<or> v_brk ?v \<le> s" if "s \<in> lock_sems (view dev k')" for s
      using that by (auto simp: lock_sems_def v split: if_splits)
  qed (simp_all add: v)
qed

lemma Condition_new_grown:
  assumes "Condition_new k = (c, k')" "calm (view dev k)" "v_brk (view dev k) < b"
  shows "grown (view dev k) ((view dev k')\<lparr>v_brk := b\<rparr>)"
proof -
  let ?v = "view dev k"
  have v: "(view dev k')\<lparr>v_brk := b\<rparr> = ?v\<lparr>v_conds := (v_conds ?v)(c \<mapsto> []), v_brk := b\<rparr>"
    using Condition_new_view [OF assms(1), of dev] by simp
  have "kinv (\<lambda>_. 0) ((view dev k')\<lparr>v_brk := b\<rparr>)"
    unfolding v by (rule conds_ok) (use assms(2,3) in \<open>simp_all add: calm_def\<close>)
  then show ?thesis by (rule calm_grows [OF assms(2)]) (use assms(3) in \<open>simp_all add: v lock_sems_def\<close>)
qed

lemma SynchList_new_grown:
  assumes "SynchList_new k = (p, k')" "calm (view dev k)"
  shows "grown (view dev k) (view dev k')"
proof -
  obtain l k1 c k2 where L: "Lock_new k = (l, k1)" "Condition_new k1 = (c, k2)"
    by (cases "Lock_new k"; cases "Condition_new (snd (Lock_new k))") auto
  obtain z where v: "view dev k' = (view dev k2)\<lparr>v_brk := v_brk (view dev k2) + 1, v_slists := z\<rparr>"
    using SynchList_new_view [OF assms(1) L, of dev] by blast
  have g1: "grown (view dev k) (view dev k1)" by (rule Lock_new_grown [OF L(1) assms(2)])
  have "v_brk (view dev k1) < v_brk (view dev k2) + 1" using Condition_new_view [OF L(2), of dev] by simp
  then have "grown (view dev k1) (view dev k')"
    unfolding v using Condition_new_grown [OF L(2) grown_calm [OF g1]] by simp
  then show ?thesis by (rule grown_trans [OF g1])
qed

lemma MailBoxes_new_grown:
  "MailBoxes_new n k = (ls, k') \<Longrightarrow> calm (kview_of k) \<Longrightarrow> grown (kview_of k) (kview_of k')"
proof (induction n arbitrary: k ls k')
  case 0
  then show ?case by (simp add: grown_refl)
next
  case (Suc n)
  then obtain l k1 ls' where step: "SynchList_new k = (l, k1)" "MailBoxes_new n k1 = (ls', k')"
    by (auto split: prod.splits)
  note g1 = SynchList_new_grown [OF step(1) Suc.prems(2)]
  show ?case by (rule grown_trans [OF g1 Suc.IH [OF step(2) grown_calm [OF g1]]])
qed

text \<open>A driver takes over semaphores.\<close>

lemma dev_calm:
  assumes "calm v" "\<And>s. s \<in> D \<Longrightarrow> s \<in> v_dev v \<or> usable v s"
  shows "calm (v\<lparr>v_dev := D\<rparr>)" "good v (v\<lparr>v_dev := D\<rparr>)"
proof -
  let ?v = "v\<lparr>v_dev := D\<rparr>"
  have K: "K_ready v" "K_queue v" "K_stack v" "K_lock (\<lambda>_. 0) v" "K_wake v" "K_waiter v" "K_bound v"
    using assms(1) by (simp_all add: calm_def kinv_def)
  have ls: "lock_sems ?v = lock_sems v" by (simp add: lock_sems_def)
  have "K_ready ?v" "K_queue ?v" "K_stack ?v" "K_lock (\<lambda>_. 0) ?v" "K_wake ?v"
    using K by (simp_all add: K_ready_def K_queue_def K_stack_def K_lock_def token_sum_def alive_def K_wake_def retrying_def)
  moreover have "s \<notin> D" if "F_DeleteSemaphore s \<in> set (v_frames v t)" for s t
    using K(6) assms(2) [of s] that unfolding K_waiter_def usable_def by blast
  then have "K_waiter ?v" using K(6) unfolding K_waiter_def ls by auto
  moreover have "s < v_brk v \<and> s \<notin> lock_sems v" if "s \<in> D" for s
    using assms(2) [OF that] K_boundD(9,10) [OF K(7)] unfolding usable_def by blast
  then have "K_bound ?v" using K(7) unfolding K_bound_def ls by simp
  ultimately show c: "calm ?v" using assms(1) by (simp add: calm_def kinv_def)
  show "good v ?v" using calm_good [OF c] by (rule good_from) simp_all
qed


section \<open>The operations of the drivers\<close>

lemma push_op:
  assumes "push fs k1 = Inr k'" "kview_of k1 = kview_of k" "executing (F_Do a) (kview_of k)"
    and "\<And>f. f \<in> set fs \<Longrightarrow> plain f \<or> (\<exists>s \<in> driver_sems (devs k). f = F_P s \<or> f = F_V s)"
  shows "good (kview_of k) (kview_of k')"
proof -
  have "v_dev (kview_of k) = driver_sems (devs k)" by (simp add: view_def)
  then have "good (kview_of k) (with_frames (kview_of k) (fs @ v_frames (kview_of k) (v_cur (kview_of k))))"
    by (intro driver_push_good [OF assms(3)]) (use assms(4) in \<open>simp add: driver_frame_def\<close>)
  then show ?thesis using push_view [OF assms(1), of driver_sems] unfolding assms(2) by simp
qed

lemma same_op: "kview_of k' = kview_of k \<Longrightarrow> executing (F_Do a) (kview_of k) \<Longrightarrow> good (kview_of k) (kview_of k')"
  by (rule same_from [where f = "F_Do a"]) simp_all

lemma GetChar_good:
  assumes "SynchConsoleInput_GetChar k = Inr k'" "executing (F_Do a) (kview_of k)"
  shows "good (kview_of k) (kview_of k')"
proof -
  obtain x where x: "dv_synchConsoleIn (devs k) = Some x"
    "push [F_Acquire (sc_lock x), F_P (sc_waitFor x), F_Do Do_ConsoleInput_GetChar, F_Release (sc_lock x)] k = Inr k'"
    using assms(1) by (auto simp: SynchConsoleInput_GetChar_def res_simps)
  show ?thesis by (rule push_op [OF x(2) refl assms(2)]) (auto simp: plain_def driver_sems_def x(1))
qed

lemma PutChar_good:
  assumes "SynchConsoleOutput_PutChar ch k = Inr k'" "executing (F_Do a) (kview_of k)"
  shows "good (kview_of k) (kview_of k')"
proof -
  obtain x where x: "dv_synchConsoleOut (devs k) = Some x"
    "push [F_Acquire (sc_lock x), F_Do (Do_ConsoleOutput_PutChar ch), F_P (sc_waitFor x), F_Release (sc_lock x)] k = Inr k'"
    using assms(1) by (auto simp: SynchConsoleOutput_PutChar_def res_simps)
  show ?thesis by (rule push_op [OF x(2) refl assms(2)]) (auto simp: plain_def driver_sems_def x(1))
qed

lemma ReadSector_good:
  assumes "DiskDriver_ReadSector s k = Inr k'" "executing (F_Do a) (kview_of k)"
  shows "good (kview_of k) (kview_of k')"
proof -
  obtain x where x: "dv_synchDisk (devs k) = Some x"
    "push [F_Acquire (sy_lock x), F_Do (Do_read s), F_Release (sy_lock x)] k = Inr k'"
    using assms(1) by (auto simp: DiskDriver_ReadSector_def res_simps)
  show ?thesis by (rule push_op [OF x(2) refl assms(2)]) (auto simp: plain_def)
qed

lemma WriteSector_good:
  assumes "DiskDriver_WriteSector s data k = Inr k'" "executing (F_Do a) (kview_of k)"
  shows "good (kview_of k) (kview_of k')"
proof -
  obtain x where x: "dv_synchDisk (devs k) = Some x"
    "push [F_Acquire (sy_lock x), F_Do (Do_write s data), F_P (sy_semaphore x), F_Release (sy_lock x)] k = Inr k'"
    using assms(1) by (auto simp: DiskDriver_WriteSector_def res_simps)
  show ?thesis by (rule push_op [OF x(2) refl assms(2)]) (auto simp: plain_def driver_sems_def x(1))
qed

lemma read_good:
  assumes "DiskDriver_read s k = Inr k'" and E: "executing (F_Do a) (kview_of k)"
  shows "good (kview_of k) (kview_of k')"
proof -
  obtain x where x: "dv_synchDisk (devs k) = Some x" using assms(1) by (auto simp: DiskDriver_read_def res_simps)
  let ?give = "\<lambda>data k. upd_devs (\<lambda>d. d\<lparr>dv_sector := (dv_sector d)(k_currentThread k := data)\<rparr>) k"
  show ?thesis
  proof (cases "cache_find (sd_cache (sy_disk x)) s 0")
    case (Some i)
    then have "\<exists>sd data. k' = ?give data (set_synchdisk sd k)" using assms(1) x by (auto simp: DiskDriver_read_def deref_def Let_def)
    then have "kview_of k' = kview_of k" by auto
    then show ?thesis by (rule same_op [OF _ E])
  next
    case None
    then obtain ticks data sd st k1 where k1: "Interrupt_Schedule CB_Disk ticks DiskInt (?give data (set_synchdisk sd (k\<lparr>hw_stats := st\<rparr>))) = Inr k1"
      "push [F_P (sy_semaphore x)] k1 = Inr k'"
      using assms(1) x by (auto simp: DiskDriver_read_def deref_def Let_def bindE_eq_Inr)
    have v1: "kview_of k1 = kview_of k" using Schedule_view [OF k1(1)] by simp
    show ?thesis by (rule push_op [OF k1(2) v1 E]) (auto simp: driver_sems_def x)
  qed
qed

lemma write_view: "DiskDriver_write s data k = Inr k' \<Longrightarrow> kview_of k' = kview_of k"
  by (auto simp: DiskDriver_write_def Let_def bindE_eq_Inr dest!: Schedule_view)

lemma ConsoleInput_GetChar_view: "ConsoleInput_GetChar k = Inr (c, k') \<Longrightarrow> kview_of k' = kview_of k"
  by (auto simp: ConsoleInput_GetChar_def Let_def bindE_eq_Inr Schedule_view split: if_splits)

lemma ConsoleOutput_PutChar_view: "ConsoleOutput_PutChar c k = Inr k' \<Longrightarrow> kview_of k' = kview_of k"
  by (auto simp: ConsoleOutput_PutChar_def bindE_eq_Inr dest!: Schedule_view)

lemma NetworkInput_Receive_view: "NetworkInput_Receive buffer k = Inr (h, b, k') \<Longrightarrow> kview_of k' = kview_of k"
  by (auto simp: NetworkInput_Receive_def Let_def bindE_eq_Inr)

lemma NetworkInput_Receive_devs:
  "NetworkInput_Receive buffer k = Inr (h, b, k') \<Longrightarrow> dv_postOfficeIn (devs k') = dv_postOfficeIn (devs k)"
  by (auto simp: NetworkInput_Receive_def Let_def bindE_eq_Inr)

lemma NetworkOutput_Send_view:
  assumes "NetworkOutput_Send hdr data k = Inr k'"
  shows "kview_of k' = kview_of k"
proof -
  obtain x k1 where x: "dv_networkOut (devs k) = Some x" and k1: "Interrupt_Schedule CB_NetworkOutput NetworkTime NetworkSendInt k = Inr k1"
    and run: "(case RandomNumber k1 of (r, k) \<Rightarrow> if rat_of_nat (r mod 100) \<ge> no_chanceToWork x * 100 then Inr k
     else bindE (Network_wire (h_junk (dv_host (devs k))) hdr data) (\<lambda>buffer.
          Inr (upd_host (\<lambda>h. h\<lparr>h_sent := h_sent h @ [(pkt_to hdr, buffer)]\<rparr>) k))) = Inr k'"
    using assms unfolding NetworkOutput_Send_def Let_def bindE_eq_Inr deref_eq_Inr by blast
  obtain r k2 where r: "RandomNumber k1 = (r, k2)" by (cases "RandomNumber k1")
  have "kview_of k' = kview_of k2" using run unfolding r by (auto simp: bindE_eq_Inr split: if_splits)
  also have "\<dots> = kview_of k1" using RandomNumber_view [of k1] r by simp
  finally show ?thesis using Schedule_view [OF k1] by simp
qed

lemma postOfficeIn_view:
  assumes "dv_postOfficeIn (devs k) = Some x"
  shows "kview_of (upd_devs (\<lambda>d. d\<lparr>dv_postOfficeIn := Some (x\<lparr>pi_buffer := b\<rparr>)\<rparr>) k) = kview_of k"
  by (rule upd_devs_same) (simp add: driver_sems_def assms)

lemma deliver_good:
  assumes "PostalDelivery_round k = Inr k'" and E: "executing (F_Do a) (kview_of k)"
  shows "good (kview_of k) (kview_of k')"
proof -
  obtain x h b k1 box where x: "dv_postOfficeIn (devs k) = Some x" "NetworkInput_Receive (pi_buffer x) k = Inr (h, b, k1)"
    and put: "MailBox_Put box h (MailHeader_of_bytes b) (drop sizeof_Header b)
       (upd_devs (\<lambda>d. d\<lparr>dv_postOfficeIn := Some (x\<lparr>pi_buffer := b\<rparr>)\<rparr>) k1) = Inr k'"
    using assms(1) by (auto simp: PostalDelivery_round_def Let_def bindE_eq_Inr deref_eq_Inr)
  let ?k2 = "upd_devs (\<lambda>d. d\<lparr>dv_postOfficeIn := Some (x\<lparr>pi_buffer := b\<rparr>)\<rparr>) k1"
  obtain mail p where p: "push [F_SL_Append box p] (upd_devs (\<lambda>d. d\<lparr>dv_mails := (dv_mails d)(p \<mapsto> mail), dv_newMail := p + 1\<rparr>) ?k2) = Inr k'"
    using put by (auto simp: MailBox_Put_def Let_def bindE_eq_Inr)
  have "dv_postOfficeIn (devs k1) = Some x" using x NetworkInput_Receive_devs by metis
  then have "kview_of ?k2 = kview_of k1" by (rule postOfficeIn_view)
  also have "\<dots> = kview_of k" by (rule NetworkInput_Receive_view [OF x(2)])
  finally have v: "kview_of (upd_devs (\<lambda>d. d\<lparr>dv_mails := (dv_mails d)(p \<mapsto> mail), dv_newMail := p + 1\<rparr>) ?k2) = kview_of k"
    unfolding devices_view .
  show ?thesis by (rule push_op [OF p v E]) (auto simp: plain_def)
qed

lemma PostalDelivery_good:
  assumes "PostalDelivery k = Inr k'" "executing (F_Do a) (kview_of k)"
  shows "good (kview_of k) (kview_of k')"
proof -
  obtain x where x: "dv_postOfficeIn (devs k) = Some x"
    "push [F_P (pi_messageAvailable x), F_Do Do_deliver, F_Do Do_PostalDelivery] k = Inr k'"
    using assms(1) by (auto simp: PostalDelivery_def res_simps)
  show ?thesis by (rule push_op [OF x(2) refl assms(2)]) (auto simp: plain_def driver_sems_def x(1))
qed

lemma Receive_good:
  assumes "PostOfficeInput_Receive box k = Inr k'" "executing (F_Do a) (kview_of k)"
  shows "good (kview_of k) (kview_of k')"
proof -
  obtain l where x: "push [F_SL_RemoveFront l, F_Do Do_Get] k = Inr k'"
    using assms(1) by (auto simp: PostOfficeInput_Receive_def bindE_eq_Inr)
  show ?thesis by (rule push_op [OF x refl assms(2)]) (auto simp: plain_def)
qed

lemma MailBox_copy_view: "MailBox_copy k = Inr (h, m, d, k') \<Longrightarrow> kview_of k' = kview_of k"
  by (auto simp: MailBox_copy_def Let_def bindE_eq_Inr split: if_splits)

lemma Get_view:
  assumes "PostOfficeInput_Get k = Inr k'"
  shows "kview_of k' = kview_of k"
proof -
  obtain h m d k1 f where k1: "MailBox_copy k = Inr (h, m, d, k1)" "k' = upd_devs (\<lambda>d. d\<lparr>dv_received := f d\<rparr>) k1"
    using assms unfolding PostOfficeInput_Get_def bindE_eq_Inr by (clarsimp simp: bindE_eq_Inr)
  then show ?thesis using MailBox_copy_view [OF k1(1)] by simp
qed

lemma Send_good:
  assumes "PostOfficeOutput_Send h m data k = Inr k'" "executing (F_Do a) (kview_of k)"
  shows "good (kview_of k) (kview_of k')"
proof -
  obtain x p b where x: "dv_postOfficeOut (devs k) = Some x"
    "push [F_Acquire (po_sendLock x), F_Do (Do_Network_Send p b), F_P (po_messageSent x), F_Release (po_sendLock x)] k = Inr k'"
    using assms(1) by (auto simp: PostOfficeOutput_Send_def Let_def bindE_eq_Inr deref_eq_Inr)
  show ?thesis by (rule push_op [OF x(2) refl assms(2)]) (auto simp: plain_def driver_sems_def x(1))
qed

lemma take_over:
  assumes "calm (kview_of k)" "usable (kview_of k) s" "driver_sems (f (devs k)) \<subseteq> insert s (driver_sems (devs k))"
  shows "calm (kview_of (upd_devs f k))" "v_locks (kview_of (upd_devs f k)) = v_locks (kview_of k)"
    "v_cur (kview_of (upd_devs f k)) = v_cur (kview_of k)"
proof -
  have v: "v_dev (kview_of k) = driver_sems (devs k)" by (simp add: view_def)
  have "t \<in> v_dev (kview_of k) \<or> usable (kview_of k) t" if "t \<in> driver_sems (f (devs k))" for t
    using that assms(2,3) unfolding v by blast
  then show "calm (kview_of (upd_devs f k))" unfolding upd_devs_view by (rule dev_calm(1) [OF assms(1)])
qed (simp_all add: upd_devs_view)

lemma push_calm:
  assumes "push fs k = Inr k'" "calm (view dev k)" "list_all plain fs"
  shows "calm (view dev k')" "good (view dev k) (view dev k')"
proof -
  note C = assms(2) [unfolded calm_def]
  show g: "good (view dev k) (view dev k')" using push_good [OF assms(1), of dev] C assms(3) by blast
  have v: "view dev k' = with_frames (view dev k) (fs @ v_frames (view dev k) (v_cur (view dev k)))"
    using push_view [OF assms(1), of dev] by simp
  have "kinv (\<lambda>_. 0) (view dev k')" using g by (simp add: good_def)
  then show "calm (view dev k')" using C plain_list(5) [OF assms(3)] by (simp add: calm_def v)
qed

lemma new_device_view [simp]:
  "kview_of (NetworkOutput_new r c k) = kview_of k" "kview_of (ConsoleOutput_new c k) = kview_of k"
  by (simp_all add: NetworkOutput_new_def ConsoleOutput_new_def)

lemma PostOfficeOutput_new_good:
  assumes "PostOfficeOutput_new r k = k'" "calm (kview_of k)"
  shows "calm (kview_of k')" "good (kview_of k') w \<Longrightarrow> good (kview_of k) w"
proof -
  obtain s k1 where S: "Semaphore_new 0 k = (s, k1)" by (cases "Semaphore_new 0 k")
  obtain l k2 where L: "Lock_new k1 = (l, k2)" by (cases "Lock_new k1")
  define k3 where "k3 = upd_devs (\<lambda>d. d\<lparr>dv_postOfficeOut := Some \<lparr>po_messageSent = s, po_sendLock = l\<rparr>\<rparr>) k2"
  note G1 = Semaphore_new_grown [OF S assms(2)]
  note G2 = Lock_new_grown [OF L grown_calm [OF G1(1)]]
  note T = take_over [OF grown_calm [OF G2] grown_usable [OF G2 G1(2)],
      of "\<lambda>d. d\<lparr>dv_postOfficeOut := Some \<lparr>po_messageSent = s, po_sendLock = l\<rparr>\<rparr>", folded k3_def]
  have sub: "driver_sems ((devs k2)\<lparr>dv_postOfficeOut := Some \<lparr>po_messageSent = s, po_sendLock = l\<rparr>\<rparr>) \<subseteq> insert s (driver_sems (devs k2))"
    by (auto simp: driver_sems_def)
  have "k' = NetworkOutput_new r D_PostOfficeOutput k3"
    using assms(1) S L unfolding PostOfficeOutput_new_def k3_def by simp
  then have v: "kview_of k' = kview_of k3" by simp
  show "calm (kview_of k')" unfolding v by (rule T(1) [OF sub])
  show "good (kview_of k) w" if "good (kview_of k') w"
    using good_from [OF that [unfolded v] T(2) [OF sub] T(3) [OF sub]] good_grown [OF grown_trans [OF G1(1) G2]] by blast
qed

lemma Initialize_rest_good:
  assumes "Kernel_Initialize_rest u opt k = Inr k'" and E: "executing (F_Do a) (kview_of k)"
  shows "good (kview_of k) (kview_of k')"
proof -
  have c: "calm (kview_of k)" by (rule executing_calm [OF E]) simp
  define k1 where "k1 = PostOfficeOutput_new (op_reliability opt) k"
  note N = PostOfficeOutput_new_good [OF k1_def [symmetric] c]
  obtain m where p: "push [F_SetLevel IntOn] (k1\<lparr>hw_machine := m\<rparr>) = Inr k'"
    using assms(1) by (auto simp: Kernel_Initialize_rest_def Let_def bindE_eq_Inr k1_def)
  have "good (kview_of (k1\<lparr>hw_machine := m\<rparr>)) (kview_of k')"
    by (rule push_calm(2) [OF p]) (use N(1) in \<open>simp_all add: plain_def\<close>)
  then show ?thesis by (intro N(2)) simp
qed

lemma driver_call_good:
  assumes "driver_call u opt a k = Inr k'" "executing (F_Do a) (kview_of k)"
  shows "good (kview_of k) (kview_of k')"
proof (cases a)
  case Do_ConsoleInput_GetChar
  then obtain c k1 f where k1: "ConsoleInput_GetChar k = Inr (c, k1)" "k' = upd_devs (\<lambda>d. d\<lparr>dv_char := f d\<rparr>) k1"
    using assms(1) by (auto simp: driver_call_def bindE_eq_Inr)
  have "kview_of k' = kview_of k" using ConsoleInput_GetChar_view [OF k1(1)] k1(2) by simp
  then show ?thesis by (rule same_op [OF _ assms(2)])
next
  case (Do_ConsoleOutput_PutChar c)
  then have "kview_of k' = kview_of k" using assms(1) ConsoleOutput_PutChar_view by (simp add: driver_call_def)
  then show ?thesis by (rule same_op [OF _ assms(2)])
next
  case (Do_write s d)
  then have "kview_of k' = kview_of k" using assms(1) write_view by (simp add: driver_call_def)
  then show ?thesis by (rule same_op [OF _ assms(2)])
next
  case Do_Get
  then have "kview_of k' = kview_of k" using assms(1) Get_view by (simp add: driver_call_def)
  then show ?thesis by (rule same_op [OF _ assms(2)])
next
  case (Do_Network_Send h d)
  then have "kview_of k' = kview_of k" using assms(1) NetworkOutput_Send_view by (simp add: driver_call_def)
  then show ?thesis by (rule same_op [OF _ assms(2)])
qed (use assms in \<open>simp_all add: driver_call_def GetChar_good PutChar_good ReadSector_good read_good WriteSector_good
    PostalDelivery_good deliver_good Receive_good Send_good Initialize_rest_good\<close>)

interpretation nachos: drivers driver_sems CallBack "driver_call u opt" for u opt
  by unfold_locales (fact CallBack_wakes driver_call_good)+

section \<open>The kernel after Initialize\<close>

lemma Kernel_threads_view:
  assumes "Kernel_threads (blank_kernel d) = Inr k"
  shows "kview_of k = \<lparr>v_cur = 0, v_stat = [0 \<mapsto> RUNNING], v_frames = (\<lambda>_. []), v_prio = (\<lambda>_. 0), v_ready = [], v_doomed = None,
    v_sems = Map.empty, v_locks = Map.empty, v_conds = Map.empty, v_slists = Map.empty, v_brk = 1, v_dev = driver_sems d\<rparr>"
proof -
  obtain k1 t k2 k3 where k1: "ThreadManager_new (blank_kernel d) = Inr k1" and k2: "createThread None 0 k1 = Inr (Some t, k2)"
    and k3: "setStatus t RUNNING (k2\<lparr>k_currentThread := t\<rparr>) = Inr k3"
    and k: "k = Scheduler_new (Interrupt_new (k3\<lparr>hw_stats := Statistics_new\<rparr>))"
    using assms unfolding Kernel_threads_def by (clarsimp simp: bindE_eq_Inr deref_eq_Inr)
  have v1: "kview_of k1 = \<lparr>v_cur = 0, v_stat = (\<lambda>_. None), v_frames = (\<lambda>_. []), v_prio = (\<lambda>_. 0), v_ready = [], v_doomed = None,
    v_sems = Map.empty, v_locks = Map.empty, v_conds = Map.empty, v_slists = Map.empty, v_brk = 0, v_dev = driver_sems d\<rparr>"
    using k1 by (auto simp: ThreadManager_new_def bindE_eq_Inr)
      (simp add: view_def blank_kernel_def frames_def priority_def fun_eq_iff)
  have v2: "t = v_brk (kview_of k1)" "kview_of k2 = create_view t (kview_of k1)"
    using createThread_view [OF k2, of driver_sems] by simp_all
  have v3: "kview_of k3 = (kview_of (k2\<lparr>k_currentThread := t\<rparr>))\<lparr>v_stat := (v_stat (kview_of (k2\<lparr>k_currentThread := t\<rparr>)))(t \<mapsto> RUNNING)\<rparr>"
    using setStatus_view [OF k3, of driver_sems] by simp
  have c: "kview_of (k2\<lparr>k_currentThread := t\<rparr>) = (kview_of k2)\<lparr>v_cur := t\<rparr>"
    by (simp add: view_def frames_def priority_def fun_eq_iff)
  have "kview_of k = (kview_of k3)\<lparr>v_ready := [], v_doomed := None\<rparr>"
    unfolding k by (simp add: Scheduler_new_def Interrupt_new_def view_def frames_def priority_def fun_eq_iff)
  moreover have "t = 0" using v2(1) by (simp add: v1)
  ultimately show ?thesis unfolding v3 c v2(2) v1 by (simp add: create_view_def fun_eq_iff)
qed

lemma Kernel_threads_calm:
  assumes "Kernel_threads (blank_kernel (new_devices u opt)) = Inr k"
  shows "calm (kview_of k)"
proof -
  have none: "driver_sems (new_devices u opt) = {}" by (simp add: driver_sems_def new_devices_def)
  note v = Kernel_threads_view [OF assms, unfolded none]
  have "K_ready (kview_of k)" "K_queue (kview_of k)" "K_stack (kview_of k)" "K_lock (\<lambda>_. 0) (kview_of k)" "K_wake (kview_of k)"
    "K_waiter (kview_of k)" "K_bound (kview_of k)"
    by (simp_all add: v K_ready_def K_queue_def K_stack_def K_lock_def K_wake_def K_waiter_def K_bound_def)
  then show ?thesis by (simp add: calm_def kinv_def v)
qed

lemma Alarm_new_view:
  assumes "Alarm_new r k = Inr k'"
  shows "kview_of k' = kview_of k"
  using SetInterrupt_view [OF assms [unfolded Alarm_new_def Timer_new_def]] by simp

lemma SynchConsoleInput_new_calm:
  assumes "SynchConsoleInput_new k = Inr k'" "calm (kview_of k)"
  shows "calm (kview_of k')"
proof -
  obtain k1 where k1: "ConsoleInput_new D_SynchConsoleInput k = Inr k1"
    using assms(1) unfolding SynchConsoleInput_new_def bindE_eq_Inr by blast
  obtain l k2 where L: "Lock_new k1 = (l, k2)" by (cases "Lock_new k1")
  obtain s k3 where S: "Semaphore_new 0 k2 = (s, k3)" by (cases "Semaphore_new 0 k2")
  have k': "k' = upd_devs (\<lambda>d. d\<lparr>dv_synchConsoleIn := Some \<lparr>sc_lock = l, sc_waitFor = s\<rparr>\<rparr>) k3"
    using assms(1) k1 L S by (simp add: SynchConsoleInput_new_def)
  have "kview_of k1 = kview_of k" using Schedule_view [OF k1 [unfolded ConsoleInput_new_def]] by simp
  then have "calm (kview_of k1)" using assms(2) by simp
  note G = Semaphore_new_grown [OF S grown_calm [OF Lock_new_grown [OF L this]]]
  show ?thesis unfolding k' by (rule take_over(1) [OF grown_calm [OF G(1)] G(2)]) (auto simp: driver_sems_def)
qed

lemma SynchConsoleOutput_new_calm:
  assumes "SynchConsoleOutput_new k = Inr k'" "calm (kview_of k)"
  shows "calm (kview_of k')"
proof -
  obtain l k2 s k3 where L: "Lock_new (ConsoleOutput_new D_SynchConsoleOutput k) = (l, k2)"
    and S: "Semaphore_new 0 k2 = (s, k3)" and k': "k' = upd_devs (\<lambda>d. d\<lparr>dv_synchConsoleOut := Some \<lparr>sc_lock = l, sc_waitFor = s\<rparr>\<rparr>) k3"
    using assms(1) by (auto simp: SynchConsoleOutput_new_def Let_def split: prod.splits)
  have "calm (kview_of (ConsoleOutput_new D_SynchConsoleOutput k))" using assms(2) by simp
  note G = Semaphore_new_grown [OF S grown_calm [OF Lock_new_grown [OF L this]]]
  show ?thesis unfolding k' by (rule take_over(1) [OF grown_calm [OF G(1)] G(2)]) (auto simp: driver_sems_def)
qed

lemma DiskDriver_new_calm:
  assumes "DiskDriver_new junk f k = Inr k'" "calm (kview_of k)"
  shows "calm (kview_of k')"
proof -
  obtain s k1 l k2 sd where S: "Semaphore_new 0 k = (s, k1)" and L: "Lock_new k1 = (l, k2)"
    and k': "k' = upd_devs (\<lambda>d. d\<lparr>dv_synchDisk := Some \<lparr>sy_semaphore = s, sy_lock = l, sy_disk = sd\<rparr>\<rparr>) k2"
    using assms(1) by (auto simp: DiskDriver_new_def bindE_eq_Inr split: prod.splits)
  note G1 = Semaphore_new_grown [OF S assms(2)]
  note G2 = Lock_new_grown [OF L grown_calm [OF G1(1)]]
  show ?thesis unfolding k'
    by (rule take_over(1) [OF grown_calm [OF G2] grown_usable [OF G2 G1(2)]]) (auto simp: driver_sems_def)
qed

lemma PostOfficeInput_new_ok:
  assumes "PostOfficeInput_new u n k = Inr k'" "calm (kview_of k)"
  shows "kinv (\<lambda>_. 0) (kview_of k') \<and> cur_ok (kview_of k')"
proof -
  obtain s k1 where S: "Semaphore_new 0 k = (s, k1)" by (cases "Semaphore_new 0 k")
  obtain bs k2 where M: "MailBoxes_new n k1 = (bs, k2)" by (cases "MailBoxes_new n k1")
  define k3 where "k3 = upd_devs (\<lambda>d. d\<lparr>dv_postOfficeIn := Some \<lparr>pi_boxes = bs, pi_numBoxes = int n, pi_messageAvailable = s,
    pi_buffer = su_buffer u\<rparr>\<rparr>) k2"
  have "bindE (NetworkInput_new (su_header u) (su_inbox u) D_PostOfficeInput k3) (\<lambda>k.
      bindE (createThread (Some (k_currentThread k)) 0 k) (\<lambda>(t, k). bindE (deref t) (\<lambda>t. Thread_Fork t k))) = Inr k'"
    using assms(1) S M unfolding PostOfficeInput_new_def k3_def by simp
  then obtain k4 t k5 where k4: "NetworkInput_new (su_header u) (su_inbox u) D_PostOfficeInput k3 = Inr k4"
    and k5: "createThread (Some (k_currentThread k4)) 0 k4 = Inr (Some t, k5)" and fork: "Thread_Fork t k5 = Inr k'"
    by (auto simp: bindE_eq_Inr deref_eq_Inr)
  note G1 = Semaphore_new_grown [OF S assms(2)]
  note G2 = MailBoxes_new_grown [OF M grown_calm [OF G1(1)]]
  have "calm (kview_of k3)" unfolding k3_def
    by (rule take_over(1) [OF grown_calm [OF G2] grown_usable [OF G2 G1(2)]]) (auto simp: driver_sems_def)
  moreover have "kview_of k4 = kview_of k3" using Schedule_view [OF k4 [unfolded NetworkInput_new_def]] by simp
  ultimately have c4: "calm (kview_of k4)" by simp
  have v5: "kview_of k5 = create_view t (kview_of k4)" "t = v_brk (kview_of k4)"
    using createThread_view [OF k5, of driver_sems] by simp_all
  have "good (kview_of k4) (kview_of k5)"
    by (rule createThread_good [OF k5]) (rule calm_executing [OF c4], simp_all)
  moreover have "v_cur (kview_of k4) \<noteq> t"
    using fresh(5) [of "kview_of k4"] c4 unfolding v5(2) calm_def kinv_def by blast
  ultimately have "calm (kview_of k5)" "v_stat (kview_of k5) t = Some JUST_CREATED"
    using c4 by (simp_all add: calm_def good_def v5(1) create_view_def)
  then have "executing (F_Fork t) (kview_of k5)" by (intro calm_executing) simp_all
  from Fork_good [OF fork this] show ?thesis by (simp add: good_def)
qed

lemma boot_ok:
  assumes "Kernel_Initialize u opt = Inr k"
  shows "kinv (\<lambda>_. 0) (kview_of k) \<and> cur_ok (kview_of k)"
proof -
  obtain k1 k2 k3 k4 k5 k6 k7 where b: "Kernel_threads (blank_kernel (new_devices u opt)) = Inr k1"
    "Alarm_new (op_randomSlice opt) k1 = Inr k2" "Kernel_machine u opt k2 = Inr k3" "SynchConsoleInput_new k3 = Inr k4"
    "SynchConsoleOutput_new k4 = Inr k5" "DiskDriver_new (su_cache u) (su_disk u) k5 = Inr k6"
    "push [F_Do Do_Initialize_rest] k6 = Inr k7" "PostOfficeInput_new u 10 k7 = Inr k"
    using assms unfolding Kernel_Initialize_def bindE_eq_Inr by blast
  have v3: "kview_of k3 = kview_of k2" using b(3) by (auto simp: Kernel_machine_def Let_def bindE_eq_Inr)
  have "calm (kview_of k3)" using Kernel_threads_calm [OF b(1)] Alarm_new_view [OF b(2)] v3 by simp
  then have "calm (kview_of k6)"
    by (intro DiskDriver_new_calm [OF b(6)] SynchConsoleOutput_new_calm [OF b(5)] SynchConsoleInput_new_calm [OF b(4)])
  then have "calm (kview_of k7)" by (rule push_calm(1) [OF b(7)]) (simp add: plain_def)
  then show ?thesis by (rule PostOfficeInput_new_ok [OF b(8)])
qed

section \<open>Reachable states\<close>

inductive reachable :: "surroundings \<Rightarrow> options \<Rightarrow> nachos \<Rightarrow> bool" for u opt where
  boot: "Kernel_Initialize u opt = Inr k \<Longrightarrow> reachable u opt k"
| step: "reachable u opt k \<Longrightarrow> kstep CallBack (driver_call u opt) k k' \<Longrightarrow> reachable u opt k'"

lemma reachable_ok: "reachable u opt k \<Longrightarrow> kinv (\<lambda>_. 0) (kview_of k) \<and> cur_ok (kview_of k)"
proof (induction rule: reachable.induct)
  case (boot k)
  then show ?case by (rule boot_ok)
next
  case (step k k')
  then show ?case using nachos.step_good [OF step(2)] by (simp add: good_def)
qed

lemmas reachable_invs = reachable_ok [THEN conjunct1, unfolded kinv_def]

end
