(* ===== verification/Kernel_Correct.thy ===== *)
theory Kernel_Correct
  imports Kernel_Boot Vm_Laws
begin

text \<open>
  That the kernel boots, and what the invariant of Kernel_Inv says of the states it reaches: where each
  thread is, mutual exclusion, and that no wakeup is lost. \<open>idle_host\<close> is the host of the examples.
\<close>

section \<open>The kernel boots\<close>

text \<open>While the constructors run: only the main thread exists; no interrupt is due for ten ticks.\<close>

definition quiet :: "nachos \<Rightarrow> bool" where
  "quiet k \<longleftrightarrow> hw_level k = IntOff \<and> hw_status k = SystemMode \<and> \<not> hw_inHandler k \<and> \<not> hw_yieldOnReturn k
     \<and> k_toBeDestroyed k = None \<and> pending_ok k \<and> (\<forall>p \<in> set (hw_pending k). now k + 10 < pi_when p)"

definition booting :: "nachos \<Rightarrow> bool" where
  "booting k \<longleftrightarrow> k_currentThread k = 0 \<and> (\<exists>th. k_threads k 0 = Some th \<and> th_stack th = None \<and> th_space th = None)
     \<and> 0 < k_brk k \<and> k_threadCnt k = 1 \<and> k_readyList k = [] \<and> bm_inv (k_threadMap k) \<and> quiet k"

lemma booting_upd_devs [simp]: "booting (upd_devs f k) = booting k"
  by (simp add: booting_def quiet_def pending_ok_def)

lemma Schedule_boots:
  assumes "booting k" "10 < d"
  shows "\<exists>k'. Interrupt_Schedule h d t k = Inr k' \<and> booting k'"
proof -
  have "pending_ok k" using assms(1) by (simp add: booting_def quiet_def)
  moreover have "0 < d" using assms(2) by simp
  ultimately show ?thesis
    using Schedule_ok [of k d, OF _ _ refl, of h t] assms by (auto simp: booting_def quiet_def)
qed

lemma objects_boot:
  "booting k \<Longrightarrow> booting (snd (Semaphore_new n k))" "booting k \<Longrightarrow> booting (snd (Lock_new k))"
  "booting k \<Longrightarrow> booting (snd (Condition_new k))" "booting k \<Longrightarrow> booting (snd (SynchList_new k))"
  by (simp_all add: booting_def quiet_def pending_ok_def Semaphore_new_def Lock_new_def Condition_new_def SynchList_new_def Let_def)

lemma MailBoxes_boot: "booting k \<Longrightarrow> booting (snd (MailBoxes_new n k))"
  by (induction n arbitrary: k) (simp_all add: case_prod_unfold Let_def objects_boot)

lemma FindAndSet_returns:
  assumes "bm_inv b"
  shows "\<exists>pid m. Bitmap_FindAndSet b = Inr (pid, m) \<and> bm_inv m"
  using assms by (cases rule: FindAndSet_cases) (use assms in auto)

lemma Kernel_threads_boots: "\<exists>k. Kernel_threads (blank_kernel d) = Inr k \<and> booting k"
proof -
  obtain b where b: "Bitmap_new THREAD_COUNT_MAX = Inr b" "bm_inv b"
    using Bitmap_new_ok [of THREAD_COUNT_MAX] by (auto simp: THREAD_COUNT_MAX_def)
  obtain pid m where m: "Bitmap_FindAndSet b = Inr (pid, m)" "bm_inv m" using FindAndSet_returns [OF b(2)] by blast
  show ?thesis
    by (simp add: Kernel_threads_def ThreadManager_new_def createThread_def generateThreadID_def
        b(1) [unfolded THREAD_COUNT_MAX_def] m(1) blank_kernel_def Let_def THREAD_COUNT_MAX_def deref_def setStatus_def upd_thread_def object_def Scheduler_new_def Interrupt_new_def)
      (simp add: booting_def quiet_def m(2) pending_ok_def Thread_new_def)
qed

lemma Timer_boots:
  assumes "booting k"
  shows "\<exists>k'. Alarm_new False k = Inr k' \<and> booting k'"
proof -
  let ?k = "upd_devs (\<lambda>d. d\<lparr>dv_timer := Some \<lparr>tm_randomize = False, tm_callPeriodically = D_Alarm, tm_disable = False\<rparr>\<rparr>) k"
  have "booting ?k" using assms by simp
  moreover have "10 < TimerTicks" by (simp add: TimerTicks_def)
  ultimately obtain k' where "Interrupt_Schedule CB_Timer TimerTicks TimerInt ?k = Inr k' \<and> booting k'"
    using Schedule_boots by meson
  then show ?thesis by (simp add: Alarm_new_def Timer_new_def Timer_SetInterrupt_def deref_def)
qed

lemma consoles_boot:
  assumes "booting k"
  shows "\<exists>k'. SynchConsoleInput_new k = Inr k' \<and> booting k'" "\<exists>k'. SynchConsoleOutput_new k = Inr k' \<and> booting k'"
proof -
  let ?k = "upd_devs (\<lambda>d. d\<lparr>dv_consoleIn := Some \<lparr>ci_callWhenAvail = D_SynchConsoleInput, ci_incoming = EOF_char\<rparr>\<rparr>) k"
  have "booting ?k" using assms by simp
  then obtain k1 where "Interrupt_Schedule CB_ConsoleInput ConsoleTime ConsoleReadInt ?k = Inr k1" "booting k1"
    using Schedule_boots [of ?k ConsoleTime CB_ConsoleInput ConsoleReadInt] by (auto simp: ConsoleTime_def)
  then show "\<exists>k'. SynchConsoleInput_new k = Inr k' \<and> booting k'"
    by (simp add: SynchConsoleInput_new_def ConsoleInput_new_def case_prod_unfold Let_def objects_boot)
  show "\<exists>k'. SynchConsoleOutput_new k = Inr k' \<and> booting k'"
    using assms by (simp add: SynchConsoleOutput_new_def ConsoleOutput_new_def case_prod_unfold Let_def objects_boot)
qed

lemma disk_boots:
  assumes "booting k" "\<exists>d. Disk_new f 0 0 = Inr d"
  shows "\<exists>k'. DiskDriver_new junk f k = Inr k' \<and> booting k'"
  using assms by (auto simp: DiskDriver_new_def SynchDisk_new_def case_prod_unfold Let_def objects_boot)

lemma push_boots: "booting k \<Longrightarrow> \<exists>k'. push fs k = Inr k' \<and> booting k'"
  by (auto simp: booting_def quiet_def push_def upd_thread_def object_def pending_ok_def)


text \<open>After \<open>Initialize\<close> the main thread is about to yield to the postal worker.\<close>

definition launched :: "nachos \<Rightarrow> bool" where
  "launched k \<longleftrightarrow> k_currentThread k = 0 \<and> quiet k
     \<and> (\<exists>t main worker r. t \<noteq> 0 \<and> k_readyList k = [t]
          \<and> k_threads k 0 = Some main \<and> th_frames main = F_Yield # r \<and> th_space main = None \<and> th_stack main = None
          \<and> k_threads k t = Some worker \<and> th_frames worker = [F_Begin])"

lemma postOffice_boots:
  assumes "booting k"
  shows "\<exists>k'. PostOfficeInput_new u n k = Inr k' \<and> launched k'"
proof -
  let ?k1 = "snd (Semaphore_new 0 k)"
  let ?k2 = "snd (MailBoxes_new n ?k1)"
  have "booting ?k2" by (rule MailBoxes_boot [OF objects_boot(1) [OF assms]])
  define k3 where "k3 = upd_devs (\<lambda>d. d\<lparr>dv_postOfficeIn := Some \<lparr>pi_boxes = fst (MailBoxes_new n ?k1), pi_numBoxes = int n,
    pi_messageAvailable = fst (Semaphore_new 0 k), pi_buffer = su_buffer u\<rparr>\<rparr>) ?k2"
  have "booting (upd_devs f k3)" for f using \<open>booting ?k2\<close> by (simp add: k3_def)
  moreover have "10 < NetworkTime" by (simp add: NetworkTime_def)
  ultimately obtain k4 where k4: "NetworkInput_new (su_header u) (su_inbox u) D_PostOfficeInput k3 = Inr k4" "booting k4"
    unfolding NetworkInput_new_def using Schedule_boots by meson
  obtain pid m where m: "Bitmap_FindAndSet (k_threadMap k4) = Inr (pid, m)"
    using FindAndSet_returns k4(2) unfolding booting_def by blast
  obtain th where th: "k_threads k4 0 = Some th" "th_stack th = None" "th_space th = None" "0 < k_brk k4" "k_currentThread k4 = 0"
    "k_threadCnt k4 = 1" "k_readyList k4 = []" "quiet k4"
    using k4(2) by (auto simp: booting_def)
  have "\<exists>k'. bindE (createThread (Some (k_currentThread k4)) 0 k4) (\<lambda>(t, k). bindE (deref t) (\<lambda>t. Thread_Fork t k)) = Inr k' \<and> launched k'"
    using th m
    by (simp add: createThread_def generateThreadID_def Let_def THREAD_COUNT_MAX_def addChild_def upd_thread_def object_def deref_def
        Thread_Fork_def StackAllocate_def set_level_def Interrupt_ChangeLevel_def ReadyToRun_def setStatus_def seq_Insert_def push_def
        launched_def quiet_def pending_ok_def sorted_insert_def)
  then show ?thesis
    using k4(1) unfolding PostOfficeInput_new_def k3_def by (simp add: case_prod_unfold Let_def)
qed

lemma kernel_boots:
  assumes "\<exists>d. Disk_new (su_disk u) 0 0 = Inr d" "\<not> op_randomSlice opt"
  shows "\<exists>k. Kernel_Initialize u opt = Inr k \<and> launched k"
proof -
  obtain k1 where k1: "Kernel_threads (blank_kernel (new_devices u opt)) = Inr k1" "booting k1" using Kernel_threads_boots by blast
  obtain k2 where k2: "Alarm_new (op_randomSlice opt) k1 = Inr k2" "booting k2" using Timer_boots [OF k1(2)] assms(2) by auto
  have "CheckEndian = Inr ()" by code_simp
  then have "\<exists>m. Kernel_machine u opt k2 = Inr (k2\<lparr>hw_machine := m\<rparr>)"
    unfolding Kernel_machine_def Machine_new_def Let_def \<open>CheckEndian = Inr ()\<close> by (simp del: replicate.simps) blast
  moreover have "booting (k2\<lparr>hw_machine := m\<rparr>)" for m using k2(2) by (simp add: booting_def quiet_def pending_ok_def)
  ultimately obtain k3 where k3: "Kernel_machine u opt k2 = Inr k3" "booting k3" by blast
  obtain k4 where k4: "SynchConsoleInput_new k3 = Inr k4" "booting k4" using consoles_boot(1) [OF k3(2)] by blast
  obtain k5 where k5: "SynchConsoleOutput_new k4 = Inr k5" "booting k5" using consoles_boot(2) [OF k4(2)] by blast
  obtain k6 where k6: "DiskDriver_new (su_cache u) (su_disk u) k5 = Inr k6" "booting k6" using disk_boots [OF k5(2) assms(1)] by blast
  obtain k7 where k7: "push [F_Do Do_Initialize_rest] k6 = Inr k7" "booting k7" using push_boots [OF k6(2)] by blast
  obtain k where "PostOfficeInput_new u 10 k7 = Inr k" "launched k" using postOffice_boots [OF k7(2)] by blast
  then show ?thesis
    using k1(1) k2(1) k3(1) k4(1) k5(1) k6(1) k7(1) by (simp add: Kernel_Initialize_def)
qed

text \<open>An empty disk and an idle host, for the witnesses.\<close>

definition idle_host :: surroundings where
  "idle_host =
     \<lparr>su_host = \<lparr>h_keyboard = (\<lambda>_. NoKey), h_polled = 0, h_display = [], h_socket = (\<lambda>_. None), h_listened = 0, h_sent = [],
        h_random = (\<lambda>n. n), h_drawn = 0, h_junk = (\<lambda>_. 0)\<rparr>,
      su_disk = None, su_cache = (\<lambda>_. \<lparr>ce_valid = 0, ce_dirty = 0, ce_sector = 0, ce_lru = 0, ce_data = []\<rparr>),
      su_vm = boot_vm, su_tlb = \<lparr>Tag = 0, PPN = 0, valid = False, threadId = 0, lru = 0\<rparr>,
      su_frames = (\<lambda>_. \<lparr>mainThreadId = 0, pm_virtualPage = 0\<rparr>),
      su_header = \<lparr>pkt_to = 0, pkt_from = 0, pkt_length = 0\<rparr>, su_inbox = replicate 52 0, su_buffer = replicate 52 0\<rparr>"

definition no_options :: options where
  "no_options = \<lparr>op_randomSlice = False, op_debugUserProg = False, op_consoleIn = None, op_consoleOut = None, op_reliability = 1,
     op_hostName = 0, op_seed = None\<rparr>"

lemma example_boot: "\<exists>k. reachable idle_host no_options k \<and> launched k"
proof -
  have "\<exists>d. Disk_new (su_disk idle_host) 0 0 = Inr d" by (simp add: idle_host_def Disk_new_def)
  moreover have "\<not> op_randomSlice no_options" by (simp add: no_options_def)
  ultimately show ?thesis using kernel_boots boot by blast
qed

abbreviation frame_step :: "nachos \<Rightarrow> nachos \<Rightarrow> bool" where
  "frame_step k k' \<equiv> run_frame CallBack (driver_call idle_host no_options) k = Inr k'"

text \<open>The worker has started and may call whatever it likes.\<close>

definition ready_to_call :: "nachos \<Rightarrow> bool" where
  "ready_to_call k \<longleftrightarrow> (\<exists>th. k_threads k (k_currentThread k) = Some th \<and> th_frames th = [])"

lemma quiet_SetLevel:
  assumes "quiet k"
  shows "\<exists>k'. Interrupt_SetLevel CallBack IntOn k = Inr (IntOff, k') \<and> k_threads k' = k_threads k \<and> k_currentThread k' = k_currentThread k
    \<and> \<not> hw_yieldOnReturn k'"
  using assms
  by (cases "hw_pending k")
    (auto simp: quiet_def Interrupt_SetLevel_def Interrupt_OneTick_def Interrupt_CheckIfDue_def Interrupt_ChangeLevel_def Let_def
      SystemTick_def seq_Front_def)

lemma worker_starts:
  assumes "launched k"
  shows "\<exists>k1 k2 k3. frame_step k k1 \<and> frame_step k1 k2 \<and> frame_step k2 k3 \<and> ready_to_call k3"
proof -
  obtain t main worker r where F: "t \<noteq> 0" "k_readyList k = [t]" "k_threads k 0 = Some main" "th_frames main = F_Yield # r"
    "th_space main = None" "th_stack main = None" "k_threads k t = Some worker" "th_frames worker = [F_Begin]" "k_currentThread k = 0"
    "quiet k"
    using assms by (auto simp: launched_def)
  note defs = run_frame_def object_def upd_thread_def push_def Let_def set_level_def Interrupt_ChangeLevel_def setStatus_def
    seq_RemoveFront_def seq_Insert_def CheckOverflow_def
  obtain k1 where k1: "frame_step k k1" "k_currentThread k1 = t" "\<exists>th. k_threads k1 t = Some th \<and> th_frames th = [F_Begin]" "quiet k1"
    using F by (auto simp: defs Thread_Yield_def FindNextToRun_def ReadyToRun_def Scheduler_Run_def quiet_def pending_ok_def)
  obtain k2 where k2: "frame_step k1 k2" "k_currentThread k2 = t" "\<exists>th. k_threads k2 t = Some th \<and> th_frames th = [F_SetLevel IntOn]" "quiet k2"
    using k1(2-4) by (auto simp: defs Thread_Begin_def CheckToBeDestroyed_def quiet_def pending_ok_def)
  obtain k3 where k3: "frame_step k2 k3" "ready_to_call k3"
  proof -
    obtain th where th: "k_threads k2 t = Some th" "th_frames th = [F_SetLevel IntOn]" using k2(3) by blast
    let ?k = "k2\<lparr>k_threads := (k_threads k2)(t \<mapsto> th\<lparr>th_frames := []\<rparr>)\<rparr>"
    have "quiet ?k" using k2(4) by (simp add: quiet_def pending_ok_def)
    then obtain k' where "Interrupt_SetLevel CallBack IntOn ?k = Inr (IntOff, k')" "k_threads k' = k_threads ?k"
      "k_currentThread k' = t" "\<not> hw_yieldOnReturn k'" using quiet_SetLevel [of ?k] k2(2) by auto
    then show thesis using that [of k'] k2(2) th by (simp add: defs SetLevel_def yield_if_asked_def ready_to_call_def)
  qed
  show ?thesis using k1(1) k2(1) k3 by blast
qed

lemma example_idle: "\<exists>k. reachable idle_host no_options k \<and> ready_to_call k"
  using example_boot worker_starts by (meson step step_frame)

section \<open>Where threads are\<close>

definition status :: "nachos \<Rightarrow> nat \<Rightarrow> ThreadStatus option" where
  "status k t = map_option th_status (k_threads k t)"

definition waits_in :: "nachos \<Rightarrow> nat \<Rightarrow> nat \<Rightarrow> bool" where
  "waits_in k t s \<longleftrightarrow> (\<exists>x. k_sems k s = Some x \<and> t \<in> set (sem_queue x))"

lemma kview_fields:
  "v_stat (kview_of k) = status k" "v_ready (kview_of k) = k_readyList k" "v_prio (kview_of k) = priority k"
  "v_frames (kview_of k) = frames k" "v_cur (kview_of k) = k_currentThread k" "v_sems (kview_of k) = k_sems k"
  "v_locks (kview_of k) = k_locks k"
  by (simp_all add: view_def status_def fun_eq_iff)



section \<open>Mutual exclusion\<close>

text \<open>
  A thread that waits for a lock has the frames \<open>F_P s\<close> or \<open>F_P_loop s\<close> above \<open>F_SetHolder l\<close>; once it
  has taken the semaphore and before it is recorded as holder, \<open>F_SetHolder l\<close> alone.
\<close>

definition admitted :: "nat \<Rightarrow> nat \<Rightarrow> 'a frame list \<Rightarrow> bool" where
  "admitted l s fs \<longleftrightarrow> (\<exists>fs1 fs2. fs = fs1 @ F_SetHolder l # fs2 \<and> F_P s \<notin> set fs1 \<and> F_P_loop s \<notin> set fs1)"

definition inside :: "nachos \<Rightarrow> nat \<Rightarrow> Lock \<Rightarrow> nat set" where
  "inside k l x = {t. lock_holder x = Some t \<or> admitted l (lock_semaphore x) (frames k t)}"

lemma solvent_suffix: "solvent l s (fs1 @ fs) \<Longrightarrow> solvent l s fs"
  by (induction fs1) auto

lemma tok_above:
  assumes "F_P s \<notin> set fs1" "F_P_loop s \<notin> set fs1"
  shows "tok l s fs \<le> tok l s (fs1 @ fs)"
  using assms
proof (induction fs1)
  case (Cons f fs1)
  then have "0 \<le> weight l s f" by (cases f) auto
  then show ?case using Cons by simp
qed simp

lemma admitted_tok:
  assumes "admitted l s fs" "solvent l s fs"
  shows "1 \<le> tok l s fs"
proof -
  obtain fs1 fs2 where fs: "fs = fs1 @ F_SetHolder l # fs2" "F_P s \<notin> set fs1" "F_P_loop s \<notin> set fs1"
    using assms(1) unfolding admitted_def by blast
  have "solvent l s fs2" using solvent_suffix [of l s "fs1 @ [F_SetHolder l]" fs2] assms(2) fs(1) by simp
  then have "1 \<le> tok l s (F_SetHolder l # fs2)" using solvent_tok [of l s fs2] by simp
  then show ?thesis using tok_above [OF fs(2,3), of l "F_SetHolder l # fs2"] fs(1) by simp
qed

lemma sum_two:
  fixes g :: "nat \<Rightarrow> int"
  assumes "finite A" "\<And>t. t \<in> A \<Longrightarrow> 0 \<le> g t" "t \<in> A" "t' \<in> A" "t \<noteq> t'"
  shows "g t + g t' \<le> sum g A"
proof -
  have "sum g {t, t'} \<le> sum g A" by (rule sum_mono2) (use assms in auto)
  then show ?thesis using assms(5) by simp
qed

lemma one_inside:
  assumes I: "kinv (\<lambda>_. 0) (kview_of k)" and l: "k_locks k l = Some x" and y: "k_sems k (lock_semaphore x) = Some y"
  shows "\<exists>t. inside k l x \<subseteq> {t}" "sem_value y \<in> {0, 1}" "sem_value y = 1 \<Longrightarrow> inside k l x = {}"
proof -
  let ?v = "kview_of k"
  let ?g = "\<lambda>t. tok l (lock_semaphore x) (frames k t)"
  have K: "K_lock (\<lambda>_. 0) ?v" "K_bound ?v" "K_stack ?v" using I by (simp_all add: kinv_def)
  have old: "0 \<le> sem_value y" "\<And>t. solvent l (lock_semaphore x) (frames k t)" "token_sum l x ?v = 1"
    using K(1) [unfolded K_lock_def kview_fields, rule_format, OF l] y by auto
  have fin: "finite (alive ?v)"
    by (rule finite_subset [of _ "{..<v_brk ?v}"]) (use K_boundD(1) [OF K(2)] in \<open>auto simp: alive_def\<close>)
  have nn: "0 \<le> ?g t" for t using solvent_tok [OF old(2)] .
  have adm: "t \<in> alive ?v \<and> 1 \<le> ?g t" if "admitted l (lock_semaphore x) (frames k t)" for t
  proof -
    have "frames k t \<noteq> []" using that by (auto simp: admitted_def)
    then have "status k t \<noteq> None" using K_stackD(2) [OF K(3), of t] unfolding kview_fields by metis
    then have "t \<in> alive ?v" by (simp add: alive_def kview_fields)
    then show ?thesis using admitted_tok [OF that old(2)] by blast
  qed
  have total: "sem_value y + (if lock_holder x = None then 0 else 1) + sum ?g (alive ?v) = 1"
    using old(3) y unfolding token_sum_def kview_fields by simp
  have s0: "0 \<le> sum ?g (alive ?v)" by (rule sum_nonneg) (use nn in blast)
  have s1: "1 \<le> sum ?g (alive ?v)" if "admitted l (lock_semaphore x) (frames k t)" for t
    using adm [OF that] member_le_sum [of t "alive ?v" ?g] nn fin by force
  have s2: "t = t'" if "admitted l (lock_semaphore x) (frames k t)" "admitted l (lock_semaphore x) (frames k t')" for t t'
    using adm [OF that(1)] adm [OF that(2)] sum_two [of "alive ?v" ?g t t'] nn fin total old(1) by (cases "t = t'") (auto split: if_splits)
  show "sem_value y \<in> {0, 1}" using total s0 old(1) by (auto split: if_splits)
  show "inside k l x = {}" if "sem_value y = 1"
  proof -
    have "lock_holder x = None" "sum ?g (alive ?v) = 0" using total s0 that by (simp_all split: if_splits)
    then show ?thesis using s1 unfolding inside_def by fastforce
  qed
  show "\<exists>t. inside k l x \<subseteq> {t}"
  proof (cases "lock_holder x")
    case None
    then have "inside k l x = {t. admitted l (lock_semaphore x) (frames k t)}" by (simp add: inside_def)
    then show ?thesis using s2 by (cases "\<exists>t. admitted l (lock_semaphore x) (frames k t)") blast+
  next
    case (Some h)
    then have "\<not> admitted l (lock_semaphore x) (frames k t)" for t using s1 [of t] total s0 old(1) by auto
    then show ?thesis using Some unfolding inside_def by auto
  qed
qed

text \<open>
  C1. Mutual exclusion. In every state the kernel reaches, at most one thread is inside a lock: it is
  the recorded holder, or has taken the lock's semaphore and is about to be recorded; the semaphore's
  value is 0 or 1, and if it is 1 no thread is inside. Whatever the kernel does next, the lock's
  holder changes only from none to the running thread or from the running thread to none.
\<close>

theorem mutual_exclusion:
  assumes "reachable u opt k" "k_locks k l = Some x"
  shows "(\<exists>t. inside k l x \<subseteq> {t})
    \<and> (\<exists>y. k_sems k (lock_semaphore x) = Some y \<and> sem_value y \<in> {0, 1} \<and> (sem_value y = 1 \<longrightarrow> inside k l x = {}))
    \<and> (\<forall>k'. kstep CallBack (driver_call u opt) k k' \<longrightarrow> (\<exists>x'. k_locks k' l = Some x' \<and> lock_semaphore x' = lock_semaphore x
         \<and> (lock_holder x' = lock_holder x \<or> lock_holder x = None \<and> lock_holder x' = Some (k_currentThread k)
            \<or> lock_holder x = Some (k_currentThread k) \<and> lock_holder x' = None)))"
proof -
  have I: "kinv (\<lambda>_. 0) (kview_of k)" "cur_ok (kview_of k)" using reachable_ok [OF assms(1)] by simp_all
  then have "K_lock (\<lambda>_. 0) (kview_of k)" by (simp add: kinv_def)
  then obtain y where y: "k_sems k (lock_semaphore x) = Some y" using assms(2) unfolding K_lock_def kview_fields by blast
  have "holders_kept (kview_of k) (kview_of k')" if "kstep CallBack (driver_call u opt) k k'" for k'
    using nachos.step_good [OF that I] by (simp add: good_def)
  then show ?thesis
    using one_inside [OF I(1) assms(2) y] y assms(2) unfolding holders_kept_def kview_fields by blast
qed

theorem mutual_exclusion_witness:
  "\<exists>k l x. reachable idle_host no_options k \<and> k_locks k l = Some x \<and> (\<exists>t. inside k l x \<subseteq> {t})"
proof -
  obtain k where k: "reachable idle_host no_options k" "ready_to_call k" using example_idle by blast
  obtain l k' where L: "Lock_new k = (l, k')" by (cases "Lock_new k")
  then have "(l, k') \<in> {Semaphore_new 0 k, Lock_new k, Condition_new k, SynchList_new k}" by simp
  then have "kstep CallBack (driver_call idle_host no_options) k k'"
    using k(2) step_new unfolding ready_to_call_def by blast
  then have r: "reachable idle_host no_options k'" by (rule step [OF k(1)])
  obtain x where "k_locks k' l = Some x" using L by (auto simp: Lock_new_def Let_def split: prod.splits)
  then show ?thesis using mutual_exclusion [OF r] r by blast
qed

section \<open>No lost wakeup\<close>

definition retests :: "nachos \<Rightarrow> nat \<Rightarrow> nat \<Rightarrow> bool" where
  "retests k s t \<longleftrightarrow> status k t \<in> {Some READY, Some RUNNING} \<and> F_P_loop s \<in> set (frames k t)"

lemma retrying_awake:
  assumes I: "kinv (\<lambda>_. 0) (kview_of k)" and x: "k_sems k s = Some x" and t: "t \<in> retrying s x (kview_of k)"
  shows "retests k s t"
proof -
  have S: "K_stack (kview_of k)" and Q: "K_queue (kview_of k)" using I by (simp_all add: kinv_def)
  have f: "F_P_loop s \<in> set (frames k t)" "t \<notin> set (sem_queue x)" using t by (simp_all add: retrying_def kview_fields)
  have ne: "frames k t \<notin> {[], [F_Sleep True], [F_Switched]}" using f(1) by auto
  have "status k t \<noteq> Some BLOCKED"
  proof
    assume b: "status k t = Some BLOCKED"
    then obtain s' y where y: "k_sems k s' = Some y" "t \<in> set (sem_queue y)" "waits_on (frames k t) s'"
      using Q unfolding K_queue_def kview_fields by metis
    have "shape (frames k t)" using K_stackD(1) [OF S, of t] by (simp add: kview_fields)
    moreover obtain r where "frames k t \<in> {F_P_loop s' # r, F_Sleep False # F_P_loop s' # r, F_Switched # F_P_loop s' # r}"
      using y(3) unfolding waits_on_def by blast
    ultimately have "list_all deep r" "F_P_loop s \<in> set (F_P_loop s' # r)" using f(1) by auto
    then have "s = s'" using deep_not(1) [of r s] by auto
    then show False using y(1,2) f(2) x by simp
  qed
  moreover have "status k t \<notin> {None, Some JUST_CREATED, Some ZOMMBIE}"
    using K_stackD(2,3) [OF S, of t] ne unfolding kview_fields by blast
  ultimately show ?thesis using f(1) unfolding retests_def
    by (cases "status k t") (auto, metis ThreadStatus.exhaust)
qed

text \<open>
  C2. No wakeup is lost: in every state the kernel reaches, if threads wait in the queue of a semaphore
  whose value is positive, then threads that are awake are about to test the semaphore again, at
  least as many as its value. A unit that \<open>V\<close> has made available is never left over while threads
  sleep for it.
\<close>

theorem no_lost_wakeup:
  assumes "reachable u opt k" "k_sems k s = Some x" "sem_queue x \<noteq> []"
  shows "sem_value x \<le> int (card {t. retests k s t}) \<and> (0 < sem_value x \<longrightarrow> (\<exists>t. retests k s t))"
proof -
  have I: "kinv (\<lambda>_. 0) (kview_of k)" using reachable_ok [OF assms(1)] by simp
  then have le: "sem_value x \<le> int (card (retrying s x (kview_of k)))"
    using assms(2,3) unfolding kinv_def K_wake_def kview_fields by blast
  have sub: "retrying s x (kview_of k) \<subseteq> {t. retests k s t}" using retrying_awake [OF I assms(2)] by blast
  have "{t. retests k s t} \<subseteq> {..<k_brk k}"
    using I K_boundD(1) [of "kview_of k"] unfolding kinv_def by (auto simp: retests_def kview_fields) (auto simp: view_def status_def)
  then have "finite {t. retests k s t}" using finite_subset by blast
  then have "card (retrying s x (kview_of k)) \<le> card {t. retests k s t}" by (rule card_mono [OF _ sub])
  then have "sem_value x \<le> int (card {t. retests k s t})" using le by linarith
  moreover have "\<exists>t. retests k s t" if "0 < sem_value x"
  proof -
    have "retrying s x (kview_of k) \<noteq> {}" using le that by auto
    then show ?thesis using sub by blast
  qed
  ultimately show ?thesis by blast
qed


lemma example_waiting:
  "\<exists>k s x. reachable idle_host no_options k \<and> k_sems k s = Some x \<and> sem_queue x \<noteq> []"
proof -
  obtain k th where k: "reachable idle_host no_options k" "k_threads k (k_currentThread k) = Some th" "th_frames th = []"
    using example_idle unfolding ready_to_call_def by blast
  obtain s k1 where S: "Semaphore_new 0 k = (s, k1)" by (cases "Semaphore_new 0 k")
  then have "(s, k1) \<in> {Semaphore_new 0 k, Lock_new k, Condition_new k, SynchList_new k}" by simp
  then have r1: "reachable idle_host no_options k1" using step [OF k(1) step_new [OF k(2,3)]] by blast
  have k1: "k_threads k1 = k_threads k" "k_currentThread k1 = k_currentThread k" "k_sems k1 s = Some \<lparr>sem_value = 0, sem_queue = []\<rparr>"
    using S by (auto simp: Semaphore_new_def)
  have f: "frames k (k_currentThread k) = []" using k(2,3) by (simp add: frames_def)
  have I: "kinv (\<lambda>_. 0) (kview_of k)" "cur_ok (kview_of k)" using reachable_ok [OF k(1)] by simp_all
  then have "calm (kview_of k)" using f by (simp add: calm_def cur_ok_def kview_fields)
  then have "usable (kview_of k1) s" using Semaphore_new_grown(2) [OF S] by blast
  then have "\<not> private_sem k1 s" unfolding usable_def private_sem_def lock_sems_def kview_fields by blast
  then have ok: "call_ok k1 (F_P s)" using k1(3) by simp
  note defs = object_def upd_thread_def push_def Let_def set_level_def Interrupt_ChangeLevel_def setStatus_def
  obtain k2 where k2: "exec CallBack (driver_call idle_host no_options) (F_P s) k1 = Inr k2" "k_currentThread k2 = k_currentThread k"
    "k_sems k2 = k_sems k1" "hw_level k2 = IntOff" "\<exists>th r. k_threads k2 (k_currentThread k) = Some th \<and> th_frames th = F_P_loop s # r"
    using k(2) k1 by (auto simp: Semaphore_P_def defs)
  have r2: "reachable idle_host no_options k2"
    by (rule step [OF r1 step_call [OF _ _ ok k2(1)]]) (use k k1 in simp_all)
  obtain k3 where k3: "frame_step k2 k3" "k_sems k3 s = Some \<lparr>sem_value = 0, sem_queue = [k_currentThread k]\<rparr>"
    using k2(2-5) k1(3) by (auto simp: run_frame_def P_round_def Thread_Sleep_def upd_sem_def defs)
  have "reachable idle_host no_options k3" by (rule step [OF r2 step_frame [OF k3(1)]])
  then show ?thesis using k3(2) by fastforce
qed

theorem no_lost_wakeup_witness:
  "\<exists>k s x. reachable idle_host no_options k \<and> k_sems k s = Some x \<and> sem_queue x \<noteq> [] \<and> sem_value x \<le> int (card {t. retests k s t})"
  using example_waiting no_lost_wakeup [of idle_host no_options] by blast

end
