(* ===== verification/Kernel_Clock.thy ===== *)
theory Kernel_Clock
  imports Kernel_Correct
begin

text \<open>
  The pending interrupts of every state the kernel reaches are sorted and distinct, so the lemmas of
  the locale \<open>handlers\<close> apply: \<open>CheckIfDue\<close> ends, and serves what is due, in order. \<open>calendar\<close> is
  the part of the state this depends on; most operations leave it alone.
\<close>

section \<open>Operations that schedule nothing\<close>

definition calendar :: "('cb, 'a, 'z) kernel_scheme \<Rightarrow> 'cb PendingInterrupt list \<times> nat" where
  "calendar k = (hw_pending k, hw_new k)"

lemma calendar_pending: "calendar k' = calendar k \<Longrightarrow> pending_ok k \<Longrightarrow> pending_ok k'"
  by (simp add: calendar_def pending_ok_def)

lemma calendar_simps [simp]:
  "calendar (k\<lparr>hw_level := l\<rparr>) = calendar k" "calendar (k\<lparr>hw_status := st\<rparr>) = calendar k" "calendar (k\<lparr>hw_yieldOnReturn := y\<rparr>) = calendar k"
  "calendar (k\<lparr>hw_stats := ss\<rparr>) = calendar k" "calendar (k\<lparr>hw_machine := m\<rparr>) = calendar k" "calendar (k\<lparr>hw_inHandler := b\<rparr>) = calendar k"
  "calendar (k\<lparr>k_result := r\<rparr>) = calendar k" "calendar (k\<lparr>k_visited := w\<rparr>) = calendar k" "calendar (k\<lparr>k_slists := sl\<rparr>) = calendar k" "calendar (k\<lparr>k_threadCnt := c\<rparr>) = calendar k"
  "calendar (k\<lparr>k_threadList := ls\<rparr>) = calendar k" "calendar (k\<lparr>k_threadMap := tm\<rparr>) = calendar k" "calendar (k\<lparr>k_threads := ts\<rparr>) = calendar k"
  "calendar (k\<lparr>k_currentThread := t\<rparr>) = calendar k" "calendar (k\<lparr>k_readyList := rl\<rparr>) = calendar k"
  "calendar (k\<lparr>k_toBeDestroyed := td\<rparr>) = calendar k" "calendar (k\<lparr>k_sems := s\<rparr>) = calendar k" "calendar (k\<lparr>k_locks := lo\<rparr>) = calendar k"
  "calendar (k\<lparr>k_conds := co\<rparr>) = calendar k" "calendar (k\<lparr>k_brk := n\<rparr>) = calendar k"
  "calendar (set_level l k) = calendar k" "calendar (upd_sem i s' k) = calendar k" "calendar (returning ro k) = calendar k"
  by (simp_all add: calendar_def set_level_def Interrupt_ChangeLevel_def upd_sem_def returning_def)

named_theorems same_calendar \<open>operations that schedule nothing\<close>

lemma upd_thread_cal [same_calendar]: "upd_thread t f k = Inr k' \<Longrightarrow> calendar k' = calendar k"
  by (auto simp: upd_thread_def bindE_eq_Inr)

lemma push_cal [same_calendar]: "push fs k = Inr k' \<Longrightarrow> calendar k' = calendar k"
  by (simp add: push_def upd_thread_cal)

lemma setStatus_cal [same_calendar]: "setStatus t st k = Inr k' \<Longrightarrow> calendar k' = calendar k"
  by (simp add: setStatus_def upd_thread_cal)

lemma upd_lock_cal [same_calendar]: "upd_lock l h k = Inr k' \<Longrightarrow> calendar k' = calendar k"
  by (auto simp: upd_lock_def bindE_eq_Inr)

lemma upd_list_cal [same_calendar]: "upd_list l xs k = Inr k' \<Longrightarrow> calendar k' = calendar k"
  by (auto simp: upd_list_def bindE_eq_Inr)

lemma SaveUserState_cal [same_calendar]: "SaveUserState t k = Inr k' \<Longrightarrow> calendar k' = calendar k"
  by (auto simp: SaveUserState_def bindE_eq_Inr upd_thread_cal)

lemma RestoreUserState_cal [same_calendar]: "RestoreUserState t k = Inr k' \<Longrightarrow> calendar k' = calendar k"
  by (auto simp: RestoreUserState_def bindE_eq_Inr)

lemma ReadyToRun_cal [same_calendar]: "ReadyToRun t k = Inr k' \<Longrightarrow> calendar k' = calendar k"
  by (auto simp: ReadyToRun_def bindE_eq_Inr dest: setStatus_cal)

lemma FindNextToRun_cal [same_calendar]: "FindNextToRun k = Inr (r, k') \<Longrightarrow> calendar k' = calendar k"
  by (auto simp: FindNextToRun_def bindE_eq_Inr split: if_splits)

lemma CheckToBeDestroyed_cal [same_calendar]: "CheckToBeDestroyed k = Inr k' \<Longrightarrow> calendar k' = calendar k"
  by (auto simp: CheckToBeDestroyed_def deleteThread_def Thread_delete_def Let_def bindE_eq_Inr split: option.splits if_splits)

lemma Scheduler_Run_cal [same_calendar]: "Scheduler_Run n b k = Inr k' \<Longrightarrow> calendar k' = calendar k"
  by (auto simp: Scheduler_Run_def Let_def bindE_eq_Inr dest!: same_calendar split: if_splits)

lemma after_switch_cal [same_calendar]: "after_switch k = Inr k' \<Longrightarrow> calendar k' = calendar k"
  by (auto simp: after_switch_def Let_def bindE_eq_Inr dest!: same_calendar split: option.splits)

lemma createThread_cal [same_calendar]: "createThread p uid k = Inr (r, k') \<Longrightarrow> calendar k' = calendar k"
  by (auto simp: createThread_def generateThreadID_def addChild_def Let_def bindE_eq_Inr dest!: same_calendar split: if_splits)

lemma Thread_Fork_cal [same_calendar]: "Thread_Fork t k = Inr k' \<Longrightarrow> calendar k' = calendar k"
  by (auto simp: Thread_Fork_def StackAllocate_def Let_def bindE_eq_Inr dest!: same_calendar)

lemma Thread_Sleep_cal [same_calendar]: "Thread_Sleep b k = Inr k' \<Longrightarrow> calendar k' = calendar k"
  by (auto simp: Thread_Sleep_def bindE_eq_Inr dest!: same_calendar split: if_splits)

lemma Thread_Finish_cal [same_calendar]: "Thread_Finish k = Inr k' \<Longrightarrow> calendar k' = calendar k"
  by (auto simp: Thread_Finish_def childThreadExit_def Let_def bindE_eq_Inr dest!: same_calendar split: option.splits)

lemma Thread_Yield_cal [same_calendar]: "Thread_Yield k = Inr k' \<Longrightarrow> calendar k' = calendar k"
  by (auto simp: Thread_Yield_def Let_def bindE_eq_Inr dest!: same_calendar split: option.splits)

lemma P_round_cal [same_calendar]: "P_round s k = Inr k' \<Longrightarrow> calendar k' = calendar k"
  by (auto simp: P_round_def bindE_eq_Inr dest!: same_calendar split: if_splits)

lemma V_body_cal [same_calendar]: "V_body s k = Inr k' \<Longrightarrow> calendar k' = calendar k"
  by (auto simp: V_body_def bindE_eq_Inr dest!: same_calendar split: if_splits)

lemma leave_machine_cal [same_calendar]: "leave_machine m k = Inr k' \<Longrightarrow> calendar k' = calendar k"
  by (auto simp: leave_machine_def dest!: same_calendar)

lemma new_cal:
  "calendar (snd (Semaphore_new n k)) = calendar k" "calendar (snd (Lock_new k)) = calendar k"
  "calendar (snd (Condition_new k)) = calendar k" "calendar (snd (SynchList_new k)) = calendar k"
  by (simp_all add: Semaphore_new_def Lock_new_def Condition_new_def SynchList_new_def Let_def)

lemma Wait_cal [same_calendar]: "Condition_Wait c l k = Inr k' \<Longrightarrow> calendar k' = calendar k"
  by (auto simp: Condition_Wait_def Semaphore_new_def Let_def bindE_eq_Inr dest!: same_calendar)

lemma Signal_cal [same_calendar]: "Condition_Signal c l k = Inr k' \<Longrightarrow> calendar k' = calendar k"
  by (auto simp: Condition_Signal_def bindE_eq_Inr dest!: same_calendar split: if_splits)

lemma take_cal [same_calendar]: "SynchList_take l k = Inr k' \<Longrightarrow> calendar k' = calendar k"
  by (auto simp: SynchList_take_def bindE_eq_Inr dest!: same_calendar split: if_splits)

lemma exec_cal:
  assumes "exec cb act f k = Inr k'" "\<And>b. f \<noteq> F_Sleep b" "\<And>l. f \<noteq> F_SetLevel l" "f \<noteq> F_OneTick" "\<And>a. f \<noteq> F_Do a"
  shows "calendar k' = calendar k"
  using assms
  by (cases f)
    (auto simp: Thread_Begin_def Semaphore_P_def Semaphore_V_def Lock_Acquire_def Lock_Release_def Semaphore_delete_def
      Condition_Broadcast_def SynchList_Append_def SynchList_RemoveFront_def SynchList_Remove_def SynchList_Apply_def SynchList_visit_def
      Execute_def Machine_Run_def Machine_Run_round_def Let_def bindE_eq_Inr dest!: same_calendar split: if_splits)


section \<open>Handlers and drivers\<close>

lemma upd_devs_cal [simp]: "calendar (upd_devs f k) = calendar k"
  by (simp add: calendar_def)

lemma pending_simps [simp]:
  "pending_ok (upd_devs f k) = pending_ok k" "pending_ok (k\<lparr>hw_stats := ss\<rparr>) = pending_ok k" "pending_ok (k\<lparr>hw_status := st\<rparr>) = pending_ok k"
  "pending_ok (k\<lparr>hw_machine := m\<rparr>) = pending_ok k" "pending_ok (k\<lparr>hw_yieldOnReturn := y\<rparr>) = pending_ok k"
  "pending_ok (Interrupt_ChangeLevel l k) = pending_ok k"
  by (simp_all add: pending_ok_def Interrupt_ChangeLevel_def)

lemma Schedule_pending: "Interrupt_Schedule c d t k = Inr k' \<Longrightarrow> pending_ok k \<Longrightarrow> pending_ok k'"
  by (rule scheduled_pending) (rule Schedule_scheduled)

lemma CheckIfDue_pending:
  assumes "Interrupt_CheckIfDue CallBack adv k = Inr (b, k')" "pending_ok k"
  shows "pending_ok k'"
proof -
  have "hw_level k = IntOff" using assms(1) by (simp add: Interrupt_CheckIfDue_def bindE_eq_Inr assertE_eq_Inr)
  then show ?thesis using device_handlers.CheckIfDue_ok(2) [OF assms(2) _ assms(1)] by (simp add: checked_def)
qed

lemma OneTick_pending: "Interrupt_OneTick CallBack k = Inr k' \<Longrightarrow> pending_ok k \<Longrightarrow> pending_ok k'"
  by (auto simp: Interrupt_OneTick_def Let_def bindE_eq_Inr dest!: CheckIfDue_pending split: if_splits)

lemma SetLevel_pending: "Interrupt_SetLevel CallBack l k = Inr (b, k') \<Longrightarrow> pending_ok k \<Longrightarrow> pending_ok k'"
  by (auto simp: Interrupt_SetLevel_def Let_def bindE_eq_Inr dest!: OneTick_pending split: if_splits)

lemma Idle_pending: "Interrupt_Idle CallBack k = Inr k' \<Longrightarrow> pending_ok k \<Longrightarrow> pending_ok k'"
  by (auto simp: Interrupt_Idle_def Interrupt_Halt_def bindE_eq_Inr dest!: CheckIfDue_pending split: if_splits)

lemma yield_if_asked_cal [same_calendar]: "yield_if_asked st k = Inr k' \<Longrightarrow> calendar k' = calendar k"
  by (auto simp: yield_if_asked_def dest!: same_calendar split: if_splits)

lemma Sleep_round_pending: "Sleep_round CallBack b k = Inr k' \<Longrightarrow> pending_ok k \<Longrightarrow> pending_ok k'"
  by (auto simp: Sleep_round_def bindE_eq_Inr dest!: same_calendar Idle_pending
      dest: calendar_pending split: option.splits)

lemma push_pending: "push fs k = Inr k' \<Longrightarrow> pending_ok k \<Longrightarrow> pending_ok k'"
  using calendar_pending push_cal by blast

lemma GetChar_pending: "ConsoleInput_GetChar k = Inr (c, k') \<Longrightarrow> pending_ok k \<Longrightarrow> pending_ok k'"
  by (auto simp: ConsoleInput_GetChar_def set_incoming_def Let_def bindE_eq_Inr dest!: Schedule_pending split: if_splits)

lemma PutChar_pending: "ConsoleOutput_PutChar c k = Inr k' \<Longrightarrow> pending_ok k \<Longrightarrow> pending_ok k'"
  by (auto simp: ConsoleOutput_PutChar_def set_putBusy_def bindE_eq_Inr dest!: Schedule_pending)

lemma read_pending:
  assumes "DiskDriver_read s k = Inr k'" "pending_ok k"
  shows "pending_ok k'"
proof -
  obtain x where x: "dv_synchDisk (devs k) = Some x" using assms(1) by (auto simp: DiskDriver_read_def res_simps)
  show ?thesis
  proof (cases "cache_find (sd_cache (sy_disk x)) s 0")
    case (Some i)
    then show ?thesis using assms x by (auto simp: DiskDriver_read_def deref_def Let_def set_synchdisk_def)
  next
    case None
    then obtain c ticks ty k1 k2 fs where k2: "Interrupt_Schedule c ticks ty k1 = Inr k2" "push fs k2 = Inr k'" "pending_ok k1"
      using assms x by (auto simp: DiskDriver_read_def deref_def Let_def bindE_eq_Inr set_synchdisk_def)
    show ?thesis by (rule push_pending [OF k2(2) Schedule_pending [OF k2(1,3)]])
  qed
qed

lemma write_pending: "DiskDriver_write s data k = Inr k' \<Longrightarrow> pending_ok k \<Longrightarrow> pending_ok k'"
  by (auto simp: DiskDriver_write_def set_synchdisk_def Let_def bindE_eq_Inr dest!: Schedule_pending)

lemma Receive_pending: "NetworkInput_Receive buffer k = Inr (h, b, k') \<Longrightarrow> pending_ok k \<Longrightarrow> pending_ok k'"
  by (auto simp: NetworkInput_Receive_def Let_def bindE_eq_Inr)

lemma round_pending: "PostalDelivery_round k = Inr k' \<Longrightarrow> pending_ok k \<Longrightarrow> pending_ok k'"
  by (auto simp: PostalDelivery_round_def MailBox_Put_def Let_def bindE_eq_Inr dest!: Receive_pending push_pending)

lemma Get_pending: "PostOfficeInput_Get k = Inr k' \<Longrightarrow> pending_ok k \<Longrightarrow> pending_ok k'"
  by (auto simp: PostOfficeInput_Get_def MailBox_copy_def Let_def bindE_eq_Inr split: if_splits)

lemma Send_pending:
  assumes "NetworkOutput_Send hdr data k = Inr k'" "pending_ok k"
  shows "pending_ok k'"
proof -
  obtain x k1 where x: "dv_networkOut (devs k) = Some x" and k1: "Interrupt_Schedule CB_NetworkOutput NetworkTime NetworkSendInt k = Inr k1"
    and run: "(case RandomNumber k1 of (r, k) \<Rightarrow> if rat_of_nat (r mod 100) \<ge> no_chanceToWork x * 100 then Inr k
     else bindE (Network_wire (h_junk (dv_host (devs k))) hdr data) (\<lambda>buffer.
          Inr (upd_host (\<lambda>h. h\<lparr>h_sent := h_sent h @ [(pkt_to hdr, buffer)]\<rparr>) k))) = Inr k'"
    using assms unfolding NetworkOutput_Send_def Let_def bindE_eq_Inr deref_eq_Inr by blast
  have "pending_ok k1" by (rule Schedule_pending [OF k1 assms(2)])
  then show ?thesis using run by (auto simp: RandomNumber_def Let_def bindE_eq_Inr split: if_splits)
qed

lemma rest_pending:
  assumes "Kernel_Initialize_rest u opt k = Inr k'" "pending_ok k"
  shows "pending_ok k'"
proof -
  have "pending_ok (PostOfficeOutput_new (op_reliability opt) k)"
    by (rule calendar_pending [OF _ assms(2)])
      (simp add: PostOfficeOutput_new_def NetworkOutput_new_def case_prod_unfold Let_def new_cal)
  then show ?thesis using assms(1) by (auto simp: Kernel_Initialize_rest_def Let_def bindE_eq_Inr dest!: push_pending)
qed

lemma driver_pending:
  assumes "driver_call u opt a k = Inr k'" "pending_ok k"
  shows "pending_ok k'"
proof (cases a)
  case Do_ConsoleInput_GetChar
  then show ?thesis using assms GetChar_pending by (auto simp: driver_call_def bindE_eq_Inr)
next
  case (Do_ConsoleOutput_PutChar c)
  then show ?thesis using assms PutChar_pending by (simp add: driver_call_def)
next
  case (Do_read s)
  then show ?thesis using assms read_pending by (simp add: driver_call_def)
next
  case (Do_write s d)
  then show ?thesis using assms write_pending by (simp add: driver_call_def)
next
  case Do_deliver
  then show ?thesis using assms round_pending by (simp add: driver_call_def)
next
  case Do_Get
  then show ?thesis using assms Get_pending by (simp add: driver_call_def)
next
  case (Do_Network_Send h d)
  then show ?thesis using assms Send_pending by (simp add: driver_call_def)
next
  case Do_Initialize_rest
  then show ?thesis using assms rest_pending by (simp add: driver_call_def)
qed (use assms in \<open>auto simp: driver_call_def SynchConsoleInput_GetChar_def SynchConsoleOutput_PutChar_def DiskDriver_ReadSector_def
    DiskDriver_WriteSector_def PostalDelivery_def PostOfficeInput_Receive_def PostOfficeOutput_Send_def Let_def bindE_eq_Inr
    dest!: push_pending\<close>)

section \<open>All reachable states\<close>

lemma exec_pending:
  assumes "exec CallBack (driver_call u opt) f k = Inr k'" "pending_ok k"
  shows "pending_ok k'"
proof (cases "(\<exists>b. f = F_Sleep b) \<or> (\<exists>l. f = F_SetLevel l) \<or> f = F_OneTick \<or> (\<exists>a. f = F_Do a)")
  case True
  then show ?thesis using assms
    by (auto simp: SetLevel_def OneTick_def bindE_eq_Inr Sleep_round_pending driver_pending
        dest!: yield_if_asked_cal SetLevel_pending OneTick_pending dest: calendar_pending split: if_splits)
next
  case False
  then have "calendar k' = calendar k" by (intro exec_cal [OF assms(1)]) auto
  then show ?thesis by (rule calendar_pending [OF _ assms(2)])
qed

lemma step_pending:
  assumes "kstep CallBack (driver_call u opt) k k'" "pending_ok k"
  shows "pending_ok k'"
  using assms(1)
proof cases
  case step_frame
  then obtain th where th: "object (k_threads k) (k_currentThread k) = Inr th" "(case th_frames th of [] \<Rightarrow> Inl Bad_Access
     | f # fs \<Rightarrow> bindE (upd_thread (k_currentThread k) (\<lambda>th. th\<lparr>th_frames := fs\<rparr>) k) (\<lambda>k. exec CallBack (driver_call u opt) f k)) = Inr k'"
    unfolding run_frame_def bindE_eq_Inr by blast
  obtain f fs k1 where "upd_thread (k_currentThread k) (\<lambda>th. th\<lparr>th_frames := fs\<rparr>) k = Inr k1"
    "exec CallBack (driver_call u opt) f k1 = Inr k'"
    using th(2) by (cases "th_frames th") (auto simp: bindE_eq_Inr)
  then show ?thesis using exec_pending calendar_pending upd_thread_cal assms(2) by blast
next
  case (step_call th f)
  then show ?thesis using exec_pending assms(2) by blast
next
  case (step_new th p n)
  then have "calendar k' = calendar k" using new_cal by (metis insertE singletonD snd_conv)
  then show ?thesis by (rule calendar_pending [OF _ assms(2)])
qed


lemma MailBoxes_cal: "calendar (snd (MailBoxes_new n k)) = calendar k"
  by (induction n arbitrary: k) (simp_all add: case_prod_unfold Let_def new_cal)

lemma pending_new [simp]:
  "pending_ok (snd (Semaphore_new n k)) = pending_ok k" "pending_ok (snd (Lock_new k)) = pending_ok k"
  "pending_ok (snd (MailBoxes_new m j)) = pending_ok j"
  using new_cal(1) [where n = n and k = k] new_cal(2) [where k = k] MailBoxes_cal [where n = m and k = j]
  by (simp_all add: calendar_def pending_ok_def)

lemma Timer_pending: "Alarm_new r k = Inr k' \<Longrightarrow> pending_ok k \<Longrightarrow> pending_ok k'"
  using SetInterrupt_scheduled scheduled_pending unfolding Alarm_new_def Timer_new_def by (metis pending_simps(1))

lemma boot_pending:
  assumes "Kernel_Initialize u opt = Inr k"
  shows "pending_ok k"
proof -
  obtain k1 k2 k3 k4 k5 k6 k7 where b: "Kernel_threads (blank_kernel (new_devices u opt)) = Inr k1"
    "Alarm_new (op_randomSlice opt) k1 = Inr k2" "Kernel_machine u opt k2 = Inr k3" "SynchConsoleInput_new k3 = Inr k4"
    "SynchConsoleOutput_new k4 = Inr k5" "DiskDriver_new (su_cache u) (su_disk u) k5 = Inr k6"
    "push [F_Do Do_Initialize_rest] k6 = Inr k7" "PostOfficeInput_new u 10 k7 = Inr k"
    using assms unfolding Kernel_Initialize_def bindE_eq_Inr by blast
  have "pending_ok k1"
    using b(1) by (auto simp: Kernel_threads_def bindE_eq_Inr Scheduler_new_def Interrupt_new_def pending_ok_def)
  then have "pending_ok k2" by (rule Timer_pending [OF b(2)])
  then have "pending_ok k3" using b(3) by (auto simp: Kernel_machine_def Let_def bindE_eq_Inr)
  then have "pending_ok k4" using b(4)
    by (auto simp: SynchConsoleInput_new_def ConsoleInput_new_def case_prod_unfold Let_def bindE_eq_Inr dest!: Schedule_pending)
  then have "pending_ok k5" using b(5)
    by (auto simp: SynchConsoleOutput_new_def ConsoleOutput_new_def case_prod_unfold Let_def)
  then have "pending_ok k6" using b(6)
    by (auto simp: DiskDriver_new_def case_prod_unfold Let_def bindE_eq_Inr)
  then have "pending_ok k7" by (rule push_pending [OF b(7)])
  define k8 where "k8 = (let (s, k) = Semaphore_new 0 k7; (boxes, k) = MailBoxes_new 10 k in
    upd_devs (\<lambda>d. d\<lparr>dv_postOfficeIn := Some \<lparr>pi_boxes = boxes, pi_numBoxes = int 10, pi_messageAvailable = s, pi_buffer = su_buffer u\<rparr>\<rparr>) k)"
  have "pending_ok k8" using \<open>pending_ok k7\<close> by (simp add: k8_def case_prod_unfold Let_def)
  have "bindE (NetworkInput_new (su_header u) (su_inbox u) D_PostOfficeInput k8) (\<lambda>k.
      bindE (createThread (Some (k_currentThread k)) 0 k) (\<lambda>(t, k). bindE (deref t) (\<lambda>t. Thread_Fork t k))) = Inr k"
    using b(8) unfolding PostOfficeInput_new_def k8_def by (simp add: case_prod_unfold Let_def)
  then obtain k9 t k10 where k9: "NetworkInput_new (su_header u) (su_inbox u) D_PostOfficeInput k8 = Inr k9"
    "createThread (Some (k_currentThread k9)) 0 k9 = Inr (Some t, k10)" "Thread_Fork t k10 = Inr k"
    by (auto simp: bindE_eq_Inr deref_eq_Inr)
  have "pending_ok k9" using Schedule_pending [OF k9(1) [unfolded NetworkInput_new_def]] \<open>pending_ok k8\<close> by simp
  moreover have "calendar k = calendar k9" using createThread_cal [OF k9(2)] Thread_Fork_cal [OF k9(3)] by simp
  ultimately show ?thesis using calendar_pending by blast
qed

lemma reachable_pending: "reachable u opt k \<Longrightarrow> pending_ok k"
  by (induction rule: reachable.induct) (auto intro: boot_pending step_pending)





end
