(* ===== verification/Mail_Delivery.thy ===== *)
theory Mail_Delivery
  imports Kernel_Clock
begin

text \<open>
  A message on its way from one machine to another: \<open>PostOfficeOutput::Send\<close> and
  \<open>NetworkOutput::Send\<close> lay it out in a packet, \<open>NetworkInput::CallBack\<close> takes the packet from the
  wire, \<open>PostalDelivery\<close> sorts it into a mailbox and \<open>MailBox::Get\<close> copies it out.
\<close>

section \<open>Sending\<close>

text \<open>The packet header that \<open>PostOfficeOutput::Send\<close> completes.\<close>

definition packet_header :: "PacketHeader \<Rightarrow> MailHeader \<Rightarrow> int \<Rightarrow> PacketHeader" where
  "packet_header p m host = p\<lparr>pkt_from := host, pkt_length := mail_length m + of_nat sizeof_Header\<rparr>"

definition letter_ok :: "MailHeader \<Rightarrow> byte list \<Rightarrow> bool" where
  "letter_ok m data \<longleftrightarrow> unat (mail_length m) \<le> MaxMailSize \<and> unat (mail_length m) \<le> length data
     \<and> int_ok (mail_to m) \<and> int_ok (mail_from m)"

lemma unat_packet_length:
  assumes "unat (mail_length m) \<le> MaxMailSize"
  shows "unat (pkt_length (packet_header p m a)) = unat (mail_length m) + 12"
proof -
  have "unat (mail_length m) + unat (12 :: 32 word) < 2 ^ LENGTH(32)" using assms by (simp add: wire_sizes)
  then show ?thesis by (simp add: packet_header_def wire_sizes unat_plus_simple [THEN iffD1] no_olen_add_nat unat_add_lem [THEN iffD1])
qed

text \<open>What the operations of the drivers put on the wire, for a network that loses nothing.\<close>

definition wire_of :: "(nat \<Rightarrow> byte) \<Rightarrow> int \<Rightarrow> PacketHeader \<Rightarrow> MailHeader \<Rightarrow> byte list \<Rightarrow> byte list res" where
  "wire_of junk a p m data = bindE (Post_buffer junk m data) (Network_wire junk (packet_header p m a))"

lemma wire_layout_of_letter:
  assumes "letter_ok m data"
  shows "\<exists>pad. wire_of junk a p m data = Inr (PacketHeader_bytes (packet_header p m a) @ MailHeader_bytes m
      @ take (unat (mail_length m)) data @ pad) \<and> length pad = MaxMailSize - unat (mail_length m)"
proof -
  let ?n = "unat (mail_length m)"
  have n: "?n \<le> MaxMailSize" "?n \<le> length data" using assms by (simp_all add: letter_ok_def)
  obtain pad1 where b: "Post_buffer junk m data = Inr (MailHeader_bytes m @ take ?n data @ pad1)" "length pad1 = MaxMailSize - ?n"
    using Post_buffer_layout [OF n] by blast
  have u: "unat (pkt_length (packet_header p m a)) = ?n + 12" by (rule unat_packet_length [OF n(1)])
  obtain pad where w: "Network_wire junk (packet_header p m a) (MailHeader_bytes m @ take ?n data @ pad1)
      = Inr (PacketHeader_bytes (packet_header p m a) @ take (?n + 12) (MailHeader_bytes m @ take ?n data @ pad1) @ pad)"
    "length pad = MaxPacketSize - (?n + 12)"
    using Network_wire_layout [of "packet_header p m a" "MailHeader_bytes m @ take ?n data @ pad1" junk] n b(2)
    unfolding u by (auto simp: wire_sizes)
  have "take (?n + 12) (MailHeader_bytes m @ take ?n data @ pad1) = MailHeader_bytes m @ take ?n data"
    using n by (simp add: min_absorb2)
  then show ?thesis using b(1) w(1,2) n by (intro exI [of _ pad]) (simp add: wire_of_def wire_sizes)
qed

section \<open>Receiving\<close>

lemma Schedule_devs: "Interrupt_Schedule c d t k = Inr k' \<Longrightarrow> devs k' = devs (k :: nachos)"
  by (auto simp: Interrupt_Schedule_def Let_def bindE_eq_Inr)

lemma V_body_devs:
  fixes k :: nachos
  shows "V_body s k = Inr k' \<Longrightarrow> devs k' = devs k"
  by (auto simp: V_body_def ReadyToRun_def setStatus_def upd_thread_def upd_sem_def bindE_eq_Inr split: if_splits)

lemma driver_CallBack_devs: "driver_CallBack c k = Inr k' \<Longrightarrow> devs k' = devs k"
  by (cases c) (auto simp: driver_CallBack_def Alarm_CallBack_def bindE_eq_Inr dest: V_body_devs)

text \<open>The packet in the network interface, as \<open>PostalDelivery\<close> finds it.\<close>

definition holds_packet :: "NetworkInput \<Rightarrow> PacketHeader \<Rightarrow> MailHeader \<Rightarrow> byte list \<Rightarrow> bool" where
  "holds_packet x h m data \<longleftrightarrow> ni_inHdr x = h \<and> length (ni_inbox x) = MaxPacketSize
     \<and> take (unat (mail_length m) + 12) (ni_inbox x) = MailHeader_bytes m @ take (unat (mail_length m)) data"

lemma packet_received:
  assumes letter: "letter_ok m data" "int_ok (pkt_to p)" "int_ok a" and wire: "wire_of junk a p m data = Inr wire"
    and x: "dv_networkIn (devs k) = Some x" "pkt_length (ni_inHdr x) = 0" "length (ni_inbox x) = MaxPacketSize"
    and host: "dv_hostName (devs k) = pkt_to p" "h_socket (dv_host (devs k)) (h_listened (dv_host (devs k))) = Some wire"
    and run: "NetworkInput_CallBack k = Inr k1"
  shows "\<exists>x1. dv_networkIn (devs k1) = Some x1 \<and> holds_packet x1 (packet_header p m a) m data"
proof -
  let ?n = "unat (mail_length m)" and ?h = "packet_header p m a"
  have n: "?n \<le> 40" "?n \<le> length data" using letter(1) by (simp_all add: letter_ok_def wire_sizes)
  have u: "unat (pkt_length ?h) = ?n + 12" by (rule unat_packet_length) (use n in \<open>simp add: wire_sizes\<close>)
  obtain pad where w: "wire = PacketHeader_bytes ?h @ MailHeader_bytes m @ take ?n data @ pad" "length pad = 40 - ?n"
    using wire_layout_of_letter [OF letter(1), of junk a p] wire by (auto simp: wire_sizes)
  have hdr: "PacketHeader_of_bytes wire = ?h"
    unfolding w(1) by (rule PacketHeader_roundtrip) (use letter(2,3) in \<open>simp_all add: packet_header_def\<close>)
  have len: "length wire = 64" using w n by simp
  obtain k2 where k2: "Interrupt_Schedule CB_NetworkInput NetworkTime NetworkRecvInt k = Inr k2"
    using run unfolding NetworkInput_CallBack_def bindE_eq_Inr by blast
  have d2: "devs k2 = devs k" by (rule Schedule_devs [OF k2])
  define inbox where "inbox = overwrite 0 (take (?n + 12) (drop 12 wire)) (ni_inbox x)"
  have tk: "take (?n + 12) (drop 12 wire) = MailHeader_bytes m @ take ?n data"
    using w n by (simp add: min_absorb2)
  have copy: "bcopy (drop 12 wire) 0 (ni_inbox x) (?n + 12) = Inr inbox"
    using len n x(3) by (simp add: bcopy_def inbox_def wire_sizes)
  let ?x1 = "x\<lparr>ni_inHdr := ?h, ni_inbox := inbox\<rparr>"
  let ?k3 = "upd_devs (\<lambda>d. d\<lparr>dv_networkIn := Some ?x1\<rparr>) (upd_host (\<lambda>h. h\<lparr>h_listened := h_listened h + 1\<rparr>) k2)"
  have "driver_CallBack (ni_callWhenAvail x) (?k3\<lparr>hw_stats := (hw_stats k2)\<lparr>st_numPacketsRecvd := st_numPacketsRecvd (hw_stats k2) + 1\<rparr>\<rparr>) = Inr k1"
    using run k2 d2 x host hdr len u n copy
    by (simp add: NetworkInput_CallBack_def deref_def Let_def wire_sizes packet_header_def [of p m a])
  from driver_CallBack_devs [OF this] have "dv_networkIn (devs k1) = Some ?x1" by simp
  moreover have "holds_packet ?x1 ?h m data"
    using x(3) n tk unfolding inbox_def by (simp add: holds_packet_def wire_sizes overwrite_start)
  ultimately show ?thesis by blast
qed

section \<open>Delivering\<close>

lemma packet_taken:
  assumes "holds_packet x h m data" "letter_ok m data" "h = packet_header p m a" "dv_networkIn (devs k) = Some x" "length buffer = MaxPacketSize"
  shows "\<exists>buffer' f. NetworkInput_Receive buffer k = Inr (h, buffer', upd_devs f k) \<and> dv_postOfficeIn (f (devs k)) = dv_postOfficeIn (devs k)
    \<and> dv_host (f (devs k)) = dv_host (devs k) \<and> dv_newMail (f (devs k)) = dv_newMail (devs k)
    \<and> (\<exists>pad. buffer' = MailHeader_bytes m @ take (unat (mail_length m)) data @ pad \<and> length pad = 40 - unat (mail_length m))"
proof -
  let ?n = "unat (mail_length m)"
  have n: "?n \<le> 40" using assms(2) by (simp add: letter_ok_def wire_sizes)
  have u: "unat (pkt_length h) = ?n + 12" unfolding assms(3) by (rule unat_packet_length) (use n in \<open>simp add: wire_sizes\<close>)
  then have ne: "pkt_length h \<noteq> 0" by auto
  have in1: "ni_inHdr x = h" "length (ni_inbox x) = 52" "take (?n + 12) (ni_inbox x) = MailHeader_bytes m @ take ?n data"
    using assms(1) by (simp_all add: holds_packet_def wire_sizes)
  have "bcopy (ni_inbox x) 0 buffer (?n + 12) = Inr ((MailHeader_bytes m @ take ?n data) @ drop (?n + 12) buffer)"
  proof -
    have "length (take (?n + 12) (ni_inbox x)) = ?n + 12" using in1(2) n by simp
    then show ?thesis using in1 n assms(5) by (simp add: bcopy_def wire_sizes overwrite_start add.commute)
  qed
  then show ?thesis using assms(4,5) in1(1) u ne n
    by (intro exI [of _ "(MailHeader_bytes m @ take ?n data) @ drop (?n + 12) buffer"]
        exI [of _ "\<lambda>d. d\<lparr>dv_networkIn := Some (x\<lparr>ni_inHdr := h\<lparr>pkt_length := 0\<rparr>\<rparr>)\<rparr>"])
      (simp add: NetworkInput_Receive_def deref_def Let_def wire_sizes add.commute add.left_commute)
qed

lemma mail_made:
  assumes "letter_ok m data" "length pad = 40 - unat (mail_length m)"
  shows "\<exists>d. Mail_new junk h m (take (unat (mail_length m)) data @ pad) = Inr \<lparr>m_pktHdr = h, m_mailHdr = m, m_data = d\<rparr>
    \<and> take (unat (mail_length m)) d = take (unat (mail_length m)) data \<and> unat (mail_length m) \<le> length d"
  using assms by (simp add: Mail_new_def letter_ok_def bcopy_def overwrite_start wire_sizes min_absorb2)

lemma mail_header_read:
  "letter_ok m data \<Longrightarrow> MailHeader_of_bytes (MailHeader_bytes m @ rest) = m"
  by (rule MailHeader_roundtrip) (simp_all add: letter_ok_def)

text \<open>What \<open>Get\<close> copies out of the mail that \<open>PostalDelivery\<close> put behind the address \<open>q\<close>.\<close>

definition copies_out :: "nachos \<Rightarrow> nat \<Rightarrow> PacketHeader \<Rightarrow> MailHeader \<Rightarrow> byte list \<Rightarrow> bool" where
  "copies_out k q h m text \<longleftrightarrow>
     (\<forall>k'. dv_mails (devs k') q = dv_mails (devs k) q \<longrightarrow> k_result k' (k_currentThread k') = Some q \<longrightarrow>
        (\<exists>k''. MailBox_copy k' = Inr (h, m, text, k'') \<and> dv_mails (devs k'') q = None))"

lemma copies_outI:
  assumes "dv_mails (devs k) q = Some \<lparr>m_pktHdr = h, m_mailHdr = m, m_data = d\<rparr>" "unat (mail_length m) \<le> length d"
  shows "copies_out k q h m (take (unat (mail_length m)) d)"
  using assms by (simp add: copies_out_def MailBox_copy_def deref_def object_def Let_def)

lemma round_delivers:
  assumes "holds_packet x h m data" "letter_ok m data" "h = packet_header p m a" "dv_networkIn (devs k) = Some x"
    and y: "dv_postOfficeIn (devs k) = Some y" "length (pi_buffer y) = MaxPacketSize" "int (length (pi_boxes y)) = pi_numBoxes y"
    and th: "k_threads k (k_currentThread k) = Some th"
  shows "if 0 \<le> mail_to m \<and> mail_to m < pi_numBoxes y
    then \<exists>k' q. PostalDelivery_round k = Inr k'
      \<and> k_threads k' (k_currentThread k) = Some (th\<lparr>th_frames := F_SL_Append (pi_boxes y ! nat (mail_to m)) q # th_frames th\<rparr>)
      \<and> copies_out k' q h m (take (unat (mail_length m)) data)
    else PostalDelivery_round k = Inl Assert_Failed"
proof -
  obtain buffer f pad where r: "NetworkInput_Receive (pi_buffer y) k = Inr (h, buffer, upd_devs f k)"
    and b: "buffer = MailHeader_bytes m @ take (unat (mail_length m)) data @ pad" "length pad = 40 - unat (mail_length m)"
    using packet_taken [OF assms(1-4) y(2)] by blast
  have m: "MailHeader_of_bytes buffer = m" unfolding b(1) by (rule mail_header_read [OF assms(2)])
  note round = PostalDelivery_round_def y(1) r m Let_def Vm.deref_def
  show ?thesis
  proof (cases "0 \<le> mail_to m \<and> mail_to m < pi_numBoxes y")
    case True
    define k0 where "k0 = upd_devs (\<lambda>d. d\<lparr>dv_postOfficeIn := Some (y\<lparr>pi_buffer := buffer\<rparr>)\<rparr>) (upd_devs f k)"
    define box where "box = pi_boxes y ! nat (mail_to m)"
    obtain d where d: "Mail_new (h_junk (dv_host (devs k0))) h m (drop 12 buffer) = Inr \<lparr>m_pktHdr = h, m_mailHdr = m, m_data = d\<rparr>"
      "take (unat (mail_length m)) d = take (unat (mail_length m)) data" "unat (mail_length m) \<le> length d"
      using mail_made [OF assms(2) b(2), of "h_junk (dv_host (devs k0))" h] b(1) by auto
    define q where "q = dv_newMail (devs k0)"
    have k0: "k_threads k0 = k_threads k" "k_currentThread k0 = k_currentThread k" by (simp_all add: k0_def)
    have "PostalDelivery_round k = MailBox_Put box h m (drop 12 buffer) k0"
      using True y(3) assms(2) unfolding k0_def box_def by (simp add: round letter_ok_def arr_get_def wire_sizes)
    moreover obtain k' where k': "MailBox_Put box h m (drop 12 buffer) k0 = Inr k'" "k_threads k' (k_currentThread k) = Some (th\<lparr>th_frames := F_SL_Append box q # th_frames th\<rparr>)"
        "dv_mails (devs k') q = Some \<lparr>m_pktHdr = h, m_mailHdr = m, m_data = d\<rparr>"
      using th k0 d(1) by (simp add: MailBox_Put_def q_def push_def upd_thread_def object_def Let_def)
    ultimately have run: "PostalDelivery_round k = Inr k'" by simp
    have "copies_out k' q h m (take (unat (mail_length m)) data)" using copies_outI [OF k'(3)] d(2,3) by simp
    then show ?thesis using True run k'(2) unfolding box_def by auto
  next
    case False
    then show ?thesis by (auto simp: round assertE_def)
  qed
qed


text \<open>A machine with one mailbox that is about to receive two bytes.\<close>

definition example_letter :: MailHeader where
  "example_letter = \<lparr>mail_to = 0, mail_from = 3, mail_length = 2\<rparr>"

definition example_packet :: PacketHeader where
  "example_packet = \<lparr>pkt_to = 1, pkt_from = 0, pkt_length = 0\<rparr>"

definition example_wire :: "byte list" where
  "example_wire = PacketHeader_bytes (packet_header example_packet example_letter 2) @ MailHeader_bytes example_letter @ [104, 105] @ replicate 38 0"

definition example_inbox :: NetworkInput where
  "example_inbox = \<lparr>ni_callWhenAvail = D_PostOfficeInput, ni_inHdr = example_packet, ni_inbox = replicate 52 0\<rparr>"

definition example_office :: PostOfficeInput where
  "example_office = \<lparr>pi_boxes = [7], pi_numBoxes = 1, pi_messageAvailable = 1, pi_buffer = replicate 52 0\<rparr>"

definition example_devices :: devices where
  "example_devices = \<lparr>dv_timer = None, dv_consoleIn = None, dv_synchConsoleIn = None, dv_consoleOut = None, dv_synchConsoleOut = None,
     dv_synchDisk = None, dv_networkIn = Some example_inbox, dv_postOfficeIn = Some example_office, dv_networkOut = None,
     dv_postOfficeOut = None, dv_hostName = 1, dv_mails = (\<lambda>_. None), dv_newMail = 0, dv_char = (\<lambda>_. 0), dv_sector = (\<lambda>_. []),
     dv_received = (\<lambda>_. None), dv_host = (su_host idle_host)\<lparr>h_socket := \<lambda>_. Some example_wire\<rparr>\<rparr>"

definition example_machine :: nachos where
  "example_machine = \<lparr>hw_level = IntOff, hw_pending = [], hw_inHandler = True, hw_yieldOnReturn = False, hw_status = SystemMode,
     hw_stats = Statistics_new, hw_machine = None, hw_new = 0, k_currentThread = 0, k_threads = [0 \<mapsto> Thread_new 0 0 None],
     k_readyList = [], k_toBeDestroyed = None, k_threadCnt = 1, k_threadList = [0], k_threadMap = \<lparr>bm_numBits = 32, bm_numWords = 1, bm_map = [1]\<rparr>,
     k_sems = [1 \<mapsto> \<lparr>sem_value = 0, sem_queue = []\<rparr>], k_locks = Map.empty, k_conds = Map.empty, k_slists = Map.empty,
     k_brk = 8, k_result = (\<lambda>_. None), k_visited = (\<lambda>_. []), \<dots> = example_devices\<rparr>"

lemma example_wire_of: "wire_of (\<lambda>_. 0) 2 example_packet example_letter [104, 105] = Inr example_wire"
proof -
  let ?h = "packet_header example_packet example_letter 2" and ?b = "MailHeader_bytes example_letter @ [104, 105] @ replicate 38 0"
  have n: "unat (mail_length example_letter) = 2" "unat (pkt_length ?h) = 14"
    by (simp_all add: packet_header_def example_packet_def example_letter_def wire_sizes)
  have z: "new_buffer (\<lambda>_. 0 :: byte) c = replicate c 0" for c by (simp add: new_buffer_def map_replicate_const)
  have "Post_buffer (\<lambda>_. 0) example_letter [104, 105] = Inr ?b"
    by (simp add: Post_buffer_def n wire_layout wire_sizes z)
  moreover have "Network_wire (\<lambda>_. 0) ?h ?b = Inr example_wire"
    by (simp add: Network_wire_def n wire_layout wire_sizes z example_wire_def)
  ultimately show ?thesis by (simp add: wire_of_def)
qed

lemma example_received:
  "\<exists>k1. NetworkInput_CallBack example_machine = Inr k1 \<and> k_threads k1 (k_currentThread k1) = Some (Thread_new 0 0 None)
     \<and> dv_postOfficeIn (devs k1) = Some example_office"
proof -
  let ?h = "packet_header example_packet example_letter 2"
  have "PacketHeader_of_bytes example_wire = ?h"
    unfolding example_wire_def by (rule PacketHeader_roundtrip) (simp_all add: packet_header_def example_packet_def int_ok_def)
  moreover have "length example_wire = 64" by (simp add: example_wire_def)
  moreover have "pkt_to ?h = 1" "pkt_length ?h = 14"
    by (simp_all add: packet_header_def example_packet_def example_letter_def wire_sizes)
  ultimately show ?thesis
    by (simp add: NetworkInput_CallBack_def Interrupt_Schedule_def seq_Insert_def example_machine_def example_devices_def example_inbox_def
        example_office_def deref_def Let_def NetworkTime_def wire_sizes idle_host_def bcopy_def driver_CallBack_def V_body_def object_def
        upd_sem_def example_packet_def)
qed


end
