(* ===== verification/Disk_Driver.thy ===== *)
theory Disk_Driver
  imports Kernel_Clock
begin

text \<open>
  filesys/synchdisk.cc is modelled twice: in Synch_Disk a request runs to completion, in Devices it is
  cut at the wait for the disk interrupt. Here the second is shown to be the first, with the state of
  disk and cache after the interrupt; so the file system, which is modelled over sectors, rests
  on the driver that shares the kernel with other threads.
\<close>

text \<open>The interrupt of the disk is pending; whenever it comes, it leaves the disk as \<open>sd\<close> and does the \<open>V\<close>.\<close>

definition completes :: "DiskDriver \<Rightarrow> synchdisk \<Rightarrow> int \<Rightarrow> nachos \<Rightarrow> bool" where
  "completes x sd t k \<longleftrightarrow>
     (\<exists>p \<in> set (hw_pending k). callOnInterrupt p = CB_Disk \<and> t + RotationTime \<le> pi_when p \<and> pi_when p < t + 64 * RotationTime)
     \<and> (\<forall>k'. dv_synchDisk (devs k') = dv_synchDisk (devs k) \<longrightarrow>
          Disk_CallBack_int k' = V_body (sy_semaphore x) (upd_devs (\<lambda>d. d\<lparr>dv_synchDisk := Some (x\<lparr>sy_disk := sd\<rparr>)\<rparr>) k'))"

lemma deref_Some' [simp]: "Vm.deref (Some y) = Inr y"
  by (simp add: Vm.deref_def)

lemma Disk_CallBack_int_at:
  assumes "dv_synchDisk (devs k) = Some (x\<lparr>sy_disk := \<lparr>sd_disk = d, sd_cache = c\<rparr>\<rparr>)"
  shows "Disk_CallBack_int k = V_body (sy_semaphore x)
    (upd_devs (\<lambda>d'. d'\<lparr>dv_synchDisk := Some (x\<lparr>sy_disk := \<lparr>sd_disk = Disk_CallBack d, sd_cache = c\<rparr>\<rparr>)\<rparr>) k)"
  using assms by (simp add: Disk_CallBack_int_def driver_CallBack_def)

lemma requested:
  assumes "pending_ok k" "RotationTime \<le> ticks" "ticks < 64 * RotationTime"
    and d: "dv_synchDisk (devs k) = Some (x\<lparr>sy_disk := \<lparr>sd_disk = d, sd_cache = c\<rparr>\<rparr>)"
  shows "\<exists>k'. Interrupt_Schedule CB_Disk ticks DiskInt k = Inr k' \<and> devs k' = devs k \<and> k_threads k' = k_threads k
    \<and> k_currentThread k' = k_currentThread k \<and> completes x \<lparr>sd_disk = Disk_CallBack d, sd_cache = c\<rparr> (now k) k'"
proof -
  have "0 < ticks" using assms(2) by (simp add: RotationTime_def)
  let ?p = "\<lparr>pi_this = hw_new k, callOnInterrupt = CB_Disk, pi_when = now k + ticks, pi_type = DiskInt\<rparr>"
  let ?k = "k\<lparr>hw_pending := sorted_insert PendingCompare ?p (hw_pending k), hw_new := hw_new k + 1\<rparr>"
  have "Interrupt_Schedule CB_Disk ticks DiskInt k = Inr ?k" by (rule Schedule_ok(1) [OF assms(1) \<open>0 < ticks\<close> refl])
  moreover have "completes x \<lparr>sd_disk = Disk_CallBack d, sd_cache = c\<rparr> (now k) ?k"
    unfolding completes_def using assms(2,3) d by (auto intro!: Disk_CallBack_int_at)
  ultimately show ?thesis by fastforce
qed

lemma write_agrees:
  assumes "pending_ok k" "dv_synchDisk (devs k) = Some x" "disk_inv (sd_disk (sy_disk x))" "0 \<le> now k"
  shows "case SynchDisk_WriteSector (sy_disk x) (now k) s data of Inl e \<Rightarrow> DiskDriver_write s data k = Inl e
    | Inr sd \<Rightarrow> \<exists>k'. DiskDriver_write s data k = Inr k' \<and> completes x sd (now k) k'"
proof (cases "Disk_WriteRequest (sd_disk (sy_disk x)) (now k) s data")
  case (Inl e)
  then show ?thesis using assms(2) by (simp add: SynchDisk_WriteSector_def DiskDriver_write_def Let_def)
next
  case (Inr r)
  obtain ticks d1 where r: "r = (ticks, d1)" by fastforce
  have t: "ticks = Disk_ComputeLatency (sd_disk (sy_disk x)) (now k) s True" "0 \<le> s" "s < NumSectors"
    using Inr r by (auto simp: Disk_WriteRequest_def Let_def bindE_eq_Inr assertE_eq_Inr split: if_splits)
  note b = latency_range [OF assms(3,4) t(2,3), of True]
  define c1 where "c1 = map (\<lambda>e. if ce_sector e = s then e\<lparr>ce_valid := - 1\<rparr> else e) (sd_cache (sy_disk x))"
  define k1 where "k1 = set_synchdisk \<lparr>sd_disk = d1, sd_cache = c1\<rparr>
      (k\<lparr>hw_stats := (hw_stats k)\<lparr>st_numDiskWrites := st_numDiskWrites (hw_stats k) + 1\<rparr>\<rparr>)"
  have "pending_ok k1" "now k1 = now k" "dv_synchDisk (devs k1) = Some (x\<lparr>sy_disk := \<lparr>sd_disk = d1, sd_cache = c1\<rparr>\<rparr>)"
    using assms(1,2) by (simp_all add: k1_def set_synchdisk_def pending_ok_def)
  from requested [OF this(1) _ _ this(3), of ticks] b this(2) t(1)
  obtain k' where "Interrupt_Schedule CB_Disk ticks DiskInt k1 = Inr k'" "completes x \<lparr>sd_disk = Disk_CallBack d1, sd_cache = c1\<rparr> (now k) k'"
    by auto
  then show ?thesis using assms(2) Inr r
    by (simp add: SynchDisk_WriteSector_def DiskDriver_write_def Let_def c1_def k1_def)
qed

lemma read_agrees:
  assumes "pending_ok k" "dv_synchDisk (devs k) = Some x" "disk_inv (sd_disk (sy_disk x))" "0 \<le> now k"
    and th: "k_threads k (k_currentThread k) = Some th"
  shows "case SynchDisk_ReadSector (sy_disk x) (now k) s of Inl e \<Rightarrow> DiskDriver_read s k = Inl e
    | Inr (data, sd) \<Rightarrow> \<exists>k'. DiskDriver_read s k = Inr k' \<and> dv_sector (devs k') (k_currentThread k) = data
        \<and> (if cache_find (sd_cache (sy_disk x)) s 0 = None
           then completes x sd (now k) k' \<and> k_threads k' (k_currentThread k) = Some (th\<lparr>th_frames := F_P (sy_semaphore x) # th_frames th\<rparr>)
           else dv_synchDisk (devs k') = Some (x\<lparr>sy_disk := sd\<rparr>) \<and> hw_pending k' = hw_pending k \<and> k_threads k' = k_threads k)"
proof (cases "cache_find (sd_cache (sy_disk x)) s 0")
  case (Some i)
  then show ?thesis using assms(2) by (simp add: SynchDisk_ReadSector_def DiskDriver_read_def Let_def set_synchdisk_def)
next
  case None
  show ?thesis
  proof (cases "Disk_ReadRequest (sd_disk (sy_disk x)) (now k) s")
    case (Inl e)
    then show ?thesis using None assms(2) by (simp add: SynchDisk_ReadSector_def DiskDriver_read_def Let_def)
  next
    case (Inr r)
    obtain data ticks d1 where r: "r = (data, ticks, d1)" by (cases r) auto
    have t: "ticks = Disk_ComputeLatency (sd_disk (sy_disk x)) (now k) s False" "0 \<le> s" "s < NumSectors"
      using Inr r by (auto simp: Disk_ReadRequest_def Let_def bindE_eq_Inr assertE_eq_Inr split: if_splits)
    note b = latency_range [OF assms(3,4) t(2,3), of False]
    define c1 where "c1 = (sd_cache (sy_disk x))[cache_victim (sd_cache (sy_disk x)) 0 0 :=
        \<lparr>ce_valid = 1, ce_dirty = 0, ce_sector = s, ce_lru = now k, ce_data = data\<rparr>]"
    define k1 where "k1 = upd_devs (\<lambda>d. d\<lparr>dv_sector := (dv_sector d)(k_currentThread k := data)\<rparr>)
        (set_synchdisk \<lparr>sd_disk = d1, sd_cache = c1\<rparr>
           (k\<lparr>hw_stats := (hw_stats k)\<lparr>st_numDiskReads := st_numDiskReads (hw_stats k) + 1\<rparr>\<rparr>))"
    have k1: "pending_ok k1" "now k1 = now k" "dv_synchDisk (devs k1) = Some (x\<lparr>sy_disk := \<lparr>sd_disk = d1, sd_cache = c1\<rparr>\<rparr>)"
      "k_threads k1 = k_threads k" "k_currentThread k1 = k_currentThread k" "dv_sector (devs k1) (k_currentThread k) = data"
      using assms(1,2) by (simp_all add: k1_def set_synchdisk_def pending_ok_def)
    from requested [OF k1(1) _ _ k1(3), of ticks] b k1(2) t(1)
    obtain k2 where k2: "Interrupt_Schedule CB_Disk ticks DiskInt k1 = Inr k2" "completes x \<lparr>sd_disk = Disk_CallBack d1, sd_cache = c1\<rparr> (now k) k2"
      "devs k2 = devs k1" "k_threads k2 = k_threads k1" "k_currentThread k2 = k_currentThread k1" by auto
    let ?k' = "k2\<lparr>k_threads := (k_threads k2)(k_currentThread k \<mapsto> th\<lparr>th_frames := F_P (sy_semaphore x) # th_frames th\<rparr>)\<rparr>"
    have "DiskDriver_read s k = bindE (Interrupt_Schedule CB_Disk ticks DiskInt k1) (push [F_P (sy_semaphore x)])"
      using None assms(2) Inr r by (simp add: DiskDriver_read_def Let_def c1_def k1_def set_synchdisk_def)
    also have "\<dots> = Inr ?k'" using k2 k1 th by (simp add: push_def upd_thread_def object_def)
    finally have "DiskDriver_read s k = Inr ?k'" .
    moreover have "completes x \<lparr>sd_disk = Disk_CallBack d1, sd_cache = c1\<rparr> (now k) ?k'"
      using k2(2) by (simp add: completes_def)
    moreover have "SynchDisk_ReadSector (sy_disk x) (now k) s = Inr (data, \<lparr>sd_disk = Disk_CallBack d1, sd_cache = c1\<rparr>)"
      using None Inr r by (simp add: SynchDisk_ReadSector_def Let_def c1_def)
    ultimately show ?thesis using None k1(6) k2(3) by simp
  qed
qed

text \<open>
  C28. The disk driver does what the synchronous disk of theory Synch_Disk does. With the same requests,
  it fails with the same fault; a sector in the cache is returned at once; otherwise the request is
  pending as one interrupt, at least one and less than 64 rotations away, the reading thread
  waits on the driver's semaphore, and when the interrupt comes it leaves disk and cache exactly
  as the synchronous disk would, and wakes the thread.
\<close>

theorem disk_driver_is_synchdisk:
  assumes "pending_ok k" "dv_synchDisk (devs k) = Some x" "disk_inv (sd_disk (sy_disk x))" "0 \<le> now k"
    and "k_threads k (k_currentThread k) = Some th"
  shows "(case SynchDisk_WriteSector (sy_disk x) (now k) s data of Inl e \<Rightarrow> DiskDriver_write s data k = Inl e
      | Inr sd \<Rightarrow> \<exists>k'. DiskDriver_write s data k = Inr k' \<and> completes x sd (now k) k')
    \<and> (case SynchDisk_ReadSector (sy_disk x) (now k) s of Inl e \<Rightarrow> DiskDriver_read s k = Inl e
      | Inr (data, sd) \<Rightarrow> \<exists>k'. DiskDriver_read s k = Inr k' \<and> dv_sector (devs k') (k_currentThread k) = data
          \<and> (if cache_find (sd_cache (sy_disk x)) s 0 = None
             then completes x sd (now k) k' \<and> k_threads k' (k_currentThread k) = Some (th\<lparr>th_frames := F_P (sy_semaphore x) # th_frames th\<rparr>)
             else dv_synchDisk (devs k') = Some (x\<lparr>sy_disk := sd\<rparr>) \<and> hw_pending k' = hw_pending k \<and> k_threads k' = k_threads k))"
  using write_agrees [OF assms(1-4)] read_agrees [OF assms] by blast

definition example_driver :: "synchdisk \<Rightarrow> nachos" where
  "example_driver sd = upd_devs (\<lambda>d. d\<lparr>dv_synchDisk := Some \<lparr>sy_semaphore = 1, sy_lock = 2, sy_disk = sd\<rparr>\<rparr>)
     ((blank_kernel (new_devices idle_host no_options))\<lparr>k_threads := [0 \<mapsto> Thread_new 0 0 None]\<rparr>)"

theorem disk_driver_is_synchdisk_witness:
  "\<exists>sd sd' k'. SynchDisk_new (su_cache idle_host) None = Inr sd \<and> SynchDisk_WriteSector sd 0 5 (replicate 128 7) = Inr sd'
     \<and> DiskDriver_write 5 (replicate 128 7) (example_driver sd) = Inr k'
     \<and> completes \<lparr>sy_semaphore = 1, sy_lock = 2, sy_disk = sd\<rparr> sd' 0 k'"
proof -
  obtain d where d: "Disk_new None 0 0 = Inr d" "disk_inv d" "\<not> d_active d" using Disk_new_inv [of 0 0] by blast
  define sd where "sd = \<lparr>sd_disk = d, sd_cache = map (\<lambda>i. (su_cache idle_host i)\<lparr>ce_valid := - 1\<rparr>) [0..<DiskCacheSize]\<rparr>"
  have new: "SynchDisk_new (su_cache idle_host) None = Inr sd" using d(1) by (simp add: SynchDisk_new_def sd_def)
  have "length (d_file d) = 131076" using d(2) by (simp add: disk_inv_def disk_consts)
  then obtain sd' where sd': "SynchDisk_WriteSector sd 0 5 (replicate 128 7) = Inr sd'"
    using d(3) by (auto simp: SynchDisk_WriteSector_def Disk_WriteRequest_def sd_def disk_consts Let_def)
  have "pending_ok (example_driver sd)" "disk_inv (sd_disk sd)" "now (example_driver sd) = 0"
    "dv_synchDisk (devs (example_driver sd)) = Some \<lparr>sy_semaphore = 1, sy_lock = 2, sy_disk = sd\<rparr>"
    "k_threads (example_driver sd) (k_currentThread (example_driver sd)) = Some (Thread_new 0 0 None)"
    using d(2) by (simp_all add: example_driver_def blank_kernel_def pending_ok_def Statistics_new_def sd_def)
  then have "\<exists>k'. DiskDriver_write 5 (replicate 128 7) (example_driver sd) = Inr k'
      \<and> completes \<lparr>sy_semaphore = 1, sy_lock = 2, sy_disk = sd\<rparr> sd' 0 k'"
    using disk_driver_is_synchdisk [of "example_driver sd" "\<lparr>sy_semaphore = 1, sy_lock = 2, sy_disk = sd\<rparr>" "Thread_new 0 0 None" 5 "replicate 128 7"]
      sd' by simp
  then show ?thesis using new sd' by blast
qed

end
