(* ===== verification/List_Guard.thy ===== *)
theory List_Guard
  imports Kernel_Clock
begin

text \<open>
  A synchronised list is only touched by the thread that holds its lock. The frames of a stack that
  read or change a list stand behind the \<open>Acquire\<close>, the \<open>SetHolder\<close> or the \<open>Wait\<close> of the list's lock, or the
  thread holds the lock already; \<open>guarded\<close> states this of a stack, and every step of the kernel keeps it.
\<close>

section \<open>Guarded stacks\<close>

fun touches :: "nat \<Rightarrow> 'a frame \<Rightarrow> bool" where
  "touches l (F_SL_PutItem l' x) = (l' = l)"
| "touches l (F_SL_TakeItem l') = (l' = l)"
| "touches l (F_SL_DropItem l' x) = (l' = l)"
| "touches l (F_SL_Visit l') = (l' = l)"
| "touches l _ = False"

text \<open>Whether a thread surely holds the lock \<open>L\<close> after a frame has been executed, if it holds it before iff \<open>h\<close>.\<close>

fun after :: "nat \<Rightarrow> 'a frame \<Rightarrow> bool \<Rightarrow> bool" where
  "after L (F_Acquire l) h = (h \<or> l = L)"
| "after L (F_SetHolder l) h = (h \<or> l = L)"
| "after L (F_Wait c l) h = (h \<or> l = L)"
| "after L (F_Release l) h = (h \<and> l \<noteq> L)"
| "after L (F_SL_Append l x) h = False"
| "after L (F_SL_RemoveFront l) h = False"
| "after L (F_SL_TakeItem l) h = False"
| "after L (F_SL_Remove l x) h = False"
| "after L (F_SL_Apply l) h = False"
| "after L (F_Do a) h = False"
| "after L _ h = h"

primrec through :: "nat \<Rightarrow> 'a frame list \<Rightarrow> bool \<Rightarrow> bool" where
  "through L [] h = h"
| "through L (f # fs) h = through L fs (after L f h)"

primrec guarded :: "nat \<Rightarrow> nat \<Rightarrow> bool \<Rightarrow> 'a frame list \<Rightarrow> bool" where
  "guarded l L h [] = True"
| "guarded l L h (f # fs) = ((touches l f \<longrightarrow> h) \<and> guarded l L (after L f h) fs)"

lemma after_mono: "after L f h \<Longrightarrow> (h \<Longrightarrow> h') \<Longrightarrow> after L f h'"
  by (cases "(L, f, h)" rule: after.cases) auto

lemma guarded_mono: "guarded l L h fs \<Longrightarrow> (h \<longrightarrow> h') \<Longrightarrow> guarded l L h' fs"
proof (induction fs arbitrary: h h')
  case (Cons f fs)
  have "after L f h \<longrightarrow> after L f h'" using after_mono [of L f h h'] Cons.prems(2) by blast
  then show ?case using Cons.IH [of "after L f h" "after L f h'"] Cons.prems by auto
qed simp

lemma guarded_append [simp]: "guarded l L h (fs @ gs) \<longleftrightarrow> guarded l L h fs \<and> guarded l L (through L fs h) gs"
  by (induction fs arbitrary: h) auto

abbreviation untouched :: "nat \<Rightarrow> 'a frame list \<Rightarrow> bool" where
  "untouched l fs \<equiv> list_all (\<lambda>f. \<not> touches l f) fs"

lemma untouched_guarded: "untouched l fs \<Longrightarrow> guarded l L h fs"
  by (induction fs arbitrary: h) auto

text \<open>Frames that neither touch a list nor bear on the holding of a lock.\<close>

fun neutral :: "'a frame \<Rightarrow> bool" where
  "neutral (F_Acquire l) = False"
| "neutral (F_SetHolder l) = False"
| "neutral (F_Wait c l) = False"
| "neutral (F_Release l) = False"
| "neutral (F_SL_Append l x) = False"
| "neutral (F_SL_PutItem l x) = False"
| "neutral (F_SL_RemoveFront l) = False"
| "neutral (F_SL_TakeItem l) = False"
| "neutral (F_SL_Remove l x) = False"
| "neutral (F_SL_DropItem l x) = False"
| "neutral (F_SL_Apply l) = False"
| "neutral (F_SL_Visit l) = False"
| "neutral (F_Do a) = False"
| "neutral _ = True"

lemma neutral_after: "neutral f \<Longrightarrow> after L f h = h"
  by (cases f) auto

lemma neutral_untouched: "neutral f \<Longrightarrow> \<not> touches l f"
  by (cases f) auto

lemma neutral_list: "list_all neutral fs \<Longrightarrow> through L fs h = h \<and> untouched l fs"
  by (induction fs) (auto simp: neutral_after neutral_untouched)

section \<open>The invariant\<close>

definition holds :: "'a kview \<Rightarrow> nat \<Rightarrow> nat \<Rightarrow> bool" where
  "holds v L t \<longleftrightarrow> (\<exists>x. v_locks v L = Some x \<and> lock_holder x = Some t)"

definition stack_guarded :: "'a kview \<Rightarrow> nat \<Rightarrow> nat \<Rightarrow> 'a frame list \<Rightarrow> bool" where
  "stack_guarded v l t fs \<longleftrightarrow> (case v_slists v l of None \<Rightarrow> untouched l fs | Some y \<Rightarrow> guarded l (sl_lock y) (holds v (sl_lock y) t) fs)"

text \<open>\<open>gs\<close> are frames of the running thread that are being executed.\<close>

definition K_list :: "'a frame list \<Rightarrow> 'a kview \<Rightarrow> bool" where
  "K_list gs v \<longleftrightarrow> (\<forall>l. v_slists v l \<noteq> None \<longrightarrow> l < v_brk v)
     \<and> (\<forall>l t. stack_guarded v l t ((if t = v_cur v then gs else []) @ v_frames v t))"

text \<open>
  \<open>kept v w\<close>: lists and holders of locks are the same, and only neutral frames have been pushed; stacks
  of new or finished threads start anew.
\<close>

definition kept :: "'a kview \<Rightarrow> 'a kview \<Rightarrow> bool" where
  "kept v w \<longleftrightarrow> v_slists w = v_slists v \<and> holds w = holds v \<and> v_brk v \<le> v_brk w
     \<and> (\<forall>t. \<exists>new base. v_frames w t = new @ base \<and> list_all neutral new \<and> base \<in> {v_frames v t, [], [F_Begin]})"

lemma kept_refl: "kept v v"
  unfolding kept_def by (auto intro: exI [of _ "[]"])

lemma kept_trans:
  assumes "kept u v" "kept v w"
  shows "kept u w"
proof -
  have "\<exists>new base. v_frames w t = new @ base \<and> list_all neutral new \<and> base \<in> {v_frames u t, [], [F_Begin]}" for t
  proof -
    obtain n1 b1 where 1: "v_frames v t = n1 @ b1" "list_all neutral n1" "b1 \<in> {v_frames u t, [], [F_Begin]}"
      using assms(1) unfolding kept_def by blast
    obtain n2 b2 where 2: "v_frames w t = n2 @ b2" "list_all neutral n2" "b2 \<in> {v_frames v t, [], [F_Begin]}"
      using assms(2) unfolding kept_def by blast
    show ?thesis
    proof (cases "b2 = v_frames v t")
      case True
      then have "v_frames w t = (n2 @ n1) @ b1" "list_all neutral (n2 @ n1)" using 1 2 by simp_all
      then show ?thesis using 1(3) by blast
    next
      case False
      then show ?thesis using 2 by blast
    qed
  qed
  then show ?thesis using assms unfolding kept_def by simp
qed

lemma stack_guarded_cong: "v_slists w = v_slists v \<Longrightarrow> holds w = holds v \<Longrightarrow> stack_guarded w = stack_guarded v"
  by (simp add: stack_guarded_def fun_eq_iff split: option.splits)

lemma fresh_stack: "stack_guarded v l t []" "stack_guarded v l t [F_Begin]"
  by (simp_all add: stack_guarded_def split: option.splits)

lemma neutral_Cons: "neutral f \<Longrightarrow> stack_guarded v l t (f # fs) \<Longrightarrow> stack_guarded v l t fs"
  by (simp add: stack_guarded_def neutral_after split: option.splits)

lemma K_list_stack: "K_list gs v \<Longrightarrow> stack_guarded v l t ((if t = v_cur v then gs else []) @ v_frames v t)"
  unfolding K_list_def by blast

lemma neutral_K: "K_list [f] v \<Longrightarrow> neutral f \<Longrightarrow> K_list [] v"
proof -
  assume a: "K_list [f] v" "neutral f"
  have "stack_guarded v l t (v_frames v t)" for l t
    using K_list_stack [OF a(1), of l t] neutral_Cons [OF a(2), of v l t] by (simp split: if_splits)
  then show "K_list [] v" using a(1) by (simp add: K_list_def)
qed

lemma kept_K:
  assumes "kept v w" "K_list [] v"
  shows "K_list [] w"
  unfolding K_list_def
proof (intro conjI allI impI)
  show "l < v_brk w" if "v_slists w l \<noteq> None" for l
    using assms(1,2) that unfolding K_list_def kept_def by (metis order.strict_trans2)
  show "stack_guarded w l t ((if t = v_cur w then [] else []) @ v_frames w t)" for l t
  proof -
    have "stack_guarded v l t (v_frames v t)" using K_list_stack [OF assms(2), of l t] by simp
    moreover obtain new base where n: "v_frames w t = new @ base" "list_all neutral new" "base \<in> {v_frames v t, [], [F_Begin]}"
      using assms(1) unfolding kept_def by blast
    ultimately have "stack_guarded v l t base" using fresh_stack by auto
    then have "stack_guarded v l t (new @ base)"
      using neutral_list [OF n(2)] by (auto simp: stack_guarded_def untouched_guarded split: option.splits)
    then show ?thesis using n(1) assms(1) stack_guarded_cong [of w v] by (simp add: kept_def)
  qed
qed

section \<open>Operations that touch no list and no holder\<close>

lemma keptI:
  assumes "v_slists w = v_slists v" "v_locks w = v_locks v" "v_brk v \<le> v_brk w"
    and "\<And>t. \<exists>new base. v_frames w t = new @ base \<and> list_all neutral new \<and> base \<in> {v_frames v t, [], [F_Begin]}"
  shows "kept v w"
  using assms by (simp add: kept_def holds_def fun_eq_iff)

lemma kept_fields [simp]:
  "kept v (w\<lparr>v_sems := s\<rparr>) = kept v w" "kept v (w\<lparr>v_conds := c\<rparr>) = kept v w" "kept v (w\<lparr>v_prio := p\<rparr>) = kept v w"
  by (simp_all add: kept_def holds_def fun_eq_iff)

lemma kept_same: "v_slists w = v_slists v \<Longrightarrow> v_locks w = v_locks v \<Longrightarrow> v_brk v \<le> v_brk w \<Longrightarrow> v_frames w = v_frames v \<Longrightarrow> kept v w"
  by (rule keptI) (auto intro: exI [of _ "[]"])

lemma kept_push:
  assumes "push fs k = Inr k'" "list_all neutral fs"
  shows "kept (view dev k) (view dev k')"
proof -
  note p = push_view [OF assms(1), of dev]
  have "\<exists>new base. v_frames (view dev k') t = new @ base \<and> list_all neutral new \<and> base \<in> {v_frames (view dev k) t, [], [F_Begin]}" for t
    by (cases "t = v_cur (view dev k)") (use p assms(2) in \<open>auto intro: exI [of _ fs] exI [of _ "[]"]\<close>)
  then show ?thesis by (intro keptI) (use p in simp_all)
qed

named_theorems quiets \<open>operations that touch no list and no holder\<close>

lemma quiet_push [quiets]: "push fs k = Inr k' \<Longrightarrow> list_all neutral fs \<Longrightarrow> kept v (view dev k) \<Longrightarrow> kept v (view dev k')"
  by (erule kept_trans) (auto intro: kept_push)

lemma quiet_setStatus [quiets]: "setStatus t st k = Inr k' \<Longrightarrow> kept v (view dev k) \<Longrightarrow> kept v (view dev k')"
  by (erule kept_trans) (auto dest!: setStatus_view [of _ _ _ _ dev] intro: kept_same)

lemma quiet_ReadyToRun [quiets]: "ReadyToRun t k = Inr k' \<Longrightarrow> kept v (view dev k) \<Longrightarrow> kept v (view dev k')"
  by (erule kept_trans) (auto dest!: ReadyToRun_view [of _ _ _ dev] simp: ready_view_def intro: kept_same)

lemma quiet_FindNextToRun [quiets]:
  assumes "FindNextToRun k = Inr (r, k')" "kept v (view dev k)"
  shows "kept v (view dev k')"
proof (rule kept_trans [OF assms(2)])
  show "kept (view dev k) (view dev k')"
    by (rule kept_same) (use FindNextToRun_view [OF assms(1), of dev] in \<open>auto split: option.splits\<close>)
qed

lemma quiet_reset:
  assumes "v_slists w = v_slists v" "v_locks w = v_locks v" "v_brk v \<le> v_brk w" "v_frames w = (v_frames v)(t := fs)" "fs \<in> {[], [F_Begin]}"
  shows "kept v w"
proof -
  have "\<exists>new base. v_frames w t' = new @ base \<and> list_all neutral new \<and> base \<in> {v_frames v t', [], [F_Begin]}" for t'
    by (cases "t' = t") (use assms(4,5) in \<open>auto intro: exI [of _ "[]"]\<close>)
  then show ?thesis by (intro keptI) (use assms in simp_all)
qed

lemma quiet_doom: "kept v (doom_view v)"
  by (cases "v_doomed v") (auto simp: doom_view_def intro: kept_refl quiet_reset)

lemma quiet_CheckToBeDestroyed [quiets]: "CheckToBeDestroyed k = Inr k' \<Longrightarrow> kept v (view dev k) \<Longrightarrow> kept v (view dev k')"
  by (erule kept_trans) (auto dest!: CheckToBeDestroyed_view [of _ _ dev] intro: quiet_doom)

lemma quiet_after_switch [quiets]: "after_switch k = Inr k' \<Longrightarrow> kept v (view dev k) \<Longrightarrow> kept v (view dev k')"
  by (erule kept_trans) (auto dest!: after_switch_view [of _ _ dev] intro: quiet_doom)

lemma quiet_Run [quiets]:
  assumes "Scheduler_Run n b k = Inr k'" "kept v (view dev k)"
  shows "kept v (view dev k')"
proof (rule kept_trans [OF assms(2)])
  let ?v = "view dev k"
  have "\<exists>new base. v_frames (run_view n b ?v) t = new @ base \<and> list_all neutral new \<and> base \<in> {v_frames ?v t, [], [F_Begin]}" for t
    by (cases "t = v_cur ?v") (auto simp: run_view_def intro: exI [of _ "[F_Switched]"] exI [of _ "[]"])
  then show "kept ?v (view dev k')"
    unfolding Scheduler_Run_view(1) [OF assms(1)] by (intro keptI) (simp_all add: run_view_def)
qed

lemma quiet_createThread [quiets]: "createThread p uid k = Inr (r, k') \<Longrightarrow> kept v (view dev k) \<Longrightarrow> kept v (view dev k')"
  by (erule kept_trans)
    (cases r; auto dest!: createThread_view [of _ _ _ _ _ dev] simp: create_view_def intro: kept_refl quiet_reset)

lemma quiet_StackAllocate [quiets]: "StackAllocate t k = Inr k' \<Longrightarrow> kept v (view dev k) \<Longrightarrow> kept v (view dev k')"
  by (erule kept_trans) (auto dest!: StackAllocate_view [of _ _ _ dev] intro: quiet_reset)

lemma quiet_childThreadExit [quiets]: "childThreadExit t c k = Inr k' \<Longrightarrow> kept v (view dev k) \<Longrightarrow> kept v (view dev k')"
  by (simp add: childThreadExit_view)

lemma quiet_leave_machine [quiets]: "leave_machine m k = Inr k' \<Longrightarrow> kept v (view dev k) \<Longrightarrow> kept v (view dev k')"
  by (simp add: leave_machine_view)

lemma quiet_Semaphore_delete [quiets]: "Semaphore_delete s k = Inr k' \<Longrightarrow> kept v (view dev k) \<Longrightarrow> kept v (view dev k')"
  by (erule kept_trans) (auto dest!: Semaphore_delete_view [of _ _ _ dev] intro: kept_same)

lemma V_quiet: "kept v (V_view s x v)"
  by (cases "sem_queue x") (auto simp: V_view_def ready_view_def intro: kept_same)

lemma quiet_V_body [quiets]: "V_body s k = Inr k' \<Longrightarrow> kept v (view dev k) \<Longrightarrow> kept v (view dev k')"
  by (erule kept_trans) (auto dest!: V_body_view [of _ _ _ dev] intro: V_quiet)

lemma quiet_wakes: "wakes v w \<Longrightarrow> kept v w"
  by (induction rule: wakes.induct) (auto intro: kept_refl kept_trans V_quiet)


lemma quiet_yield [quiets]: "yield_if_asked st k = Inr k' \<Longrightarrow> kept v (view dev k) \<Longrightarrow> kept v (view dev k')"
  by (auto simp: yield_if_asked_def intro: quiet_push split: if_splits)

lemma quiet_Sleep [quiets]: "Thread_Sleep b k = Inr k' \<Longrightarrow> kept v (view dev k) \<Longrightarrow> kept v (view dev k')"
  by (auto simp: Thread_Sleep_def bindE_eq_Inr split: if_splits elim!: quiet_push quiet_setStatus)

lemma quiet_Begin [quiets]: "Thread_Begin k = Inr k' \<Longrightarrow> kept v (view dev k) \<Longrightarrow> kept v (view dev k')"
  by (auto simp: Thread_Begin_def bindE_eq_Inr elim!: quiet_push quiet_CheckToBeDestroyed)

lemma quiet_Finish [quiets]: "Thread_Finish k = Inr k' \<Longrightarrow> kept v (view dev k) \<Longrightarrow> kept v (view dev k')"
  by (auto simp: Thread_Finish_def Let_def bindE_eq_Inr split: option.splits elim!: quiet_Sleep quiet_setStatus quiet_childThreadExit)

lemma quiet_Yield [quiets]: "Thread_Yield k = Inr k' \<Longrightarrow> kept v (view dev k) \<Longrightarrow> kept v (view dev k')"
  by (auto simp: Thread_Yield_def Let_def bindE_eq_Inr split: option.splits
      elim!: quiet_push quiet_FindNextToRun quiet_ReadyToRun quiet_Run)

lemma quiet_Fork [quiets]: "Thread_Fork t k = Inr k' \<Longrightarrow> kept v (view dev k) \<Longrightarrow> kept v (view dev k')"
  by (auto simp: Thread_Fork_def Let_def bindE_eq_Inr elim!: quiet_push quiet_ReadyToRun quiet_StackAllocate)

lemma quiet_P_round [quiets]: "P_round s k = Inr k' \<Longrightarrow> kept v (view dev k) \<Longrightarrow> kept v (view dev k')"
  by (auto simp: P_round_def bindE_eq_Inr upd_sem_view split: if_splits elim!: quiet_push quiet_Sleep)


lemma quiet_upd_thread:
  assumes "upd_thread t f k = Inr k'" "\<And>th. th_frames (f th) = th_frames th" "kept v (view dev k)"
  shows "kept v (view dev k')"
proof (rule kept_trans [OF assms(3)])
  show "kept (view dev k) (view dev k')"
    by (rule kept_same) (use upd_thread_view [OF assms(1), of dev] assms(2) in \<open>auto simp: view_def frames_def fun_eq_iff\<close>)
qed

lemma quiet_calls [quiets]:
  "upd_thread t (th_priority_update g) k = Inr k' \<Longrightarrow> kept v (view dev k) \<Longrightarrow> kept v (view dev k')"
  "Semaphore_P s k = Inr k' \<Longrightarrow> kept v (view dev k) \<Longrightarrow> kept v (view dev k')"
  "Semaphore_V s k = Inr k' \<Longrightarrow> kept v (view dev k) \<Longrightarrow> kept v (view dev k')"
  "Condition_Signal c l k = Inr k' \<Longrightarrow> kept v (view dev k) \<Longrightarrow> kept v (view dev k')"
  "Condition_Broadcast c l k = Inr k' \<Longrightarrow> kept v (view dev k) \<Longrightarrow> kept v (view dev k')"
  "Execute sp k = Inr k' \<Longrightarrow> kept v (view dev k) \<Longrightarrow> kept v (view dev k')"
  "Machine_Run k = Inr k' \<Longrightarrow> kept v (view dev k) \<Longrightarrow> kept v (view dev k')"
  "Machine_Run_round k = Inr k' \<Longrightarrow> kept v (view dev k) \<Longrightarrow> kept v (view dev k')"
  by (auto simp: Semaphore_P_def Semaphore_V_def Condition_Signal_def Condition_Broadcast_def Execute_def Machine_Run_def
      Machine_Run_round_def bindE_eq_Inr conds_view Let_def split: if_splits
      elim!: quiet_upd_thread quiet_push quiet_V_body quiet_leave_machine)

section \<open>Frames that push others, or change a holder or a list\<close>

lemma K_effect:
  assumes K: "K_list [f] v" and w: "v_frames w = (v_frames v)(v_cur v := gs @ v_frames v (v_cur v))" "v_brk v \<le> v_brk w"
    "\<And>l. map_option sl_lock (v_slists w l) = map_option sl_lock (v_slists v l)" "\<And>L t. t \<noteq> v_cur v \<Longrightarrow> holds w L t = holds v L t"
    and new: "\<And>l. v_slists v l = None \<Longrightarrow> untouched l gs"
    and old: "\<And>l y. v_slists v l = Some y \<Longrightarrow> (touches l f \<Longrightarrow> holds v (sl_lock y) (v_cur v)) \<Longrightarrow>
      guarded l (sl_lock y) (holds w (sl_lock y) (v_cur v)) gs
      \<and> (after (sl_lock y) f (holds v (sl_lock y) (v_cur v)) \<longrightarrow> through (sl_lock y) gs (holds w (sl_lock y) (v_cur v)))"
  shows "K_list [] w"
  unfolding K_list_def
proof (intro conjI allI impI)
  fix l
  have "v_slists w l \<noteq> None \<longleftrightarrow> v_slists v l \<noteq> None" using w(3) [of l] by (cases "v_slists w l"; cases "v_slists v l") simp_all
  then show "l < v_brk w" if "v_slists w l \<noteq> None" using K w(2) that unfolding K_list_def by (metis order.strict_trans2)
next
  fix l t
  have G: "stack_guarded v l t ((if t = v_cur v then [f] else []) @ v_frames v t)" by (rule K_list_stack [OF K])
  show "stack_guarded w l t ((if t = v_cur w then [] else []) @ v_frames w t)"
  proof (cases "v_slists v l")
    case None
    then have "v_slists w l = None" using w(3) [of l] by (cases "v_slists w l") simp_all
    then show ?thesis using G None new [OF None] w(1) by (simp add: stack_guarded_def split: if_splits)
  next
    case (Some y)
    then obtain y' where y': "v_slists w l = Some y'" "sl_lock y' = sl_lock y" using w(3) [of l] by (cases "v_slists w l") simp_all
    show ?thesis
    proof (cases "t = v_cur v")
      case False
      then show ?thesis using G Some y' w(1,4) by (simp add: stack_guarded_def)
    next
      case True
      then have g: "touches l f \<Longrightarrow> holds v (sl_lock y) (v_cur v)"
        "guarded l (sl_lock y) (after (sl_lock y) f (holds v (sl_lock y) (v_cur v))) (v_frames v (v_cur v))"
        using G Some by (simp_all add: stack_guarded_def)
      note o = old [OF Some g(1)]
      have "guarded l (sl_lock y) (through (sl_lock y) gs (holds w (sl_lock y) (v_cur v))) (v_frames v (v_cur v))"
        by (rule guarded_mono [OF g(2)]) (use o in blast)
      then show ?thesis using o True y' w(1) by (simp add: stack_guarded_def)
    qed
  qed
qed

lemma K_pushes:
  assumes "K_list [f] (view dev k)" "push gs k1 = Inr k'" "v_frames (view dev k1) = v_frames (view dev k)"
    "v_cur (view dev k1) = v_cur (view dev k)" "v_brk (view dev k) \<le> v_brk (view dev k1)"
    "\<And>l. map_option sl_lock (v_slists (view dev k1) l) = map_option sl_lock (v_slists (view dev k) l)"
    "v_locks (view dev k1) = v_locks (view dev k)"
    and "\<And>l. v_slists (view dev k) l = None \<Longrightarrow> untouched l gs"
    and "\<And>l y h. v_slists (view dev k) l = Some y \<Longrightarrow> (touches l f \<Longrightarrow> h) \<Longrightarrow>
      guarded l (sl_lock y) h gs \<and> (after (sl_lock y) f h \<longrightarrow> through (sl_lock y) gs h)"
  shows "K_list [] (view dev k')"
proof (rule K_effect [OF assms(1)])
  note p = push_view [OF assms(2), of dev]
  have h: "holds (view dev k') = holds (view dev k)" using p assms(7) by (simp add: holds_def fun_eq_iff)
  show "v_frames (view dev k') = (v_frames (view dev k))(v_cur (view dev k) := gs @ v_frames (view dev k) (v_cur (view dev k)))"
    using p assms(3,4) by simp
  show "v_brk (view dev k) \<le> v_brk (view dev k')" using p assms(5) by simp
  show "map_option sl_lock (v_slists (view dev k') l) = map_option sl_lock (v_slists (view dev k) l)" for l
    using p assms(6) by simp
  show "holds (view dev k') L t = holds (view dev k) L t" for L t using h by simp
  show "guarded l (sl_lock y) (holds (view dev k') (sl_lock y) (v_cur (view dev k))) gs
      \<and> (after (sl_lock y) f (holds (view dev k) (sl_lock y) (v_cur (view dev k)))
          \<longrightarrow> through (sl_lock y) gs (holds (view dev k') (sl_lock y) (v_cur (view dev k))))"
    if "v_slists (view dev k) l = Some y" "touches l f \<Longrightarrow> holds (view dev k) (sl_lock y) (v_cur (view dev k))" for l y
    unfolding h by (rule assms(9) [OF that])
qed (rule assms(8))

lemma K_lists:
  assumes "K_list [f] v" "w = v\<lparr>v_slists := z\<rparr>" "\<And>l. map_option sl_lock (z l) = map_option sl_lock (v_slists v l)" "\<And>L h. after L f h = h"
  shows "K_list [] w"
proof (rule K_effect [OF assms(1), of w "[]"])
  have "holds w = holds v" using assms(2) by (simp add: holds_def fun_eq_iff)
  then show "guarded l (sl_lock y) (holds w (sl_lock y) (v_cur v)) []
      \<and> (after (sl_lock y) f (holds v (sl_lock y) (v_cur v)) \<longrightarrow> through (sl_lock y) [] (holds w (sl_lock y) (v_cur v)))"
    "holds w L t = holds v L t" for l y L t using assms(4) by simp_all
qed (use assms(2,3) in simp_all)

lemma list_in_view: "k_slists k l = Some y \<Longrightarrow> v_slists (view dev k) l = Some y"
  by (simp add: view_def)

lemma SL_push_K:
  assumes "K_list [f] (view dev k)" "push gs k = Inr k'" "k_slists k l = Some y"
    and "\<And>l'. l' \<noteq> l \<Longrightarrow> untouched l' gs" "\<And>L h. \<not> after L f h" "\<And>h. guarded l (sl_lock y) h gs"
  shows "K_list [] (view dev k')"
proof (rule K_pushes [OF assms(1,2)])
  note y = list_in_view [OF assms(3), of dev]
  show "untouched l' gs" if "v_slists (view dev k) l' = None" for l'
    using assms(4) [of l'] that y by (cases "l' = l") simp_all
  show "guarded l' (sl_lock y') h gs \<and> (after (sl_lock y') f h \<longrightarrow> through (sl_lock y') gs h)"
    if "v_slists (view dev k) l' = Some y'" for l' y' h
    using that y assms(4) [of l'] assms(5,6) untouched_guarded [of l' gs] by (cases "l' = l") auto
qed simp_all

lemma SL_Append_K:
  assumes "SynchList_Append l x k = Inr k'" "K_list [F_SL_Append l x] (view dev k)"
  shows "K_list [] (view dev k')"
proof -
  obtain y where y: "k_slists k l = Some y"
    "push [F_Acquire (sl_lock y), F_SL_PutItem l x, F_Signal (sl_listEmpty y) (sl_lock y), F_Release (sl_lock y)] k = Inr k'"
    using assms(1) by (auto simp: SynchList_Append_def res_simps)
  show ?thesis by (rule SL_push_K [OF assms(2) y(2,1)]) auto
qed

lemma SL_RemoveFront_K:
  assumes "SynchList_RemoveFront l k = Inr k'" "K_list [F_SL_RemoveFront l] (view dev k)"
  shows "K_list [] (view dev k')"
proof -
  obtain y where y: "k_slists k l = Some y" "push [F_Acquire (sl_lock y), F_SL_TakeItem l] k = Inr k'"
    using assms(1) by (auto simp: SynchList_RemoveFront_def res_simps)
  show ?thesis by (rule SL_push_K [OF assms(2) y(2,1)]) auto
qed

lemma SL_Remove_K:
  assumes "SynchList_Remove l x k = Inr k'" "K_list [F_SL_Remove l x] (view dev k)"
  shows "K_list [] (view dev k')"
proof -
  obtain y where y: "k_slists k l = Some y" "push [F_Acquire (sl_lock y), F_SL_DropItem l x, F_Release (sl_lock y)] k = Inr k'"
    using assms(1) by (auto simp: SynchList_Remove_def res_simps)
  show ?thesis by (rule SL_push_K [OF assms(2) y(2,1)]) auto
qed

lemma SL_Apply_K:
  assumes "SynchList_Apply l k = Inr k'" "K_list [F_SL_Apply l] (view dev k)"
  shows "K_list [] (view dev k')"
proof -
  obtain y where y: "k_slists k l = Some y" "push [F_Acquire (sl_lock y), F_SL_Visit l, F_Release (sl_lock y)] k = Inr k'"
    using assms(1) by (auto simp: SynchList_Apply_def res_simps)
  show ?thesis by (rule SL_push_K [OF assms(2) y(2,1)]) auto
qed

lemma upd_list_K:
  assumes "upd_list l xs k = Inr k'" "K_list [f] (view dev k)" "\<And>L h. after L f h = h"
  shows "K_list [] (view dev k')"
proof -
  obtain y where y: "k_slists k l = Some y" "view dev k' = (view dev k)\<lparr>v_slists := (v_slists (view dev k))(l \<mapsto> y\<lparr>sl_list := xs\<rparr>)\<rparr>"
    using upd_list_view [OF assms(1), of dev] by blast
  show ?thesis by (rule K_lists [OF assms(2) y(2) _ assms(3)]) (simp add: list_in_view [OF y(1)])
qed

lemma SL_take_K:
  assumes "SynchList_take l k = Inr k'" "K_list [F_SL_TakeItem l] (view dev k)"
  shows "K_list [] (view dev k')"
proof -
  obtain y where y: "k_slists k l = Some y" using assms(1) by (auto simp: SynchList_take_def res_simps)
  show ?thesis
  proof (cases "sl_list y")
    case Nil
    then have "push [F_Wait (sl_listEmpty y) (sl_lock y), F_SL_TakeItem l] k = Inr k'"
      using assms(1) y by (simp add: SynchList_take_def object_def)
    from SL_push_K [OF assms(2) this y] show ?thesis by auto
  next
    case (Cons i xs)
    then obtain k1 where k1: "upd_list l xs (returning (Some i) k) = Inr k1" "push [F_Release (sl_lock y)] k1 = Inr k'"
      using assms(1) y by (auto simp: SynchList_take_def object_def bindE_eq_Inr)
    have v1: "view dev k1 = (view dev k)\<lparr>v_slists := (v_slists (view dev k))(l \<mapsto> y\<lparr>sl_list := xs\<rparr>)\<rparr>"
      using upd_list_view [OF k1(1), of dev] y by (auto simp: returning_def)
    show ?thesis by (rule K_pushes [OF assms(2) k1(2)]) (auto simp: v1 list_in_view [OF y])
  qed
qed

lemma Acquire_K:
  assumes "Lock_Acquire l k = Inr k'" "K_list [F_Acquire l] (view dev k)"
  shows "K_list [] (view dev k')"
proof -
  obtain s where p: "push [F_P s, F_SetHolder l] k = Inr k'" using assms(1) by (auto simp: Lock_Acquire_def bindE_eq_Inr)
  show ?thesis by (rule K_pushes [OF assms(2) p]) simp_all
qed

lemma Wait_K:
  assumes "Condition_Wait c l k = Inr k'" "K_list [F_Wait c l] (view dev k)"
  shows "K_list [] (view dev k')"
proof -
  obtain q w k1 where k1: "Semaphore_new 0 k = (w, k1)"
    "push [F_Release l, F_P w, F_Acquire l, F_DeleteSemaphore w] (k1\<lparr>k_conds := (k_conds k1)(c \<mapsto> q @ [w])\<rparr>) = Inr k'"
    using assms(1) by (auto simp: Condition_Wait_def res_simps Semaphore_new_def)
  note v1 = Semaphore_new_view [OF k1(1), of dev]
  show ?thesis by (rule K_pushes [OF assms(2) k1(2)]) (use v1 in \<open>auto simp: conds_view\<close>)
qed

lemma SetHolder_K:
  assumes "upd_lock l (Some (k_currentThread k)) k = Inr k'" "K_list [F_SetHolder l] (view dev k)" "holders_kept (view dev k) (view dev k')"
  shows "K_list [] (view dev k')"
proof (rule K_effect [OF assms(2), of _ "[]"])
  let ?v = "view dev k" and ?w = "view dev k'"
  have cur: "k_currentThread k = v_cur ?v" by (simp add: view_def)
  obtain x where x: "v_locks ?v l = Some x" "?w = ?v\<lparr>v_locks := (v_locks ?v)(l \<mapsto> x\<lparr>lock_holder := Some (v_cur ?v)\<rparr>)\<rparr>"
    using upd_lock_view [OF assms(1), of dev] cur by auto
  have "lock_holder x \<in> {None, Some (v_cur ?v)}" using assms(3) x unfolding holders_kept_def by fastforce
  then show "holds ?w L t = holds ?v L t" if "t \<noteq> v_cur ?v" for L t using x that by (auto simp: holds_def)
  have "holds ?w L (v_cur ?v) \<longleftrightarrow> holds ?v L (v_cur ?v) \<or> l = L" for L using x by (auto simp: holds_def)
  then show "guarded l' (sl_lock y) (holds ?w (sl_lock y) (v_cur ?v)) []
      \<and> (after (sl_lock y) (F_SetHolder l) (holds ?v (sl_lock y) (v_cur ?v)) \<longrightarrow> through (sl_lock y) [] (holds ?w (sl_lock y) (v_cur ?v)))"
    for l' y by simp
  show "v_frames ?w = (v_frames ?v)(v_cur ?v := [] @ v_frames ?v (v_cur ?v))" "v_brk ?v \<le> v_brk ?w"
    "map_option sl_lock (v_slists ?w l') = map_option sl_lock (v_slists ?v l')" for l' using x by simp_all
qed simp

lemma Release_K:
  assumes "Lock_Release l k = Inr k'" "K_list [F_Release l] (view dev k)"
  shows "K_list [] (view dev k')"
proof -
  let ?v = "view dev k" and ?w = "view dev k'"
  obtain x k1 where x: "k_locks k l = Some x" "lock_holder x = Some (k_currentThread k)"
    and k1: "upd_lock l None k = Inr k1" "push [F_V (lock_semaphore x)] k1 = Inr k'"
    using assms(1) by (auto simp: Lock_Release_def IsHeldByCurrentThread_def res_simps)
  have xv: "v_locks ?v l = Some x" "lock_holder x = Some (v_cur ?v)" using x by (simp_all add: view_def)
  have w: "?w = ?v\<lparr>v_locks := (v_locks ?v)(l \<mapsto> x\<lparr>lock_holder := None\<rparr>),
      v_frames := (v_frames ?v)(v_cur ?v := [F_V (lock_semaphore x)] @ v_frames ?v (v_cur ?v))\<rparr>"
    using push_view [OF k1(2), of dev] upd_lock_view [OF k1(1), of dev] xv(1) by auto
  show ?thesis
  proof (rule K_effect [OF assms(2), of _ "[F_V (lock_semaphore x)]"])
    show "holds ?w L t = holds ?v L t" if "t \<noteq> v_cur ?v" for L t using that xv by (auto simp: w holds_def)
    have "holds ?w L (v_cur ?v) \<longleftrightarrow> holds ?v L (v_cur ?v) \<and> l \<noteq> L" for L using xv by (auto simp: w holds_def)
    then show "guarded l' (sl_lock y) (holds ?w (sl_lock y) (v_cur ?v)) [F_V (lock_semaphore x)]
        \<and> (after (sl_lock y) (F_Release l) (holds ?v (sl_lock y) (v_cur ?v))
            \<longrightarrow> through (sl_lock y) [F_V (lock_semaphore x)] (holds ?w (sl_lock y) (v_cur ?v)))" for l' y by simp
  qed (simp_all add: w)
qed

section \<open>Every step\<close>

text \<open>An operation of a driver pushes frames that touch no list, and keeps lists and holders.\<close>

definition pushed :: "'a kview \<Rightarrow> 'a kview \<Rightarrow> bool" where
  "pushed v w \<longleftrightarrow> v_slists w = v_slists v \<and> holds w = holds v \<and> v_brk v \<le> v_brk w
     \<and> (\<exists>gs. (\<forall>l. untouched l gs) \<and> v_frames w = (v_frames v)(v_cur v := gs @ v_frames v (v_cur v)))"

lemma pushed_K:
  assumes "pushed v w" "K_list [F_Do a] v"
  shows "K_list [] w"
proof -
  obtain gs where gs: "\<And>l. untouched l gs" "v_frames w = (v_frames v)(v_cur v := gs @ v_frames v (v_cur v))"
    using assms(1) unfolding pushed_def by blast
  show ?thesis
    by (rule K_effect [OF assms(2) gs(2)]) (use assms(1) gs(1) untouched_guarded [OF gs(1)] in \<open>simp_all add: pushed_def\<close>)
qed

lemma fresh_lock: "v_locks w = (v_locks v)(l \<mapsto> \<lparr>lock_semaphore = s, lock_holder = None\<rparr>) \<Longrightarrow> v_locks v l = None \<Longrightarrow> holds w = holds v"
  by (auto simp: holds_def fun_eq_iff)

lemma Lock_new_K:
  assumes "Lock_new k = (l, k')" "kinv \<delta> (view dev k)"
  shows "holds (view dev k') = holds (view dev k)"
proof -
  note v = Lock_new_view [OF assms(1), of dev]
  have "v_locks (view dev k) l = None"
  proof (rule ccontr)
    assume "v_locks (view dev k) l \<noteq> None"
    then obtain x where "v_locks (view dev k) l = Some x" by blast
    then have "l < v_brk (view dev k)" using K_boundD(3) [of "view dev k" l x] assms(2) by (simp add: kinv_def)
    then show False using v by simp
  qed
  then show ?thesis by (intro fresh_lock) (use v in simp_all)
qed

lemma new_K:
  fixes k :: "('cb, 'a, 'z) kernel_scheme"
  assumes "(p, k') \<in> {Semaphore_new n k, Lock_new k, Condition_new k, SynchList_new k}" "kinv \<delta> (view dev k)" "K_list [] (view dev k)"
  shows "K_list [] (view dev k')"
proof -
  let ?v = "view dev k" and ?w = "view dev k'"
  have same: "K_list [] w" if "v_slists w = v_slists ?v" "holds w = holds ?v" "v_brk ?v \<le> v_brk w" "v_frames w = v_frames ?v" for w
    by (rule kept_K [OF _ assms(3)]) (use that in \<open>auto simp: kept_def intro: exI [of _ "[]"]\<close>)
  consider (S) "(p, k') = Semaphore_new n k" | (L) "(p, k') = Lock_new k" | (C) "(p, k') = Condition_new k"
    | (SL) "(p, k') = SynchList_new k" using assms(1) by blast
  then show ?thesis
  proof cases
    case S
    then show ?thesis using Semaphore_new_view [of n k p k' dev] by (intro same) (simp_all add: holds_def fun_eq_iff)
  next
    case L
    then show ?thesis using Lock_new_view [of k p k' dev] Lock_new_K [of k p k' \<delta> dev] assms(2) by (intro same) simp_all
  next
    case C
    then show ?thesis using Condition_new_view [of k p k' dev] by (intro same) (simp_all add: holds_def fun_eq_iff)
  next
    case SL
    obtain l k1 where L: "Lock_new k = (l, k1)" by (cases "Lock_new k")
    obtain c k2 where C: "Condition_new k1 = (c, k2)" by (cases "Condition_new k1")
    note v1 = Lock_new_view [OF L, of dev] and v2 = Condition_new_view [OF C, of dev]
    note v3 = SynchList_new_view [OF SL [symmetric] L C, of dev]
    have h: "holds ?w = holds ?v"
    proof -
      have "v_locks ?w = v_locks (view dev k1)" using v2 v3(1) by auto
      then have "holds ?w = holds (view dev k1)" by (simp add: holds_def fun_eq_iff)
      then show ?thesis using Lock_new_K [OF L assms(2)] by simp
    qed
    have b: "v_brk ?v \<le> p" "v_brk ?w = p + 1" "v_frames ?w = v_frames ?v" using v1 v2 v3(1,2) by auto
    have s: "v_slists ?w = (v_slists ?v)(p \<mapsto> \<lparr>sl_list = [], sl_lock = l, sl_listEmpty = c\<rparr>)" using v1 v2 v3(3) by simp
    have none: "v_slists ?v p = None" using assms(3) b(1) unfolding K_list_def by (meson not_le option.exhaust)
    have "stack_guarded ?w l' t (v_frames ?w t)" for l' t
    proof (cases "l' = p")
      case True
      then have "untouched p (v_frames ?v t)" using K_list_stack [OF assms(3), of p t] none by (simp add: stack_guarded_def)
      then show ?thesis using True s b(3) by (simp add: stack_guarded_def untouched_guarded)
    next
      case False
      then show ?thesis using K_list_stack [OF assms(3), of l' t] s b(3) h by (simp add: stack_guarded_def split: option.splits)
    qed
    moreover have "l' < v_brk ?w" if "v_slists ?w l' \<noteq> None" for l'
      using that s b assms(3) unfolding K_list_def by (cases "l' = p") (auto dest: less_le_trans)
    ultimately show ?thesis by (simp add: K_list_def)
  qed
qed

section \<open>What a step does to a list\<close>

definition list_step :: "nat \<Rightarrow> bool \<Rightarrow> ('cb, 'a, 'z) kernel_scheme \<Rightarrow> ('cb, 'a, 'z) kernel_scheme \<Rightarrow> bool" where
  "list_step l allowed k k' \<longleftrightarrow> (\<forall>y. k_slists k l = Some y \<longrightarrow> (\<exists>y'. k_slists k' l = Some y'
     \<and> sl_lock y' = sl_lock y \<and> sl_listEmpty y' = sl_listEmpty y
     \<and> (sl_list y' = sl_list y \<or> allowed \<and> ((\<exists>x. sl_list y' = sl_list y @ [x])
           \<or> (\<exists>x. sl_list y = x # sl_list y' \<and> k_result k' (k_currentThread k) = Some x)
           \<or> (\<exists>x \<in> set (sl_list y). sl_list y' = remove1 x (sl_list y))))))"

lemma list_step_same: "k_slists k' = k_slists k \<Longrightarrow> list_step l b k k'"
  by (simp add: list_step_def)

lemma view_lists: "v_slists (view dev k') = v_slists (view dev k) \<Longrightarrow> list_step l b k k'"
  by (rule list_step_same) (simp add: view_def)

named_theorems same_lists \<open>operations that keep all lists\<close>

lemma push_lists [same_lists]: "push gs k = Inr k' \<Longrightarrow> k_slists k' = k_slists k"
  by (auto simp: push_def upd_thread_def bindE_eq_Inr)

lemma upd_lock_lists [same_lists]: "upd_lock l h k = Inr k' \<Longrightarrow> k_slists k' = k_slists k"
  by (auto simp: upd_lock_def bindE_eq_Inr)

lemma lock_calls_lists [same_lists]:
  "Lock_Acquire l k = Inr k' \<Longrightarrow> k_slists k' = k_slists k" "Lock_Release l k = Inr k' \<Longrightarrow> k_slists k' = k_slists k"
  "Condition_Wait c l k = Inr k' \<Longrightarrow> k_slists k' = k_slists k" "SynchList_Append l x k = Inr k' \<Longrightarrow> k_slists k' = k_slists k"
  "SynchList_RemoveFront l k = Inr k' \<Longrightarrow> k_slists k' = k_slists k" "SynchList_Remove l x k = Inr k' \<Longrightarrow> k_slists k' = k_slists k"
  "SynchList_Apply l k = Inr k' \<Longrightarrow> k_slists k' = k_slists k" "SynchList_visit l k = Inr k' \<Longrightarrow> k_slists k' = k_slists k"
  by (auto simp: Lock_Acquire_def Lock_Release_def Condition_Wait_def Semaphore_new_def SynchList_Append_def SynchList_RemoveFront_def
      SynchList_Remove_def SynchList_Apply_def SynchList_visit_def bindE_eq_Inr Let_def dest!: push_lists upd_lock_lists)

lemma upd_list_step:
  assumes "upd_list l xs k = Inr k'"
  shows "k_slists k' = (k_slists k)(l := map_option (\<lambda>y. y\<lparr>sl_list := xs\<rparr>) (k_slists k l))" "k_result k' = k_result k"
  using assms by (auto simp: upd_list_def res_simps)

lemma take_step:
  assumes "SynchList_take l k = Inr k'"
  shows "list_step l' (l' = l) k k'"
proof -
  obtain y where y: "k_slists k l = Some y" using assms by (auto simp: SynchList_take_def res_simps)
  show ?thesis
  proof (cases "sl_list y")
    case Nil
    then have "push [F_Wait (sl_listEmpty y) (sl_lock y), F_SL_TakeItem l] k = Inr k'"
      using assms y by (simp add: SynchList_take_def object_def)
    then show ?thesis by (intro list_step_same push_lists)
  next
    case (Cons i xs)
    then obtain k1 where k1: "upd_list l xs (returning (Some i) k) = Inr k1" "push [F_Release (sl_lock y)] k1 = Inr k'"
      using assms y by (auto simp: SynchList_take_def object_def bindE_eq_Inr)
    note u = upd_list_step [OF k1(1)]
    have "k_result k' = k_result k1" using k1(2) by (auto simp: push_def upd_thread_def bindE_eq_Inr)
    then show ?thesis using y Cons u push_lists [OF k1(2)] by (auto simp: list_step_def returning_def)
  qed
qed

locale list_drivers = drivers +
  assumes operation_pushes: "act a k = Inr k' \<Longrightarrow> executing (F_Do a) (view dev k) \<Longrightarrow> pushed (view dev k) (view dev k')"
begin

lemma quiet_wakes_from: "wakes (view dev k) (view dev k') \<Longrightarrow> kept v (view dev k) \<Longrightarrow> kept v (view dev k')"
  using kept_trans quiet_wakes by blast

lemma quiet_hardware:
  "Interrupt_SetLevel cb l k = Inr (old, k') \<Longrightarrow> kept v (view dev k) \<Longrightarrow> kept v (view dev k')"
  "Interrupt_OneTick cb k = Inr k' \<Longrightarrow> kept v (view dev k) \<Longrightarrow> kept v (view dev k')"
  "Interrupt_Idle cb k = Inr k' \<Longrightarrow> kept v (view dev k) \<Longrightarrow> kept v (view dev k')"
  using quiet_wakes_from Interrupt_SetLevel_wakes Interrupt_OneTick_wakes Idle_wakes by blast+

lemma exec_quiet:
  assumes "exec cb act f k = Inr k'" "neutral f"
  shows "kept (view dev k) (view dev k')"
proof -
  have r: "kept (view dev k) (view dev k)" by (rule kept_refl)
  show ?thesis
    using assms r
    by (cases f)
      (auto simp: SetLevel_def OneTick_def Sleep_round_def bindE_eq_Inr split: if_splits option.splits
        elim!: quiets quiet_hardware)
qed

lemma exec_K:
  assumes "exec cb act f k = Inr k'" "K_list [f] (view dev k)" "\<not> neutral f \<Longrightarrow> executing f (view dev k)"
  shows "K_list [] (view dev k')"
proof (cases "neutral f")
  case True
  then show ?thesis using kept_K [OF exec_quiet [OF assms(1)] neutral_K [OF assms(2)]] by blast
next
  case False
  then have E: "executing f (view dev k)" by (rule assms(3))
  have H: "holders_kept (view dev k) (view dev k')" using exec_good [OF assms(1) E] by (simp add: good_def)
  show ?thesis
  proof (cases f)
    case (F_Do a)
    then show ?thesis using pushed_K [OF operation_pushes] assms(1,2) E by simp
  next
    case (F_SL_Visit l)
    then have "view dev k' = view dev k" using assms(1) by (auto simp: SynchList_visit_def bindE_eq_Inr)
    then have "view dev k' = (view dev k)\<lparr>v_slists := v_slists (view dev k)\<rparr>" by simp
    then show ?thesis by (rule K_lists [OF assms(2)]) (simp_all add: F_SL_Visit)
  next
    case (F_SL_PutItem l x)
    then obtain xs where "upd_list l xs k = Inr k'" using assms(1) by (auto simp: bindE_eq_Inr)
    then show ?thesis by (rule upd_list_K [OF _ assms(2)]) (simp add: F_SL_PutItem)
  next
    case (F_SL_DropItem l x)
    then obtain xs where "upd_list l xs k = Inr k'" using assms(1) by (auto simp: bindE_eq_Inr)
    then show ?thesis by (rule upd_list_K [OF _ assms(2)]) (simp add: F_SL_DropItem)
  qed (use False assms(1,2) H in \<open>auto intro: Acquire_K SetHolder_K Release_K Wait_K SL_Append_K SL_RemoveFront_K SL_take_K SL_Remove_K SL_Apply_K\<close>)
qed

lemma run_frame_K:
  assumes "run_frame cb act k = Inr k'" "kinv (\<lambda>_. 0) (view dev k)" "cur_ok (view dev k)" "K_list [] (view dev k)"
  shows "K_list [] (view dev k')"
    and "\<exists>f fs k1. frames k (k_currentThread k) = f # fs \<and> exec cb act f k1 = Inr k' \<and> view dev k1 = with_frames (view dev k) fs
      \<and> K_list [f] (view dev k1) \<and> k_currentThread k1 = k_currentThread k \<and> k_slists k1 = k_slists k
      \<and> (\<not> neutral f \<longrightarrow> executing f (view dev k1))"
proof -
  let ?v = "view dev k"
  obtain th where th: "k_threads k (k_currentThread k) = Some th" and go: "(case th_frames th of [] \<Rightarrow> Inl Bad_Access
      | f # fs \<Rightarrow> bindE (upd_thread (k_currentThread k) (\<lambda>th. th\<lparr>th_frames := fs\<rparr>) k) (\<lambda>k. exec cb act f k)) = Inr k'"
    using assms(1) by (auto simp: run_frame_def bindE_eq_Inr object_eq_Inr)
  obtain f fs where ffs: "th_frames th = f # fs" using go by (cases "th_frames th") simp_all
  obtain k1 where pop: "upd_thread (k_currentThread k) (\<lambda>th. th\<lparr>th_frames := fs\<rparr>) k = Inr k1" and ex: "exec cb act f k1 = Inr k'"
    using go ffs by (auto simp: bindE_eq_Inr)
  have F: "v_frames ?v (v_cur ?v) = f # fs" using th ffs by (simp add: view_def frames_def)
  have v1: "view dev k1 = with_frames ?v fs" by (rule pop_view [OF pop])
  have G: "stack_guarded ?v l t ((if t = v_cur ?v then [f] else []) @ v_frames (with_frames ?v fs) t)" for l t
    using K_list_stack [OF assms(4), of l t] F by (cases "t = v_cur ?v") simp_all
  have "stack_guarded (with_frames ?v fs) = stack_guarded ?v" by (rule stack_guarded_cong) (simp_all add: holds_def fun_eq_iff)
  then have K1: "K_list [f] (view dev k1)" using G assms(4) unfolding v1 by (simp add: K_list_def)
  have E: "executing f (view dev k1)" if "\<not> neutral f"
    unfolding v1 by (rule popped_executing [OF assms(2) _ F]) (use that assms(3) F in \<open>auto simp: cur_ok_def split: frame.splits\<close>)
  show "K_list [] (view dev k')" by (rule exec_K [OF ex K1 E])
  have "k_currentThread k1 = k_currentThread k \<and> k_slists k1 = k_slists k"
    using pop by (auto simp: upd_thread_def bindE_eq_Inr)
  moreover have "frames k (k_currentThread k) = f # fs" using th ffs by (simp add: frames_def)
  ultimately show "\<exists>f fs k1. frames k (k_currentThread k) = f # fs \<and> exec cb act f k1 = Inr k' \<and> view dev k1 = with_frames ?v fs
      \<and> K_list [f] (view dev k1) \<and> k_currentThread k1 = k_currentThread k \<and> k_slists k1 = k_slists k
      \<and> (\<not> neutral f \<longrightarrow> executing f (view dev k1))"
    using ex v1 K1 E by blast
qed

lemma called_K:
  assumes "call_ok k f" "v_frames (view dev k) (v_cur (view dev k)) = []" "K_list [] (view dev k)"
  shows "K_list [f] (view dev k)"
proof -
  have t: "\<not> touches l f" for l using assms(1) by (cases f) auto
  have "stack_guarded (view dev k) l t ((if t = v_cur (view dev k) then [f] else []) @ v_frames (view dev k) t)" for l t
    using K_list_stack [OF assms(3), of l t] assms(2) t by (auto simp: stack_guarded_def split: option.splits)
  then show ?thesis using assms(3) by (simp add: K_list_def)
qed

lemma step_K:
  assumes "kstep cb act k k'" "kinv (\<lambda>_. 0) (view dev k)" "cur_ok (view dev k)" "K_list [] (view dev k)"
  shows "K_list [] (view dev k')"
  using assms(1)
proof cases
  case step_frame
  then show ?thesis using run_frame_K(1) assms(2-4) by blast
next
  case (step_call th f)
  have n: "v_frames (view dev k) (v_cur (view dev k)) = []" using step_call(1,2) by (simp add: view_def frames_def)
  show ?thesis
    by (rule exec_K [OF step_call(4) called_K [OF step_call(3) n assms(4)] called_executing [OF step_call(3) assms(2,3) n]])
next
  case (step_new th p n)
  then show ?thesis using new_K assms(2,4) by blast
qed

lemma exec_list_step:
  assumes "exec cb act f k = Inr k'" "\<not> neutral f \<Longrightarrow> executing f (view dev k)"
  shows "list_step l (touches l f) k k'"
proof (cases "neutral f")
  case True
  then show ?thesis using exec_quiet [OF assms(1)] view_lists unfolding kept_def by blast
next
  case False
  show ?thesis
  proof (cases f)
    case (F_Do a)
    then have "pushed (view dev k) (view dev k')" using operation_pushes assms False by simp
    then show ?thesis using view_lists unfolding pushed_def by blast
  next
    case (F_SL_TakeItem l')
    then show ?thesis using take_step [of l' k k' l] assms(1) by (simp add: eq_commute)
  next
    case (F_SL_PutItem l' x)
    then obtain y where y: "k_slists k l' = Some y" "upd_list l' (sl_list y @ [x]) k = Inr k'" using assms(1) by (auto simp: res_simps)
    then show ?thesis using upd_list_step [OF y(2)] F_SL_PutItem by (auto simp: list_step_def)
  next
    case (F_SL_DropItem l' x)
    then obtain y where y: "k_slists k l' = Some y" "count_list (sl_list y) x = 1" "upd_list l' (remove1 x (sl_list y)) k = Inr k'"
      using assms(1) by (auto simp: res_simps seq_Remove_eq_Inr)
    have "x \<in> set (sl_list y)" using y(2) count_notin [of x "sl_list y"] by fastforce
    then show ?thesis using y(1) upd_list_step [OF y(3)] F_SL_DropItem by (auto simp: list_step_def)
  qed (use False assms(1) in \<open>auto intro!: list_step_same dest: same_lists\<close>)
qed

lemma step_lists:
  assumes "kstep cb act k k'" "kinv (\<lambda>_. 0) (view dev k)" "cur_ok (view dev k)" "K_list [] (view dev k)"
  shows "list_step l (\<exists>f fs. frames k (k_currentThread k) = f # fs \<and> touches l f) k k'"
  using assms(1)
proof cases
  case step_frame
  then obtain f fs k1 where f: "frames k (k_currentThread k) = f # fs" "exec cb act f k1 = Inr k'"
    "k_currentThread k1 = k_currentThread k" "k_slists k1 = k_slists k" "\<not> neutral f \<longrightarrow> executing f (view dev k1)"
    using run_frame_K(2) assms(2-4) by blast
  have "list_step l (touches l f) k1 k'" using exec_list_step [OF f(2)] f(5) by blast
  then show ?thesis using f(1,3,4) by (simp add: list_step_def)
next
  case (step_call th f)
  have n: "v_frames (view dev k) (v_cur (view dev k)) = []" using step_call(1,2) by (simp add: view_def frames_def)
  have "list_step l (touches l f) k k'"
    by (rule exec_list_step [OF step_call(4) called_executing [OF step_call(3) assms(2,3) n]])
  moreover have "\<not> touches l f" using step_call(3) by (cases f) auto
  ultimately show ?thesis by (auto simp: list_step_def)
next
  case (step_new th p n)
  have "k_slists k' l = k_slists k l" if "k_slists k l \<noteq> None"
  proof -
    have "v_slists (view dev k) l \<noteq> None" using that by (simp add: view_def)
    then have "l < v_brk (view dev k)" using assms(4) by (simp add: K_list_def)
    then have "l < k_brk k" by (simp add: view_def)
    then show ?thesis using step_new(3)
      by (auto simp: Semaphore_new_def Lock_new_def Condition_new_def SynchList_new_def Let_def)
  qed
  then show ?thesis by (auto simp: list_step_def)
qed

end

section \<open>The kernel\<close>

lemma push_pushed: "push gs k1 = Inr k' \<Longrightarrow> view dev k1 = view dev k \<Longrightarrow> (\<And>l. untouched l gs) \<Longrightarrow> pushed (view dev k) (view dev k')"
  using push_view [of gs k1 k' dev] by (auto simp: pushed_def holds_def fun_eq_iff)

lemma same_pushed: "view dev k' = view dev k \<Longrightarrow> pushed (view dev k) (view dev k')"
  by (auto simp: pushed_def intro: exI [of _ "[]"])

lemma driver_push:
  assumes "SynchConsoleInput_GetChar k = Inr k' \<or> SynchConsoleOutput_PutChar c k = Inr k' \<or> DiskDriver_ReadSector s k = Inr k'
    \<or> DiskDriver_WriteSector s data k = Inr k' \<or> PostalDelivery k = Inr k' \<or> PostOfficeInput_Receive b k = Inr k'
    \<or> PostOfficeOutput_Send ph mh data k = Inr k'"
  shows "pushed (kview_of k) (kview_of k')"
proof -
  have "\<exists>gs. push gs k = Inr k' \<and> (\<forall>l. untouched l gs)"
    using assms
    by (auto simp: SynchConsoleInput_GetChar_def SynchConsoleOutput_PutChar_def DiskDriver_ReadSector_def DiskDriver_WriteSector_def
        PostalDelivery_def PostOfficeInput_Receive_def PostOfficeOutput_Send_def Let_def bindE_eq_Inr)
  then show ?thesis using push_pushed by blast
qed

lemma read_pushed:
  assumes "DiskDriver_read s k = Inr k'"
  shows "pushed (kview_of k) (kview_of k')"
proof -
  obtain x where x: "dv_synchDisk (devs k) = Some x" using assms by (auto simp: DiskDriver_read_def res_simps)
  let ?give = "\<lambda>data k. upd_devs (\<lambda>d. d\<lparr>dv_sector := (dv_sector d)(k_currentThread k := data)\<rparr>) k"
  show ?thesis
  proof (cases "cache_find (sd_cache (sy_disk x)) s 0")
    case (Some i)
    then have "\<exists>sd data. k' = ?give data (set_synchdisk sd k)" using assms x by (auto simp: DiskDriver_read_def deref_def Let_def)
    then show ?thesis by (auto intro: same_pushed)
  next
    case None
    then obtain ticks data sd st k1 where k1: "Interrupt_Schedule CB_Disk ticks DiskInt (?give data (set_synchdisk sd (k\<lparr>hw_stats := st\<rparr>))) = Inr k1"
      "push [F_P (sy_semaphore x)] k1 = Inr k'"
      using assms x by (auto simp: DiskDriver_read_def deref_def Let_def bindE_eq_Inr)
    show ?thesis by (rule push_pushed [OF k1(2)]) (use Schedule_view [OF k1(1)] in simp_all)
  qed
qed

lemma deliver_pushed:
  assumes "PostalDelivery_round k = Inr k'"
  shows "pushed (kview_of k) (kview_of k')"
proof -
  obtain x h b k1 box where x: "dv_postOfficeIn (devs k) = Some x" "NetworkInput_Receive (pi_buffer x) k = Inr (h, b, k1)"
    and put: "MailBox_Put box h (MailHeader_of_bytes b) (drop sizeof_Header b)
       (upd_devs (\<lambda>d. d\<lparr>dv_postOfficeIn := Some (x\<lparr>pi_buffer := b\<rparr>)\<rparr>) k1) = Inr k'"
    using assms by (auto simp: PostalDelivery_round_def Let_def bindE_eq_Inr deref_eq_Inr)
  let ?k2 = "upd_devs (\<lambda>d. d\<lparr>dv_postOfficeIn := Some (x\<lparr>pi_buffer := b\<rparr>)\<rparr>) k1"
  obtain mail p where p: "push [F_SL_Append box p] (upd_devs (\<lambda>d. d\<lparr>dv_mails := (dv_mails d)(p \<mapsto> mail), dv_newMail := p + 1\<rparr>) ?k2) = Inr k'"
    using put by (auto simp: MailBox_Put_def Let_def bindE_eq_Inr)
  have "dv_postOfficeIn (devs k1) = Some x" using x NetworkInput_Receive_devs by metis
  then have v: "kview_of ?k2 = kview_of k" using postOfficeIn_view NetworkInput_Receive_view [OF x(2)] by metis
  have "kview_of (upd_devs (\<lambda>d. d\<lparr>dv_mails := (dv_mails d)(p \<mapsto> mail), dv_newMail := p + 1\<rparr>) ?k2) = kview_of k"
    unfolding devices_view by (rule v)
  from push_pushed [OF p this] show ?thesis by simp
qed

lemma rest_pushed:
  assumes "Kernel_Initialize_rest u opt k = Inr k'" "kinv \<delta> (kview_of k)"
  shows "pushed (kview_of k) (kview_of k')"
proof -
  let ?v = "kview_of k"
  obtain s k1 l k2 where S: "Semaphore_new 0 k = (s, k1)" and L: "Lock_new k1 = (l, k2)"
    by (cases "Semaphore_new 0 k"; cases "Lock_new (snd (Semaphore_new 0 k))") auto
  note vS = Semaphore_new_view [OF S, of driver_sems] and vL = Lock_new_view [OF L, of driver_sems]
  define k3 where "k3 = PostOfficeOutput_new (op_reliability opt) k"
  have "\<exists>D. kview_of k3 = (kview_of k2)\<lparr>v_dev := D\<rparr>"
    using S L by (auto simp: k3_def PostOfficeOutput_new_def NetworkOutput_new_def upd_devs_view Let_def)
  then obtain D where v3: "kview_of k3 = (kview_of k2)\<lparr>v_dev := D\<rparr>" by blast
  obtain m where p: "push [F_SetLevel IntOn] (k3\<lparr>hw_machine := m\<rparr>) = Inr k'"
    using assms(1) by (auto simp: Kernel_Initialize_rest_def Let_def bindE_eq_Inr k3_def)
  note vp = push_view [OF p, of driver_sems, unfolded view_hw v3]
  have "v_locks ?v l = None"
  proof (rule ccontr)
    assume "v_locks ?v l \<noteq> None"
    then obtain x where "v_locks ?v l = Some x" by blast
    then have "l < v_brk ?v" using K_boundD(3) [of ?v l x] assms(2) by (simp add: kinv_def)
    then show False using vS vL by simp
  qed
  then have "holds (kview_of k') = holds ?v"
    by (rule fresh_lock [rotated]) (use vp vL vS in simp)
  then show ?thesis using vp vL vS by (auto simp: pushed_def intro!: exI [of _ "[F_SetLevel IntOn]"])
qed

lemma driver_call_pushed:
  assumes "driver_call u opt a k = Inr k'" "executing (F_Do a) (kview_of k)"
  shows "pushed (kview_of k) (kview_of k')"
proof (cases a)
  case Do_ConsoleInput_GetChar
  then obtain c k1 f where k1: "ConsoleInput_GetChar k = Inr (c, k1)" "k' = upd_devs (\<lambda>d. d\<lparr>dv_char := f d\<rparr>) k1"
    using assms(1) by (auto simp: driver_call_def bindE_eq_Inr)
  then show ?thesis using ConsoleInput_GetChar_view [OF k1(1)] by (intro same_pushed) simp
next
  case Do_Initialize_rest
  then show ?thesis using assms(1) rest_pushed [OF _ executingD(1) [OF assms(2)]] by (simp add: driver_call_def)
qed (use assms(1) in \<open>auto simp: driver_call_def intro: same_pushed driver_push read_pushed deliver_pushed
    dest: ConsoleOutput_PutChar_view write_view Get_view NetworkOutput_Send_view\<close>)

interpretation guarded: list_drivers driver_sems CallBack "driver_call u opt" for u opt
  by unfold_locales (fact driver_call_pushed)

text \<open>When the kernel has booted no stack has a frame that touches a list.\<close>

definition unlisted :: "'a kview \<Rightarrow> bool" where
  "unlisted v \<longleftrightarrow> (\<forall>l. v_slists v l \<noteq> None \<longrightarrow> l < v_brk v) \<and> (\<forall>t l. untouched l (v_frames v t))"

lemma unlisted_K: "unlisted v \<Longrightarrow> K_list [] v"
  by (auto simp: unlisted_def K_list_def stack_guarded_def untouched_guarded split: option.splits)

lemma unlisted_dev [simp]: "unlisted (v\<lparr>v_dev := D\<rparr>) = unlisted v"
  by (simp add: unlisted_def)

lemma unlisted_new [simp]:
  assumes "unlisted (view dev k)"
  shows "unlisted (view dev (snd (Semaphore_new n k)))" "unlisted (view dev (snd (Lock_new k)))"
    "unlisted (view dev (snd (Condition_new k)))" "unlisted (view dev (snd (SynchList_new k)))"
  using assms
  by (auto simp: unlisted_def view_def frames_def Semaphore_new_def Lock_new_def Condition_new_def SynchList_new_def Let_def
      dest: less_SucI split: if_splits)

lemma unlisted_kept:
  assumes "kept v w" "unlisted v"
  shows "unlisted w"
  unfolding unlisted_def
proof (intro conjI allI impI)
  show "l < v_brk w" if "v_slists w l \<noteq> None" for l
  proof (rule order.strict_trans2)
    show "l < v_brk v" using assms that by (simp add: kept_def unlisted_def)
    show "v_brk v \<le> v_brk w" using assms(1) by (simp add: kept_def)
  qed
  show "untouched l (v_frames w t)" for l t
  proof -
    obtain new base where n: "v_frames w t = new @ base" "list_all neutral new" "base \<in> {v_frames v t, [], [F_Begin]}"
      using assms(1) unfolding kept_def by blast
    have "untouched l base" using n(3) assms(2) by (auto simp: unlisted_def)
    then show ?thesis using neutral_list [OF n(2)] n(1) by simp
  qed
qed

lemma unlisted_pushed: "pushed v w \<Longrightarrow> unlisted v \<Longrightarrow> unlisted w"
  unfolding unlisted_def pushed_def by (auto dest: order.strict_trans2)

lemma unlisted_MailBoxes: "unlisted (view dev k) \<Longrightarrow> unlisted (view dev (snd (MailBoxes_new n k)))"
  by (induction n arbitrary: k) (simp_all add: case_prod_unfold Let_def)

lemma boot_unlisted:
  assumes "Kernel_Initialize u opt = Inr k"
  shows "unlisted (kview_of k)"
proof -
  obtain k1 k2 k3 k4 k5 k6 k7 where b: "Kernel_threads (blank_kernel (new_devices u opt)) = Inr k1"
    "Alarm_new (op_randomSlice opt) k1 = Inr k2" "Kernel_machine u opt k2 = Inr k3" "SynchConsoleInput_new k3 = Inr k4"
    "SynchConsoleOutput_new k4 = Inr k5" "DiskDriver_new (su_cache u) (su_disk u) k5 = Inr k6"
    "push [F_Do Do_Initialize_rest] k6 = Inr k7" "PostOfficeInput_new u 10 k7 = Inr k"
    using assms unfolding Kernel_Initialize_def bindE_eq_Inr by blast
  have "unlisted (kview_of k1)" by (simp add: Kernel_threads_view [OF b(1)] unlisted_def)
  then have 3: "unlisted (kview_of k3)" using Alarm_new_view [OF b(2)] b(3) by (auto simp: Kernel_machine_def Let_def bindE_eq_Inr)
  obtain c f where c: "ConsoleInput_new D_SynchConsoleInput k3 = Inr c"
    "k4 = upd_devs f (snd (Semaphore_new 0 (snd (Lock_new c))))"
    using b(4) by (auto simp: SynchConsoleInput_new_def bindE_eq_Inr Let_def case_prod_unfold)
  have "kview_of c = kview_of k3" using Schedule_view [OF c(1) [unfolded ConsoleInput_new_def]] by simp
  then have 4: "unlisted (kview_of k4)" using 3 unfolding c(2) by (simp add: case_prod_unfold Let_def upd_devs_view)
  then have 5: "unlisted (kview_of k5)"
    using b(5) by (auto simp: SynchConsoleOutput_new_def case_prod_unfold Let_def upd_devs_view ConsoleOutput_new_def)
  then have "unlisted (kview_of k6)" using b(6) by (auto simp: DiskDriver_new_def case_prod_unfold Let_def upd_devs_view bindE_eq_Inr)
  then have 7: "unlisted (kview_of k7)" using unlisted_pushed [OF push_pushed [OF b(7) refl]] by simp
  define m where "m = MailBoxes_new 10 (snd (Semaphore_new 0 k7))"
  define k8 where "k8 = upd_devs (\<lambda>d. d\<lparr>dv_postOfficeIn := Some \<lparr>pi_boxes = fst m, pi_numBoxes = 10,
      pi_messageAvailable = fst (Semaphore_new 0 k7), pi_buffer = su_buffer u\<rparr>\<rparr>) (snd m)"
  have 8: "unlisted (kview_of k8)" using 7 unlisted_MailBoxes by (simp add: k8_def m_def upd_devs_view)
  obtain k9 t k10 where k9: "NetworkInput_new (su_header u) (su_inbox u) D_PostOfficeInput k8 = Inr k9"
    and k10: "createThread (Some (k_currentThread k9)) 0 k9 = Inr (Some t, k10)" "Thread_Fork t k10 = Inr k"
    using b(8) by (auto simp: PostOfficeInput_new_def case_prod_unfold Let_def bindE_eq_Inr deref_eq_Inr k8_def m_def)
  have "kview_of k9 = kview_of k8" using Schedule_view [OF k9 [unfolded NetworkInput_new_def]] by simp
  then have "unlisted (kview_of k9)" using 8 by simp
  then show ?thesis using unlisted_kept [OF quiet_Fork [OF k10(2) quiet_createThread [OF k10(1) kept_refl]]] by blast
qed

lemma reachable_K: "reachable u opt k \<Longrightarrow> K_list [] (kview_of k)"
proof (induction rule: reachable.induct)
  case (boot k)
  then show ?case using unlisted_K boot_unlisted by blast
next
  case (step k k')
  then show ?case using guarded.step_K reachable_ok [OF step(1)] by blast
qed

section \<open>Synchronised lists\<close>

lemma touching_holds:
  assumes "reachable u opt k" "k_slists k l = Some y" "frames k t = f # fs" "touches l f"
  shows "\<exists>x. k_locks k (sl_lock y) = Some x \<and> lock_holder x = Some t"
proof -
  have "stack_guarded (kview_of k) l t (v_frames (kview_of k) t)" using K_list_stack [OF reachable_K [OF assms(1)]] by simp
  moreover have "v_slists (kview_of k) l = Some y" "v_frames (kview_of k) t = f # fs" using assms(2,3) by (simp_all add: view_def)
  ultimately have "holds (kview_of k) (sl_lock y) t" using assms(4) by (simp add: stack_guarded_def)
  then show ?thesis by (simp add: holds_def view_def)
qed

text \<open>
  C4. Synchronised lists are guarded by their locks. In every state the kernel reaches, a thread that is
  about to read or change a list holds the list's lock. Whatever the kernel does next, the list keeps
  its lock and its condition variable, and its items change only when the running thread holds the lock:
  an item is appended at the tail, or the head is removed and is the result the thread receives, or one
  item is removed.
\<close>

theorem synchlist_guarded:
  assumes "reachable u opt k" "k_slists k l = Some y"
  shows "(\<forall>t f fs. frames k t = f # fs \<and> touches l f \<longrightarrow> (\<exists>x. k_locks k (sl_lock y) = Some x \<and> lock_holder x = Some t))
    \<and> (\<forall>k'. kstep CallBack (driver_call u opt) k k' \<longrightarrow> (\<exists>y'. k_slists k' l = Some y'
         \<and> sl_lock y' = sl_lock y \<and> sl_listEmpty y' = sl_listEmpty y
         \<and> (sl_list y' = sl_list y
            \<or> (\<exists>x. k_locks k (sl_lock y) = Some x \<and> lock_holder x = Some (k_currentThread k))
              \<and> ((\<exists>i. sl_list y' = sl_list y @ [i])
                 \<or> (\<exists>i. sl_list y = i # sl_list y' \<and> k_result k' (k_currentThread k) = Some i)
                 \<or> (\<exists>i \<in> set (sl_list y). sl_list y' = remove1 i (sl_list y))))))"
    (is "?hold \<and> ?keep")
proof
  show ?hold using touching_holds [OF assms] by blast
  have I: "kinv (\<lambda>_. 0) (kview_of k)" "cur_ok (kview_of k)" using reachable_ok [OF assms(1)] by simp_all
  note held = touching_holds [OF assms, of "k_currentThread k"]
  show ?keep
  proof (intro allI impI)
    fix k' assume "kstep CallBack (driver_call u opt) k k'"
    note s = guarded.step_lists [OF this I reachable_K [OF assms(1)], of l]
    show "\<exists>y'. k_slists k' l = Some y' \<and> sl_lock y' = sl_lock y \<and> sl_listEmpty y' = sl_listEmpty y
         \<and> (sl_list y' = sl_list y
            \<or> (\<exists>x. k_locks k (sl_lock y) = Some x \<and> lock_holder x = Some (k_currentThread k))
              \<and> ((\<exists>i. sl_list y' = sl_list y @ [i])
                 \<or> (\<exists>i. sl_list y = i # sl_list y' \<and> k_result k' (k_currentThread k) = Some i)
                 \<or> (\<exists>i \<in> set (sl_list y). sl_list y' = remove1 i (sl_list y))))"
      using s assms(2) held unfolding list_step_def by blast
  qed
qed

theorem synchlist_guarded_witness:
  "\<exists>k k' l y. reachable idle_host no_options k \<and> k_slists k l = Some y \<and> kstep CallBack (driver_call idle_host no_options) k k'
     \<and> (\<exists>y'. k_slists k' l = Some y' \<and> sl_lock y' = sl_lock y)"
proof -
  obtain k where k: "reachable idle_host no_options k" "ready_to_call k" using example_idle by blast
  obtain th where th: "k_threads k (k_currentThread k) = Some th" "th_frames th = []" using k(2) unfolding ready_to_call_def by blast
  obtain l k1 where L: "SynchList_new k = (l, k1)" by (cases "SynchList_new k")
  then have "(l, k1) \<in> {Semaphore_new 0 k, Lock_new k, Condition_new k, SynchList_new k}" by simp
  then have "kstep CallBack (driver_call idle_host no_options) k k1" using th step_new by blast
  then have r: "reachable idle_host no_options k1" by (rule step [OF k(1)])
  obtain y where y: "k_slists k1 l = Some y" and t: "k_threads k1 = k_threads k" "k_currentThread k1 = k_currentThread k"
    using L by (auto simp: SynchList_new_def Lock_new_def Condition_new_def Semaphore_new_def Let_def)
  obtain q k2 where Q: "Lock_new k1 = (q, k2)" by (cases "Lock_new k1")
  then have "(q, k2) \<in> {Semaphore_new 0 k1, Lock_new k1, Condition_new k1, SynchList_new k1}" by simp
  then have s: "kstep CallBack (driver_call idle_host no_options) k1 k2" using th t step_new by metis
  then show ?thesis using synchlist_guarded [OF r y] r y by blast
qed

end
