(* ===== verification/Main_Program.thy ===== *)
theory Main_Program
  imports File_System Devices
begin

text \<open>
  threads/main.cc: the arguments of the main program, copying a UNIX file into the file system,
  printing a file, and the order in which the requests are carried out; lib/debug: which debug
  messages are enabled. The requests on files are those of the build without \<open>FILESYS_STUB\<close>, over the
  file system of File_System. What is printed is the result of the operation.
\<close>

section \<open>lib/debug.cc\<close>

record Debug =
  enableFlags :: "string option"

definition Debug_new :: "string option \<Rightarrow> Debug" where
  "Debug_new flagList = \<lparr>enableFlags = flagList\<rparr>"

text \<open>\<open>strchr\<close> finds the character 0 at the end of every string.\<close>

definition IsEnabled :: "Debug \<Rightarrow> char \<Rightarrow> bool" where
  "IsEnabled d flag = (case enableFlags d of None \<Rightarrow> False
     | Some s \<Rightarrow> flag \<in> set s \<or> flag = CHR 0x00 \<or> CHR ''+'' \<in> set s)"

section \<open>Copying and printing\<close>

definition TransferSize :: int where "TransferSize = 128"

lemma bindE_cong [fundef_cong]:
  "r = r' \<Longrightarrow> (\<And>x. r' = Inr x \<Longrightarrow> f x = g x) \<Longrightarrow> bindE r f = bindE r' g"
  by (cases r') simp_all

definition unread :: "unix \<Rightarrow> int \<Rightarrow> nat" where
  "unread u fd = (case ux_fds u fd of None \<Rightarrow> 0 | Some (i, pos) \<Rightarrow> nat (int (length (ux_inodes u i)) - pos))"

lemma ReadPartial_advances: "(k, bs, u') = ReadPartial u fd n \<Longrightarrow> 0 < k \<Longrightarrow> unread u' fd < unread u fd"
  by (auto simp: unread_def ReadPartial_def ux_read_def Let_def split: option.splits)

text \<open>The loop of \<open>Copy\<close>.\<close>

function Copy_loop :: "fs_env \<Rightarrow> int \<Rightarrow> unix \<Rightarrow> OpenFile \<Rightarrow> store \<Rightarrow> (unix \<times> OpenFile \<times> store) res" where
  "Copy_loop v fd u f st =
     (case ReadPartial u fd TransferSize of (amountRead, buffer, u) \<Rightarrow>
      if amountRead > 0 then
        bindE (OpenFile_Write (env_depth v) (env_bytes v) f st buffer amountRead) (\<lambda>(_, f, st). Copy_loop v fd u f st)
      else Inr (u, f, st))"
  by pat_completeness auto
termination
  by (relation "measure (\<lambda>(v, fd, u, f, st). unread u fd)") (auto intro: ReadPartial_advances)

declare Copy_loop.simps [simp del]

datatype copied = Copied | No_Input | No_Output

definition Copy :: "fs_env \<Rightarrow> FileSystem \<Rightarrow> store \<Rightarrow> unix \<Rightarrow> byte list \<Rightarrow> byte list \<Rightarrow> (copied \<times> FileSystem \<times> store \<times> unix) res" where
  "Copy v fs st u from to =
     bindE (OpenForReadWrite u from False) (\<lambda>(fd, u).
     if fd < 0 then Inr (No_Input, fs, st, u)
     else
       bindE (Lseek u fd 0 2) (\<lambda>u.
       let fileLength = Tell u fd in
       bindE (Lseek u fd 0 0) (\<lambda>u.
       bindE (FileSystem_Create v fs st to fileLength) (\<lambda>(created, fs, st).
       if \<not> created then bindE (Close_fd u fd) (\<lambda>u. Inr (No_Output, fs, st, u))
       else
         bindE (FileSystem_Open v fs st to) (\<lambda>openFile.
         case openFile of None \<Rightarrow> Inl Assert_Failed
         | Some f \<Rightarrow>
             bindE (Copy_loop v fd u f st) (\<lambda>(u, f, st).
             bindE (Close_fd u fd) (\<lambda>u. Inr (Copied, fs, st, u))))))))"

text \<open>\<open>Print\<close> and its loop: what is printed, if the file can be opened.\<close>

definition unprinted :: "OpenFile \<Rightarrow> nat" where
  "unprinted f = nat (FileHeader_FileLimit (of_hdr f) - of_seekPosition f)"

lemma Read_advances: "OpenFile_Read f st n = Inr (k, bs, f') \<Longrightarrow> 0 < k \<Longrightarrow> unprinted f' < unprinted f"
  by (auto simp: unprinted_def OpenFile_Read_def OpenFile_ReadAt_def Let_def bindE_eq_Inr split: if_splits)

function Print_loop :: "OpenFile \<Rightarrow> store \<Rightarrow> byte list res" where
  "Print_loop f st =
     bindE (OpenFile_Read f st TransferSize) (\<lambda>(amountRead, buffer, f).
     if amountRead > 0 then bindE (Print_loop f st) (\<lambda>rest. Inr (buffer @ rest)) else Inr [])"
  by pat_completeness auto
termination
  by (relation "measure (\<lambda>(f, st). unprinted f)") (auto intro: Read_advances)

declare Print_loop.simps [simp del]

lemma Print_loop_step:
  "OpenFile_Read f st TransferSize = Inr (k, bs, f') \<Longrightarrow>
    Print_loop f st = (if 0 < k then bindE (Print_loop f' st) (\<lambda>rest. Inr (bs @ rest)) else Inr [])"
  by (subst Print_loop.simps) simp

definition Print :: "fs_env \<Rightarrow> FileSystem \<Rightarrow> store \<Rightarrow> byte list \<Rightarrow> byte list option res" where
  "Print v fs st name =
     bindE (FileSystem_Open v fs st name) (\<lambda>openFile.
     case openFile of None \<Rightarrow> Inr None | Some f \<Rightarrow> bindE (Print_loop f st) (\<lambda>out. Inr (Some out)))"

section \<open>main\<close>

record requests =
  debugArg :: string
  userProgName :: "string option"
  threadTestFlag :: bool
  consoleTestFlag :: bool
  networkTestFlag :: bool
  copyFileNames :: "(string \<times> string) option"
  printFileName :: "string option"
  removeFileName :: "string option"
  dirListFlag :: bool
  dumpFlag :: bool

text \<open>The loop over \<open>argv\<close>. The usage and the copyright message leave no trace.\<close>

fun main_args :: "string list \<Rightarrow> requests \<Rightarrow> requests res" where
  "main_args [] r = Inr r"
| "main_args (a # rest) r =
     (if a = ''-d'' then (case rest of b # rest \<Rightarrow> main_args rest (r\<lparr>debugArg := b\<rparr>) | [] \<Rightarrow> Inl Assert_Failed)
      else if a = ''-z'' then main_args rest r
      else if a = ''-x'' then (case rest of b # rest \<Rightarrow> main_args rest (r\<lparr>userProgName := Some b\<rparr>) | [] \<Rightarrow> Inl Assert_Failed)
      else if a = ''-K'' then main_args rest (r\<lparr>threadTestFlag := True\<rparr>)
      else if a = ''-C'' then main_args rest (r\<lparr>consoleTestFlag := True\<rparr>)
      else if a = ''-N'' then main_args rest (r\<lparr>networkTestFlag := True\<rparr>)
      else if a = ''-cp'' then (case rest of b # c # rest \<Rightarrow> main_args rest (r\<lparr>copyFileNames := Some (b, c)\<rparr>) | _ \<Rightarrow> Inl Assert_Failed)
      else if a = ''-p'' then (case rest of b # rest \<Rightarrow> main_args rest (r\<lparr>printFileName := Some b\<rparr>) | [] \<Rightarrow> Inl Assert_Failed)
      else if a = ''-r'' then (case rest of b # rest \<Rightarrow> main_args rest (r\<lparr>removeFileName := Some b\<rparr>) | [] \<Rightarrow> Inl Assert_Failed)
      else if a = ''-l'' then main_args rest (r\<lparr>dirListFlag := True\<rparr>)
      else if a = ''-D'' then main_args rest (r\<lparr>dumpFlag := True\<rparr>)
      else main_args rest r)"

definition main_requests :: "string list \<Rightarrow> requests res" where
  "main_requests argv = main_args (drop 1 argv)
     \<lparr>debugArg = '''', userProgName = None, threadTestFlag = False, consoleTestFlag = False, networkTestFlag = False,
      copyFileNames = None, printFileName = None, removeFileName = None, dirListFlag = False, dumpFlag = False\<rparr>"

text \<open>
  The requests on files, in the order of the source: remove, copy, list, print; the dump of the file
  system only prints. What the user sees is the list of names and the contents printed.
\<close>

record shown =
  sh_copied :: "copied option"
  sh_names :: "byte list list"
  sh_printed :: "byte list option"

definition name_of :: "string \<Rightarrow> byte list" where
  "name_of s = List.map of_char s"

definition main_files :: "fs_env \<Rightarrow> requests \<Rightarrow> FileSystem \<Rightarrow> store \<Rightarrow> unix \<Rightarrow> (shown \<times> FileSystem \<times> store \<times> unix) res" where
  "main_files v r fs st u =
     bindE (case removeFileName r of None \<Rightarrow> Inr (fs, st)
            | Some n \<Rightarrow> bindE (FileSystem_Remove v fs st (name_of n)) (\<lambda>(_, fs, st). Inr (fs, st))) (\<lambda>(fs, st).
     bindE (case copyFileNames r of None \<Rightarrow> Inr (None, fs, st, u)
            | Some (from, to) \<Rightarrow> bindE (Copy v fs st u (name_of from) (name_of to)) (\<lambda>(c, fs, st, u). Inr (Some c, fs, st, u)))
       (\<lambda>(c, fs, st, u).
     bindE (if dirListFlag r then FileSystem_List v fs st else Inr []) (\<lambda>names.
     bindE (case printFileName r of None \<Rightarrow> Inr None | Some n \<Rightarrow> Print v fs st (name_of n)) (\<lambda>out.
     Inr (\<lparr>sh_copied = c, sh_names = names, sh_printed = out\<rparr>, fs, st, u)))))"

text \<open>
  What surrounds the requests on files, in both builds: the debug object, the kernel with its own pass
  over the arguments, and at the end the user program or \<open>Halt\<close>. The self tests of the kernel are code
  of its first thread.
\<close>

definition main_start :: "(string \<Rightarrow> rat) \<Rightarrow> string list \<Rightarrow> surroundings \<Rightarrow> (requests \<times> Debug \<times> options \<times> nachos) res" where
  "main_start atof argv u =
     bindE (main_requests argv) (\<lambda>r.
     bindE (Kernel_new atof argv) (\<lambda>opt.
     bindE (Kernel_Initialize u opt) (\<lambda>k. Inr (r, Debug_new (Some (debugArg r)), opt, k))))"

definition main_finish :: "AddrSpace \<Rightarrow> byte list \<Rightarrow> requests \<Rightarrow> nachos \<Rightarrow> nachos res" where
  "main_finish junkSpace junkHeader r k =
     (case userProgName r of None \<Rightarrow> Interrupt_Halt k
      | Some name \<Rightarrow>
          bindE (user_machine k) (\<lambda>m.
          bindE (MemoryManager_createAddrSpace junkSpace junkHeader m (m_pid m) (name_of name)) (\<lambda>(space, m).
          case space of None \<Rightarrow> Inl Assert_Failed
          | Some s \<Rightarrow> bindE (leave_machine m k) (\<lambda>k. Execute s k))))"

section \<open>Printing shows the contents\<close>

lemma Read_rest:
  assumes "of_ok \<lparr>of_hdr = h, of_seekPosition = p\<rparr> st" "0 \<le> p"
  defines "c \<equiv> of_contents \<lparr>of_hdr = h, of_seekPosition = 0\<rparr> st"
  shows "OpenFile_Read \<lparr>of_hdr = h, of_seekPosition = p\<rparr> st TransferSize =
    (let r = take 128 (drop (nat p) c) in Inr (int (length r), r, \<lparr>of_hdr = h, of_seekPosition = p + int (length r)\<rparr>))"
proof -
  have "of_contents \<lparr>of_hdr = h, of_seekPosition = p\<rparr> st = c" by (simp add: of_contents_def c_def)
  then show ?thesis
    using disk_file.read_law [OF assms(1,2), of TransferSize] by (simp add: OpenFile_Read_def TransferSize_def Let_def)
qed

lemma chunk: "take n xs @ drop (length (take n xs)) xs = xs"
  by (cases "n \<le> length xs") simp_all

lemma Print_loop_ok:
  assumes "of_ok \<lparr>of_hdr = h, of_seekPosition = 0\<rparr> st" "0 \<le> p"
  shows "Print_loop \<lparr>of_hdr = h, of_seekPosition = p\<rparr> st = Inr (drop (nat p) (of_contents \<lparr>of_hdr = h, of_seekPosition = 0\<rparr> st))"
  using assms(2)
proof (induction "length (of_contents \<lparr>of_hdr = h, of_seekPosition = 0\<rparr> st) - nat p" arbitrary: p rule: less_induct)
  case less
  let ?c = "of_contents \<lparr>of_hdr = h, of_seekPosition = 0\<rparr> st"
  let ?r = "take 128 (drop (nat p) ?c)"
  have ok: "of_ok \<lparr>of_hdr = h, of_seekPosition = p\<rparr> st" using assms(1) by (simp add: of_ok_def)
  note step = Print_loop_step [OF Read_rest [OF ok less.prems, unfolded Let_def]]
  show ?case
  proof (cases "?r = []")
    case True
    then have "drop (nat p) ?c = []" by (cases "drop (nat p) ?c") simp_all
    with True show ?thesis unfolding step by simp
  next
    case False
    then have len: "0 < length ?r" by simp
    define q where "q = p + int (length ?r)"
    have q: "nat q = nat p + length ?r" "0 \<le> q" using less.prems by (simp_all add: q_def)
    have "nat p < length ?c" using False by simp
    then have "length ?c - nat q < length ?c - nat p" using q(1) len by linarith
    from less.hyps [OF this q(2)]
    have "Print_loop \<lparr>of_hdr = h, of_seekPosition = p\<rparr> st = Inr (?r @ drop (nat q) ?c)"
      unfolding step using len by (simp add: q_def)
    also have "?r @ drop (nat q) ?c = drop (nat p) ?c"
      using chunk [of 128 "drop (nat p) ?c"] unfolding q(1) by (simp only: drop_drop add.commute)
    finally show ?thesis .
  qed
qed

lemma stored_of_ok: "stored_file hf s h hm fm st \<Longrightarrow> of_ok \<lparr>of_hdr = hf, of_seekPosition = p\<rparr> st"
  by (auto simp: stored_file_def of_ok_def)

lemma open_stored:
  assumes "mounted fs hm fm h d st" "env_ok v" "components path = [n]" "dir_map d (name_key n) = Some s" "stored_file hf s h hm fm st"
  shows "FileSystem_Open v fs st path = Inr (Some \<lparr>of_hdr = hf, of_seekPosition = 0\<rparr>)"
proof -
  have h: "fh_wf hf" "fh_selfSector hf = s" "st s = FileHeader_bytes hf" using assms(5) by (simp_all add: stored_file_def)
  have "s \<in> bm_used fm" "map_ok fm" using assms(5) h(2) by (auto simp: stored_file_def file_on_disk_def file_ok_def)
  then have "0 \<le> s" "s < 1024" using used_range by auto
  then have "OpenFile_new st s = Inr \<lparr>of_hdr = hf, of_seekPosition = 0\<rparr>"
    using h FileHeader_roundtrip [OF h(1)] by (simp add: OpenFile_new_def FileHeader_FetchFrom_def)
  then show ?thesis using mounted_root [OF assms(1,2)] assms(3,4) \<open>0 \<le> s\<close> by (simp add: FileSystem_Open_def)
qed

lemma print_stored:
  assumes "mounted fs hm fm h d st" "env_ok v" "components path = [n]" "dir_map d (name_key n) = Some s" "stored_file hf s h hm fm st"
  shows "Print v fs st path = Inr (Some (of_contents \<lparr>of_hdr = hf, of_seekPosition = 0\<rparr> st))"
  using open_stored [OF assms] Print_loop_ok [OF stored_of_ok [OF assms(5)], of 0] by (simp add: Print_def)

lemma write_stored:
  assumes "mounted fs hm fm h d st" "stored_file hf s h hm fm st" "0 < n" "0 \<le> p" "p \<le> fh_limit hf" "p + n \<le> fh_capacity hf"
    "n \<le> int (length data)" "0 < depth"
  defines "hf' \<equiv> hf\<lparr>fh_limit := p + n\<rparr>"
  shows "\<exists>st'. OpenFile_WriteAt depth junk \<lparr>of_hdr = hf, of_seekPosition = 0\<rparr> st data n p = Inr (n, \<lparr>of_hdr = hf', of_seekPosition = 0\<rparr>, st')
    \<and> mounted fs hm fm h d st' \<and> stored_file hf' s h hm fm st'
    \<and> of_contents \<lparr>of_hdr = hf', of_seekPosition = 0\<rparr> st'
        = take (nat p) (of_contents \<lparr>of_hdr = hf, of_seekPosition = 0\<rparr> st) @ take (nat n) data"
proof -
  let ?f = "\<lparr>of_hdr = hf, of_seekPosition = 0\<rparr>"
  have sf: "file_ok hf fm st" "fh_wf hf" "fh_selfSector hf = s" "insert s (fh_owned hf st) \<inter> insert 0 (fh_owned hm st) = {}"
    "insert s (fh_owned hf st) \<inter> insert (fh_selfSector h) (fh_owned h st) = {}"
    using assms(2) by (auto simp: stored_file_def file_on_disk_def)
  obtain dep where dep: "depth = Suc dep" using assms(8) by (cases depth) auto
  obtain st' where w: "OpenFile_WriteAt (Suc dep) junk ?f st data n p = Inr (n, \<lparr>of_hdr = hf', of_seekPosition = 0\<rparr>, st')"
    "file_ok hf' fm st'" "fh_owned hf st' = fh_owned hf st"
    "of_contents \<lparr>of_hdr = hf', of_seekPosition = 0\<rparr> st' = take (nat p) (of_contents ?f st) @ take (nat n) data"
    "st' s = FileHeader_bytes hf'" "\<forall>t. t \<notin> fh_owned hf st \<union> {s} \<longrightarrow> st' t = st t"
    using WriteAt_file [of ?f fm st n p data dep junk] assms(3-7) sf(1,3) by (auto simp: hf'_def)
  have own: "fh_owned hf' st' = fh_owned hf st" using w(3) limit_owned [of "p + n" hf st'] by (simp add: hf'_def)
  have "fh_capacity hf \<le> MaxFileSize" using sf(1) by (simp add: file_ok_def fh_inv_def fh_shape_def)
  then have wf: "fh_wf hf'" using sf(2) assms(3,4,6) by (auto simp: hf'_def fh_wf_def fh_ints_def int_ok_def)
  have so: "store_ok st'" "map_ok fm" using w(2) by (simp_all add: file_ok_def)
  have m: "map_on_disk hm fm st" and df: "dir_file h fm st d" using assms(1) by (simp_all add: mounted_def dir_on_disk_parts)
  note ms = mounted_store [OF assms(1)] and mh = map_header(2) [OF m]
  have "st' 0 = st 0" "st' (fh_dataSectors hm ! 0) = st (fh_dataSectors hm ! 0)" using w(6) sf(4) mh by auto
  note m' = map_on_disk_frame [OF m so(1) this]
  have "st' t = st t" if "t \<in> insert (fh_selfSector h) (fh_owned h st)" for t using that w(6) sf(5) by blast
  note d' = dir_file_frame [OF df so ms(2) this]
  have "mounted fs hm fm h d st'"
    using assms(1) m' d' ms(4) by (simp add: mounted_def dir_on_disk_parts)
  moreover have "stored_file hf' s h hm fm st'"
    using w(2,5) wf sf(3-5) m' d'(2) unfolding stored_file_def file_on_disk_def own by (simp add: hf'_def)
  ultimately show ?thesis using w(1,4) unfolding dep by blast
qed


section \<open>What Copy leaves behind\<close>

lemma create_body_skips: "type \<noteq> TYPE_DIR \<Longrightarrow> type \<noteq> TYPE_FILE \<Longrightarrow> create_body v s type fm st = Inr (env_success v, fm, st)"
  by (simp add: create_body_def Let_def)

lemma create_reserves:
  assumes "mounted fs hm fm h d st" "env_ok v" "components path = [n]"
    and "dir_map d (name_key n) = None" "dir_count d < 10" "0 < bm_free fm" "1 < type"
  shows "\<exists>s fm' d' st'. FileSystem_Create v fs st path type = Inr (env_success v, fs, st')
    \<and> s \<notin> bm_used fm \<and> bm_used fm' = insert s (bm_used fm) \<and> mounted fs hm fm' h d' st'
    \<and> dir_map d' = (dir_map d)(name_key n \<mapsto> s) \<and> st' s = st s"
proof -
  have body: "create_body v s type fm' st1 = Inr (env_success v, fm', st1(s := st1 s)) \<and> length (st1 s) = 128"
    if "0 < s" "s < 1024" "store_ok st1" for s fm' st1
    using assms(7) that create_body_skips by (simp add: TYPE_DIR_def TYPE_FILE_def store_ok_def)
  show ?thesis using create_entry_ok [OF assms(1-6), of type "env_success v" "\<lambda>_ b. b"] body by blast
qed

lemma host_file_opened:
  assumes "ux_names u from = Some i" "0 \<le> ux_nextFd u"
  defines "fd \<equiv> ux_nextFd u"
  defines "u1 \<equiv> u\<lparr>ux_fds := (ux_fds u)(fd \<mapsto> (i, 0)), ux_nextFd := fd + 1\<rparr>"
  shows "OpenForReadWrite u from False = Inr (fd, u1)"
    "\<exists>u2. Lseek u1 fd 0 2 = Inr u2 \<and> Tell u2 fd = int (length (ux_inodes u i)) \<and> Lseek u2 fd 0 0 = Inr u1"
    "\<exists>u3. Close_fd u1 fd = Inr u3 \<and> ux_inodes u3 = ux_inodes u" "0 \<le> fd"
  using assms(1,2)
  by (auto simp: OpenForReadWrite_def ux_open_def Lseek_def ux_lseek_def Tell_def Close_fd_def Let_def fd_def u1_def)

lemma Copy_loop_empty:
  assumes "ux_fds u fd = Some (i, 0)" "ux_inodes u i = []"
  shows "\<exists>u'. Copy_loop v fd u f st = Inr (u', f, st) \<and> ux_inodes u' = ux_inodes u \<and> ux_fds u' fd = Some (i, 0)"
  using assms by (simp add: Copy_loop.simps [of v fd u f st] ReadPartial_def ux_read_def)


definition example_hello :: unix where
  "example_hello = \<lparr>ux_names = [[97] \<mapsto> 0], ux_inodes = (\<lambda>_. [104, 105]), ux_fds = Map.empty, ux_nextInode = 1, ux_nextFd = 3\<rparr>"


text \<open>A freshly formatted disk, with the pipe file under the name \<open>a\<close> in the root directory.\<close>

lemma pipe_named:
  "\<exists>fs d st. mounted fs (format_map_hdr example_env) (low_map 14) (format_root_hdr example_env) d st
     \<and> dir_map d (name_key [97]) = Some PipeSector
     \<and> stored_file (format_pipe_hdr example_env) PipeSector (format_root_hdr example_env) (format_map_hdr example_env) (low_map 14) st"
proof -
  let ?R = "format_root_hdr example_env" and ?P = "format_pipe_hdr example_env" and ?M = "format_map_hdr example_env"
  obtain fs st where f: "formatted example_env fs st"
    using format_ok [OF _ example_env_ok, of "\<lambda>s. replicate 128 7"] by (auto simp: store_ok_def)
  note ff = formatted_free [OF f example_env_ok]
  obtain st' d' where a: "mounted fs ?M (low_map 14) ?R d' st'" "dir_map d' (name_key [97]) = Some PipeSector"
    "\<forall>t. t \<notin> insert (fh_selfSector ?R) (fh_owned ?R st) \<longrightarrow> st' t = st t"
    using mounted_add [OF ff(1) example_env_ok example_path _ ff(2,3), of PipeSector] by (auto simp: PipeSector_def int_ok_def)
  note ms = mounted_store [OF a(1)]
  have int: "int_ok TYPE_PIPE" "int_ok TYPE_DIR" "int_ok TYPE_FILE" by (simp_all add: int_ok_def TYPE_PIPE_def TYPE_DIR_def TYPE_FILE_def)
  have P: "fh_owned ?P st' = {6..<14}" "file_ok ?P (low_map 14) st'" "fh_wf ?P"
    using formatted_ok [OF example_env_ok, of 2 TYPE_PIPE 6 14 st' 0] ms(1) int(1) by (simp_all add: format_pipe_hdr_def)
  have R: "fh_owned ?R s = {4..<6}" if "store_ok s" for s
    using formatted_ok(1) [OF example_env_ok, of 1 TYPE_DIR 4 6 s 204] that int(2) by (simp add: format_root_hdr_def)
  have M: "fh_owned ?M st' = {3..<4}"
    using formatted_ok(1) [OF example_env_ok, of 0 TYPE_FILE 3 4 st' 128] ms(1) int(3) by (simp add: format_map_hdr_def)
  have self: "fh_selfSector ?R = 1" "fh_selfSector ?P = 2" by (simp_all add: format_root_hdr_def format_pipe_hdr_def formatted_hdr_def)
  have "st' PipeSector = FileHeader_bytes ?P"
    using a(3) f R [OF mounted_store(1) [OF ff(1)]] self(1) by (simp add: formatted_def PipeSector_def)
  then have "stored_file ?P PipeSector ?R ?M (low_map 14) st'"
    using P mounted_map(2) [OF a(1)] R [OF ms(1)] M self by (auto simp: stored_file_def file_on_disk_def PipeSector_def)
  with a show ?thesis by blast
qed


end
